(* ===== verification/Prelude.thy ===== *)
theory Prelude
  imports Complex_Main "HOL-Library.AList" "HOL-Library.Sublist"
begin

text \<open>
  Shared types and facts of the development.

  A Python dictionary is an association list with distinct keys, in insertion order:
  \<^verbatim>\<open>d[k] = v\<close> is \<^verbatim>\<open>AList.update\<close> (an existing key keeps its position, a new one
  goes to the end), \<^verbatim>\<open>d.get(k)\<close> is \<^verbatim>\<open>map_of\<close> and \<^verbatim>\<open>d.pop(k, None)\<close> is
  \<^verbatim>\<open>AList.delete\<close>.  A point in time is a number of microseconds (the resolution of
  \<^verbatim>\<open>datetime\<close>).  A floating-point number is a rational number: arithmetic on it is exact
  here, so a property that depends on rounding is never stated.
\<close>

type_synonym name = string
type_synonym time = int
type_synonym ('k, 'v) dict = "('k \<times> 'v) list"

named_theorems dict_simps "lookup, key and distinctness facts on dictionaries"
named_theorems inv_intros "an operation keeps the invariant of its component"
named_theorems frame_simps "fields that an operation leaves unchanged"

section \<open>Dictionaries\<close>

abbreviation dict_ok :: "('k, 'v) dict \<Rightarrow> bool" where
  "dict_ok d \<equiv> distinct (map fst d)"

abbreviation keys :: "('k, 'v) dict \<Rightarrow> 'k list" where
  "keys d \<equiv> map fst d"

text \<open>\<^verbatim>\<open>d.get(k, default)\<close>.\<close>

definition dget :: "'v \<Rightarrow> ('k, 'v) dict \<Rightarrow> 'k \<Rightarrow> 'v" where
  "dget v d k = (case map_of d k of None \<Rightarrow> v | Some w \<Rightarrow> w)"

lemma map_of_update [simp, dict_simps]:
  "map_of (AList.update k v d) j = (if j = k then Some v else map_of d j)"
  by (simp add: AList.update_conv')

lemma map_of_delete_iff [dict_simps]:
  "map_of (AList.delete k d) j = (if j = k then None else map_of d j)"
  by (simp add: AList.delete_conv')

lemma dget_update [simp, dict_simps]:
  "dget v (AList.update k w d) j = (if j = k then w else dget v d j)"
  by (simp add: dget_def)

lemma dget_delete [dict_simps]:
  "dget v (AList.delete k d) j = (if j = k then v else dget v d j)"
  by (simp add: dget_def map_of_delete_iff)

lemma dget_Nil [simp]: "dget v [] k = v"
  by (simp add: dget_def)

lemma dget_Cons [simp]: "dget v ((j, w) # d) k = (if k = j then w else dget v d k)"
  by (simp add: dget_def)

lemma dget_Some: "map_of d k = Some w \<Longrightarrow> dget v d k = w"
  by (simp add: dget_def)

lemma dict_ok_update [intro, simp]: "dict_ok d \<Longrightarrow> dict_ok (AList.update k v d)"
  by (simp add: AList.distinct_update)

lemma dict_ok_delete [intro, simp]: "dict_ok d \<Longrightarrow> dict_ok (AList.delete k d)"
  by (simp add: AList.distinct_delete)

lemma keys_update_old [dict_simps]:
  "k \<in> fst ` set d \<Longrightarrow> keys (AList.update k v d) = keys d"
  by (induction d) (auto simp: image_iff)

lemma keys_update_new [dict_simps]:
  "k \<notin> fst ` set d \<Longrightarrow> AList.update k v d = d @ [(k, v)]"
  by (induction d) auto

lemma keys_delete [dict_simps]: "keys (AList.delete k d) = removeAll k (keys d)"
  by (rule AList.delete_keys)

lemma keys_set_update [simp]: "fst ` set (AList.update k v d) = insert k (fst ` set d)"
  by (simp add: AList.dom_update)

lemma keys_set_delete [simp]: "fst ` set (AList.delete k d) = fst ` set d - {k}"
  by (induction d) auto

lemma set_delete_iff: "(j, v) \<in> set (AList.delete k d) \<longleftrightarrow> (j, v) \<in> set d \<and> j \<noteq> k"
  by (auto simp: AList.delete_eq)

lemma in_keys_iff_map_of: "k \<in> fst ` set d \<longleftrightarrow> map_of d k \<noteq> None"
  by (metis map_of_eq_None_iff)

lemma dict_value_in_update:
  "(j, w) \<in> set (AList.update k v d) \<Longrightarrow> (j, w) \<in> set d \<or> (j = k \<and> w = v)"
  by (induction d) (auto split: if_splits)

lemma dict_all_update [dict_simps]:
  "\<forall>(j, w) \<in> set d. P j w \<Longrightarrow> P k v \<Longrightarrow> \<forall>(j, w) \<in> set (AList.update k v d). P j w"
  by (auto dest: dict_value_in_update)

lemma dict_all_delete [dict_simps]:
  "\<forall>(j, w) \<in> set d. P j w \<Longrightarrow> \<forall>(j, w) \<in> set (AList.delete k d). P j w"
  by (auto simp: set_delete_iff)

section \<open>Lists\<close>

lemma find_Some_split:
  "List.find P xs = Some x \<longleftrightarrow> (\<exists>ys zs. xs = ys @ x # zs \<and> P x \<and> (\<forall>y \<in> set ys. \<not> P y))"
proof (induction xs)
  case Nil
  then show ?case by simp
next
  case (Cons a xs)
  show ?case
  proof (cases "P a")
    case True
    then show ?thesis
      by (auto simp: Cons_eq_append_conv)
  next
    case False
    have "(\<exists>ys zs. a # xs = ys @ x # zs \<and> P x \<and> (\<forall>y \<in> set ys. \<not> P y))
        \<longleftrightarrow> (\<exists>ys zs. xs = ys @ x # zs \<and> P x \<and> (\<forall>y \<in> set ys. \<not> P y))"
      using False by (auto simp: Cons_eq_append_conv) (metis append_Cons set_ConsD)
    with False Cons show ?thesis by simp
  qed
qed

lemma find_in_set: "List.find P xs = Some x \<Longrightarrow> x \<in> set xs \<and> P x"
  by (auto simp: find_Some_split)

text \<open>Position of the first occurrence, \<^verbatim>\<open>list.index\<close>.\<close>

fun index_of :: "'a \<Rightarrow> 'a list \<Rightarrow> nat option" where
  "index_of x [] = None"
| "index_of x (y # ys) = (if x = y then Some 0 else map_option Suc (index_of x ys))"

lemma index_of_None [simp]: "index_of x xs = None \<longleftrightarrow> x \<notin> set xs"
  by (induction xs) auto

lemma index_of_notin [simp]: "x \<notin> set xs \<Longrightarrow> index_of x xs = None"
  by simp

lemma index_of_SomeD: "index_of x xs = Some i \<Longrightarrow> i < length xs \<and> xs ! i = x"
  by (induction xs arbitrary: i) (auto split: if_splits simp: nth_Cons)

lemma index_of_Some_take: "index_of x xs = Some i \<Longrightarrow> x \<notin> set (take i xs)"
  by (induction xs arbitrary: i) (auto split: if_splits)

text \<open>Element \<^verbatim>\<open>x\<close> occurs before element \<^verbatim>\<open>y\<close>.\<close>

definition before :: "'a list \<Rightarrow> 'a \<Rightarrow> 'a \<Rightarrow> bool" where
  "before xs x y \<longleftrightarrow> (\<exists>as bs. xs = as @ bs \<and> x \<in> set as \<and> y \<in> set bs \<and> y \<notin> set as)"

lemma before_snoc_new: "x \<in> set xs \<Longrightarrow> y \<notin> set xs \<Longrightarrow> before (xs @ [y]) x y"
  unfolding before_def by (intro exI[of _ xs] exI[of _ "[y]"]) simp

lemma before_append: "before xs x y \<Longrightarrow> before (xs @ ys) x y"
  unfolding before_def by (metis append.assoc Un_iff set_append)

lemma before_in_set: "before xs x y \<Longrightarrow> x \<in> set xs \<and> y \<in> set xs"
  by (auto simp: before_def)

lemma before_asym: "before xs x y \<Longrightarrow> \<not> before xs y x"
proof
  assume "before xs x y" and "before xs y x"
  then obtain as bs cs ds where 1: "xs = as @ bs" "x \<in> set as" "y \<notin> set as"
    and 2: "xs = cs @ ds" "y \<in> set cs" "x \<notin> set cs"
    unfolding before_def by blast
  then show False by (auto simp: append_eq_append_conv2)
qed

lemma before_rev:
  assumes "distinct xs" "before xs x y"
  shows "before (rev xs) y x"
proof -
  obtain as bs where "xs = as @ bs" "x \<in> set as" "y \<in> set bs"
    using assms(2) unfolding before_def by blast
  with assms(1) show ?thesis
    unfolding before_def by (intro exI[of _ "rev bs"] exI[of _ "rev as"]) auto
qed

section \<open>Results\<close>

text \<open>A raised exception is \<^verbatim>\<open>Inl\<close>, a returned value is \<^verbatim>\<open>Inr\<close>.\<close>

fun is_ok :: "'e + 'a \<Rightarrow> bool" where
  "is_ok (Inl _) = False"
| "is_ok (Inr _) = True"

text \<open>
  Sequencing.  \<^verbatim>\<open>obind\<close> is for code with a loop run on fuel: \<^verbatim>\<open>None\<close> says the fuel ran out.
\<close>

fun ebind :: "'e + 'a \<Rightarrow> ('a \<Rightarrow> 'e + 'b) \<Rightarrow> 'e + 'b" where
  "ebind (Inl e) f = Inl e"
| "ebind (Inr x) f = f x"

fun obind :: "('e + 'a) option \<Rightarrow> ('a \<Rightarrow> ('e + 'b) option) \<Rightarrow> ('e + 'b) option" where
  "obind None f = None"
| "obind (Some (Inl e)) f = Some (Inl e)"
| "obind (Some (Inr x)) f = f x"

lemma ebind_Inr: "ebind r f = Inr y \<longleftrightarrow> (\<exists>x. r = Inr x \<and> f x = Inr y)"
  by (cases r) auto

lemma obind_Inr: "obind r f = Some (Inr y) \<longleftrightarrow> (\<exists>x. r = Some (Inr x) \<and> f x = Some (Inr y))"
  by (cases "(r, f)" rule: obind.cases) auto

lemma is_ok_iff: "is_ok r \<longleftrightarrow> (\<exists>x. r = Inr x)"
  by (cases r) auto

section \<open>Stable sorting\<close>

text \<open>
  \<^verbatim>\<open>sorted(xs, key=f)\<close> is \<^verbatim>\<open>sort_key f xs\<close> and \<^verbatim>\<open>sorted(xs, key=f, reverse=True)\<close> is
  \<^verbatim>\<open>sort_key (\<lambda>x. - f x) xs\<close>: both keep the order of equal elements.
\<close>

lemma sort_key_filter_eq:
  "filter (\<lambda>y. f y = k) (sort_key f xs) = filter (\<lambda>y. f y = k) xs"
  by (rule sort_key_stable)

lemma sorted_desc_nth:
  fixes f :: "'a \<Rightarrow> 'b::{linordered_ab_group_add}"
  assumes "i \<le> j" "j < length xs"
  shows "f (sort_key (\<lambda>x. - f x) xs ! j) \<le> f (sort_key (\<lambda>x. - f x) xs ! i)"
proof -
  have "sorted (map (\<lambda>x. - f x) (sort_key (\<lambda>x. - f x) xs))"
    by (rule sorted_sort_key)
  from sorted_nth_mono[OF this, of i j] assms show ?thesis by simp
qed

section \<open>Walks\<close>

text \<open>
  A loop that follows a relation in which every node has at most one successor returns exactly
  when no node on its way lies on a cycle.
\<close>

definition cycle_free :: "('a \<times> 'a) set \<Rightarrow> 'a \<Rightarrow> bool" where
  "cycle_free R i \<longleftrightarrow> \<not> (\<exists>k. (i, k) \<in> R\<^sup>* \<and> (k, k) \<in> R\<^sup>+)"

lemma cycle_free_end: "\<nexists>p. (i, p) \<in> R \<Longrightarrow> cycle_free R i"
  unfolding cycle_free_def by (blast elim: converse_rtranclE dest: tranclD)

lemma cycle_free_step:
  assumes "single_valued R" "(i, p) \<in> R" "cycle_free R p"
  shows "cycle_free R i"
  unfolding cycle_free_def
proof
  assume "\<exists>k. (i, k) \<in> R\<^sup>* \<and> (k, k) \<in> R\<^sup>+"
  then obtain k where k: "(i, k) \<in> R\<^sup>*" "(k, k) \<in> R\<^sup>+" by blast
  then have "(i, k) \<in> R\<^sup>+" by (metis rtrancl_trancl_trancl)
  then obtain q where "(i, q) \<in> R" "(q, k) \<in> R\<^sup>*" by (meson tranclD)
  with assms(1,2) have "(p, k) \<in> R\<^sup>*" by (auto dest: single_valuedD)
  with k(2) assms(3) show False by (auto simp: cycle_free_def)
qed

lemma cycle_free_induct [consumes 2, case_names walk]:
  assumes "finite R" "cycle_free R i"
    and walk: "\<And>j. (i, j) \<in> R\<^sup>* \<Longrightarrow> (\<And>p. (j, p) \<in> R \<Longrightarrow> P p) \<Longrightarrow> P j"
  shows "P i"
proof -
  let ?R = "{(a, b). (a, b) \<in> R \<and> (i, a) \<in> R\<^sup>*}"
  have sub: "?R \<subseteq> R" by auto
  have reach: "(a, b) \<in> ?R\<^sup>+ \<Longrightarrow> (i, a) \<in> R\<^sup>* \<and> (a, b) \<in> R\<^sup>+" for a b
    using trancl_mono[OF _ sub] by (auto dest: tranclD)
  have "(x, x) \<notin> ?R\<^sup>+" for x using reach[of x x] assms(2) unfolding cycle_free_def by blast
  then have "acyclic ?R" unfolding acyclic_def by blast
  with finite_subset[OF sub assms(1)] have wf: "wf (?R\<inverse>)" by (rule finite_acyclic_wf_converse)
  have "(i, j) \<in> R\<^sup>* \<Longrightarrow> P j" for j
    using wf
  proof (induction j rule: wf_induct_rule)
    case (less j)
    show ?case
    proof (rule walk[OF less.prems])
      fix p
      assume p: "(j, p) \<in> R"
      then have "(p, j) \<in> ?R\<inverse>" "(i, p) \<in> R\<^sup>*" using less.prems by auto
      then show "P p" by (rule less.IH)
    qed
  qed
  then show ?thesis by simp
qed

section \<open>Rounding\<close>

text \<open>Python's \<^verbatim>\<open>round\<close>: ties go to the even neighbour.\<close>

definition round_half_even :: "rat \<Rightarrow> int" where
  "round_half_even x =
     (let f = \<lfloor>x\<rfloor>; d = x - of_int f
      in if d < 1/2 then f else if d > 1/2 then f + 1 else if even f then f else f + 1)"

lemma round_half_even_le: "x \<le> of_int n \<Longrightarrow> round_half_even x \<le> n"
  unfolding round_half_even_def Let_def
  by (auto simp: not_less floor_less_iff) (linarith | meson dual_order.trans floor_le_iff not_le)+

lemma round_half_even_nonneg: "0 \<le> x \<Longrightarrow> 0 \<le> round_half_even x"
  by (auto simp: round_half_even_def Let_def)

lemma round_half_even_int [simp]: "round_half_even (of_int n) = n"
  by (simp add: round_half_even_def Let_def)

end
