(* ===== verification/Lifecycle.thy ===== *)
theory Lifecycle
  imports Prelude
begin

text \<open>
  The three status machines of the system: the phase of the runtime
  (\<^verbatim>\<open>runtime/lifecycle.py\<close>), the status of an orchestration task and the status of a
  pipeline (\<^verbatim>\<open>orchestration/lifecycle.py\<close>).  Each is a transition table with a guarded
  operation that raises on a move outside the table.  The locale states the contract of
  such an operation once; the three tables interpret it.
\<close>

section \<open>The contract of a guarded transition\<close>

locale guarded_machine =
  fixes can :: "'s \<Rightarrow> 's \<Rightarrow> bool"
    and move :: "'s \<Rightarrow> 's \<Rightarrow> 'e + 's"
  assumes move_legal: "can s t \<Longrightarrow> move s t = Inr t"
    and move_ok: "move s t = Inr u \<Longrightarrow> u = t \<and> (t = s \<or> can s t)"
begin

text \<open>A client that issues requests one after the other; a refused one leaves the status.\<close>

fun run :: "'s \<Rightarrow> 's list \<Rightarrow> 's" where
  "run s [] = s"
| "run s (t # ts) = run (case move s t of Inl _ \<Rightarrow> s | Inr u \<Rightarrow> u) ts"

lemma run_path: "can\<^sup>*\<^sup>* s (run s ts)"
proof (induction s ts rule: run.induct)
  case (1 s)
  then show ?case by simp
next
  case (2 s t ts)
  show ?case
  proof (cases "move s t")
    case (Inl e)
    with 2 show ?thesis by simp
  next
    case (Inr u)
    then have "u = s \<or> can s u" using move_ok by blast
    with 2 Inr show ?thesis by (auto intro: converse_rtranclp_into_rtranclp)
  qed
qed

lemma path_run: "can\<^sup>*\<^sup>* s t \<Longrightarrow> \<exists>ts. run s ts = t"
proof (induction rule: converse_rtranclp_induct)
  case base
  have "run t [] = t" by simp
  then show ?case by blast
next
  case (step s u)
  then obtain ts where "run u ts = t" by blast
  then have "run s (u # ts) = t" using move_legal step.hyps(1) by simp
  then show ?case by blast
qed

lemma run_iff_path: "(\<exists>ts. run s ts = t) \<longleftrightarrow> can\<^sup>*\<^sup>* s t"
  using run_path path_run by blast

text \<open>A set of statuses that no transition leaves is never left by a client.\<close>

lemma run_closed:
  assumes "\<And>u v. u \<in> A \<Longrightarrow> can u v \<Longrightarrow> v \<in> A" and "s \<in> A"
  shows "run s ts \<in> A"
proof -
  have "can\<^sup>*\<^sup>* s (run s ts)" by (rule run_path)
  then show ?thesis using assms by (induction rule: rtranclp_induct) auto
qed

lemma run_terminal: "(\<And>v. \<not> can s v) \<Longrightarrow> run s ts = s"
  using run_closed[of "{s}" s ts] by auto

lemma move_error_iff: "(\<exists>e. move s t = Inl e) \<Longrightarrow> \<not> can s t"
  using move_legal by fastforce

end

section \<open>The runtime phase\<close>

datatype RuntimePhase = STOPPED | STARTING | RUNNING | DEGRADED | RECOVERING | STOPPING | FAILED

fun RUNTIME_TRANSITIONS :: "RuntimePhase \<Rightarrow> RuntimePhase list" where
  "RUNTIME_TRANSITIONS STOPPED = [STARTING]"
| "RUNTIME_TRANSITIONS STARTING = [RUNNING, FAILED, STOPPING]"
| "RUNTIME_TRANSITIONS RUNNING = [DEGRADED, RECOVERING, STOPPING, FAILED]"
| "RUNTIME_TRANSITIONS DEGRADED = [RUNNING, RECOVERING, STOPPING, FAILED]"
| "RUNTIME_TRANSITIONS RECOVERING = [RUNNING, DEGRADED, STOPPING]"
| "RUNTIME_TRANSITIONS STOPPING = [STOPPED, FAILED]"
| "RUNTIME_TRANSITIONS FAILED = [STARTING, STOPPED]"

datatype transition_error = InvalidRuntimeTransition RuntimePhase RuntimePhase

definition can_transition :: "RuntimePhase \<Rightarrow> RuntimePhase \<Rightarrow> bool" where
  "can_transition phase new_phase \<longleftrightarrow> new_phase \<in> set (RUNTIME_TRANSITIONS phase)"

definition transition :: "RuntimePhase \<Rightarrow> RuntimePhase \<Rightarrow> transition_error + RuntimePhase" where
  "transition phase new_phase =
     (if new_phase = phase then Inr phase
      else if \<not> can_transition phase new_phase
      then Inl (InvalidRuntimeTransition phase new_phase)
      else Inr new_phase)"

definition force :: "RuntimePhase \<Rightarrow> RuntimePhase \<Rightarrow> RuntimePhase" where
  "force phase new_phase = new_phase"

definition is_active :: "RuntimePhase \<Rightarrow> bool" where
  "is_active phase \<longleftrightarrow> phase \<in> {STARTING, RUNNING, DEGRADED, RECOVERING, STOPPING}"

interpretation runtime_lc: guarded_machine can_transition transition
  by unfold_locales (auto simp: transition_def can_transition_def split: if_splits)

lemma can_transition_simps [simp]:
  "can_transition s t \<longleftrightarrow> t \<in> set (RUNTIME_TRANSITIONS s)"
  by (simp add: can_transition_def)

lemma transition_keeps_on_error: "transition s t = Inl e \<Longrightarrow> s \<noteq> t \<and> \<not> can_transition s t"
  by (auto simp: transition_def split: if_splits)

lemma phase_between_stopped_and_active:
  "can_transition s t \<Longrightarrow> \<not> is_active s \<Longrightarrow> is_active t \<Longrightarrow> t = STARTING"
  by (cases s) (auto simp: is_active_def)

lemma phase_leaves_active:
  "can_transition s t \<Longrightarrow> is_active s \<Longrightarrow> \<not> is_active t \<Longrightarrow>
     s \<in> {STARTING, RUNNING, DEGRADED, STOPPING} \<and> (t = STOPPED \<longrightarrow> s = STOPPING)"
  by (cases s) (auto simp: is_active_def)

lemma phase_strongly_connected: "can_transition\<^sup>*\<^sup>* s t"
proof -
  have edge: "v \<in> set (RUNTIME_TRANSITIONS u) \<Longrightarrow> can_transition\<^sup>*\<^sup>* u v" for u v
    by (simp add: r_into_rtranclp)
  have down: "can_transition\<^sup>*\<^sup>* u STOPPING" if "u \<notin> {STOPPED, FAILED}" for u
  proof (cases "u = STOPPING")
    case False
    with that show ?thesis by (intro edge) (cases u, auto)
  qed simp
  have up: "can_transition\<^sup>*\<^sup>* STARTING u" for u
  proof -
    have "can_transition\<^sup>*\<^sup>* STARTING RUNNING" "can_transition\<^sup>*\<^sup>* STARTING STOPPING"
      by (rule edge, simp)+
    moreover have "can_transition\<^sup>*\<^sup>* RUNNING DEGRADED" "can_transition\<^sup>*\<^sup>* RUNNING RECOVERING"
        "can_transition\<^sup>*\<^sup>* STARTING FAILED" "can_transition\<^sup>*\<^sup>* STOPPING STOPPED"
      by (rule edge, simp)+
    ultimately show ?thesis by (cases u) (auto intro: rtranclp_trans)
  qed
  have "can_transition\<^sup>*\<^sup>* STOPPED STARTING" "can_transition\<^sup>*\<^sup>* FAILED STARTING"
    "can_transition\<^sup>*\<^sup>* STOPPING STOPPED"
    by (rule edge, simp)+
  then have "can_transition\<^sup>*\<^sup>* s STARTING"
    using down[of s] by (cases s) (auto intro: rtranclp_trans)
  then show ?thesis using up[of t] by (rule rtranclp_trans)
qed

section \<open>Tasks and pipelines\<close>

datatype TaskStatus =
  TPending | TReady | TRunning | TCompleted | TFailed | TSkipped | TCancelled

datatype PipelineStatus =
  PPending | PScheduled | PRunning | PPaused | PCompleted | PFailed | PCancelled | PRecovering

fun TASK_TRANSITIONS :: "TaskStatus \<Rightarrow> TaskStatus list" where
  "TASK_TRANSITIONS TPending = [TReady, TRunning, TSkipped, TCancelled]"
| "TASK_TRANSITIONS TReady = [TRunning, TSkipped, TCancelled]"
| "TASK_TRANSITIONS TRunning = [TCompleted, TFailed, TSkipped, TCancelled]"
| "TASK_TRANSITIONS TFailed = [TReady, TCancelled]"
| "TASK_TRANSITIONS TCompleted = []"
| "TASK_TRANSITIONS TSkipped = []"
| "TASK_TRANSITIONS TCancelled = []"

fun PIPELINE_TRANSITIONS :: "PipelineStatus \<Rightarrow> PipelineStatus list" where
  "PIPELINE_TRANSITIONS PPending = [PScheduled, PRunning, PCancelled]"
| "PIPELINE_TRANSITIONS PScheduled = [PRunning, PCancelled]"
| "PIPELINE_TRANSITIONS PRunning = [PCompleted, PFailed, PPaused, PRecovering]"
| "PIPELINE_TRANSITIONS PPaused = [PRunning, PRecovering, PCancelled]"
| "PIPELINE_TRANSITIONS PRecovering = [PRunning, PFailed, PPaused]"
| "PIPELINE_TRANSITIONS PFailed = [PRunning, PCancelled]"
| "PIPELINE_TRANSITIONS PCompleted = []"
| "PIPELINE_TRANSITIONS PCancelled = []"

datatype status_error =
    InvalidTaskTransition TaskStatus TaskStatus
  | InvalidPipelineTransition PipelineStatus PipelineStatus

definition can_transition_task :: "TaskStatus \<Rightarrow> TaskStatus \<Rightarrow> bool" where
  "can_transition_task current new \<longleftrightarrow> new \<in> set (TASK_TRANSITIONS current)"

definition can_transition_pipeline :: "PipelineStatus \<Rightarrow> PipelineStatus \<Rightarrow> bool" where
  "can_transition_pipeline current new \<longleftrightarrow> new \<in> set (PIPELINE_TRANSITIONS current)"

definition transition_task :: "TaskStatus \<Rightarrow> TaskStatus \<Rightarrow> status_error + TaskStatus" where
  "transition_task current new =
     (if new \<notin> set (TASK_TRANSITIONS current) then Inl (InvalidTaskTransition current new)
      else Inr new)"

definition transition_pipeline ::
  "PipelineStatus \<Rightarrow> PipelineStatus \<Rightarrow> status_error + PipelineStatus" where
  "transition_pipeline current new =
     (if new \<notin> set (PIPELINE_TRANSITIONS current) then Inl (InvalidPipelineTransition current new)
      else Inr new)"

interpretation task_lc: guarded_machine can_transition_task transition_task
  by unfold_locales
    (auto simp: transition_task_def can_transition_task_def split: if_splits)

interpretation pipeline_lc: guarded_machine can_transition_pipeline transition_pipeline
  by unfold_locales
    (auto simp: transition_pipeline_def can_transition_pipeline_def split: if_splits)

lemma task_terminal: "\<not> can_transition_task s t" if "s \<in> {TCompleted, TSkipped, TCancelled}"
  using that by (auto simp: can_transition_task_def)

lemma pipeline_terminal: "\<not> can_transition_pipeline s t" if "s \<in> {PCompleted, PCancelled}"
  using that by (auto simp: can_transition_pipeline_def)

lemma pipeline_cancel_sources:
  "can_transition_pipeline s PCancelled \<longleftrightarrow> s \<in> {PPending, PScheduled, PPaused, PFailed}"
  by (cases s) (auto simp: can_transition_pipeline_def)

section \<open>Properties\<close>

text \<open>A client of both operations of the runtime phase.\<close>

datatype phase_request = Request RuntimePhase | Force RuntimePhase

fun phase_step :: "RuntimePhase \<Rightarrow> phase_request \<Rightarrow> RuntimePhase" where
  "phase_step s (Request t) = (case transition s t of Inl _ \<Rightarrow> s | Inr u \<Rightarrow> u)"
| "phase_step s (Force t) = force s t"

definition phase_run :: "RuntimePhase \<Rightarrow> phase_request list \<Rightarrow> RuntimePhase" where
  "phase_run = foldl phase_step"

lemma phase_step_request: "phase_step s (Request t) = (if t = s \<or> can_transition s t then t else s)"
  by (auto simp: transition_def)

lemma phase_run_requests: "phase_run s (map Request ts) = runtime_lc.run s ts"
  by (induction ts arbitrary: s) (simp_all add: phase_run_def)

lemma first_activation:
  assumes "\<not> is_active s" "is_active (foldl f s rs)"
  obtains n where "n < length rs" "\<not> is_active (foldl f s (take n rs))" "is_active (f (foldl f s (take n rs)) (rs ! n))"
  using assms
proof (induction rs arbitrary: s thesis)
  case (Cons r rs)
  show ?case
  proof (cases "is_active (f s r)")
    case True
    then show ?thesis using Cons.prems(1)[of 0] Cons.prems(2) by simp
  next
    case False
    obtain n where "n < length rs" "\<not> is_active (foldl f (f s r) (take n rs))"
        "is_active (f (foldl f (f s r) (take n rs)) (rs ! n))"
      using Cons.IH[of "f s r"] False Cons.prems(3) by auto
    then show ?thesis using Cons.prems(1)[of "Suc n"] by simp
  qed
qed simp

text \<open>C11: Whatever sequence of \<^verbatim>\<open>transition\<close> and \<^verbatim>\<open>force\<close> calls is made on the phase, and however many transitions
  are refused: when it starts inactive and ends active, it became active at one of the calls, and that
  was a transition to \<^verbatim>\<open>STARTING\<close> or a \<^verbatim>\<open>force\<close>.  So without \<^verbatim>\<open>force\<close>, which can set any phase at
  once, it went through \<^verbatim>\<open>STARTING\<close>; and transitions alone can lead from any phase to any other.\<close>

theorem runtime_activates_through_starting:
  "(\<not> is_active s \<and> is_active (phase_run s rs) \<longrightarrow>
      (\<exists>n < length rs. \<not> is_active (phase_run s (take n rs)) \<and>
         (rs ! n = Request STARTING \<and> phase_run s (take (Suc n) rs) = STARTING \<or>
          (\<exists>p. rs ! n = Force p \<and> is_active p \<and> phase_run s (take (Suc n) rs) = p)))) \<and>
   phase_run s (rs @ [Force t]) = t \<and> (\<exists>us. phase_run s (map Request us) = t)"
proof (intro conjI impI)
  assume a: "\<not> is_active s \<and> is_active (phase_run s rs)"
  then obtain n where n: "n < length rs" "\<not> is_active (phase_run s (take n rs))"
      "is_active (phase_step (phase_run s (take n rs)) (rs ! n))"
    using first_activation[of s phase_step rs] unfolding phase_run_def by metis
  have e: "phase_run s (take (Suc n) rs) = phase_step (phase_run s (take n rs)) (rs ! n)"
    using n(1) by (simp add: phase_run_def take_Suc_conv_app_nth)
  show "\<exists>n < length rs. \<not> is_active (phase_run s (take n rs)) \<and>
         (rs ! n = Request STARTING \<and> phase_run s (take (Suc n) rs) = STARTING \<or>
          (\<exists>p. rs ! n = Force p \<and> is_active p \<and> phase_run s (take (Suc n) rs) = p))"
  proof (cases "rs ! n")
    case (Request t)
    then have t: "can_transition (phase_run s (take n rs)) t" "is_active t"
      "phase_step (phase_run s (take n rs)) (rs ! n) = t"
      using n(2,3) by (auto simp: phase_step_request simp del: phase_step.simps split: if_splits)
    have "t = STARTING" by (rule phase_between_stopped_and_active[OF t(1) n(2) t(2)])
    then show ?thesis using n t(3) e Request by (intro exI[of _ n]) simp
  next
    case (Force p)
    then show ?thesis using n e by (intro exI[of _ n]) (simp add: force_def)
  qed
next
  show "phase_run s (rs @ [Force t]) = t" by (simp add: phase_run_def force_def)
  show "\<exists>us. phase_run s (map Request us) = t"
    unfolding phase_run_requests using phase_strongly_connected by (rule runtime_lc.path_run)
qed

theorem runtime_activates_through_starting_witness:
  "\<exists>n < 3. \<not> is_active (phase_run STOPPED (take n [Request RUNNING, Request STARTING, Request RUNNING])) \<and>
    phase_run STOPPED (take (Suc n) [Request RUNNING, Request STARTING, Request RUNNING]) = STARTING"
proof -
  let ?rs = "[Request RUNNING, Request STARTING, Request RUNNING]"
  have "phase_run STOPPED ?rs = RUNNING" by (simp add: phase_run_def transition_def)
  then have "\<not> is_active STOPPED \<and> is_active (phase_run STOPPED ?rs)" by (simp add: is_active_def)
  with runtime_activates_through_starting[of STOPPED ?rs]
  obtain n where n: "n < length ?rs" "\<not> is_active (phase_run STOPPED (take n ?rs))"
    "?rs ! n = Request STARTING \<and> phase_run STOPPED (take (Suc n) ?rs) = STARTING \<or>
     (\<exists>p. ?rs ! n = Force p \<and> is_active p \<and> phase_run STOPPED (take (Suc n) ?rs) = p)" by blast
  have "?rs ! n \<noteq> Force p" for p using n(1) by (auto simp: nth_Cons' less_Suc_eq)
  then show ?thesis using n by (intro exI[of _ n]) auto
qed

text \<open>Completed, skipped and cancelled tasks and completed and cancelled pipelines are
  final under any sequence of requested transitions, and a request is refused exactly when
  the table does not list it; in particular a running pipeline cannot be cancelled directly.\<close>

theorem terminal_statuses_final:
  "(s \<in> {TCompleted, TSkipped, TCancelled} \<longrightarrow> task_lc.run s ts = s) \<and>
   (p \<in> {PCompleted, PCancelled} \<longrightarrow> pipeline_lc.run p ps = p) \<and>
   (is_ok (transition_pipeline q r) \<longleftrightarrow> can_transition_pipeline q r) \<and>
   (is_ok (transition_task t u) \<longleftrightarrow> can_transition_task t u) \<and>
   transition_pipeline PRunning PCancelled = Inl (InvalidPipelineTransition PRunning PCancelled)"
  using task_terminal[of s] pipeline_terminal[of p] task_lc.run_terminal[of s ts]
    pipeline_lc.run_terminal[of p ps]
  by (auto simp: transition_pipeline_def transition_task_def can_transition_pipeline_def
      can_transition_task_def)

theorem terminal_statuses_final_witness:
  "task_lc.run TCompleted [TReady, TRunning] = TCompleted \<and>
   pipeline_lc.run PCancelled [PRunning] = PCancelled"
  using terminal_statuses_final[of TCompleted "[TReady, TRunning]" PCancelled "[PRunning]"] by blast

end
