(* ===== verification/CircuitBreaker.thy ===== *)
theory CircuitBreaker
  imports Prelude
begin

text \<open>
  The circuit breaker of \<^verbatim>\<open>runtime/circuit_breaker.py\<close>.  A protected call is given by
  its outcome, \<^verbatim>\<open>Inl\<close> of the exception it raised or \<^verbatim>\<open>Inr\<close> of its result, and by the two
  readings of the clock the breaker makes around it.
\<close>

datatype cb_state = CLOSED | OPEN | HALF_OPEN

record circuit_breaker =
  component_name :: name
  timeout_seconds :: int
  failure_count :: nat
  last_failure_time :: "time option"
  cb_state :: cb_state
  success_threshold :: nat

datatype 'e cb_error = CircuitBreakerOpenError name | CallRaised 'e

definition new_breaker :: "name \<Rightarrow> int \<Rightarrow> circuit_breaker" where
  "new_breaker cname timeout =
     \<lparr>component_name = cname, timeout_seconds = timeout, failure_count = 0,
      last_failure_time = None, cb_state = CLOSED, success_threshold = 3\<rparr>"

definition on_success :: "circuit_breaker \<Rightarrow> circuit_breaker" where
  "on_success b =
     (case cb_state b of
        HALF_OPEN \<Rightarrow> b\<lparr>failure_count := 0, cb_state := CLOSED\<rparr>
      | CLOSED \<Rightarrow> b\<lparr>failure_count := 0\<rparr>
      | OPEN \<Rightarrow> b)"

definition on_failure :: "time \<Rightarrow> circuit_breaker \<Rightarrow> circuit_breaker" where
  "on_failure now b =
     (let b1 = b\<lparr>failure_count := failure_count b + 1, last_failure_time := Some now\<rparr>
      in if failure_count b1 \<ge> success_threshold b1 then b1\<lparr>cb_state := OPEN\<rparr> else b1)"

definition can_reconnect :: "time \<Rightarrow> circuit_breaker \<Rightarrow> bool" where
  "can_reconnect now b =
     (if cb_state b \<noteq> OPEN then True
      else case last_failure_time b of
             None \<Rightarrow> False
           | Some t \<Rightarrow> now - t > timeout_seconds b * 1000000)"

text \<open>\<^verbatim>\<open>call\<close>: the clock reads \<^verbatim>\<open>t0\<close> at the reconnect test and \<^verbatim>\<open>t1\<close> after the call.\<close>

definition protected_call ::
  "time \<Rightarrow> time \<Rightarrow> 'e + 'r \<Rightarrow> circuit_breaker \<Rightarrow> ('e cb_error + 'r) \<times> circuit_breaker" where
  "protected_call t0 t1 outcome b =
     (if cb_state b = OPEN \<and> \<not> can_reconnect t0 b
      then (Inl (CircuitBreakerOpenError (component_name b)), b)
      else let b1 = (if cb_state b = OPEN then b\<lparr>cb_state := HALF_OPEN\<rparr> else b)
           in case outcome of
                Inr r \<Rightarrow> (Inr r, on_success b1)
              | Inl e \<Rightarrow> (Inl (CallRaised e), on_failure t1 b1))"

definition get_state ::
  "circuit_breaker \<Rightarrow> name \<times> cb_state \<times> nat \<times> int \<times> time option \<times> nat" where
  "get_state b = (component_name b, cb_state b, failure_count b, timeout_seconds b,
                  last_failure_time b, success_threshold b)"

lemmas breaker_defs = on_success_def on_failure_def can_reconnect_def protected_call_def Let_def

text \<open>The invariant between two calls.\<close>

definition breaker_inv :: "circuit_breaker \<Rightarrow> bool" where
  "breaker_inv b \<longleftrightarrow>
     success_threshold b = 3 \<and> cb_state b \<noteq> HALF_OPEN \<and>
     (cb_state b = OPEN \<longleftrightarrow> 3 \<le> failure_count b) \<and>
     (0 < failure_count b \<longrightarrow> last_failure_time b \<noteq> None)"

lemma new_breaker_inv [inv_intros]: "breaker_inv (new_breaker n t)"
  by (simp add: breaker_inv_def new_breaker_def)

lemma protected_call_inv [inv_intros]:
  "breaker_inv b \<Longrightarrow> breaker_inv (snd (protected_call t0 t1 out b))"
  by (cases "cb_state b"; cases out) (auto simp: breaker_inv_def breaker_defs)

lemma protected_call_rejected:
  "breaker_inv b \<Longrightarrow> cb_state b = OPEN \<Longrightarrow> \<not> can_reconnect t0 b \<Longrightarrow>
   protected_call t0 t1 out b = (Inl (CircuitBreakerOpenError (component_name b)), b)"
  by (simp add: protected_call_def)

section \<open>Traces of calls\<close>

text \<open>
  The abstract view of a breaker: how many of the most recent admitted calls failed in a
  row, and when the last of them failed.  A trace is a list of calls.
\<close>

type_synonym ('e, 'r) call_trace = "(time \<times> time \<times> ('e + 'r)) list"

fun run_calls :: "('e, 'r) call_trace \<Rightarrow> circuit_breaker \<Rightarrow> circuit_breaker" where
  "run_calls [] b = b"
| "run_calls ((t0, t1, out) # cs) b = run_calls cs (snd (protected_call t0 t1 out b))"

fun spec_calls :: "int \<Rightarrow> ('e, 'r) call_trace \<Rightarrow> nat \<times> time option \<Rightarrow> nat \<times> time option" where
  "spec_calls timeout [] s = s"
| "spec_calls timeout ((t0, t1, out) # cs) (streak, since) =
     spec_calls timeout cs
       (if 3 \<le> streak \<and> \<not> (\<exists>t \<in> set_option since. t0 - t > timeout * 1000000)
        then (streak, since)
        else case out of Inr _ \<Rightarrow> (0, since) | Inl _ \<Rightarrow> (streak + 1, Some t1))"

definition breaker_abs :: "circuit_breaker \<Rightarrow> nat \<times> time option" where
  "breaker_abs b = (failure_count b, last_failure_time b)"

lemma run_calls_inv [inv_intros]: "breaker_inv b \<Longrightarrow> breaker_inv (run_calls cs b)"
  by (induction cs b rule: run_calls.induct) (auto intro: inv_intros)

lemma protected_call_timeout [frame_simps]:
  "timeout_seconds (snd (protected_call t0 t1 out b)) = timeout_seconds b"
  by (cases "cb_state b"; cases out) (auto simp: breaker_defs)

lemma protected_call_abs:
  assumes "breaker_inv b"
  shows "breaker_abs (snd (protected_call t0 t1 out b)) =
    (if 3 \<le> failure_count b \<and>
        \<not> (\<exists>t \<in> set_option (last_failure_time b). t0 - t > timeout_seconds b * 1000000)
     then breaker_abs b
     else case out of Inr _ \<Rightarrow> (0, last_failure_time b) | Inl _ \<Rightarrow> (failure_count b + 1, Some t1))"
  using assms
  by (cases "cb_state b"; cases out; cases "last_failure_time b")
     (auto simp: breaker_inv_def breaker_abs_def breaker_defs)

lemma run_calls_abs:
  "breaker_inv b \<Longrightarrow>
   breaker_abs (run_calls cs b) = spec_calls (timeout_seconds b) cs (breaker_abs b)"
proof (induction cs b rule: run_calls.induct)
  case (1 b)
  then show ?case by simp
next
  case (2 t0 t1 out cs b)
  let ?b = "snd (protected_call t0 t1 out b)"
  have "breaker_abs (run_calls cs ?b) = spec_calls (timeout_seconds ?b) cs (breaker_abs ?b)"
    by (rule "2.IH") (rule protected_call_inv[OF "2.prems"])
  also have "\<dots> = spec_calls (timeout_seconds b) ((t0, t1, out) # cs) (breaker_abs b)"
    by (simp only: protected_call_abs[OF "2.prems"] protected_call_timeout)
       (simp add: breaker_abs_def)
  finally show ?case by simp
qed

section \<open>Properties\<close>

text \<open>C9: over any sequence of protected calls the breaker refines its abstract view, the
  length of the current run of failures among the admitted calls and the time of the last
  failure: it is open exactly when three admitted calls in a row failed, it is never left
  half-open, and an open breaker admits a call only after the timeout.\<close>

theorem breaker_refines_streak:
  "breaker_abs (run_calls cs (new_breaker n timeout)) = spec_calls timeout cs (0, None) \<and>
   (cb_state (run_calls cs (new_breaker n timeout)) = OPEN \<longleftrightarrow>
      3 \<le> fst (spec_calls timeout cs (0, None))) \<and>
   cb_state (run_calls cs (new_breaker n timeout)) \<noteq> HALF_OPEN"
proof -
  have t: "timeout_seconds (new_breaker n timeout) = timeout" "breaker_abs (new_breaker n timeout) = (0, None)"
    by (simp_all add: new_breaker_def breaker_abs_def)
  have "breaker_inv (run_calls cs (new_breaker n timeout))" by (intro inv_intros)
  with run_calls_abs[OF new_breaker_inv, of cs n timeout] show ?thesis
    unfolding t by (auto simp: breaker_inv_def breaker_abs_def dest: sym)
qed

text \<open>An open breaker within its timeout rejects a call whatever the call would have done,
  and stays as it was; after the timeout one probing call decides: its success closes the
  breaker with a clean count, its failure opens it again from the time of that failure.\<close>

theorem open_breaker_call:
  assumes "breaker_inv b" "cb_state b = OPEN"
  shows "(\<not> can_reconnect t0 b \<longrightarrow>
            protected_call t0 t1 out b = (Inl (CircuitBreakerOpenError (component_name b)), b)) \<and>
    (can_reconnect t0 b \<longrightarrow>
       (case out of
          Inr r \<Rightarrow> fst (protected_call t0 t1 out b) = Inr r \<and>
                   cb_state (snd (protected_call t0 t1 out b)) = CLOSED \<and>
                   failure_count (snd (protected_call t0 t1 out b)) = 0
        | Inl e \<Rightarrow> fst (protected_call t0 t1 out b) = Inl (CallRaised e) \<and>
                   cb_state (snd (protected_call t0 t1 out b)) = OPEN \<and>
                   last_failure_time (snd (protected_call t0 t1 out b)) = Some t1))"
  using assms by (cases out) (auto simp: breaker_inv_def breaker_defs)

theorem open_breaker_call_witness:
  "\<exists>b :: circuit_breaker. cb_state b = OPEN \<and>
     fst (protected_call 30000000 31000000 (Inr () :: unit + unit) b) =
       Inl (CircuitBreakerOpenError ''bus'') \<and>
     cb_state (snd (protected_call 90000000 91000000 (Inr () :: unit + unit) b)) = CLOSED"
proof -
  let ?f = "Inl () :: unit + unit"
  define b where "b = run_calls [(0, 0, ?f), (1, 1, ?f), (2, 2, ?f)] (new_breaker ''bus'' 60)"
  have i: "breaker_inv b" unfolding b_def by (intro inv_intros)
  have f: "cb_state b = OPEN" "\<not> can_reconnect 30000000 b" "can_reconnect 90000000 b" "component_name b = ''bus''"
    by (simp_all add: b_def breaker_defs new_breaker_def)
  from open_breaker_call[OF i f(1), of 30000000 31000000 "Inr () :: unit + unit"]
    open_breaker_call[OF i f(1), of 90000000 91000000 "Inr () :: unit + unit"] f
  show ?thesis by (intro exI[of _ b]) simp
qed

end
