(* ===== verification/GraphOrder.thy ===== *)
theory GraphOrder
  imports Prelude
begin

text \<open>
  Dependency orders.  A graph is a function from a node to the list of the nodes it depends
  on.  The theory holds what the graph components share: lists in which every dependency
  comes first, the bookkeeping of a depth-first search, and Kahn's algorithm with its
  counters, as the interface \<^verbatim>\<open>dep_graph\<close> that a graph component interprets.
\<close>

section \<open>Lists in dependency order\<close>

definition dep_rel :: "('a \<Rightarrow> 'a list) \<Rightarrow> ('a \<times> 'a) set" where
  "dep_rel deps = {(x, y). y \<in> set (deps x)}"

fun ordered_from :: "('a \<Rightarrow> 'a list) \<Rightarrow> 'a set \<Rightarrow> 'a list \<Rightarrow> bool" where
  "ordered_from deps D [] = True"
| "ordered_from deps D (x # xs) \<longleftrightarrow> set (deps x) \<subseteq> D \<and> ordered_from deps (insert x D) xs"

lemma in_dep_rel [simp]: "(x, y) \<in> dep_rel deps \<longleftrightarrow> y \<in> set (deps x)"
  by (simp add: dep_rel_def)

lemma ordered_from_append:
  "ordered_from deps D (xs @ ys) \<longleftrightarrow> ordered_from deps D xs \<and> ordered_from deps (D \<union> set xs) ys"
  by (induction xs arbitrary: D) (auto simp: insert_is_Un[of _ D] Un_assoc Un_left_commute)

lemma ordered_from_snoc:
  "ordered_from deps D (xs @ [x]) \<longleftrightarrow> ordered_from deps D xs \<and> set (deps x) \<subseteq> D \<union> set xs"
  by (simp add: ordered_from_append)

lemma ordered_from_cong:
  "(\<And>x. x \<in> set xs \<Longrightarrow> set (f x) = set (g x)) \<Longrightarrow> ordered_from f D xs = ordered_from g D xs"
  by (induction xs arbitrary: D) auto

lemma ordered_closed:
  "ordered_from deps {} xs \<Longrightarrow> x \<in> set xs \<Longrightarrow> y \<in> set (deps x) \<Longrightarrow> y \<in> set xs"
  by (induction xs rule: rev_induct) (auto simp: ordered_from_snoc)

lemma ordered_closed_trancl:
  assumes "(x, y) \<in> (dep_rel deps)\<^sup>+" "ordered_from deps {} xs" "x \<in> set xs"
  shows "y \<in> set xs"
  using assms by (induction rule: trancl_induct) (auto dest: ordered_closed)

lemma ordered_no_cycle:
  "ordered_from deps {} xs \<Longrightarrow> x \<in> set xs \<Longrightarrow> (x, x) \<notin> (dep_rel deps)\<^sup>+"
proof (induction xs arbitrary: x rule: rev_induct)
  case Nil
  then show ?case by simp
next
  case (snoc a xs)
  then have ord: "ordered_from deps {} xs" and sub: "set (deps a) \<subseteq> set xs"
    by (auto simp: ordered_from_snoc)
  show ?case
  proof (cases "x \<in> set xs")
    case True
    with snoc.IH ord show ?thesis by blast
  next
    case False
    with snoc.prems have x: "x = a" by simp
    show ?thesis
    proof
      assume "(x, x) \<in> (dep_rel deps)\<^sup>+"
      then obtain y where y: "y \<in> set (deps x)" "y = x \<or> (y, x) \<in> (dep_rel deps)\<^sup>+"
        by (cases rule: converse_tranclE) auto
      with sub x have "y \<in> set xs" by auto
      with y(2) have "x \<in> set xs" using ordered_closed_trancl[OF _ ord] by blast
      with False show False by blast
    qed
  qed
qed

lemma ordered_before:
  "ordered_from deps {} xs \<Longrightarrow> distinct xs \<Longrightarrow> x \<in> set xs \<Longrightarrow> y \<in> set (deps x) \<Longrightarrow> before xs y x"
proof (induction xs rule: rev_induct)
  case Nil
  then show ?case by simp
next
  case (snoc a xs)
  show ?case
  proof (cases "x = a")
    case True
    with snoc.prems show ?thesis
      by (auto simp: ordered_from_snoc intro: before_snoc_new)
  next
    case False
    with snoc show ?thesis by (auto simp: ordered_from_snoc intro: before_append)
  qed
qed

text \<open>A finite set in which every node depends on a node of the set holds a cycle.\<close>

lemma stuck_has_cycle:
  assumes "finite A" "A \<noteq> {}" "\<And>x. x \<in> A \<Longrightarrow> \<exists>y \<in> A. y \<in> set (deps x)"
  shows "\<exists>x \<in> A. (x, x) \<in> (dep_rel deps)\<^sup>+"
proof (rule ccontr)
  assume no: "\<not> ?thesis"
  let ?R = "dep_rel deps \<inter> A \<times> A"
  have "acyclic ?R"
  proof (rule acyclicI, rule allI, rule notI)
    fix x assume "(x, x) \<in> ?R\<^sup>+"
    then have "x \<in> A" by (cases rule: tranclE) auto
    moreover have "?R\<^sup>+ \<subseteq> (dep_rel deps)\<^sup>+" by (rule trancl_mono_subset) simp
    then have "(x, x) \<in> (dep_rel deps)\<^sup>+" using \<open>(x, x) \<in> ?R\<^sup>+\<close> by blast
    ultimately have False using no by blast
    then show False .
  qed
  moreover have "finite ?R" using assms(1) by (meson finite_Int finite_SigmaI)
  ultimately have wf: "wf (?R\<inverse>)" by (rule finite_acyclic_wf_converse[rotated])
  obtain a where a: "a \<in> A" using assms(2) by blast
  from wf a obtain z where zA: "z \<in> A" and z: "\<forall>y. (y, z) \<in> ?R\<inverse> \<longrightarrow> y \<notin> A"
    by (rule wfE_min) (rule that, assumption, blast)
  from assms(3)[OF zA] obtain y where y: "y \<in> A" "y \<in> set (deps z)" by blast
  then have "(y, z) \<in> ?R\<inverse>" using zA by simp
  with z y(1) show False by blast
qed

section \<open>Depth-first search\<close>

text \<open>
  The invariant of a search: the nodes on the stack are visited, the others that are
  visited are finished, and in their finishing order (the ghost list \<^verbatim>\<open>fin\<close>) every
  dependency comes first.
\<close>

definition dfs_inv :: "('a \<Rightarrow> 'a list) \<Rightarrow> 'a set \<Rightarrow> 'a list \<Rightarrow> 'a list \<Rightarrow> bool" where
  "dfs_inv deps visited stack fin \<longleftrightarrow>
     distinct stack \<and> distinct fin \<and> set stack \<subseteq> visited \<and> set fin = visited - set stack \<and>
     ordered_from deps {} fin"

lemma dfs_inv_start: "dfs_inv deps {} [] []"
  by (simp add: dfs_inv_def)

lemma dfs_inv_enter:
  "dfs_inv deps visited stack fin \<Longrightarrow> x \<notin> visited \<Longrightarrow>
   dfs_inv deps (insert x visited) (stack @ [x]) fin"
  by (auto simp: dfs_inv_def)

lemma dfs_inv_leave:
  "dfs_inv deps visited (stack @ [x]) fin \<Longrightarrow> set (deps x) \<subseteq> set fin \<Longrightarrow>
   dfs_inv deps visited stack (fin @ [x])"
  by (auto simp: dfs_inv_def ordered_from_snoc)

lemma dfs_inv_done:
  "dfs_inv deps visited [] fin \<Longrightarrow> x \<in> visited \<Longrightarrow> (x, x) \<notin> (dep_rel deps)\<^sup>+"
  using ordered_no_cycle[of deps fin x] by (auto simp: dfs_inv_def)

text \<open>A walk: each element depends on the next one.\<close>

definition walk :: "('a \<Rightarrow> 'a list) \<Rightarrow> 'a list \<Rightarrow> bool" where
  "walk deps xs \<longleftrightarrow> (\<forall>i. Suc i < length xs \<longrightarrow> xs ! Suc i \<in> set (deps (xs ! i)))"

definition is_cycle :: "('a \<Rightarrow> 'a list) \<Rightarrow> 'a list \<Rightarrow> bool" where
  "is_cycle deps xs \<longleftrightarrow> 2 \<le> length xs \<and> hd xs = last xs \<and> walk deps xs"

lemma walk_Nil [simp]: "walk deps []" and walk_single [simp]: "walk deps [x]"
  by (simp_all add: walk_def)

lemma walk_snoc:
  assumes "walk deps xs" "xs = [] \<or> x \<in> set (deps (last xs))"
  shows "walk deps (xs @ [x])"
  unfolding walk_def
proof (intro allI impI)
  fix i assume i: "Suc i < length (xs @ [x])"
  show "(xs @ [x]) ! Suc i \<in> set (deps ((xs @ [x]) ! i))"
  proof (cases "Suc i < length xs")
    case True
    with assms(1) show ?thesis by (simp add: walk_def nth_append)
  next
    case False
    with i have "xs \<noteq> []" "i = length xs - 1" by auto
    with assms(2) show ?thesis by (simp add: nth_append last_conv_nth)
  qed
qed

lemma walk_drop: "walk deps xs \<Longrightarrow> walk deps (drop n xs)"
  by (simp add: walk_def)

lemma walk_butlast: "walk deps (xs @ [x]) \<Longrightarrow> walk deps xs"
  unfolding walk_def by (metis Suc_lessD butlast_snoc length_append_singleton less_Suc_eq nth_butlast)

lemma walk_reach: "walk deps xs \<Longrightarrow> i < j \<Longrightarrow> j < length xs \<Longrightarrow> (xs ! i, xs ! j) \<in> (dep_rel deps)\<^sup>+"
proof (induction j)
  case 0
  then show ?case by simp
next
  case (Suc j)
  have e: "(xs ! j, xs ! Suc j) \<in> dep_rel deps"
    using Suc.prems by (simp add: walk_def)
  show ?case
  proof (cases "i = j")
    case True
    with e show ?thesis by auto
  next
    case False
    with Suc e show ?thesis by (simp add: trancl_into_trancl)
  qed
qed

lemma cycle_reach:
  assumes "is_cycle deps xs"
  shows "(hd xs, hd xs) \<in> (dep_rel deps)\<^sup>+"
proof -
  have len: "2 \<le> length xs" and w: "walk deps xs" and hl: "hd xs = last xs"
    using assms by (auto simp: is_cycle_def)
  then have "xs \<noteq> []" by auto
  then have "xs ! 0 = hd xs" "xs ! (length xs - 1) = hd xs"
    using hl by (simp_all add: hd_conv_nth last_conv_nth)
  moreover have "(xs ! 0, xs ! (length xs - 1)) \<in> (dep_rel deps)\<^sup>+"
    using len by (intro walk_reach[OF w]) auto
  ultimately show ?thesis by simp
qed

lemma back_edge_cycle:
  assumes "walk deps stack" "stack \<noteq> []" "x \<in> set (deps (last stack))" "index_of x stack = Some i"
  shows "is_cycle deps (drop i stack @ [x])"
proof -
  have i: "i < length stack" "stack ! i = x"
    using index_of_SomeD[OF assms(4)] by auto
  have "last (drop i stack) = last stack" using i(1) by simp
  then have "walk deps (drop i stack @ [x])"
    using walk_drop[OF assms(1), of i] assms(3) by (intro walk_snoc) auto
  moreover have "hd (drop i stack @ [x]) = x"
    using i by (simp add: hd_append hd_drop_conv_nth)
  ultimately show ?thesis using i(1) by (simp add: is_cycle_def)
qed

section \<open>The search for a cycle\<close>

text \<open>
  A search through a list of nodes, and the depth-first search that reports the first edge back to its
  path.  The state is the nodes visited and the path; the search takes fuel, \<^verbatim>\<open>None\<close> is a search that did
  not end within it.
\<close>

fun visit_seq :: "('a \<Rightarrow> 's \<Rightarrow> ('e + 's) option) \<Rightarrow> 'a list \<Rightarrow> 's \<Rightarrow> ('e + 's) option" where
  "visit_seq f [] s = Some (Inr s)"
| "visit_seq f (x # xs) s = obind (f x s) (visit_seq f xs)"

primrec search_visit ::
  "('a list \<Rightarrow> nat \<Rightarrow> 'a \<Rightarrow> 'e) \<Rightarrow> nat \<Rightarrow> ('a \<Rightarrow> 'a list) \<Rightarrow> 'a \<Rightarrow> 'a list \<times> 'a list \<Rightarrow> ('e + 'a list \<times> 'a list) option"
where
  "search_visit report 0 deps i s = None"
| "search_visit report (Suc fuel) deps i s =
     (case s of (visited, path) \<Rightarrow>
        case index_of i path of
          Some start \<Rightarrow> Some (Inl (report path start i))
        | None \<Rightarrow>
            if i \<in> set visited then Some (Inr s)
            else obind (visit_seq (search_visit report fuel deps) (deps i) (i # visited, path @ [i]))
                   (\<lambda>(visited1, path1). Some (Inr (visited1, butlast path1))))"

definition search_pre :: "'a set \<Rightarrow> ('a \<Rightarrow> 'a list) \<Rightarrow> 'a list \<Rightarrow> 'a list \<times> 'a list \<Rightarrow> bool" where
  "search_pre U deps ns s \<longleftrightarrow> set ns \<subseteq> U \<and> set (fst s) \<subseteq> U \<and>
     walk deps (snd s) \<and> (snd s \<noteq> [] \<longrightarrow> set ns \<subseteq> set (deps (last (snd s))))"

definition search_post ::
  "'a set \<Rightarrow> ('a \<Rightarrow> 'a list) \<Rightarrow> ('e \<Rightarrow> bool) \<Rightarrow> 'a list \<Rightarrow> 'a list \<times> 'a list \<Rightarrow> ('e + 'a list \<times> 'a list) option \<Rightarrow> bool"
where
  "search_post U deps bad ns s r \<longleftrightarrow>
     (case r of
        None \<Rightarrow> False
      | Some (Inl c) \<Rightarrow> bad c
      | Some (Inr s1) \<Rightarrow>
          snd s1 = snd s \<and> set (fst s) \<subseteq> set (fst s1) \<and> set (fst s1) \<subseteq> U \<and>
          (\<forall>fin. dfs_inv deps (set (fst s)) (snd s) fin \<longrightarrow>
             (\<exists>fin1. dfs_inv deps (set (fst s1)) (snd s) fin1 \<and> set ns \<subseteq> set fin1)))"

definition unseen :: "'a set \<Rightarrow> 'a list \<times> 'b \<Rightarrow> nat" where
  "unseen U s = card (U - set (fst s))"

lemma dfs_inv_fin_mono:
  "dfs_inv deps V st fin \<Longrightarrow> dfs_inv deps W st fin1 \<Longrightarrow> V \<subseteq> W \<Longrightarrow> set fin \<subseteq> set fin1"
  by (auto simp: dfs_inv_def)

lemma search_seq_ok:
  assumes fin: "finite U" and one: "\<And>n s. search_pre U deps [n] s \<Longrightarrow> unseen U s < fuel \<Longrightarrow> search_post U deps bad [n] s (f n s)"
  shows "search_pre U deps ns s \<Longrightarrow> unseen U s < fuel \<Longrightarrow> search_post U deps bad ns s (visit_seq f ns s)"
proof (induction ns arbitrary: s)
  case Nil
  then show ?case by (auto simp: search_post_def search_pre_def)
next
  case (Cons n ns)
  have "search_pre U deps [n] s" using Cons.prems(1) by (auto simp: search_pre_def)
  from one[OF this Cons.prems(2)] consider
      (cycle) c where "f n s = Some (Inl c)" "bad c"
    | (go) s1 where "f n s = Some (Inr s1)" "search_post U deps bad [n] s (Some (Inr s1))"
    by (auto simp: search_post_def split: option.splits sum.splits)
  then show ?case
  proof cases
    case cycle
    then show ?thesis by (simp add: search_post_def)
  next
    case go
    then have s1: "snd s1 = snd s" "set (fst s) \<subseteq> set (fst s1)" "set (fst s1) \<subseteq> U"
      by (auto simp: search_post_def)
    have "search_pre U deps ns s1" using Cons.prems(1) s1 by (auto simp: search_pre_def)
    moreover have "unseen U s1 \<le> unseen U s"
      unfolding unseen_def using s1(2) fin by (intro card_mono) auto
    ultimately have IH: "search_post U deps bad ns s1 (visit_seq f ns s1)"
      using Cons.IH[of s1] Cons.prems(2) by simp
    have step: "search_post U deps bad (n # ns) s (Some (Inr s2))" if "search_post U deps bad ns s1 (Some (Inr s2))" for s2
    proof -
      have s2: "snd s2 = snd s" "set (fst s1) \<subseteq> set (fst s2)" "set (fst s2) \<subseteq> U"
        using that s1 by (auto simp: search_post_def)
      have "\<exists>fin2. dfs_inv deps (set (fst s2)) (snd s) fin2 \<and> set (n # ns) \<subseteq> set fin2"
        if d: "dfs_inv deps (set (fst s)) (snd s) fin0" for fin0
      proof -
        obtain fin1 where f1: "dfs_inv deps (set (fst s1)) (snd s) fin1" "n \<in> set fin1"
          using go(2) d by (auto simp: search_post_def)
        obtain fin2 where f2: "dfs_inv deps (set (fst s2)) (snd s) fin2" "set ns \<subseteq> set fin2"
          using \<open>search_post U deps bad ns s1 (Some (Inr s2))\<close> f1(1) s1(1) by (auto simp: search_post_def)
        from dfs_inv_fin_mono[OF f1(1) f2(1) s2(2)] f1(2) f2 show ?thesis by auto
      qed
      with s1 s2 show ?thesis by (auto simp: search_post_def)
    qed
    have e: "visit_seq f (n # ns) s = visit_seq f ns s1" using go(1) by simp
    consider "visit_seq f ns s1 = None" | c where "visit_seq f ns s1 = Some (Inl c)"
      | s2 where "visit_seq f ns s1 = Some (Inr s2)" by (metis option.exhaust sum.exhaust)
    then show ?thesis
    proof cases
      case 3
      with IH step e show ?thesis by simp
    qed (use IH e in \<open>simp_all add: search_post_def\<close>)
  qed
qed

lemma search_step_ok:
  assumes fin: "finite U" and closed: "\<And>x. x \<in> U \<Longrightarrow> set (deps x) \<subseteq> U"
    and report: "\<And>path x i. walk deps path \<Longrightarrow> path \<noteq> [] \<Longrightarrow> x \<in> set (deps (last path)) \<Longrightarrow> index_of x path = Some i \<Longrightarrow> bad (report path i x)"
    and many: "\<And>ns s. search_pre U deps ns s \<Longrightarrow> unseen U s < fuel \<Longrightarrow> search_post U deps bad ns s (visit_seq (search_visit report fuel deps) ns s)"
    and pre: "search_pre U deps [n] s" and fuel: "unseen U s < Suc fuel"
  shows "search_post U deps bad [n] s (search_visit report (Suc fuel) deps n s)"
proof -
  obtain visited path where s: "s = (visited, path)" by (cases s)
  have known: "n \<in> U" and w: "walk deps path"
    and e: "path \<noteq> [] \<longrightarrow> n \<in> set (deps (last path))" and v: "set visited \<subseteq> U"
    using pre by (auto simp: search_pre_def s)
  consider (onpath) i where "index_of n path = Some i" | (seen) "index_of n path = None" "n \<in> set visited"
    | (fresh) "index_of n path = None" "n \<notin> set visited"
    by (cases "index_of n path") auto
  then show ?thesis
  proof cases
    case onpath
    then have "path \<noteq> []" by auto
    with report[OF w _ _ onpath] e onpath show ?thesis by (simp add: search_post_def s)
  next
    case seen
    then have "n \<notin> set path" by simp
    with seen v show ?thesis by (auto simp: search_post_def s dfs_inv_def)
  next
    case fresh
    let ?s = "(n # visited, path @ [n])"
    have pre1: "search_pre U deps (deps n) ?s"
      using closed[OF known] known v w e by (auto simp: search_pre_def intro!: walk_snoc)
    have "unseen U ?s < unseen U s"
      unfolding unseen_def s using known fresh fin by (intro psubset_card_mono) auto
    with fuel have r: "search_post U deps bad (deps n) ?s (visit_seq (search_visit report fuel deps) (deps n) ?s)"
      using many[OF pre1] by simp
    have step: "search_post U deps bad [n] s (Some (Inr (v1, butlast p1)))"
      if p: "search_post U deps bad (deps n) ?s (Some (Inr (v1, p1)))" for v1 p1
    proof -
      have "\<exists>fin1. dfs_inv deps (set v1) path fin1 \<and> n \<in> set fin1"
        if d: "dfs_inv deps (set visited) path fin0" for fin0
      proof -
        obtain fin1 where f: "dfs_inv deps (set v1) (path @ [n]) fin1" "set (deps n) \<subseteq> set fin1"
          using p dfs_inv_enter[OF d fresh(2)] by (auto simp: search_post_def)
        have "dfs_inv deps (set v1) path (fin1 @ [n])" by (rule dfs_inv_leave[OF f])
        then show ?thesis by (intro exI[of _ "fin1 @ [n]"]) simp
      qed
      with p show ?thesis by (auto simp: search_post_def s)
    qed
    consider "visit_seq (search_visit report fuel deps) (deps n) ?s = None"
      | c where "visit_seq (search_visit report fuel deps) (deps n) ?s = Some (Inl c)"
      | v1 p1 where "visit_seq (search_visit report fuel deps) (deps n) ?s = Some (Inr (v1, p1))"
      by (metis option.exhaust sum.exhaust surj_pair)
    then show ?thesis
    proof cases
      case 3
      with r step fresh show ?thesis by (simp add: s)
    qed (use r fresh in \<open>simp_all add: search_post_def s\<close>)
  qed
qed

lemma search_seq_visit_ok:
  assumes "finite U" "\<And>x. x \<in> U \<Longrightarrow> set (deps x) \<subseteq> U"
    and "\<And>path x i. walk deps path \<Longrightarrow> path \<noteq> [] \<Longrightarrow> x \<in> set (deps (last path)) \<Longrightarrow> index_of x path = Some i \<Longrightarrow> bad (report path i x)"
    and "search_pre U deps ns s" "unseen U s < fuel"
  shows "search_post U deps bad ns s (visit_seq (search_visit report fuel deps) ns s)"
proof -
  have "search_pre U deps [n] s \<Longrightarrow> unseen U s < fuel \<Longrightarrow> search_post U deps bad [n] s (search_visit report fuel deps n s)" for n s
  proof (induction fuel arbitrary: n s)
    case (Suc fuel)
    show ?case
      by (rule search_step_ok[OF assms(1,2) _ search_seq_ok[OF assms(1) Suc.IH]]) (use assms(3) Suc.prems in auto)
  qed simp
  from search_seq_ok[OF assms(1) this assms(4,5)] show ?thesis .
qed

lemma on_path_cycle:
  assumes "walk deps path" "x \<in> set path" "x \<in> set (deps (last path))"
  shows "(x, x) \<in> (dep_rel deps)\<^sup>+"
proof -
  obtain i where i: "index_of x path = Some i" using assms(2) by (metis index_of_None not_None_eq)
  have "path \<noteq> []" using assms(2) by auto
  from back_edge_cycle[OF assms(1) this assms(3) i] have "is_cycle deps (drop i path @ [x])" .
  from cycle_reach[OF this] index_of_SomeD[OF i] show ?thesis by (simp add: hd_append hd_drop_conv_nth)
qed

section \<open>Kahn's algorithm\<close>

text \<open>
  The main loop both graph components run: \<^verbatim>\<open>deg\<close> counts for each node the dependencies not
  yet emitted, \<^verbatim>\<open>adj\<close> lists the dependents of a node, \<^verbatim>\<open>queue\<close> is a FIFO queue.  The loop
  takes fuel; \<^verbatim>\<open>None\<close> is a loop that did not end within it.
\<close>

fun kahn_relax :: "'a list \<Rightarrow> ('a \<Rightarrow> int) \<times> 'a list \<Rightarrow> ('a \<Rightarrow> int) \<times> 'a list" where
  "kahn_relax [] s = s"
| "kahn_relax (n # ns) (deg, queue) =
     (let deg1 = deg(n := deg n - 1)
      in kahn_relax ns (deg1, if deg1 n = 0 then queue @ [n] else queue))"

fun kahn_loop ::
  "nat \<Rightarrow> ('a \<Rightarrow> 'a list) \<Rightarrow> ('a \<Rightarrow> int) \<Rightarrow> 'a list \<Rightarrow> 'a list \<Rightarrow> 'a list option" where
  "kahn_loop fuel adj deg [] ordered = Some ordered"
| "kahn_loop 0 adj deg (x # queue) ordered = None"
| "kahn_loop (Suc fuel) adj deg (x # queue) ordered =
     (let (deg1, queue1) = kahn_relax (adj x) (deg, queue)
      in kahn_loop fuel adj deg1 queue1 (ordered @ [x]))"

lemma kahn_relax_deg: "fst (kahn_relax ns (deg, q)) n = deg n - int (count_list ns n)"
  by (induction ns arbitrary: deg q) (auto simp: Let_def)

lemma kahn_relax_queue:
  assumes "\<And>n. n \<in> set ns \<Longrightarrow> int (count_list ns n) \<le> deg n"
  shows "\<exists>hits. snd (kahn_relax ns (deg, q)) = q @ hits \<and> distinct hits \<and>
           set hits = {n \<in> set ns. deg n = int (count_list ns n)}"
  using assms
proof (induction ns arbitrary: deg q)
  case Nil
  then show ?case by simp
next
  case (Cons a ns)
  let ?deg = "deg(a := deg a - 1)"
  let ?q = "if ?deg a = 0 then q @ [a] else q"
  have pre: "n \<in> set ns \<Longrightarrow> int (count_list ns n) \<le> ?deg n" for n
    using Cons.prems[of n] by auto
  from Cons.IH[of ?deg ?q, OF pre] obtain hits where
    h: "snd (kahn_relax ns (?deg, ?q)) = ?q @ hits" "distinct hits"
       "set hits = {n \<in> set ns. ?deg n = int (count_list ns n)}"
    by blast
  have cnt: "a \<notin> set ns" if "deg a = 1"
    using Cons.prems[of a] that by (auto simp: count_list_0_iff)
  show ?case
  proof (cases "deg a = 1")
    case True
    then have a: "a \<notin> set ns" "count_list ns a = 0" using cnt by simp_all
    have "set hits = {n \<in> set ns. deg n = int (count_list ns n)}"
      unfolding h(3) using a(1) by (intro Collect_cong) auto
    then have "set (a # hits) = insert a {n \<in> set ns. deg n = int (count_list ns n)}" by simp
    also have "\<dots> = {n \<in> set (a # ns). deg n = int (count_list (a # ns) n)}"
    proof (intro set_eqI)
      fix n
      show "n \<in> insert a {n \<in> set ns. deg n = int (count_list ns n)} \<longleftrightarrow>
          n \<in> {n \<in> set (a # ns). deg n = int (count_list (a # ns) n)}"
        using a True by (cases "n = a") simp_all
    qed
    finally have sa: "set (a # hits) = {n \<in> set (a # ns). deg n = int (count_list (a # ns) n)}" .
    have "a \<notin> set hits" using h(3) a(1) by blast
    then have d: "distinct (a # hits)" using h(2) by simp
    have "snd (kahn_relax (a # ns) (deg, q)) = q @ a # hits"
      using h(1) True by (simp add: Let_def)
    with d sa show ?thesis by blast
  next
    case False
    have "set hits = {n \<in> set (a # ns). deg n = int (count_list (a # ns) n)}"
    proof (unfold h(3), intro set_eqI)
      fix n
      have "count_list ns a = 0" if "a \<notin> set ns" using that by simp
      then show "n \<in> {n \<in> set ns. ?deg n = int (count_list ns n)} \<longleftrightarrow>
          n \<in> {n \<in> set (a # ns). deg n = int (count_list (a # ns) n)}"
        using False by (cases "n = a"; cases "a \<in> set ns") auto
    qed
    moreover have "snd (kahn_relax (a # ns) (deg, q)) = q @ hits"
      using h(1) False by (simp add: Let_def)
    ultimately show ?thesis using h(2) by blast
  qed
qed

text \<open>
  The interface: the dependents of a node are the nodes that depend on it, as often as they do.  A node may
  depend on something that is not a node; \<^verbatim>\<open>dep_graph\<close> excludes it.
\<close>

locale dep_counts =
  fixes nodes :: "'g \<Rightarrow> 'a list"
    and deps :: "'g \<Rightarrow> 'a \<Rightarrow> 'a list"
    and adj :: "'g \<Rightarrow> 'a \<Rightarrow> 'a list"
    and valid :: "'g \<Rightarrow> bool"
  assumes nodes_distinct: "valid g \<Longrightarrow> distinct (nodes g)"
    and adj_nodes: "valid g \<Longrightarrow> d \<in> set (nodes g) \<Longrightarrow> set (adj g d) \<subseteq> set (nodes g)"
    and adj_count: "valid g \<Longrightarrow> d \<in> set (nodes g) \<Longrightarrow> n \<in> set (nodes g) \<Longrightarrow>
                      count_list (adj g d) n = count_list (deps g n) d"
begin

definition kahn_inv :: "'g \<Rightarrow> ('a \<Rightarrow> int) \<Rightarrow> 'a list \<Rightarrow> 'a list \<Rightarrow> bool" where
  "kahn_inv g deg queue ordered \<longleftrightarrow>
     distinct (ordered @ queue) \<and> set (ordered @ queue) \<subseteq> set (nodes g) \<and>
     (\<forall>n \<in> set (nodes g).
        deg n = int (length (filter (\<lambda>d. d \<notin> set ordered) (deps g n))) \<and>
        (n \<in> set (ordered @ queue) \<longleftrightarrow> deg n = 0)) \<and>
     ordered_from (deps g) {} ordered"

lemma kahn_inv_start:
  assumes "valid g" and "\<And>n. n \<in> set (nodes g) \<Longrightarrow> deg n = int (length (deps g n))"
  shows "kahn_inv g deg (filter (\<lambda>n. deg n = 0) (nodes g)) []"
  using assms nodes_distinct[OF assms(1)] by (auto simp: kahn_inv_def)

lemma length_filter_insert:
  "x \<notin> D \<Longrightarrow> int (length (filter (\<lambda>d. d \<notin> insert x D) ds)) =
     int (length (filter (\<lambda>d. d \<notin> D) ds)) - int (count_list ds x)"
  by (induction ds) auto

lemma kahn_inv_step:
  assumes v: "valid g" and inv: "kahn_inv g deg (x # queue) ordered"
    and step: "kahn_relax (adj g x) (deg, queue) = (deg1, queue1)"
  shows "kahn_inv g deg1 queue1 (ordered @ [x])"
proof -
  have x: "x \<in> set (nodes g)" "x \<notin> set ordered" and deg_x: "deg x = 0"
    using inv by (auto simp: kahn_inv_def)
  have deg: "deg n = int (length (filter (\<lambda>d. d \<notin> set ordered) (deps g n)))"
    and zero: "n \<in> set (ordered @ x # queue) \<longleftrightarrow> deg n = 0"
    if "n \<in> set (nodes g)" for n
    using inv that by (auto simp: kahn_inv_def)
  have cnt: "count_list (adj g x) n = count_list (deps g n) x" if "n \<in> set (nodes g)" for n
    using adj_count[OF v x(1) that] .
  have deg1: "deg1 n = int (length (filter (\<lambda>d. d \<notin> set (ordered @ [x])) (deps g n)))"
    if n: "n \<in> set (nodes g)" for n
  proof -
    have "deg1 n = deg n - int (count_list (adj g x) n)"
      using kahn_relax_deg[of "adj g x" deg queue n] step by simp
    then show ?thesis
      using deg[OF n] cnt[OF n] length_filter_insert[OF x(2), of "deps g n"] by simp
  qed
  have le: "int (count_list (adj g x) n) \<le> deg n" if "n \<in> set (adj g x)" for n
  proof -
    have n: "n \<in> set (nodes g)" using adj_nodes[OF v x(1)] that by blast
    show ?thesis
      using deg1[OF n] kahn_relax_deg[of "adj g x" deg queue n] step by simp
  qed
  obtain hits where q1: "queue1 = queue @ hits" and dh: "distinct hits"
    and sh: "set hits = {n \<in> set (adj g x). deg n = int (count_list (adj g x) n)}"
    using kahn_relax_queue[of "adj g x" deg queue, OF le] step by auto
  have hits: "set hits = {n \<in> set (nodes g). deg n \<noteq> 0 \<and> deg1 n = 0}"
  proof (intro set_eqI iffI)
    fix n assume "n \<in> set hits"
    then have a: "n \<in> set (adj g x)" "deg n = int (count_list (adj g x) n)" using sh by auto
    then have "n \<in> set (nodes g)" using adj_nodes[OF v x(1)] by blast
    moreover have "deg1 n = 0"
      using kahn_relax_deg[of "adj g x" deg queue n] step a(2) by simp
    moreover have "deg n \<noteq> 0" using a by (auto simp: count_list_0_iff)
    ultimately show "n \<in> {n \<in> set (nodes g). deg n \<noteq> 0 \<and> deg1 n = 0}" by blast
  next
    fix n assume "n \<in> {n \<in> set (nodes g). deg n \<noteq> 0 \<and> deg1 n = 0}"
    then have "deg n \<noteq> 0" "deg1 n = 0" by auto
    moreover have "deg1 n = deg n - int (count_list (adj g x) n)"
      using kahn_relax_deg[of "adj g x" deg queue n] step by simp
    ultimately show "n \<in> set hits"
      unfolding sh by (auto simp: count_list_0_iff intro!: notI)
  qed
  have keep: "deg1 n = 0" if "n \<in> set (nodes g)" "deg n = 0" for n
  proof -
    have "length (filter (\<lambda>d. d \<notin> set ordered) (deps g n)) = 0" using that deg by simp
    then have "filter (\<lambda>d. d \<notin> set (ordered @ [x])) (deps g n) = []"
      by (auto simp: filter_empty_conv)
    with deg1[OF that(1)] show ?thesis by simp
  qed
  have "set (deps g x) \<subseteq> set ordered"
    using deg[OF x(1)] deg_x by (auto simp: filter_empty_conv)
  moreover have "distinct (ordered @ [x] @ queue @ hits)"
    using inv dh hits zero by (auto simp: kahn_inv_def)
  moreover have "(n \<in> set (ordered @ [x] @ queue @ hits)) = (deg1 n = 0)"
    if "n \<in> set (nodes g)" for n
    using hits zero[OF that] keep[OF that] that by auto
  moreover have "set (ordered @ [x] @ queue @ hits) \<subseteq> set (nodes g)"
    using inv hits by (auto simp: kahn_inv_def)
  ultimately show ?thesis
    using inv deg1 unfolding kahn_inv_def q1 by (simp add: ordered_from_snoc)
qed

lemma kahn_loop_inv:
  "valid g \<Longrightarrow> kahn_inv g deg queue ordered \<Longrightarrow>
   length (nodes g) \<le> fuel + length ordered \<Longrightarrow>
   \<exists>res deg1. kahn_loop fuel (adj g) deg queue ordered = Some res \<and> kahn_inv g deg1 [] res"
proof (induction fuel "adj g" deg queue ordered rule: kahn_loop.induct)
  case (1 fuel deg ordered)
  then show ?case by auto
next
  case (2 deg x queue ordered)
  have "distinct (ordered @ x # queue)" "set (ordered @ x # queue) \<subseteq> set (nodes g)"
    using "2.prems"(2) by (auto simp: kahn_inv_def)
  then have "length (ordered @ x # queue) \<le> length (nodes g)"
    using nodes_distinct[OF "2.prems"(1)]
    by (metis card_mono distinct_card finite_set)
  with "2.prems"(3) show ?case by simp
next
  case (3 fuel deg x queue ordered)
  obtain deg1 queue1 where r: "kahn_relax (adj g x) (deg, queue) = (deg1, queue1)"
    by (metis surj_pair)
  have "kahn_inv g deg1 queue1 (ordered @ [x])"
    using kahn_inv_step[OF "3.prems"(1,2) r] .
  with "3.hyps"[OF r[symmetric] refl "3.prems"(1)] "3.prems"(3) r show ?case by simp
qed

lemma kahn_inv_result:
  assumes v: "valid g" and inv: "kahn_inv g deg [] res"
  shows "distinct res" "set res \<subseteq> set (nodes g)" "ordered_from (deps g) {} res"
    and "set res = set (nodes g) \<longleftrightarrow>
      (\<forall>n \<in> set (nodes g). set (deps g n) \<subseteq> set (nodes g) \<and> (n, n) \<notin> (dep_rel (deps g))\<^sup>+)"
proof -
  show d: "distinct res" and s: "set res \<subseteq> set (nodes g)" and o: "ordered_from (deps g) {} res"
    using inv by (auto simp: kahn_inv_def)
  show "set res = set (nodes g) \<longleftrightarrow>
      (\<forall>n \<in> set (nodes g). set (deps g n) \<subseteq> set (nodes g) \<and> (n, n) \<notin> (dep_rel (deps g))\<^sup>+)"
  proof
    assume "set res = set (nodes g)"
    then show "\<forall>n \<in> set (nodes g). set (deps g n) \<subseteq> set (nodes g) \<and> (n, n) \<notin> (dep_rel (deps g))\<^sup>+"
      using ordered_no_cycle[OF o] ordered_closed[OF o] by blast
  next
    assume ac: "\<forall>n \<in> set (nodes g). set (deps g n) \<subseteq> set (nodes g) \<and> (n, n) \<notin> (dep_rel (deps g))\<^sup>+"
    let ?A = "set (nodes g) - set res"
    have "\<exists>y \<in> ?A. y \<in> set (deps g x)" if "x \<in> ?A" for x
    proof -
      have "filter (\<lambda>d. d \<notin> set res) (deps g x) \<noteq> []"
        using inv that by (auto simp: kahn_inv_def)
      with ac that show ?thesis
        by (auto simp: filter_empty_conv)
    qed
    then have "?A = {}" using stuck_has_cycle[of ?A "deps g"] ac by blast
    with s show "set res = set (nodes g)" by blast
  qed
qed

lemma kahn_result:
  assumes "valid g" and "\<And>n. n \<in> set (nodes g) \<Longrightarrow> deg n = int (length (deps g n))"
    and "length (nodes g) \<le> fuel"
  obtains res where
    "kahn_loop fuel (adj g) deg (filter (\<lambda>n. deg n = 0) (nodes g)) [] = Some res"
    "distinct res" "set res \<subseteq> set (nodes g)" "ordered_from (deps g) {} res"
    "set res = set (nodes g) \<longleftrightarrow>
      (\<forall>n \<in> set (nodes g). set (deps g n) \<subseteq> set (nodes g) \<and> (n, n) \<notin> (dep_rel (deps g))\<^sup>+)"
proof -
  obtain res deg1 where r:
    "kahn_loop fuel (adj g) deg (filter (\<lambda>n. deg n = 0) (nodes g)) [] = Some res"
    "kahn_inv g deg1 [] res"
    using kahn_loop_inv[OF assms(1) kahn_inv_start[OF assms(1,2)], of fuel] assms(3) by auto
  show thesis using that[OF r(1) kahn_inv_result[OF assms(1) r(2)]] by blast
qed

end

locale dep_graph = dep_counts +
  assumes deps_nodes: "valid g \<Longrightarrow> n \<in> set (nodes g) \<Longrightarrow> set (deps g n) \<subseteq> set (nodes g)"
begin

lemma kahn_correct:
  assumes "valid g" and "\<And>n. n \<in> set (nodes g) \<Longrightarrow> deg n = int (length (deps g n))"
    and "length (nodes g) \<le> fuel"
  obtains res where
    "kahn_loop fuel (adj g) deg (filter (\<lambda>n. deg n = 0) (nodes g)) [] = Some res"
    "distinct res" "set res \<subseteq> set (nodes g)" "ordered_from (deps g) {} res"
    "set res = set (nodes g) \<longleftrightarrow> (\<forall>n \<in> set (nodes g). (n, n) \<notin> (dep_rel (deps g))\<^sup>+)"
  using kahn_result[OF assms] deps_nodes[OF assms(1)] by metis

end

end
