(* ===== verification/RuntimeGraph.thy ===== *)
theory RuntimeGraph
  imports GraphOrder "HOL-Library.List_Lexorder" "HOL-Library.Char_ord"
begin

text \<open>
  The dependency graph of the runtime components (\<^verbatim>\<open>runtime/dependency_graph.py\<close>): it orders
  startup and, reversed, shutdown.  A set of dependencies is a list without repetition, in
  the order the interpreter happens to iterate it.
\<close>

record runtime_graph =
  rg_nodes :: "(name, name list) dict"
  rg_order :: "name list"
  missing_dependency_policy :: string
  cycle_detection :: bool

datatype graph_error =
    UnknownComponents name "name list"
  | DependencyCycleError "name list list"
  | DependentsKeyError name

definition new_graph :: "string \<Rightarrow> bool \<Rightarrow> runtime_graph" where
  "new_graph policy detect =
     \<lparr>rg_nodes = [], rg_order = [], missing_dependency_policy = policy, cycle_detection = detect\<rparr>"

definition add_component :: "name \<Rightarrow> name list option \<Rightarrow> runtime_graph \<Rightarrow> runtime_graph" where
  "add_component cname dependencies g =
     (let deps = remdups (case dependencies of None \<Rightarrow> [] | Some ds \<Rightarrow> ds)
      in if cname \<in> set (keys (rg_nodes g))
         then g\<lparr>rg_nodes := AList.update cname deps (rg_nodes g)\<rparr>
         else g\<lparr>rg_order := rg_order g @ [cname],
                rg_nodes := AList.update cname deps (rg_nodes g)\<rparr>)"

definition remove_component :: "name \<Rightarrow> runtime_graph \<Rightarrow> bool \<times> runtime_graph" where
  "remove_component cname g =
     (if cname \<notin> set (keys (rg_nodes g)) then (False, g)
      else (True,
        g\<lparr>rg_nodes := map (\<lambda>(n, ds). (n, removeAll cname ds)) (AList.delete cname (rg_nodes g)),
          rg_order := remove1 cname (rg_order g)\<rparr>))"

definition add_dependency :: "name \<Rightarrow> name \<Rightarrow> runtime_graph \<Rightarrow> runtime_graph" where
  "add_dependency cname dependency g =
     (let ds = dget [] (rg_nodes g) cname
      in g\<lparr>rg_nodes := AList.update cname
             (if dependency \<in> set ds then ds else ds @ [dependency]) (rg_nodes g)\<rparr>)"

definition components :: "runtime_graph \<Rightarrow> name list" where
  "components g = rg_order g"

definition dependencies_of :: "runtime_graph \<Rightarrow> name \<Rightarrow> name list" where
  "dependencies_of g cname = sort (dget [] (rg_nodes g) cname)"

definition dependents_of :: "runtime_graph \<Rightarrow> name \<Rightarrow> name list" where
  "dependents_of g cname = map fst (filter (\<lambda>(c, ds). cname \<in> set ds) (rg_nodes g))"

definition resolve_dependencies :: "runtime_graph \<Rightarrow> name \<Rightarrow> graph_error + name list" where
  "resolve_dependencies g cname =
     (let deps = dget [] (rg_nodes g) cname;
          known = keys (rg_nodes g);
          missing = filter (\<lambda>d. d \<notin> set known) deps
      in if missing \<noteq> []
         then if missing_dependency_policy g = ''raise''
              then Inl (UnknownComponents cname missing)
              else Inr (filter (\<lambda>d. d \<in> set known) deps)
         else Inr deps)"

type_synonym dfs_state = "name list list \<times> name list \<times> name list"

text \<open>A step of the search with the recursive calls as an argument, and its run on fuel.\<close>

primrec visit_list ::
  "(name \<Rightarrow> dfs_state \<Rightarrow> (graph_error + dfs_state) option) \<Rightarrow> name list \<Rightarrow> dfs_state \<Rightarrow>
   (graph_error + dfs_state) option"
where
  "visit_list call [] s = Some (Inr s)"
| "visit_list call (d # ds) s = obind (call d s) (\<lambda>s1. visit_list call ds s1)"

definition visit_step ::
  "(name list \<Rightarrow> dfs_state \<Rightarrow> (graph_error + dfs_state) option) \<Rightarrow> runtime_graph \<Rightarrow> name \<Rightarrow>
   dfs_state \<Rightarrow> (graph_error + dfs_state) option"
where
  "visit_step call_all g node s =
     (case s of (cycles, visited, stack) \<Rightarrow>
        case index_of node stack of
          Some idx \<Rightarrow>
            (let cycle = drop idx stack @ [node]
             in Some (Inr (if cycle \<in> set cycles then cycles else cycles @ [cycle], visited, stack)))
        | None \<Rightarrow>
            if node \<in> set visited then Some (Inr (cycles, visited, stack))
            else case resolve_dependencies g node of
                   Inl e \<Rightarrow> Some (Inl e)
                 | Inr deps \<Rightarrow>
                     obind (call_all deps (cycles, node # visited, stack @ [node]))
                       (\<lambda>(cycles1, visited1, stack1). Some (Inr (cycles1, visited1, butlast stack1))))"

primrec visit :: "nat \<Rightarrow> runtime_graph \<Rightarrow> name \<Rightarrow> dfs_state \<Rightarrow> (graph_error + dfs_state) option" where
  "visit 0 g node s = None"
| "visit (Suc fuel) g node s = visit_step (visit_list (visit fuel g)) g node s"

definition visit_all ::
  "nat \<Rightarrow> runtime_graph \<Rightarrow> name list \<Rightarrow> dfs_state \<Rightarrow> (graph_error + dfs_state) option"
where
  "visit_all fuel g = visit_list (visit fuel g)"

lemma visit_all_simps [simp]:
  "visit_all fuel g [] s = Some (Inr s)"
  "visit_all fuel g (d # ds) s = obind (visit fuel g d s) (\<lambda>s1. visit_all fuel g ds s1)"
  "visit_list (visit fuel g) = visit_all fuel g"
  by (simp_all add: visit_all_def)

definition dfs_fuel :: "runtime_graph \<Rightarrow> nat" where
  "dfs_fuel g = Suc (length (rg_nodes g))"

definition detect_cycles :: "runtime_graph \<Rightarrow> (graph_error + name list list) option" where
  "detect_cycles g =
     obind (visit_all (dfs_fuel g) g (rg_order g) ([], [], [])) (\<lambda>(cycles, _, _). Some (Inr cycles))"

fun resolve_all :: "runtime_graph \<Rightarrow> name list \<Rightarrow> graph_error + (name, name list) dict" where
  "resolve_all g [] = Inr []"
| "resolve_all g (n # ns) =
     ebind (resolve_dependencies g n) (\<lambda>ds. ebind (resolve_all g ns) (\<lambda>rest. Inr ((n, ds) # rest)))"

fun add_dependent ::
  "name \<Rightarrow> name list \<Rightarrow> (name, name list) dict \<Rightarrow> graph_error + (name, name list) dict" where
  "add_dependent n [] dependents = Inr dependents"
| "add_dependent n (d # ds) dependents =
     (case map_of dependents d of
        None \<Rightarrow> Inl (DependentsKeyError d)
      | Some xs \<Rightarrow> add_dependent n ds (AList.update d (xs @ [n]) dependents))"

fun build_dependents ::
  "(name, name list) dict \<Rightarrow> (name, name list) dict \<Rightarrow> graph_error + (name, name list) dict" where
  "build_dependents [] dependents = Inr dependents"
| "build_dependents ((n, ds) # rest) dependents =
     ebind (add_dependent n ds dependents) (build_dependents rest)"

definition kahn_order :: "runtime_graph \<Rightarrow> (graph_error + name list) option" where
  "kahn_order g =
     (case resolve_all g (rg_order g) of
        Inl e \<Rightarrow> Some (Inl e)
      | Inr resolved \<Rightarrow>
          (case build_dependents resolved (map (\<lambda>n. (n, [])) (rg_order g)) of
             Inl e \<Rightarrow> Some (Inl e)
           | Inr dependents \<Rightarrow>
               (let in_degree = (\<lambda>n. int (length (dget [] resolved n)))
                in map_option Inr
                     (kahn_loop (length (rg_order g)) (dget [] dependents) in_degree
                        (filter (\<lambda>n. in_degree n = 0) (rg_order g)) []))))"

definition topological_order :: "runtime_graph \<Rightarrow> (graph_error + name list) option" where
  "topological_order g =
     (if cycle_detection g
      then obind (detect_cycles g)
             (\<lambda>cycles. if cycles \<noteq> [] then Some (Inl (DependencyCycleError cycles)) else kahn_order g)
      else kahn_order g)"

definition reverse_order :: "runtime_graph \<Rightarrow> (graph_error + name list) option" where
  "reverse_order g = obind (topological_order g) (\<lambda>xs. Some (Inr (rev xs)))"

definition graph_snapshot ::
  "runtime_graph \<Rightarrow> (graph_error + name list \<times> (name, name list) dict \<times> name list list) option" where
  "graph_snapshot g =
     obind (detect_cycles g)
       (\<lambda>cycles. Some (Inr (rg_order g, map (\<lambda>(n, ds). (n, sort ds)) (rg_nodes g), cycles)))"

section \<open>The invariant of the graph\<close>

definition rg_inv :: "runtime_graph \<Rightarrow> bool" where
  "rg_inv g \<longleftrightarrow> dict_ok (rg_nodes g) \<and> distinct (rg_order g) \<and>
     set (rg_order g) = set (keys (rg_nodes g)) \<and>
     (\<forall>(n, ds) \<in> set (rg_nodes g). distinct ds)"

lemma rg_inv_distinct_deps: "rg_inv g \<Longrightarrow> distinct (dget [] (rg_nodes g) n)"
  by (auto simp: rg_inv_def dget_def split: option.splits dest!: map_of_SomeD)

lemma new_graph_inv [inv_intros]: "rg_inv (new_graph p d)"
  by (simp add: rg_inv_def new_graph_def)

lemma add_component_inv [inv_intros]: "rg_inv g \<Longrightarrow> rg_inv (add_component n ds g)"
  by (auto simp: rg_inv_def add_component_def Let_def dest: dict_value_in_update)

lemma keys_map_snd: "keys (map (\<lambda>(k, v). (k, f v)) d) = keys d"
  by (induction d) auto

lemma remove_component_inv [inv_intros]:
  assumes inv: "rg_inv g"
  shows "rg_inv (snd (remove_component n g))"
proof (cases "n \<in> set (keys (rg_nodes g))")
  case False
  with inv show ?thesis by (simp add: remove_component_def)
next
  case True
  let ?d = "map (\<lambda>(m, ds). (m, removeAll n ds)) (AList.delete n (rg_nodes g))"
  have k: "keys ?d = removeAll n (keys (rg_nodes g))"
    by (simp only: keys_map_snd keys_delete)
  have "distinct (removeAll n ds)" if "(m, ds) \<in> set (rg_nodes g)" for m ds
    using inv that by (auto simp: rg_inv_def intro: distinct_removeAll)
  then have "\<forall>(m, ds) \<in> set ?d. distinct ds"
    by (auto simp: set_delete_iff)
  moreover have "distinct (keys ?d)" using inv unfolding k by (auto simp: rg_inv_def intro: distinct_removeAll)
  moreover have "set (remove1 n (rg_order g)) = set (keys ?d)"
    using inv unfolding k by (simp add: rg_inv_def)
  moreover have "distinct (remove1 n (rg_order g))" using inv by (simp add: rg_inv_def)
  ultimately show ?thesis using True by (simp add: rg_inv_def remove_component_def)
qed

lemma add_dependency_inv [inv_intros]:
  "rg_inv g \<Longrightarrow> n \<in> set (keys (rg_nodes g)) \<Longrightarrow> rg_inv (add_dependency n d g)"
  using rg_inv_distinct_deps[of g n]
  by (auto simp: rg_inv_def add_dependency_def Let_def dest!: dict_value_in_update)

section \<open>Cycle detection\<close>

definition rg_deps :: "runtime_graph \<Rightarrow> name \<Rightarrow> name list" where
  "rg_deps g n = filter (\<lambda>d. d \<in> set (keys (rg_nodes g))) (dget [] (rg_nodes g) n)"

definition unresolved :: "runtime_graph \<Rightarrow> name \<Rightarrow> bool" where
  "unresolved g n \<longleftrightarrow> missing_dependency_policy g = ''raise'' \<and>
     \<not> set (dget [] (rg_nodes g) n) \<subseteq> set (keys (rg_nodes g))"

lemma resolve_cases:
  "resolve_dependencies g n =
     (if unresolved g n
      then Inl (UnknownComponents n
             (filter (\<lambda>d. d \<notin> set (keys (rg_nodes g))) (dget [] (rg_nodes g) n)))
      else Inr (rg_deps g n))"
proof (cases "filter (\<lambda>d. d \<notin> set (keys (rg_nodes g))) (dget [] (rg_nodes g) n) = []")
  case True
  then have "rg_deps g n = dget [] (rg_nodes g) n"
    by (auto simp: rg_deps_def filter_id_conv filter_empty_conv)
  with True show ?thesis
    by (auto simp: resolve_dependencies_def unresolved_def Let_def filter_empty_conv)
next
  case False
  then show ?thesis
    by (auto simp: resolve_dependencies_def unresolved_def rg_deps_def Let_def filter_empty_conv)
qed

lemma rg_deps_known: "set (rg_deps g n) \<subseteq> set (keys (rg_nodes g))"
  by (auto simp: rg_deps_def)

definition visit_pre :: "runtime_graph \<Rightarrow> name list \<Rightarrow> dfs_state \<Rightarrow> bool" where
  "visit_pre g ns s \<longleftrightarrow>
     (case s of (cycles, visited, stack) \<Rightarrow>
        set ns \<subseteq> set (keys (rg_nodes g)) \<and> set visited \<subseteq> set (keys (rg_nodes g)) \<and>
        walk (rg_deps g) stack \<and> (stack \<noteq> [] \<longrightarrow> set ns \<subseteq> set (rg_deps g (last stack))))"

definition visit_post :: "runtime_graph \<Rightarrow> name list \<Rightarrow> dfs_state \<Rightarrow> dfs_state \<Rightarrow> bool" where
  "visit_post g ns s s1 \<longleftrightarrow>
     (case (s, s1) of ((cycles, visited, stack), (cycles1, visited1, stack1)) \<Rightarrow>
        stack1 = stack \<and> set visited \<subseteq> set visited1 \<and> set visited1 \<subseteq> set (keys (rg_nodes g)) \<and>
        set ns \<subseteq> set visited1 \<union> set stack \<and> set cycles \<subseteq> set cycles1 \<and>
        (\<forall>c \<in> set cycles1 - set cycles. is_cycle (rg_deps g) c) \<and>
        (\<forall>x \<in> set visited1 - set visited. \<not> unresolved g x) \<and>
        (cycles1 = [] \<longrightarrow> (\<forall>fin. dfs_inv (rg_deps g) (set visited) stack fin \<longrightarrow>
           (\<exists>fin1. dfs_inv (rg_deps g) (set visited1) stack fin1 \<and> set ns \<subseteq> set fin1))))"

definition visit_ok :: "runtime_graph \<Rightarrow> name list \<Rightarrow> dfs_state \<Rightarrow> (graph_error + dfs_state) option \<Rightarrow> bool"
where
  "visit_ok g ns s r \<longleftrightarrow>
     (case r of None \<Rightarrow> False
      | Some (Inl e) \<Rightarrow> \<exists>x \<in> set (keys (rg_nodes g)). unresolved g x
      | Some (Inr s1) \<Rightarrow> visit_post g ns s s1)"

definition unvisited :: "runtime_graph \<Rightarrow> dfs_state \<Rightarrow> nat" where
  "unvisited g s = card (set (keys (rg_nodes g)) - set (fst (snd s)))"

lemma visit_all_ok:
  assumes one: "\<And>n s. visit_pre g [n] s \<Longrightarrow> unvisited g s < fuel \<Longrightarrow> visit_ok g [n] s (visit fuel g n s)"
  shows "visit_pre g ns s \<Longrightarrow> unvisited g s < fuel \<Longrightarrow> visit_ok g ns s (visit_all fuel g ns s)"
proof (induction ns arbitrary: s)
  case Nil
  then show ?case
    by (auto simp: visit_ok_def visit_post_def visit_pre_def split: prod.splits)
next
  case (Cons n ns)
  obtain cycles visited stack where s: "s = (cycles, visited, stack)" by (metis prod_cases3)
  have pre1: "visit_pre g [n] s" using Cons.prems(1) by (auto simp: visit_pre_def s)
  from one[OF pre1 Cons.prems(2)] consider
      (err) e where "visit fuel g n s = Some (Inl e)" "\<exists>x \<in> set (keys (rg_nodes g)). unresolved g x"
    | (ok) s1 where "visit fuel g n s = Some (Inr s1)" "visit_post g [n] s s1"
    by (auto simp: visit_ok_def split: option.splits sum.splits)
  then show ?case
  proof cases
    case err
    then show ?thesis by (simp add: visit_ok_def)
  next
    case ok
    obtain c1 v1 where s1: "s1 = (c1, v1, stack)"
      using ok(2) by (cases s1) (auto simp: visit_post_def s)
    have sub: "set visited \<subseteq> set v1" "set v1 \<subseteq> set (keys (rg_nodes g))"
      using ok(2) by (auto simp: visit_post_def s s1)
    have "visit_pre g ns s1"
      using Cons.prems(1) sub by (auto simp: visit_pre_def s s1)
    moreover have "unvisited g s1 < fuel"
    proof -
      have "unvisited g s1 \<le> unvisited g s"
        unfolding unvisited_def s s1 using sub(1) by (intro card_mono) auto
      with Cons.prems(2) show ?thesis by simp
    qed
    ultimately have IH: "visit_ok g ns s1 (visit_all fuel g ns s1)" by (rule Cons.IH)
    have "visit_post g (n # ns) s s2" if p2: "visit_post g ns s1 s2" for s2
    proof -
      obtain c2 v2 where s2: "s2 = (c2, v2, stack)"
        using p2 by (cases s2) (auto simp: visit_post_def s1)
      have fin: "\<exists>fin2. dfs_inv (rg_deps g) (set v2) stack fin2 \<and> set (n # ns) \<subseteq> set fin2"
        if c2: "c2 = []" and d0: "dfs_inv (rg_deps g) (set visited) stack fin" for fin
      proof -
        have "c1 = []" using p2 c2 by (auto simp: visit_post_def s1 s2)
        then obtain fin1 where f1: "dfs_inv (rg_deps g) (set v1) stack fin1" "n \<in> set fin1"
          using ok(2) d0 by (auto simp: visit_post_def s s1)
        then obtain fin2 where f2: "dfs_inv (rg_deps g) (set v2) stack fin2" "set ns \<subseteq> set fin2"
          using p2 c2 by (auto simp: visit_post_def s1 s2)
        have "set v1 \<subseteq> set v2" using p2 by (auto simp: visit_post_def s1 s2)
        then have "n \<in> set fin2" using f1 f2(1) by (auto simp: dfs_inv_def)
        with f2 show ?thesis by auto
      qed
      have a: "set visited \<subseteq> set v1" "n \<in> set v1 \<union> set stack" "set cycles \<subseteq> set c1"
        "\<forall>c \<in> set c1 - set cycles. is_cycle (rg_deps g) c"
        "\<forall>x \<in> set v1 - set visited. \<not> unresolved g x"
        using ok(2) by (auto simp: visit_post_def s s1)
      have b: "set v1 \<subseteq> set v2" "set v2 \<subseteq> set (keys (rg_nodes g))" "set ns \<subseteq> set v2 \<union> set stack"
        "set c1 \<subseteq> set c2" "\<forall>c \<in> set c2 - set c1. is_cycle (rg_deps g) c"
        "\<forall>x \<in> set v2 - set v1. \<not> unresolved g x"
        using p2 by (auto simp: visit_post_def s1 s2)
      have "set (n # ns) \<subseteq> set v2 \<union> set stack" using a(2) b(1,3) by auto
      then show ?thesis
        unfolding visit_post_def s s2 prod.case using a b fin by (intro conjI) blast+
    qed
    then show ?thesis
      using IH ok(1) by (auto simp: visit_ok_def split: option.splits sum.splits)
  qed
qed

lemma visit_ok_step:
  assumes many: "\<And>ns s. visit_pre g ns s \<Longrightarrow> unvisited g s < fuel \<Longrightarrow>
      visit_ok g ns s (visit_all fuel g ns s)"
    and pre: "visit_pre g [n] s" and fuel: "unvisited g s < Suc fuel"
  shows "visit_ok g [n] s (visit (Suc fuel) g n s)"
proof -
  obtain cycles visited stack where s: "s = (cycles, visited, stack)" by (metis prod_cases3)
  have known: "n \<in> set (keys (rg_nodes g))" and w: "walk (rg_deps g) stack"
    and e: "stack \<noteq> [] \<longrightarrow> n \<in> set (rg_deps g (last stack))"
    and v: "set visited \<subseteq> set (keys (rg_nodes g))"
    using pre by (auto simp: visit_pre_def s)
  consider (onstack) i where "index_of n stack = Some i"
    | (seen) "index_of n stack = None" "n \<in> set visited"
    | (bad) "index_of n stack = None" "n \<notin> set visited" "unresolved g n"
    | (fresh) "index_of n stack = None" "n \<notin> set visited" "\<not> unresolved g n"
    by (cases "index_of n stack") auto
  then show ?thesis
  proof cases
    case onstack
    then have "n \<in> set stack" by (metis index_of_None option.distinct(1))
    then have "is_cycle (rg_deps g) (drop i stack @ [n])"
      using back_edge_cycle[OF w _ _ onstack] e by fastforce
    with onstack v \<open>n \<in> set stack\<close> show ?thesis
      by (auto simp: visit_ok_def visit_post_def visit_step_def s Let_def)
  next
    case seen
    then have n: "n \<notin> set stack" by simp
    with seen(2) v show ?thesis
      by (auto simp: visit_ok_def visit_post_def visit_step_def s dfs_inv_def)
  next
    case bad
    with known show ?thesis by (auto simp: visit_ok_def visit_step_def s resolve_cases)
  next
    case fresh
    let ?s = "(cycles, n # visited, stack @ [n])"
    have "visit_pre g (rg_deps g n) ?s"
      using known v w e rg_deps_known by (auto simp: visit_pre_def intro!: walk_snoc)
    moreover have "unvisited g ?s < fuel"
    proof -
      have "unvisited g ?s < unvisited g s"
        unfolding unvisited_def s using known fresh by (intro psubset_card_mono) auto
      with fuel show ?thesis by simp
    qed
    ultimately have r: "visit_ok g (rg_deps g n) ?s (visit_all fuel g (rg_deps g n) ?s)"
      by (rule many)
    have post: "visit_post g [n] s (c1, v1, butlast st1)"
      if p: "visit_post g (rg_deps g n) ?s (c1, v1, st1)" for c1 v1 st1
    proof -
      have "\<exists>fin1. dfs_inv (rg_deps g) (set v1) stack fin1 \<and> n \<in> set fin1"
        if c1: "c1 = []" and d: "dfs_inv (rg_deps g) (set visited) stack fin" for fin
      proof -
        obtain fin1 where f: "dfs_inv (rg_deps g) (set v1) (stack @ [n]) fin1"
            "set (rg_deps g n) \<subseteq> set fin1"
          using p c1 dfs_inv_enter[OF d fresh(2)] by (auto simp: visit_post_def)
        have "dfs_inv (rg_deps g) (set v1) stack (fin1 @ [n])" by (rule dfs_inv_leave[OF f])
        then show ?thesis by (intro exI[of _ "fin1 @ [n]"]) simp
      qed
      with p fresh(3) show ?thesis by (auto simp: visit_post_def s)
    qed
    show ?thesis
    proof (cases "visit_all fuel g (rg_deps g n) ?s")
      case None
      with r show ?thesis by (simp add: visit_ok_def)
    next
      case (Some a)
      show ?thesis
      proof (cases a)
        case (Inl er)
        with Some r fresh show ?thesis by (simp add: visit_ok_def visit_step_def s resolve_cases)
      next
        case (Inr b)
        obtain c1 v1 st1 where b: "b = (c1, v1, st1)" by (metis prod_cases3)
        have p: "visit_post g (rg_deps g n) ?s (c1, v1, st1)"
          using r Some Inr b by (simp add: visit_ok_def)
        show ?thesis using post[OF p] Some Inr b fresh by (simp add: visit_ok_def visit_step_def s resolve_cases)
      qed
    qed
  qed
qed

lemma visit_ok_fuel:
  "visit_pre g [n] s \<Longrightarrow> unvisited g s < fuel \<Longrightarrow> visit_ok g [n] s (visit fuel g n s)"
proof (induction fuel arbitrary: n s)
  case 0
  then show ?case by simp
next
  case (Suc fuel)
  have "visit_ok g ns s (visit_all fuel g ns s)" if "visit_pre g ns s" "unvisited g s < fuel" for ns s
    by (rule visit_all_ok[OF Suc.IH that])
  then show ?case using Suc.prems by (rule visit_ok_step)
qed

lemma detect_cycles_cases:
  assumes sub: "set (rg_order g) \<subseteq> set (keys (rg_nodes g))"
  shows "(\<exists>e. detect_cycles g = Some (Inl e) \<and> (\<exists>x \<in> set (keys (rg_nodes g)). unresolved g x)) \<or>
    (\<exists>cs. detect_cycles g = Some (Inr cs) \<and>
        (\<forall>c \<in> set cs. is_cycle (rg_deps g) c) \<and>
        (\<forall>x \<in> set (rg_order g). \<not> unresolved g x) \<and>
        (cs = [] \<longrightarrow> (\<forall>x \<in> set (rg_order g). (x, x) \<notin> (dep_rel (rg_deps g))\<^sup>+)))"
proof -
  let ?s = "([], [], [])"
  have pre: "visit_pre g (rg_order g) ?s" using sub by (simp add: visit_pre_def)
  have "card (set (keys (rg_nodes g))) \<le> length (rg_nodes g)"
    using card_length[of "keys (rg_nodes g)"] by simp
  then have "unvisited g ?s < dfs_fuel g" by (simp add: unvisited_def dfs_fuel_def)
  then have r: "visit_ok g (rg_order g) ?s (visit_all (dfs_fuel g) g (rg_order g) ?s)"
    by (intro visit_all_ok[OF visit_ok_fuel] pre)
  show ?thesis
  proof (cases "visit_all (dfs_fuel g) g (rg_order g) ?s")
    case None
    with r show ?thesis by (simp add: visit_ok_def)
  next
    case (Some a)
    show ?thesis
    proof (cases a)
      case (Inl e)
      with Some r show ?thesis by (simp add: visit_ok_def detect_cycles_def)
    next
      case (Inr b)
      obtain cs v st where b: "b = (cs, v, st)" by (metis prod_cases3)
      have p: "visit_post g (rg_order g) ?s (cs, v, st)"
        using r Some Inr b by (simp add: visit_ok_def)
      have "(x, x) \<notin> (dep_rel (rg_deps g))\<^sup>+" if "cs = []" "x \<in> set (rg_order g)" for x
      proof -
        have "\<exists>fin. dfs_inv (rg_deps g) (set v) [] fin"
          using p that(1) dfs_inv_start[of "rg_deps g"] by (simp add: visit_post_def) blast
        then obtain fin where "dfs_inv (rg_deps g) (set v) [] fin" by blast
        moreover have "x \<in> set v" using p that(2) by (auto simp: visit_post_def)
        ultimately show ?thesis by (rule dfs_inv_done)
      qed
      then show ?thesis using p Some Inr b
        by (auto simp: detect_cycles_def visit_post_def)
    qed
  qed
qed

section \<open>The order\<close>

definition rg_adj :: "runtime_graph \<Rightarrow> name \<Rightarrow> name list" where
  "rg_adj g d = filter (\<lambda>n. d \<in> set (rg_deps g n)) (rg_order g)"

lemma rg_deps_distinct: "rg_inv g \<Longrightarrow> distinct (rg_deps g n)"
  using rg_inv_distinct_deps[of g n] by (simp add: rg_deps_def)

lemma count_list_distinct: "distinct xs \<Longrightarrow> count_list xs x = (if x \<in> set xs then 1 else 0)"
  by (induction xs) auto

interpretation rg: dep_graph rg_order rg_deps rg_adj rg_inv
proof
  fix g :: runtime_graph and n d :: name
  assume inv: "rg_inv g"
  show "distinct (rg_order g)" using inv by (simp add: rg_inv_def)
  show "set (rg_deps g n) \<subseteq> set (rg_order g)" using inv by (auto simp: rg_inv_def rg_deps_def)
  show "set (rg_adj g d) \<subseteq> set (rg_order g)" by (auto simp: rg_adj_def)
  assume "n \<in> set (rg_order g)"
  moreover have "distinct (rg_adj g d)" using inv by (simp add: rg_inv_def rg_adj_def)
  ultimately show "count_list (rg_adj g d) n = count_list (rg_deps g n) d"
    using rg_deps_distinct[OF inv, of n] by (simp add: count_list_distinct rg_adj_def)
qed

lemma resolve_all_cases:
  "if \<exists>n \<in> set ns. unresolved g n then \<exists>e. resolve_all g ns = Inl e
   else resolve_all g ns = Inr (map (\<lambda>n. (n, rg_deps g n)) ns)"
proof (induction ns)
  case Nil
  then show ?case by simp
next
  case (Cons n ns)
  then show ?case
    by (cases "unresolved g n"; cases "\<exists>n \<in> set ns. unresolved g n") (auto simp: resolve_cases)
qed

lemma add_dependent_ok:
  assumes "set ds \<subseteq> set (keys m)" "distinct ds"
  shows "\<exists>m1. add_dependent n ds m = Inr m1 \<and> set (keys m1) = set (keys m) \<and>
     (\<forall>d \<in> set (keys m). dget [] m1 d = dget [] m d @ (if d \<in> set ds then [n] else []))"
  using assms
proof (induction ds arbitrary: m)
  case Nil
  then show ?case by simp
next
  case (Cons d ds)
  then have "d \<in> fst ` set m" by auto
  then obtain xs where xs: "map_of m d = Some xs"
    by (auto simp: in_keys_iff_map_of)
  let ?m = "AList.update d (xs @ [n]) m"
  have k: "set (keys ?m) = set (keys m)" using \<open>d \<in> fst ` set m\<close> by (auto simp: keys_update_old)
  from Cons.IH[of ?m] Cons.prems k obtain m1 where m1:
    "add_dependent n ds ?m = Inr m1" "set (keys m1) = set (keys ?m)"
    "\<forall>x \<in> set (keys ?m). dget [] m1 x = dget [] ?m x @ (if x \<in> set ds then [n] else [])"
    by auto
  moreover have "dget [] m d = xs" using xs by (simp add: dget_def)
  ultimately show ?case using xs k Cons.prems(2) by (intro exI[of _ m1]) auto
qed

lemma build_dependents_ok:
  assumes "\<And>n. n \<in> set ns \<Longrightarrow> set (rg_deps g n) \<subseteq> set (keys m)" "\<And>n. distinct (rg_deps g n)"
  shows "\<exists>m1. build_dependents (map (\<lambda>n. (n, rg_deps g n)) ns) m = Inr m1 \<and>
     set (keys m1) = set (keys m) \<and>
     (\<forall>d \<in> set (keys m). dget [] m1 d = dget [] m d @ filter (\<lambda>n. d \<in> set (rg_deps g n)) ns)"
  using assms
proof (induction ns arbitrary: m)
  case Nil
  then show ?case by simp
next
  case (Cons n ns)
  from add_dependent_ok[of "rg_deps g n" m n] Cons.prems obtain m1 where m1:
    "add_dependent n (rg_deps g n) m = Inr m1" "set (keys m1) = set (keys m)"
    "\<forall>d \<in> set (keys m). dget [] m1 d = dget [] m d @ (if d \<in> set (rg_deps g n) then [n] else [])"
    by auto
  from Cons.IH[of m1] Cons.prems m1(2) obtain m2 where
    "build_dependents (map (\<lambda>n. (n, rg_deps g n)) ns) m1 = Inr m2"
    "set (keys m2) = set (keys m1)"
    "\<forall>d \<in> set (keys m1). dget [] m2 d = dget [] m1 d @ filter (\<lambda>n. d \<in> set (rg_deps g n)) ns"
    by auto
  with m1 show ?case by (intro exI[of _ m2]) auto
qed

lemma dget_map_pair: "x \<in> set xs \<Longrightarrow> dget v (map (\<lambda>n. (n, f n)) xs) x = f x"
  by (simp add: dget_def map_of_map_restrict[unfolded comp_def])

lemma kahn_order_cases:
  assumes inv: "rg_inv g"
  shows "(\<exists>n \<in> set (rg_order g). unresolved g n) \<and> (\<exists>e. kahn_order g = Some (Inl e)) \<or>
    (\<forall>n \<in> set (rg_order g). \<not> unresolved g n) \<and>
    (\<exists>res. kahn_order g = Some (Inr res) \<and> distinct res \<and> set res \<subseteq> set (rg_order g) \<and>
       ordered_from (rg_deps g) {} res \<and>
       (set res = set (rg_order g) \<longleftrightarrow>
          (\<forall>n \<in> set (rg_order g). (n, n) \<notin> (dep_rel (rg_deps g))\<^sup>+)))"
proof (cases "\<exists>n \<in> set (rg_order g). unresolved g n")
  case True
  then obtain e where "resolve_all g (rg_order g) = Inl e"
    using resolve_all_cases[of "rg_order g" g] by auto
  with True show ?thesis by (simp add: kahn_order_def)
next
  case False
  let ?ns = "rg_order g" and ?res = "map (\<lambda>n. (n, rg_deps g n)) (rg_order g)"
  have ra: "resolve_all g ?ns = Inr ?res" using False resolve_all_cases[of ?ns g] by simp
  have ks: "set (keys (map (\<lambda>n. (n, [])) ?ns)) = set ?ns" by force
  obtain m1 where m1: "build_dependents ?res (map (\<lambda>n. (n, [])) ?ns) = Inr m1"
      "set (keys m1) = set ?ns"
      "\<forall>d \<in> set ?ns. dget [] m1 d =
         dget [] (map (\<lambda>n. (n, [])) ?ns) d @ filter (\<lambda>n. d \<in> set (rg_deps g n)) ?ns"
    using build_dependents_ok[of ?ns g "map (\<lambda>n. (n, [])) ?ns"] rg_deps_distinct[OF inv]
      rg.deps_nodes[OF inv] unfolding ks by blast
  have adj: "dget [] m1 = rg_adj g"
  proof
    fix d
    show "dget [] m1 d = rg_adj g d"
    proof (cases "d \<in> set ?ns")
      case True
      with m1(3) show ?thesis by (simp add: dget_map_pair rg_adj_def)
    next
      case False
      then have "map_of m1 d = None" using m1(2) by (simp add: map_of_eq_None_iff)
      moreover have "rg_adj g d = []"
        using False rg.deps_nodes[OF inv] by (auto simp: rg_adj_def filter_empty_conv)
      ultimately show ?thesis by (simp add: dget_def)
    qed
  qed
  have "int (length (dget [] ?res n)) = int (length (rg_deps g n))" if "n \<in> set ?ns" for n
    using that by (simp add: dget_map_pair)
  from rg.kahn_correct[OF inv this order_refl] obtain res where
    "kahn_loop (length ?ns) (rg_adj g) (\<lambda>n. int (length (dget [] ?res n)))
       (filter (\<lambda>n. int (length (dget [] ?res n)) = 0) ?ns) [] = Some res"
    "distinct res" "set res \<subseteq> set ?ns" "ordered_from (rg_deps g) {} res"
    "set res = set ?ns \<longleftrightarrow> (\<forall>n \<in> set ?ns. (n, n) \<notin> (dep_rel (rg_deps g))\<^sup>+)"
    by blast
  then show ?thesis using False ra m1(1) adj by (simp add: kahn_order_def Let_def)
qed

lemma topological_order_ok:
  assumes inv: "rg_inv g"
  shows "(\<exists>xs. topological_order g = Some (Inr xs) \<and> distinct xs \<and> set xs = set (rg_order g) \<and>
            ordered_from (rg_deps g) {} xs) \<longleftrightarrow>
    (\<forall>n \<in> set (rg_order g). \<not> unresolved g n \<and> (n, n) \<notin> (dep_rel (rg_deps g))\<^sup>+)"
proof (cases "cycle_detection g")
  case False
  with kahn_order_cases[OF inv] ordered_no_cycle[of "rg_deps g"] show ?thesis
    by (auto simp: topological_order_def) 
next
  case True
  have sub: "set (rg_order g) = set (keys (rg_nodes g))" using inv by (simp add: rg_inv_def)
  from detect_cycles_cases[of g] sub consider
    (err) e where "detect_cycles g = Some (Inl e)" "\<exists>x \<in> set (rg_order g). unresolved g x"
  | (cyc) c cs where "detect_cycles g = Some (Inr (c # cs))" "is_cycle (rg_deps g) c"
  | (none) "detect_cycles g = Some (Inr [])"
    by (metis list.exhaust list.set_intros(1) order_refl)
  then show ?thesis
  proof cases
    case err
    then show ?thesis using True by (auto simp: topological_order_def)
  next
    case cyc
    have "(hd c, hd c) \<in> (dep_rel (rg_deps g))\<^sup>+" by (rule cycle_reach[OF cyc(2)])
    moreover have "hd c \<in> set (rg_order g)"
      using calculation rg_deps_known by (cases rule: tranclE) (auto simp: sub)
    ultimately show ?thesis using True cyc(1) by (auto simp: topological_order_def)
  next
    case none
    with True have "topological_order g = kahn_order g" by (simp add: topological_order_def)
    then show ?thesis
      using kahn_order_cases[OF inv] ordered_no_cycle[of "rg_deps g"] by auto
  qed
qed

lemma add_dependent_keys:
  "add_dependent n ds m = Inr m1 \<Longrightarrow> set ds \<subseteq> set (keys m) \<and> set (keys m1) = set (keys m)"
proof (induction n ds m rule: add_dependent.induct)
  case (2 n d ds m)
  then obtain xs where xs: "map_of m d = Some xs" by (auto split: option.splits)
  then have "d \<in> fst ` set m" by (simp add: in_keys_iff_map_of)
  with 2 xs show ?case by (auto simp: insert_absorb)
qed simp

lemma build_dependents_keys:
  "build_dependents res m = Inr m1 \<Longrightarrow> (n, ds) \<in> set res \<Longrightarrow> set ds \<subseteq> set (keys m)"
proof (induction res m rule: build_dependents.induct)
  case (2 k ks rest m)
  then obtain m2 where m2: "add_dependent k ks m = Inr m2" "build_dependents rest m2 = Inr m1"
    by (auto simp: ebind_Inr)
  have k: "set ks \<subseteq> set (keys m)" "set (keys m2) = set (keys m)"
    using add_dependent_keys[OF m2(1)] by auto
  from "2.prems"(2) consider "ds = ks" | "(n, ds) \<in> set rest" by auto
  then show ?case using "2.IH"[OF m2(2)] k by cases auto
qed simp

lemma topological_order_unordered:
  assumes "m \<in> set (rg_order g)" "x \<in> set (rg_deps g m)" "x \<notin> set (rg_order g)"
  shows "topological_order g \<noteq> Some (Inr xs)"
proof
  assume "topological_order g = Some (Inr xs)"
  then have k: "kahn_order g = Some (Inr xs)"
    by (auto simp: topological_order_def obind_Inr split: if_splits)
  then obtain res where "resolve_all g (rg_order g) = Inr res"
    by (auto simp: kahn_order_def split: sum.splits)
  then have "\<not> (\<exists>n \<in> set (rg_order g). unresolved g n)"
    using resolve_all_cases[of "rg_order g" g] by (metis Inl_Inr_False)
  then have r: "resolve_all g (rg_order g) = Inr (map (\<lambda>n. (n, rg_deps g n)) (rg_order g))"
    using resolve_all_cases[of "rg_order g" g] by simp
  with k obtain m1 where
    "build_dependents (map (\<lambda>n. (n, rg_deps g n)) (rg_order g)) (map (\<lambda>n. (n, [])) (rg_order g)) = Inr m1"
    by (auto simp: kahn_order_def split: sum.splits)
  from build_dependents_keys[OF this, of m "rg_deps g m"] assms show False by auto
qed

section \<open>Properties\<close>

definition demo_graph :: runtime_graph where
  "demo_graph = add_component ''api'' (Some [''db'', ''bus''])
     (add_component ''bus'' (Some [''db'']) (add_component ''db'' None (new_graph ''raise'' True)))"

lemma demo_graph_inv: "rg_inv demo_graph"
  unfolding demo_graph_def by (intro inv_intros)

text \<open>C3: \<^verbatim>\<open>topological_order\<close> returns every registered component exactly once, each after all its
  known dependencies, precisely when no component has an unknown dependency under the
  \<^verbatim>\<open>raise\<close> policy and no component reaches itself; in every other case it raises.  It always
  ends, so the fuel of both loops is enough.\<close>

theorem topological_order_correct:
  assumes "rg_inv g"
  shows "if \<forall>n \<in> set (components g). \<not> unresolved g n \<and> (n, n) \<notin> (dep_rel (rg_deps g))\<^sup>+
    then \<exists>xs. topological_order g = Some (Inr xs) \<and> distinct xs \<and> set xs = set (components g) \<and>
           (\<forall>n \<in> set xs. \<forall>d \<in> set (rg_deps g n). before xs d n)
    else (\<exists>e. topological_order g = Some (Inl e)) \<or>
         \<not> cycle_detection g \<and> (\<exists>xs. topological_order g = Some (Inr xs) \<and>
            distinct xs \<and> set xs \<subset> set (components g) \<and>
            (\<forall>n \<in> set xs. \<forall>d \<in> set (rg_deps g n). before xs d n))"
proof -
  have total: "topological_order g \<noteq> None"
    using detect_cycles_cases[of g] kahn_order_cases[OF assms] assms
    by (auto simp: topological_order_def rg_inv_def)
  show ?thesis
  proof (cases "\<forall>n \<in> set (components g). \<not> unresolved g n \<and> (n, n) \<notin> (dep_rel (rg_deps g))\<^sup>+")
    case True
    then obtain xs where "topological_order g = Some (Inr xs)" "distinct xs"
        "set xs = set (rg_order g)" "ordered_from (rg_deps g) {} xs"
      using topological_order_ok[OF assms] by (auto simp: components_def)
    with True show ?thesis by (auto simp: components_def intro: ordered_before)
  next
    case bad: False
    show ?thesis
    proof (cases "\<exists>e. topological_order g = Some (Inl e)")
      case False
      with total obtain xs where xs: "topological_order g = Some (Inr xs)"
        by (metis old.sum.exhaust option.exhaust)
      then have k: "kahn_order g = Some (Inr xs)"
        by (auto simp: topological_order_def obind_Inr split: if_splits)
      then have res: "distinct xs" "set xs \<subseteq> set (components g)" "ordered_from (rg_deps g) {} xs"
        using kahn_order_cases[OF assms] by (auto simp: components_def)
      have "set xs \<noteq> set (components g)"
        using bad topological_order_ok[OF assms] xs res by (auto simp: components_def)
      moreover have "\<not> cycle_detection g"
      proof
        assume "cycle_detection g"
        then have "detect_cycles g = Some (Inr [])"
          using xs by (auto simp: topological_order_def obind_Inr split: if_splits)
        with detect_cycles_cases[of g] bad assms show False by (auto simp: components_def rg_inv_def)
      qed
      ultimately show ?thesis using bad xs res by (auto intro: ordered_before)
    qed (use bad in auto)
  qed
qed

theorem topological_order_correct_witness:
  "topological_order demo_graph = Some (Inr [''db'', ''bus'', ''api'']) \<and>
   (\<exists>xs. topological_order demo_graph = Some (Inr xs) \<and> distinct xs \<and> set xs = set (components demo_graph)) "
proof -
  have t: "topological_order demo_graph = Some (Inr [''db'', ''bus'', ''api''])" by code_simp
  have c: "cycle_detection demo_graph" by code_simp
  show ?thesis using topological_order_correct[OF demo_graph_inv] t c by (simp split: if_splits)
qed

text \<open>with cycle detection on, the shutdown order lists every component, each before all
  the components it depends on.\<close>

theorem reverse_order_dependents_first:
  assumes "rg_inv g" "cycle_detection g" "reverse_order g = Some (Inr xs)"
  shows "distinct xs \<and> set xs = set (components g) \<and>
    (\<forall>n \<in> set xs. \<forall>d \<in> set (rg_deps g n). before xs n d)"
proof -
  obtain ys where ys: "topological_order g = Some (Inr ys)" "xs = rev ys"
    using assms(3) by (auto simp: reverse_order_def obind_Inr)
  then have "detect_cycles g = Some (Inr [])"
    using assms(2) by (auto simp: topological_order_def obind_Inr split: if_splits)
  then obtain zs where "topological_order g = Some (Inr zs)" "distinct zs"
      "set zs = set (rg_order g)" "ordered_from (rg_deps g) {} zs"
    using detect_cycles_cases[of g] topological_order_ok[OF assms(1)] assms(1)
    by (auto simp: rg_inv_def)
  with ys show ?thesis by (auto simp: components_def intro: before_rev ordered_before)
qed

theorem reverse_order_dependents_first_witness:
  "reverse_order demo_graph = Some (Inr [''api'', ''bus'', ''db'']) \<and>
   set [''api'', ''bus'', ''db''] = set (components demo_graph)"
proof -
  have t: "reverse_order demo_graph = Some (Inr [''api'', ''bus'', ''db''])" by code_simp
  have c: "cycle_detection demo_graph" by code_simp
  show ?thesis using reverse_order_dependents_first[OF demo_graph_inv c t] t by blast
qed



text \<open>a name that only \<^verbatim>\<open>add_dependency\<close> introduced never enters the registration order;
  once a registered component depends on it, \<^verbatim>\<open>topological_order\<close> returns no order at all (it
  fails, with a \<^verbatim>\<open>KeyError\<close> when nothing else is wrong with the graph).\<close>

theorem add_dependency_unregistered:
  assumes "rg_inv g" "x \<notin> set (keys (rg_nodes g))"
    and "m \<in> set (components g)" "x \<in> set (dget [] (rg_nodes g) m)"
  shows "x \<notin> set (components (add_dependency x d g)) \<and>
    (\<forall>xs. topological_order (add_dependency x d g) \<noteq> Some (Inr xs))"
proof -
  let ?g = "add_dependency x d g"
  have o: "rg_order ?g = rg_order g" by (simp add: add_dependency_def Let_def)
  have x: "x \<notin> set (rg_order g)" and m: "m \<in> set (rg_order g)" "m \<noteq> x"
    using assms by (auto simp: rg_inv_def components_def)
  have "x \<in> set (rg_deps ?g m)"
    using assms(4) m by (auto simp: rg_deps_def add_dependency_def Let_def)
  then show ?thesis
    using topological_order_unordered[of m ?g x] x m o by (simp add: components_def)
qed

theorem add_dependency_unregistered_witness:
  "topological_order (add_dependency ''mq'' ''db'' (add_component ''web'' (Some [''mq''])
     (add_component ''db'' None (new_graph ''skip'' True)))) = Some (Inl (DependentsKeyError ''mq'')) \<and>
   (\<forall>xs. topological_order (add_dependency ''mq'' ''db'' (add_component ''web'' (Some [''mq''])
     (add_component ''db'' None (new_graph ''skip'' True)))) \<noteq> Some (Inr xs))"
proof -
  let ?g = "add_component ''web'' (Some [''mq'']) (add_component ''db'' None (new_graph ''skip'' True))"
  have i: "rg_inv ?g" by (intro inv_intros)
  have "''mq'' \<notin> set (keys (rg_nodes ?g))" "''web'' \<in> set (components ?g)"
    "''mq'' \<in> set (dget [] (rg_nodes ?g) ''web'')" by code_simp+
  note a = add_dependency_unregistered[OF i this, of "''db''"]
  have "topological_order (add_dependency ''mq'' ''db'' ?g) = Some (Inl (DependentsKeyError ''mq''))"
    by code_simp
  with a show ?thesis by blast
qed

end
