(* ===== verification/ProcessManager.thy ===== *)
theory ProcessManager
  imports Prelude
begin

text \<open>
  The registry of worker processes (\<^verbatim>\<open>runtime/process_manager.py\<close>).  A thread is a number;
  which threads are running at the moment of a call is the argument \<^verbatim>\<open>alive\<close>.  A join with a
  timeout returns whether or not the thread has ended, so it changes nothing here.
\<close>

datatype ProcessStatus = PrCREATED | PrSTARTING | PrRUNNING | PrDEGRADED | PrFAILED | PrSTOPPED

record process =
  p_status :: ProcessStatus
  p_pid :: "int option"
  p_thread_alive :: bool
  p_started_at :: "time option"
  p_stopped_at :: "time option"
  p_restart_count :: nat
  p_error :: "string option"

record process_manager =
  pm_processes :: "(name, process) dict"
  pm_threads :: "(name, nat) dict"
  pm_targets :: "(name, string option) dict"
  pm_next_thread :: nat

datatype process_error = ProcessNotRegistered name

definition new_process_manager :: process_manager where
  "new_process_manager =
     \<lparr>pm_processes = [], pm_threads = [], pm_targets = [], pm_next_thread = 0\<rparr>"

definition get_process :: "name \<Rightarrow> process_manager \<Rightarrow> process_error + process" where
  "get_process n pm =
     (case map_of (pm_processes pm) n of
        None \<Rightarrow> Inl (ProcessNotRegistered n)
      | Some p \<Rightarrow> Inr p)"

definition get_optional :: "name \<Rightarrow> process_manager \<Rightarrow> process option" where
  "get_optional n pm = map_of (pm_processes pm) n"

definition pm_is_alive :: "(nat \<Rightarrow> bool) \<Rightarrow> name \<Rightarrow> process_manager \<Rightarrow> bool" where
  "pm_is_alive alive n pm = (case map_of (pm_threads pm) n of None \<Rightarrow> False | Some t \<Rightarrow> alive t)"

definition pm_register ::
  "(nat \<Rightarrow> bool) \<Rightarrow> name \<Rightarrow> string option \<Rightarrow> int option \<Rightarrow> process_manager \<Rightarrow> process \<times> process_manager"
where
  "pm_register alive n target pid pm =
     (let fresh = \<lparr>p_status = PrCREATED, p_pid = pid, p_thread_alive = False, p_started_at = None,
                   p_stopped_at = None, p_restart_count = 0, p_error = None\<rparr>;
          add = (\<lambda>p. (p, pm\<lparr>pm_processes := AList.update n p (pm_processes pm),
                            pm_targets := AList.update n target (pm_targets pm)\<rparr>))
      in case map_of (pm_processes pm) n of
           None \<Rightarrow> add fresh
         | Some existing \<Rightarrow>
             if pm_is_alive alive n pm then (existing, pm)
             else add (fresh\<lparr>p_restart_count := p_restart_count existing\<rparr>))"

definition pm_start ::
  "(nat \<Rightarrow> bool) \<Rightarrow> time \<Rightarrow> name \<Rightarrow> process_manager \<Rightarrow> (process_error + process) \<times> process_manager"
where
  "pm_start alive now n pm =
     (case get_process n pm of
        Inl e \<Rightarrow> (Inl e, pm)
      | Inr p \<Rightarrow>
          if pm_is_alive alive n pm then (Inr p, pm)
          else let p1 = p\<lparr>p_status := PrRUNNING, p_thread_alive := True, p_started_at := Some now,
                          p_stopped_at := None, p_error := None\<rparr>
               in (Inr p1,
                   pm\<lparr>pm_threads := AList.update n (pm_next_thread pm) (pm_threads pm),
                      pm_next_thread := Suc (pm_next_thread pm),
                      pm_processes := AList.update n p1 (pm_processes pm)\<rparr>))"

definition pm_stop ::
  "(nat \<Rightarrow> bool) \<Rightarrow> time \<Rightarrow> name \<Rightarrow> process_manager \<Rightarrow> (process_error + process) \<times> process_manager"
where
  "pm_stop alive now n pm =
     (case get_process n pm of
        Inl e \<Rightarrow> (Inl e, pm)
      | Inr p \<Rightarrow>
          let p1 = p\<lparr>p_status := PrSTOPPED, p_thread_alive := False, p_stopped_at := Some now\<rparr>
          in (Inr p1,
              pm\<lparr>pm_processes := AList.update n p1 (pm_processes pm),
                 pm_threads := (if pm_is_alive alive n pm then AList.delete n (pm_threads pm)
                                else pm_threads pm)\<rparr>))"

definition pm_restart ::
  "(nat \<Rightarrow> bool) \<Rightarrow> time \<Rightarrow> name \<Rightarrow> process_manager \<Rightarrow> (process_error + process) \<times> process_manager"
where
  "pm_restart alive now n pm =
     (case get_process n pm of
        Inl e \<Rightarrow> (Inl e, pm)
      | Inr _ \<Rightarrow>
          let pm1 = (if pm_is_alive alive n pm then snd (pm_stop alive now n pm) else pm)
          in case get_process n pm1 of
               Inl e \<Rightarrow> (Inl e, pm1)
             | Inr p \<Rightarrow>
                 pm_start alive now n
                   (pm1\<lparr>pm_processes :=
                      AList.update n (p\<lparr>p_restart_count := p_restart_count p + 1\<rparr>) (pm_processes pm1)\<rparr>))"

definition pm_unregister :: "(nat \<Rightarrow> bool) \<Rightarrow> time \<Rightarrow> name \<Rightarrow> process_manager \<Rightarrow> bool \<times> process_manager"
where
  "pm_unregister alive now n pm =
     (if n \<notin> set (keys (pm_processes pm)) then (False, pm)
      else let pm1 = snd (pm_stop alive now n pm)
           in (True, pm1\<lparr>pm_processes := AList.delete n (pm_processes pm1),
                         pm_threads := AList.delete n (pm_threads pm1),
                         pm_targets := AList.delete n (pm_targets pm1)\<rparr>))"

definition pm_stop_all :: "(nat \<Rightarrow> bool) \<Rightarrow> time \<Rightarrow> process_manager \<Rightarrow> name list \<times> process_manager" where
  "pm_stop_all alive now pm =
     (keys (pm_processes pm),
      fold (\<lambda>n pm. snd (pm_stop alive now n pm)) (keys (pm_processes pm)) pm)"

definition pm_status :: "(nat \<Rightarrow> bool) \<Rightarrow> name \<Rightarrow> process_manager \<Rightarrow> process_error + ProcessStatus" where
  "pm_status alive n pm =
     (case get_process n pm of
        Inl e \<Rightarrow> Inl e
      | Inr p \<Rightarrow> Inr (if pm_is_alive alive n pm then PrRUNNING else p_status p))"

definition pm_alive_count :: "(nat \<Rightarrow> bool) \<Rightarrow> process_manager \<Rightarrow> nat" where
  "pm_alive_count alive pm =
     length (filter (\<lambda>n. pm_is_alive alive n pm) (keys (pm_processes pm)))"

lemmas pm_defs = get_process_def get_optional_def pm_is_alive_def pm_register_def pm_start_def
  pm_stop_def pm_restart_def pm_unregister_def pm_status_def Let_def

text \<open>
  The invariant: every thread handle and target belongs to a registered process, and thread
  numbers below the counter are the only ones in use, each by one name.
\<close>

definition pm_inv :: "process_manager \<Rightarrow> bool" where
  "pm_inv pm \<longleftrightarrow> dict_ok (pm_processes pm) \<and> dict_ok (pm_threads pm) \<and> dict_ok (pm_targets pm) \<and>
     fst ` set (pm_threads pm) \<subseteq> fst ` set (pm_processes pm) \<and>
     fst ` set (pm_targets pm) = fst ` set (pm_processes pm) \<and>
     (\<forall>(n, t) \<in> set (pm_threads pm). t < pm_next_thread pm) \<and>
     distinct (map snd (pm_threads pm))"

lemma distinct_snd_update:
  "distinct (map snd d) \<Longrightarrow> v \<notin> snd ` set d \<Longrightarrow> distinct (map snd (AList.update k v d))"
proof (induction d)
  case (Cons p d)
  have "snd ` set (AList.update k v d) \<subseteq> insert v (snd ` set d)"
    by (auto dest: dict_value_in_update)
  with Cons show ?case by (cases p) auto
qed simp

lemma new_process_manager_inv [inv_intros]: "pm_inv new_process_manager"
  by (simp add: pm_inv_def new_process_manager_def)

lemma pm_register_inv [inv_intros]: "pm_inv pm \<Longrightarrow> pm_inv (snd (pm_register alive n t pid pm))"
  by (auto simp: pm_inv_def pm_register_def Let_def split: option.splits)

lemma pm_start_inv [inv_intros]:
  assumes "pm_inv pm"
  shows "pm_inv (snd (pm_start alive now n pm))"
proof -
  have "pm_next_thread pm \<notin> snd ` set (pm_threads pm)"
    using assms by (auto simp: pm_inv_def)
  moreover have "n \<in> fst ` set (pm_processes pm)" if "map_of (pm_processes pm) n = Some p" for p
    using that by (simp add: in_keys_iff_map_of)
  ultimately show ?thesis
    using assms
    by (auto simp: pm_inv_def pm_start_def get_process_def Let_def distinct_snd_update less_Suc_eq
        split: option.splits dest!: dict_value_in_update)
qed

lemma distinct_snd_delete: "distinct (map snd d) \<Longrightarrow> distinct (map snd (AList.delete k d))"
  by (induction d) (auto simp: set_delete_iff)

lemma pm_stop_inv [inv_intros]:
  assumes "pm_inv pm"
  shows "pm_inv (snd (pm_stop alive now n pm))"
proof -
  have "n \<in> fst ` set (pm_processes pm)" if "map_of (pm_processes pm) n = Some p" for p
    using that by (simp add: in_keys_iff_map_of)
  with assms show ?thesis
    by (auto simp: pm_inv_def pm_stop_def get_process_def Let_def distinct_snd_delete
        insert_absorb set_delete_iff split: option.splits)
qed

lemma pm_restart_inv [inv_intros]:
  assumes "pm_inv pm"
  shows "pm_inv (snd (pm_restart alive now n pm))"
proof -
  let ?pm1 = "if pm_is_alive alive n pm then snd (pm_stop alive now n pm) else pm"
  have i: "pm_inv ?pm1" using assms pm_stop_inv by simp
  have "pm_inv (?pm1\<lparr>pm_processes := AList.update n q (pm_processes ?pm1)\<rparr>)"
    if "map_of (pm_processes ?pm1) n = Some p" for p q
  proof -
    have "n \<in> fst ` set (pm_processes ?pm1)" using that by (simp only: in_keys_iff_map_of) simp
    with i show ?thesis by (simp add: pm_inv_def insert_absorb del: if_split)
  qed
  then show ?thesis using assms i pm_start_inv
    by (auto simp: pm_restart_def get_process_def Let_def split: option.splits simp del: if_split)
qed

lemma pm_unregister_inv [inv_intros]:
  assumes "pm_inv pm"
  shows "pm_inv (snd (pm_unregister alive now n pm))"
  using pm_stop_inv[OF assms, of alive now n] assms
  by (auto simp: pm_unregister_def Let_def pm_inv_def distinct_snd_delete set_delete_iff)

lemma get_process_in_keys: "map_of (pm_processes pm) n = Some p \<Longrightarrow> n \<in> fst ` set (pm_processes pm)"
  by (simp add: in_keys_iff_map_of)

lemma pm_start_keys [frame_simps]: "keys (pm_processes (snd (pm_start alive now n pm))) = keys (pm_processes pm)"
  by (auto simp: pm_start_def get_process_def Let_def keys_update_old get_process_in_keys split: option.splits)

lemma pm_stop_keys [frame_simps]: "keys (pm_processes (snd (pm_stop alive now n pm))) = keys (pm_processes pm)"
  by (auto simp: pm_stop_def get_process_def Let_def keys_update_old get_process_in_keys split: option.splits)

lemma pm_restart_keys [frame_simps]:
  "keys (pm_processes (snd (pm_restart alive now n pm))) = keys (pm_processes pm)"
proof -
  let ?pm1 = "if pm_is_alive alive n pm then snd (pm_stop alive now n pm) else pm"
  have k: "keys (pm_processes ?pm1) = keys (pm_processes pm)" by (simp add: pm_stop_keys)
  show ?thesis
  proof (cases "map_of (pm_processes pm) n")
    case None
    then show ?thesis by (simp add: pm_restart_def get_process_def)
  next
    case (Some p)
    show ?thesis
    proof (cases "map_of (pm_processes ?pm1) n")
      case None
      with Some k show ?thesis
        by (simp add: pm_restart_def get_process_def Let_def del: if_split)
    next
      case q: (Some q)
      then have "n \<in> fst ` set (pm_processes ?pm1)" by (rule get_process_in_keys)
      with Some q k show ?thesis
        by (simp add: pm_restart_def get_process_def Let_def pm_start_keys keys_update_old del: if_split)
    qed
  qed
qed

end
