(* ===== verification/Heartbeat.thy ===== *)
theory Heartbeat
  imports Prelude
begin

text \<open>
  Heartbeat monitoring (\<^verbatim>\<open>runtime/heartbeat.py\<close>) and the deadline watchdog that shares it
  (\<^verbatim>\<open>runtime/watchdog.py\<close>).  Every reading of the clock is an argument.  The payload of a
  heartbeat and the worker threads are left out.  A callback may change any state, the
  heartbeat manager included, so a check runs on the pair of the manager and the rest of
  the system, and the callback is a function on such pairs; its exceptions are swallowed by
  the code and leave the state it had reached.
\<close>

datatype HealthStatus = HEALTHY | DEGRADED_HEALTH | UNHEALTHY

record heartbeat =
  hb_sent_at :: time
  hb_received_at :: time
  hb_seq :: nat
  hb_interval :: rat
  hb_status :: HealthStatus

record heartbeat_manager =
  hm_enabled :: bool
  hm_interval :: rat
  hm_timeout :: rat
  hm_threshold :: int
  hm_beats :: "(name, heartbeat) dict"
  hm_misses :: "(name, int) dict"

text \<open>The model of a heartbeat refuses a non-positive interval.\<close>

datatype heartbeat_error = InvalidInterval name rat

definition new_heartbeat_manager :: "bool \<Rightarrow> rat \<Rightarrow> rat \<Rightarrow> int \<Rightarrow> heartbeat_manager" where
  "new_heartbeat_manager enabled interval timeout threshold =
     \<lparr>hm_enabled = enabled, hm_interval = interval, hm_timeout = timeout,
      hm_threshold = threshold, hm_beats = [], hm_misses = []\<rparr>"

definition hb_register ::
  "time \<Rightarrow> name \<Rightarrow> rat option \<Rightarrow> heartbeat_manager \<Rightarrow> heartbeat_error + heartbeat \<times> heartbeat_manager"
where
  "hb_register now c interval m =
     (let iv = (case interval of None \<Rightarrow> hm_interval m | Some i \<Rightarrow> if i = 0 then hm_interval m else i)
      in case map_of (hm_beats m) c of
           Some existing \<Rightarrow>
             (let h = existing\<lparr>hb_interval := iv\<rparr>
              in Inr (h, m\<lparr>hm_beats := AList.update c h (hm_beats m)\<rparr>))
         | None \<Rightarrow>
             if iv \<le> 0 then Inl (InvalidInterval c iv)
             else let h = \<lparr>hb_sent_at = now, hb_received_at = now, hb_seq = 0, hb_interval = iv,
                           hb_status = HEALTHY\<rparr>
                  in Inr (h, m\<lparr>hm_beats := AList.update c h (hm_beats m),
                               hm_misses := AList.update c 0 (hm_misses m)\<rparr>))"

definition hb_unregister :: "name \<Rightarrow> heartbeat_manager \<Rightarrow> bool \<times> heartbeat_manager" where
  "hb_unregister c m =
     (c \<in> set (keys (hm_beats m)),
      m\<lparr>hm_beats := AList.delete c (hm_beats m), hm_misses := AList.delete c (hm_misses m)\<rparr>)"

text \<open>A beat of an unknown component registers it first; the state it leaves is also given
  when the new heartbeat is refused.\<close>

definition hb_beat ::
  "time \<Rightarrow> name \<Rightarrow> HealthStatus \<Rightarrow> heartbeat_manager \<Rightarrow>
   (heartbeat_error + heartbeat) \<times> heartbeat_manager"
where
  "hb_beat now c status m =
     (let prev = (case map_of (hm_beats m) c of
                    Some p \<Rightarrow> Inr (p, m)
                  | None \<Rightarrow> hb_register now c None m)
      in case prev of
           Inl e \<Rightarrow> (Inl e, m)
         | Inr (p, m1) \<Rightarrow>
             if hb_interval p \<le> 0 then (Inl (InvalidInterval c (hb_interval p)), m1)
             else let h = \<lparr>hb_sent_at = now, hb_received_at = now, hb_seq = hb_seq p + 1,
                           hb_interval = hb_interval p, hb_status = status\<rparr>
                  in (Inr h, m1\<lparr>hm_beats := AList.update c h (hm_beats m1),
                                hm_misses := AList.update c 0 (hm_misses m1)\<rparr>))"

definition total_seconds :: "time \<Rightarrow> rat" where
  "total_seconds t = of_int t / 1000000"

text \<open>\<^verbatim>\<open>None\<close> is \<^verbatim>\<open>float("inf")\<close>.\<close>

definition seconds_since :: "name \<Rightarrow> time \<Rightarrow> heartbeat_manager \<Rightarrow> rat option" where
  "seconds_since c now m =
     (case map_of (hm_beats m) c of
        None \<Rightarrow> None
      | Some h \<Rightarrow> Some (max 0 (total_seconds (now - hb_received_at h))))"

definition is_stale :: "name \<Rightarrow> time \<Rightarrow> heartbeat_manager \<Rightarrow> bool" where
  "is_stale c now m =
     (case seconds_since c now m of None \<Rightarrow> True | Some s \<Rightarrow> s > hm_timeout m)"

definition consecutive_misses :: "name \<Rightarrow> heartbeat_manager \<Rightarrow> int" where
  "consecutive_misses c m = dget 0 (hm_misses m) c"

definition hb_components :: "heartbeat_manager \<Rightarrow> name list" where
  "hb_components m = keys (hm_beats m)"

definition set_misses :: "name \<Rightarrow> int \<Rightarrow> heartbeat_manager \<Rightarrow> heartbeat_manager" where
  "set_misses c k m = m\<lparr>hm_misses := AList.update c k (hm_misses m)\<rparr>"

type_synonym 'w failure_callback = "name \<Rightarrow> string \<Rightarrow> heartbeat_manager \<times> 'w \<Rightarrow> heartbeat_manager \<times> 'w"

definition check_component ::
  "'w failure_callback option \<Rightarrow> time \<Rightarrow> name \<Rightarrow>
   (name \<times> string) list \<times> heartbeat_manager \<times> 'w \<Rightarrow> (name \<times> string) list \<times> heartbeat_manager \<times> 'w"
where
  "check_component on_failure now c s =
     (case s of (failures, m, w) \<Rightarrow>
        if \<not> is_stale c now m then (failures, set_misses c 0 m, w)
        else let misses = consecutive_misses c m + 1;
                 m1 = set_misses c misses m
             in if misses \<ge> hm_threshold m1
                then let (m2, w2) =
                           (case on_failure of
                              None \<Rightarrow> (m1, w)
                            | Some f \<Rightarrow> f c ''heartbeat_timeout'' (m1, w))
                     in (failures @ [(c, ''heartbeat_timeout'')], set_misses c 0 m2, w2)
                else (failures, m1, w))"

definition hb_check ::
  "'w failure_callback option \<Rightarrow> time \<Rightarrow> heartbeat_manager \<times> 'w \<Rightarrow>
   (name \<times> string) list \<times> heartbeat_manager \<times> 'w"
where
  "hb_check on_failure now mw =
     (case mw of (m, w) \<Rightarrow> fold (check_component on_failure now) (hb_components m) ([], m, w))"

definition heartbeat_miss_count :: "time \<Rightarrow> heartbeat_manager \<Rightarrow> nat" where
  "heartbeat_miss_count now m = length (filter (\<lambda>c. is_stale c now m) (hb_components m))"

definition hb_reset :: "heartbeat_manager \<Rightarrow> heartbeat_manager" where
  "hb_reset m = m\<lparr>hm_beats := [], hm_misses := []\<rparr>"

text \<open>\<^verbatim>\<open>HeartbeatSender._send\<close>: a beat for every engine that is not isolated.\<close>

definition hb_send :: "time \<Rightarrow> name list \<Rightarrow> name list \<Rightarrow> heartbeat_manager \<Rightarrow> heartbeat_manager" where
  "hb_send now engines isolated m =
     fold (\<lambda>n m. if n \<in> set isolated then m else snd (hb_beat now n HEALTHY m)) engines m"

section \<open>The watchdog\<close>

record watchdog =
  wd_enabled :: bool
  wd_deadline :: rat
  wd_tasks :: "(name, time) dict"
  wd_deadlines :: "(name, rat) dict"

definition track_task :: "time \<Rightarrow> name \<Rightarrow> rat option \<Rightarrow> watchdog \<Rightarrow> watchdog" where
  "track_task now t deadline w =
     w\<lparr>wd_tasks := AList.update t now (wd_tasks w),
       wd_deadlines := AList.update t
         (case deadline of None \<Rightarrow> wd_deadline w | Some d \<Rightarrow> if d = 0 then wd_deadline w else d)
         (wd_deadlines w)\<rparr>"

definition untrack_task :: "name \<Rightarrow> watchdog \<Rightarrow> watchdog" where
  "untrack_task t w =
     w\<lparr>wd_tasks := AList.delete t (wd_tasks w), wd_deadlines := AList.delete t (wd_deadlines w)\<rparr>"

definition task_overrun :: "name \<Rightarrow> time \<Rightarrow> watchdog \<Rightarrow> bool" where
  "task_overrun t now w =
     (case map_of (wd_tasks w) t of
        None \<Rightarrow> False
      | Some started \<Rightarrow> total_seconds (now - started) > dget (wd_deadline w) (wd_deadlines w) t)"

definition watchdog_task ::
  "(name \<Rightarrow> string \<Rightarrow> watchdog \<times> 'w \<Rightarrow> watchdog \<times> 'w) option \<Rightarrow> time \<Rightarrow> name \<Rightarrow>
   (name \<times> string) list \<times> watchdog \<times> 'w \<Rightarrow> (name \<times> string) list \<times> watchdog \<times> 'w"
where
  "watchdog_task on_failure now t s =
     (case s of (failures, wd, w) \<Rightarrow>
        if task_overrun t now wd
        then let wd1 = untrack_task t wd;
                 (wd2, w2) = (case on_failure of None \<Rightarrow> (wd1, w)
                              | Some f \<Rightarrow> f t ''deadline_exceeded'' (wd1, w))
             in (failures @ [(t, ''deadline_exceeded'')], wd2, w2)
        else s)"

text \<open>\<^verbatim>\<open>Watchdog.check\<close>: the heartbeat pass (given by the function \<^verbatim>\<open>beats\<close>) and then the
  deadlines of the tasks tracked when the second pass starts.\<close>

definition watchdog_check ::
  "('w \<Rightarrow> (name \<times> string) list \<times> 'w) \<Rightarrow>
   (name \<Rightarrow> string \<Rightarrow> watchdog \<times> 'w \<Rightarrow> watchdog \<times> 'w) option \<Rightarrow> time \<Rightarrow>
   watchdog \<times> 'w \<Rightarrow> (name \<times> string) list \<times> watchdog \<times> 'w"
where
  "watchdog_check beats on_failure now ww =
     (case ww of (wd, w) \<Rightarrow>
        let (fs, w1) = beats w
        in fold (watchdog_task on_failure now) (keys (wd_tasks wd)) (fs, wd, w1))"

lemmas hb_defs = hb_register_def hb_unregister_def hb_beat_def is_stale_def seconds_since_def
  consecutive_misses_def set_misses_def hb_components_def Let_def

section \<open>The invariant of the manager\<close>

definition hb_inv :: "heartbeat_manager \<Rightarrow> bool" where
  "hb_inv m \<longleftrightarrow> dict_ok (hm_beats m) \<and> dict_ok (hm_misses m) \<and> hm_interval m > 0 \<and>
     (\<forall>(c, k) \<in> set (hm_misses m). 0 \<le> k)"

lemma hb_register_inv [inv_intros]:
  "hb_inv m \<Longrightarrow> hb_register now c i m = Inr (h, m1) \<Longrightarrow> hb_inv m1"
  by (auto simp: hb_inv_def hb_register_def Let_def split: option.splits if_splits
      dest!: dict_value_in_update)

lemma hb_unregister_inv [inv_intros]: "hb_inv m \<Longrightarrow> hb_inv (snd (hb_unregister c m))"
  by (auto simp: hb_inv_def hb_unregister_def set_delete_iff)

lemma set_misses_inv [inv_intros]: "hb_inv m \<Longrightarrow> 0 \<le> k \<Longrightarrow> hb_inv (set_misses c k m)"
  by (auto simp: hb_inv_def set_misses_def dest!: dict_value_in_update)

lemma hb_beat_inv [inv_intros]:
  assumes "hb_inv m"
  shows "hb_inv (snd (hb_beat now c st m))"
proof -
  have "hb_inv (m1\<lparr>hm_beats := AList.update c h (hm_beats m1),
                   hm_misses := AList.update c 0 (hm_misses m1)\<rparr>)" if "hb_inv m1" for m1 h
    using that by (auto simp: hb_inv_def dest!: dict_value_in_update)
  then show ?thesis
    using assms hb_register_inv[OF assms]
    by (auto simp: hb_beat_def Let_def split: option.splits sum.splits)
qed

lemma consecutive_misses_nonneg: "hb_inv m \<Longrightarrow> 0 \<le> consecutive_misses c m"
  by (auto simp: hb_inv_def consecutive_misses_def dget_def split: option.splits
      dest!: map_of_SomeD)

lemma misses_of_set [simp]:
  "consecutive_misses d (set_misses c k m) = (if d = c then k else consecutive_misses d m)"
  by (simp add: consecutive_misses_def set_misses_def)

lemma set_misses_frame [simp, frame_simps]:
  "hm_beats (set_misses c k m) = hm_beats m" "hm_timeout (set_misses c k m) = hm_timeout m"
  "hm_threshold (set_misses c k m) = hm_threshold m" "hm_interval (set_misses c k m) = hm_interval m"
  "hm_enabled (set_misses c k m) = hm_enabled m"
  "map_of (hm_misses (set_misses c k m)) d = (if d = c then Some k else map_of (hm_misses m) d)"
  "is_stale d now (set_misses c k m) = is_stale d now m"
  "hb_components (set_misses c k m) = hb_components m"
  by (simp_all add: set_misses_def is_stale_def seconds_since_def hb_components_def
      split: option.splits)

section \<open>A check pass\<close>

text \<open>What one pass does to one component, when the callback leaves the manager alone.\<close>

definition fails_now :: "time \<Rightarrow> heartbeat_manager \<Rightarrow> name \<Rightarrow> bool" where
  "fails_now now m c \<longleftrightarrow> is_stale c now m \<and> consecutive_misses c m + 1 \<ge> hm_threshold m"

definition misses_after :: "time \<Rightarrow> heartbeat_manager \<Rightarrow> name \<Rightarrow> int" where
  "misses_after now m c =
     (if \<not> is_stale c now m \<or> fails_now now m c then 0 else consecutive_misses c m + 1)"

lemma check_component_passive:
  assumes "\<And>r m w. fst (f c r (m, w)) = m"
  shows "\<exists>w1. check_component (Some f) now c (fs, m, w) =
      (fs @ (if fails_now now m c then [(c, ''heartbeat_timeout'')] else []),
       if fails_now now m c then set_misses c 0 (set_misses c (consecutive_misses c m + 1) m)
       else set_misses c (misses_after now m c) m, w1)"
proof -
  let ?m = "set_misses c (consecutive_misses c m + 1) m"
  obtain w2 where "f c ''heartbeat_timeout'' (?m, w) = (?m, w2)"
    using assms[of "''heartbeat_timeout''" ?m w] by (metis prod.collapse)
  then show ?thesis
    by (cases "is_stale c now m"; cases "fails_now now m c")
       (auto simp: check_component_def Let_def misses_after_def fails_now_def)
qed

lemma check_fold_passive:
  assumes "distinct cs" and "\<And>c r m w. fst (f c r (m, w)) = m"
  shows "\<exists>m1 w1. fold (check_component (Some f) now) cs (fs, m, w) =
      (fs @ map (\<lambda>c. (c, ''heartbeat_timeout'')) (filter (fails_now now m) cs), m1, w1) \<and>
    hm_beats m1 = hm_beats m \<and> hm_timeout m1 = hm_timeout m \<and> hm_threshold m1 = hm_threshold m \<and>
    (\<forall>d. consecutive_misses d m1 = (if d \<in> set cs then misses_after now m d else consecutive_misses d m))"
  using assms(1)
proof (induction cs arbitrary: fs m w)
  case Nil
  then show ?case by simp
next
  case (Cons c cs)
  define k where "k = misses_after now m c"
  obtain w1 where step: "check_component (Some f) now c (fs, m, w) =
      (fs @ (if fails_now now m c then [(c, ''heartbeat_timeout'')] else []),
       if fails_now now m c then set_misses c 0 (set_misses c (consecutive_misses c m + 1) m)
       else set_misses c k m, w1)"
    using check_component_passive[of f c now fs m w, OF assms(2)] unfolding k_def by blast
  define m1 where "m1 = (if fails_now now m c
       then set_misses c 0 (set_misses c (consecutive_misses c m + 1) m) else set_misses c k m)"
  have frame: "hm_beats m1 = hm_beats m" "hm_timeout m1 = hm_timeout m"
      "hm_threshold m1 = hm_threshold m" "\<And>d. is_stale d now m1 = is_stale d now m"
      "\<And>d. consecutive_misses d m1 = (if d = c then k else consecutive_misses d m)"
    by (auto simp: m1_def k_def misses_after_def)
  have same: "fails_now now m1 d = fails_now now m d" "misses_after now m1 d = misses_after now m d"
    if "d \<noteq> c" for d
    using that by (auto simp: fails_now_def misses_after_def frame)
  have "filter (fails_now now m1) cs = filter (fails_now now m) cs"
  proof (rule filter_cong[OF refl])
    fix x assume "x \<in> set cs"
    then have "x \<noteq> c" using Cons.prems by auto
    then show "fails_now now m1 x = fails_now now m x" by (rule same(1))
  qed
  moreover obtain m2 w2 where
    "fold (check_component (Some f) now) cs
       (fs @ (if fails_now now m c then [(c, ''heartbeat_timeout'')] else []), m1, w1) =
     ((fs @ (if fails_now now m c then [(c, ''heartbeat_timeout'')] else [])) @
        map (\<lambda>c. (c, ''heartbeat_timeout'')) (filter (fails_now now m1) cs), m2, w2)"
    "hm_beats m2 = hm_beats m1" "hm_timeout m2 = hm_timeout m1" "hm_threshold m2 = hm_threshold m1"
    "\<forall>d. consecutive_misses d m2 =
       (if d \<in> set cs then misses_after now m1 d else consecutive_misses d m1)"
    using Cons.IH[of "fs @ (if fails_now now m c then [(c, ''heartbeat_timeout'')] else [])" m1 w1]
      Cons.prems by auto
  moreover have "misses_after now m1 d = misses_after now m d" if "d \<in> set cs" for d
    using same(2)[of d] Cons.prems that by (cases "d = c") auto
  ultimately show ?case
    using step Cons.prems frame by (auto simp flip: m1_def simp: k_def)
qed

section \<open>Properties\<close>

lemma hb_check_passive:
  assumes "hb_inv m" and "\<And>c r m w. fst (f c r (m, w)) = m"
  shows "\<exists>m1 w1. hb_check (Some f) now (m, w) =
      (map (\<lambda>c. (c, ''heartbeat_timeout'')) (filter (fails_now now m) (hb_components m)), m1, w1) \<and>
    hm_beats m1 = hm_beats m \<and> hm_timeout m1 = hm_timeout m \<and> hm_threshold m1 = hm_threshold m \<and>
    (\<forall>d \<in> set (hb_components m). consecutive_misses d m1 = misses_after now m d)"
proof -
  have "distinct (hb_components m)" using assms(1) by (simp add: hb_inv_def hb_components_def)
  from check_fold_passive[OF this, of f now "[]" m w, OF assms(2)] show ?thesis
    by (auto simp: hb_check_def)
qed

text \<open>Successive passes at the times of a list: the failures each pass reports.\<close>

fun run_checks ::
  "'w failure_callback option \<Rightarrow> time list \<Rightarrow> heartbeat_manager \<times> 'w \<Rightarrow> (name \<times> string) list list" where
  "run_checks f [] s = []"
| "run_checks f (t # ts) s = (case hb_check f t s of (fs, s1) \<Rightarrow> fs # run_checks f ts s1)"

lemma same_beat_stale:
  "map_of (hm_beats m1) c = map_of (hm_beats m) c \<Longrightarrow> hm_timeout m1 = hm_timeout m \<Longrightarrow>
   is_stale c t m1 = is_stale c t m"
  by (simp add: is_stale_def seconds_since_def split: option.splits)

lemma same_beats_stale:
  "hm_beats m1 = hm_beats m \<Longrightarrow> hm_timeout m1 = hm_timeout m \<Longrightarrow> is_stale c t m1 = is_stale c t m"
  by (simp add: is_stale_def seconds_since_def split: option.splits)

lemma run_checks_period:
  assumes f: "\<And>c r m w. fst (f c r (m, w)) = m"
    and "hm_threshold m = int T" "0 < T" "c \<in> set (hb_components m)" "distinct (hb_components m)"
    and "\<forall>t \<in> set ts. is_stale c t m" "consecutive_misses c m = int k" "k < T" "i < length ts"
  shows "(c, ''heartbeat_timeout'') \<in> set (run_checks (Some f) ts (m, w) ! i) \<longleftrightarrow> T dvd (k + i + 1)"
  using assms(2-)
proof (induction ts arbitrary: m w k i)
  case Nil
  then show ?case by simp
next
  case (Cons t ts)
  have fails: "fails_now t m c \<longleftrightarrow> k + 1 = T"
    using Cons.prems by (auto simp: fails_now_def)
  from check_fold_passive[OF Cons.prems(4), of f t "[]" m w, OF f] obtain m1 w1 where
    step: "hb_check (Some f) t (m, w) =
       (map (\<lambda>c. (c, ''heartbeat_timeout'')) (filter (fails_now t m) (hb_components m)), m1, w1)"
    and m1: "hm_beats m1 = hm_beats m" "hm_timeout m1 = hm_timeout m" "hm_threshold m1 = hm_threshold m"
      "\<And>d. d \<in> set (hb_components m) \<Longrightarrow> consecutive_misses d m1 = misses_after t m d"
    by (auto simp: hb_check_def)
  define k1 where "k1 = (if k + 1 = T then 0 else k + 1)"
  have k1: "consecutive_misses c m1 = int k1" "k1 < T"
    using m1(4)[OF Cons.prems(3)] fails Cons.prems by (auto simp: misses_after_def k1_def)
  have dvd: "T dvd (k1 + j + 1) \<longleftrightarrow> T dvd (k + Suc j + 1)" for j
  proof (cases "k + 1 = T")
    case True
    then have "k + Suc j + 1 = T + (k1 + j + 1)" by (simp add: k1_def)
    then show ?thesis by (simp only: dvd_add_right_iff[OF dvd_refl])
  qed (simp add: k1_def)
  show ?case
  proof (cases i)
    case 0
    have "T dvd (k + 1) \<longleftrightarrow> k + 1 = T" using Cons.prems(7) by (auto dest: dvd_imp_le)
    then show ?thesis using 0 step fails Cons.prems(3) by auto
  next
    case (Suc j)
    have "(c, ''heartbeat_timeout'') \<in> set (run_checks (Some f) ts (m1, w1) ! j) \<longleftrightarrow> T dvd (k1 + j + 1)"
      using Cons.prems m1 k1 Suc
      by (intro Cons.IH) (auto simp: hb_components_def same_beats_stale[OF m1(1,2)])
    then show ?thesis using Suc step dvd[of j] by simp
  qed
qed

text \<open>A monitored component that stays silent is declared failed exactly at every
  \<^verbatim>\<open>missed_beats_before_failure\<close>-th pass after its last beat, and at no other pass, as long as
  the failure callback leaves the heartbeat manager alone.\<close>

theorem silent_component_fails_periodically:
  assumes "hb_inv m" "hm_threshold m = int T" "0 < T"
    and "map_of (hm_beats m) c \<noteq> None" "consecutive_misses c m = 0"
    and "\<forall>t \<in> set ts. is_stale c t m" "i < length ts"
    and "\<And>c r m w. fst (f c r (m, w)) = m"
  shows "(c, ''heartbeat_timeout'') \<in> set (run_checks (Some f) ts (m, w) ! i) \<longleftrightarrow> T dvd (i + 1)"
  using run_checks_period[of f m T c ts 0 i w] assms
  by (simp add: hb_inv_def hb_components_def in_keys_iff_map_of)

theorem silent_component_fails_periodically_witness:
  "\<exists>m. (''llm'', ''heartbeat_timeout'') \<in>
       set (run_checks (Some (\<lambda>c r s. s)) [20000000, 40000000, 60000000, 80000000] (m, ()) ! 2) \<and>
       (''llm'', ''heartbeat_timeout'') \<notin>
       set (run_checks (Some (\<lambda>c r s. s)) [20000000, 40000000, 60000000, 80000000] (m, ()) ! 3)"
proof -
  define m where "m = snd (hb_beat 0 ''llm'' HEALTHY (new_heartbeat_manager True 5 15 3))"
  let ?ts = "[20000000, 40000000, 60000000, 80000000] :: int list"
  have "hb_inv (new_heartbeat_manager True 5 15 3)"
    by (simp add: hb_inv_def new_heartbeat_manager_def)
  then have i: "hb_inv m" unfolding m_def by (rule hb_beat_inv)
  have t: "hm_threshold m = int 3" "map_of (hm_beats m) ''llm'' \<noteq> None"
    "consecutive_misses ''llm'' m = 0" "\<forall>t \<in> set ?ts. is_stale ''llm'' t m"
    by (simp_all add: m_def hb_defs new_heartbeat_manager_def total_seconds_def)
  note p = silent_component_fails_periodically[OF i t(1) _ t(2,3,4), of _ "\<lambda>c r s. s" "()"]
  from p[of 2] p[of 3] show ?thesis by (intro exI[of _ m]) simp
qed

text \<open>one pass, whatever its callback does to the rest of the system (but not to the
  manager), reports exactly the silent components that reach the threshold, in registration
  order, clears the miss count of these and of the components that are not silent, and
  counts one more miss for the others.\<close>

theorem heartbeat_pass_effect:
  assumes "hb_inv m" and "\<And>c r m w. fst (f c r (m, w)) = m"
  shows "\<exists>m1 w1. hb_check (Some f) now (m, w) =
      (map (\<lambda>c. (c, ''heartbeat_timeout'')) (filter (fails_now now m) (hb_components m)), m1, w1) \<and>
    hm_beats m1 = hm_beats m \<and>
    (\<forall>c \<in> set (hb_components m). consecutive_misses c m1 =
       (if \<not> is_stale c now m \<or> consecutive_misses c m + 1 \<ge> hm_threshold m then 0
        else consecutive_misses c m + 1))"
  using hb_check_passive[OF assms(1), of f now w, OF assms(2)]
  by (fastforce simp: misses_after_def fails_now_def)

theorem heartbeat_pass_effect_witness:
  "\<exists>m. hm_threshold m = 2 \<and> consecutive_misses ''llm'' m = 1 \<and> (\<exists>m1 w1.
     hb_check (Some (\<lambda>c r s. s)) 20000000 (m, ()) = ([(''llm'', ''heartbeat_timeout'')], m1, w1) \<and>
     consecutive_misses ''llm'' m1 = 0)"
proof -
  define m where "m = set_misses ''llm'' 1 (snd (hb_beat 0 ''llm'' HEALTHY (new_heartbeat_manager True 5 15 2)))"
  have "hb_inv (new_heartbeat_manager True 5 15 2)"
    by (simp add: hb_inv_def new_heartbeat_manager_def)
  then have i: "hb_inv m" unfolding m_def by (intro set_misses_inv hb_beat_inv) simp_all
  have t: "hm_threshold m = 2" "consecutive_misses ''llm'' m = 1" "is_stale ''llm'' 20000000 m"
    "hb_components m = [''llm'']"
    by (simp_all add: m_def hb_defs new_heartbeat_manager_def total_seconds_def)
  have "filter (fails_now 20000000 m) (hb_components m) = [''llm'']"
    by (simp add: fails_now_def t)
  with heartbeat_pass_effect[OF i, of "\<lambda>c r s. s" 20000000 "()"] t show ?thesis
    by (intro exI[of _ m]) (auto simp: fails_now_def)
qed

end
