(* ===== verification/Recovery.thy ===== *)
theory Recovery
  imports ProcessManager
begin

text \<open>
  The recovery manager (\<^verbatim>\<open>runtime/recovery.py\<close>) with the recovery counters of the metrics
  registry.  Its state is an extensible record, because the factories it calls may change
  the rest of the system: they and the clock are the environment \<^verbatim>\<open>recovery_env\<close>, where a
  factory returns whether it ended without an exception and the state it left.
\<close>

record recovery_policy =
  pol_enabled :: bool
  pol_max_attempts :: "int option"
  pol_actions :: "string list"

datatype recovery_message =
    NoEnabledPolicy
  | MaxAttemptsExceeded int "string list"
  | SucceededVia "string list"
  | AllActionsFailed name "string list"

record recovery_result =
  rr_component :: name
  rr_success :: bool
  rr_actions_taken :: "string list"
  rr_attempts :: int
  rr_message :: recovery_message
  rr_recovered_at :: time

record recovery_metrics =
  mt_attempts :: int
  mt_successes :: int
  mt_failures :: int
  mt_success_rate :: rat

record recovery_state =
  rm_default_max_attempts :: int
  rm_policies :: "(name, recovery_policy) dict"
  rm_attempts :: "(name, int) dict"
  rm_results :: "(name, recovery_result list) dict"
  rm_factories :: "name list"
  rm_processes :: "process_manager option"
  rm_event_bus :: bool
  rm_events :: "(string \<times> name) list"
  rm_metrics :: "recovery_metrics option"

record 'w recovery_env =
  re_now :: time
  re_alive :: "nat \<Rightarrow> bool"
  re_is_engine :: "(name \<Rightarrow> 'w \<Rightarrow> bool) option"
  re_factory :: "name \<Rightarrow> 'w \<Rightarrow> bool \<times> 'w"
  re_component_factory :: "(name \<Rightarrow> 'w \<Rightarrow> bool \<times> 'w) option"

definition register_factory :: "name \<Rightarrow> 'a recovery_state_scheme \<Rightarrow> 'a recovery_state_scheme" where
  "register_factory n w =
     w\<lparr>rm_factories := (if n \<in> set (rm_factories w) then rm_factories w else rm_factories w @ [n])\<rparr>"

definition process_known :: "name \<Rightarrow> 'a recovery_state_scheme \<Rightarrow> bool" where
  "process_known c w =
     (case rm_processes w of None \<Rightarrow> False | Some pm \<Rightarrow> get_optional c pm \<noteq> None)"

definition wildcard_matches :: "name \<Rightarrow> string \<Rightarrow> bool" where
  "wildcard_matches c pattern \<longleftrightarrow>
     pattern \<noteq> [] \<and> last pattern = CHR ''*'' \<and> prefix (butlast pattern) c"

definition policy_for ::
  "'a recovery_state_scheme recovery_env \<Rightarrow> name \<Rightarrow> 'a recovery_state_scheme \<Rightarrow> recovery_policy option"
where
  "policy_for env c w =
     (case map_of (rm_policies w) c of
        Some p \<Rightarrow> Some p
      | None \<Rightarrow>
          (case List.find (\<lambda>(pattern, p). wildcard_matches c pattern) (rm_policies w) of
             Some (pattern, p) \<Rightarrow> Some p
           | None \<Rightarrow>
               if (case re_is_engine env of None \<Rightarrow> False | Some f \<Rightarrow> f c w)
               then map_of (rm_policies w) ''engine''
               else if process_known c w then map_of (rm_policies w) ''process''
               else None))"

definition attempts :: "name \<Rightarrow> 'a recovery_state_scheme \<Rightarrow> int" where
  "attempts c w = dget 0 (rm_attempts w) c"

definition results :: "name \<Rightarrow> 'a recovery_state_scheme \<Rightarrow> recovery_result list" where
  "results c w = dget [] (rm_results w) c"

definition reset_attempts :: "name \<Rightarrow> 'a recovery_state_scheme \<Rightarrow> 'a recovery_state_scheme" where
  "reset_attempts c w = w\<lparr>rm_attempts := AList.update c 0 (rm_attempts w)\<rparr>"

text \<open>\<^verbatim>\<open>publish_runtime_event\<close>: nothing without a bus, and never an exception.\<close>

definition publish_runtime_event ::
  "string \<Rightarrow> name \<Rightarrow> 'a recovery_state_scheme \<Rightarrow> 'a recovery_state_scheme" where
  "publish_runtime_event ty c w =
     (if rm_event_bus w then w\<lparr>rm_events := rm_events w @ [(ty, c)]\<rparr> else w)"

definition restart_action ::
  "'a recovery_state_scheme recovery_env \<Rightarrow> name \<Rightarrow> 'a recovery_state_scheme \<Rightarrow>
   bool \<times> 'a recovery_state_scheme"
where
  "restart_action env c w =
     (case rm_processes w of
        Some pm \<Rightarrow>
          if get_optional c pm \<noteq> None
          then let (r, pm1) = pm_restart (re_alive env) (re_now env) c pm
               in (is_ok r, w\<lparr>rm_processes := Some pm1\<rparr>)
          else if c \<in> set (rm_factories w) then re_factory env c w
          else (case re_component_factory env of None \<Rightarrow> (False, w) | Some f \<Rightarrow> f c w)
      | None \<Rightarrow>
          if c \<in> set (rm_factories w) then re_factory env c w
          else (case re_component_factory env of None \<Rightarrow> (False, w) | Some f \<Rightarrow> f c w))"

definition reload_state_action ::
  "'a recovery_state_scheme recovery_env \<Rightarrow> name \<Rightarrow> 'a recovery_state_scheme \<Rightarrow>
   bool \<times> 'a recovery_state_scheme"
where
  "reload_state_action env c w =
     (case re_component_factory env of None \<Rightarrow> (False, w) | Some f \<Rightarrow> f c w)"

definition isolate_action ::
  "'a recovery_state_scheme recovery_env \<Rightarrow> name \<Rightarrow> 'a recovery_state_scheme \<Rightarrow>
   bool \<times> 'a recovery_state_scheme"
where
  "isolate_action env c w =
     (case rm_processes w of
        None \<Rightarrow> (False, w)
      | Some pm \<Rightarrow>
          if get_optional c pm \<noteq> None
          then let (r, pm1) = pm_stop (re_alive env) (re_now env) c pm
               in (is_ok r, w\<lparr>rm_processes := Some pm1\<rparr>)
          else (False, w))"

definition escalate_action ::
  "name \<Rightarrow> 'a recovery_state_scheme \<Rightarrow> bool \<times> 'a recovery_state_scheme" where
  "escalate_action c w =
     (if \<not> rm_event_bus w then (False, w)
      else (True, publish_runtime_event ''runtime.component_failed'' c w))"

definition run_action ::
  "'a recovery_state_scheme recovery_env \<Rightarrow> name \<Rightarrow> string \<Rightarrow> 'a recovery_state_scheme \<Rightarrow>
   bool \<times> 'a recovery_state_scheme"
where
  "run_action env c action w =
     (if action = ''restart'' then restart_action env c w
      else if action = ''reload_state'' then reload_state_action env c w
      else if action = ''isolate'' then isolate_action env c w
      else if action = ''escalate'' then escalate_action c w
      else (False, w))"

fun run_actions ::
  "'a recovery_state_scheme recovery_env \<Rightarrow> name \<Rightarrow> string list \<Rightarrow> string list \<Rightarrow>
   'a recovery_state_scheme \<Rightarrow> string list \<times> 'a recovery_state_scheme"
where
  "run_actions env c [] taken w = (taken, w)"
| "run_actions env c (a # as) taken w =
     (let (ok, w1) = run_action env c a w
      in if \<not> ok then run_actions env c as taken w1
         else if a \<noteq> ''escalate'' then (taken @ [a], w1)
         else run_actions env c as (taken @ [a]) w1)"

definition execute_policy ::
  "'a recovery_state_scheme recovery_env \<Rightarrow> name \<Rightarrow> recovery_policy \<Rightarrow> int \<Rightarrow>
   'a recovery_state_scheme \<Rightarrow> recovery_result \<times> 'a recovery_state_scheme"
where
  "execute_policy env c p n w =
     (let (taken, w1) = run_actions env c (pol_actions p) [] w
      in if taken \<noteq> []
         then (\<lparr>rr_component = c, rr_success = True, rr_actions_taken = taken, rr_attempts = n,
                rr_message = SucceededVia taken, rr_recovered_at = re_now env\<rparr>, w1)
         else (\<lparr>rr_component = c, rr_success = False, rr_actions_taken = [], rr_attempts = n,
                rr_message = AllActionsFailed c (pol_actions p), rr_recovered_at = re_now env\<rparr>, w1))"

definition record_outcome ::
  "recovery_result \<Rightarrow> 'a recovery_state_scheme \<Rightarrow> 'a recovery_state_scheme" where
  "record_outcome r w =
     (case rm_metrics w of
        None \<Rightarrow> w
      | Some m \<Rightarrow>
          let recovered = (\<exists>a \<in> set (rr_actions_taken r). a \<in> {''restart'', ''reload_state''});
              m1 = m\<lparr>mt_attempts := mt_attempts m + 1\<rparr>;
              m2 = (if recovered then m1\<lparr>mt_successes := mt_successes m1 + 1\<rparr>
                    else m1\<lparr>mt_failures := mt_failures m1 + 1\<rparr>);
              rate = (if mt_attempts m2 \<noteq> 0
                      then of_int (round_half_even
                             (of_int (mt_successes m2) / of_int (mt_attempts m2) * 100 * 10)) / 10
                      else 0)
          in w\<lparr>rm_metrics := Some (m2\<lparr>mt_success_rate := rate\<rparr>)\<rparr>)"

definition failed_result ::
  "'w recovery_env \<Rightarrow> name \<Rightarrow> int \<Rightarrow> recovery_message \<Rightarrow> recovery_result" where
  "failed_result env c n msg =
     \<lparr>rr_component = c, rr_success = False, rr_actions_taken = [], rr_attempts = n,
      rr_message = msg, rr_recovered_at = re_now env\<rparr>"

text \<open>\<^verbatim>\<open>recover\<close> in two parts: what attempt number \<^verbatim>\<open>n\<close> does, and the bookkeeping around it.\<close>

definition attempt_recovery ::
  "'a recovery_state_scheme recovery_env \<Rightarrow> name \<Rightarrow> int \<Rightarrow> 'a recovery_state_scheme \<Rightarrow>
   recovery_result \<times> 'a recovery_state_scheme"
where
  "attempt_recovery env c n w =
     (case policy_for env c w of
        None \<Rightarrow> (failed_result env c n NoEnabledPolicy, w)
      | Some p \<Rightarrow>
          if \<not> pol_enabled p then (failed_result env c n NoEnabledPolicy, w)
          else let mx = (case pol_max_attempts p of Some k \<Rightarrow> k | None \<Rightarrow> rm_default_max_attempts w)
               in if n > mx then (failed_result env c n (MaxAttemptsExceeded mx (pol_actions p)), w)
                  else execute_policy env c p n w)"

definition recover ::
  "'a recovery_state_scheme recovery_env \<Rightarrow> name \<Rightarrow> 'a recovery_state_scheme \<Rightarrow>
   recovery_result \<times> 'a recovery_state_scheme"
where
  "recover env c w =
     (let n = attempts c w + 1;
          (r, w1) = attempt_recovery env c n (w\<lparr>rm_attempts := AList.update c n (rm_attempts w)\<rparr>)
      in (r, record_outcome r
               (w1\<lparr>rm_results := AList.update c (results c w1 @ [r]) (rm_results w1)\<rparr>)))"

lemmas recovery_defs = recover_def execute_policy_def run_action_def restart_action_def
  reload_state_action_def isolate_action_def escalate_action_def publish_runtime_event_def Let_def

section \<open>The actions taken\<close>

lemma run_actions_shape:
  "\<exists>more. fst (run_actions env c as taken w) = taken @ more \<and> subseq more as \<and>
     (\<forall>a \<in> set (butlast more). a = ''escalate'') \<and>
     (\<forall>a \<in> set more. a \<in> {''restart'', ''reload_state'', ''isolate'', ''escalate''})"
proof (induction as arbitrary: taken w)
  case Nil
  then show ?case by simp
next
  case (Cons a as)
  obtain ok w1 where r: "run_action env c a w = (ok, w1)" by (metis surj_pair)
  have known: "a \<in> {''restart'', ''reload_state'', ''isolate'', ''escalate''}" if ok
    using r that by (auto simp: run_action_def split: if_splits)
  consider (failed) "\<not> ok" | (stop) "ok" "a \<noteq> ''escalate''" | (go) "ok" "a = ''escalate''" by blast
  then show ?case
  proof cases
    case failed
    obtain more where m: "fst (run_actions env c as taken w1) = taken @ more" "subseq more as"
      "\<forall>a \<in> set (butlast more). a = ''escalate''"
      "\<forall>a \<in> set more. a \<in> {''restart'', ''reload_state'', ''isolate'', ''escalate''}"
      using Cons.IH by blast
    have "subseq more (a # as)" using m(2) by (rule list_emb_Cons)
    with failed r m show ?thesis by (intro exI[of _ more]) simp
  next
    case stop
    with r known show ?thesis by (intro exI[of _ "[a]"]) auto
  next
    case go
    obtain more where m: "fst (run_actions env c as (taken @ [a]) w1) = (taken @ [a]) @ more"
      "subseq more as" "\<forall>a \<in> set (butlast more). a = ''escalate''"
      "\<forall>a \<in> set more. a \<in> {''restart'', ''reload_state'', ''isolate'', ''escalate''}"
      using Cons.IH by blast
    with go r show ?thesis by (intro exI[of _ "a # more"]) auto
  qed
qed

section \<open>Counters\<close>

definition metrics_inv :: "recovery_metrics \<Rightarrow> bool" where
  "metrics_inv m \<longleftrightarrow> 0 \<le> mt_successes m \<and> 0 \<le> mt_failures m \<and>
     mt_attempts m = mt_successes m + mt_failures m \<and>
     0 \<le> mt_success_rate m \<and> mt_success_rate m \<le> 100"

definition recovery_metrics_inv :: "'a recovery_state_scheme \<Rightarrow> bool" where
  "recovery_metrics_inv w \<longleftrightarrow> (\<forall>m \<in> set_option (rm_metrics w). metrics_inv m)"

lemma record_outcome_metrics_inv [inv_intros]:
  assumes "recovery_metrics_inv w"
  shows "recovery_metrics_inv (record_outcome r w)"
proof (cases "rm_metrics w")
  case None
  with assms show ?thesis by (simp add: record_outcome_def)
next
  case (Some m)
  have rate: "0 \<le> of_int (round_half_even (of_int s / of_int n * 100 * 10)) / (10 :: rat) \<and>
      of_int (round_half_even (of_int s / of_int n * 100 * 10)) / (10 :: rat) \<le> 100"
    if "0 \<le> s" "s \<le> n" "0 < n" for s n :: int
  proof -
    have "of_int s / of_int n \<le> (1 :: rat)" using that by simp
    then have "of_int s / of_int n * 100 * 10 \<le> (of_int 1000 :: rat)" by simp
    moreover have "0 \<le> of_int s / of_int n * 100 * (10 :: rat)" using that by simp
    ultimately have "round_half_even (of_int s / of_int n * 100 * 10) \<le> 1000"
      "0 \<le> round_half_even (of_int s / of_int n * 100 * 10)"
      using round_half_even_le round_half_even_nonneg by blast+
    then show ?thesis by simp
  qed
  have m: "0 \<le> mt_successes m" "0 \<le> mt_failures m" "mt_attempts m = mt_successes m + mt_failures m"
    using assms Some by (auto simp: recovery_metrics_inv_def metrics_inv_def)
  then have "mt_attempts m + 1 \<noteq> 0" by simp
  then show ?thesis
    using m rate[of "mt_successes m + 1" "mt_attempts m + 1"] rate[of "mt_successes m" "mt_attempts m + 1"]
    by (auto simp: record_outcome_def Some recovery_metrics_inv_def metrics_inv_def Let_def)
qed

lemma record_outcome_frame [simp, frame_simps]:
  "rm_attempts (record_outcome r w) = rm_attempts w"
  "rm_results (record_outcome r w) = rm_results w"
  "rm_policies (record_outcome r w) = rm_policies w"
  "rm_factories (record_outcome r w) = rm_factories w"
  "rm_processes (record_outcome r w) = rm_processes w"
  "rm_events (record_outcome r w) = rm_events w"
  "rm_event_bus (record_outcome r w) = rm_event_bus w"
  "rm_default_max_attempts (record_outcome r w) = rm_default_max_attempts w"
  "recovery_state.more (record_outcome r w) = recovery_state.more w"
  by (simp_all add: record_outcome_def Let_def split: option.splits)

section \<open>The contract of a host\<close>

text \<open>
  What the manager needs of the system it runs in: a factory leaves the bookkeeping of the
  manager alone.  The runtime engine interprets it with its restart factory.
\<close>

definition recovery_core ::
  "'a recovery_state_scheme \<Rightarrow>
   int \<times> (name, recovery_policy) dict \<times> (name, int) dict \<times> (name, recovery_result list) dict \<times>
   bool \<times> recovery_metrics option"
where
  "recovery_core w = (rm_default_max_attempts w, rm_policies w, rm_attempts w, rm_results w,
                      rm_event_bus w, rm_metrics w)"

text \<open>The rest of the state: what the actions of a policy can reach.\<close>

definition recovery_host_of ::
  "'a recovery_state_scheme \<Rightarrow> process_manager option \<times> (string \<times> name) list \<times> name list \<times> 'a"
where
  "recovery_host_of w = (rm_processes w, rm_events w, rm_factories w, recovery_state.more w)"

fun recoveries ::
  "'a recovery_state_scheme recovery_env \<Rightarrow> name \<Rightarrow> nat \<Rightarrow> 'a recovery_state_scheme \<Rightarrow>
   recovery_result list \<times> 'a recovery_state_scheme"
where
  "recoveries env c 0 w = ([], w)"
| "recoveries env c (Suc k) w =
     (let (r, w1) = recover env c w; (rs, w2) = recoveries env c k w1 in (r # rs, w2))"

locale recovery_host =
  fixes env :: "'a recovery_state_scheme recovery_env"
  assumes factory_core: "recovery_core (snd (re_factory env c w)) = recovery_core w"
    and component_factory_core:
      "re_component_factory env = Some f \<Longrightarrow> recovery_core (snd (f c w)) = recovery_core w"
begin

lemma run_action_core: "recovery_core (snd (run_action env c a w)) = recovery_core w"
proof -
  have f: "recovery_core (snd (f c w)) = recovery_core w" if "re_component_factory env = Some f" for f
    using component_factory_core[OF that] .
  show ?thesis
    unfolding run_action_def restart_action_def reload_state_action_def isolate_action_def
      escalate_action_def publish_runtime_event_def
    using f factory_core
    by (auto simp: recovery_core_def split: option.splits prod.splits)
qed

lemma run_actions_core: "recovery_core (snd (run_actions env c as taken w)) = recovery_core w"
proof (induction as arbitrary: taken w)
  case (Cons a as)
  obtain ok w1 where r: "run_action env c a w = (ok, w1)" by (metis surj_pair)
  with run_action_core[of c a w] Cons show ?case by simp
qed simp

lemma execute_policy_core: "recovery_core (snd (execute_policy env c p n w)) = recovery_core w"
  using run_actions_core[of c "pol_actions p" "[]" w]
  by (auto simp: execute_policy_def Let_def split: prod.splits)

lemma attempt_recovery_core:
  "recovery_core (snd (attempt_recovery env c n w)) = recovery_core w"
  "rr_attempts (fst (attempt_recovery env c n w)) = n"
  "rr_component (fst (attempt_recovery env c n w)) = c"
proof -
  have e: "rr_attempts (fst (execute_policy env c p n w)) = n"
    "rr_component (fst (execute_policy env c p n w)) = c" for p
    by (auto simp: execute_policy_def Let_def split: prod.splits)
  show "recovery_core (snd (attempt_recovery env c n w)) = recovery_core w"
    "rr_attempts (fst (attempt_recovery env c n w)) = n"
    "rr_component (fst (attempt_recovery env c n w)) = c"
    using execute_policy_core e
    by (auto simp: attempt_recovery_def failed_result_def Let_def split: option.splits)
qed

lemma recover_effect:
  assumes "recover env c w = (r, w1)"
  shows "rr_attempts r = attempts c w + 1" "rr_component r = c"
    "rm_attempts w1 = AList.update c (attempts c w + 1) (rm_attempts w)"
    "results c w1 = results c w @ [r]" "rm_policies w1 = rm_policies w"
    "rm_default_max_attempts w1 = rm_default_max_attempts w"
    "recovery_metrics_inv w \<Longrightarrow> recovery_metrics_inv w1"
proof -
  let ?n = "attempts c w + 1"
  let ?w = "w\<lparr>rm_attempts := AList.update c ?n (rm_attempts w)\<rparr>"
  obtain r2 w2 where s: "attempt_recovery env c ?n ?w = (r2, w2)" by (metis surj_pair)
  have w1: "r = r2" "w1 = record_outcome r
      (w2\<lparr>rm_results := AList.update c (results c w2 @ [r]) (rm_results w2)\<rparr>)"
    using assms s by (auto simp: recover_def Let_def)
  have core: "recovery_core w2 = recovery_core ?w"
    using attempt_recovery_core(1)[of c ?n ?w] s by simp
  show "rr_attempts r = ?n" "rr_component r = c"
    using attempt_recovery_core(2,3)[of c ?n ?w] s w1(1) by simp_all
  show "rm_attempts w1 = AList.update c ?n (rm_attempts w)"
    "rm_policies w1 = rm_policies w" "rm_default_max_attempts w1 = rm_default_max_attempts w"
    using core by (simp_all add: w1(2) recovery_core_def)
  show "results c w1 = results c w @ [r]"
    using core by (simp add: w1(2) results_def recovery_core_def)
  show "recovery_metrics_inv w1" if "recovery_metrics_inv w"
    unfolding w1(2) using that core
    by (intro record_outcome_metrics_inv) (simp add: recovery_metrics_inv_def recovery_core_def)
qed

text \<open>One attempt under a policy of its own: the actions of the policy, or past the maximum none.\<close>

lemma recover_by_policy:
  assumes "map_of (rm_policies w) c = Some p" "pol_enabled p" "pol_max_attempts p = Some M"
    and "recover env c w = (r, w1)"
  shows "if attempts c w + 1 \<le> M
    then let (taken, v) = run_actions env c (pol_actions p) [] (w\<lparr>rm_attempts := AList.update c (attempts c w + 1) (rm_attempts w)\<rparr>)
         in rr_actions_taken r = taken \<and> (rr_success r \<longleftrightarrow> taken \<noteq> []) \<and> recovery_host_of w1 = recovery_host_of v
    else r = failed_result env c (attempts c w + 1) (MaxAttemptsExceeded M (pol_actions p)) \<and>
      recovery_host_of w1 = recovery_host_of w"
proof -
  define w' where "w' = w\<lparr>rm_attempts := AList.update c (attempts c w + 1) (rm_attempts w)\<rparr>"
  have p: "policy_for env c w' = Some p" using assms(1) by (simp add: policy_for_def w'_def)
  have run: "recover env c w =
     (let (r, w2) = (if attempts c w + 1 > M then (failed_result env c (attempts c w + 1) (MaxAttemptsExceeded M (pol_actions p)), w')
                     else execute_policy env c p (attempts c w + 1) w')
      in (r, record_outcome r (w2\<lparr>rm_results := AList.update c (results c w2 @ [r]) (rm_results w2)\<rparr>)))"
    unfolding recover_def Let_def attempt_recovery_def w'_def[symmetric] p using assms(2,3) by simp
  show ?thesis
  proof (cases "attempts c w + 1 \<le> M")
    case False
    then show ?thesis using assms(4) run by (auto simp: recovery_host_of_def w'_def)
  next
    case True
    obtain taken v where v: "run_actions env c (pol_actions p) [] w' = (taken, v)" by (metis surj_pair)
    show ?thesis
      using True assms(4) run v
      by (auto simp: execute_policy_def recovery_host_of_def Let_def w'_def[symmetric] split: if_splits)
  qed
qed

lemma recoveries_policies:
  "recoveries env c k w = (rs, w1) \<Longrightarrow> length rs = k \<and> results c w1 = results c w @ rs \<and>
     attempts c w1 = attempts c w + int k \<and> rm_policies w1 = rm_policies w"
proof (induction k arbitrary: w rs w1)
  case (Suc k)
  obtain r w2 where r: "recover env c w = (r, w2)" by (metis surj_pair)
  obtain rs2 w3 where rs: "recoveries env c k w2 = (rs2, w3)" by (metis surj_pair)
  have "rs = r # rs2" "w1 = w3" using Suc.prems r rs by simp_all
  then show ?case
    using Suc.IH[OF rs] recover_effect(3,4,5)[OF r] by (simp add: attempts_def)
qed simp

lemma recoveries_nth:
  "recoveries env c k w = (rs, w1) \<Longrightarrow> i < k \<Longrightarrow>
     recover env c (snd (recoveries env c i w)) = (rs ! i, snd (recoveries env c (Suc i) w))"
proof (induction k arbitrary: i w rs w1)
  case (Suc k)
  obtain r w2 where r: "recover env c w = (r, w2)" by (metis surj_pair)
  obtain rs2 w3 where rs: "recoveries env c k w2 = (rs2, w3)" by (metis surj_pair)
  have eq: "rs = r # rs2" using Suc.prems(1) r rs by simp
  have shift: "snd (recoveries env c (Suc j) w) = snd (recoveries env c j w2)" for j
    using r by (cases "recoveries env c j w2") simp
  show ?case
  proof (cases i)
    case 0
    then show ?thesis using r eq by simp
  next
    case (Suc j)
    have "recover env c (snd (recoveries env c j w2)) = (rs2 ! j, snd (recoveries env c (Suc j) w2))"
      by (rule Suc.IH[OF rs]) (use Suc.prems(2) Suc in simp)
    then show ?thesis unfolding Suc shift eq by simp
  qed
qed simp

lemma recoveries_by_policy:
  assumes "map_of (rm_policies w) c = Some p" "pol_enabled p" "pol_max_attempts p = Some M"
    and "recoveries env c k w = (rs, w1)" "i < k"
  shows "rr_attempts (rs ! i) = attempts c w + int i + 1 \<and>
    (if attempts c w + int i + 1 \<le> M
     then let wi = snd (recoveries env c i w);
              (taken, v) = run_actions env c (pol_actions p) [] (wi\<lparr>rm_attempts := AList.update c (attempts c w + int i + 1) (rm_attempts wi)\<rparr>)
          in rr_actions_taken (rs ! i) = taken \<and> (rr_success (rs ! i) \<longleftrightarrow> taken \<noteq> []) \<and>
             recovery_host_of (snd (recoveries env c (Suc i) w)) = recovery_host_of v
     else rs ! i = failed_result env c (attempts c w + int i + 1) (MaxAttemptsExceeded M (pol_actions p)) \<and>
       recovery_host_of (snd (recoveries env c (Suc i) w)) = recovery_host_of (snd (recoveries env c i w)))"
proof -
  define wi where "wi = snd (recoveries env c i w)"
  note step = recoveries_nth[OF assms(4,5), folded wi_def]
  have wi: "attempts c wi = attempts c w + int i" "rm_policies wi = rm_policies w"
    using recoveries_policies[of c i w "fst (recoveries env c i w)" wi] by (simp_all add: wi_def)
  have "map_of (rm_policies wi) c = Some p" using assms(1) wi(2) by simp
  from recover_by_policy[OF this assms(2,3) step] recover_effect(1)[OF step]
  show ?thesis unfolding wi(1) wi_def[symmetric] Let_def by simp
qed

end

text \<open>A host together with a relation that a recovery of a component respects.\<close>

locale recovery_host_frame = recovery_host env
  for env :: "'a recovery_state_scheme recovery_env" +
  fixes R :: "name \<Rightarrow> 'a recovery_state_scheme \<Rightarrow> 'a recovery_state_scheme \<Rightarrow> bool"
  assumes R_refl: "R c w w"
    and R_trans: "R c w1 w2 \<Longrightarrow> R c w2 w3 \<Longrightarrow> R c w1 w3"
    and R_factory: "R c w (snd (re_factory env c w))"
    and R_component_factory: "re_component_factory env = Some f \<Longrightarrow> R c w (snd (f c w))"
    and R_attempts: "R c w (w\<lparr>rm_attempts := AList.update c n (rm_attempts w)\<rparr>)"
    and R_results: "R c w (w\<lparr>rm_results := AList.update c rs (rm_results w)\<rparr>)"
    and R_metrics: "R c w (w\<lparr>rm_metrics := m\<rparr>)"
    and R_events: "R c w (w\<lparr>rm_events := es\<rparr>)"
    and R_processes: "rm_processes w = Some pm \<Longrightarrow> keys (pm_processes pm1) = keys (pm_processes pm) \<Longrightarrow>
                        R c w (w\<lparr>rm_processes := Some pm1\<rparr>)"
begin

lemma component_factory_R:
  "R c w (snd (case re_component_factory env of None \<Rightarrow> (False, w) | Some f \<Rightarrow> f c w))"
  using R_refl R_component_factory by (cases "re_component_factory env") simp_all

lemma restart_action_R: "R c w (snd (restart_action env c w))"
proof (cases "rm_processes w")
  case None
  then show ?thesis
    using R_factory component_factory_R by (simp add: restart_action_def)
next
  case (Some pm)
  have "R c w (w\<lparr>rm_processes := Some (snd (pm_restart (re_alive env) (re_now env) c pm))\<rparr>)"
    by (rule R_processes[OF Some pm_restart_keys])
  then show ?thesis
    using R_factory component_factory_R Some
    by (simp add: restart_action_def case_prod_unfold Let_def)
qed

lemma isolate_action_R: "R c w (snd (isolate_action env c w))"
proof (cases "rm_processes w")
  case None
  then show ?thesis by (simp add: isolate_action_def R_refl)
next
  case (Some pm)
  have "R c w (w\<lparr>rm_processes := Some (snd (pm_stop (re_alive env) (re_now env) c pm))\<rparr>)"
    by (rule R_processes[OF Some pm_stop_keys])
  then show ?thesis
    using Some R_refl by (simp add: isolate_action_def case_prod_unfold Let_def)
qed

lemma run_action_R: "R c w (snd (run_action env c a w))"
  using restart_action_R isolate_action_R component_factory_R R_refl R_events
  by (simp add: run_action_def reload_state_action_def escalate_action_def publish_runtime_event_def)

lemma run_actions_R: "R c w (snd (run_actions env c as taken w))"
proof (induction as arbitrary: taken w)
  case Nil
  show ?case by (simp add: R_refl)
next
  case (Cons a as)
  obtain ok w1 where r: "run_action env c a w = (ok, w1)" by (metis surj_pair)
  with run_action_R[of c w a] have "R c w w1" by simp
  with r Cons show ?case by (auto intro: R_trans)
qed

lemma attempt_recovery_R: "R c w (snd (attempt_recovery env c n w))"
proof -
  have e: "R c w (snd (execute_policy env c p n w))" for p
    using run_actions_R[of c w "pol_actions p" "[]"]
    by (auto simp: execute_policy_def Let_def split: prod.splits)
  then show ?thesis
    using R_refl by (auto simp: attempt_recovery_def Let_def split: option.splits)
qed

lemma record_outcome_R: "R c w (record_outcome r w)"
  using R_refl R_metrics by (auto simp: record_outcome_def Let_def split: option.splits)

lemma recover_R: "R c w (snd (recover env c w))"
  unfolding recover_def Let_def case_prod_unfold snd_conv
  by (rule R_trans[OF _ record_outcome_R], rule R_trans[OF _ R_results],
      rule R_trans[OF R_attempts attempt_recovery_R])

end

end
