(* ===== verification/Supervisor.thy ===== *)
theory Supervisor
  imports Lifecycle CircuitBreaker RuntimeGraph Heartbeat Recovery
begin

text \<open>
  The self-healing loop as the runtime engine wires it: the supervisor
  (\<^verbatim>\<open>runtime/supervisor.py\<close>), the isolation alerts it writes (\<^verbatim>\<open>telemetry/alerts.py\<close>) and the
  part of \<^verbatim>\<open>runtime/engine.py\<close> it calls back (the failure callback of the heartbeat manager,
  the restart factory, the engine status).  The state extends the state of the recovery
  manager.  An engine instance is only its name: what its own methods answer (its probe, its
  \<^verbatim>\<open>start\<close>) is the environment.  Subscribers of the event bus and the persisted copy of the
  engine states are left out, and an alert is always written.
\<close>

datatype EngineStateStatus =
    EsREGISTERED | EsSTARTING | EsRUNNING | EsDEGRADED | EsFAILED | EsSTOPPING | EsSTOPPED

record engine_state =
  es_status :: EngineStateStatus
  es_health :: HealthStatus
  es_message :: string
  es_started_at :: "time option"
  es_stopped_at :: "time option"

record alert =
  al_time :: time
  al_open :: bool
  al_component :: name
  al_reason :: string
  al_attempts :: "int option"

record system = recovery_state +
  sv_heartbeats :: heartbeat_manager
  sv_health :: "name list"
  sv_isolated :: "name list"
  sv_recent :: "(name, time) dict"
  sv_alerts :: "alert list"
  en_engines :: "name list"
  en_states :: "(name, engine_state) dict"
  en_graph :: runtime_graph
  en_breakers :: "(name, circuit_breaker) dict"
  en_phase :: RuntimePhase
  en_event_bus :: bool
  en_recoveries :: nat
  en_failures :: nat

datatype start_behaviour = NoStartMethod | StartNeedsArguments | StartReturns | StartRaises string

record system_env =
  se_now :: time
  se_alive :: "nat \<Rightarrow> bool"
  se_bus_running :: bool
  se_probe :: "name \<Rightarrow> HealthStatus"
  se_system_check :: HealthStatus
  se_start :: "name \<Rightarrow> start_behaviour"

section \<open>Alerts\<close>

definition record_alert_open ::
  "time \<Rightarrow> name \<Rightarrow> string \<Rightarrow> int option \<Rightarrow> alert list \<Rightarrow> alert list" where
  "record_alert_open now c reason n alog =
     alog @ [\<lparr>al_time = now, al_open = True, al_component = c, al_reason = reason, al_attempts = n\<rparr>]"

definition record_alert_resolved :: "time \<Rightarrow> name \<Rightarrow> string \<Rightarrow> alert list \<Rightarrow> alert list" where
  "record_alert_resolved now c reason alog =
     alog @ [\<lparr>al_time = now, al_open = False, al_component = c, al_reason = reason, al_attempts = None\<rparr>]"

definition read_alerts :: "nat \<Rightarrow> alert list \<Rightarrow> alert list" where
  "read_alerts limit alog = (if limit = 0 then alog else drop (length alog - limit) alog)"

definition latest_alerts :: "alert list \<Rightarrow> (name, alert) dict" where
  "latest_alerts records =
     fold (\<lambda>r d. AList.update (if al_component r = [] then ''(unknown)'' else al_component r) r d) records []"

definition open_alerts :: "nat \<Rightarrow> alert list \<Rightarrow> (name \<times> alert) list" where
  "open_alerts limit alog =
     sort_key (\<lambda>(c, r). al_time r) (filter (\<lambda>(c, r). al_open r) (latest_alerts (read_alerts limit alog)))"

section \<open>The engine's side\<close>

definition mark_engine_status ::
  "time \<Rightarrow> name \<Rightarrow> EngineStateStatus \<Rightarrow> HealthStatus option \<Rightarrow> string \<Rightarrow> system \<Rightarrow> system" where
  "mark_engine_status now c status health message w =
     (case map_of (en_states w) c of
        None \<Rightarrow> w
      | Some s \<Rightarrow>
          let s1 = s\<lparr>es_status := status,
                     es_health := (case health of None \<Rightarrow> es_health s | Some h \<Rightarrow> h),
                     es_message := (if message = [] then es_message s else message)\<rparr>;
              s2 = (if status \<in> {EsRUNNING, EsREGISTERED}
                    then s1\<lparr>es_started_at := (case es_started_at s1 of None \<Rightarrow> Some now | Some t \<Rightarrow> Some t),
                            es_stopped_at := None\<rparr> else s1);
              s3 = (if status \<in> {EsSTOPPED, EsFAILED} then s2\<lparr>es_stopped_at := Some now\<rparr> else s2)
          in w\<lparr>en_states := AList.update c s3 (en_states w)\<rparr>)"

text \<open>\<^verbatim>\<open>_publish\<close>: only while the bus of the engine runs (local handlers are left out).\<close>

definition engine_publish :: "system_env \<Rightarrow> string \<Rightarrow> name \<Rightarrow> system \<Rightarrow> system" where
  "engine_publish env ty c w =
     (if \<not> en_event_bus w \<or> \<not> se_bus_running env then w else w\<lparr>rm_events := rm_events w @ [(ty, c)]\<rparr>)"

definition restart_engine :: "time \<Rightarrow> name \<Rightarrow> system \<Rightarrow> bool \<times> system" where
  "restart_engine now c w =
     (if c \<notin> set (en_engines w) then (False, w)
      else let (r, m) = hb_beat now c HEALTHY (sv_heartbeats w)
           in (is_ok r, w\<lparr>sv_heartbeats := m\<rparr>))"

definition wired_env :: "time \<Rightarrow> (nat \<Rightarrow> bool) \<Rightarrow> system recovery_env" where
  "wired_env now alive =
     \<lparr>re_now = now, re_alive = alive, re_is_engine = Some (\<lambda>n w. n \<in> set (en_engines w)),
      re_factory = restart_engine now, re_component_factory = None\<rparr>"

fun join_names :: "string list \<Rightarrow> string" where
  "join_names [] = []"
| "join_names [x] = x"
| "join_names (x # y # ys) = x @ '', '' @ join_names (y # ys)"

definition on_engine_failed ::
  "system_env \<Rightarrow> name \<Rightarrow> string \<Rightarrow> recovery_result \<Rightarrow> system \<Rightarrow> system" where
  "on_engine_failed env c reason r w =
     (if rr_success r
      then let w1 = mark_engine_status (se_now env) c EsRUNNING (Some HEALTHY)
                      (''recovered via '' @ (if rr_actions_taken r = [] then ''none''
                                             else join_names (rr_actions_taken r))) w
           in engine_publish env ''runtime.component_restarted'' c
                (w1\<lparr>en_recoveries := en_recoveries w1 + 1\<rparr>)
      else let w1 = mark_engine_status (se_now env) c EsFAILED (Some UNHEALTHY) reason w;
               w2 = w1\<lparr>en_failures := en_failures w1 + 1\<rparr>
           in if en_phase w2 = RUNNING
              then engine_publish env ''runtime.degraded'' c
                     (w2\<lparr>en_phase := (case transition (en_phase w2) DEGRADED of
                                        Inr p \<Rightarrow> p | Inl _ \<Rightarrow> force (en_phase w2) DEGRADED)\<rparr>)
              else w2)"

section \<open>The supervisor\<close>

definition set_insert :: "'a \<Rightarrow> 'a list \<Rightarrow> 'a list" where
  "set_insert x xs = (if x \<in> set xs then xs else xs @ [x])"

definition isolate :: "system_env \<Rightarrow> name \<Rightarrow> string \<Rightarrow> int option \<Rightarrow> system \<Rightarrow> system" where
  "isolate env c reason n w =
     (let w1 = w\<lparr>sv_isolated := set_insert c (sv_isolated w),
                 sv_heartbeats := snd (hb_unregister c (sv_heartbeats w)),
                 sv_health := removeAll c (sv_health w)\<rparr>;
          w2 = publish_runtime_event ''runtime.engine_isolated'' c w1
      in w2\<lparr>sv_alerts := record_alert_open (se_now env) c reason n (sv_alerts w2)\<rparr>)"

definition unisolate :: "system_env \<Rightarrow> name \<Rightarrow> system \<Rightarrow> system" where
  "unisolate env c w =
     (let w1 = reset_attempts c (w\<lparr>sv_isolated := removeAll c (sv_isolated w)\<rparr>);
          w2 = publish_runtime_event ''runtime.engine_unisolated'' c w1
      in w2\<lparr>sv_alerts := record_alert_resolved (se_now env) c ''unisolated'' (sv_alerts w2)\<rparr>)"

definition supervisor_recover :: "system_env \<Rightarrow> name \<Rightarrow> string \<Rightarrow> system \<Rightarrow> recovery_result \<times> system" where
  "supervisor_recover env c reason w =
     (let (r, w1) = recover (wired_env (se_now env) (se_alive env)) c w
      in if \<not> rr_success r
         then (r, isolate env c (''recovery failed: '' @ reason) (Some (rr_attempts r)) w1)
         else if ''isolate'' \<in> set (rr_actions_taken r)
         then (r, isolate env c (''isolated during recovery: '' @ reason) (Some (rr_attempts r)) w1)
         else (r, w1))"

definition notify_failure :: "system_env \<Rightarrow> name \<Rightarrow> string \<Rightarrow> recovery_result \<Rightarrow> system \<Rightarrow> system" where
  "notify_failure env c reason r w =
     on_engine_failed env c reason r (publish_runtime_event ''runtime.component_failed'' c w)"

definition supervisor_on_failure :: "system_env \<Rightarrow> name \<Rightarrow> string \<Rightarrow> system \<Rightarrow> system" where
  "supervisor_on_failure env c reason w =
     (if c \<in> set (sv_isolated w) then w
      else let w1 = w\<lparr>sv_recent := AList.update c (se_now env) (sv_recent w)\<rparr>;
               (r, w2) = supervisor_recover env c reason w1
           in notify_failure env c reason r w2)"

text \<open>The callback the engine gives the heartbeat manager, \<^verbatim>\<open>_on_component_failure\<close>: it runs
  while the manager iterates, on the same manager.\<close>

definition component_failure_callback :: "system_env \<Rightarrow> system failure_callback" where
  "component_failure_callback env c reason mw =
     (case mw of (m, w) \<Rightarrow>
        let w1 = supervisor_on_failure env c reason (w\<lparr>sv_heartbeats := m\<rparr>) in (sv_heartbeats w1, w1))"

definition heartbeat_pass :: "system_env \<Rightarrow> system \<Rightarrow> (name \<times> string) list \<times> system" where
  "heartbeat_pass env w =
     (case hb_check (Some (component_failure_callback env)) (se_now env) (sv_heartbeats w, w) of
        (fs, m, w1) \<Rightarrow> (fs, w1\<lparr>sv_heartbeats := m\<rparr>))"

fun status_value :: "HealthStatus \<Rightarrow> string" where
  "status_value HEALTHY = ''healthy''"
| "status_value DEGRADED_HEALTH = ''degraded''"
| "status_value UNHEALTHY = ''unhealthy''"

definition health_checks :: "system_env \<Rightarrow> system \<Rightarrow> (name \<times> HealthStatus) list" where
  "health_checks env w = map (\<lambda>c. (c, se_probe env c)) (sv_health w) @ [(''system'', se_system_check env)]"

definition aggregate_health :: "(name \<times> HealthStatus) list \<Rightarrow> HealthStatus" where
  "aggregate_health checks =
     (if \<exists>c \<in> set checks. snd c = UNHEALTHY then UNHEALTHY
      else if \<exists>c \<in> set checks. snd c = DEGRADED_HEALTH then DEGRADED_HEALTH else HEALTHY)"

definition health_failures :: "system_env \<Rightarrow> system \<Rightarrow> (name \<times> string) list" where
  "health_failures env w =
     map (\<lambda>(c, s). (c, status_value s)) (filter (\<lambda>(c, s). s \<noteq> HEALTHY) (health_checks env w))"

definition handle_failures :: "system_env \<Rightarrow> (name \<times> string) list \<Rightarrow> system \<Rightarrow> system" where
  "handle_failures env fs w = fold (\<lambda>(c, reason) w. supervisor_on_failure env c reason w) fs w"

definition check_once :: "system_env \<Rightarrow> system \<Rightarrow> name list \<times> system" where
  "check_once env w =
     (let (fs, w1) = heartbeat_pass env w;
          w2 = handle_failures env fs w1;
          hs = health_failures env w2
      in (map fst fs @ map fst hs, handle_failures env hs w2))"

section \<open>What a recovery may touch\<close>

text \<open>Everything about another component, and everything the supervisor and the engine own.\<close>

definition same_component :: "name \<Rightarrow> heartbeat_manager \<Rightarrow> heartbeat_manager \<Rightarrow> bool" where
  "same_component d m m1 \<longleftrightarrow>
     map_of (hm_beats m1) d = map_of (hm_beats m) d \<and>
     map_of (hm_misses m1) d = map_of (hm_misses m) d"

definition same_settings :: "heartbeat_manager \<Rightarrow> heartbeat_manager \<Rightarrow> bool" where
  "same_settings m m1 \<longleftrightarrow> hm_timeout m1 = hm_timeout m \<and> hm_threshold m1 = hm_threshold m \<and>
     hm_interval m1 = hm_interval m \<and> hm_enabled m1 = hm_enabled m \<and> (hb_inv m \<longrightarrow> hb_inv m1)"

definition same_policies :: "system \<Rightarrow> system \<Rightarrow> bool" where
  "same_policies w w1 \<longleftrightarrow>
     rm_policies w1 = rm_policies w \<and> rm_default_max_attempts w1 = rm_default_max_attempts w \<and>
     rm_factories w1 = rm_factories w \<and> en_engines w1 = en_engines w \<and>
     (\<forall>d. process_known d w1 = process_known d w)"

definition recovery_frame :: "name \<Rightarrow> system \<Rightarrow> system \<Rightarrow> bool" where
  "recovery_frame c w w1 \<longleftrightarrow>
     same_policies w w1 \<and> same_settings (sv_heartbeats w) (sv_heartbeats w1) \<and>
     (\<forall>d. d \<noteq> c \<longrightarrow> same_component d (sv_heartbeats w) (sv_heartbeats w1) \<and>
        attempts d w1 = attempts d w) \<and>
     sv_health w1 = sv_health w \<and> sv_isolated w1 = sv_isolated w \<and> sv_alerts w1 = sv_alerts w"

lemmas frame_defs = recovery_frame_def same_policies_def same_settings_def same_component_def

lemma hb_beat_frame:
  assumes "hb_beat now c st m = (r, m1)"
  shows "same_settings m m1" "d \<noteq> c \<Longrightarrow> same_component d m m1"
proof -
  have "m1 = snd (hb_beat now c st m)" using assms by simp
  then have "hb_inv m \<longrightarrow> hb_inv m1" using hb_beat_inv by simp
  then show "same_settings m m1"
    using assms
    by (auto simp: same_settings_def hb_beat_def hb_register_def Let_def
        split: option.splits sum.splits if_splits prod.splits)
  show "same_component d m m1" if "d \<noteq> c"
    using assms that
    by (auto simp: same_component_def hb_beat_def hb_register_def Let_def
        split: option.splits sum.splits if_splits prod.splits)
qed

lemma restart_engine_core: "recovery_core (snd (restart_engine now c w)) = recovery_core w"
  by (auto simp: restart_engine_def recovery_core_def Let_def split: prod.splits)

lemma process_known_frame [simp, frame_simps]:
  "process_known d (w\<lparr>sv_heartbeats := m\<rparr>) = process_known d w"
  "process_known d (w\<lparr>rm_attempts := x\<rparr>) = process_known d w"
  "process_known d (w\<lparr>rm_results := y\<rparr>) = process_known d w"
  "process_known d (w\<lparr>rm_metrics := z\<rparr>) = process_known d w"
  "process_known d (w\<lparr>rm_events := u\<rparr>) = process_known d w"
  by (simp_all add: process_known_def)

lemma restart_engine_frame: "recovery_frame c w (snd (restart_engine now c w))"
proof -
  obtain r m where r: "hb_beat now c HEALTHY (sv_heartbeats w) = (r, m)" by (metis surj_pair)
  from hb_beat_frame[OF r] r show ?thesis
    by (auto simp: restart_engine_def frame_defs attempts_def)
qed

interpretation wired: recovery_host_frame "wired_env now alive" recovery_frame for now alive
proof
  fix c w n rs m es pm pm1 and w1 w2 w3 :: system
    and f :: "name \<Rightarrow> system \<Rightarrow> bool \<times> system"
  show "recovery_core (snd (re_factory (wired_env now alive) c w)) = recovery_core w"
    by (simp add: wired_env_def restart_engine_core)
  show "recovery_core (snd (f c w)) = recovery_core w"
    if "re_component_factory (wired_env now alive) = Some f"
    using that by (simp add: wired_env_def)
  show "recovery_frame c w w" by (simp add: frame_defs)
  show "recovery_frame c w1 w3" if "recovery_frame c w1 w2" "recovery_frame c w2 w3"
    using that by (auto simp: frame_defs)
  show "recovery_frame c w (snd (re_factory (wired_env now alive) c w))"
    by (simp add: wired_env_def restart_engine_frame)
  show "recovery_frame c w (snd (f c w))" if "re_component_factory (wired_env now alive) = Some f"
    using that by (simp add: wired_env_def)
  show "recovery_frame c w (w\<lparr>rm_attempts := AList.update c n (rm_attempts w)\<rparr>)"
    "recovery_frame c w (w\<lparr>rm_results := AList.update c rs (rm_results w)\<rparr>)"
    "recovery_frame c w (w\<lparr>rm_metrics := m\<rparr>)" "recovery_frame c w (w\<lparr>rm_events := es\<rparr>)"
    by (auto simp: frame_defs attempts_def)
  show "recovery_frame c w (w\<lparr>rm_processes := Some pm1\<rparr>)"
    if "rm_processes w = Some pm" "keys (pm_processes pm1) = keys (pm_processes pm)"
  proof -
    have "(map_of (pm_processes pm1) d = None) = (map_of (pm_processes pm) d = None)" for d
      by (simp only: map_of_eq_None_iff that(2)[symmetric] set_map[symmetric])
    then have "process_known d (w\<lparr>rm_processes := Some pm1\<rparr>) = process_known d w" for d
      using that(1) by (simp add: process_known_def get_optional_def del: not_None_eq)
    then show ?thesis by (auto simp: frame_defs attempts_def)
  qed
qed

section \<open>Isolation\<close>

text \<open>An isolated component is not monitored: no heartbeat record and no health probe.\<close>

definition isolation_inv :: "system \<Rightarrow> bool" where
  "isolation_inv w \<longleftrightarrow> hb_inv (sv_heartbeats w) \<and>
     (\<forall>c \<in> set (sv_isolated w). map_of (hm_beats (sv_heartbeats w)) c = None \<and> c \<notin> set (sv_health w))"

lemma set_insert_simps [simp]: "set (set_insert x xs) = insert x (set xs)"
  by (auto simp: set_insert_def)

lemma publish_frame [simp, frame_simps]:
  "sv_heartbeats (publish_runtime_event ty c w) = sv_heartbeats w"
  "sv_isolated (publish_runtime_event ty c w) = sv_isolated w"
  "sv_health (publish_runtime_event ty c w) = sv_health w"
  "sv_alerts (publish_runtime_event ty c w) = sv_alerts w"
  "rm_attempts (publish_runtime_event ty c w) = rm_attempts w"
  "same_policies w (publish_runtime_event ty c w)"
  by (simp_all add: publish_runtime_event_def same_policies_def)

lemma isolate_frame [simp, frame_simps]:
  "sv_isolated (isolate env c reason n w) = set_insert c (sv_isolated w)"
  "sv_heartbeats (isolate env c reason n w) = snd (hb_unregister c (sv_heartbeats w))"
  "sv_health (isolate env c reason n w) = removeAll c (sv_health w)"
  "rm_attempts (isolate env c reason n w) = rm_attempts w"
  "same_policies w (isolate env c reason n w)"
  by (simp_all add: isolate_def Let_def publish_runtime_event_def same_policies_def process_known_def)

lemma isolate_inv [inv_intros]: "isolation_inv w \<Longrightarrow> isolation_inv (isolate env c reason n w)"
  by (auto simp: isolation_inv_def hb_unregister_def map_of_delete_iff hb_unregister_inv[simplified hb_unregister_def snd_conv])

lemma unisolate_inv [inv_intros]: "isolation_inv w \<Longrightarrow> isolation_inv (unisolate env c w)"
  by (auto simp: isolation_inv_def unisolate_def Let_def reset_attempts_def)

lemma mark_engine_status_frame [simp, frame_simps]:
  "sv_heartbeats (mark_engine_status now c st h msg w) = sv_heartbeats w"
  "sv_isolated (mark_engine_status now c st h msg w) = sv_isolated w"
  "sv_health (mark_engine_status now c st h msg w) = sv_health w"
  "rm_attempts (mark_engine_status now c st h msg w) = rm_attempts w"
  "same_policies w (mark_engine_status now c st h msg w)"
  by (simp_all add: mark_engine_status_def Let_def same_policies_def process_known_def split: option.split)

lemma engine_publish_frame [simp, frame_simps]:
  "sv_heartbeats (engine_publish env ty c w) = sv_heartbeats w"
  "sv_isolated (engine_publish env ty c w) = sv_isolated w"
  "sv_health (engine_publish env ty c w) = sv_health w"
  "rm_attempts (engine_publish env ty c w) = rm_attempts w"
  "same_policies v (engine_publish env ty c w) = same_policies v w"
  by (simp_all add: engine_publish_def same_policies_def process_known_def)

lemma same_policies_fields [simp]:
  "same_policies v (w\<lparr>en_recoveries := k\<rparr>) = same_policies v w"
  "same_policies v (w\<lparr>en_failures := k\<rparr>) = same_policies v w"
  "same_policies v (w\<lparr>en_phase := p\<rparr>) = same_policies v w"
  by (simp_all add: same_policies_def process_known_def)

lemma on_engine_failed_frame [simp, frame_simps]:
  "sv_heartbeats (on_engine_failed env c reason r w) = sv_heartbeats w"
  "sv_isolated (on_engine_failed env c reason r w) = sv_isolated w"
  "sv_health (on_engine_failed env c reason r w) = sv_health w"
  "rm_attempts (on_engine_failed env c reason r w) = rm_attempts w"
  "same_policies w (on_engine_failed env c reason r w)"
  by (simp_all add: on_engine_failed_def Let_def)

section \<open>Failures of one component and the others\<close>

definition bystander :: "name \<Rightarrow> system \<Rightarrow> system \<Rightarrow> bool" where
  "bystander d w w1 \<longleftrightarrow> same_policies w w1 \<and> same_settings (sv_heartbeats w) (sv_heartbeats w1) \<and>
     same_component d (sv_heartbeats w) (sv_heartbeats w1) \<and> attempts d w1 = attempts d w \<and>
     (d \<in> set (sv_isolated w1) \<longleftrightarrow> d \<in> set (sv_isolated w)) \<and>
     (d \<in> set (sv_health w1) \<longleftrightarrow> d \<in> set (sv_health w))"

lemma bystander_refl [simp]: "bystander d w w"
  by (simp add: bystander_def frame_defs)

lemma bystander_trans [trans]: "bystander d w w1 \<Longrightarrow> bystander d w1 w2 \<Longrightarrow> bystander d w w2"
  by (auto simp: bystander_def frame_defs)

lemma hb_unregister_frame:
  "same_settings m (snd (hb_unregister c m))" "d \<noteq> c \<Longrightarrow> same_component d m (snd (hb_unregister c m))"
  using hb_unregister_inv[of m c]
  by (auto simp: same_settings_def same_component_def hb_unregister_def map_of_delete_iff)

lemma recover_frame:
  "recover (wired_env now alive) c w = (r, w1) \<Longrightarrow> recovery_frame c w w1"
  using wired.recover_R[of c w now alive] by simp

lemma supervisor_recover_other:
  assumes "supervisor_recover env c reason w = (r, w1)" "d \<noteq> c"
  shows "bystander d w w1"
proof -
  obtain w2 where w2: "recover (wired_env (se_now env) (se_alive env)) c w = (r, w2)"
    and w1: "w1 = w2 \<or> (\<exists>reason n. w1 = isolate env c reason n w2)"
    using assms(1) by (auto simp: supervisor_recover_def Let_def split: prod.splits if_splits)
  have f: "bystander d w w2"
    using recover_frame[OF w2] assms(2) by (auto simp: bystander_def recovery_frame_def)
  have "bystander d w2 (isolate env c reason n w2)" for reason n
    using assms(2) hb_unregister_frame(1)[where m = "sv_heartbeats w2" and c = c]
      hb_unregister_frame(2)[OF assms(2)]
    by (simp add: bystander_def attempts_def)
  with f w1 show ?thesis by (auto intro: bystander_trans)
qed

lemma notify_failure_frame [simp, frame_simps]:
  "sv_heartbeats (notify_failure env c reason r w) = sv_heartbeats w"
  "sv_isolated (notify_failure env c reason r w) = sv_isolated w"
  "sv_health (notify_failure env c reason r w) = sv_health w"
  "rm_attempts (notify_failure env c reason r w) = rm_attempts w"
  by (simp_all add: notify_failure_def)

lemma same_policies_trans: "same_policies w w1 \<Longrightarrow> same_policies w1 w2 \<Longrightarrow> same_policies w w2"
  by (auto simp: same_policies_def)

lemma notify_failure_policies [simp]: "same_policies w (notify_failure env c reason r w)"
  unfolding notify_failure_def
  by (rule same_policies_trans[of _ "publish_runtime_event ''runtime.component_failed'' c w"]) simp_all

lemma notify_failure_bystander: "bystander d w (notify_failure env c reason r w)"
  by (simp add: bystander_def attempts_def same_settings_def same_component_def)

lemma recent_bystander: "bystander d w (w\<lparr>sv_recent := x\<rparr>)"
  by (simp add: bystander_def frame_defs attempts_def process_known_def)

lemma on_failure_other:
  assumes "d \<noteq> c"
  shows "bystander d w (supervisor_on_failure env c reason w)"
proof (cases "c \<in> set (sv_isolated w)")
  case True
  then show ?thesis by (simp add: supervisor_on_failure_def)
next
  case False
  let ?w = "w\<lparr>sv_recent := AList.update c (se_now env) (sv_recent w)\<rparr>"
  obtain r w2 where r: "supervisor_recover env c reason ?w = (r, w2)" by (metis surj_pair)
  have "bystander d w ?w" by (rule recent_bystander)
  also have "bystander d ?w w2" by (rule supervisor_recover_other[OF r assms])
  also have "bystander d w2 (notify_failure env c reason r w2)" by (rule notify_failure_bystander)
  finally show ?thesis using False r by (simp add: supervisor_on_failure_def Let_def)
qed

lemma on_failure_inv [inv_intros]:
  assumes inv: "isolation_inv w"
  shows "isolation_inv (supervisor_on_failure env c reason w)"
proof (cases "c \<in> set (sv_isolated w)")
  case True
  with inv show ?thesis by (simp add: supervisor_on_failure_def)
next
  case False
  let ?w = "w\<lparr>sv_recent := AList.update c (se_now env) (sv_recent w)\<rparr>"
  obtain r w1 where r: "recover (wired_env (se_now env) (se_alive env)) c ?w = (r, w1)"
    by (metis surj_pair)
  have "recovery_frame c ?w w1" by (rule recover_frame[OF r])
  then have i1: "isolation_inv w1"
    using inv False by (auto simp: isolation_inv_def frame_defs)
  obtain r2 w2 where s: "supervisor_recover env c reason ?w = (r2, w2)" by (metis surj_pair)
  have "isolation_inv w2"
    using s r i1 by (auto simp: supervisor_recover_def Let_def intro: isolate_inv split: if_splits)
  then have "isolation_inv (notify_failure env c reason r2 w2)" by (simp add: isolation_inv_def)
  with False s show ?thesis by (simp add: supervisor_on_failure_def Let_def)
qed

lemma handle_failures_inv [inv_intros]: "isolation_inv w \<Longrightarrow> isolation_inv (handle_failures env fs w)"
  unfolding handle_failures_def by (induction fs arbitrary: w) (auto intro: on_failure_inv)

lemma handle_failures_other:
  "d \<notin> fst ` set fs \<Longrightarrow> bystander d w (handle_failures env fs w)"
  unfolding handle_failures_def
proof (induction fs arbitrary: w)
  case (Cons f fs)
  obtain c reason where f: "f = (c, reason)" by (metis surj_pair)
  then have "d \<noteq> c" using Cons.prems by auto
  then have "bystander d w (supervisor_on_failure env c reason w)" by (rule on_failure_other)
  also have "bystander d (supervisor_on_failure env c reason w)
      (fold (\<lambda>(c, reason) w. supervisor_on_failure env c reason w) fs (supervisor_on_failure env c reason w))"
    using Cons.prems by (intro Cons.IH) simp
  finally show ?case by (simp add: f)
qed simp

section \<open>The heartbeat pass on the whole system\<close>

definition pass_step :: "system_env \<Rightarrow> name \<Rightarrow> (name \<times> string) list \<times> system \<Rightarrow> (name \<times> string) list \<times> system"
where
  "pass_step env c s =
     (case s of (fs, w) \<Rightarrow>
        let m = sv_heartbeats w; k = consecutive_misses c m + 1 in
        if \<not> is_stale c (se_now env) m then (fs, w\<lparr>sv_heartbeats := set_misses c 0 m\<rparr>)
        else if k \<ge> hm_threshold m
        then let w1 = supervisor_on_failure env c ''heartbeat_timeout'' (w\<lparr>sv_heartbeats := set_misses c k m\<rparr>)
             in (fs @ [(c, ''heartbeat_timeout'')],
                 w1\<lparr>sv_heartbeats := set_misses c 0 (sv_heartbeats w1)\<rparr>)
        else (fs, w\<lparr>sv_heartbeats := set_misses c k m\<rparr>))"

lemma check_component_pass_step:
  assumes "check_component (Some (component_failure_callback env)) (se_now env) c (fs, m, w) = (fs1, m1, w1)"
  shows "pass_step env c (fs, w\<lparr>sv_heartbeats := m\<rparr>) = (fs1, w1\<lparr>sv_heartbeats := m1\<rparr>)"
  using assms
  by (auto simp: check_component_def component_failure_callback_def pass_step_def Let_def
      split: if_splits)

lemma heartbeat_pass_fold:
  "heartbeat_pass env w = fold (pass_step env) (hb_components (sv_heartbeats w)) ([], w)"
proof -
  have "fold (pass_step env) cs (fs, w\<lparr>sv_heartbeats := m\<rparr>) =
      (case fold (check_component (Some (component_failure_callback env)) (se_now env)) cs (fs, m, w) of
         (fs1, m1, w1) \<Rightarrow> (fs1, w1\<lparr>sv_heartbeats := m1\<rparr>))" for cs fs m w
  proof (induction cs arbitrary: fs m w)
    case (Cons c cs)
    obtain fs1 m1 w1 where
      c: "check_component (Some (component_failure_callback env)) (se_now env) c (fs, m, w) = (fs1, m1, w1)"
      by (metis prod_cases3)
    from check_component_pass_step[OF c] Cons.IH[where fs = fs1 and m = m1 and w = w1] c show ?case by simp
  qed simp
  from this[where cs = "hb_components (sv_heartbeats w)" and fs = "[]" and w = w and m = "sv_heartbeats w"]
  show ?thesis
    by (simp add: heartbeat_pass_def hb_check_def)
qed

lemma set_misses_isolation:
  "isolation_inv w \<Longrightarrow> 0 \<le> k \<Longrightarrow> isolation_inv (w\<lparr>sv_heartbeats := set_misses c k (sv_heartbeats w)\<rparr>)"
  by (auto simp: isolation_inv_def set_misses_inv)

lemma isolation_hb: "isolation_inv w \<Longrightarrow> hb_inv (sv_heartbeats w)"
  by (simp add: isolation_inv_def)

lemma pass_step_inv:
  assumes "isolation_inv w"
  shows "isolation_inv (snd (pass_step env c (fs, w)))"
proof -
  have k: "0 \<le> consecutive_misses c (sv_heartbeats w) + 1"
    using consecutive_misses_nonneg[OF isolation_hb[OF assms], of c] by simp
  show ?thesis
    using assms k
    by (auto simp: pass_step_def Let_def intro!: set_misses_isolation on_failure_inv)
qed

lemma heartbeat_pass_inv [inv_intros]:
  assumes "isolation_inv w"
  shows "isolation_inv (snd (heartbeat_pass env w))"
proof -
  have "isolation_inv w \<Longrightarrow> isolation_inv (snd (fold (pass_step env) cs (fs, w)))" for cs fs w
  proof (induction cs arbitrary: fs w)
    case (Cons c cs)
    obtain fs1 w1 where s: "pass_step env c (fs, w) = (fs1, w1)" by (metis surj_pair)
    with pass_step_inv[OF Cons.prems, of env c fs] Cons.IH show ?case by simp
  qed simp
  with assms show ?thesis by (simp add: heartbeat_pass_fold)
qed

lemma check_once_inv [inv_intros]: "isolation_inv w \<Longrightarrow> isolation_inv (snd (check_once env w))"
  by (auto simp: check_once_def Let_def case_prod_unfold intro!: handle_failures_inv heartbeat_pass_inv)

section \<open>A component that restarts\<close>

text \<open>A registered engine under an enabled policy of its own that starts with \<^verbatim>\<open>restart\<close>.\<close>

definition restartable :: "name \<Rightarrow> int \<Rightarrow> system \<Rightarrow> bool" where
  "restartable c M w \<longleftrightarrow>
     c \<notin> set (sv_isolated w) \<and> c \<in> set (en_engines w) \<and> c \<in> set (rm_factories w) \<and>
     \<not> process_known c w \<and> hb_inv (sv_heartbeats w) \<and>
     (\<exists>h. map_of (hm_beats (sv_heartbeats w)) c = Some h \<and> 0 < hb_interval h) \<and>
     (\<exists>p as. map_of (rm_policies w) c = Some p \<and> pol_enabled p \<and>
        pol_max_attempts p = Some M \<and> pol_actions p = ''restart'' # as)"

lemma restartable_bystander: "restartable c M w \<Longrightarrow> bystander c w w1 \<Longrightarrow> restartable c M w1"
  by (auto simp: restartable_def bystander_def frame_defs)

lemma bystander_set_misses: "hb_inv (sv_heartbeats w) \<Longrightarrow> 0 \<le> k \<Longrightarrow> d \<noteq> c \<Longrightarrow>
   bystander d w (w\<lparr>sv_heartbeats := set_misses c k (sv_heartbeats w)\<rparr>)"
  using set_misses_inv[of "sv_heartbeats w" k c]
  by (auto simp: bystander_def same_policies_def same_settings_def same_component_def attempts_def)

lemma restartable_set_misses:
  "restartable c M w \<Longrightarrow> 0 \<le> k \<Longrightarrow>
   restartable c M (w\<lparr>sv_heartbeats := set_misses d k (sv_heartbeats w)\<rparr>)"
  by (auto simp: restartable_def set_misses_inv)

lemma recover_restartable:
  assumes r: "restartable c M w" and "attempts c w + 1 \<le> M"
    and rec: "recover (wired_env now alive) c w = (res, w1)"
  shows "rr_success res \<and> rr_actions_taken res = [''restart''] \<and> restartable c M w1 \<and>
    attempts c w1 = attempts c w + 1"
proof -
  obtain h where h: "map_of (hm_beats (sv_heartbeats w)) c = Some h" "0 < hb_interval h"
    and c: "c \<in> set (en_engines w)" "c \<in> set (rm_factories w)" "\<not> process_known c w"
      "c \<notin> set (sv_isolated w)"
    using r by (auto simp: restartable_def)
  obtain p as where p: "map_of (rm_policies w) c = Some p" "pol_enabled p"
      "pol_max_attempts p = Some M" "pol_actions p = ''restart'' # as"
    using r by (auto simp: restartable_def)
  let ?w = "w\<lparr>rm_attempts := AList.update c (attempts c w + 1) (rm_attempts w)\<rparr>"
  obtain b m where beat: "hb_beat now c HEALTHY (sv_heartbeats w) = (Inr b, m)"
    and new: "\<exists>h1. map_of (hm_beats m) c = Some h1 \<and> 0 < hb_interval h1"
    using h by (auto simp: hb_beat_def Let_def)
  have np: "(case rm_processes w of None \<Rightarrow> True | Some pm \<Rightarrow> get_optional c pm = None)"
    using c(3) by (auto simp: process_known_def split: option.splits)
  have "restart_action (wired_env now alive) c ?w = (True, ?w\<lparr>sv_heartbeats := m\<rparr>)"
    using np c beat by (auto simp: restart_action_def wired_env_def restart_engine_def split: option.splits)
  then have ar: "attempt_recovery (wired_env now alive) c (attempts c w + 1) ?w =
      (\<lparr>rr_component = c, rr_success = True, rr_actions_taken = [''restart''],
        rr_attempts = attempts c w + 1, rr_message = SucceededVia [''restart''],
        rr_recovered_at = now\<rparr>, ?w\<lparr>sv_heartbeats := m\<rparr>)"
    using p assms(2)
    by (simp add: attempt_recovery_def policy_for_def execute_policy_def run_action_def wired_env_def Let_def)
  have res: "rr_success res" "rr_actions_taken res = [''restart'']"
    using rec ar by (auto simp: recover_def Let_def)
  have hb: "sv_heartbeats w1 = m"
    using rec ar by (auto simp: recover_def Let_def record_outcome_def split: option.splits)
  have f: "recovery_frame c w w1" by (rule recover_frame[OF rec])
  have "restartable c M w1"
    using f r new c p unfolding restartable_def hb by (auto simp: frame_defs hb)
  moreover have "attempts c w1 = attempts c w + 1"
    using wired.recover_effect(3)[OF rec] by (simp add: attempts_def)
  ultimately show ?thesis using res by simp
qed

lemma on_failure_restartable:
  assumes r: "restartable c M w" and a: "attempts c w + 1 \<le> M"
  shows "restartable c M (supervisor_on_failure env c reason w) \<and>
    attempts c (supervisor_on_failure env c reason w) = attempts c w + 1"
proof -
  let ?w = "w\<lparr>sv_recent := AList.update c (se_now env) (sv_recent w)\<rparr>"
  have r1: "restartable c M ?w" and a1: "attempts c ?w = attempts c w"
    using r by (simp_all add: restartable_def process_known_def attempts_def)
  obtain res w1 where rec: "recover (wired_env (se_now env) (se_alive env)) c ?w = (res, w1)"
    by (metis surj_pair)
  have p: "rr_success res" "rr_actions_taken res = [''restart'']" "restartable c M w1"
      "attempts c w1 = attempts c w + 1"
    using recover_restartable[OF r1 _ rec] a a1 by auto
  have "c \<notin> set (sv_isolated w)" using r by (simp add: restartable_def)
  then have e: "supervisor_on_failure env c reason w = notify_failure env c reason res w1"
    using rec p(1,2) by (simp add: supervisor_on_failure_def supervisor_recover_def Let_def)
  have b: "bystander c w1 (notify_failure env c reason res w1)" by (rule notify_failure_bystander)
  then show ?thesis
    using restartable_bystander[OF p(3) b] p(4) unfolding e by (simp add: bystander_def)
qed

lemma on_failure_exhausted:
  assumes r: "restartable c M w" and a: "M < attempts c w + 1"
  shows "c \<in> set (sv_isolated (supervisor_on_failure env c reason w)) \<and>
    attempts c (supervisor_on_failure env c reason w) = attempts c w + 1"
proof -
  let ?w = "w\<lparr>sv_recent := AList.update c (se_now env) (sv_recent w)\<rparr>"
  obtain p where p: "map_of (rm_policies w) c = Some p" "pol_enabled p" "pol_max_attempts p = Some M"
    using r by (auto simp: restartable_def)
  obtain res w1 where rec: "recover (wired_env (se_now env) (se_alive env)) c ?w = (res, w1)"
    by (metis surj_pair)
  have "\<not> rr_success res"
    using rec p a by (auto simp: recover_def Let_def attempt_recovery_def policy_for_def
        failed_result_def attempts_def)
  moreover have "c \<notin> set (sv_isolated w)" using r by (simp add: restartable_def)
  moreover have "attempts c w1 = attempts c w + 1"
    using wired.recover_effect(3)[OF rec] by (simp add: attempts_def)
  ultimately show ?thesis
    using rec by (simp add: supervisor_on_failure_def supervisor_recover_def Let_def attempts_def)
qed

lemma pass_step_other:
  assumes "d \<noteq> c" "hb_inv (sv_heartbeats w)"
  shows "bystander d w (snd (pass_step env c (fs, w)))"
    and "fst (pass_step env c (fs, w)) = fs @ map (\<lambda>c. (c, ''heartbeat_timeout''))
           (filter (fails_now (se_now env) (sv_heartbeats w)) [c])"
proof -
  let ?k = "consecutive_misses c (sv_heartbeats w) + 1"
  have k: "0 \<le> ?k" using consecutive_misses_nonneg[OF assms(2), of c] by simp
  let ?w1 = "supervisor_on_failure env c ''heartbeat_timeout''
      (w\<lparr>sv_heartbeats := set_misses c ?k (sv_heartbeats w)\<rparr>)"
  have b1: "bystander d w (w\<lparr>sv_heartbeats := set_misses c j (sv_heartbeats w)\<rparr>)" if "0 \<le> j" for j
    using bystander_set_misses[OF assms(2) that assms(1)] .
  have b2: "bystander d w ?w1" using b1[OF k] on_failure_other[OF assms(1)] by (rule bystander_trans)
  then have "hb_inv (sv_heartbeats ?w1)" using assms(2) by (simp add: bystander_def same_settings_def)
  from bystander_trans[OF b2 bystander_set_misses[OF this order_refl assms(1)]]
  show "bystander d w (snd (pass_step env c (fs, w)))"
    using b1[OF k] b1[of 0] by (simp add: pass_step_def Let_def)
  show "fst (pass_step env c (fs, w)) = fs @ map (\<lambda>c. (c, ''heartbeat_timeout''))
           (filter (fails_now (se_now env) (sv_heartbeats w)) [c])"
    by (simp add: pass_step_def Let_def fails_now_def)
qed

lemma fails_now_bystander: "bystander c w w1 \<Longrightarrow> fails_now now (sv_heartbeats w1) c = fails_now now (sv_heartbeats w) c"
  using same_beat_stale[of "sv_heartbeats w1" c "sv_heartbeats w" now]
  by (simp add: bystander_def same_settings_def same_component_def fails_now_def
      consecutive_misses_def dget_def)

lemma pass_fold_other:
  "c \<notin> set cs \<Longrightarrow> hb_inv (sv_heartbeats w) \<Longrightarrow>
   bystander c w (snd (fold (pass_step env) cs (fs, w))) \<and>
   hb_inv (sv_heartbeats (snd (fold (pass_step env) cs (fs, w)))) \<and>
   (\<exists>more. fst (fold (pass_step env) cs (fs, w)) = fs @ more \<and> c \<notin> fst ` set more)"
proof (induction cs arbitrary: fs w)
  case Nil
  then show ?case by auto
next
  case (Cons d cs)
  obtain fs1 w1 where s: "pass_step env d (fs, w) = (fs1, w1)" by (metis surj_pair)
  have dc: "c \<noteq> d" using Cons.prems by simp
  have b: "bystander c w w1" using pass_step_other(1)[OF dc Cons.prems(2), of env fs] s by simp
  then have i: "hb_inv (sv_heartbeats w1)"
    using Cons.prems(2) by (simp add: bystander_def same_settings_def)
  obtain more1 where m1: "fs1 = fs @ more1" "c \<notin> fst ` set more1"
    using pass_step_other(2)[OF dc Cons.prems(2), of env fs] s dc by (auto split: if_splits)
  from Cons.IH[OF _ i, of fs1] Cons.prems obtain more2 where
    "bystander c w1 (snd (fold (pass_step env) cs (fs1, w1)))"
    "hb_inv (sv_heartbeats (snd (fold (pass_step env) cs (fs1, w1))))"
    "fst (fold (pass_step env) cs (fs1, w1)) = fs1 @ more2" "c \<notin> fst ` set more2" by auto
  with b m1 s show ?case by (auto intro: bystander_trans)
qed

definition send_beats :: "system_env \<Rightarrow> system \<Rightarrow> system" where
  "send_beats env w =
     w\<lparr>sv_heartbeats := hb_send (se_now env) (en_engines w) (sv_isolated w) (sv_heartbeats w)\<rparr>"

definition recover_engine :: "system_env \<Rightarrow> name \<Rightarrow> system \<Rightarrow> recovery_result \<times> system" where
  "recover_engine env c w = recover (wired_env (se_now env) (se_alive env)) c w"

lemma hb_send_inv:
  "hb_inv m \<Longrightarrow> hb_inv (hb_send now es skip m) \<and>
   (\<forall>c \<in> set skip. map_of (hm_beats (hb_send now es skip m)) c = map_of (hm_beats m) c)"
  unfolding hb_send_def
proof (induction es arbitrary: m)
  case (Cons e es)
  show ?case
  proof (cases "e \<in> set skip")
    case True
    with Cons show ?thesis by simp
  next
    case False
    obtain r m1 where b: "hb_beat now e HEALTHY m = (r, m1)" by (metis surj_pair)
    have i: "hb_inv m1" using hb_beat_inv[OF Cons.prems, of now e HEALTHY] b by simp
    have "map_of (hm_beats m1) c = map_of (hm_beats m) c" if "c \<in> set skip" for c
      using hb_beat_frame(2)[OF b, of c] that False by (auto simp: same_component_def)
    with Cons.IH[OF i] False b show ?thesis by simp
  qed
qed simp

lemma send_beats_inv [inv_intros]: "isolation_inv w \<Longrightarrow> isolation_inv (send_beats env w)"
  using hb_send_inv[of "sv_heartbeats w"] by (auto simp: isolation_inv_def send_beats_def)

lemma heartbeat_pass_restartable:
  assumes r: "restartable c M w" and a: "attempts c w + 1 \<le> M"
    and fails: "fails_now (se_now env) (sv_heartbeats w) c"
  obtains more1 more2 w1 where
    "heartbeat_pass env w = (more1 @ (c, ''heartbeat_timeout'') # more2, w1)"
    "c \<notin> fst ` set more1" "c \<notin> fst ` set more2" "restartable c M w1"
    "attempts c w1 = attempts c w + 1"
proof -
  have hb: "hb_inv (sv_heartbeats w)" using r by (simp add: restartable_def)
  have "c \<in> set (hb_components (sv_heartbeats w))"
    using r by (auto simp: restartable_def hb_components_def in_keys_iff_map_of)
  then obtain xs ys where cs: "hb_components (sv_heartbeats w) = xs @ c # ys"
    by (auto simp: in_set_conv_decomp)
  have "distinct (hb_components (sv_heartbeats w))" using hb by (simp add: hb_inv_def hb_components_def)
  with cs have nin: "c \<notin> set xs" "c \<notin> set ys" by auto
  obtain fs1 w1 where s1: "fold (pass_step env) xs ([], w) = (fs1, w1)" by (metis surj_pair)
  from pass_fold_other[OF nin(1) hb, of env "[]"] s1 have
    b1: "bystander c w w1" "hb_inv (sv_heartbeats w1)" "c \<notin> fst ` set fs1" by auto
  let ?k = "consecutive_misses c (sv_heartbeats w1) + 1"
  let ?w1 = "w1\<lparr>sv_heartbeats := set_misses c ?k (sv_heartbeats w1)\<rparr>"
  let ?w2 = "supervisor_on_failure env c ''heartbeat_timeout'' ?w1"
  let ?w3 = "?w2\<lparr>sv_heartbeats := set_misses c 0 (sv_heartbeats ?w2)\<rparr>"
  have k: "0 \<le> ?k" using consecutive_misses_nonneg[OF b1(2), of c] by simp
  have f1: "fails_now (se_now env) (sv_heartbeats w1) c"
    using fails_now_bystander[OF b1(1)] fails by simp
  have s2: "pass_step env c (fs1, w1) = (fs1 @ [(c, ''heartbeat_timeout'')], ?w3)"
    using f1 by (simp add: pass_step_def Let_def fails_now_def)
  have r1: "restartable c M ?w1" using restartable_bystander[OF r b1(1)] k by (rule restartable_set_misses)
  have a1: "attempts c ?w1 = attempts c w" using b1(1) by (simp add: bystander_def attempts_def)
  have r2: "restartable c M ?w2" "attempts c ?w2 = attempts c w + 1"
    using on_failure_restartable[OF r1] a a1 by auto
  have r3: "restartable c M ?w3" using r2(1) by (rule restartable_set_misses) simp
  have a3: "attempts c ?w3 = attempts c w + 1" using r2(2) by (simp add: attempts_def)
  obtain fs4 w4 where s4: "fold (pass_step env) ys (fs1 @ [(c, ''heartbeat_timeout'')], ?w3) = (fs4, w4)"
    by (metis surj_pair)
  have "hb_inv (sv_heartbeats ?w3)" using r3 by (simp add: restartable_def)
  from pass_fold_other[OF nin(2) this, of env "fs1 @ [(c, ''heartbeat_timeout'')]"] s4
  obtain more2 where m: "bystander c ?w3 w4" "fs4 = (fs1 @ [(c, ''heartbeat_timeout'')]) @ more2"
    "c \<notin> fst ` set more2" by auto
  have "heartbeat_pass env w = (fs1 @ (c, ''heartbeat_timeout'') # more2, w4)"
    using s1 s2 s4 m(2) by (simp add: heartbeat_pass_fold cs)
  moreover have "restartable c M w4" by (rule restartable_bystander[OF r3 m(1)])
  moreover have "attempts c w4 = attempts c w + 1" using m(1) a3 by (simp add: bystander_def)
  ultimately show thesis using that b1(3) m(3) by blast
qed

lemma handle_failures_split:
  "handle_failures env (xs @ (c, reason) # ys) w =
     handle_failures env ys (supervisor_on_failure env c reason (handle_failures env xs w))"
  by (simp add: handle_failures_def)

text \<open>An engine under a policy with one attempt, silent since time 0, and a clock at 20 seconds.\<close>

definition demo_policy :: recovery_policy where
  "demo_policy = \<lparr>pol_enabled = True, pol_max_attempts = Some 1, pol_actions = [''restart'', ''isolate'']\<rparr>"

definition demo_system :: system where
  "demo_system =
     \<lparr>rm_default_max_attempts = 3, rm_policies = [(''llm'', demo_policy)], rm_attempts = [],
      rm_results = [], rm_factories = [''llm''], rm_processes = Some new_process_manager,
      rm_event_bus = False, rm_events = [], rm_metrics = None,
      sv_heartbeats = snd (hb_beat 0 ''llm'' HEALTHY (new_heartbeat_manager True 5 15 1)),
      sv_health = [''llm''], sv_isolated = [], sv_recent = [], sv_alerts = [], en_engines = [''llm''],
      en_states = [], en_graph = new_graph ''raise'' True, en_breakers = [], en_phase = RUNNING,
      en_event_bus = False, en_recoveries = 0, en_failures = 0\<rparr>"

definition demo_env :: system_env where
  "demo_env = \<lparr>se_now = 20000000, se_alive = (\<lambda>_. False), se_bus_running = False,
               se_probe = (\<lambda>_. HEALTHY), se_system_check = HEALTHY, se_start = (\<lambda>_. StartReturns)\<rparr>"

lemma demo_system_facts:
  "restartable ''llm'' 1 demo_system" "attempts ''llm'' demo_system = 0"
  "fails_now (se_now demo_env) (sv_heartbeats demo_system) ''llm''" "isolation_inv demo_system"
proof -
  have "hb_inv (new_heartbeat_manager True 5 15 1)" by (simp add: hb_inv_def new_heartbeat_manager_def)
  then have i: "hb_inv (snd (hb_beat 0 ''llm'' HEALTHY (new_heartbeat_manager True 5 15 1)))"
    by (rule hb_beat_inv)
  show "restartable ''llm'' 1 demo_system" "isolation_inv demo_system"
    using i
    by (simp_all add: restartable_def isolation_inv_def demo_system_def demo_policy_def process_known_def
        get_optional_def new_process_manager_def hb_beat_def hb_register_def new_heartbeat_manager_def Let_def)
  show "attempts ''llm'' demo_system = 0" by (simp add: attempts_def demo_system_def)
  show "fails_now (se_now demo_env) (sv_heartbeats demo_system) ''llm''"
    by (simp add: fails_now_def demo_env_def demo_system_def hb_defs new_heartbeat_manager_def total_seconds_def)
qed

lemma check_once_restartable:
  assumes "restartable c M w" "attempts c w + 1 \<le> M"
    and "fails_now (se_now env) (sv_heartbeats w) c"
    and "\<forall>d. se_probe env d = HEALTHY" "se_system_check env = HEALTHY"
  shows "attempts c (snd (check_once env w)) = attempts c w + 2 \<and>
    (c \<in> set (sv_isolated (snd (check_once env w))) \<longleftrightarrow> attempts c w + 1 = M)"
proof -
  obtain more1 more2 w1 where p: "heartbeat_pass env w = (more1 @ (c, ''heartbeat_timeout'') # more2, w1)"
    "c \<notin> fst ` set more1" "c \<notin> fst ` set more2" "restartable c M w1" "attempts c w1 = attempts c w + 1"
    by (rule heartbeat_pass_restartable[OF assms(1,2,3)])
  let ?w2 = "handle_failures env more1 w1"
  let ?w3 = "supervisor_on_failure env c ''heartbeat_timeout'' ?w2"
  have b2: "bystander c w1 ?w2" by (rule handle_failures_other[OF p(2)])
  have r2: "restartable c M ?w2" by (rule restartable_bystander[OF p(4) b2])
  have a2: "attempts c ?w2 = attempts c w + 1" using b2 p(5) by (simp add: bystander_def)
  have b3: "bystander c ?w3 (handle_failures env more2 ?w3)" by (rule handle_failures_other[OF p(3)])
  have none: "health_failures env v = []" for v
    using assms(4,5) by (auto simp: health_failures_def health_checks_def filter_empty_conv)
  have e: "snd (check_once env w) = handle_failures env more2 ?w3"
    by (simp add: check_once_def p(1) none handle_failures_split) (simp add: handle_failures_def)
  have "attempts c ?w3 = attempts c w + 2 \<and> (c \<in> set (sv_isolated ?w3) \<longleftrightarrow> attempts c w + 1 = M)"
  proof (cases "attempts c w + 2 \<le> M")
    case True
    with on_failure_restartable[OF r2, of env "''heartbeat_timeout''"] a2 show ?thesis
      by (auto simp: restartable_def)
  next
    case False
    with on_failure_exhausted[OF r2, of env "''heartbeat_timeout''"] a2 assms(2) show ?thesis by auto
  qed
  then show ?thesis using b3 unfolding e by (simp add: bystander_def)
qed

lemma timeout_demo: "''llm'' \<in> set (sv_isolated (snd (check_once demo_env demo_system)))"
  using check_once_restartable[OF demo_system_facts(1) _ demo_system_facts(3)] demo_system_facts(2)
  by (simp add: demo_env_def)

section \<open>Properties\<close>

text \<open>C1: one heartbeat timeout of a component makes two recovery attempts in the same
  supervision pass, because the heartbeat manager already called the supervisor back before
  the supervisor handles the list of failures.  So a component whose restart works is
  isolated in the very pass that restarted it as soon as its limit leaves one attempt only.\<close>

theorem timeout_recovers_twice:
  assumes "restartable c M w" "attempts c w + 1 \<le> M"
    and "fails_now (se_now env) (sv_heartbeats w) c"
    and "\<forall>d. se_probe env d = HEALTHY" "se_system_check env = HEALTHY"
  shows "attempts c (snd (check_once env w)) = attempts c w + 2 \<and>
    (c \<in> set (sv_isolated (snd (check_once env w))) \<longleftrightarrow> attempts c w + 1 = M)"
  by (rule check_once_restartable[OF assms])

theorem timeout_recovers_twice_witness:
  "attempts ''llm'' (snd (check_once demo_env demo_system)) = 2 \<and>
   ''llm'' \<in> set (sv_isolated (snd (check_once demo_env demo_system)))"
  using timeout_recovers_twice[OF demo_system_facts(1) _ demo_system_facts(3)] demo_system_facts(2)
  by (simp add: demo_env_def)

text \<open>The moves of the supervised system: a supervision pass, a round of the heartbeat sender,
  a failure report (the watchdog), an isolation and a re-admission.\<close>

inductive supervision_step :: "system \<Rightarrow> system \<Rightarrow> bool" where
  pass: "supervision_step w (snd (check_once env w))"
| beats: "supervision_step w (send_beats env w)"
| watchdog: "supervision_step w (snd (heartbeat_pass env w))"
| report: "supervision_step w (supervisor_on_failure env c reason w)"
| manual_isolate: "supervision_step w (isolate env c reason n w)"
| manual_unisolate: "supervision_step w (unisolate env c w)"

inductive_cases supervision_stepE: "supervision_step w w1"

text \<open>C2: an isolated component is never monitored: whatever sequence of supervision passes,
  beats, failure reports, isolations and re-admissions runs, a component that is isolated has
  neither a heartbeat record nor a health probe.\<close>

theorem isolated_never_monitored:
  assumes "supervision_step\<^sup>*\<^sup>* w w1" "isolation_inv w" "c \<in> set (sv_isolated w1)"
  shows "map_of (hm_beats (sv_heartbeats w1)) c = None \<and> c \<notin> set (sv_health w1)"
proof -
  have "isolation_inv w1" using assms(1,2)
    by (induction rule: rtranclp_induct) (auto elim!: supervision_stepE intro: inv_intros)
  with assms(3) show ?thesis by (simp add: isolation_inv_def)
qed

theorem isolated_never_monitored_witness:
  "''llm'' \<in> set (sv_isolated (send_beats demo_env (snd (check_once demo_env demo_system)))) \<and>
   map_of (hm_beats (sv_heartbeats (send_beats demo_env (snd (check_once demo_env demo_system))))) ''llm'' = None"
proof -
  let ?w = "send_beats demo_env (snd (check_once demo_env demo_system))"
  have "supervision_step\<^sup>*\<^sup>* demo_system ?w"
    using pass[of demo_system demo_env] beats[of _ demo_env] by (meson converse_rtranclp_into_rtranclp r_into_rtranclp)
  moreover have "''llm'' \<in> set (sv_isolated ?w)"
    using timeout_demo by (simp add: send_beats_def)
  ultimately show ?thesis using isolated_never_monitored[OF _ demo_system_facts(4)] by blast
qed

text \<open>A manual \<^verbatim>\<open>recover_engine\<close> of an isolated engine whose policy restarts it puts the
  engine back under heartbeat monitoring although it stays isolated, so its next timeout is
  detected and then ignored.\<close>

theorem manual_recovery_breaks_isolation:
  assumes "isolation_inv w" "c \<in> set (sv_isolated w)" "c \<in> set (en_engines w)" "c \<in> set (rm_factories w)"
    and "\<not> process_known c w" "map_of (rm_policies w) c = Some p" "pol_enabled p"
    and "pol_max_attempts p = Some M" "pol_actions p = ''restart'' # as" "attempts c w + 1 \<le> M"
  shows "c \<in> set (sv_isolated (snd (recover_engine env c w))) \<and>
    map_of (hm_beats (sv_heartbeats (snd (recover_engine env c w)))) c \<noteq> None"
proof -
  obtain r w1 where rec: "recover (wired_env (se_now env) (se_alive env)) c w = (r, w1)"
    by (metis surj_pair)
  have iso: "sv_isolated w1 = sv_isolated w" using recover_frame[OF rec] by (simp add: frame_defs)
  have none: "map_of (hm_beats (sv_heartbeats w)) c = None" and pos: "0 < hm_interval (sv_heartbeats w)"
    using assms(1,2) by (auto simp: isolation_inv_def hb_inv_def)
  let ?w = "w\<lparr>rm_attempts := AList.update c (attempts c w + 1) (rm_attempts w)\<rparr>"
  obtain b m where beat: "hb_beat (se_now env) c HEALTHY (sv_heartbeats w) = (Inr b, m)"
    "map_of (hm_beats m) c \<noteq> None"
    using none pos by (auto simp: hb_beat_def hb_register_def Let_def)
  have np: "(case rm_processes w of None \<Rightarrow> True | Some pm \<Rightarrow> get_optional c pm = None)"
    using assms(5) by (auto simp: process_known_def split: option.splits)
  have "restart_action (wired_env (se_now env) (se_alive env)) c ?w = (True, ?w\<lparr>sv_heartbeats := m\<rparr>)"
    using np assms(3,4) beat
    by (auto simp: restart_action_def wired_env_def restart_engine_def split: option.splits)
  then have "sv_heartbeats w1 = m"
    using rec assms(6-10)
    by (auto simp: recover_def attempt_recovery_def policy_for_def execute_policy_def run_action_def
        record_outcome_def Let_def split: option.splits)
  with iso beat(2) assms(2) rec show ?thesis by (simp add: recover_engine_def)
qed

theorem manual_recovery_breaks_isolation_witness:
  "\<exists>w. ''llm'' \<in> set (sv_isolated w) \<and> isolation_inv w \<and>
     map_of (hm_beats (sv_heartbeats (snd (recover_engine demo_env ''llm'' w)))) ''llm'' \<noteq> None"
proof -
  let ?w = "isolate demo_env ''llm'' ''manual'' None demo_system"
  have i: "isolation_inv ?w" using demo_system_facts(4) by (rule isolate_inv)
  have "map_of (rm_policies ?w) ''llm'' = Some demo_policy"
    "''llm'' \<in> set (en_engines ?w)" "''llm'' \<in> set (rm_factories ?w)" "\<not> process_known ''llm'' ?w"
    using isolate_frame(5)[of demo_system demo_env "''llm''" "''manual''" None]
    by (simp_all add: same_policies_def)
       (simp_all add: demo_system_def process_known_def get_optional_def new_process_manager_def)
  moreover have "attempts ''llm'' ?w + 1 \<le> 1" by (simp add: attempts_def demo_system_def)
  ultimately show ?thesis
    using manual_recovery_breaks_isolation[OF i, of "''llm''" demo_policy 1 "[''isolate'']" demo_env] i
    by (intro exI[of _ ?w]) (simp add: demo_policy_def)
qed

lemma on_failure_health: "set (sv_health (supervisor_on_failure env c reason w)) \<subseteq> set (sv_health w)"
proof -
  have "sv_health w1 = sv_health w" if "recover (wired_env now al) c w = (r, w1)" for r w1 w now al
    using recover_frame[OF that] by (simp add: frame_defs)
  then show ?thesis
    by (auto simp: supervisor_on_failure_def supervisor_recover_def Let_def split: prod.splits if_splits)
qed

lemma handle_failures_health: "set (sv_health (handle_failures env fs w)) \<subseteq> set (sv_health w)"
  unfolding handle_failures_def
proof (induction fs arbitrary: w)
  case (Cons f fs)
  with on_failure_health[of env "fst f" "snd f" w] show ?case by (fastforce simp: case_prod_unfold)
qed simp

lemma heartbeat_pass_health: "set (sv_health (snd (heartbeat_pass env w))) \<subseteq> set (sv_health w)"
proof -
  have s: "set (sv_health (snd (pass_step env c (fs, w)))) \<subseteq> set (sv_health w)" for c fs w
    using on_failure_health[of env c _ "w\<lparr>sv_heartbeats := _\<rparr>"]
    by (simp add: pass_step_def Let_def)
  have "set (sv_health (snd (fold (pass_step env) cs (fs, w)))) \<subseteq> set (sv_health w)" for cs fs w
  proof (induction cs arbitrary: fs w)
    case (Cons c cs)
    obtain fs1 w1 where p: "pass_step env c (fs, w) = (fs1, w1)" by (metis surj_pair)
    from Cons.IH[of fs1 w1] s[of c fs w] p show ?case by auto
  qed simp
  then show ?thesis by (simp add: heartbeat_pass_fold)
qed

lemma check_once_health: "set (sv_health (snd (check_once env w))) \<subseteq> set (sv_health w)"
  using handle_failures_health heartbeat_pass_health
  by (simp add: check_once_def Let_def case_prod_unfold) (meson order_trans)

text \<open>re-admission is partial: after an isolation and \<^verbatim>\<open>unisolate\<close> the component is not
  isolated and its attempts are reset, but no later supervision pass ever probes its health
  again, since nothing registers it with the health monitor.\<close>

theorem unisolate_leaves_health_unmonitored:
  "c \<notin> set (sv_isolated (unisolate env c (isolate env2 c reason n w))) \<and>
   attempts c (unisolate env c (isolate env2 c reason n w)) = 0 \<and>
   c \<notin> set (sv_health (fold (\<lambda>e w. snd (check_once e w)) envs (unisolate env c (isolate env2 c reason n w))))"
proof -
  have "set (sv_health (fold (\<lambda>e w. snd (check_once e w)) envs v)) \<subseteq> set (sv_health v)" for v
  proof (induction envs arbitrary: v)
    case (Cons e envs)
    from Cons.IH[of "snd (check_once e v)"] check_once_health[of e v] show ?case by auto
  qed simp
  then have "set (sv_health (fold (\<lambda>e w. snd (check_once e w)) envs (unisolate env c (isolate env2 c reason n w))))
      \<subseteq> set (sv_health (unisolate env c (isolate env2 c reason n w)))" .
  moreover have "c \<notin> set (sv_health (unisolate env c (isolate env2 c reason n w)))"
    by (simp add: unisolate_def Let_def reset_attempts_def)
  ultimately show ?thesis
    by (auto simp: unisolate_def Let_def reset_attempts_def attempts_def publish_runtime_event_def)
qed

section \<open>The alert log\<close>

definition alert_key :: "alert \<Rightarrow> name" where
  "alert_key r = (if al_component r = [] then ''(unknown)'' else al_component r)"

lemma latest_alerts_lookup:
  "map_of (latest_alerts records) c = List.find (\<lambda>r. alert_key r = c) (rev records)"
proof (induction records rule: rev_induct)
  case (snoc r records)
  then show ?case by (auto simp: latest_alerts_def alert_key_def)
qed (simp add: latest_alerts_def)

lemma latest_alerts_ok: "dict_ok (latest_alerts records)"
proof -
  have "dict_ok d \<Longrightarrow> dict_ok (fold (\<lambda>r d. AList.update (alert_key r) r d) records d)" for d :: "(name, alert) dict"
    by (induction records arbitrary: d) auto
  from this[of "[]"] show ?thesis by (simp add: latest_alerts_def alert_key_def)
qed

text \<open>A component is among the open alerts exactly when the last record about it within the
  newest \<^verbatim>\<open>limit\<close> records is an \<^verbatim>\<open>open\<close> record.  So repeated isolations give one alert, a
  resolution removes it, and an unresolved alert with no record in that window is lost.\<close>

theorem open_alerts_latest_record_wins:
  "c \<in> fst ` set (open_alerts limit records) \<longleftrightarrow>
     (\<exists>pre r post. read_alerts limit records = pre @ r # post \<and> alert_key r = c \<and> al_open r \<and>
        (\<forall>q \<in> set post. alert_key q \<noteq> c))"
proof -
  let ?rs = "read_alerts limit records"
  have "c \<in> fst ` set (open_alerts limit records) \<longleftrightarrow> (\<exists>r. map_of (latest_alerts ?rs) c = Some r \<and> al_open r)"
    using latest_alerts_ok[of ?rs] by (force simp: open_alerts_def)
  also have "\<dots> \<longleftrightarrow> (\<exists>r ys zs. rev ?rs = ys @ r # zs \<and> alert_key r = c \<and> (\<forall>y \<in> set ys. alert_key y \<noteq> c) \<and> al_open r)"
    by (auto simp: latest_alerts_lookup find_Some_split)
  also have "\<dots> \<longleftrightarrow> (\<exists>pre r post. ?rs = pre @ r # post \<and> alert_key r = c \<and> al_open r \<and>
        (\<forall>q \<in> set post. alert_key q \<noteq> c))" (is "?A \<longleftrightarrow> ?B")
  proof
    assume ?A
    then obtain r ys zs where "rev ?rs = ys @ r # zs" "alert_key r = c" "\<forall>y \<in> set ys. alert_key y \<noteq> c" "al_open r"
      by blast
    moreover from this(1) have "?rs = rev zs @ r # rev ys" by (metis append.assoc append_Cons append_Nil rev.simps(2) rev_append rev_rev_ident)
    ultimately show ?B by (intro exI[of _ "rev zs"] exI[of _ r] exI[of _ "rev ys"]) simp
  next
    assume ?B
    then obtain pre r post where "?rs = pre @ r # post" "alert_key r = c" "al_open r"
      "\<forall>q \<in> set post. alert_key q \<noteq> c" by blast
    then show ?A by (intro exI[of _ r] exI[of _ "rev post"] exI[of _ "rev pre"]) simp
  qed
  finally show ?thesis .
qed

theorem open_alerts_latest_record_wins_witness:
  "''llm'' \<in> fst ` set (open_alerts 2 (record_alert_open 1 ''llm'' ''x'' None [])) \<and>
   ''llm'' \<notin> fst ` set (open_alerts 2 (record_alert_open 3 ''db'' ''y'' None (record_alert_open 2 ''db'' ''y'' None
      (record_alert_open 1 ''llm'' ''x'' None []))))"
proof
  show "''llm'' \<in> fst ` set (open_alerts 2 (record_alert_open 1 ''llm'' ''x'' None []))"
    unfolding open_alerts_latest_record_wins
    by (rule exI[of _ "[]"]) (simp add: record_alert_open_def read_alerts_def alert_key_def)
  show "''llm'' \<notin> fst ` set (open_alerts 2 (record_alert_open 3 ''db'' ''y'' None
      (record_alert_open 2 ''db'' ''y'' None (record_alert_open 1 ''llm'' ''x'' None []))))"
    unfolding open_alerts_latest_record_wins
    by (auto simp: record_alert_open_def read_alerts_def alert_key_def Cons_eq_append_conv)
qed

text \<open>C10: From fresh counters, attempt number \<^verbatim>\<open>i + 1\<close> of a component under an enabled policy of its own with
  a maximum of \<^verbatim>\<open>M\<close> attempts runs the actions of the policy, and its result is what they came to, while
  \<^verbatim>\<open>i + 1\<close> is at most \<^verbatim>\<open>M\<close>.  Every later attempt runs none: it leaves the processes, the events, the factories
  and the engines as they were and returns the failure that says so.  Each attempt leaves one result.\<close>

theorem recovery_attempts_bounded:
  assumes "map_of (rm_policies w) c = Some p" "pol_enabled p" "pol_max_attempts p = Some M"
    and "attempts c w = 0" "env = wired_env now alive" "recoveries env c k w = (rs, w1)"
  shows "results c w1 = results c w @ rs \<and> length rs = k \<and>
    (\<forall>i < k. rr_attempts (rs ! i) = int i + 1 \<and>
      (if int i + 1 \<le> M
       then let wi = snd (recoveries env c i w);
                (taken, v) = run_actions env c (pol_actions p) [] (wi\<lparr>rm_attempts := AList.update c (int i + 1) (rm_attempts wi)\<rparr>)
            in rr_actions_taken (rs ! i) = taken \<and> (rr_success (rs ! i) \<longleftrightarrow> taken \<noteq> []) \<and>
               recovery_host_of (snd (recoveries env c (Suc i) w)) = recovery_host_of v
       else rs ! i = failed_result env c (int i + 1) (MaxAttemptsExceeded M (pol_actions p)) \<and>
         recovery_host_of (snd (recoveries env c (Suc i) w)) = recovery_host_of (snd (recoveries env c i w))))"
  using wired.recoveries_by_policy[OF assms(1-3) assms(6)[unfolded assms(5)], unfolded assms(4) add_0]
    wired.recoveries_policies[OF assms(6)[unfolded assms(5)]]
  unfolding assms(5) by blast

theorem recovery_attempts_bounded_witness:
  "\<exists>rs w1. recoveries (wired_env 0 (\<lambda>_. False)) ''llm'' 3 demo_system = (rs, w1) \<and>
     rs ! 1 = failed_result (wired_env 0 (\<lambda>_. False)) ''llm'' 2 (MaxAttemptsExceeded 1 (pol_actions demo_policy)) \<and>
     rs ! 2 = failed_result (wired_env 0 (\<lambda>_. False)) ''llm'' 3 (MaxAttemptsExceeded 1 (pol_actions demo_policy))"
proof -
  obtain rs w1 where r: "recoveries (wired_env 0 (\<lambda>_. False)) ''llm'' 3 demo_system = (rs, w1)"
    by (metis surj_pair)
  have "map_of (rm_policies demo_system) ''llm'' = Some demo_policy" by (simp add: demo_system_def)
  note e = recovery_attempts_bounded[OF this _ _ demo_system_facts(2) refl r, of 1, THEN conjunct2, THEN conjunct2, rule_format]
  show ?thesis using e[of 1] e[of 2] r by (simp add: demo_policy_def)
qed

end
