(* ===== verification/JobScheduler.thy ===== *)
theory JobScheduler
  imports Prelude
begin

text \<open>
  The scheduler of runtime jobs (\<^verbatim>\<open>runtime/scheduler.py\<close>).  The environment gives the clock,
  the outcome of a handler (the error it raised, if any; handlers do not call the scheduler
  back) and the third-party cron iterator; one reading of the clock serves a whole tick.  An
  instant is a number of microseconds since the first instant of year 1, and an addition
  whose result is no \<^verbatim>\<open>datetime\<close> raises.  The advance of a recurring job is a loop that may
  not end: it is a partial function, \<^verbatim>\<open>None\<close> is a loop that never returns.  The parameters
  of a job and the event subscription are left out: the merged parameters never reach the
  handler in the code either.
\<close>

datatype JobKind = ONE_TIME | RECURRING | CRON | DEPENDENCY | EVENT

datatype JobStatus = JPENDING | JRUNNING | JCOMPLETED | JFAILED | JSKIPPED

record job =
  j_kind :: JobKind
  j_scheduled_at :: "time option"
  j_interval_seconds :: "rat option"
  j_cron :: "string option"
  j_depends_on :: "name list"
  j_event_type :: "string option"
  j_enabled :: bool
  j_status :: JobStatus
  j_last_run :: "time option"
  j_next_run :: "time option"
  j_run_count :: nat
  j_max_runs :: nat
  j_error :: "string option"

record job_scheduler =
  sc_interval_seconds :: rat
  sc_jobs :: "(name, job) dict"
  sc_next_run :: "(name, time) dict"
  sc_running :: "name list"
  sc_executed :: nat
  sc_failed :: nat

record job_env =
  je_now :: time
  je_handler :: "name \<Rightarrow> string option"
  je_cron_next :: "(string \<Rightarrow> time \<Rightarrow> time option) option"

datatype job_error = JobAlreadyRegistered name | CroniterRequired name | UnknownJob name | TimeOverflow

definition new_scheduler :: "rat \<Rightarrow> job_scheduler" where
  "new_scheduler tick =
     \<lparr>sc_interval_seconds = tick, sc_jobs = [], sc_next_run = [], sc_running = [],
      sc_executed = 0, sc_failed = 0\<rparr>"

text \<open>\<^verbatim>\<open>timedelta(seconds=s)\<close> in microseconds.\<close>

definition seconds_delta :: "rat \<Rightarrow> time" where
  "seconds_delta s = round_half_even (s * 1000000)"

definition schedule_initial :: "time \<Rightarrow> name \<Rightarrow> job \<Rightarrow> (name, time) dict \<Rightarrow> job \<times> (name, time) dict" where
  "schedule_initial now n j next_runs =
     (case j_scheduled_at j of
        Some t \<Rightarrow> (j\<lparr>j_next_run := Some t\<rparr>, AList.update n t next_runs)
      | None \<Rightarrow>
          if j_kind j \<in> {RECURRING, CRON, ONE_TIME} then (j\<lparr>j_next_run := Some now\<rparr>, AList.update n now next_runs)
          else if j_kind j = DEPENDENCY then (j\<lparr>j_next_run := Some now\<rparr>, AList.update n now next_runs)
          else (j, next_runs))"

definition register_job ::
  "job_env \<Rightarrow> name \<Rightarrow> JobKind \<Rightarrow> time option \<Rightarrow> rat option \<Rightarrow> string option \<Rightarrow> name list \<Rightarrow>
   string option \<Rightarrow> nat \<Rightarrow> bool \<Rightarrow> job_scheduler \<Rightarrow> job_error + job_scheduler"
where
  "register_job env n kind scheduled_at interval cron depends_on event_type max_runs enabled s =
     (if n \<in> set (keys (sc_jobs s)) then Inl (JobAlreadyRegistered n)
      else if kind = CRON \<and> je_cron_next env = None then Inl (CroniterRequired n)
      else let j = \<lparr>j_kind = kind, j_scheduled_at = scheduled_at, j_interval_seconds = interval,
                    j_cron = cron, j_depends_on = depends_on, j_event_type = event_type,
                    j_enabled = enabled, j_status = JPENDING, j_last_run = None, j_next_run = None,
                    j_run_count = 0, j_max_runs = max_runs, j_error = None\<rparr>;
               (j1, nr) = schedule_initial (je_now env) n j (sc_next_run s)
           in Inr (s\<lparr>sc_jobs := AList.update n j1 (sc_jobs s), sc_next_run := nr\<rparr>))"

definition unregister_job :: "name \<Rightarrow> job_scheduler \<Rightarrow> bool \<times> job_scheduler" where
  "unregister_job n s =
     (n \<in> set (keys (sc_jobs s)),
      s\<lparr>sc_jobs := AList.delete n (sc_jobs s), sc_next_run := AList.delete n (sc_next_run s),
        sc_running := removeAll n (sc_running s)\<rparr>)"

definition run_now :: "job_env \<Rightarrow> name \<Rightarrow> job_scheduler \<Rightarrow> (job_error + bool) \<times> job_scheduler" where
  "run_now env n s =
     (case map_of (sc_jobs s) n of
        None \<Rightarrow> (Inl (UnknownJob n), s)
      | Some j \<Rightarrow>
          if \<not> j_enabled j then (Inr False, s)
          else if n \<in> set (sc_running s) then (Inr False, s)
          else case je_handler env n of
                 None \<Rightarrow>
                   (Inr True,
                    s\<lparr>sc_jobs := AList.update n (j\<lparr>j_status := JCOMPLETED, j_last_run := Some (je_now env),
                                                   j_run_count := j_run_count j + 1\<rparr>) (sc_jobs s),
                      sc_executed := sc_executed s + 1\<rparr>)
               | Some err \<Rightarrow>
                   (Inr False,
                    s\<lparr>sc_jobs := AList.update n (j\<lparr>j_status := JFAILED, j_error := Some err,
                                                   j_last_run := Some (je_now env),
                                                   j_run_count := j_run_count j + 1\<rparr>) (sc_jobs s),
                      sc_failed := sc_failed s + 1\<rparr>))"

definition job_due :: "time \<Rightarrow> name \<Rightarrow> job \<Rightarrow> job_scheduler \<Rightarrow> bool" where
  "job_due now n j s =
     (if \<not> j_enabled j then False
      else if j_max_runs j > 0 \<and> j_run_count j \<ge> j_max_runs j then False
      else if j_kind j = DEPENDENCY
      then list_all (\<lambda>d. case map_of (sc_jobs s) d of None \<Rightarrow> False | Some dj \<Rightarrow> j_status dj = JCOMPLETED)
             (j_depends_on j)
      else case map_of (sc_next_run s) n of None \<Rightarrow> False | Some t \<Rightarrow> now \<ge> t)"

text \<open>The instants a \<^verbatim>\<open>datetime\<close> can hold, and the addition of a \<^verbatim>\<open>timedelta\<close>.  A
  \<^verbatim>\<open>timedelta\<close> too large to be one overflows where it is built, next to the addition.\<close>

definition TIME_MIN :: time where "TIME_MIN = 0"

definition TIME_MAX :: time where "TIME_MAX = 315537897599999999"

definition is_datetime :: "time \<Rightarrow> bool" where
  "is_datetime t \<longleftrightarrow> TIME_MIN \<le> t \<and> t \<le> TIME_MAX"

definition add_delta :: "time \<Rightarrow> time \<Rightarrow> job_error + time" where
  "add_delta t d = (if is_datetime (t + d) then Inr (t + d) else Inl TimeOverflow)"

partial_function (option) advance_next_run :: "time \<Rightarrow> time \<Rightarrow> time \<Rightarrow> (job_error + time) option" where
  "advance_next_run step now next_run =
     (if next_run \<le> now
      then case add_delta next_run step of Inl e \<Rightarrow> Some (Inl e) | Inr t \<Rightarrow> advance_next_run step now t
      else Some (Inr next_run))"

declare advance_next_run.simps [code]

text \<open>\<^verbatim>\<open>_mark_run\<close>; \<^verbatim>\<open>None\<close> when the loop of a recurring job never ends.  An overflow is raised
  before anything is written.\<close>

definition mark_run :: "job_env \<Rightarrow> name \<Rightarrow> job \<Rightarrow> job_scheduler \<Rightarrow> (job_error + job_scheduler) option" where
  "mark_run env n j s =
     (let now = je_now env;
          set_next = (\<lambda>t. s\<lparr>sc_next_run := AList.update n t (sc_next_run s),
                            sc_jobs := AList.update n (j\<lparr>j_next_run := Some t\<rparr>) (sc_jobs s)\<rparr>);
          clear = s\<lparr>sc_next_run := AList.delete n (sc_next_run s),
                    sc_jobs := AList.update n (j\<lparr>j_next_run := None\<rparr>) (sc_jobs s)\<rparr>;
          fallback = map_sum id set_next (add_delta now (seconds_delta (sc_interval_seconds s)))
      in case j_kind j of
           RECURRING \<Rightarrow>
             map_option (map_sum id set_next)
               (advance_next_run (seconds_delta (case j_interval_seconds j of None \<Rightarrow> 0 | Some i \<Rightarrow> i)) now
                  (dget now (sc_next_run s) n))
         | CRON \<Rightarrow>
             (case (je_cron_next env, j_cron j) of
                (Some next, Some c) \<Rightarrow>
                  if c = [] then Some fallback
                  else (case next c now of Some t \<Rightarrow> Some (Inr (set_next t)) | None \<Rightarrow> Some fallback)
              | _ \<Rightarrow> Some fallback)
         | DEPENDENCY \<Rightarrow> Some (Inr clear)
         | _ \<Rightarrow> Some (Inr clear))"

definition due_names :: "time \<Rightarrow> job_scheduler \<Rightarrow> name list" where
  "due_names now s =
     map fst (filter (\<lambda>(n, j). j_kind j \<noteq> EVENT \<and> job_due now n j s) (sc_jobs s))"

fun tick_jobs ::
  "job_env \<Rightarrow> name list \<Rightarrow> nat \<Rightarrow> job_scheduler \<Rightarrow> ((job_error + nat) \<times> job_scheduler) option"
where
  "tick_jobs env [] k s = Some (Inr k, s)"
| "tick_jobs env (n # ns) k s =
     (if map_of (sc_jobs s) n = None then tick_jobs env ns k s
      else let (r, s1) = run_now env n s
           in case map_of (sc_jobs s1) n of
                None \<Rightarrow> tick_jobs env ns k s1
              | Some j \<Rightarrow>
                  (case mark_run env n j s1 of
                     None \<Rightarrow> None
                   | Some (Inl e) \<Rightarrow> Some (Inl e, s1)
                   | Some (Inr s2) \<Rightarrow> tick_jobs env ns (if r = Inr True then k + 1 else k) s2))"

definition tick :: "job_env \<Rightarrow> job_scheduler \<Rightarrow> ((job_error + nat) \<times> job_scheduler) option" where
  "tick env s = tick_jobs env (due_names (je_now env) s) 0 s"

definition queue_sizes :: "job_scheduler \<Rightarrow> (JobStatus, nat) dict" where
  "queue_sizes s =
     fold (\<lambda>(n, j) d. AList.update (j_status j) (dget 0 d (j_status j) + 1) d) (sc_jobs s) []"

section \<open>The advance of a recurring job\<close>

text \<open>The first instant after \<^verbatim>\<open>now\<close> on the grid of \<^verbatim>\<open>t\<close>.\<close>

definition grid_after :: "time \<Rightarrow> time \<Rightarrow> time \<Rightarrow> time" where
  "grid_after step now t = t + ((now - t) div step + 1) * step"

lemma grid_after_step:
  assumes "0 < step" "t \<le> now"
  shows "grid_after step now t = (if t + step \<le> now then grid_after step now (t + step) else t + step)"
proof (cases "t + step \<le> now")
  case True
  have "(now - t) div step = (now - (t + step)) div step + 1"
    using assms div_add_self2[of step "now - (t + step)"] by (simp add: algebra_simps)
  with True show ?thesis by (simp add: grid_after_def algebra_simps)
next
  case False
  then have "(now - t) div step = 0" using assms by (intro div_pos_pos_trivial) auto
  with False show ?thesis by (simp add: grid_after_def)
qed

lemma grid_after_bounds:
  assumes "0 < step" "t \<le> now"
  shows "t + step \<le> grid_after step now t"
proof -
  have "0 \<le> (now - t) div step * step" using assms by (simp add: pos_imp_zdiv_nonneg_iff)
  then show ?thesis by (simp add: grid_after_def distrib_right)
qed

lemma advance_next_run_zero:
  assumes "is_datetime t" "t \<le> now"
  shows "advance_next_run 0 now t = None"
proof (rule ccontr)
  assume "advance_next_run 0 now t \<noteq> None"
  then obtain y where "advance_next_run 0 now t = Some y" by blast
  then have "\<not> (0 = (0::time) \<and> is_datetime t \<and> t \<le> now)"
    by (rule advance_next_run.raw_induct[where P = "\<lambda>step now t y. \<not> (step = 0 \<and> is_datetime t \<and> t \<le> now)", rotated])
       (fastforce simp: add_delta_def split: if_splits)
  with assms show False by blast
qed

lemma advance_next_run_negative:
  assumes "step < 0" "t \<le> now"
  shows "advance_next_run step now t = Some (Inl TimeOverflow)"
  using assms
proof (induction "nat (t - TIME_MIN)" arbitrary: t rule: less_induct)
  case less
  show ?case
  proof (cases "is_datetime (t + step)")
    case True
    then have "nat (t + step - TIME_MIN) < nat (t - TIME_MIN)" using less.prems by (simp add: is_datetime_def)
    then have "advance_next_run step now (t + step) = Some (Inl TimeOverflow)" using less.prems by (intro less) auto
    with True show ?thesis using less.prems by (subst advance_next_run.simps) (simp add: add_delta_def)
  next
    case False
    then show ?thesis using less.prems by (subst advance_next_run.simps) (simp add: add_delta_def)
  qed
qed

lemma advance_next_run_positive:
  assumes "0 < step" "t \<le> now" "TIME_MIN \<le> t"
  shows "advance_next_run step now t =
    Some (if grid_after step now t \<le> TIME_MAX then Inr (grid_after step now t) else Inl TimeOverflow)"
  using assms(2,3)
proof (induction "nat (now - t + 1)" arbitrary: t rule: less_induct)
  case less
  note g = grid_after_step[OF assms(1) less.prems(1)] grid_after_bounds[OF assms(1) less.prems(1)]
  show ?case
  proof (cases "is_datetime (t + step)")
    case False
    then have "TIME_MAX < t + step" using assms(1) less.prems by (simp add: is_datetime_def)
    with False g(2) show ?thesis using less.prems by (subst advance_next_run.simps) (simp add: add_delta_def)
  next
    case dt: True
    have e: "advance_next_run step now t = advance_next_run step now (t + step)"
      using dt less.prems by (subst advance_next_run.simps) (simp add: add_delta_def)
    show ?thesis
    proof (cases "t + step \<le> now")
      case True
      have "advance_next_run step now (t + step) =
          Some (if grid_after step now (t + step) \<le> TIME_MAX then Inr (grid_after step now (t + step)) else Inl TimeOverflow)"
        using True assms(1) less.prems by (intro less) simp_all
      with True e g(1) show ?thesis by simp
    next
      case False
      then have "advance_next_run step now (t + step) = Some (Inr (t + step))"
        by (simp add: advance_next_run.simps)
      with False e g(1) dt show ?thesis by (simp add: is_datetime_def)
    qed
  qed
qed

text \<open>What is known of an advance that ends.\<close>

lemma advance_next_run_result:
  assumes "advance_next_run step now t = Some y"
  shows "case y of
      Inl e \<Rightarrow> e = TimeOverflow \<and> t \<le> now
    | Inr t1 \<Rightarrow> now < t1 \<and> step dvd (t1 - t) \<and> (t \<le> now \<longrightarrow> t1 \<le> now + step) \<and> (now < t \<longrightarrow> t1 = t)"
  using assms
proof (rule advance_next_run.raw_induct[rotated])
  fix adv step now t y
  assume IH: "\<And>step now t y. adv step now t = Some y \<Longrightarrow> case y of
      Inl e \<Rightarrow> e = TimeOverflow \<and> t \<le> now
    | Inr t1 \<Rightarrow> now < t1 \<and> step dvd (t1 - t) \<and> (t \<le> now \<longrightarrow> t1 \<le> now + step) \<and> (now < t \<longrightarrow> t1 = t)"
    and adv: "(if t \<le> now then case add_delta t step of Inl e \<Rightarrow> Some (Inl e) | Inr t \<Rightarrow> adv step now t
      else Some (Inr t)) = Some y"
  show "case y of
      Inl e \<Rightarrow> e = TimeOverflow \<and> t \<le> now
    | Inr t1 \<Rightarrow> now < t1 \<and> step dvd (t1 - t) \<and> (t \<le> now \<longrightarrow> t1 \<le> now + step) \<and> (now < t \<longrightarrow> t1 = t)"
  proof (cases "t \<le> now \<and> is_datetime (t + step)")
    case False
    with adv show ?thesis by (auto simp: add_delta_def split: if_splits)
  next
    case True
    then have "adv step now (t + step) = Some y" using adv by (simp add: add_delta_def)
    from IH[OF this] show ?thesis
    proof (cases y)
      case (Inr t1)
      with \<open>adv step now (t + step) = Some y\<close> IH[of step now "t + step" y]
      have r: "now < t1" "step dvd (t1 - (t + step))" "t + step \<le> now \<longrightarrow> t1 \<le> now + step"
        "now < t + step \<longrightarrow> t1 = t + step" by auto
      have "step dvd (t1 - t)" using dvd_add[OF r(2) dvd_refl] by (simp add: algebra_simps)
      moreover have "t1 \<le> now + step" using r(3,4) True by (cases "t + step \<le> now") auto
      ultimately show ?thesis using r(1) True Inr by simp
    qed (use True in simp)
  qed
qed

section \<open>The invariant of the scheduler\<close>

definition sched_inv :: "job_scheduler \<Rightarrow> bool" where
  "sched_inv s \<longleftrightarrow> dict_ok (sc_jobs s) \<and> dict_ok (sc_next_run s) \<and>
     fst ` set (sc_next_run s) \<subseteq> fst ` set (sc_jobs s) \<and> sc_running s = [] \<and>
     (\<forall>(n, j) \<in> set (sc_jobs s). 0 < j_max_runs j \<longrightarrow> j_run_count j \<le> j_max_runs j)"

text \<open>Recurring jobs that can be advanced.\<close>

definition advances :: "job_scheduler \<Rightarrow> bool" where
  "advances s \<longleftrightarrow> (\<forall>(n, j) \<in> set (sc_jobs s). j_kind j = RECURRING \<longrightarrow>
     0 < seconds_delta (case j_interval_seconds j of None \<Rightarrow> 0 | Some i \<Rightarrow> i))"

lemma new_scheduler_inv [inv_intros]: "sched_inv (new_scheduler t)"
  by (simp add: sched_inv_def new_scheduler_def)

lemma schedule_initial_shape:
  "schedule_initial now n j nr = (j1, d) \<Longrightarrow>
   j_run_count j1 = j_run_count j \<and> (d = nr \<or> (\<exists>t. d = AList.update n t nr))"
  by (auto simp: schedule_initial_def split: option.splits if_splits)

lemma register_job_inv [inv_intros]:
  assumes inv: "sched_inv s" and r: "register_job env n k sa i c ds et mr en s = Inr s1"
  shows "sched_inv s1"
proof -
  obtain j0 j d where s1: "s1 = s\<lparr>sc_jobs := AList.update n j (sc_jobs s), sc_next_run := d\<rparr>"
    and si: "schedule_initial (je_now env) n j0 (sc_next_run s) = (j, d)" and "j_run_count j0 = 0"
    using r by (auto simp: register_job_def Let_def split: if_splits prod.splits)
  then have j: "j_run_count j = 0"
    and d: "d = sc_next_run s \<or> (\<exists>t. d = AList.update n t (sc_next_run s))"
    using schedule_initial_shape[OF si] by simp_all
  have mr: "\<forall>(n, j) \<in> set (sc_jobs s). 0 < j_max_runs j \<longrightarrow> j_run_count j \<le> j_max_runs j"
    using inv by (simp add: sched_inv_def)
  have jobs: "\<forall>(n, j) \<in> set (AList.update n j (sc_jobs s)). 0 < j_max_runs j \<longrightarrow> j_run_count j \<le> j_max_runs j"
    by (rule dict_all_update[OF mr]) (simp add: j)
  have dok: "dict_ok d" using d inv by (auto simp: sched_inv_def)
  have "fst ` set d \<subseteq> insert n (fst ` set (sc_next_run s))"
    using d by (elim disjE exE) (simp_all only: keys_set_update, blast+)
  moreover have "fst ` set (sc_next_run s) \<subseteq> fst ` set (sc_jobs s)" using inv by (simp add: sched_inv_def)
  ultimately have "fst ` set d \<subseteq> insert n (fst ` set (sc_jobs s))" by blast
  with jobs dok show ?thesis using inv by (simp add: sched_inv_def s1)
qed

lemma unregister_job_inv [inv_intros]: "sched_inv s \<Longrightarrow> sched_inv (snd (unregister_job n s))"
  by (auto simp: sched_inv_def unregister_job_def set_delete_iff)

text \<open>What a run followed by \<^verbatim>\<open>_mark_run\<close> does to a job that is due.\<close>

lemma run_now_job:
  assumes "map_of (sc_jobs s) n = Some j" "j_enabled j" "sc_running s = []"
  shows "\<exists>j1 s1. run_now env n s = (Inr (je_handler env n = None), s1) \<and>
    sc_jobs s1 = AList.update n j1 (sc_jobs s) \<and> sc_next_run s1 = sc_next_run s \<and> sc_running s1 = [] \<and>
    sc_interval_seconds s1 = sc_interval_seconds s \<and>
    j_run_count j1 = j_run_count j + 1 \<and> j_max_runs j1 = j_max_runs j \<and> j_kind j1 = j_kind j \<and>
    j_interval_seconds j1 = j_interval_seconds j \<and> j_enabled j1 = j_enabled j \<and>
    j_depends_on j1 = j_depends_on j \<and> j_cron j1 = j_cron j \<and>
    j_status j1 = (if je_handler env n = None then JCOMPLETED else JFAILED)"
  using assms by (cases "je_handler env n") (auto simp: run_now_def)

lemma map_sum_Inr: "map_sum f g x = Inr y \<longleftrightarrow> (\<exists>z. x = Inr z \<and> y = g z)"
  by (cases x) auto

lemma map_sum_Inl: "map_sum f g x = Inl y \<longleftrightarrow> (\<exists>z. x = Inl z \<and> y = f z)"
  by (cases x) auto

lemma mark_run_job:
  assumes "mark_run env n j s = Some (Inr s2)"
  shows "\<exists>t. sc_jobs s2 = AList.update n (j\<lparr>j_next_run := t\<rparr>) (sc_jobs s)"
    and "sc_next_run s2 = AList.delete n (sc_next_run s) \<or> (\<exists>x. sc_next_run s2 = AList.update n x (sc_next_run s))"
    and "sc_running s2 = sc_running s"
    and "sc_interval_seconds s2 = sc_interval_seconds s"
proof -
  have "(\<exists>t. s2 = s\<lparr>sc_next_run := AList.update n t (sc_next_run s),
                   sc_jobs := AList.update n (j\<lparr>j_next_run := Some t\<rparr>) (sc_jobs s)\<rparr>) \<or>
        s2 = s\<lparr>sc_next_run := AList.delete n (sc_next_run s),
               sc_jobs := AList.update n (j\<lparr>j_next_run := None\<rparr>) (sc_jobs s)\<rparr>"
    using assms
    by (cases "j_kind j") (auto simp: mark_run_def Let_def map_sum_Inr split: option.splits if_splits)
  then show "\<exists>t. sc_jobs s2 = AList.update n (j\<lparr>j_next_run := t\<rparr>) (sc_jobs s)"
    "sc_next_run s2 = AList.delete n (sc_next_run s) \<or> (\<exists>x. sc_next_run s2 = AList.update n x (sc_next_run s))"
    "sc_running s2 = sc_running s" "sc_interval_seconds s2 = sc_interval_seconds s"
    by fastforce+
qed

lemma update_same_keys: "map_of d n = Some v \<Longrightarrow> fst ` set (AList.update n w d) = fst ` set d"
  by (simp add: insert_absorb in_keys_iff_map_of)

lemma dict_value: "dict_ok d \<Longrightarrow> (n, v) \<in> set d \<longleftrightarrow> map_of d n = Some v"
  by simp

definition runnable :: "name \<Rightarrow> job_scheduler \<Rightarrow> bool" where
  "runnable n s \<longleftrightarrow> (\<forall>j. map_of (sc_jobs s) n = Some j \<longrightarrow>
     j_enabled j \<and> (0 < j_max_runs j \<longrightarrow> j_run_count j < j_max_runs j))"

definition same_job :: "job \<Rightarrow> job \<Rightarrow> bool" where
  "same_job j k \<longleftrightarrow> j_kind k = j_kind j \<and> j_interval_seconds k = j_interval_seconds j \<and>
     j_max_runs k = j_max_runs j \<and> j_enabled k = j_enabled j \<and> j_depends_on k = j_depends_on j \<and>
     j_cron k = j_cron j"

definition job_step :: "job \<Rightarrow> time" where
  "job_step j = seconds_delta (case j_interval_seconds j of None \<Rightarrow> 0 | Some i \<Rightarrow> i)"

lemma same_job_refl [simp]: "same_job j j"
  by (simp add: same_job_def)

lemma same_job_step: "same_job j k \<Longrightarrow> job_step k = job_step j"
  by (simp add: same_job_def job_step_def)

lemma mark_run_recurring:
  "j_kind j = RECURRING \<Longrightarrow> mark_run env n j s = Some (Inr s2) \<Longrightarrow>
   \<exists>t. advance_next_run (job_step j) (je_now env) (dget (je_now env) (sc_next_run s) n) = Some (Inr t) \<and>
     sc_next_run s2 = AList.update n t (sc_next_run s)"
  by (auto simp: mark_run_def job_step_def Let_def map_sum_Inr)

lemma tick_step_inv:
  assumes inv: "sched_inv s" and j: "map_of (sc_jobs s) n = Some j" and run: "runnable n s"
    and r: "run_now env n s = (r, s1)" and j1: "map_of (sc_jobs s1) n = Some j1"
    and m: "mark_run env n j1 s1 = Some (Inr s2)"
  shows "sched_inv s2" "d \<noteq> n \<Longrightarrow> map_of (sc_jobs s2) d = map_of (sc_jobs s) d"
    "d \<noteq> n \<Longrightarrow> dget (je_now env) (sc_next_run s2) d = dget (je_now env) (sc_next_run s) d"
    "j_kind j = RECURRING \<Longrightarrow> advance_next_run (job_step j) (je_now env) (dget (je_now env) (sc_next_run s) n) =
       Some (Inr (dget (je_now env) (sc_next_run s2) n))"
    "\<exists>j2. map_of (sc_jobs s2) n = Some j2 \<and> j_run_count j2 = j_run_count j + 1 \<and> same_job j j2"
    "sc_interval_seconds s2 = sc_interval_seconds s"
proof -
  have en: "j_enabled j" "0 < j_max_runs j \<Longrightarrow> j_run_count j < j_max_runs j"
    using run j by (auto simp: runnable_def)
  obtain k where s1: "sc_jobs s1 = AList.update n k (sc_jobs s)" "sc_next_run s1 = sc_next_run s"
      "sc_running s1 = []" "j_run_count k = j_run_count j + 1" "same_job j k"
      "sc_interval_seconds s1 = sc_interval_seconds s"
    using run_now_job[OF j en(1), of env] r inv by (auto simp: sched_inv_def same_job_def)
  have kj: "j1 = k" using j1 s1(1) by simp
  obtain t where s2: "sc_jobs s2 = AList.update n (k\<lparr>j_next_run := t\<rparr>) (sc_jobs s1)"
      "sc_next_run s2 = AList.delete n (sc_next_run s1) \<or> (\<exists>x. sc_next_run s2 = AList.update n x (sc_next_run s1))"
      "sc_running s2 = []" "sc_interval_seconds s2 = sc_interval_seconds s1"
    using mark_run_job[OF m] s1(3) kj by auto
  then show "sc_interval_seconds s2 = sc_interval_seconds s" using s1(6) by simp
  have jobs: "sc_jobs s2 = AList.update n (k\<lparr>j_next_run := t\<rparr>) (sc_jobs s)"
    using s2(1) s1(1) by simp
  have dok: "dict_ok (sc_jobs s)" "dict_ok (sc_next_run s)"
    and sub: "fst ` set (sc_next_run s) \<subseteq> fst ` set (sc_jobs s)"
    and mr: "\<forall>(n, j) \<in> set (sc_jobs s). 0 < j_max_runs j \<longrightarrow> j_run_count j \<le> j_max_runs j"
    using inv by (auto simp: sched_inv_def)
  have n: "n \<in> fst ` set (sc_jobs s)" using j by (simp add: in_keys_iff_map_of)
  have "fst ` set (sc_next_run s2) \<subseteq> insert n (fst ` set (sc_next_run s))"
    using s2(2) s1(2) by (elim disjE exE) (simp_all only: keys_set_update keys_set_delete, blast+)
  then have "fst ` set (sc_next_run s2) \<subseteq> fst ` set (sc_jobs s2)"
    using sub n unfolding jobs keys_set_update by blast
  moreover have "dict_ok (sc_next_run s2)" using s2(2) s1(2) dok(2) by auto
  moreover have "\<forall>(n, j) \<in> set (sc_jobs s2). 0 < j_max_runs j \<longrightarrow> j_run_count j \<le> j_max_runs j"
    unfolding jobs by (rule dict_all_update[OF mr]) (use en(2) s1(4,5) in \<open>auto simp: same_job_def\<close>)
  ultimately show "sched_inv s2" using s2(3) dok(1) by (simp add: sched_inv_def jobs)
  show "map_of (sc_jobs s2) d = map_of (sc_jobs s) d" if "d \<noteq> n" using that by (simp add: jobs)
  show "\<exists>j2. map_of (sc_jobs s2) n = Some j2 \<and> j_run_count j2 = j_run_count j + 1 \<and> same_job j j2"
    using s1(4,5) by (simp add: jobs same_job_def)
  show "dget (je_now env) (sc_next_run s2) d = dget (je_now env) (sc_next_run s) d" if "d \<noteq> n"
    using s2(2) s1(2) that by (auto simp: dget_delete)
  show "advance_next_run (job_step j) (je_now env) (dget (je_now env) (sc_next_run s) n) =
       Some (Inr (dget (je_now env) (sc_next_run s2) n))" if "j_kind j = RECURRING"
  proof -
    have "j_kind k = RECURRING" using that s1(5) by (simp add: same_job_def)
    then show ?thesis
      using mark_run_recurring[of j1 env n s1 s2] m kj s1(2) same_job_step[OF s1(5)] by auto
  qed
qed

text \<open>Names that may run at this moment, those among them whose advance never ends, and those
  whose next run is no \<^verbatim>\<open>datetime\<close>.\<close>

definition ready_at :: "time \<Rightarrow> job_scheduler \<Rightarrow> name \<Rightarrow> bool" where
  "ready_at now s n \<longleftrightarrow> runnable n s \<and>
     (\<forall>j. map_of (sc_jobs s) n = Some j \<longrightarrow> j_kind j = RECURRING \<longrightarrow> dget now (sc_next_run s) n \<le> now)"

definition stuck_job :: "job_scheduler \<Rightarrow> name \<Rightarrow> bool" where
  "stuck_job s n \<longleftrightarrow> (\<exists>j. map_of (sc_jobs s) n = Some j \<and> j_kind j = RECURRING \<and> job_step j = 0)"

definition cron_time :: "job_env \<Rightarrow> job \<Rightarrow> time option" where
  "cron_time env j =
     (case (je_cron_next env, j_cron j) of (Some nx, Some c) \<Rightarrow> if c = [] then None else nx c (je_now env) | _ \<Rightarrow> None)"

definition overflow_job :: "job_env \<Rightarrow> job_scheduler \<Rightarrow> name \<Rightarrow> bool" where
  "overflow_job env s n \<longleftrightarrow> (\<exists>j. map_of (sc_jobs s) n = Some j \<and>
     (j_kind j = RECURRING \<and>
        (job_step j < 0 \<or>
         0 < job_step j \<and> TIME_MAX < grid_after (job_step j) (je_now env) (dget (je_now env) (sc_next_run s) n)) \<or>
      j_kind j = CRON \<and> cron_time env j = None \<and>
        \<not> is_datetime (je_now env + seconds_delta (sc_interval_seconds s))))"

definition dated :: "time \<Rightarrow> job_scheduler \<Rightarrow> name \<Rightarrow> bool" where
  "dated now s n \<longleftrightarrow> (\<forall>j. map_of (sc_jobs s) n = Some j \<longrightarrow> j_kind j = RECURRING \<longrightarrow>
     is_datetime (dget now (sc_next_run s) n))"

lemma mark_run_outcome:
  assumes "sched_inv s" "map_of (sc_jobs s) n = Some j" "ready_at (je_now env) s n" "dated (je_now env) s n"
    and r: "run_now env n s = (r, s1)" and j1: "map_of (sc_jobs s1) n = Some j1"
  shows "if stuck_job s n then mark_run env n j1 s1 = None
    else if overflow_job env s n then mark_run env n j1 s1 = Some (Inl TimeOverflow)
    else \<exists>s2. mark_run env n j1 s1 = Some (Inr s2)"
proof -
  have "j_enabled j" using assms(2,3) by (auto simp: ready_at_def runnable_def)
  then obtain k where s1: "sc_jobs s1 = AList.update n k (sc_jobs s)" "sc_next_run s1 = sc_next_run s" "same_job j k"
      "sc_interval_seconds s1 = sc_interval_seconds s"
    using run_now_job[OF assms(2), of env] r assms(1) by (auto simp: sched_inv_def same_job_def)
  have k: "j1 = k" "job_step k = job_step j" "j_kind k = j_kind j" "j_cron k = j_cron j"
    using j1 s1(1) same_job_step[OF s1(3)] s1(3) by (simp_all add: same_job_def)
  consider (rec) "j_kind j = RECURRING" | (cron) "j_kind j = CRON" | (other) "j_kind j \<noteq> RECURRING" "j_kind j \<noteq> CRON"
    by blast
  then show ?thesis
  proof cases
    case rec
    let ?now = "je_now env" and ?t = "dget (je_now env) (sc_next_run s) n"
    have t: "?t \<le> ?now" "is_datetime ?t" using assms(2-4) rec by (simp_all add: ready_at_def dated_def)
    have m: "mark_run env n j1 s1 = map_option (map_sum id (\<lambda>t. s1\<lparr>sc_next_run := AList.update n t (sc_next_run s1),
        sc_jobs := AList.update n (j1\<lparr>j_next_run := Some t\<rparr>) (sc_jobs s1)\<rparr>)) (advance_next_run (job_step j) ?now ?t)"
      using k(1-3) s1(2) rec by (simp add: mark_run_def job_step_def Let_def)
    consider "job_step j = 0" | "job_step j < 0" | "0 < job_step j" by linarith
    then show ?thesis
    proof cases
      case 1
      then show ?thesis using m advance_next_run_zero[OF t(2,1)] rec assms(2) by (simp add: stuck_job_def)
    next
      case 2
      then show ?thesis using m advance_next_run_negative[OF 2 t(1)] rec assms(2)
        by (simp add: stuck_job_def overflow_job_def)
    next
      case 3
      then show ?thesis using m advance_next_run_positive[OF 3 t(1)] t(2) rec assms(2)
        by (simp add: stuck_job_def overflow_job_def is_datetime_def)
    qed
  next
    case cron
    have "mark_run env n j1 s1 = (case cron_time env j of
        None \<Rightarrow> if is_datetime (je_now env + seconds_delta (sc_interval_seconds s))
                then mark_run env n j1 s1 else Some (Inl TimeOverflow)
      | Some t \<Rightarrow> mark_run env n j1 s1) \<and> (mark_run env n j1 s1 = Some (Inl TimeOverflow) \<or>
        (\<exists>s2. mark_run env n j1 s1 = Some (Inr s2))) \<and>
      (cron_time env j \<noteq> None \<or> is_datetime (je_now env + seconds_delta (sc_interval_seconds s)) \<longrightarrow>
        (\<exists>s2. mark_run env n j1 s1 = Some (Inr s2)))"
      using cron k s1(4)
      by (cases "je_cron_next env"; cases "j_cron j")
         (auto simp: mark_run_def Let_def add_delta_def cron_time_def split: option.split)
    then show ?thesis using assms(2) cron
      by (cases "cron_time env j") (auto simp: stuck_job_def overflow_job_def split: if_splits)
  next
    case other
    then show ?thesis using assms(2) k
      by (cases "j_kind j") (auto simp: mark_run_def Let_def stuck_job_def overflow_job_def)
  qed
qed

text \<open>The first job that cannot be advanced decides how the run of a list of jobs ends.\<close>

lemma tick_jobs_outcome:
  assumes "sched_inv s" "distinct ns"
    and "\<forall>n \<in> set ns. ready_at (je_now env) s n \<and> dated (je_now env) s n \<and> map_of (sc_jobs s) n \<noteq> None"
  shows "case List.find (\<lambda>n. stuck_job s n \<or> overflow_job env s n) ns of
      None \<Rightarrow> \<exists>k1 s1. tick_jobs env ns k s = Some (Inr k1, s1)
    | Some n \<Rightarrow> if stuck_job s n then tick_jobs env ns k s = None
                else \<exists>s1. tick_jobs env ns k s = Some (Inl TimeOverflow, s1)"
  using assms
proof (induction ns arbitrary: k s)
  case (Cons n ns)
  obtain j where j: "map_of (sc_jobs s) n = Some j" using Cons.prems(3) by auto
  have run: "runnable n s" "ready_at (je_now env) s n" "dated (je_now env) s n"
    using Cons.prems(3) by (auto simp: ready_at_def)
  obtain r s2 where r: "run_now env n s = (r, s2)" by (metis surj_pair)
  obtain j2 where j2: "map_of (sc_jobs s2) n = Some j2"
    using run_now_job[OF j _ _, of env] run(1) Cons.prems(1) r j by (auto simp: sched_inv_def runnable_def)
  note out = mark_run_outcome[OF Cons.prems(1) j run(2,3) r j2]
  show ?case
  proof (cases "stuck_job s n \<or> overflow_job env s n")
    case True
    then show ?thesis using out j r j2 by (auto split: if_splits)
  next
    case False
    then obtain s3 where m: "mark_run env n j2 s2 = Some (Inr s3)" using out by auto
    note st = tick_step_inv[OF Cons.prems(1) j run(1) r j2 m]
    have same: "map_of (sc_jobs s3) d = map_of (sc_jobs s) d"
      "dget (je_now env) (sc_next_run s3) d = dget (je_now env) (sc_next_run s) d" if "d \<in> set ns" for d
      using that Cons.prems(2) st(2,3)[of d] by auto
    have ready3: "\<forall>m \<in> set ns. ready_at (je_now env) s3 m \<and> dated (je_now env) s3 m \<and> map_of (sc_jobs s3) m \<noteq> None"
      using Cons.prems(3) same by (simp add: ready_at_def runnable_def dated_def)
    have "stuck_job s3 d = stuck_job s d" "overflow_job env s3 d = overflow_job env s d" if "d \<in> set ns" for d
      using same[OF that] st(6) by (simp_all add: stuck_job_def overflow_job_def)
    then have f: "List.find (\<lambda>n. stuck_job s3 n \<or> overflow_job env s3 n) ns =
        List.find (\<lambda>n. stuck_job s n \<or> overflow_job env s n) ns"
      by (intro find_cong) auto
    have "stuck_job s3 d = stuck_job s d" if "List.find (\<lambda>n. stuck_job s n \<or> overflow_job env s n) ns = Some d" for d
    proof -
      have "d \<in> set ns" using that by (auto simp: find_Some_iff)
      then show ?thesis using same(1) by (simp add: stuck_job_def)
    qed
    with Cons.IH[OF st(1) _ ready3, of "if r = Inr True then k + 1 else k"] Cons.prems(2) False j r j2 m
    show ?thesis by (auto simp: f split: option.splits)
  qed
qed simp

lemma tick_jobs_effect:
  assumes "sched_inv s" "distinct ns" "\<forall>n \<in> set ns. ready_at (je_now env) s n \<and> map_of (sc_jobs s) n \<noteq> None"
    and "tick_jobs env ns k s = Some (Inr k1, s1)"
  shows "sched_inv s1 \<and>
      (\<forall>n j. map_of (sc_jobs s) n = Some j \<longrightarrow> (\<exists>j1. map_of (sc_jobs s1) n = Some j1 \<and> same_job j j1 \<and>
         j_run_count j1 = j_run_count j + (if n \<in> set ns then 1 else 0) \<and>
         (n \<notin> set ns \<longrightarrow> j1 = j) \<and>
         (n \<in> set ns \<longrightarrow> j_kind j = RECURRING \<longrightarrow>
            advance_next_run (job_step j) (je_now env) (dget (je_now env) (sc_next_run s) n) =
              Some (Inr (dget (je_now env) (sc_next_run s1) n))))) \<and>
      (\<forall>n. n \<notin> set ns \<longrightarrow> dget (je_now env) (sc_next_run s1) n = dget (je_now env) (sc_next_run s) n)"
  using assms
proof (induction ns arbitrary: k s)
  case (Cons n ns)
  obtain j where j: "map_of (sc_jobs s) n = Some j" using Cons.prems(3) by auto
  have run: "runnable n s" "ready_at (je_now env) s n" using Cons.prems(3) by (auto simp: ready_at_def)
  obtain r s2 where r: "run_now env n s = (r, s2)" by (metis surj_pair)
  obtain j2 where j2: "map_of (sc_jobs s2) n = Some j2"
    using run_now_job[OF j _ _, of env] run(1) Cons.prems(1) r j by (auto simp: sched_inv_def runnable_def)
  let ?k = "if r = Inr True then k + 1 else k"
  obtain s3 where m: "mark_run env n j2 s2 = Some (Inr s3)"
    using Cons.prems(4) j r j2 by (auto split: option.splits sum.splits)
  note st = tick_step_inv[OF Cons.prems(1) j run(1) r j2 m]
  have same: "map_of (sc_jobs s3) d = map_of (sc_jobs s) d"
    "dget (je_now env) (sc_next_run s3) d = dget (je_now env) (sc_next_run s) d" if "d \<in> set ns" for d
    using that Cons.prems(2) st(2,3)[of d] by auto
  have ready3: "\<forall>m \<in> set ns. ready_at (je_now env) s3 m \<and> map_of (sc_jobs s3) m \<noteq> None"
    using Cons.prems(3) same by (simp add: ready_at_def runnable_def)
  have "tick_jobs env ns ?k s3 = Some (Inr k1, s1)" using Cons.prems(4) j r j2 m by simp
  note I = Cons.IH[OF st(1) _ ready3 this]
  have dist: "distinct ns" "n \<notin> set ns" using Cons.prems(2) by simp_all
  have I1: "sched_inv s1" and I2: "\<forall>m j. map_of (sc_jobs s3) m = Some j \<longrightarrow>
      (\<exists>j1. map_of (sc_jobs s1) m = Some j1 \<and> same_job j j1 \<and>
         j_run_count j1 = j_run_count j + (if m \<in> set ns then 1 else 0) \<and> (m \<notin> set ns \<longrightarrow> j1 = j) \<and>
         (m \<in> set ns \<longrightarrow> j_kind j = RECURRING \<longrightarrow>
            advance_next_run (job_step j) (je_now env) (dget (je_now env) (sc_next_run s3) m) =
              Some (Inr (dget (je_now env) (sc_next_run s1) m))))"
    and I3: "\<forall>m. m \<notin> set ns \<longrightarrow> dget (je_now env) (sc_next_run s1) m = dget (je_now env) (sc_next_run s3) m"
    using I[OF dist(1)] by blast+
  obtain j3 where j3: "map_of (sc_jobs s3) n = Some j3" "j_run_count j3 = j_run_count j + 1" "same_job j j3"
    using st(5) by blast
  show ?case
  proof (intro conjI allI impI)
    show "sched_inv s1" by (rule I1)
    show "dget (je_now env) (sc_next_run s1) m = dget (je_now env) (sc_next_run s) m"
      if "m \<notin> set (n # ns)" for m
      using that I3 st(3)[of m] by auto
    fix m jm assume jm: "map_of (sc_jobs s) m = Some jm"
    show "\<exists>j1. map_of (sc_jobs s1) m = Some j1 \<and> same_job jm j1 \<and>
         j_run_count j1 = j_run_count jm + (if m \<in> set (n # ns) then 1 else 0) \<and>
         (m \<notin> set (n # ns) \<longrightarrow> j1 = jm) \<and>
         (m \<in> set (n # ns) \<longrightarrow> j_kind jm = RECURRING \<longrightarrow>
            advance_next_run (job_step jm) (je_now env) (dget (je_now env) (sc_next_run s) m) =
              Some (Inr (dget (je_now env) (sc_next_run s1) m)))"
    proof (cases "m = n")
      case True
      then have "jm = j" using j jm by simp
      have "map_of (sc_jobs s1) n = Some j3" using I2 j3(1) dist(2) by fastforce
      moreover have "dget (je_now env) (sc_next_run s1) n = dget (je_now env) (sc_next_run s3) n"
        using I3 dist(2) by blast
      ultimately show ?thesis using True \<open>jm = j\<close> j3 st(4) by simp
    next
      case False
      then have "map_of (sc_jobs s3) m = Some jm" using st(2) jm by simp
      with I2 obtain j1 where "map_of (sc_jobs s1) m = Some j1" "same_job jm j1"
         "j_run_count j1 = j_run_count jm + (if m \<in> set ns then 1 else 0)" "m \<notin> set ns \<longrightarrow> j1 = jm"
         "m \<in> set ns \<longrightarrow> j_kind jm = RECURRING \<longrightarrow>
          advance_next_run (job_step jm) (je_now env) (dget (je_now env) (sc_next_run s3) m) =
            Some (Inr (dget (je_now env) (sc_next_run s1) m))" by blast
      with False st(3)[OF False] show ?thesis by simp
    qed
  qed
qed simp

lemma due_runnable:
  assumes "sched_inv s"
  shows "distinct (due_names now s)" "n \<in> set (due_names now s) \<Longrightarrow> runnable n s"
    "n \<in> set (due_names now s) \<longleftrightarrow>
       (\<exists>j. map_of (sc_jobs s) n = Some j \<and> j_kind j \<noteq> EVENT \<and> job_due now n j s)"
proof -
  have d: "dict_ok (sc_jobs s)" using assms by (simp add: sched_inv_def)
  then show "distinct (due_names now s)"
    by (auto simp: due_names_def distinct_map intro: inj_on_subset)
  show iff: "n \<in> set (due_names now s) \<longleftrightarrow>
       (\<exists>j. map_of (sc_jobs s) n = Some j \<and> j_kind j \<noteq> EVENT \<and> job_due now n j s)" for n
    using d by (force simp: due_names_def)
  show "runnable n s" if "n \<in> set (due_names now s)"
    using that unfolding iff by (auto simp: runnable_def job_due_def split: if_splits)
qed

lemma due_ready:
  assumes "sched_inv s"
  shows "\<forall>n \<in> set (due_names now s). ready_at now s n \<and> map_of (sc_jobs s) n \<noteq> None"
proof
  fix n assume n: "n \<in> set (due_names now s)"
  then obtain j where j: "map_of (sc_jobs s) n = Some j" "job_due now n j s"
    using due_runnable(3)[OF assms] by blast
  have "dget now (sc_next_run s) n \<le> now" if "j_kind j = RECURRING"
    using j(2) that by (auto simp: job_due_def dget_def split: if_splits option.splits)
  then show "ready_at now s n \<and> map_of (sc_jobs s) n \<noteq> None"
    using j(1) due_runnable(2)[OF assms n] by (simp add: ready_at_def)
qed

text \<open>The next runs that a scheduler keeps are instants a \<^verbatim>\<open>datetime\<close> can hold, when the dates
  it was given are.\<close>

definition next_runs_dated :: "job_scheduler \<Rightarrow> bool" where
  "next_runs_dated s \<longleftrightarrow> (\<forall>(n, t) \<in> set (sc_next_run s). is_datetime t)"

lemma register_job_dated:
  assumes "next_runs_dated s" "is_datetime (je_now env)" "\<forall>t. sa = Some t \<longrightarrow> is_datetime t"
    and "register_job env n k sa i c ds et mr en s = Inr s1"
  shows "next_runs_dated s1"
proof -
  have dated: "is_datetime t" if "(m, t) \<in> set (AList.update n x (sc_next_run s))" "is_datetime x" for m t x
    using dict_value_in_update[OF that(1)] that(2) assms(1) by (auto simp: next_runs_dated_def)
  show ?thesis using assms
    by (auto simp: register_job_def schedule_initial_def next_runs_dated_def Let_def
        dest: dated split: if_splits option.splits)
qed

lemma due_dated:
  assumes "sched_inv s" "next_runs_dated s"
  shows "\<forall>n \<in> set (due_names now s). dated now s n"
proof
  fix n assume "n \<in> set (due_names now s)"
  then obtain j where j: "map_of (sc_jobs s) n = Some j" "job_due now n j s"
    using due_runnable(3)[OF assms(1)] by blast
  show "dated now s n"
    using j assms(2) by (auto simp: dated_def job_due_def dget_def next_runs_dated_def
        dest!: map_of_SomeD split: if_splits option.splits)
qed

lemma tick_outcome:
  assumes "sched_inv s" "next_runs_dated s"
  shows "case List.find (\<lambda>n. stuck_job s n \<or> overflow_job env s n) (due_names (je_now env) s) of
      None \<Rightarrow> \<exists>k s1. tick env s = Some (Inr k, s1)
    | Some n \<Rightarrow> if stuck_job s n then tick env s = None else \<exists>s1. tick env s = Some (Inl TimeOverflow, s1)"
  unfolding tick_def
  by (rule tick_jobs_outcome[OF assms(1) due_runnable(1)[OF assms(1)]])
     (use due_ready[OF assms(1)] due_dated[OF assms] in blast)

lemma tick_effect:
  assumes "sched_inv s" "tick env s = Some (Inr k1, s1)"
  shows "sched_inv s1 \<and>
      (\<forall>n j. map_of (sc_jobs s) n = Some j \<longrightarrow> (\<exists>j1. map_of (sc_jobs s1) n = Some j1 \<and> same_job j j1 \<and>
         j_run_count j1 = j_run_count j + (if n \<in> set (due_names (je_now env) s) then 1 else 0) \<and>
         (n \<notin> set (due_names (je_now env) s) \<longrightarrow> j1 = j) \<and>
         (n \<in> set (due_names (je_now env) s) \<longrightarrow> j_kind j = RECURRING \<longrightarrow>
            advance_next_run (job_step j) (je_now env) (dget (je_now env) (sc_next_run s) n) =
              Some (Inr (dget (je_now env) (sc_next_run s1) n))))) \<and>
      (\<forall>n. n \<notin> set (due_names (je_now env) s) \<longrightarrow>
         dget (je_now env) (sc_next_run s1) n = dget (je_now env) (sc_next_run s) n)"
  using assms(2) unfolding tick_def
  by (rule tick_jobs_effect[OF assms(1) due_runnable(1)[OF assms(1)] due_ready[OF assms(1)]])

section \<open>Properties\<close>

text \<open>C12: Let the first due job that cannot be given a next run be a recurring one whose interval rounds
  to zero: the loop that advances it never ends and the scheduler thread is lost.  (The default of a
  registration without an interval is zero.)  Let it be a recurring job with a negative interval, or one
  whose first grid instant after now lies past the last \<^verbatim>\<open>datetime\<close>, or a cron job without a usable
  iterator whose fallback lies outside the \<^verbatim>\<open>datetime\<close> range: the tick raises.  When there is no such due
  job the tick returns.\<close>

theorem tick_returns_iff:
  assumes "sched_inv s" "\<forall>(n, t) \<in> set (sc_next_run s). is_datetime t"
    and "hangs = (\<lambda>n. \<exists>j. map_of (sc_jobs s) n = Some j \<and> j_kind j = RECURRING \<and>
           seconds_delta (case j_interval_seconds j of None \<Rightarrow> 0 | Some i \<Rightarrow> i) = 0)"
  shows "case List.find (\<lambda>n. hangs n \<or> overflow_job env s n) (due_names (je_now env) s) of
      None \<Rightarrow> \<exists>k s1. tick env s = Some (Inr k, s1)
    | Some n \<Rightarrow> if hangs n then tick env s = None else \<exists>s1. tick env s = Some (Inl TimeOverflow, s1)"
proof -
  have h: "hangs = stuck_job s" by (simp add: assms(3) stuck_job_def job_step_def fun_eq_iff)
  have "next_runs_dated s" using assms(2) by (simp add: next_runs_dated_def)
  then show ?thesis unfolding h by (rule tick_outcome[OF assms(1)])
qed

definition demo_job_env :: job_env where
  "demo_job_env = \<lparr>je_now = 10000000, je_handler = (\<lambda>_. None), je_cron_next = None\<rparr>"

definition demo_scheduler :: "rat option \<Rightarrow> job_scheduler" where
  "demo_scheduler interval =
     (case register_job demo_job_env ''sync'' RECURRING (Some 1000000) interval None [] None 0 True (new_scheduler 1) of
        Inl _ \<Rightarrow> new_scheduler 1
      | Inr s \<Rightarrow> s)"

lemma demo_scheduler_inv: "sched_inv (demo_scheduler i)"
  using register_job_inv[OF new_scheduler_inv] by (auto simp: demo_scheduler_def new_scheduler_inv split: sum.split)

lemma demo_scheduler_job:
  "\<exists>j. map_of (sc_jobs (demo_scheduler i)) ''sync'' = Some j \<and> j_kind j = RECURRING \<and>
     j_interval_seconds j = i \<and> j_run_count j = 0 \<and> j_max_runs j = 0"
  "due_names (je_now demo_job_env) (demo_scheduler i) = [''sync'']"
  "dget (je_now demo_job_env) (sc_next_run (demo_scheduler i)) ''sync'' = 1000000"
  by (simp_all add: demo_scheduler_def register_job_def schedule_initial_def new_scheduler_def
      demo_job_env_def due_names_def job_due_def)

lemma demo_scheduler_dated: "\<forall>(n, t) \<in> set (sc_next_run (demo_scheduler i)). is_datetime t"
  by (simp add: demo_scheduler_def register_job_def schedule_initial_def new_scheduler_def
      demo_job_env_def is_datetime_def TIME_MIN_def TIME_MAX_def)

lemma demo_scheduler_overflow:
  "overflow_job demo_job_env (demo_scheduler i) ''sync'' \<longleftrightarrow>
     (let d = seconds_delta (case i of None \<Rightarrow> 0 | Some i \<Rightarrow> i)
      in d < 0 \<or> 0 < d \<and> TIME_MAX < grid_after d 10000000 1000000)"
  using demo_scheduler_job(1)[of i] demo_scheduler_job(3)[of i]
  by (auto simp: overflow_job_def job_step_def demo_job_env_def Let_def)

lemma demo_deltas:
  "seconds_delta 4 = 4000000" "seconds_delta (- 4) = - 4000000" "seconds_delta 0 = 0"
  by (simp_all add: seconds_delta_def round_half_even_def Let_def)

theorem tick_returns_iff_witness:
  "(\<exists>k s1. tick demo_job_env (demo_scheduler (Some 4)) = Some (Inr k, s1)) \<and>
   tick demo_job_env (demo_scheduler None) = None \<and>
   (\<exists>s1. tick demo_job_env (demo_scheduler (Some (- 4))) = Some (Inl TimeOverflow, s1))"
proof -
  note T = tick_returns_iff[OF demo_scheduler_inv demo_scheduler_dated refl, of demo_job_env,
      unfolded demo_scheduler_job(2)]
  have h: "(\<exists>j. map_of (sc_jobs (demo_scheduler i)) ''sync'' = Some j \<and> j_kind j = RECURRING \<and>
      seconds_delta (case j_interval_seconds j of None \<Rightarrow> 0 | Some i \<Rightarrow> i) = 0) \<longleftrightarrow>
    seconds_delta (case i of None \<Rightarrow> 0 | Some i \<Rightarrow> i) = 0" for i
    using demo_scheduler_job(1)[of i] by auto
  show ?thesis
    using T[of "Some 4"] T[of None] T[of "Some (- 4)"]
    by (simp add: h demo_scheduler_overflow demo_deltas grid_after_def TIME_MAX_def)
qed

text \<open>C13: a tick runs every due job exactly once and no other job, never runs a job past its
  \<^verbatim>\<open>max_runs\<close>, and moves a due recurring job to the first instant after now on the grid of
  its earlier schedule, so missed periods are skipped and the schedule does not drift.\<close>

theorem tick_runs_due_jobs_once:
  assumes "sched_inv s" "tick env s = Some (Inr k, s1)" "map_of (sc_jobs s) n = Some j"
  shows "sched_inv s1 \<and> (\<exists>j1. map_of (sc_jobs s1) n = Some j1 \<and>
      j_run_count j1 = j_run_count j + (if n \<in> set (due_names (je_now env) s) then 1 else 0) \<and>
      (0 < j_max_runs j \<longrightarrow> j_run_count j1 \<le> j_max_runs j)) \<and>
    (n \<in> set (due_names (je_now env) s) \<longrightarrow> j_kind j = RECURRING \<longrightarrow>
      (let t = dget (je_now env) (sc_next_run s) n; t1 = dget (je_now env) (sc_next_run s1) n
       in je_now env < t1 \<and> t1 \<le> je_now env + job_step j \<and> job_step j dvd (t1 - t)))"
proof -
  note eff = tick_effect[OF assms(1,2)]
  obtain j1 where j1: "map_of (sc_jobs s1) n = Some j1" "same_job j j1"
    "j_run_count j1 = j_run_count j + (if n \<in> set (due_names (je_now env) s) then 1 else 0)"
    and adv: "n \<in> set (due_names (je_now env) s) \<longrightarrow> j_kind j = RECURRING \<longrightarrow>
      advance_next_run (job_step j) (je_now env) (dget (je_now env) (sc_next_run s) n) =
        Some (Inr (dget (je_now env) (sc_next_run s1) n))"
    using eff assms(3) by blast
  have inv1: "sched_inv s1" using eff by blast
  then have "\<forall>(n, j) \<in> set (sc_jobs s1). 0 < j_max_runs j \<longrightarrow> j_run_count j \<le> j_max_runs j"
    by (simp add: sched_inv_def)
  then have mx: "0 < j_max_runs j \<longrightarrow> j_run_count j1 \<le> j_max_runs j"
    using j1(1,2) by (fastforce dest: map_of_SomeD simp: same_job_def)
  have "let t = dget (je_now env) (sc_next_run s) n; t1 = dget (je_now env) (sc_next_run s1) n
       in je_now env < t1 \<and> t1 \<le> je_now env + job_step j \<and> job_step j dvd (t1 - t)"
    if due: "n \<in> set (due_names (je_now env) s)" and rec: "j_kind j = RECURRING"
  proof -
    let ?t = "dget (je_now env) (sc_next_run s) n" and ?now = "je_now env"
    have le: "?t \<le> ?now" using due_ready[OF assms(1), of ?now] due rec assms(3) by (auto simp: ready_at_def)
    have "advance_next_run (job_step j) ?now ?t = Some (Inr (dget ?now (sc_next_run s1) n))"
      using adv due rec by simp
    from advance_next_run_result[OF this] le show ?thesis by (simp add: Let_def)
  qed
  then show ?thesis using inv1 j1(1,3) mx by simp
qed

theorem tick_runs_due_jobs_once_witness:
  "\<exists>k s1. tick demo_job_env (demo_scheduler (Some 4)) = Some (Inr k, s1) \<and>
     (\<exists>j1. map_of (sc_jobs s1) ''sync'' = Some j1 \<and> j_run_count j1 = 1)"
proof -
  obtain j where j: "map_of (sc_jobs (demo_scheduler (Some 4))) ''sync'' = Some j" "j_run_count j = 0"
      "j_interval_seconds j = Some 4"
    using demo_scheduler_job(1)[of "Some 4"] by blast
  have "\<not> stuck_job (demo_scheduler (Some 4)) ''sync'' \<and> \<not> overflow_job demo_job_env (demo_scheduler (Some 4)) ''sync''"
    using j by (simp add: stuck_job_def job_step_def demo_scheduler_overflow demo_deltas grid_after_def TIME_MAX_def)
  then obtain k s1 where t: "tick demo_job_env (demo_scheduler (Some 4)) = Some (Inr k, s1)"
    using tick_outcome[OF demo_scheduler_inv, of "Some 4" demo_job_env] demo_scheduler_dated[of "Some 4"]
      demo_scheduler_job(2)[of "Some 4"]
    by (auto simp: next_runs_dated_def)
  from tick_runs_due_jobs_once[OF demo_scheduler_inv t j(1)] demo_scheduler_job(2)[of "Some 4"] j(2) t
  show ?thesis by auto
qed

text \<open>a dependency job does not wait for its upstream jobs to run again: after it ran, it is
  due at every later tick as long as the upstream jobs keep the status \<^verbatim>\<open>COMPLETED\<close>, although
  \<^verbatim>\<open>_mark_run\<close> removed its next run.\<close>

theorem dependency_job_stays_due:
  assumes "sched_inv s" "tick env s = Some (Inr k, s1)" "map_of (sc_jobs s) n = Some j"
    and "j_kind j = DEPENDENCY" "j_enabled j" "j_max_runs j = 0"
    and "\<forall>d \<in> set (j_depends_on j). \<exists>dj. map_of (sc_jobs s1) d = Some dj \<and> j_status dj = JCOMPLETED"
  shows "n \<in> set (due_names later s1)"
proof -
  note eff = tick_effect[OF assms(1,2)]
  obtain j1 where j1: "map_of (sc_jobs s1) n = Some j1" "same_job j j1" using eff assms(3) by blast
  have inv1: "sched_inv s1" using eff by blast
  have "job_due later n j1 s1"
    using j1(2) assms(4-7) by (auto simp: job_due_def same_job_def list_all_iff split: option.splits)
  then show ?thesis
    unfolding due_runnable(3)[OF inv1] using j1 assms(4) by (auto simp: same_job_def)
qed

theorem dependency_job_stays_due_witness:
  "\<exists>s. sched_inv s \<and> (\<forall>later. ''report'' \<in> set (due_names later (snd (the (tick demo_job_env s)))))"
proof -
  let ?e = demo_job_env
  define s0 where "s0 = (case register_job ?e ''load'' ONE_TIME None None None [] None 0 True (new_scheduler 1) of
      Inr s \<Rightarrow> (case register_job ?e ''report'' DEPENDENCY None None None [''load''] None 0 True s of
                  Inr s \<Rightarrow> s | Inl _ \<Rightarrow> new_scheduler 1) | Inl _ \<Rightarrow> new_scheduler 1)"
  have inv: "sched_inv s0"
    using register_job_inv[OF register_job_inv[OF new_scheduler_inv]] register_job_inv[OF new_scheduler_inv]
      new_scheduler_inv
    unfolding s0_def by (auto split: sum.splits)
  obtain k s1 where t: "tick ?e s0 = Some (Inr k, s1)"
    and d: "map_option j_status (map_of (sc_jobs s1) ''load'') = Some JCOMPLETED"
    by (simp add: s0_def register_job_def schedule_initial_def new_scheduler_def demo_job_env_def
        tick_def due_names_def job_due_def run_now_def mark_run_def Let_def)
  obtain j where j: "map_of (sc_jobs s0) ''report'' = Some j" "j_kind j = DEPENDENCY" "j_enabled j"
      "j_max_runs j = 0" "j_depends_on j = [''load'']"
    by (simp add: s0_def register_job_def schedule_initial_def new_scheduler_def demo_job_env_def)
  have "''report'' \<in> set (due_names later s1)" for later
    using dependency_job_stays_due[OF inv t j(1-4), of later] d j(5) by auto
  with inv t show ?thesis by (intro exI[of _ s0]) simp
qed

end
