(* ===== verification/RuntimeState.thy ===== *)
theory RuntimeState
  imports Supervisor
begin

text \<open>
  The persisted state of the runtime (\<^verbatim>\<open>runtime/state.py\<close>): the phase, the entities in progress and
  the records of processes and engines, in memory and in a file.  The file is the state last written
  to it.  The mirror of the state in a memory engine is left out; whether changes are persisted is the
  configuration.
\<close>

record runtime_state =
  rs_phase :: RuntimePhase
  rs_started_at :: "time option"
  rs_stopped_at :: "time option"
  rs_active_pipelines :: "name list"
  rs_active_workflows :: "name list"
  rs_active_decisions :: "name list"
  rs_active_meetings :: "name list"
  rs_active_projects :: "name list"
  rs_active_agents :: "name list"
  rs_processes :: "(name, process) dict"
  rs_last_saved_at :: "time option"
  rs_engines :: "(name, engine_state) dict"

definition new_runtime_state :: runtime_state where
  "new_runtime_state =
     \<lparr>rs_phase = STOPPED, rs_started_at = None, rs_stopped_at = None, rs_active_pipelines = [],
      rs_active_workflows = [], rs_active_decisions = [], rs_active_meetings = [], rs_active_projects = [],
      rs_active_agents = [], rs_processes = [], rs_last_saved_at = None, rs_engines = []\<rparr>"

record runtime_store =
  ts_persist :: bool
  ts_state :: runtime_state
  ts_loaded :: bool
  ts_file :: "runtime_state option"

definition new_runtime_store :: "bool \<Rightarrow> runtime_state option \<Rightarrow> runtime_store" where
  "new_runtime_store persist file =
     \<lparr>ts_persist = persist, ts_state = new_runtime_state, ts_loaded = False, ts_file = file\<rparr>"

definition load_state :: "runtime_store \<Rightarrow> runtime_state \<times> runtime_store" where
  "load_state t =
     (let s = (case ts_file t of None \<Rightarrow> new_runtime_state | Some s \<Rightarrow> s)
      in (s, t\<lparr>ts_state := s, ts_loaded := True\<rparr>))"

definition save_runtime_state :: "time \<Rightarrow> runtime_store \<Rightarrow> runtime_store" where
  "save_runtime_state now t =
     (let s = (ts_state t)\<lparr>rs_last_saved_at := Some now\<rparr> in t\<lparr>ts_state := s, ts_file := Some s\<rparr>)"

definition clear_runtime_state :: "runtime_store \<Rightarrow> runtime_store" where
  "clear_runtime_state t = t\<lparr>ts_state := new_runtime_state, ts_file := None\<rparr>"

text \<open>Every change is followed by a save, when the configuration persists the state.\<close>

definition update_state :: "time \<Rightarrow> (runtime_state \<Rightarrow> runtime_state) \<Rightarrow> runtime_store \<Rightarrow> runtime_store" where
  "update_state now f t =
     (let t1 = t\<lparr>ts_state := f (ts_state t)\<rparr> in if ts_persist t1 then save_runtime_state now t1 else t1)"

text \<open>The list of a kind; \<^verbatim>\<open>None\<close> is a kind the state does not have (a \<^verbatim>\<open>ValueError\<close>).\<close>

definition active_list ::
  "string \<Rightarrow> ((runtime_state \<Rightarrow> name list) \<times> ((name list \<Rightarrow> name list) \<Rightarrow> runtime_state \<Rightarrow> runtime_state)) option"
where
  "active_list kind =
     map_of [(''pipelines'', rs_active_pipelines, rs_active_pipelines_update),
             (''workflows'', rs_active_workflows, rs_active_workflows_update),
             (''decisions'', rs_active_decisions, rs_active_decisions_update),
             (''meetings'', rs_active_meetings, rs_active_meetings_update),
             (''projects'', rs_active_projects, rs_active_projects_update),
             (''agents'', rs_active_agents, rs_active_agents_update)] kind"

definition add_active :: "time \<Rightarrow> string \<Rightarrow> name \<Rightarrow> runtime_store \<Rightarrow> string + runtime_store" where
  "add_active now kind i t =
     (case active_list kind of
        None \<Rightarrow> Inl kind
      | Some (get, upd) \<Rightarrow>
          (let values = get (ts_state t); values1 = (if i \<in> set values then values else values @ [i])
           in Inr (update_state now (upd (\<lambda>_. values1)) t)))"

definition remove_active :: "time \<Rightarrow> string \<Rightarrow> name \<Rightarrow> runtime_store \<Rightarrow> string + runtime_store" where
  "remove_active now kind i t =
     (case active_list kind of
        None \<Rightarrow> Inl kind
      | Some (get, upd) \<Rightarrow> Inr (update_state now (upd (\<lambda>_. remove1 i (get (ts_state t)))) t))"

definition set_phase :: "time \<Rightarrow> RuntimePhase \<Rightarrow> runtime_store \<Rightarrow> runtime_store" where
  "set_phase now p = update_state now (\<lambda>s. s\<lparr>rs_phase := p\<rparr>)"

definition set_started :: "time \<Rightarrow> time option \<Rightarrow> runtime_store \<Rightarrow> runtime_store" where
  "set_started now started =
     update_state now (\<lambda>s. s\<lparr>rs_phase := RUNNING, rs_started_at := Some (case started of None \<Rightarrow> now | Some t \<Rightarrow> t),
                            rs_stopped_at := None\<rparr>)"

definition set_stopped :: "time \<Rightarrow> time option \<Rightarrow> runtime_store \<Rightarrow> runtime_store" where
  "set_stopped now stopped =
     update_state now (\<lambda>s. s\<lparr>rs_phase := STOPPED, rs_stopped_at := Some (case stopped of None \<Rightarrow> now | Some t \<Rightarrow> t)\<rparr>)"

definition set_process :: "time \<Rightarrow> name \<Rightarrow> process \<Rightarrow> runtime_store \<Rightarrow> runtime_store" where
  "set_process now n p = update_state now (\<lambda>s. s\<lparr>rs_processes := AList.update n p (rs_processes s)\<rparr>)"

definition remove_process :: "time \<Rightarrow> name \<Rightarrow> runtime_store \<Rightarrow> bool \<times> runtime_store" where
  "remove_process now n t =
     (let existed = map_of (rs_processes (ts_state t)) n \<noteq> None;
          t1 = t\<lparr>ts_state := (ts_state t)\<lparr>rs_processes := AList.delete n (rs_processes (ts_state t))\<rparr>\<rparr>
      in (existed, if existed \<and> ts_persist t1 then save_runtime_state now t1 else t1))"

definition set_engine :: "time \<Rightarrow> name \<Rightarrow> engine_state \<Rightarrow> runtime_store \<Rightarrow> runtime_store" where
  "set_engine now n e = update_state now (\<lambda>s. s\<lparr>rs_engines := AList.update n e (rs_engines s)\<rparr>)"

definition persisted_engines :: "runtime_store \<Rightarrow> engine_state list" where
  "persisted_engines t = map snd (rs_engines (ts_state t))"

definition active_counts :: "runtime_store \<Rightarrow> (string, nat) dict" where
  "active_counts t =
     (let s = ts_state t
      in [(''pipelines'', length (rs_active_pipelines s)), (''workflows'', length (rs_active_workflows s)),
          (''decisions'', length (rs_active_decisions s)), (''meetings'', length (rs_active_meetings s)),
          (''projects'', length (rs_active_projects s)), (''agents'', length (rs_active_agents s))])"

section \<open>Lemmas\<close>

lemma update_state_fields [simp]:
  "ts_persist (update_state now f t) = ts_persist t"
  "ts_file (update_state now f t) = (if ts_persist t then Some (ts_state (update_state now f t)) else ts_file t)"
  by (simp_all add: update_state_def save_runtime_state_def Let_def)

lemma update_state_state:
  "ts_state (update_state now f t) = (if ts_persist t then (f (ts_state t))\<lparr>rs_last_saved_at := Some now\<rparr> else f (ts_state t))"
  by (simp add: update_state_def save_runtime_state_def Let_def)

lemma load_state_state [simp]:
  "ts_state (snd (load_state t)) = (case ts_file t of None \<Rightarrow> new_runtime_state | Some s \<Rightarrow> s)"
  "ts_persist (snd (load_state t)) = ts_persist t" "ts_file (snd (load_state t)) = ts_file t"
  by (simp_all add: load_state_def Let_def)

text \<open>The phase and the entities in progress of a state.\<close>

definition activity :: "runtime_state \<Rightarrow> name list list" where
  "activity s =
     [rs_active_pipelines s, rs_active_workflows s, rs_active_decisions s, rs_active_meetings s, rs_active_projects s,
      rs_active_agents s]"

lemma state_setters [simp]:
  "activity (ts_state (set_phase now p t)) = activity (ts_state t)" "rs_phase (ts_state (set_phase now p t)) = p"
  "activity (ts_state (set_started now a t)) = activity (ts_state t)" "rs_phase (ts_state (set_started now a t)) = RUNNING"
  "activity (ts_state (set_stopped now a t)) = activity (ts_state t)" "rs_phase (ts_state (set_stopped now a t)) = STOPPED"
  "activity (ts_state (set_engine now n e t)) = activity (ts_state t)"
  "rs_phase (ts_state (set_engine now n e t)) = rs_phase (ts_state t)"
  by (simp_all add: set_phase_def set_started_def set_stopped_def set_engine_def update_state_state activity_def)

lemma setters_file [simp]:
  "ts_file (set_phase now p t) = (if ts_persist t then Some (ts_state (set_phase now p t)) else ts_file t)"
  "ts_file (set_started now a t) = (if ts_persist t then Some (ts_state (set_started now a t)) else ts_file t)"
  "ts_file (set_stopped now a t) = (if ts_persist t then Some (ts_state (set_stopped now a t)) else ts_file t)"
  "ts_file (set_engine now n e t) = (if ts_persist t then Some (ts_state (set_engine now n e t)) else ts_file t)"
  "ts_persist (set_phase now p t) = ts_persist t" "ts_persist (set_started now a t) = ts_persist t"
  "ts_persist (set_stopped now a t) = ts_persist t" "ts_persist (set_engine now n e t) = ts_persist t"
  by (simp_all add: set_phase_def set_started_def set_stopped_def set_engine_def)

end
