(* ===== verification/PyValue.thy ===== *)
theory PyValue
  imports Prelude
begin

text \<open>
  Values and text of the language that several components use: JSON values (the payloads,
  contents and contexts the program stores) with Python's equality on them, slices with a
  possibly negative bound, and ASCII text in lower case.
\<close>

datatype json =
  JNull | JBool bool | JNum rat | JStr string | JList "json list" | JObj "(string \<times> json) list"

lemma size_snd_less: "p \<in> set xs \<Longrightarrow> size (snd p) < size_list (\<lambda>x. Suc (size (snd x))) xs"
  by (induction xs) auto

text \<open>
  \<^verbatim>\<open>a == b\<close>: a Boolean equals the number it stands for, lists are compared in order, dictionaries
  without order.
\<close>

function py_eq :: "json \<Rightarrow> json \<Rightarrow> bool" where
  "py_eq JNull b = (b = JNull)"
| "py_eq (JBool x) b = (case b of JBool y \<Rightarrow> x = y | JNum n \<Rightarrow> n = of_bool x | _ \<Rightarrow> False)"
| "py_eq (JNum x) b = (case b of JBool y \<Rightarrow> x = of_bool y | JNum n \<Rightarrow> x = n | _ \<Rightarrow> False)"
| "py_eq (JStr x) b = (b = JStr x)"
| "py_eq (JList xs) b = (case b of JList ys \<Rightarrow> list_all2 py_eq xs ys | _ \<Rightarrow> False)"
| "py_eq (JObj xs) b =
     (case b of
        JObj ys \<Rightarrow> length xs = length ys \<and>
          list_all (\<lambda>x. case map_of ys (fst x) of None \<Rightarrow> False | Some w \<Rightarrow> py_eq (snd x) w) xs
      | _ \<Rightarrow> False)"
  by pat_completeness auto

termination
proof (relation "measure (size \<circ> fst)", goal_cases)
  case 1
  then show ?case by simp
next
  case (2 xs b ys z z')
  then show ?case by (simp add: less_Suc_eq_le size_list_estimation')
next
  case (3 xs b ys p w)
  then show ?case using size_snd_less[of p xs] by (auto simp: size_prod_simp)
qed

lemma py_eq_refl_scalar [simp]: "py_eq (JStr s) (JStr s)" "py_eq (JNum n) (JNum n)" "py_eq JNull JNull"
  by simp_all

text \<open>Truth of a value, \<^verbatim>\<open>bool(v)\<close>.\<close>

fun truthy :: "json \<Rightarrow> bool" where
  "truthy JNull = False"
| "truthy (JBool b) = b"
| "truthy (JNum n) = (n \<noteq> 0)"
| "truthy (JStr s) = (s \<noteq> [])"
| "truthy (JList xs) = (xs \<noteq> [])"
| "truthy (JObj xs) = (xs \<noteq> [])"

text \<open>A number, as which a Boolean counts too.\<close>

definition number_of :: "json \<Rightarrow> rat option" where
  "number_of v = (case v of JNum q \<Rightarrow> Some q | JBool b \<Rightarrow> Some (of_bool b) | _ \<Rightarrow> None)"

text \<open>\<^verbatim>\<open>str(n)\<close>.\<close>

fun nat_text :: "nat \<Rightarrow> string" where
  "nat_text n = (if n < 10 then [char_of (48 + n)] else nat_text (n div 10) @ [char_of (48 + n mod 10)])"

declare nat_text.simps [simp del]

text \<open>A slice \<^verbatim>\<open>xs[:n]\<close>.\<close>

definition py_take :: "int \<Rightarrow> 'a list \<Rightarrow> 'a list" where
  "py_take n xs = (if 0 \<le> n then take (nat n) xs else take (length xs - nat (- n)) xs)"

text \<open>A slice \<^verbatim>\<open>xs[-n:]\<close> for a positive \<^verbatim>\<open>n\<close>.\<close>

definition last_n :: "nat \<Rightarrow> 'a list \<Rightarrow> 'a list" where
  "last_n n xs = drop (length xs - n) xs"

lemma set_py_take: "set (py_take n xs) \<subseteq> set xs"
  by (auto simp: py_take_def dest: in_set_takeD)

lemma py_take_all: "int (length xs) \<le> n \<Longrightarrow> py_take n xs = xs"
  by (simp add: py_take_def)

lemma length_last_n [simp]: "length (last_n n xs) = min n (length xs)"
  by (simp add: last_n_def)

lemma set_last_n: "set (last_n n xs) \<subseteq> set xs"
  by (simp add: last_n_def set_drop_subset)

lemma last_n_all: "length xs \<le> n \<Longrightarrow> last_n n xs = xs"
  by (simp add: last_n_def)

lemma map_filter_set_iff: "y \<in> set (List.map_filter f xs) \<longleftrightarrow> (\<exists>x \<in> set xs. f x = Some y)"
  by (induction xs) (auto simp: map_filter_simps split: option.split)

text \<open>\<^verbatim>\<open>s.lower()\<close> on ASCII text.\<close>

definition lower_char :: "char \<Rightarrow> char" where
  "lower_char c = (let n = of_char c :: nat in if 65 \<le> n \<and> n \<le> 90 then char_of (n + 32) else c)"

definition lower :: "string \<Rightarrow> string" where
  "lower s = map lower_char s"

text \<open>\<^verbatim>\<open>a <= b\<close> on text.\<close>

fun str_le :: "string \<Rightarrow> string \<Rightarrow> bool" where
  "str_le [] b = True"
| "str_le (x # a) [] = False"
| "str_le (x # a) (y # b) =
     (of_char x < (of_char y :: nat) \<or> (x = y \<and> str_le a b))"

text \<open>\<^verbatim>\<open>counter[k] += 1\<close>.\<close>

definition count_up :: "'k \<Rightarrow> ('k, nat) dict \<Rightarrow> ('k, nat) dict" where
  "count_up k d = AList.update k (dget 0 d k + 1) d"

lemma dget_count_up [simp]: "dget 0 (count_up k d) j = (if j = k then dget 0 d k + 1 else dget 0 d j)"
  by (simp add: count_up_def)

end
