(* ===== verification/RuntimeBoot.thy ===== *)
theory RuntimeBoot
  imports RuntimeState JobScheduler PyValue
begin

text \<open>
  Registration, startup and shutdown of the runtime (\<^verbatim>\<open>runtime/engine.py\<close>, \<^verbatim>\<open>runtime/startup.py\<close>,
  \<^verbatim>\<open>runtime/shutdown.py\<close>) over the supervised system, the scheduler and the state store.  What an
  engine's constructor, \<^verbatim>\<open>start\<close> and \<^verbatim>\<open>stop\<close> do is the environment.  A background worker is its name in the
  list of those that hold a thread, and does nothing while an operation of the runtime runs; the environment
  says which threads end within the timeout of the join, and the others stay behind in a list of their own.
\<close>

record config_job =
  cj_name :: name
  cj_kind :: "JobKind option"
  cj_enabled :: bool
  cj_cron :: "string option"
  cj_interval_seconds :: "rat option"

datatype startup_status = SuCompleted | SuFailed string

record step_result =
  sr_name :: name
  sr_status :: startup_status
  sr_reused :: bool

record step_definition =
  sd_name :: name
  sd_target :: "string option"
  sd_module :: string
  sd_class :: string
  sd_engine :: string
  sd_params :: "(string, json) dict"

record runtime =
  rt_sys :: system
  rt_store :: runtime_store
  rt_scheduler :: job_scheduler
  rt_config_jobs :: "name list"
  rt_workers :: "name list"
  rt_lingering :: "name list"
  rt_bus_running :: bool
  rt_started_at :: "time option"
  rt_starts :: nat
  rt_restarts :: nat
  rt_constitution :: "(string, json) dict"
  rt_stop_calls :: "name list"

datatype stop_behaviour = NoStopMethod | StopReturns | StopRaises string

text \<open>The configuration of the runtime and the world around it.\<close>

record boot_env =
  bv_sys :: system_env
  bv_job :: job_env
  bv_jobs :: "config_job list"
  bv_steps :: "step_definition list"
  bv_continue_on_error :: bool
  bv_recover_state :: bool
  bv_constitution :: "string + (string, json) dict"
  bv_construct :: "step_definition \<Rightarrow> string option"
  bv_watchdog_enabled :: bool
  bv_stop :: "name \<Rightarrow> stop_behaviour"
  bv_joins :: "name \<Rightarrow> bool"

abbreviation bv_now :: "boot_env \<Rightarrow> time" where
  "bv_now env \<equiv> se_now (bv_sys env)"

abbreviation rt_phase :: "runtime \<Rightarrow> RuntimePhase" where
  "rt_phase r \<equiv> en_phase (rt_sys r)"

definition with_phase :: "RuntimePhase \<Rightarrow> runtime \<Rightarrow> runtime" where
  "with_phase p r = r\<lparr>rt_sys := (rt_sys r)\<lparr>en_phase := p\<rparr>\<rparr>"

definition with_store :: "(runtime_store \<Rightarrow> runtime_store) \<Rightarrow> runtime \<Rightarrow> runtime" where
  "with_store f r = r\<lparr>rt_store := f (rt_store r)\<rparr>"

text \<open>\<^verbatim>\<open>_publish\<close>: only while the bus of the runtime runs; \<^verbatim>\<open>publish_runtime_event\<close> does not ask.\<close>

definition rt_publish :: "string \<Rightarrow> name \<Rightarrow> runtime \<Rightarrow> runtime" where
  "rt_publish ty c r =
     (if \<not> en_event_bus (rt_sys r) \<or> \<not> rt_bus_running r then r
      else r\<lparr>rt_sys := (rt_sys r)\<lparr>rm_events := rm_events (rt_sys r) @ [(ty, c)]\<rparr>\<rparr>)"

definition raw_publish :: "string \<Rightarrow> name \<Rightarrow> runtime \<Rightarrow> runtime" where
  "raw_publish ty c r =
     (if \<not> en_event_bus (rt_sys r) then r
      else r\<lparr>rt_sys := (rt_sys r)\<lparr>rm_events := rm_events (rt_sys r) @ [(ty, c)]\<rparr>\<rparr>)"

section \<open>Registration\<close>

definition unregister_engine :: "name \<Rightarrow> runtime \<Rightarrow> bool \<times> runtime" where
  "unregister_engine n r =
     (let s = rt_sys r
      in if n \<notin> set (en_engines s) then (False, r)
         else (True, r\<lparr>rt_sys := s\<lparr>en_engines := removeAll n (en_engines s), en_states := AList.delete n (en_states s),
                 en_graph := snd (remove_component n (en_graph s)), sv_health := removeAll n (sv_health s),
                 sv_heartbeats := snd (hb_unregister n (sv_heartbeats s)),
                 en_breakers := AList.delete n (en_breakers s)\<rparr>\<rparr>))"

definition registered_state :: engine_state where
  "registered_state =
     \<lparr>es_status = EsREGISTERED, es_health = HEALTHY, es_message = [], es_started_at = None, es_stopped_at = None\<rparr>"

definition register_engine :: "time \<Rightarrow> name \<Rightarrow> runtime \<Rightarrow> (heartbeat_error + engine_state) \<times> runtime" where
  "register_engine now n r0 =
     (let r = snd (unregister_engine n r0);
          s = rt_sys r;
          s1 = s\<lparr>en_engines := en_engines s @ [n], en_event_bus := (en_event_bus s \<or> n = ''event_bus''),
                 en_states := AList.update n registered_state (en_states s),
                 en_graph := add_component n None (en_graph s), sv_health := set_insert n (sv_health s)\<rparr>
      in case hb_register now n None (sv_heartbeats s1) of
           Inl e \<Rightarrow> (Inl e, r\<lparr>rt_sys := s1\<rparr>)
         | Inr (_, m) \<Rightarrow>
             (Inr registered_state,
              with_store (set_engine now n registered_state)
                (r\<lparr>rt_sys := register_factory n (s1\<lparr>sv_heartbeats := m\<rparr>)\<rparr>)))"

definition register_engine_with_circuit_breaker ::
  "time \<Rightarrow> name \<Rightarrow> runtime \<Rightarrow> (heartbeat_error + engine_state) \<times> runtime"
where
  "register_engine_with_circuit_breaker now n r =
     (case register_engine now n r of
        (Inl e, r1) \<Rightarrow> (Inl e, r1)
      | (Inr st, r1) \<Rightarrow>
          (Inr st, r1\<lparr>rt_sys := (rt_sys r1)\<lparr>en_breakers := AList.update n (new_breaker n 60) (en_breakers (rt_sys r1))\<rparr>\<rparr>))"

definition declare_dependency :: "name \<Rightarrow> name \<Rightarrow> runtime \<Rightarrow> runtime" where
  "declare_dependency c d r = r\<lparr>rt_sys := (rt_sys r)\<lparr>en_graph := add_dependency c d (en_graph (rt_sys r))\<rparr>\<rparr>"

text \<open>\<^verbatim>\<open>_propagate_health_to_circuit_breakers\<close>: the health last marked counts as a call.\<close>

definition propagate_health :: "time \<Rightarrow> runtime \<Rightarrow> runtime" where
  "propagate_health now r =
     fold (\<lambda>(n, st) r.
        case map_of (en_breakers (rt_sys r)) n of
          None \<Rightarrow> r
        | Some b \<Rightarrow>
            r\<lparr>rt_sys := (rt_sys r)\<lparr>en_breakers := AList.update n
               (if es_health st = UNHEALTHY then on_failure now b else on_success b) (en_breakers (rt_sys r))\<rparr>\<rparr>)
       (en_states (rt_sys r)) r"

section \<open>Starting\<close>

definition mark_status ::
  "time \<Rightarrow> name \<Rightarrow> EngineStateStatus \<Rightarrow> HealthStatus \<Rightarrow> string \<Rightarrow> runtime \<Rightarrow> runtime"
where
  "mark_status now n status health message r =
     (let s = mark_engine_status now n status (Some health) message (rt_sys r); r1 = r\<lparr>rt_sys := s\<rparr>
      in case map_of (en_states s) n of None \<Rightarrow> r1 | Some st \<Rightarrow> with_store (set_engine now n st) r1)"

definition start_engine :: "boot_env \<Rightarrow> name \<Rightarrow> runtime \<Rightarrow> runtime" where
  "start_engine env n r =
     (if n = ''event_bus'' then r
      else case se_start (bv_sys env) n of
             StartRaises e \<Rightarrow> mark_status (bv_now env) n EsDEGRADED DEGRADED_HEALTH e r
           | _ \<Rightarrow> mark_status (bv_now env) n EsRUNNING HEALTHY [] r)"

definition start_engine_with_protection :: "boot_env \<Rightarrow> name \<Rightarrow> runtime \<Rightarrow> runtime" where
  "start_engine_with_protection env n r =
     (case map_of (en_breakers (rt_sys r)) n of
        None \<Rightarrow> start_engine env n r
      | Some b \<Rightarrow>
          (case protected_call (bv_now env) (bv_now env) (Inr () :: unit + unit) b of
             (Inl _, _) \<Rightarrow> mark_status (bv_now env) n EsFAILED UNHEALTHY ''Circuit breaker is open'' r
           | (Inr _, b1) \<Rightarrow>
               (let r1 = start_engine env n r
                in r1\<lparr>rt_sys := (rt_sys r1)\<lparr>en_breakers := AList.update n b1 (en_breakers (rt_sys r1))\<rparr>\<rparr>)))"

definition start_registered_engines :: "boot_env \<Rightarrow> runtime \<Rightarrow> runtime" where
  "start_registered_engines env r =
     fold (\<lambda>n r. if n = ''event_bus'' then r else start_engine_with_protection env n r) (en_engines (rt_sys r)) r"

definition start_event_bus :: "runtime \<Rightarrow> runtime" where
  "start_event_bus r = (if en_event_bus (rt_sys r) then r\<lparr>rt_bus_running := True\<rparr> else r)"

datatype startup_error = JobRefused job_error | UnknownJobKind name | StepError string

text \<open>The loop over the configured jobs: an error ends it with the jobs before it registered.\<close>

fun register_jobs :: "job_env \<Rightarrow> config_job list \<Rightarrow> runtime \<Rightarrow> (startup_error + unit) \<times> runtime" where
  "register_jobs env [] r = (Inr (), r)"
| "register_jobs env (j # js) r =
     (if \<not> cj_enabled j then register_jobs env js r
      else case cj_kind j of
             None \<Rightarrow>
               (Inl (if cj_name j \<in> set (keys (sc_jobs (rt_scheduler r)))
                     then JobRefused (JobAlreadyRegistered (cj_name j)) else UnknownJobKind (cj_name j)), r)
           | Some k \<Rightarrow>
               (case register_job env (cj_name j) k None (cj_interval_seconds j) (cj_cron j) [] None 0 True (rt_scheduler r) of
                  Inl e \<Rightarrow> (Inl (JobRefused e), r)
                | Inr s \<Rightarrow>
                    register_jobs env js
                      (r\<lparr>rt_scheduler := s, rt_config_jobs := set_insert (cj_name j) (rt_config_jobs r)\<rparr>)))"

definition register_config_jobs :: "boot_env \<Rightarrow> runtime \<Rightarrow> (startup_error + unit) \<times> runtime" where
  "register_config_jobs env r =
     (let s = fold (\<lambda>n s. snd (unregister_job n s)) (rt_config_jobs r) (rt_scheduler r)
      in register_jobs (bv_job env) (bv_jobs env) (r\<lparr>rt_scheduler := s, rt_config_jobs := []\<rparr>))"

definition start_workers :: "boot_env \<Rightarrow> runtime \<Rightarrow> (startup_error + unit) \<times> runtime" where
  "start_workers env r =
     (let r1 = start_registered_engines env (start_event_bus r);
          ws = [''heartbeat_sender'', ''scheduler''] @ (if bv_watchdog_enabled env then [''watchdog''] else []) @ [''supervisor'']
      in register_config_jobs env (r1\<lparr>rt_workers := fold set_insert ws (rt_workers r1)\<rparr>))"

text \<open>The clock of \<^verbatim>\<open>mark_ready\<close> reads one instant.\<close>

definition mark_ready :: "time \<Rightarrow> runtime \<Rightarrow> runtime" where
  "mark_ready now r =
     (if rt_phase r = RUNNING then r
      else let p = (if rt_phase r = STARTING
                    then (case transition (rt_phase r) RUNNING of Inr p \<Rightarrow> p | Inl _ \<Rightarrow> rt_phase r)
                    else force (rt_phase r) RUNNING);
               r1 = with_store (set_started now (Some now)) ((with_phase p r)\<lparr>rt_started_at := Some now\<rparr>)
           in rt_publish ''runtime.started'' [] (r1\<lparr>rt_starts := rt_starts r1 + 1\<rparr>))"

text \<open>\<^verbatim>\<open>_resolve_value\<close>: the first reference to an engine that is not registered.\<close>

fun unresolved_engine :: "name list \<Rightarrow> json \<Rightarrow> name option" where
  "unresolved_engine engines (JStr s) =
     (if s = ''@engine'' then (if [] \<in> set engines then None else Some [])
      else if take 8 s = ''@engine:'' \<and> drop 8 s \<notin> set engines then Some (drop 8 s) else None)"
| "unresolved_engine engines (JList vs) =
     foldr (\<lambda>x acc. case x of None \<Rightarrow> acc | Some n \<Rightarrow> Some n) (map (unresolved_engine engines) vs) None"
| "unresolved_engine engines (JObj kvs) =
     foldr (\<lambda>x acc. case x of None \<Rightarrow> acc | Some n \<Rightarrow> Some n) (map (\<lambda>kv. unresolved_engine engines (snd kv)) kvs) None"
| "unresolved_engine engines _ = None"

definition default_engine_name :: "name \<Rightarrow> name" where
  "default_engine_name step =
     (let rest = (if take 11 step = ''initialize_'' then drop 11 step else step) in if rest = [] then step else rest)"

definition run_class_step :: "boot_env \<Rightarrow> step_definition \<Rightarrow> runtime \<Rightarrow> (string + bool) \<times> runtime" where
  "run_class_step env d r =
     (let n = (if sd_engine d \<noteq> [] then sd_engine d else default_engine_name (sd_name d))
      in if sd_module d = [] \<or> sd_class d = []
         then (Inl ''neither an internal target nor a class step'', r)
         else if n \<in> set (en_engines (rt_sys r)) then (Inr True, r)
         else case unresolved_engine (en_engines (rt_sys r)) (JObj (sd_params d)) of
                Some m \<Rightarrow> (Inl (''Referenced engine not registered: '' @ m), r)
              | None \<Rightarrow>
                  (case bv_construct env d of
                     Some e \<Rightarrow> (Inl e, r)
                   | None \<Rightarrow>
                       (case register_engine (bv_now env) n r of
                          (Inl _, r1) \<Rightarrow> (Inl ''heartbeat'', r1)
                        | (Inr _, r1) \<Rightarrow> (Inr False, r1))))"

definition load_project_state :: "boot_env \<Rightarrow> runtime \<Rightarrow> runtime" where
  "load_project_state env r =
     (if \<not> bv_recover_state env then r
      else raw_publish ''runtime.state_recovered'' [] (with_store (snd \<circ> load_state) r))"

definition internal_targets :: "string list" where
  "internal_targets = [''load_constitution'', ''load_project_state'', ''load_configuration'', ''start_runtime'', ''ready'']"

definition run_internal :: "boot_env \<Rightarrow> string \<Rightarrow> runtime \<Rightarrow> (string + unit) \<times> runtime" where
  "run_internal env target r =
     (if target = ''load_constitution''
      then (case bv_constitution env of Inl e \<Rightarrow> (Inl e, r) | Inr c \<Rightarrow> (Inr (), r\<lparr>rt_constitution := c\<rparr>))
      else if target = ''load_project_state'' then (Inr (), load_project_state env r)
      else if target = ''start_runtime''
      then (case start_workers env r of (Inl _, r1) \<Rightarrow> (Inl ''jobs'', r1) | (Inr _, r1) \<Rightarrow> (Inr (), r1))
      else if target = ''ready'' then (Inr (), mark_ready (bv_now env) r)
      else (Inr (), r))"

definition run_startup_step :: "boot_env \<Rightarrow> step_definition \<Rightarrow> runtime \<Rightarrow> step_result \<times> runtime" where
  "run_startup_step env d r =
     (let (outcome, r1) =
        (case sd_target d of
           Some t \<Rightarrow>
             if t \<in> set internal_targets
             then (case run_internal env t r of (Inl e, r1) \<Rightarrow> (Inl e, r1) | (Inr _, r1) \<Rightarrow> (Inr False, r1))
             else run_class_step env d r
         | None \<Rightarrow> run_class_step env d r)
      in (\<lparr>sr_name = sd_name d,
           sr_status = (case outcome of Inl e \<Rightarrow> SuFailed e | Inr _ \<Rightarrow> SuCompleted),
           sr_reused = (case outcome of Inr b \<Rightarrow> b | Inl _ \<Rightarrow> False)\<rparr>, r1))"

text \<open>\<^verbatim>\<open>StartupExecutor.run\<close>: the results so far, and whether it raised.\<close>

fun run_startup :: "boot_env \<Rightarrow> step_definition list \<Rightarrow> step_result list \<Rightarrow> runtime \<Rightarrow> bool \<times> step_result list \<times> runtime" where
  "run_startup env [] acc r = (True, acc, r)"
| "run_startup env (d # ds) acc r =
     (case run_startup_step env d r of
        (res, r1) \<Rightarrow>
          if sr_status res \<noteq> SuCompleted \<and> \<not> bv_continue_on_error env then (False, acc @ [res], r1)
          else run_startup env ds (acc @ [res]) r1)"

datatype runtime_error = StartupError | ShutdownError | InvalidTransition transition_error

definition go_to :: "time \<Rightarrow> RuntimePhase \<Rightarrow> runtime \<Rightarrow> transition_error + runtime" where
  "go_to now p r =
     (case transition (rt_phase r) p of Inl e \<Rightarrow> Inl e | Inr q \<Rightarrow> Inr (with_phase q r))"

definition runtime_start :: "boot_env \<Rightarrow> runtime \<Rightarrow> (runtime_error + unit) \<times> step_result list \<times> runtime" where
  "runtime_start env r =
     (if is_active (rt_phase r) then (Inr (), [], r)
      else case go_to (bv_now env) STARTING r of
             Inl e \<Rightarrow> (Inl (InvalidTransition e), [], r)
           | Inr r1 \<Rightarrow>
               (let r2 = with_store (set_phase (bv_now env) STARTING \<circ> snd \<circ> load_state) r1
                in case run_startup env (bv_steps env) [] r2 of
                     (False, steps, r3) \<Rightarrow>
                       (case go_to (bv_now env) FAILED r3 of
                          Inl e \<Rightarrow> (Inl (InvalidTransition e), steps, r3)
                        | Inr r4 \<Rightarrow>
                            (Inl StartupError, steps,
                             rt_publish ''runtime.component_failed'' ''startup''
                               (with_store (set_phase (bv_now env) FAILED) r4)))
                   | (True, steps, r3) \<Rightarrow> (Inr (), steps, mark_ready (bv_now env) r3)))"

section \<open>Stopping\<close>

definition mark_stopped :: "time \<Rightarrow> runtime \<Rightarrow> runtime" where
  "mark_stopped now r =
     (if rt_phase r = STOPPED then r
      else let p = (if can_transition (rt_phase r) STOPPED
                    then (case transition (rt_phase r) STOPPED of Inr p \<Rightarrow> p | Inl _ \<Rightarrow> rt_phase r)
                    else force (rt_phase r) STOPPED)
           in rt_publish ''runtime.stopped'' [] (with_store (set_stopped now None) (with_phase p r)))"

text \<open>The order of \<^verbatim>\<open>_stop_engines\<close>: any error of the graph, or an empty order, gives that of registration.\<close>

definition stop_order :: "runtime \<Rightarrow> name list" where
  "stop_order r =
     (case reverse_order (en_graph (rt_sys r)) of
        Some (Inr (n # ns)) \<Rightarrow> n # ns
      | _ \<Rightarrow> en_engines (rt_sys r))"

text \<open>Stopping the bus is stopping the engine of this name.\<close>

fun stop_engines :: "boot_env \<Rightarrow> name list \<Rightarrow> runtime \<Rightarrow> (string + unit) \<times> runtime" where
  "stop_engines env [] r = (Inr (), r)"
| "stop_engines env (n # ns) r =
     (if n \<notin> set (en_engines (rt_sys r)) then stop_engines env ns r
      else case bv_stop env n of
             NoStopMethod \<Rightarrow> stop_engines env ns r
           | StopRaises e \<Rightarrow> (Inl e, r\<lparr>rt_stop_calls := rt_stop_calls r @ [n]\<rparr>)
           | StopReturns \<Rightarrow>
               stop_engines env ns
                 (r\<lparr>rt_stop_calls := rt_stop_calls r @ [n],
                    rt_bus_running := (rt_bus_running r \<and> n \<noteq> ''event_bus'')\<rparr>))"

definition stop_processes :: "boot_env \<Rightarrow> runtime \<Rightarrow> runtime" where
  "stop_processes env r =
     (case rm_processes (rt_sys r) of
        None \<Rightarrow> r
      | Some pm \<Rightarrow>
          r\<lparr>rt_sys := (rt_sys r)\<lparr>rm_processes := Some (snd (pm_stop_all (se_alive (bv_sys env)) (bv_now env) pm))\<rparr>\<rparr>)"

text \<open>\<^verbatim>\<open>_stop_workers\<close>: \<^verbatim>\<open>stop\<close> of a worker drops its thread whether the join ended it or timed out.\<close>

definition worker_order :: "name list" where
  "worker_order = [''heartbeat_sender'', ''scheduler'', ''watchdog'', ''supervisor'']"

definition stop_worker :: "boot_env \<Rightarrow> name \<Rightarrow> runtime \<Rightarrow> runtime" where
  "stop_worker env n r =
     (if n \<notin> set (rt_workers r) then r
      else r\<lparr>rt_workers := removeAll n (rt_workers r),
             rt_lingering := rt_lingering r @ (if bv_joins env n then [] else [n])\<rparr>)"

definition stop_workers :: "boot_env \<Rightarrow> runtime \<Rightarrow> runtime" where
  "stop_workers env r = fold (stop_worker env) worker_order r"

datatype shutdown_step = ShNotify | ShWorkers | ShEngines | ShProcesses | ShSave | ShFinalize

definition shutdown_steps :: "shutdown_step list" where
  "shutdown_steps = [ShNotify, ShWorkers, ShEngines, ShProcesses, ShSave, ShFinalize]"

fun run_shutdown_step :: "boot_env \<Rightarrow> shutdown_step \<Rightarrow> runtime \<Rightarrow> (string + unit) \<times> runtime" where
  "run_shutdown_step env ShNotify r = (Inr (), raw_publish ''runtime.stopping'' [] r)"
| "run_shutdown_step env ShWorkers r = (Inr (), stop_workers env r)"
| "run_shutdown_step env ShEngines r = stop_engines env (stop_order r) r"
| "run_shutdown_step env ShProcesses r = (Inr (), stop_processes env r)"
| "run_shutdown_step env ShSave r = (Inr (), with_store (set_stopped (bv_now env) None) r)"
| "run_shutdown_step env ShFinalize r = (Inr (), mark_stopped (bv_now env) r)"

fun run_shutdown ::
  "boot_env \<Rightarrow> bool \<Rightarrow> shutdown_step list \<Rightarrow> (shutdown_step \<times> bool) list \<Rightarrow> runtime \<Rightarrow>
   bool \<times> (shutdown_step \<times> bool) list \<times> runtime"
where
  "run_shutdown env forced [] acc r = (True, acc, r)"
| "run_shutdown env forced (s # ss) acc r =
     (case run_shutdown_step env s r of
        (res, r1) \<Rightarrow>
          if \<not> is_ok res \<and> \<not> forced then (False, acc @ [(s, is_ok res)], r1)
          else run_shutdown env forced ss (acc @ [(s, is_ok res)]) r1)"

definition runtime_stop :: "boot_env \<Rightarrow> bool \<Rightarrow> runtime \<Rightarrow> (runtime_error + unit) \<times> (shutdown_step \<times> bool) list \<times> runtime" where
  "runtime_stop env forced r =
     (if \<not> is_active (rt_phase r) then (Inr (), [], r)
      else case go_to (bv_now env) STOPPING r of
             Inl e \<Rightarrow> (Inl (InvalidTransition e), [], r)
           | Inr r1 \<Rightarrow>
               (case run_shutdown env forced shutdown_steps [] (with_store (set_phase (bv_now env) STOPPING) r1) of
                  (True, steps, r2) \<Rightarrow> (Inr (), steps, r2)
                | (False, steps, r2) \<Rightarrow>
                    (case go_to (bv_now env) FAILED r2 of
                       Inl e \<Rightarrow> (Inl (InvalidTransition e), steps, r2)
                     | Inr r3 \<Rightarrow> (Inl ShutdownError, steps, with_store (set_phase (bv_now env) FAILED) r3))))"

definition runtime_restart :: "boot_env \<Rightarrow> runtime \<Rightarrow> (runtime_error + unit) \<times> runtime" where
  "runtime_restart env r =
     (case (if is_active (rt_phase r) then (case runtime_stop env False r of (res, _, r1) \<Rightarrow> (res, r1)) else (Inr (), r)) of
        (Inl e, r1) \<Rightarrow> (Inl e, r1)
      | (Inr _, r1) \<Rightarrow>
          (case runtime_start env r1 of
             (Inl e, _, r2) \<Rightarrow> (Inl e, r2)
           | (Inr _, _, r2) \<Rightarrow>
               (Inr (), rt_publish ''runtime.restarted'' [] (r2\<lparr>rt_restarts := rt_restarts r2 + 1\<rparr>))))"

section \<open>What a registration keeps\<close>

text \<open>The engines are the components of the graph.\<close>

definition runtime_ok :: "runtime \<Rightarrow> bool" where
  "runtime_ok r \<longleftrightarrow>
     rg_inv (en_graph (rt_sys r)) \<and> distinct (en_engines (rt_sys r)) \<and>
     set (en_engines (rt_sys r)) = set (components (en_graph (rt_sys r)))"

lemma unregister_engine_ok [inv_intros]:
  assumes "runtime_ok r"
  shows "runtime_ok (snd (unregister_engine n r))"
proof (cases "n \<in> set (en_engines (rt_sys r))")
  case True
  let ?g = "en_graph (rt_sys r)"
  have k: "n \<in> set (keys (rg_nodes ?g))" "distinct (rg_order ?g)"
    using assms True by (auto simp: runtime_ok_def rg_inv_def components_def)
  then have "set (components (snd (remove_component n ?g))) = set (components ?g) - {n}"
    by (simp add: remove_component_def components_def)
  then show ?thesis
    using assms True remove_component_inv[of ?g n]
    by (auto simp: runtime_ok_def unregister_engine_def Let_def intro: distinct_removeAll)
qed (use assms in \<open>simp add: unregister_engine_def\<close>)

lemma register_engine_ok [inv_intros]:
  assumes "runtime_ok r"
  shows "runtime_ok (snd (register_engine now n r))"
proof -
  let ?r = "snd (unregister_engine n r)"
  have ok: "runtime_ok ?r" using assms by (rule unregister_engine_ok)
  have new: "n \<notin> set (en_engines (rt_sys ?r))" by (simp add: unregister_engine_def Let_def)
  then have "n \<notin> set (keys (rg_nodes (en_graph (rt_sys ?r))))"
    using ok by (auto simp: runtime_ok_def rg_inv_def components_def)
  then have "set (components (add_component n None (en_graph (rt_sys ?r)))) = insert n (set (components (en_graph (rt_sys ?r))))"
    by (simp add: add_component_def components_def)
  then show ?thesis
    using ok new add_component_inv[of "en_graph (rt_sys ?r)" n None]
    by (auto simp: runtime_ok_def register_engine_def Let_def with_store_def register_factory_def split: sum.splits)
qed

lemma declare_dependency_ok [inv_intros]:
  assumes "runtime_ok r" "c \<in> set (en_engines (rt_sys r))"
  shows "runtime_ok (declare_dependency c d r)"
proof -
  have "c \<in> set (keys (rg_nodes (en_graph (rt_sys r))))"
    using assms by (auto simp: runtime_ok_def rg_inv_def components_def)
  then show ?thesis
    using assms add_dependency_inv[of "en_graph (rt_sys r)" c d]
    by (simp add: runtime_ok_def declare_dependency_def components_def add_dependency_def Let_def)
qed

section \<open>Shutdown\<close>

lemma before_filter:
  assumes "before xs x y" "P x" "P y"
  shows "before (filter P xs) x y"
proof -
  obtain as bs where "xs = as @ bs" "x \<in> set as" "y \<in> set bs" "y \<notin> set as" using assms(1) by (auto simp: before_def)
  with assms(2,3) show ?thesis
    unfolding before_def by (intro exI[of _ "filter P as"] exI[of _ "filter P bs"]) auto
qed

abbreviation stops :: "boot_env \<Rightarrow> runtime \<Rightarrow> name \<Rightarrow> bool" where
  "stops env r n \<equiv> n \<in> set (en_engines (rt_sys r)) \<and> bv_stop env n = StopReturns"

lemma stop_engines_append:
  assumes "\<forall>n \<in> set ns. n \<in> set (en_engines (rt_sys r)) \<longrightarrow> (\<forall>e. bv_stop env n \<noteq> StopRaises e)"
  shows "\<exists>b. stop_engines env (ns @ ms) r =
    stop_engines env ms (r\<lparr>rt_stop_calls := rt_stop_calls r @ filter (stops env r) ns, rt_bus_running := b\<rparr>)"
  using assms
proof (induction ns arbitrary: r)
  case Nil
  have "r = r\<lparr>rt_stop_calls := rt_stop_calls r, rt_bus_running := rt_bus_running r\<rparr>" by simp
  then show ?case by (metis append_Nil append_Nil2 filter.simps(1))
next
  case (Cons n ns)
  show ?case
  proof (cases "stops env r n")
    case True
    let ?r = "r\<lparr>rt_stop_calls := rt_stop_calls r @ [n], rt_bus_running := (rt_bus_running r \<and> n \<noteq> ''event_bus'')\<rparr>"
    have "\<forall>n \<in> set ns. n \<in> set (en_engines (rt_sys ?r)) \<longrightarrow> (\<forall>e. bv_stop env n \<noteq> StopRaises e)" using Cons.prems by simp
    from Cons.IH[OF this] True show ?thesis by simp
  next
    case False
    then have "stop_engines env ((n # ns) @ ms) r = stop_engines env (ns @ ms) r"
      using Cons.prems by (auto split: stop_behaviour.splits)
    moreover have "filter (stops env r) (n # ns) = filter (stops env r) ns" using False by simp
    ultimately show ?thesis using Cons.IH[of r] Cons.prems by simp
  qed
qed

lemma stop_order_reverse: "reverse_order (en_graph (rt_sys r)) = Some (Inr xs) \<Longrightarrow> xs \<noteq> [] \<Longrightarrow> stop_order r = xs"
  by (cases xs) (simp_all add: stop_order_def)

lemma transition_stopping: "is_active p \<Longrightarrow> transition p STOPPING = Inr STOPPING"
  by (cases p) (simp_all add: transition_def is_active_def)

lemma publish_frame_rt [simp]:
  "rt_phase (rt_publish ty c r) = rt_phase r" "rt_store (rt_publish ty c r) = rt_store r"
  "rt_workers (rt_publish ty c r) = rt_workers r" "rt_lingering (rt_publish ty c r) = rt_lingering r" "rt_stop_calls (rt_publish ty c r) = rt_stop_calls r"
  "rm_processes (rt_sys (rt_publish ty c r)) = rm_processes (rt_sys r)"
  "rt_phase (raw_publish ty c r) = rt_phase r" "rt_store (raw_publish ty c r) = rt_store r"
  "rt_workers (raw_publish ty c r) = rt_workers r" "rt_lingering (raw_publish ty c r) = rt_lingering r" "rt_stop_calls (raw_publish ty c r) = rt_stop_calls r"
  "rm_processes (rt_sys (raw_publish ty c r)) = rm_processes (rt_sys r)"
  "en_engines (rt_sys (raw_publish ty c r)) = en_engines (rt_sys r)"
  "en_graph (rt_sys (raw_publish ty c r)) = en_graph (rt_sys r)"
  by (simp_all add: rt_publish_def raw_publish_def)

lemma with_phase_store [simp]:
  "rt_phase (with_phase p r) = p" "rt_store (with_phase p r) = rt_store r" "rt_workers (with_phase p r) = rt_workers r"
  "rt_lingering (with_phase p r) = rt_lingering r" "rt_lingering (with_store f r) = rt_lingering r"
  "rt_stop_calls (with_phase p r) = rt_stop_calls r" "rm_processes (rt_sys (with_phase p r)) = rm_processes (rt_sys r)"
  "en_engines (rt_sys (with_phase p r)) = en_engines (rt_sys r)" "en_graph (rt_sys (with_phase p r)) = en_graph (rt_sys r)"
  "rt_sys (with_store f r) = rt_sys r" "rt_store (with_store f r) = f (rt_store r)"
  "rt_workers (with_store f r) = rt_workers r" "rt_stop_calls (with_store f r) = rt_stop_calls r"
  by (simp_all add: with_phase_def with_store_def)

lemma stop_worker_fold:
  assumes "distinct ns"
  shows "fold (stop_worker env) ns r = r\<lparr>rt_workers := filter (\<lambda>n. n \<notin> set ns) (rt_workers r),
    rt_lingering := rt_lingering r @ filter (\<lambda>n. n \<in> set (rt_workers r) \<and> \<not> bv_joins env n) ns\<rparr>"
  using assms
proof (induction ns arbitrary: r)
  case (Cons n ns)
  have same: "filter (\<lambda>m. m \<in> set (rt_workers (stop_worker env n r)) \<and> \<not> bv_joins env m) ns =
      filter (\<lambda>m. m \<in> set (rt_workers r) \<and> \<not> bv_joins env m) ns"
    using Cons.prems by (intro filter_cong) (auto simp: stop_worker_def)
  have "filter (\<lambda>m. m \<notin> set ns) (rt_workers (stop_worker env n r)) = filter (\<lambda>m. m \<notin> set (n # ns)) (rt_workers r)"
    by (auto simp: stop_worker_def removeAll_filter_not_eq intro!: filter_cong)
  moreover have "rt_lingering (stop_worker env n r) =
      rt_lingering r @ (if n \<in> set (rt_workers r) \<and> \<not> bv_joins env n then [n] else [])"
    by (simp add: stop_worker_def)
  moreover have "(stop_worker env n r)\<lparr>rt_workers := ws, rt_lingering := ls\<rparr> = r\<lparr>rt_workers := ws, rt_lingering := ls\<rparr>" for ws ls
    by (simp add: stop_worker_def)
  ultimately show ?case using Cons.IH[of "stop_worker env n r"] Cons.prems same by simp
qed simp

lemma stop_workers_result:
  "stop_workers env r = r\<lparr>rt_workers := filter (\<lambda>n. n \<notin> set worker_order) (rt_workers r),
    rt_lingering := rt_lingering r @ filter (\<lambda>n. n \<in> set (rt_workers r) \<and> \<not> bv_joins env n) worker_order\<rparr>"
  unfolding stop_workers_def by (rule stop_worker_fold) (simp add: worker_order_def)

text \<open>The state in which the engines are stopped.\<close>

definition stopping_state :: "boot_env \<Rightarrow> runtime \<Rightarrow> runtime" where
  "stopping_state env r =
     stop_workers env (raw_publish ''runtime.stopping'' [] (with_store (set_phase (bv_now env) STOPPING) (with_phase STOPPING r)))"

lemma stopping_state_fields [simp]:
  "rt_phase (stopping_state env r) = STOPPING" 
  "rt_workers (stopping_state env r) = filter (\<lambda>n. n \<notin> set worker_order) (rt_workers r)"
  "rt_lingering (stopping_state env r) =
     rt_lingering r @ filter (\<lambda>n. n \<in> set (rt_workers r) \<and> \<not> bv_joins env n) worker_order"
  "rt_stop_calls (stopping_state env r) = rt_stop_calls r"
  "en_engines (rt_sys (stopping_state env r)) = en_engines (rt_sys r)"
  "stop_order (stopping_state env r) = stop_order r"
  "rm_processes (rt_sys (stopping_state env r)) = rm_processes (rt_sys r)"
  "rt_store (stopping_state env r) = set_phase (bv_now env) STOPPING (rt_store r)"
  by (simp_all add: stopping_state_def stop_workers_result stop_order_def split: option.split sum.split list.split)

lemma runtime_stop_engines:
  assumes "is_active (rt_phase r)"
  shows "runtime_stop env forced r =
    (case run_shutdown env forced (drop 2 shutdown_steps) [(ShNotify, True), (ShWorkers, True)] (stopping_state env r) of
       (True, steps, r2) \<Rightarrow> (Inr (), steps, r2)
     | (False, steps, r2) \<Rightarrow>
         (case go_to (bv_now env) FAILED r2 of
            Inl e \<Rightarrow> (Inl (InvalidTransition e), steps, r2)
          | Inr r3 \<Rightarrow> (Inl ShutdownError, steps, with_store (set_phase (bv_now env) FAILED) r3)))"
  using assms transition_stopping[OF assms]
  by (simp add: runtime_stop_def go_to_def shutdown_steps_def stopping_state_def)

lemma stop_processes_frame [simp]:
  "rt_phase (stop_processes env r) = rt_phase r" "rt_store (stop_processes env r) = rt_store r"
  "rt_workers (stop_processes env r) = rt_workers r" "rt_lingering (stop_processes env r) = rt_lingering r" "rt_stop_calls (stop_processes env r) = rt_stop_calls r"
  by (simp_all add: stop_processes_def split: option.split)

text \<open>The rest of a shutdown whose engines stopped.\<close>

lemma shutdown_rest:
  assumes "stop_engines env (stop_order r) r = (Inr (), r1)" "rt_phase r1 = STOPPING"
  obtains steps r2 where "run_shutdown env forced (drop 2 shutdown_steps) acc r = (True, steps, r2)"
    "rt_phase r2 = STOPPED" "rt_workers r2 = rt_workers r1" "rt_lingering r2 = rt_lingering r1" "rt_stop_calls r2 = rt_stop_calls r1"
    "rs_phase (ts_state (rt_store r2)) = STOPPED"
proof -
  have "can_transition STOPPING STOPPED" "transition STOPPING STOPPED = Inr STOPPED"
    by (simp_all add: transition_def)
  then show thesis
    using assms that by (simp add: shutdown_steps_def mark_stopped_def numeral_2_eq_2)
qed

lemma stop_order_members:
  assumes "runtime_ok r" "cycle_detection (en_graph (rt_sys r))" "reverse_order (en_graph (rt_sys r)) = Some (Inr xs)"
  shows "stop_order r = xs" "distinct xs" "set xs = set (en_engines (rt_sys r))"
proof -
  have x: "distinct xs" "set xs = set (en_engines (rt_sys r))"
    using reverse_order_dependents_first[OF _ assms(2,3)] assms(1) by (auto simp: runtime_ok_def)
  then show "distinct xs" "set xs = set (en_engines (rt_sys r))" by blast+
  show "stop_order r = xs"
  proof (cases "xs = []")
    case True
    then have "en_engines (rt_sys r) = []" using x(2) by simp
    then show ?thesis using assms(3) True by (simp add: stop_order_def)
  qed (use assms(3) stop_order_reverse in blast)
qed

section \<open>Startup\<close>

text \<open>The file holds the state, with the phase of the runtime.\<close>

definition synced :: "runtime \<Rightarrow> bool" where
  "synced r \<longleftrightarrow>
     ts_file (rt_store r) = Some (ts_state (rt_store r)) \<and> rs_phase (ts_state (rt_store r)) = rt_phase r"

text \<open>What a step of the startup may do to the phase and to the state.\<close>

definition boot_step :: "runtime \<Rightarrow> runtime \<Rightarrow> bool" where
  "boot_step r r' \<longleftrightarrow>
     (rt_phase r \<in> {STARTING, RUNNING} \<longrightarrow> rt_phase r' \<in> {STARTING, RUNNING}) \<and>
     ts_persist (rt_store r') = ts_persist (rt_store r) \<and>
     (ts_persist (rt_store r) \<and> synced r \<longrightarrow>
        synced r' \<and> activity (ts_state (rt_store r')) = activity (ts_state (rt_store r)))"

lemma boot_refl [simp, intro]: "boot_step r r"
  by (simp add: boot_step_def)

lemma boot_trans: "boot_step r r1 \<Longrightarrow> boot_step r1 r2 \<Longrightarrow> boot_step r r2"
  by (auto simp: boot_step_def)

lemma boot_same: "rt_phase r' = rt_phase r \<Longrightarrow> rt_store r' = rt_store r \<Longrightarrow> boot_step r r'"
  by (simp add: boot_step_def synced_def)

lemma boot_set_engine:
  "rt_phase r' = rt_phase r \<Longrightarrow> rt_store r' = set_engine now n e (rt_store r) \<Longrightarrow> boot_step r r'"
  by (simp add: boot_step_def synced_def)

lemma boot_fold: "(\<And>x r. boot_step r (f x r)) \<Longrightarrow> boot_step r (fold f xs r)"
  by (induction xs arbitrary: r) (auto intro: boot_trans)

lemma mark_engine_status_phase [simp]: "en_phase (mark_engine_status now n st h m w) = en_phase w"
  by (simp add: mark_engine_status_def Let_def split: option.split)

lemma boot_mark_status: "boot_step r (mark_status now n st h m r)"
  by (auto simp: mark_status_def Let_def with_store_def split: option.split intro: boot_same boot_set_engine)

lemma boot_start_engine: "boot_step r (start_engine env n r)"
  by (auto simp: start_engine_def boot_mark_status split: start_behaviour.split)

lemma boot_start_protected: "boot_step r (start_engine_with_protection env n r)"
proof (cases "map_of (en_breakers (rt_sys r)) n")
  case None
  then show ?thesis by (simp add: start_engine_with_protection_def boot_start_engine)
next
  case (Some b)
  have "boot_step (start_engine env n r) ((start_engine env n r)\<lparr>rt_sys := (rt_sys (start_engine env n r))\<lparr>en_breakers := bs\<rparr>\<rparr>)" for bs
    by (rule boot_same) simp_all
  then show ?thesis
    using Some boot_start_engine[of r env n]
    by (auto simp: start_engine_with_protection_def Let_def boot_mark_status split: prod.split sum.split intro: boot_trans)
qed

lemma boot_register_jobs: "boot_step r (snd (register_jobs env js r))"
proof (induction env js r rule: register_jobs.induct)
  case (2 env j js r)
  have "boot_step r (r\<lparr>rt_scheduler := s, rt_config_jobs := ns\<rparr>)" for s ns by (rule boot_same) simp_all
  note step = boot_trans[OF this]
  show ?case using 2 by (auto split: option.split sum.split intro: step)
qed simp

lemma boot_start_workers: "boot_step r (snd (start_workers env r))"
proof -
  define r0 where "r0 = start_event_bus r"
  define r1 where "r1 = start_registered_engines env r0"
  have "boot_step r r0" by (auto simp: r0_def start_event_bus_def intro: boot_same)
  moreover have "boot_step r0 r1"
    unfolding r1_def start_registered_engines_def by (rule boot_fold) (simp add: boot_start_protected)
  ultimately have r1: "boot_step r r1" by (rule boot_trans)
  have "boot_step r1 (r1\<lparr>rt_workers := ws, rt_scheduler := s, rt_config_jobs := []\<rparr>)" for ws s
    by (rule boot_same) simp_all
  note step = boot_trans[OF boot_trans[OF r1 this] boot_register_jobs]
  show ?thesis
    unfolding start_workers_def register_config_jobs_def Let_def r0_def[symmetric] r1_def[symmetric]
    using step by simp
qed

lemma boot_mark_ready: "boot_step r (mark_ready now r)"
proof (cases "rt_phase r = RUNNING")
  case True
  then show ?thesis by (simp add: mark_ready_def)
next
  case False
  have "transition STARTING RUNNING = Inr RUNNING" by (simp add: transition_def)
  then show ?thesis
    using False by (auto simp: mark_ready_def Let_def boot_step_def synced_def force_def)
qed

lemma boot_register_engine: "boot_step r (snd (register_engine now n r))"
proof -
  have "boot_step r (snd (unregister_engine n r))"
    by (auto simp: unregister_engine_def Let_def intro: boot_same)
  moreover have "boot_step q (snd (register_engine now n r))" if "q = snd (unregister_engine n r)" for q
    unfolding register_engine_def that[symmetric] Let_def
    by (auto simp: register_factory_def split: sum.split intro: boot_same boot_set_engine)
  ultimately show ?thesis using boot_trans by blast
qed

lemma boot_class_step: "boot_step r (snd (run_class_step env d r))"
proof -
  define n where "n = (if sd_engine d \<noteq> [] then sd_engine d else default_engine_name (sd_name d))"
  have "snd (case register_engine now n r of (Inl _, r1) \<Rightarrow> (Inl e, r1) | (Inr _, r1) \<Rightarrow> (Inr False, r1)) =
      snd (register_engine now n r)" for now :: time and e :: string
    by (simp split: prod.split sum.split)
  then show ?thesis
    unfolding run_class_step_def Let_def n_def[symmetric] by (simp add: boot_register_engine split: option.split)
qed

lemma boot_load_project: "boot_step r (load_project_state env r)"
  by (auto simp: load_project_state_def boot_step_def synced_def comp_def)

lemma boot_internal: "boot_step r (snd (run_internal env t r))"
proof -
  have "snd (case start_workers env r of (Inl _, r1) \<Rightarrow> (Inl e, r1) | (Inr _, r1) \<Rightarrow> (Inr (), r1)) = snd (start_workers env r)"
    for e :: string by (simp split: prod.split sum.split)
  moreover have "boot_step r (r\<lparr>rt_constitution := c\<rparr>)" for c by (rule boot_same) simp_all
  ultimately show ?thesis
    unfolding run_internal_def
    by (simp add: boot_load_project boot_start_workers boot_mark_ready split: sum.split)
qed

lemma boot_startup_step: "boot_step r (snd (run_startup_step env d r))"
proof -
  have "snd (case run_internal env t r of (Inl e, r1) \<Rightarrow> (Inl e, r1) | (Inr _, r1) \<Rightarrow> (Inr False, r1)) = snd (run_internal env t r)"
    for t by (simp split: prod.split sum.split)
  then show ?thesis
    unfolding run_startup_step_def Let_def
    by (simp add: case_prod_unfold boot_class_step boot_internal split: option.split)
qed

lemma startup_step_name [simp]: "sr_name (fst (run_startup_step env d r)) = sd_name d"
  by (simp add: run_startup_step_def Let_def case_prod_unfold)

text \<open>How far a startup gets.\<close>

definition all_completed :: "step_result list \<Rightarrow> bool" where
  "all_completed rs \<longleftrightarrow> (\<forall>x \<in> set rs. sr_status x = SuCompleted)"

lemma run_startup_result:
  "run_startup env ds acc r = (ok, steps, r') \<Longrightarrow>
   boot_step r r' \<and>
   (\<exists>res. steps = acc @ res \<and> map sr_name res = take (length res) (map sd_name ds) \<and>
      (if ok then length res = length ds \<and> (bv_continue_on_error env \<or> all_completed res)
       else \<not> bv_continue_on_error env \<and> res \<noteq> [] \<and> \<not> all_completed res \<and> all_completed (butlast res)))"
proof (induction env ds acc r rule: run_startup.induct)
  case (1 env acc r)
  then show ?case by (simp add: all_completed_def)
next
  case (2 env d ds acc r)
  obtain x r1 where x: "run_startup_step env d r = (x, r1)" by (cases "run_startup_step env d r")
  have b: "boot_step r r1" and n: "sr_name x = sd_name d"
    using boot_startup_step[of r env d] startup_step_name[of env d r] x by simp_all
  show ?case
  proof (cases "sr_status x \<noteq> SuCompleted \<and> \<not> bv_continue_on_error env")
    case True
    then have "steps = acc @ [x]" "r' = r1" "\<not> ok" using 2(2) x by auto
    then show ?thesis using b n True by (auto simp: all_completed_def intro!: exI[of _ "[x]"])
  next
    case False
    then have "run_startup env ds (acc @ [x]) r1 = (ok, steps, r')" using 2(2) x by (auto split: if_splits)
    with 2(1)[OF x[symmetric] _ this] False obtain res where res: "boot_step r1 r'" "steps = (acc @ [x]) @ res"
      "map sr_name res = take (length res) (map sd_name ds)"
      "if ok then length res = length ds \<and> (bv_continue_on_error env \<or> all_completed res)
       else \<not> bv_continue_on_error env \<and> res \<noteq> [] \<and> \<not> all_completed res \<and> all_completed (butlast res)" by auto
    show ?thesis using res n False boot_trans[OF b res(1)]
      by (auto simp: all_completed_def intro!: exI[of _ "x # res"] split: if_splits)
  qed
qed


text \<open>The start of a runtime that is not active, in one case distinction.\<close>

lemma runtime_start_result:
  assumes "\<not> is_active (rt_phase r)"
  obtains steps r' where "runtime_start env r = (if bv_continue_on_error env \<or> all_completed steps then Inr () else Inl StartupError, steps, r')"
    "map sr_name steps = take (length steps) (map sd_name (bv_steps env))"
    "if bv_continue_on_error env \<or> all_completed steps then length steps = length (bv_steps env) \<and> rt_phase r' = RUNNING
     else steps \<noteq> [] \<and> all_completed (butlast steps) \<and> rt_phase r' = FAILED"
    "ts_persist (rt_store r) \<Longrightarrow>
       synced r' \<and> activity (ts_state (rt_store r')) = activity (ts_state (snd (load_state (rt_store r))))"
proof -
  let ?now = "bv_now env"
  define r2 where "r2 = with_store (set_phase ?now STARTING \<circ> snd \<circ> load_state) (with_phase STARTING r)"
  have go: "go_to ?now STARTING r = Inr (with_phase STARTING r)"
    using assms by (cases "rt_phase r") (simp_all add: go_to_def transition_def is_active_def)
  have r2: "rt_phase r2 = STARTING" "ts_persist (rt_store r2) = ts_persist (rt_store r)"
    "ts_persist (rt_store r) \<Longrightarrow> synced r2"
    "activity (ts_state (rt_store r2)) = activity (ts_state (snd (load_state (rt_store r))))"
    by (simp_all add: r2_def synced_def)
  obtain ok steps r3 where run: "run_startup env (bv_steps env) [] r2 = (ok, steps, r3)"
    by (cases "run_startup env (bv_steps env) [] r2")
  note res = run_startup_result[OF run, simplified]
  have step: "boot_step r2 r3" using res by blast
  then have r3: "rt_phase r3 \<in> {STARTING, RUNNING}" using r2(1) by (simp add: boot_step_def)
  have ok: "ok \<longleftrightarrow> bv_continue_on_error env \<or> all_completed steps" using res by (auto split: if_splits)
  show thesis
  proof (cases ok)
    case True
    have start: "runtime_start env r = (Inr (), steps, mark_ready ?now r3)"
      using assms go run True by (simp add: runtime_start_def r2_def[symmetric] Let_def)
    have b: "boot_step r2 (mark_ready ?now r3)" using step boot_mark_ready by (rule boot_trans)
    have p: "rt_phase (mark_ready ?now r3) = RUNNING"
      using r3 by (auto simp: mark_ready_def Let_def transition_def)
    have c: "bv_continue_on_error env \<or> all_completed steps" using ok True by blast
    show ?thesis
    proof (rule that)
      show "runtime_start env r = (if bv_continue_on_error env \<or> all_completed steps then Inr () else Inl StartupError,
          steps, mark_ready ?now r3)" using start c by (simp only: if_True)
      show "map sr_name steps = take (length steps) (map sd_name (bv_steps env))" using res by blast
      show "if bv_continue_on_error env \<or> all_completed steps
        then length steps = length (bv_steps env) \<and> rt_phase (mark_ready ?now r3) = RUNNING
        else steps \<noteq> [] \<and> all_completed (butlast steps) \<and> rt_phase (mark_ready ?now r3) = FAILED"
        using c p res True by (simp only: if_True)
    qed (use b r2 in \<open>simp add: boot_step_def\<close>)
  next
    case False
    define r4 where "r4 = rt_publish ''runtime.component_failed'' ''startup'' (with_store (set_phase ?now FAILED) (with_phase FAILED r3))"
    have "go_to ?now FAILED r3 = Inr (with_phase FAILED r3)"
      using r3 by (auto simp: go_to_def transition_def)
    then have start: "runtime_start env r = (Inl StartupError, steps, r4)"
      using assms go run False by (simp add: runtime_start_def r2_def[symmetric] Let_def r4_def)
    have r4: "rt_phase r4 = FAILED" "rt_store r4 = set_phase ?now FAILED (rt_store r3)"
      by (simp_all add: r4_def)
    have c: "\<not> (bv_continue_on_error env \<or> all_completed steps)" using ok False by blast
    show ?thesis
    proof (rule that)
      show "runtime_start env r = (if bv_continue_on_error env \<or> all_completed steps then Inr () else Inl StartupError,
          steps, r4)" using start c by (simp only: if_False)
      show "map sr_name steps = take (length steps) (map sd_name (bv_steps env))" using res by blast
      show "if bv_continue_on_error env \<or> all_completed steps
        then length steps = length (bv_steps env) \<and> rt_phase r4 = RUNNING
        else steps \<noteq> [] \<and> all_completed (butlast steps) \<and> rt_phase r4 = FAILED"
        using r4(1) res False by (simp add: if_not_P[OF c])
    qed (use step r2 r4 in \<open>simp_all add: boot_step_def synced_def\<close>)
  qed
qed

section \<open>Witnesses\<close>

text \<open>Two engines, one on top of the other, and a configuration that starts the workers.\<close>

definition demo_step :: "name \<Rightarrow> string option \<Rightarrow> step_definition" where
  "demo_step n target = \<lparr>sd_name = n, sd_target = target, sd_module = [], sd_class = [], sd_engine = [], sd_params = []\<rparr>"

definition demo_boot_env :: "(name \<Rightarrow> stop_behaviour) \<Rightarrow> boot_env" where
  "demo_boot_env stop =
     \<lparr>bv_sys = demo_env, bv_job = demo_job_env, bv_jobs = [],
      bv_steps = [demo_step ''boot'' (Some ''start_runtime''), demo_step ''broken'' None, demo_step ''ready'' (Some ''ready'')],
      bv_continue_on_error = False, bv_recover_state = True, bv_constitution = Inr [], bv_construct = (\<lambda>_. None),
      bv_watchdog_enabled = True, bv_stop = stop, bv_joins = (\<lambda>n. n \<noteq> ''scheduler'')\<rparr>"

definition demo_boot_graph :: runtime_graph where
  "demo_boot_graph = add_component ''api'' (Some [''db'']) (add_component ''db'' None (new_graph ''raise'' True))"

definition demo_runtime :: "RuntimePhase \<Rightarrow> runtime" where
  "demo_runtime p =
     \<lparr>rt_sys = demo_system\<lparr>en_engines := [''db'', ''api''], en_phase := p, en_graph := demo_boot_graph\<rparr>,
      rt_store = new_runtime_store True (Some (new_runtime_state\<lparr>rs_active_workflows := [''w1'']\<rparr>)),
      rt_scheduler = new_scheduler 1, rt_config_jobs = [], rt_workers = [''scheduler'', ''supervisor''], rt_lingering = [], rt_bus_running = False,
      rt_started_at = None, rt_starts = 0, rt_restarts = 0, rt_constitution = [], rt_stop_calls = []\<rparr>"

lemma demo_boot_graph_facts:
  "reverse_order demo_boot_graph = Some (Inr [''api'', ''db''])" "cycle_detection demo_boot_graph"
  "components demo_boot_graph = [''db'', ''api'']" "rg_deps demo_boot_graph ''api'' = [''db'']"
  by code_simp+

lemma demo_boot_graph_inv: "rg_inv demo_boot_graph"
  unfolding demo_boot_graph_def by (intro inv_intros)

lemma demo_runtime_fields [simp]:
  "rt_phase (demo_runtime p) = p" "en_graph (rt_sys (demo_runtime p)) = demo_boot_graph"
  "rt_workers (demo_runtime p) = [''scheduler'', ''supervisor'']" "rt_lingering (demo_runtime p) = []"
  "en_engines (rt_sys (demo_runtime p)) = [''db'', ''api'']" "rt_stop_calls (demo_runtime p) = []"
  "rt_store (demo_runtime p) = new_runtime_store True (Some (new_runtime_state\<lparr>rs_active_workflows := [''w1'']\<rparr>))"
  "rm_processes (rt_sys (demo_runtime p)) = Some new_process_manager"
  by (simp_all add: demo_runtime_def demo_system_def)

lemma demo_runtime_ok: "runtime_ok (demo_runtime p)"
  by (simp add: runtime_ok_def demo_boot_graph_inv demo_boot_graph_facts)

lemma demo_stop_order: "stop_order (demo_runtime p) = [''api'', ''db'']"
  by (simp add: stop_order_def demo_boot_graph_facts)

lemma demo_boot_env_fields [simp]:
  "bv_stop (demo_boot_env f) = f" "bv_joins (demo_boot_env f) = (\<lambda>n. n \<noteq> ''scheduler'')" "\<not> bv_continue_on_error (demo_boot_env f)"
  "map sd_name (bv_steps (demo_boot_env f)) = [''boot'', ''broken'', ''ready'']"
  by (simp_all add: demo_boot_env_def demo_step_def)

section \<open>Properties\<close>



text \<open>C27: One failing engine ends every shutdown: when the \<^verbatim>\<open>stop\<close> of an engine raises, a stop that is not
  forced raises too; the engines after it in the order and the processes are left running, the runtime
  is FAILED, and from then on every stop, forced or not, does nothing.\<close>

theorem failed_shutdown_is_final:
  assumes "is_active (rt_phase r)" "stop_order r = pre @ n # post"
    and "n \<in> set (en_engines (rt_sys r))" "bv_stop env n = StopRaises e"
    and "\<forall>m \<in> set pre. m \<in> set (en_engines (rt_sys r)) \<longrightarrow> (\<forall>e. bv_stop env m \<noteq> StopRaises e)"
  shows "\<exists>steps r'. runtime_stop env False r = (Inl ShutdownError, steps, r') \<and> rt_phase r' = FAILED \<and>
    rt_stop_calls r' = rt_stop_calls r @ filter (stops env r) pre @ [n] \<and>
    rm_processes (rt_sys r') = rm_processes (rt_sys r) \<and>
    (\<forall>env' forced. runtime_stop env' forced r' = (Inr (), [], r'))"
proof -
  let ?s = "stopping_state env r"
  obtain b where b: "stop_engines env (pre @ n # post) ?s =
      stop_engines env (n # post) (?s\<lparr>rt_stop_calls := rt_stop_calls ?s @ filter (stops env ?s) pre, rt_bus_running := b\<rparr>)"
    using stop_engines_append[of pre ?s env "n # post"] assms(5) by auto
  define st where "st = ?s\<lparr>rt_stop_calls := rt_stop_calls ?s @ filter (stops env ?s) pre @ [n], rt_bus_running := b\<rparr>"
  have "stop_engines env (stop_order ?s) ?s = (Inl e, st)" using b assms(2-4) by (simp add: st_def)
  moreover have "rt_phase st = STOPPING" "rt_stop_calls st = rt_stop_calls r @ filter (stops env r) pre @ [n]"
    "rm_processes (rt_sys st) = rm_processes (rt_sys r)" by (simp_all add: st_def)
  moreover have "transition STOPPING FAILED = Inr FAILED" by (simp add: transition_def)
  ultimately show ?thesis
    using runtime_stop_engines[OF assms(1), of env False]
    by (simp add: shutdown_steps_def numeral_2_eq_2 go_to_def runtime_stop_def is_active_def with_store_def with_phase_def)
qed

theorem failed_shutdown_is_final_witness:
  "\<exists>steps r'. runtime_stop (demo_boot_env (\<lambda>_. StopRaises ''busy'')) False (demo_runtime RUNNING) =
      (Inl ShutdownError, steps, r') \<and> rt_phase r' = FAILED \<and> rt_stop_calls r' = [''api''] \<and>
    (\<forall>env' forced. runtime_stop env' forced r' = (Inr (), [], r'))"
proof -
  have "is_active (rt_phase (demo_runtime RUNNING))" by (simp add: is_active_def)
  from failed_shutdown_is_final[OF this, of "[]" "''api''" "[''db'']" "demo_boot_env (\<lambda>_. StopRaises ''busy'')" "''busy''"]
  show ?thesis by (auto simp: demo_stop_order)
qed

text \<open>C28: What a start comes to, from any phase that is not active: the steps run in the configured order.
  When every step completes, or failures are tolerated, all of them run and the runtime is RUNNING;
  otherwise the first failing step is the last to run, the start raises and the runtime is FAILED.
  The persisted phase is that of the runtime.\<close>

theorem startup_outcome:
  assumes "\<not> is_active (rt_phase r)"
  shows "\<exists>res steps r'. runtime_start env r = (res, steps, r') \<and>
    map sr_name steps = take (length steps) (map sd_name (bv_steps env)) \<and>
    (if bv_continue_on_error env \<or> all_completed steps
     then res = Inr () \<and> length steps = length (bv_steps env) \<and> rt_phase r' = RUNNING
     else res = Inl StartupError \<and> steps \<noteq> [] \<and> all_completed (butlast steps) \<and> rt_phase r' = FAILED) \<and>
    (ts_persist (rt_store r) \<longrightarrow> map_option rs_phase (ts_file (rt_store r')) = Some (rt_phase r'))"
  using assms
proof (rule runtime_start_result[where env = env], goal_cases)
  case (1 steps r')
  have "ts_persist (rt_store r) \<longrightarrow> map_option rs_phase (ts_file (rt_store r')) = Some (rt_phase r')"
    using 1(4) by (simp add: synced_def)
  then show ?case using 1(1-3)
    by (cases "bv_continue_on_error env \<or> all_completed steps") (simp_all add: if_P if_not_P)
qed

theorem startup_outcome_witness:
  "\<exists>res steps r'. runtime_start (demo_boot_env (\<lambda>_. StopReturns)) (demo_runtime STOPPED) = (res, steps, r') \<and>
    map sr_name steps = take (length steps) [''boot'', ''broken'', ''ready''] \<and>
    (if all_completed steps then res = Inr () \<and> rt_phase r' = RUNNING else res = Inl StartupError \<and> rt_phase r' = FAILED)"
proof -
  have "\<not> is_active (rt_phase (demo_runtime STOPPED))" by (simp add: is_active_def)
  from startup_outcome[OF this, of "demo_boot_env (\<lambda>_. StopReturns)"]
  obtain res steps r' where r': "runtime_start (demo_boot_env (\<lambda>_. StopReturns)) (demo_runtime STOPPED) = (res, steps, r')"
      "map sr_name steps = take (length steps) (map sd_name (bv_steps (demo_boot_env (\<lambda>_. StopReturns))))"
      "if bv_continue_on_error (demo_boot_env (\<lambda>_. StopReturns)) \<or> all_completed steps
       then res = Inr () \<and> length steps = length (bv_steps (demo_boot_env (\<lambda>_. StopReturns))) \<and> rt_phase r' = RUNNING
       else res = Inl StartupError \<and> steps \<noteq> [] \<and> all_completed (butlast steps) \<and> rt_phase r' = FAILED"
    by blast
  then show ?thesis by (cases "all_completed steps") fastforce+
qed

text \<open>Registering an engine before the start loses what was in progress: a start from a fresh store
  keeps the entities in progress that the file holds; the registration saves the empty state over the
  file, so the same start after it recovers nothing and leaves the file without them.\<close>

theorem registering_before_start_loses_activity:
  assumes "\<not> is_active (rt_phase r)" "rt_store r = new_runtime_store True (Some s)"
    and "is_ok (fst (register_engine now n r))"
  shows "map_option activity (ts_file (rt_store (snd (snd (runtime_start env r))))) = Some (activity s) \<and>
    map_option activity (ts_file (rt_store (snd (snd (runtime_start env (snd (register_engine now n r))))))) =
      Some (replicate 6 [])"
proof -
  let ?r = "snd (register_engine now n r)"
  have r: "rt_phase ?r = rt_phase r" "rt_store ?r = set_engine now n registered_state (rt_store r)"
    using assms(3) by (auto simp: register_engine_def unregister_engine_def register_factory_def with_store_def Let_def split: sum.splits)
  have act: "map_option activity (ts_file (rt_store (snd (snd (runtime_start env q))))) =
      Some (activity (ts_state (snd (load_state (rt_store q)))))" if "\<not> is_active (rt_phase q)" "ts_persist (rt_store q)" for q
    using that(1) by (rule runtime_start_result[where env = env]) (use that(2) in \<open>simp add: synced_def\<close>)
  have "activity new_runtime_state = replicate 6 []"
    by (simp add: activity_def new_runtime_state_def numeral_eq_Suc)
  then show ?thesis using act[of r] act[of ?r] assms(1,2) r by (simp add: new_runtime_store_def)
qed

theorem registering_before_start_loses_activity_witness:
  "map_option activity (ts_file (rt_store (snd (snd (runtime_start (demo_boot_env (\<lambda>_. StopReturns))
      (snd (register_engine 0 ''search'' (demo_runtime STOPPED))))))))
   \<noteq> map_option activity (ts_file (rt_store (snd (snd (runtime_start (demo_boot_env (\<lambda>_. StopReturns)) (demo_runtime STOPPED))))))"
proof -
  have a: "\<not> is_active (rt_phase (demo_runtime STOPPED))" by (simp add: is_active_def)
  have b: "is_ok (fst (register_engine 0 ''search'' (demo_runtime STOPPED)))"
    by (simp add: register_engine_def unregister_engine_def demo_runtime_def demo_system_def hb_beat_def hb_register_def
        new_heartbeat_manager_def Let_def)
  have "activity (new_runtime_state\<lparr>rs_active_workflows := [''w1'']\<rparr>) \<noteq> replicate 6 []"
    by (simp add: activity_def numeral_eq_Suc)
  then show ?thesis
    using registering_before_start_loses_activity[OF a demo_runtime_fields(7) b, of "demo_boot_env (\<lambda>_. StopReturns)"]
    by (simp only: option.inject not_False_eq_True)
qed

end
