(* ===== verification/MemoryStore.thy ===== *)
theory MemoryStore
  imports PyValue "HOL-Library.Product_Lexorder"
begin

text \<open>
  The namespace-aware memory store (\<^verbatim>\<open>memory/store.py\<close>, class \<^verbatim>\<open>MemoryStore\<close>, with its
  entries from \<^verbatim>\<open>memory/models.py\<close>): a dictionary of entries, five indexes from a key to a set
  of entry ids, and the JSONL file behind them.

  A set of ids is a list without repetition, in iteration order; no property depends on that
  order.  The JSONL file is the list of the entries written to it, oldest first.  Entry contents and
  metadata are JSON values (fields of an entry that no modelled operation reads are left out), the text
  \<^verbatim>\<open>str(content)\<close> is a parameter; text is ASCII.
  The two ancestry walks may run forever: they are partial functions whose \<^verbatim>\<open>None\<close> is a walk
  that never returns.
\<close>

section \<open>Data\<close>

datatype MemoryType =
  TCompany | TExecutive | TDepartment | TAgent | TWorkflow | TDecision | TProject | TTask
| TMeeting | TConversation | TKnowledge | TSystem

primrec memory_type_value :: "MemoryType \<Rightarrow> name" where
  "memory_type_value TCompany = ''company''"
| "memory_type_value TExecutive = ''executive''"
| "memory_type_value TDepartment = ''department''"
| "memory_type_value TAgent = ''agent''"
| "memory_type_value TWorkflow = ''workflow''"
| "memory_type_value TDecision = ''decision''"
| "memory_type_value TProject = ''project''"
| "memory_type_value TTask = ''task''"
| "memory_type_value TMeeting = ''meeting''"
| "memory_type_value TConversation = ''conversation''"
| "memory_type_value TKnowledge = ''knowledge''"
| "memory_type_value TSystem = ''system''"

datatype MemoryNamespace =
  NGlobal | NCompany | NExecutive | NDepartment | NProject | NAgent | NWorkflow | NUser | NOrchestration

primrec namespace_value :: "MemoryNamespace \<Rightarrow> name" where
  "namespace_value NGlobal = ''global''"
| "namespace_value NCompany = ''company''"
| "namespace_value NExecutive = ''executive''"
| "namespace_value NDepartment = ''department''"
| "namespace_value NProject = ''project''"
| "namespace_value NAgent = ''agent''"
| "namespace_value NWorkflow = ''workflow''"
| "namespace_value NUser = ''user''"
| "namespace_value NOrchestration = ''orchestration''"

record retention_policy =
  rp_max_age_days :: "int option"
  rp_max_versions :: "int option"
  rp_min_importance :: rat
  rp_auto_archive :: bool
  rp_auto_purge :: bool

record memory_entry =
  me_id :: name
  me_memory_type :: MemoryType
  me_namespace :: MemoryNamespace
  me_content :: "(name, json) dict"
  me_summary :: string
  me_tags :: "name list"
  me_source :: string
  me_importance :: rat
  me_version :: int
  me_tier :: name
  me_parent_id :: "name option"
  me_session_id :: "name option"
  me_created_at :: time
  me_updated_at :: "time option"
  me_accessed_at :: "time option"
  me_archived :: bool
  me_archived_at :: "time option"
  me_retention_policy :: "retention_policy option"
  me_metadata :: "(name, json) dict"

type_synonym id_index = "(name, name list) dict"

record memory_store =
  ms_entries :: "(name, memory_entry) dict"
  ms_namespace_index :: id_index
  ms_type_index :: id_index
  ms_tag_index :: id_index
  ms_parent_index :: id_index
  ms_tier_index :: id_index
  ms_disk :: "memory_entry list option"

section \<open>Indexes\<close>

definition idx_add :: "name \<Rightarrow> name \<Rightarrow> id_index \<Rightarrow> id_index" where
  "idx_add i k ix = AList.update k (let ids = dget [] ix k in if i \<in> set ids then ids else ids @ [i]) ix"

definition idx_discard :: "name \<Rightarrow> name \<Rightarrow> id_index \<Rightarrow> id_index" where
  "idx_discard i k ix = (case map_of ix k of None \<Rightarrow> ix | Some ids \<Rightarrow> AList.update k (removeAll i ids) ix)"

definition truthy_id :: "name option \<Rightarrow> name list" where
  "truthy_id p = (case p of None \<Rightarrow> [] | Some q \<Rightarrow> if q = [] then [] else [q])"

definition add_to_indices :: "memory_entry \<Rightarrow> memory_store \<Rightarrow> memory_store" where
  "add_to_indices e s =
     s\<lparr>ms_namespace_index := idx_add (me_id e) (namespace_value (me_namespace e)) (ms_namespace_index s),
       ms_type_index := idx_add (me_id e) (memory_type_value (me_memory_type e)) (ms_type_index s),
       ms_tag_index := fold (idx_add (me_id e)) (me_tags e) (ms_tag_index s),
       ms_parent_index := fold (idx_add (me_id e)) (truthy_id (me_parent_id e)) (ms_parent_index s),
       ms_tier_index := idx_add (me_id e) (me_tier e) (ms_tier_index s)\<rparr>"

definition remove_from_indices :: "memory_entry \<Rightarrow> memory_store \<Rightarrow> memory_store" where
  "remove_from_indices e s =
     s\<lparr>ms_namespace_index := idx_discard (me_id e) (namespace_value (me_namespace e)) (ms_namespace_index s),
       ms_type_index := idx_discard (me_id e) (memory_type_value (me_memory_type e)) (ms_type_index s),
       ms_tag_index := fold (idx_discard (me_id e)) (me_tags e) (ms_tag_index s),
       ms_parent_index := fold (idx_discard (me_id e)) (truthy_id (me_parent_id e)) (ms_parent_index s),
       ms_tier_index := idx_discard (me_id e) (if me_tier e \<noteq> [] then me_tier e else ''working'') (ms_tier_index s)\<rparr>"

section \<open>Operations\<close>

definition append_to_disk :: "memory_entry \<Rightarrow> memory_store \<Rightarrow> memory_store" where
  "append_to_disk e s = s\<lparr>ms_disk := map_option (\<lambda>f. f @ [e]) (ms_disk s)\<rparr>"

definition rebuild_disk :: "memory_store \<Rightarrow> memory_store" where
  "rebuild_disk s = s\<lparr>ms_disk := map_option (\<lambda>_. map snd (ms_entries s)) (ms_disk s)\<rparr>"

definition load_entry :: "memory_entry \<Rightarrow> memory_store \<Rightarrow> memory_store" where
  "load_entry e s = add_to_indices e (s\<lparr>ms_entries := AList.update (me_id e) e (ms_entries s)\<rparr>)"

definition new_memory_store :: "memory_entry list option \<Rightarrow> memory_store" where
  "new_memory_store disk =
     (let s = \<lparr>ms_entries = [], ms_namespace_index = [], ms_type_index = [], ms_tag_index = [],
               ms_parent_index = [], ms_tier_index = [], ms_disk = disk\<rparr>
      in case disk of None \<Rightarrow> s | Some f \<Rightarrow> fold load_entry f s)"

definition store_save :: "memory_entry \<Rightarrow> memory_store \<Rightarrow> memory_store" where
  "store_save e s =
     (let s1 = (case map_of (ms_entries s) (me_id e) of None \<Rightarrow> s | Some old \<Rightarrow> remove_from_indices old s)
      in append_to_disk e (add_to_indices e (s1\<lparr>ms_entries := AList.update (me_id e) e (ms_entries s1)\<rparr>)))"

definition store_get :: "name \<Rightarrow> memory_store \<Rightarrow> memory_entry option" where
  "store_get i s = map_of (ms_entries s) i"

definition store_get_all :: "memory_store \<Rightarrow> memory_entry list" where
  "store_get_all s = map snd (ms_entries s)"

definition entries_of :: "id_index \<Rightarrow> name \<Rightarrow> memory_store \<Rightarrow> memory_entry list" where
  "entries_of ix k s = List.map_filter (map_of (ms_entries s)) (dget [] ix k)"

definition get_by_tier :: "name \<Rightarrow> memory_store \<Rightarrow> memory_entry list" where
  "get_by_tier k s = entries_of (ms_tier_index s) k s"

definition get_by_type :: "name \<Rightarrow> memory_store \<Rightarrow> memory_entry list" where
  "get_by_type k s = entries_of (ms_type_index s) k s"

definition get_by_namespace :: "name \<Rightarrow> memory_store \<Rightarrow> memory_entry list" where
  "get_by_namespace k s = entries_of (ms_namespace_index s) k s"

definition get_by_tag :: "name \<Rightarrow> memory_store \<Rightarrow> memory_entry list" where
  "get_by_tag k s = entries_of (ms_tag_index s) k s"

definition get_children :: "name \<Rightarrow> memory_store \<Rightarrow> memory_entry list" where
  "get_children k s = entries_of (ms_parent_index s) k s"

partial_function (option) lineage_from ::
  "(name, memory_entry) dict \<Rightarrow> memory_entry list \<Rightarrow> memory_entry \<Rightarrow> memory_entry list option"
where
  "lineage_from es acc cur =
     (case me_parent_id cur of
        None \<Rightarrow> Some acc
      | Some p \<Rightarrow>
          if p = [] then Some acc
          else case map_of es p of
                 None \<Rightarrow> Some acc
               | Some par \<Rightarrow> lineage_from es (acc @ [par]) par)"

declare lineage_from.simps [code]

definition get_lineage :: "name \<Rightarrow> memory_store \<Rightarrow> memory_entry list option" where
  "get_lineage i s = (case map_of (ms_entries s) i of None \<Rightarrow> Some [] | Some e \<Rightarrow> lineage_from (ms_entries s) [] e)"

partial_function (option) subtree_loop ::
  "memory_store \<Rightarrow> memory_entry list \<Rightarrow> name list \<Rightarrow> memory_entry list option"
where
  "subtree_loop s acc stack =
     (case stack of
        [] \<Rightarrow> Some acc
      | _ \<Rightarrow> (let i = last stack; cs = get_children i s
              in subtree_loop s (acc @ cs)
                   (butlast stack @ filter (\<lambda>c. map_of (ms_entries s) c \<noteq> None) (dget [] (ms_parent_index s) i))))"

declare subtree_loop.simps [code]

definition get_subtree :: "name \<Rightarrow> memory_store \<Rightarrow> memory_entry list option" where
  "get_subtree i s = subtree_loop s [] [i]"

definition store_delete :: "name \<Rightarrow> memory_store \<Rightarrow> bool \<times> memory_store" where
  "store_delete i s =
     (case map_of (ms_entries s) i of
        None \<Rightarrow> (False, s)
      | Some e \<Rightarrow>
          (let s1 = remove_from_indices e s
           in (True, rebuild_disk (s1\<lparr>ms_entries := AList.delete i (ms_entries s1)\<rparr>))))"

definition store_clear :: "memory_store \<Rightarrow> memory_store" where
  "store_clear s =
     s\<lparr>ms_entries := [], ms_namespace_index := [], ms_type_index := [], ms_tag_index := [],
       ms_parent_index := [], ms_disk := map_option (\<lambda>_. []) (ms_disk s)\<rparr>"

definition store_count :: "memory_store \<Rightarrow> nat" where
  "store_count s = length (ms_entries s)"

definition count_by_type :: "memory_store \<Rightarrow> (name, nat) dict" where
  "count_by_type s = map (\<lambda>(t, ids). (t, length ids)) (ms_type_index s)"

definition count_by_namespace :: "memory_store \<Rightarrow> (name, nat) dict" where
  "count_by_namespace s = map (\<lambda>(t, ids). (t, length ids)) (ms_namespace_index s)"

section \<open>Search\<close>

record memory_query =
  mq_query :: string
  mq_namespace :: "name option"
  mq_memory_type :: "name option"
  mq_tags :: "name list"
  mq_min_importance :: rat
  mq_include_archived :: bool
  mq_parent_id :: "name option"
  mq_metadata_filter :: "(name, json) dict"
  mq_limit :: int

definition field_relevance :: "string \<Rightarrow> (name, json) dict \<Rightarrow> name \<Rightarrow> rat" where
  "field_relevance q content f =
     (case dget (JStr []) content f of
        JStr v \<Rightarrow> if sublist q (lower v) then 6/10 + (if prefix q (lower v) then 3/10 else 0) else 0
      | _ \<Rightarrow> 0)"

definition compute_relevance :: "((name, json) dict \<Rightarrow> string) \<Rightarrow> memory_entry \<Rightarrow> string \<Rightarrow> rat" where
  "compute_relevance content_str e q =
     (if sublist q (lower (me_summary e)) then 1 + (if prefix q (lower (me_summary e)) then 5/10 else 0) else 0)
     + sum_list (map (\<lambda>t. if sublist q (lower t) then 8/10 else 0) (me_tags e))
     + sum_list (map (field_relevance q (me_content e)) [''title'', ''name'', ''description'', ''text''])
     + (if sublist q (lower (me_source e)) then 4/10 else 0)
     + (if sublist q (lower (content_str (me_content e))) then 3/10 else 0)"

definition matches_ids :: "name option \<Rightarrow> id_index \<Rightarrow> memory_entry \<Rightarrow> bool" where
  "matches_ids k ix e = list_all (\<lambda>k. me_id e \<in> set (dget [] ix k)) (truthy_id k)"

definition matches_metadata :: "(name, json) dict \<Rightarrow> memory_entry \<Rightarrow> bool" where
  "matches_metadata mf e =
     list_all (\<lambda>(k, v). py_eq (dget JNull (me_metadata e) k) v \<or> py_eq (dget JNull (me_content e) k) v) mf"

definition search_filter :: "memory_query \<Rightarrow> memory_store \<Rightarrow> memory_entry list" where
  "search_filter q s =
     filter (matches_metadata (mq_metadata_filter q))
     (filter (matches_ids (mq_parent_id q) (ms_parent_index s))
     (filter (\<lambda>e. 0 < mq_min_importance q \<longrightarrow> mq_min_importance q \<le> me_importance e)
     (filter (\<lambda>e. list_all (\<lambda>t. me_id e \<in> set (dget [] (ms_tag_index s) t)) (mq_tags q))
     (filter (matches_ids (mq_memory_type q) (ms_type_index s))
     (filter (matches_ids (mq_namespace q) (ms_namespace_index s))
     (filter (\<lambda>e. mq_include_archived q \<or> \<not> me_archived e)
     (store_get_all s)))))))"

definition store_search :: "((name, json) dict \<Rightarrow> string) \<Rightarrow> memory_query \<Rightarrow> memory_store \<Rightarrow> memory_entry list" where
  "store_search content_str q s =
     (if mq_query q \<noteq> []
      then let ql = lower (mq_query q);
               scored = filter (\<lambda>(e, sc). 0 < sc)
                          (map (\<lambda>e. (e, compute_relevance content_str e ql)) (search_filter q s))
           in map fst (py_take (mq_limit q) (sort_key (\<lambda>x. - snd x) scored))
      else py_take (mq_limit q)
             (sort_key (\<lambda>e. (- me_importance e, - me_created_at e)) (search_filter q s)))"

section \<open>Retention\<close>

datatype retention_verdict = Keep | Archive | Purge

definition age_days :: "time \<Rightarrow> memory_entry \<Rightarrow> int" where
  "age_days now e = (now - me_created_at e) div 86400000000"

definition retention_verdict_of :: "time \<Rightarrow> retention_policy \<Rightarrow> memory_entry \<Rightarrow> retention_verdict" where
  "retention_verdict_of now policy e =
     (let p = (case me_retention_policy e of None \<Rightarrow> policy | Some own \<Rightarrow> own);
          aged = (case rp_max_age_days p of None \<Rightarrow> False | Some d \<Rightarrow> d \<noteq> 0 \<and> age_days now e > d);
          archivable = rp_auto_archive p \<and> \<not> me_archived e;
          purge = aged \<and> \<not> archivable \<and> rp_auto_purge p \<and> me_archived e;
          versioned = (case rp_max_versions p of None \<Rightarrow> False | Some v \<Rightarrow> v \<noteq> 0 \<and> me_version e > v);
          archive = archivable \<and> (aged \<or> me_importance e < rp_min_importance p \<or> versioned)
      in if purge then Purge else if archive then Archive else Keep)"

text \<open>The entry that is saved is the stored object itself, changed in place.\<close>

definition store_mutate :: "memory_entry \<Rightarrow> memory_store \<Rightarrow> memory_store" where
  "store_mutate e s = s\<lparr>ms_entries := AList.update (me_id e) e (ms_entries s)\<rparr>"

definition retention_step ::
  "time \<Rightarrow> retention_policy \<Rightarrow> memory_entry \<Rightarrow> nat \<times> memory_store \<Rightarrow> nat \<times> memory_store"
where
  "retention_step now policy e ns =
     (case retention_verdict_of now policy e of
        Purge \<Rightarrow> (fst ns + 1, snd (store_delete (me_id e) (snd ns)))
      | Archive \<Rightarrow>
          (let e1 = e\<lparr>me_archived := True, me_archived_at := Some now\<rparr>
           in (fst ns + 1, store_save e1 (store_mutate e1 (snd ns))))
      | Keep \<Rightarrow> ns)"

definition enforce_retention :: "time \<Rightarrow> retention_policy \<Rightarrow> memory_store \<Rightarrow> nat \<times> memory_store" where
  "enforce_retention now policy s = fold (retention_step now policy) (store_get_all s) (0, s)"

section \<open>Exact indexes\<close>

text \<open>An index is exact when it lists, under each key, the stored entries that have the key.\<close>

definition index_exact :: "(memory_entry \<Rightarrow> name list) \<Rightarrow> id_index \<Rightarrow> (name, memory_entry) dict \<Rightarrow> bool" where
  "index_exact f ix es \<longleftrightarrow>
     (\<forall>k. distinct (dget [] ix k) \<and>
          (\<forall>i. i \<in> set (dget [] ix k) \<longleftrightarrow> (\<exists>e. map_of es i = Some e \<and> k \<in> set (f e))))"

lemma dget_idx_add:
  "dget [] (idx_add i k ix) j =
     (if j = k then (if i \<in> set (dget [] ix k) then dget [] ix k else dget [] ix k @ [i]) else dget [] ix j)"
  by (simp add: idx_add_def Let_def)

lemma dget_idx_discard:
  "dget [] (idx_discard i k ix) j = (if j = k then removeAll i (dget [] ix k) else dget [] ix j)"
  by (auto simp: idx_discard_def dget_def split: option.split)

lemma idx_add_list:
  "set (dget [] (fold (idx_add i) ks ix) j) = set (dget [] ix j) \<union> (if j \<in> set ks then {i} else {})"
  "distinct (dget [] ix j) \<Longrightarrow> distinct (dget [] (fold (idx_add i) ks ix) j)"
proof (induction ks arbitrary: ix)
  case (Cons k ks)
  { case 1 show ?case unfolding fold_simps Cons.IH(1) by (auto simp: dget_idx_add) }
  { case 2 then show ?case unfolding fold_simps by (intro Cons.IH(2)) (auto simp: dget_idx_add) }
qed simp_all

lemma idx_discard_list:
  "set (dget [] (fold (idx_discard i) ks ix) j) = set (dget [] ix j) - (if j \<in> set ks then {i} else {})"
  "distinct (dget [] ix j) \<Longrightarrow> distinct (dget [] (fold (idx_discard i) ks ix) j)"
proof (induction ks arbitrary: ix)
  case (Cons k ks)
  { case 1 show ?case unfolding fold_simps Cons.IH(1) by (auto simp: dget_idx_discard) }
  { case 2 then show ?case unfolding fold_simps
      by (intro Cons.IH(2)) (auto simp: dget_idx_discard distinct_removeAll) }
qed simp_all

lemma idx_single: "idx_add i k = fold (idx_add i) [k]" "idx_discard i k = fold (idx_discard i) [k]"
  by simp_all

lemma index_exact_add:
  assumes "index_exact f ix es" "i \<notin> fst ` set es"
  shows "index_exact f (fold (idx_add i) (f e) ix) (AList.update i e es)"
proof -
  have "map_of es i = None" using assms(2) by (simp add: map_of_eq_None_iff)
  with assms(1) show ?thesis by (auto simp: index_exact_def idx_add_list)
qed

lemma index_exact_discard:
  assumes "index_exact f ix es" "map_of es i = Some e"
  shows "index_exact f (fold (idx_discard i) (f e) ix) (AList.delete i es)"
  using assms by (auto simp: index_exact_def idx_discard_list map_of_delete_iff)

lemma index_exact_cong: "map_of es = map_of es1 \<Longrightarrow> index_exact f ix es \<longleftrightarrow> index_exact f ix es1"
  by (simp add: index_exact_def)

lemma map_of_update_delete: "map_of (AList.update i e (AList.delete i es)) = map_of (AList.update i e es)"
  by (rule ext) (simp add: map_of_delete_iff)

abbreviation namespace_keys :: "memory_entry \<Rightarrow> name list" where
  "namespace_keys e \<equiv> [namespace_value (me_namespace e)]"
abbreviation type_keys :: "memory_entry \<Rightarrow> name list" where
  "type_keys e \<equiv> [memory_type_value (me_memory_type e)]"
abbreviation parent_keys :: "memory_entry \<Rightarrow> name list" where
  "parent_keys e \<equiv> truthy_id (me_parent_id e)"
abbreviation tier_keys :: "memory_entry \<Rightarrow> name list" where
  "tier_keys e \<equiv> [me_tier e]"

definition indexes_exact :: "memory_store \<Rightarrow> bool" where
  "indexes_exact s \<longleftrightarrow>
     index_exact namespace_keys (ms_namespace_index s) (ms_entries s) \<and>
     index_exact type_keys (ms_type_index s) (ms_entries s) \<and>
     index_exact me_tags (ms_tag_index s) (ms_entries s) \<and>
     index_exact parent_keys (ms_parent_index s) (ms_entries s) \<and>
     index_exact tier_keys (ms_tier_index s) (ms_entries s)"

definition entries_ok :: "memory_store \<Rightarrow> bool" where
  "entries_ok s \<longleftrightarrow> dict_ok (ms_entries s) \<and>
     (\<forall>(i, e) \<in> set (ms_entries s). me_id e = i \<and> me_tier e \<noteq> [])"

definition replay_disk :: "memory_entry list \<Rightarrow> (name, memory_entry) dict" where
  "replay_disk f = fold (\<lambda>e d. AList.update (me_id e) e d) f []"

definition disk_current :: "memory_store \<Rightarrow> bool" where
  "disk_current s \<longleftrightarrow> (\<forall>f. ms_disk s = Some f \<longrightarrow> replay_disk f = ms_entries s)"

section \<open>Operations keep the store consistent\<close>

definition store_ok :: "memory_store \<Rightarrow> bool" where
  "store_ok s \<longleftrightarrow> entries_ok s \<and> indexes_exact s \<and> disk_current s"

lemma replay_disk_snoc: "replay_disk (f @ [e]) = AList.update (me_id e) e (replay_disk f)"
  by (simp add: replay_disk_def)

lemma replay_disk_rebuilt:
  assumes "dict_ok d" "\<forall>(i, e) \<in> set d. me_id e = i"
  shows "replay_disk (map snd d) = d"
  using assms
proof (induction d rule: rev_induct)
  case (snoc x d)
  then have "replay_disk (map snd d) = d" "me_id (snd x) = fst x" "fst x \<notin> fst ` set d" by auto
  then show ?case by (simp add: replay_disk_snoc keys_update_new)
qed (simp add: replay_disk_def)

lemma entries_ok_update:
  "entries_ok s \<Longrightarrow> me_tier e \<noteq> [] \<Longrightarrow> entries_ok (s\<lparr>ms_entries := AList.update (me_id e) e (ms_entries s)\<rparr>)"
  by (auto simp: entries_ok_def dest: dict_value_in_update)

lemma entry_id: "entries_ok s \<Longrightarrow> map_of (ms_entries s) i = Some e \<Longrightarrow> me_id e = i \<and> me_tier e \<noteq> []"
  by (auto simp: entries_ok_def dest: map_of_SomeD)

lemma store_save_entries [simp]: "ms_entries (store_save e s) = AList.update (me_id e) e (ms_entries s)"
  by (simp add: store_save_def Let_def append_to_disk_def add_to_indices_def remove_from_indices_def
      split: option.split)

lemma store_save_disk: "ms_disk (store_save e s) = map_option (\<lambda>f. f @ [e]) (ms_disk s)"
  by (simp add: store_save_def Let_def append_to_disk_def add_to_indices_def remove_from_indices_def
      split: option.split)

lemma index_exact_add1:
  "index_exact f ix es \<Longrightarrow> i \<notin> fst ` set es \<Longrightarrow> f e = [k] \<Longrightarrow>
   index_exact f (idx_add i k ix) (AList.update i e es)"
  using index_exact_add[of f ix es i e] by simp

lemma index_exact_discard1:
  "index_exact f ix es \<Longrightarrow> map_of es i = Some e \<Longrightarrow> f e = [k] \<Longrightarrow>
   index_exact f (idx_discard i k ix) (AList.delete i es)"
  using index_exact_discard[of f ix es i e] by simp

lemma indexes_exact_removed:
  assumes "indexes_exact s" "map_of (ms_entries s) (me_id e) = Some e" "me_tier e \<noteq> []"
  shows "indexes_exact ((remove_from_indices e s)\<lparr>ms_entries := AList.delete (me_id e) (ms_entries s)\<rparr>)"
proof -
  note ex = assms(1)[unfolded indexes_exact_def]
  from ex assms(2,3) show ?thesis
    unfolding indexes_exact_def remove_from_indices_def
    by (intro conjI) (simp_all add: index_exact_discard index_exact_discard1 index_exact_discard[where f = parent_keys])
qed

lemma indexes_exact_added:
  assumes "indexes_exact s" "me_id e \<notin> fst ` set (ms_entries s)"
  shows "indexes_exact (add_to_indices e (s\<lparr>ms_entries := AList.update (me_id e) e (ms_entries s)\<rparr>))"
proof -
  note ex = assms(1)[unfolded indexes_exact_def]
  from ex assms(2) show ?thesis
    unfolding indexes_exact_def add_to_indices_def
    by (intro conjI) (simp_all add: index_exact_add index_exact_add1 index_exact_add[where f = parent_keys])
qed

lemma indexes_exact_cong:
  assumes "map_of (ms_entries s) = map_of (ms_entries t)"
    "ms_namespace_index s = ms_namespace_index t" "ms_type_index s = ms_type_index t"
    "ms_tag_index s = ms_tag_index t" "ms_parent_index s = ms_parent_index t" "ms_tier_index s = ms_tier_index t"
  shows "indexes_exact s = indexes_exact t"
  using index_exact_cong[OF assms(1)] assms(2-) by (simp add: indexes_exact_def)

lemma indexes_exact_save:
  assumes "entries_ok s" "indexes_exact s"
  shows "indexes_exact (store_save e s)"
proof (cases "map_of (ms_entries s) (me_id e)")
  case None
  then have "me_id e \<notin> fst ` set (ms_entries s)" by (simp add: map_of_eq_None_iff)
  from indexes_exact_added[OF assms(2) this] None show ?thesis
    by (simp add: store_save_def append_to_disk_def indexes_exact_def)
next
  case (Some old)
  note id = entry_id[OF assms(1) Some]
  let ?t = "(remove_from_indices old s)\<lparr>ms_entries := AList.delete (me_id e) (ms_entries s)\<rparr>"
  have "indexes_exact ?t" using indexes_exact_removed[OF assms(2), of old] Some id by simp
  then have added: "indexes_exact (add_to_indices e (?t\<lparr>ms_entries := AList.update (me_id e) e (ms_entries ?t)\<rparr>))"
    by (rule indexes_exact_added) simp
  have "indexes_exact (add_to_indices e (?t\<lparr>ms_entries := AList.update (me_id e) e (ms_entries ?t)\<rparr>))
      = indexes_exact (store_save e s)"
    using Some by (intro indexes_exact_cong)
      (simp_all add: store_save_def append_to_disk_def add_to_indices_def remove_from_indices_def map_of_update_delete)
  with added show ?thesis by blast
qed

lemma store_ok_save [inv_intros]:
  assumes "store_ok s" "me_tier e \<noteq> []"
  shows "store_ok (store_save e s)"
proof -
  have "entries_ok (store_save e s)"
    using entries_ok_update[of s e] assms by (simp add: store_ok_def entries_ok_def)
  moreover have "disk_current (store_save e s)"
    using assms(1) by (auto simp: store_ok_def disk_current_def store_save_disk replay_disk_snoc)
  ultimately show ?thesis using indexes_exact_save assms(1) by (simp add: store_ok_def)
qed

lemma store_delete_cases:
  "store_delete i s = (case map_of (ms_entries s) i of None \<Rightarrow> (False, s)
     | Some e \<Rightarrow> (True, rebuild_disk ((remove_from_indices e s)\<lparr>ms_entries := AList.delete i (ms_entries s)\<rparr>)))"
  by (simp add: store_delete_def Let_def remove_from_indices_def split: option.split)

lemma store_delete_entries [simp]: "ms_entries (snd (store_delete i s)) = AList.delete i (ms_entries s)"
  by (auto simp: store_delete_cases rebuild_disk_def delete_id map_of_eq_None_iff split: option.split)

lemma store_ok_delete [inv_intros]:
  assumes "store_ok s"
  shows "store_ok (snd (store_delete i s))"
proof (cases "map_of (ms_entries s) i")
  case None
  with assms show ?thesis by (simp add: store_delete_cases)
next
  case (Some e)
  have ok: "entries_ok s" "indexes_exact s" using assms by (simp_all add: store_ok_def)
  note id = entry_id[OF ok(1) Some]
  let ?t = "(remove_from_indices e s)\<lparr>ms_entries := AList.delete i (ms_entries s)\<rparr>"
  have t: "indexes_exact ?t" using indexes_exact_removed[OF ok(2), of e] Some id by simp
  have e: "entries_ok ?t" using ok(1) by (auto simp: entries_ok_def set_delete_iff)
  then have "replay_disk (map snd (ms_entries ?t)) = ms_entries ?t"
    by (intro replay_disk_rebuilt) (auto simp: entries_ok_def)
  then have "disk_current (rebuild_disk ?t)" by (auto simp: disk_current_def rebuild_disk_def)
  with t e show ?thesis using Some
    by (simp add: store_delete_cases store_ok_def entries_ok_def rebuild_disk_def indexes_exact_def)
qed

section \<open>Retention on a consistent store\<close>

definition same_keys :: "memory_entry \<Rightarrow> memory_entry \<Rightarrow> bool" where
  "same_keys a b \<longleftrightarrow> me_id a = me_id b \<and> me_namespace a = me_namespace b \<and>
     me_memory_type a = me_memory_type b \<and> me_tags a = me_tags b \<and> me_parent_id a = me_parent_id b \<and>
     me_tier a = me_tier b"

lemma index_exact_same_keys:
  assumes "index_exact f ix es" "map_of es i = Some e" "f e1 = f e"
  shows "index_exact f ix (AList.update i e1 es)"
  using assms by (auto simp: index_exact_def)

lemma store_ok_save_mutated:
  assumes "store_ok s" "map_of (ms_entries s) (me_id e) = Some e" "same_keys e e1"
  shows "store_ok (store_save e1 (store_mutate e1 s))"
proof -
  let ?t = "store_mutate e1 s"
  have ok: "entries_ok s" "indexes_exact s" "disk_current s" using assms(1) by (simp_all add: store_ok_def)
  have sk: "me_id e1 = me_id e" "me_tier e1 \<noteq> []"
    using assms(3) entry_id[OF ok(1) assms(2)] by (simp_all add: same_keys_def)
  have t1: "entries_ok ?t" unfolding store_mutate_def by (rule entries_ok_update[OF ok(1) sk(2)])
  have ix: "index_exact f ix (ms_entries s) \<Longrightarrow> f e1 = f e \<Longrightarrow> index_exact f ix (AList.update (me_id e1) e1 (ms_entries s))"
    for f ix by (rule index_exact_same_keys) (use assms(2) sk(1) in simp_all)
  have t2: "indexes_exact ?t"
    using ok(2) assms(3) unfolding indexes_exact_def store_mutate_def same_keys_def by (simp add: ix)
  have "disk_current (store_save e1 ?t)"
    using ok(3) by (auto simp: disk_current_def store_save_disk replay_disk_snoc store_mutate_def update_last)
  moreover have "entries_ok (store_save e1 ?t)"
    using entries_ok_update[OF t1 sk(2)] by (simp add: entries_ok_def)
  ultimately show ?thesis using indexes_exact_save[OF t1 t2] by (simp add: store_ok_def)
qed

definition retained :: "time \<Rightarrow> retention_policy \<Rightarrow> memory_entry \<Rightarrow> memory_entry option" where
  "retained now p e =
     (case retention_verdict_of now p e of
        Purge \<Rightarrow> None
      | Archive \<Rightarrow> Some (e\<lparr>me_archived := True, me_archived_at := Some now\<rparr>)
      | Keep \<Rightarrow> Some e)"

lemma retention_step_effect:
  assumes "store_ok s" "map_of (ms_entries s) (me_id e) = Some e"
  shows "store_ok (snd (retention_step now p e (n, s)))"
    and "map_of (ms_entries (snd (retention_step now p e (n, s)))) =
      (map_of (ms_entries s))(me_id e := retained now p e)"
    and "fst (retention_step now p e (n, s)) = n + (if retention_verdict_of now p e = Keep then 0 else 1)"
proof -
  have sk: "same_keys e (e\<lparr>me_archived := True, me_archived_at := Some now\<rparr>)" by (simp add: same_keys_def)
  show "store_ok (snd (retention_step now p e (n, s)))"
    using assms(1) store_ok_delete[OF assms(1), of "me_id e"] store_ok_save_mutated[OF assms sk]
    by (cases "retention_verdict_of now p e") (simp_all add: retention_step_def Let_def)
  show "map_of (ms_entries (snd (retention_step now p e (n, s)))) =
      (map_of (ms_entries s))(me_id e := retained now p e)"
    using assms(2)
    by (auto simp: retention_step_def Let_def retained_def store_mutate_def map_of_delete_iff fun_eq_iff
        split: retention_verdict.split)
  show "fst (retention_step now p e (n, s)) = n + (if retention_verdict_of now p e = Keep then 0 else 1)"
    by (simp add: retention_step_def Let_def split: retention_verdict.split)
qed

lemma retention_fold:
  assumes "store_ok s" "distinct (map me_id es)" "\<forall>e \<in> set es. map_of (ms_entries s) (me_id e) = Some e"
  shows "store_ok (snd (fold (retention_step now p) es (n, s))) \<and>
    fst (fold (retention_step now p) es (n, s)) = n + length (filter (\<lambda>e. retention_verdict_of now p e \<noteq> Keep) es) \<and>
    (\<forall>i. map_of (ms_entries (snd (fold (retention_step now p) es (n, s)))) i =
       (if i \<in> me_id ` set es then Option.bind (map_of (ms_entries s) i) (retained now p) else map_of (ms_entries s) i))"
  using assms
proof (induction es arbitrary: n s)
  case (Cons e es)
  obtain n1 s1 where st: "retention_step now p e (n, s) = (n1, s1)" by (metis surj_pair)
  have e: "map_of (ms_entries s) (me_id e) = Some e" using Cons.prems(3) by simp
  have eff: "store_ok s1" "map_of (ms_entries s1) = (map_of (ms_entries s))(me_id e := retained now p e)"
    "n1 = n + (if retention_verdict_of now p e = Keep then 0 else 1)"
    using retention_step_effect[OF Cons.prems(1) e, of now p n] st by simp_all
  have ne: "me_id x \<noteq> me_id e" if "x \<in> set es" for x
  proof
    assume "me_id x = me_id e"
    then have "me_id e \<in> me_id ` set es" using that by (metis imageI)
    then show False using Cons.prems(2) by simp
  qed
  then have "\<forall>x \<in> set es. map_of (ms_entries s1) (me_id x) = Some x"
    using Cons.prems(3) by (simp add: eff(2))
  note IH = Cons.IH[OF eff(1) _ this, of n1]
  have d: "distinct (map me_id es)" "me_id e \<notin> me_id ` set es" using Cons.prems(2) by simp_all
  have f: "fold (retention_step now p) (e # es) (n, s) = fold (retention_step now p) es (n1, s1)"
    by (simp add: st)
  show ?case unfolding f
  proof (intro conjI allI)
    show "store_ok (snd (fold (retention_step now p) es (n1, s1)))" using IH d by blast
    show "fst (fold (retention_step now p) es (n1, s1)) =
        n + length (filter (\<lambda>e. retention_verdict_of now p e \<noteq> Keep) (e # es))" using IH d eff(3) by simp
    fix i
    show "map_of (ms_entries (snd (fold (retention_step now p) es (n1, s1)))) i =
       (if i \<in> me_id ` set (e # es) then Option.bind (map_of (ms_entries s) i) (retained now p)
        else map_of (ms_entries s) i)"
      using IH d e by (cases "i = me_id e") (simp_all add: eff(2))
  qed
qed simp

lemma enforce_retention_effect:
  assumes "store_ok s"
  shows "store_ok (snd (enforce_retention now p s))"
    and "fst (enforce_retention now p s) =
      length (filter (\<lambda>e. retention_verdict_of now p e \<noteq> Keep) (store_get_all s))"
    and "map_of (ms_entries (snd (enforce_retention now p s))) i =
      Option.bind (map_of (ms_entries s) i) (retained now p)"
proof -
  have ok: "entries_ok s" using assms by (simp add: store_ok_def)
  then have id: "map me_id (store_get_all s) = keys (ms_entries s)" "dict_ok (ms_entries s)"
    by (auto simp: entries_ok_def store_get_all_def)
  have "\<forall>e \<in> set (store_get_all s). map_of (ms_entries s) (me_id e) = Some e"
    using ok id(2) by (auto simp: store_get_all_def entries_ok_def)
  note fold = retention_fold[OF assms _ this, of now p 0]
  have d: "distinct (map me_id (store_get_all s))" using id by simp
  note eff = fold[OF d, folded enforce_retention_def]
  show "store_ok (snd (enforce_retention now p s))" using eff by blast
  show "fst (enforce_retention now p s) =
      length (filter (\<lambda>e. retention_verdict_of now p e \<noteq> Keep) (store_get_all s))" using eff by simp
  have "me_id ` set (store_get_all s) = fst ` set (ms_entries s)"
    using arg_cong[OF id(1), of set] by simp
  then show "map_of (ms_entries (snd (enforce_retention now p s))) i =
      Option.bind (map_of (ms_entries s) i) (retained now p)"
    using eff by (auto simp: in_keys_iff_map_of)
qed

section \<open>Traces of operations\<close>

text \<open>A save of a fresh object, a save of the stored object after its fields outside the indexes
  were changed in place to those of another entry, a deletion and a retention pass.\<close>

datatype store_op =
  OpSave memory_entry | OpRewrite name memory_entry | OpDelete name | OpRetain time retention_policy

definition rewritten :: "memory_entry \<Rightarrow> memory_entry \<Rightarrow> memory_entry" where
  "rewritten e d =
     d\<lparr>me_id := me_id e, me_memory_type := me_memory_type e, me_namespace := me_namespace e,
       me_tags := me_tags e, me_tier := me_tier e, me_parent_id := me_parent_id e\<rparr>"

definition rewrite_stored :: "name \<Rightarrow> memory_entry \<Rightarrow> memory_store \<Rightarrow> memory_store" where
  "rewrite_stored i d s =
     (case map_of (ms_entries s) i of
        None \<Rightarrow> s
      | Some e \<Rightarrow> store_save (rewritten e d) (store_mutate (rewritten e d) s))"

primrec store_op_step :: "store_op \<Rightarrow> memory_store \<Rightarrow> memory_store" where
  "store_op_step (OpSave e) s = store_save e s"
| "store_op_step (OpRewrite i d) s = rewrite_stored i d s"
| "store_op_step (OpDelete i) s = snd (store_delete i s)"
| "store_op_step (OpRetain now p) s = snd (enforce_retention now p s)"

definition tiered_op :: "store_op \<Rightarrow> bool" where
  "tiered_op p = (case p of OpSave e \<Rightarrow> me_tier e \<noteq> [] | _ \<Rightarrow> True)"

lemma store_ok_new: "store_ok (new_memory_store None)" "store_ok (new_memory_store (Some []))"
  by (simp_all add: store_ok_def new_memory_store_def entries_ok_def indexes_exact_def index_exact_def
      disk_current_def replay_disk_def)

lemma rewrite_stored_ok:
  assumes "store_ok s"
  shows "store_ok (rewrite_stored i d s)"
proof (cases "map_of (ms_entries s) i")
  case (Some e)
  then have "me_id e = i" using assms entry_id by (auto simp: store_ok_def)
  then have "map_of (ms_entries s) (me_id e) = Some e" "same_keys e (rewritten e d)"
    using Some by (simp_all add: same_keys_def rewritten_def)
  from store_ok_save_mutated[OF assms this] Some show ?thesis by (simp add: rewrite_stored_def)
qed (simp add: rewrite_stored_def assms)

lemma rewrite_stored_disk: "ms_disk (rewrite_stored i d s) = None \<longleftrightarrow> ms_disk s = None"
  by (simp add: rewrite_stored_def store_mutate_def store_save_disk split: option.split)

lemma store_ok_trace:
  "store_ok s \<Longrightarrow> list_all tiered_op ps \<Longrightarrow> store_ok (fold store_op_step ps s)"
proof (induction ps arbitrary: s)
  case (Cons p ps)
  have "store_ok (store_op_step p s)"
    using Cons.prems by (cases p) (auto simp: tiered_op_def store_ok_save rewrite_stored_ok store_ok_delete enforce_retention_effect(1))
  with Cons show ?case by simp
qed simp

lemma entries_of_exact:
  assumes "index_exact f ix (ms_entries s)" "dict_ok (ms_entries s)"
  shows "set (entries_of ix k s) = {e \<in> set (store_get_all s). k \<in> set (f e)}"
proof -
  have "set (entries_of ix k s) = {e. \<exists>i. map_of (ms_entries s) i = Some e \<and> k \<in> set (f e)}"
  proof -
    have "i \<in> set (dget [] ix k) \<longleftrightarrow> (\<exists>e. map_of (ms_entries s) i = Some e \<and> k \<in> set (f e))" for i
      using assms(1) by (simp add: index_exact_def)
    then show ?thesis by (fastforce simp: entries_of_def map_filter_set_iff)
  qed
  also have "\<dots> = {e \<in> set (store_get_all s). k \<in> set (f e)}"
    using assms(2) by (force simp: store_get_all_def dest: map_of_SomeD intro: map_of_is_SomeI)
  finally show ?thesis .
qed

lemma queries_of_ok:
  assumes "store_ok s"
  shows "set (get_by_type k s) = {e \<in> set (store_get_all s). memory_type_value (me_memory_type e) = k}"
    and "set (get_by_namespace k s) = {e \<in> set (store_get_all s). namespace_value (me_namespace e) = k}"
    and "set (get_by_tag k s) = {e \<in> set (store_get_all s). k \<in> set (me_tags e)}"
    and "set (get_by_tier k s) = {e \<in> set (store_get_all s). me_tier e = k}"
    and "set (get_children k s) = {e \<in> set (store_get_all s). k \<noteq> [] \<and> me_parent_id e = Some k}"
proof -
  have d: "dict_ok (ms_entries s)" using assms by (simp add: store_ok_def entries_ok_def)
  have ex: "index_exact namespace_keys (ms_namespace_index s) (ms_entries s)"
    "index_exact type_keys (ms_type_index s) (ms_entries s)"
    "index_exact me_tags (ms_tag_index s) (ms_entries s)"
    "index_exact parent_keys (ms_parent_index s) (ms_entries s)"
    "index_exact tier_keys (ms_tier_index s) (ms_entries s)"
    using assms by (simp_all add: store_ok_def indexes_exact_def)
  have single: "k \<in> set [v] \<longleftrightarrow> v = k" for v :: name by auto
  show "set (get_by_type k s) = {e \<in> set (store_get_all s). memory_type_value (me_memory_type e) = k}"
    unfolding get_by_type_def entries_of_exact[OF ex(2) d] single ..
  show "set (get_by_namespace k s) = {e \<in> set (store_get_all s). namespace_value (me_namespace e) = k}"
    unfolding get_by_namespace_def entries_of_exact[OF ex(1) d] single ..
  show "set (get_by_tag k s) = {e \<in> set (store_get_all s). k \<in> set (me_tags e)}"
    unfolding get_by_tag_def entries_of_exact[OF ex(3) d] by simp
  show "set (get_by_tier k s) = {e \<in> set (store_get_all s). me_tier e = k}"
    unfolding get_by_tier_def entries_of_exact[OF ex(5) d] single ..
  have "k \<in> set (parent_keys e) \<longleftrightarrow> k \<noteq> [] \<and> me_parent_id e = Some k" for e
    by (cases "me_parent_id e") (auto simp: truthy_id_def)
  then show "set (get_children k s) = {e \<in> set (store_get_all s). k \<noteq> [] \<and> me_parent_id e = Some k}"
    unfolding get_children_def entries_of_exact[OF ex(4) d] by simp
qed

section \<open>Ancestry walks\<close>

definition parent_rel :: "memory_store \<Rightarrow> (name \<times> name) set" where
  "parent_rel s = {(i, p). \<exists>e. map_of (ms_entries s) i = Some e \<and> me_parent_id e = Some p \<and> p \<noteq> [] \<and>
                              map_of (ms_entries s) p \<noteq> None}"

lemma parent_rel_functional: "(i, p) \<in> parent_rel s \<Longrightarrow> (i, q) \<in> parent_rel s \<Longrightarrow> p = q"
  by (auto simp: parent_rel_def)

lemma finite_parent_rel: "finite (parent_rel s)"
proof -
  have "parent_rel s \<subseteq> dom (map_of (ms_entries s)) \<times> dom (map_of (ms_entries s))"
    by (auto simp: parent_rel_def)
  then show ?thesis by (rule finite_subset) (simp add: finite_dom_map_of)
qed

lemma lineage_step:
  assumes "map_of (ms_entries s) i = Some e"
  shows "(\<nexists>p. (i, p) \<in> parent_rel s) \<Longrightarrow> lineage_from (ms_entries s) acc e = Some acc"
    and "(i, p) \<in> parent_rel s \<Longrightarrow> map_of (ms_entries s) p = Some pe \<Longrightarrow>
      lineage_from (ms_entries s) acc e = lineage_from (ms_entries s) (acc @ [pe]) pe"
  using assms by (auto simp: parent_rel_def lineage_from.simps[of _ _ e] split: option.splits)

text \<open>A walk that returns has visited every ancestor: none of them lies on a cycle.\<close>

lemma lineage_Some_no_cycle:
  "lineage_from es acc e = Some xs \<Longrightarrow> es = ms_entries s \<Longrightarrow> map_of es i = Some e \<Longrightarrow> cycle_free (parent_rel s) i"
proof (induction es acc e xs arbitrary: i rule: lineage_from.raw_induct[rotated, consumes 1, case_names walk])
  case (walk lf es acc cur xs i)
  show ?case
  proof (cases "\<exists>p. (i, p) \<in> parent_rel s")
    case False
    then show ?thesis by (intro cycle_free_end) simp
  next
    case True
    then obtain p pe where p: "(i, p) \<in> parent_rel s" "map_of (ms_entries s) p = Some pe" "me_parent_id cur = Some p" "p \<noteq> []"
      using walk.prems by (auto simp: parent_rel_def)
    then have "lf es (acc @ [pe]) pe = Some xs" using walk.hyps walk.prems(1) by simp
    then have "cycle_free (parent_rel s) p"
      using walk.IH walk.prems(1) p(2) by blast
    then show ?thesis using cycle_free_step[OF _ p(1)] parent_rel_functional by (auto simp: single_valued_def)
  qed
qed

lemma lineage_no_cycle_Some:
  assumes "cycle_free (parent_rel s) i" "map_of (ms_entries s) i = Some e"
  shows "\<exists>xs. lineage_from (ms_entries s) acc e = Some xs"
proof -
  have "\<forall>e acc. map_of (ms_entries s) i = Some e \<longrightarrow> (\<exists>xs. lineage_from (ms_entries s) acc e = Some xs)"
    using finite_parent_rel assms(1)
  proof (induction rule: cycle_free_induct)
    case (walk j)
    show ?case
    proof (intro allI impI)
      fix e acc
      assume e: "map_of (ms_entries s) j = Some e"
      show "\<exists>xs. lineage_from (ms_entries s) acc e = Some xs"
      proof (cases "\<exists>p. (j, p) \<in> parent_rel s")
        case False
        then show ?thesis using lineage_step(1)[OF e] by blast
      next
        case True
        then obtain p pe where p: "(j, p) \<in> parent_rel s" "map_of (ms_entries s) p = Some pe"
          by (auto simp: parent_rel_def)
        with walk.IH show ?thesis using lineage_step(2)[OF e p] by metis
      qed
    qed
  qed
  with assms(2) show ?thesis by blast
qed

lemma load_entries: "ms_entries (fold load_entry f s) = fold (\<lambda>e d. AList.update (me_id e) e d) f (ms_entries s)"
  by (induction f arbitrary: s) (simp_all add: load_entry_def add_to_indices_def)

lemma load_disk: "ms_disk (fold load_entry f s) = ms_disk s"
  by (induction f arbitrary: s) (simp_all add: load_entry_def add_to_indices_def)

lemma reopened: "ms_entries (new_memory_store (Some f)) = replay_disk f" "ms_disk (new_memory_store (Some f)) = Some f"
  by (simp_all add: new_memory_store_def load_entries load_disk replay_disk_def)

lemma disk_kept:
  "ms_disk (store_save e s) = None \<longleftrightarrow> ms_disk s = None"
  "ms_disk (snd (store_delete i s)) = None \<longleftrightarrow> ms_disk s = None"
  "ms_disk (snd (enforce_retention now p s)) = None \<longleftrightarrow> ms_disk s = None"
proof -
  show save: "ms_disk (store_save e s) = None \<longleftrightarrow> ms_disk s = None" for e s
    by (simp add: store_save_disk)
  show del: "ms_disk (snd (store_delete i s)) = None \<longleftrightarrow> ms_disk s = None" for i s
    by (simp add: store_delete_cases rebuild_disk_def remove_from_indices_def split: option.split)
  have "ms_disk (store_mutate e s) = ms_disk s" for e s by (simp add: store_mutate_def)
  then have step: "ms_disk (snd (retention_step now p e ns)) = None \<longleftrightarrow> ms_disk (snd ns) = None" for e ns
    by (cases "retention_verdict_of now p e") (simp_all add: retention_step_def Let_def save del)
  have "ms_disk (snd (fold (retention_step now p) es ns)) = None \<longleftrightarrow> ms_disk (snd ns) = None" for es ns
    by (induction es arbitrary: ns) (simp_all add: step)
  then show "ms_disk (snd (enforce_retention now p s)) = None \<longleftrightarrow> ms_disk s = None"
    by (simp add: enforce_retention_def)
qed

lemma disk_kept_trace: "ms_disk (fold store_op_step ps s) = None \<longleftrightarrow> ms_disk s = None"
proof (induction ps arbitrary: s)
  case (Cons p ps)
  then show ?case by (cases p) (simp_all add: disk_kept rewrite_stored_disk)
qed simp

lemma reopened_entries:
  assumes "store_ok s" "ms_disk s \<noteq> None"
  shows "ms_entries (new_memory_store (ms_disk s)) = ms_entries s"
  using assms by (auto simp: reopened store_ok_def disk_current_def)

lemma load_tags:
  "i \<in> set (dget [] (ms_tag_index (fold load_entry f s)) t) \<longleftrightarrow>
    i \<in> set (dget [] (ms_tag_index s) t) \<or> (\<exists>e \<in> set f. me_id e = i \<and> t \<in> set (me_tags e))"
  by (induction f arbitrary: s) (auto simp: load_entry_def add_to_indices_def idx_add_list)

lemma reopened_tags:
  "e \<in> set (get_by_tag t (new_memory_store (Some f))) \<longleftrightarrow>
    (\<exists>i. map_of (replay_disk f) i = Some e \<and> (\<exists>d \<in> set f. me_id d = i \<and> t \<in> set (me_tags d)))"
proof -
  have "i \<in> set (dget [] (ms_tag_index (new_memory_store (Some f))) t) \<longleftrightarrow>
      (\<exists>d \<in> set f. me_id d = i \<and> t \<in> set (me_tags d))" for i
    by (simp add: new_memory_store_def load_tags)
  then show ?thesis by (fastforce simp: get_by_tag_def entries_of_def map_filter_set_iff reopened)
qed

section \<open>The filters of a search\<close>

text \<open>What a query asks of an entry, without the indexes.\<close>

definition query_matches :: "memory_query \<Rightarrow> memory_entry \<Rightarrow> bool" where
  "query_matches q e \<longleftrightarrow>
     (mq_include_archived q \<or> \<not> me_archived e) \<and>
     (\<forall>k \<in> set (truthy_id (mq_namespace q)). namespace_value (me_namespace e) = k) \<and>
     (\<forall>k \<in> set (truthy_id (mq_memory_type q)). memory_type_value (me_memory_type e) = k) \<and>
     set (mq_tags q) \<subseteq> set (me_tags e) \<and>
     (0 < mq_min_importance q \<longrightarrow> mq_min_importance q \<le> me_importance e) \<and>
     (\<forall>k \<in> set (truthy_id (mq_parent_id q)). me_parent_id e = Some k) \<and>
     matches_metadata (mq_metadata_filter q) e"

lemma index_exact_mem:
  assumes "index_exact f ix (ms_entries s)" "entries_ok s" "e \<in> set (store_get_all s)"
  shows "me_id e \<in> set (dget [] ix k) \<longleftrightarrow> k \<in> set (f e)"
proof -
  have "map_of (ms_entries s) (me_id e) = Some e"
    using assms(2,3) by (auto simp: entries_ok_def store_get_all_def)
  with assms(1) show ?thesis by (simp add: index_exact_def)
qed

lemma search_filter_matches:
  assumes "store_ok s"
  shows "set (search_filter q s) = {e \<in> set (store_get_all s). query_matches q e}"
proof -
  have ok: "entries_ok s" and ex: "index_exact namespace_keys (ms_namespace_index s) (ms_entries s)"
    "index_exact type_keys (ms_type_index s) (ms_entries s)"
    "index_exact me_tags (ms_tag_index s) (ms_entries s)"
    "index_exact parent_keys (ms_parent_index s) (ms_entries s)"
    using assms by (simp_all add: store_ok_def indexes_exact_def)
  have ids: "matches_ids k ix e \<longleftrightarrow> (\<forall>j \<in> set (truthy_id k). me_id e \<in> set (dget [] ix j))" for k ix e
    by (simp add: matches_ids_def list_all_iff)
  have single: "j \<in> set [v] \<longleftrightarrow> v = j" for j v :: name by auto
  have parent: "(\<forall>j \<in> set (truthy_id k). j \<in> set (truthy_id p)) \<longleftrightarrow> (\<forall>j \<in> set (truthy_id k). p = Some j)" for k p
    by (cases k; cases p) (auto simp: truthy_id_def)
  have f1: "(\<forall>e \<in> set (store_get_all s).
      matches_ids (mq_namespace q) (ms_namespace_index s) e \<longleftrightarrow>
        (\<forall>k \<in> set (truthy_id (mq_namespace q)). namespace_value (me_namespace e) = k))"
    unfolding ids using index_exact_mem[OF ex(1) ok] by (simp only: single cong: ball_cong) blast
  have f2: "(\<forall>e \<in> set (store_get_all s).
      matches_ids (mq_memory_type q) (ms_type_index s) e \<longleftrightarrow>
        (\<forall>k \<in> set (truthy_id (mq_memory_type q)). memory_type_value (me_memory_type e) = k))"
    unfolding ids using index_exact_mem[OF ex(2) ok] by (simp only: single cong: ball_cong) blast
  have f3: "(\<forall>e \<in> set (store_get_all s).
      matches_ids (mq_parent_id q) (ms_parent_index s) e \<longleftrightarrow>
        (\<forall>k \<in> set (truthy_id (mq_parent_id q)). me_parent_id e = Some k))"
    unfolding ids parent[symmetric] using index_exact_mem[OF ex(4) ok] by simp
  have f4: "(\<forall>e \<in> set (store_get_all s).
      list_all (\<lambda>t. me_id e \<in> set (dget [] (ms_tag_index s) t)) (mq_tags q) \<longleftrightarrow> set (mq_tags q) \<subseteq> set (me_tags e))"
    unfolding list_all_iff using index_exact_mem[OF ex(3) ok] by (simp add: subset_iff Ball_def)
  have "e \<in> set (search_filter q s) \<longleftrightarrow> query_matches q e" if e: "e \<in> set (store_get_all s)" for e
    using bspec[OF f1 e] bspec[OF f2 e] bspec[OF f3 e] bspec[OF f4 e] e
    by (simp only: search_filter_def query_matches_def set_filter mem_Collect_eq simp_thms conj_ac)
  moreover have "set (search_filter q s) \<subseteq> set (store_get_all s)" by (auto simp: search_filter_def)
  ultimately show ?thesis by blast
qed

section \<open>Properties\<close>

definition demo_entry :: "name \<Rightarrow> name list \<Rightarrow> name option \<Rightarrow> memory_entry" where
  "demo_entry i tags parent =
     \<lparr>me_id = i, me_memory_type = TTask, me_namespace = NGlobal, me_content = [], me_summary = ''note'',
      me_tags = tags, me_source = [], me_importance = 1/2, me_version = 1, me_tier = ''working'',
      me_parent_id = parent, me_session_id = None, me_created_at = 0, me_updated_at = None,
      me_accessed_at = None, me_archived = False, me_archived_at = None, me_retention_policy = None,
      me_metadata = []\<rparr>"

text \<open>C14: From an empty store, with or without a file, after any sequence of saves, deletions and retention passes each lookup by type, namespace, tag,
  tier or parent returns exactly the stored entries with that key.  A save stores a fresh object with a
  tier, or the stored object itself after a change in place that keeps its identifier and its keys.  (The
  store keeps references: a stored object whose keys are changed in place and that is saved again stays
  in the index under its old keys.)\<close>

theorem memory_queries_exact:
  assumes "list_all tiered_op ps" "d = None \<or> d = Some []" "s = fold store_op_step ps (new_memory_store d)"
  shows "set (get_by_type k s) = {e \<in> set (store_get_all s). memory_type_value (me_memory_type e) = k} \<and>
    set (get_by_namespace k s) = {e \<in> set (store_get_all s). namespace_value (me_namespace e) = k} \<and>
    set (get_by_tag k s) = {e \<in> set (store_get_all s). k \<in> set (me_tags e)} \<and>
    set (get_by_tier k s) = {e \<in> set (store_get_all s). me_tier e = k} \<and>
    set (get_children k s) = {e \<in> set (store_get_all s). k \<noteq> [] \<and> me_parent_id e = Some k}"
proof -
  have "store_ok (new_memory_store d)" using assms(2) store_ok_new by blast
  then have "store_ok s" using store_ok_trace[OF _ assms(1)] assms(3) by simp
  from queries_of_ok[OF this] show ?thesis by (intro conjI)
qed

theorem memory_queries_exact_witness:
  "set (get_by_tag ''a'' (fold store_op_step
      [OpSave (demo_entry ''m1'' [''a''] None), OpSave (demo_entry ''m1'' [''b''] None),
       OpSave (demo_entry ''m2'' [''a''] None)] (new_memory_store None))) = {demo_entry ''m2'' [''a''] None}"
  by (subst memory_queries_exact[THEN conjunct2, THEN conjunct2, THEN conjunct1, OF _ disjI1[OF refl] refl])
    (auto simp: tiered_op_def demo_entry_def store_get_all_def new_memory_store_def)

text \<open>C15: a store reopened on its file holds the same entries, in the same order, after any
  sequence of saves, deletions and retention passes.\<close>

theorem reopened_store_same_entries:
  assumes "list_all tiered_op ps"
  shows "ms_entries (new_memory_store (ms_disk (fold store_op_step ps (new_memory_store (Some []))))) =
    ms_entries (fold store_op_step ps (new_memory_store (Some [])))"
  by (rule reopened_entries[OF store_ok_trace[OF store_ok_new(2) assms]])
    (simp add: disk_kept_trace reopened(2))

theorem reopened_store_same_entries_witness:
  "keys (ms_entries (new_memory_store (ms_disk (fold store_op_step
     [OpSave (demo_entry ''m1'' [] None), OpSave (demo_entry ''m2'' [] None), OpDelete ''m1'']
     (new_memory_store (Some [])))))) = [''m2'']"
  by (subst reopened_store_same_entries)
    (simp_all add: tiered_op_def demo_entry_def store_delete_cases rebuild_disk_def reopened replay_disk_def)

text \<open>reopening does not restore the indexes: an entry saved with a tag and saved again
  without it is not found under the tag, but is found under it again after the store is
  reopened, because loading adds the index entries of every line of the file.\<close>

theorem reopened_store_stale_tags:
  assumes "store_ok s" "ms_disk s \<noteq> None" "me_id e1 = me_id e" "me_tier e \<noteq> []" "me_tier e1 \<noteq> []"
    and "t \<in> set (me_tags e)" "t \<notin> set (me_tags e1)"
  shows "e1 \<notin> set (get_by_tag t (store_save e1 (store_save e s))) \<and>
    e1 \<in> set (get_by_tag t (new_memory_store (ms_disk (store_save e1 (store_save e s)))))"
proof -
  have ok: "store_ok (store_save e1 (store_save e s))" using assms by (intro store_ok_save)
  obtain f where f: "ms_disk s = Some f" using assms(2) by blast
  then have d: "ms_disk (store_save e1 (store_save e s)) = Some (f @ [e, e1])" by (simp add: store_save_disk)
  have "map_of (replay_disk (f @ [e, e1])) (me_id e) = Some e1"
    using assms(3) replay_disk_snoc[of "f @ [e]" e1] by simp
  moreover have "e \<in> set (f @ [e, e1])" by simp
  ultimately have "e1 \<in> set (get_by_tag t (new_memory_store (Some (f @ [e, e1]))))"
    unfolding reopened_tags using assms(6) by blast
  with d queries_of_ok(3)[OF ok] assms(7) show ?thesis by simp
qed

theorem reopened_store_stale_tags_witness:
  "demo_entry ''m'' [''b''] None \<in> set (get_by_tag ''a'' (new_memory_store (ms_disk
     (store_save (demo_entry ''m'' [''b''] None) (store_save (demo_entry ''m'' [''a''] None)
        (new_memory_store (Some [])))))))"
  using reopened_store_stale_tags[OF store_ok_new(2), of "demo_entry ''m'' [''b''] None" "demo_entry ''m'' [''a''] None" "''a''"]
  by (simp add: demo_entry_def reopened)

lemma search_facts:
  assumes "store_ok s"
  shows "set (store_search cs q s) \<subseteq>
      {e \<in> set (store_get_all s). query_matches q e \<and>
         (mq_query q \<noteq> [] \<longrightarrow> 0 < compute_relevance cs e (lower (mq_query q)))}"
    and "int (store_count s) \<le> mq_limit q \<Longrightarrow> set (store_search cs q s) =
      {e \<in> set (store_get_all s). query_matches q e \<and>
         (mq_query q \<noteq> [] \<longrightarrow> 0 < compute_relevance cs e (lower (mq_query q)))}"
proof -
  note m = search_filter_matches[OF assms, of q]
  let ?S = "filter (\<lambda>(e, sc). 0 < sc) (map (\<lambda>e. (e, compute_relevance cs e (lower (mq_query q)))) (search_filter q s))"
  have S: "fst ` set ?S = {e \<in> set (store_get_all s). query_matches q e \<and> 0 < compute_relevance cs e (lower (mq_query q))}"
    using m by force
  have res: "store_search cs q s = map fst (py_take (mq_limit q) (sort_key (\<lambda>x. - snd x) ?S))" if "mq_query q \<noteq> []"
    using that unfolding store_search_def Let_def by (rule if_P)
  have rhs: "{e \<in> set (store_get_all s). query_matches q e \<and>
         (mq_query q \<noteq> [] \<longrightarrow> 0 < compute_relevance cs e (lower (mq_query q)))} = fst ` set ?S"
    if "mq_query q \<noteq> []" using that unfolding S by simp
  show "set (store_search cs q s) \<subseteq>
      {e \<in> set (store_get_all s). query_matches q e \<and>
         (mq_query q \<noteq> [] \<longrightarrow> 0 < compute_relevance cs e (lower (mq_query q)))}"
  proof (cases "mq_query q = []")
    case True
    then show ?thesis using m set_py_take by (fastforce simp: store_search_def)
  next
    case False
    have "fst ` set (py_take (mq_limit q) (sort_key (\<lambda>x. - snd x) ?S)) \<subseteq> fst ` set ?S"
      using image_mono[OF set_py_take[of "mq_limit q" "sort_key (\<lambda>x. - snd x) ?S"], of fst]
      by (simp only: set_sort)
    then show ?thesis unfolding rhs[OF False] res[OF False] set_map .
  qed
  assume lim: "int (store_count s) \<le> mq_limit q"
  have "length (search_filter q s) \<le> store_count s"
    unfolding search_filter_def store_get_all_def store_count_def
    by (metis (no_types, lifting) length_filter_le length_map order_trans)
  then have len: "int (length (search_filter q s)) \<le> mq_limit q" using lim by simp
  show "set (store_search cs q s) =
      {e \<in> set (store_get_all s). query_matches q e \<and>
         (mq_query q \<noteq> [] \<longrightarrow> 0 < compute_relevance cs e (lower (mq_query q)))}"
  proof (cases "mq_query q = []")
    case True
    then show ?thesis using m len by (simp add: store_search_def py_take_all)
  next
    case False
    have "length ?S \<le> length (search_filter q s)" by (rule order_trans[OF length_filter_le]) simp
    then have "int (length (sort_key (\<lambda>x. - snd x) ?S)) \<le> mq_limit q" using len unfolding length_sort by linarith
    then have "py_take (mq_limit q) (sort_key (\<lambda>x. - snd x) ?S) = sort_key (\<lambda>x. - snd x) ?S"
      by (rule py_take_all)
    then show ?thesis unfolding rhs[OF False] res[OF False] set_map by (simp only: set_sort)
  qed
qed

text \<open>A search without text returns the entries that meet every filter of the query, and
  one with text those of them with a positive relevance, as long as the limit does not cut
  the list; in every case nothing else.\<close>

theorem search_exact:
  assumes "store_ok s"
  shows "set (store_search cs q s) \<subseteq>
      {e \<in> set (store_get_all s). query_matches q e \<and>
         (mq_query q \<noteq> [] \<longrightarrow> 0 < compute_relevance cs e (lower (mq_query q)))} \<and>
    (int (store_count s) \<le> mq_limit q \<longrightarrow> set (store_search cs q s) =
      {e \<in> set (store_get_all s). query_matches q e \<and>
         (mq_query q \<noteq> [] \<longrightarrow> 0 < compute_relevance cs e (lower (mq_query q)))})"
  using search_facts[OF assms, where cs = cs and q = q] by (intro conjI impI)

definition demo_query :: "name list \<Rightarrow> memory_query" where
  "demo_query tags =
     \<lparr>mq_query = [], mq_namespace = None, mq_memory_type = None, mq_tags = tags, mq_min_importance = 0,
      mq_include_archived = False, mq_parent_id = None, mq_metadata_filter = [], mq_limit = 100\<rparr>"

theorem search_exact_witness:
  "set (store_search (\<lambda>_. []) (demo_query [''a'']) (store_save (demo_entry ''m'' [''a''] None) (new_memory_store None))) =
    {demo_entry ''m'' [''a''] None}"
proof -
  have ok: "store_ok (store_save (demo_entry ''m'' [''a''] None) (new_memory_store None))"
    by (rule store_ok_save[OF store_ok_new(1)]) (simp add: demo_entry_def)
  show ?thesis
    by (subst search_exact[OF ok, THEN conjunct2, rule_format])
      (auto simp: demo_query_def store_count_def new_memory_store_def demo_entry_def store_get_all_def
        query_matches_def truthy_id_def matches_metadata_def)
qed

text \<open>A retention pass deletes exactly the entries that were archived before it, are older
  than the limit of their policy and have automatic purge, archives exactly the live entries
  with automatic archival that are too old, too unimportant or of too high a version, leaves
  every other entry as it was, and returns the number of entries it touched.\<close>

theorem retention_pass_effect:
  assumes "store_ok s" "map_of (ms_entries s) i = Some e"
    and "p = (case me_retention_policy e of None \<Rightarrow> policy | Some own \<Rightarrow> own)"
    and "aged \<longleftrightarrow> (\<exists>d. rp_max_age_days p = Some d \<and> d \<noteq> 0 \<and> d < age_days now e)"
    and "stale \<longleftrightarrow> me_importance e < rp_min_importance p \<or> (\<exists>v. rp_max_versions p = Some v \<and> v \<noteq> 0 \<and> v < me_version e)"
  shows "map_of (ms_entries (snd (enforce_retention now policy s))) i =
    (if me_archived e then (if aged \<and> rp_auto_purge p then None else Some e)
     else if rp_auto_archive p \<and> (aged \<or> stale)
          then Some (e\<lparr>me_archived := True, me_archived_at := Some now\<rparr>) else Some e) \<and>
    fst (enforce_retention now policy s) =
      length (filter (\<lambda>e. retained now policy e \<noteq> Some e) (store_get_all s))"
proof
  have "retained now policy e =
    (if me_archived e then (if aged \<and> rp_auto_purge p then None else Some e)
     else if rp_auto_archive p \<and> (aged \<or> stale)
          then Some (e\<lparr>me_archived := True, me_archived_at := Some now\<rparr>) else Some e)"
    unfolding retained_def retention_verdict_of_def Let_def assms(3)[symmetric]
    by (cases "rp_max_age_days p"; cases "rp_max_versions p") (auto simp: assms(4,5))
  then show "map_of (ms_entries (snd (enforce_retention now policy s))) i =
    (if me_archived e then (if aged \<and> rp_auto_purge p then None else Some e)
     else if rp_auto_archive p \<and> (aged \<or> stale)
          then Some (e\<lparr>me_archived := True, me_archived_at := Some now\<rparr>) else Some e)"
    using enforce_retention_effect(3)[OF assms(1), of now policy i] assms(2) by simp
  have changed: "e\<lparr>me_archived := True, me_archived_at := Some now\<rparr> \<noteq> e" if "\<not> me_archived e" for e :: memory_entry
    using that by (metis memory_entry.select_convs(16) memory_entry.surjective memory_entry.update_convs(16,17))
  have "retained now policy e \<noteq> Some e \<longleftrightarrow> retention_verdict_of now policy e \<noteq> Keep" for e
  proof (cases "retention_verdict_of now policy e")
    case Archive
    then have "\<not> me_archived e"
      by (auto simp: retention_verdict_of_def Let_def split: if_splits)
    with Archive changed show ?thesis by (simp add: retained_def)
  qed (simp_all add: retained_def)
  then show "fst (enforce_retention now policy s) =
      length (filter (\<lambda>e. retained now policy e \<noteq> Some e) (store_get_all s))"
    using enforce_retention_effect(2)[OF assms(1)] by simp
qed

theorem retention_pass_effect_witness:
  "map_of (ms_entries (snd (enforce_retention 0
      \<lparr>rp_max_age_days = None, rp_max_versions = None, rp_min_importance = 1, rp_auto_archive = True,
       rp_auto_purge = True\<rparr>
      (store_save (demo_entry ''m'' [] None) (new_memory_store None))))) ''m'' =
    Some ((demo_entry ''m'' [] None)\<lparr>me_archived := True, me_archived_at := Some 0\<rparr>)"
proof -
  have ok: "store_ok (store_save (demo_entry ''m'' [] None) (new_memory_store None))"
    by (rule store_ok_save[OF store_ok_new(1)]) (simp add: demo_entry_def)
  have e: "map_of (ms_entries (store_save (demo_entry ''m'' [] None) (new_memory_store None))) ''m'' =
      Some (demo_entry ''m'' [] None)"
    by (simp add: demo_entry_def)
  show ?thesis by (subst conjunct1[OF retention_pass_effect[OF ok e refl refl refl]]) (simp add: demo_entry_def)
qed

text \<open>The ancestor chain of an entry is computed exactly when no ancestor of the entry (nor
  the entry itself) is its own ancestor; on a parent cycle, which nothing prevents, the walk
  never returns.\<close>

theorem lineage_returns_iff:
  "(\<exists>xs. get_lineage i s = Some xs) \<longleftrightarrow>
     \<not> (\<exists>k. (i, k) \<in> (parent_rel s)\<^sup>* \<and> (k, k) \<in> (parent_rel s)\<^sup>+)"
proof (cases "map_of (ms_entries s) i")
  case None
  then have "\<nexists>p. (i, p) \<in> parent_rel s" by (simp add: parent_rel_def)
  then have "(k, k) \<notin> (parent_rel s)\<^sup>+" if "(i, k) \<in> (parent_rel s)\<^sup>*" for k
    using that by (metis converse_rtranclE tranclD)
  with None show ?thesis by (auto simp: get_lineage_def)
next
  case (Some e)
  then have l: "get_lineage i s = lineage_from (ms_entries s) [] e" by (simp add: get_lineage_def)
  show ?thesis unfolding l
    using lineage_no_cycle_Some[OF _ Some] lineage_Some_no_cycle[OF _ refl Some] by (auto simp: cycle_free_def)
qed

theorem lineage_returns_iff_witness:
  "get_lineage ''m'' (store_save (demo_entry ''m'' [] (Some ''m'')) (new_memory_store None)) = None"
proof -
  let ?s = "store_save (demo_entry ''m'' [] (Some ''m'')) (new_memory_store None)"
  have "(''m'', ''m'') \<in> parent_rel ?s" by (simp add: parent_rel_def demo_entry_def)
  then have "\<not> (\<exists>xs. get_lineage ''m'' ?s = Some xs)" unfolding lineage_returns_iff by blast
  then show ?thesis by simp
qed

text \<open>Clearing the store forgets to clear the index by tier: an entry saved again with the
  id of a cleared one is also found under the tier of the cleared one.\<close>

theorem clear_leaves_tier_index:
  "me_id e1 = me_id e \<Longrightarrow> e1 \<in> set (get_by_tier (me_tier e) (store_save e1 (store_clear (store_save e s))))"
  by (auto simp: get_by_tier_def entries_of_def map_filter_set_iff store_clear_def store_save_def Let_def
      append_to_disk_def add_to_indices_def dget_idx_add split: option.split)

theorem clear_leaves_tier_index_witness:
  "demo_entry ''m'' [] None \<in> set (get_by_tier ''archived''
     (store_save (demo_entry ''m'' [] None) (store_clear
        (store_save ((demo_entry ''m'' [] None)\<lparr>me_tier := ''archived''\<rparr>) (new_memory_store None)))))"
  using clear_leaves_tier_index[of "demo_entry ''m'' [] None" "(demo_entry ''m'' [] None)\<lparr>me_tier := ''archived''\<rparr>"]
  by (simp add: demo_entry_def)

end
