(* ===== verification/MemoryTiers.thy ===== *)
theory MemoryTiers
  imports MemoryStore
begin

text \<open>
  The three tier stores of \<^verbatim>\<open>memory/store.py\<close>: the LRU cache of working memory
  (\<^verbatim>\<open>InMemoryStore\<close>), the session log (\<^verbatim>\<open>JsonlStore\<close>) and the indexed long-term store
  (\<^verbatim>\<open>FileStore\<close>).  A file that does not exist is an empty list of lines.
\<close>

section \<open>Working memory\<close>

record lru_store =
  lru_max_size :: nat
  lru_cache :: "(name, memory_entry) dict"
  lru_order :: "(name, time) dict"

datatype tier_error = StopIteration | NoAttribute name

definition new_lru :: "nat \<Rightarrow> lru_store" where
  "new_lru n = \<lparr>lru_max_size = n, lru_cache = [], lru_order = []\<rparr>"

definition move_to_end :: "'k \<Rightarrow> ('k, 'v) dict \<Rightarrow> ('k, 'v) dict" where
  "move_to_end k d = (case map_of d k of None \<Rightarrow> d | Some v \<Rightarrow> AList.delete k d @ [(k, v)])"

definition lru_get :: "time \<Rightarrow> name \<Rightarrow> lru_store \<Rightarrow> memory_entry option \<times> lru_store" where
  "lru_get now i s =
     (case map_of (lru_cache s) i of
        None \<Rightarrow> (None, s)
      | Some e \<Rightarrow>
          (let e1 = e\<lparr>me_accessed_at := Some now\<rparr>
           in (Some e1, s\<lparr>lru_cache := AList.update i e1 (lru_cache s), lru_order := move_to_end i (lru_order s)\<rparr>)))"

definition lru_evict :: "lru_store \<Rightarrow> tier_error + lru_store" where
  "lru_evict s =
     (if length (lru_cache s) \<ge> lru_max_size s
      then case lru_order s of
             [] \<Rightarrow> Inl StopIteration
           | (oldest, _) # _ \<Rightarrow>
               Inr (s\<lparr>lru_cache := AList.delete oldest (lru_cache s), lru_order := AList.delete oldest (lru_order s)\<rparr>)
      else Inr s)"

definition lru_put :: "time \<Rightarrow> memory_entry \<Rightarrow> name \<Rightarrow> lru_store \<Rightarrow> tier_error + lru_store" where
  "lru_put now e tier s =
     ebind (lru_evict s)
       (\<lambda>s1. let e1 = e\<lparr>me_tier := tier\<rparr>
              in Inr (s1\<lparr>lru_cache := AList.update (me_id e) e1 (lru_cache s1),
                         lru_order := AList.update (me_id e)
                           (case me_accessed_at e of None \<Rightarrow> now | Some t \<Rightarrow> t) (lru_order s1)\<rparr>))"

definition lru_get_all :: "lru_store \<Rightarrow> memory_entry list" where
  "lru_get_all s = map snd (lru_cache s)"

definition lru_delete :: "name \<Rightarrow> lru_store \<Rightarrow> bool \<times> lru_store" where
  "lru_delete i s =
     (if i \<in> set (keys (lru_cache s))
      then (True, s\<lparr>lru_cache := AList.delete i (lru_cache s), lru_order := AList.delete i (lru_order s)\<rparr>)
      else (False, s))"

definition lru_clear :: "lru_store \<Rightarrow> lru_store" where
  "lru_clear s = s\<lparr>lru_cache := [], lru_order := []\<rparr>"

definition lru_count :: "lru_store \<Rightarrow> nat" where
  "lru_count s = length (lru_cache s)"

definition lru_ok :: "lru_store \<Rightarrow> bool" where
  "lru_ok s \<longleftrightarrow> dict_ok (lru_cache s) \<and> dict_ok (lru_order s) \<and>
     fst ` set (lru_cache s) = fst ` set (lru_order s) \<and> length (lru_cache s) \<le> lru_max_size s"

lemma length_delete_old: "dict_ok d \<Longrightarrow> k \<in> fst ` set d \<Longrightarrow> length (AList.delete k d) = length d - 1"
  by (metis (no_types) AList.delete_keys distinct_remove1_removeAll length_map length_remove1 set_map)

lemma length_update: "length (AList.update k v d) = (if k \<in> fst ` set d then length d else length d + 1)"
  by (induction d) auto

lemma length_keys: "dict_ok d \<Longrightarrow> length d = card (fst ` set d)"
  by (metis distinct_card length_map set_map)

lemma move_to_end_keys: "fst ` set (move_to_end k d) = fst ` set d"
  by (auto simp: move_to_end_def split: option.split dest: map_of_SomeD) (metis imageI fst_conv map_of_SomeD)

lemma move_to_end_ok: "dict_ok d \<Longrightarrow> dict_ok (move_to_end k d)"
  by (auto simp: move_to_end_def split: option.split)

lemma lru_evict_ok:
  assumes "lru_ok s" "0 < lru_max_size s"
  shows "\<exists>s1. lru_evict s = Inr s1 \<and> lru_ok s1 \<and> lru_max_size s1 = lru_max_size s \<and>
    length (lru_cache s1) < lru_max_size s"
proof (cases "length (lru_cache s) \<ge> lru_max_size s")
  case True
  then obtain k t rest where o: "lru_order s = (k, t) # rest"
    using assms by (cases "lru_order s") (auto simp: lru_ok_def)
  then have k: "k \<in> fst ` set (lru_cache s)" using assms(1) by (simp add: lru_ok_def)
  let ?s1 = "s\<lparr>lru_cache := AList.delete k (lru_cache s), lru_order := AList.delete k (lru_order s)\<rparr>"
  have len: "length (lru_cache ?s1) = length (lru_cache s) - 1"
    using assms(1) k by (simp add: length_delete_old lru_ok_def)
  then have "lru_ok ?s1" using assms(1) by (auto simp: lru_ok_def)
  moreover have "lru_evict s = Inr ?s1" using True o by (simp add: lru_evict_def)
  ultimately show ?thesis using len assms by (auto simp: lru_ok_def)
qed (use assms in \<open>auto simp: lru_evict_def lru_ok_def\<close>)

lemma lru_put_ok:
  assumes "lru_ok s" "0 < lru_max_size s"
  shows "\<exists>s1. lru_put now e tier s = Inr s1 \<and> lru_ok s1 \<and> lru_max_size s1 = lru_max_size s \<and>
    map_of (lru_cache s1) (me_id e) = Some (e\<lparr>me_tier := tier\<rparr>)"
proof -
  obtain s1 where s1: "lru_evict s = Inr s1" "lru_ok s1" "lru_max_size s1 = lru_max_size s"
    "length (lru_cache s1) < lru_max_size s"
    using lru_evict_ok[OF assms] by blast
  then show ?thesis by (auto simp: lru_put_def Let_def lru_ok_def length_update)
qed

datatype lru_op = LruGet name | LruPut memory_entry name | LruDelete name | LruClear

primrec lru_op_step :: "time \<Rightarrow> lru_op \<Rightarrow> lru_store \<Rightarrow> tier_error + lru_store" where
  "lru_op_step now (LruGet i) s = Inr (snd (lru_get now i s))"
| "lru_op_step now (LruPut e tier) s = lru_put now e tier s"
| "lru_op_step now (LruDelete i) s = Inr (snd (lru_delete i s))"
| "lru_op_step now LruClear s = Inr (lru_clear s)"

primrec lru_run :: "(time \<times> lru_op) list \<Rightarrow> lru_store \<Rightarrow> tier_error + lru_store" where
  "lru_run [] s = Inr s"
| "lru_run (p # ps) s = ebind (lru_op_step (fst p) (snd p) s) (lru_run ps)"

lemma lru_op_ok:
  assumes "lru_ok s" "0 < lru_max_size s"
  shows "\<exists>s1. lru_op_step now p s = Inr s1 \<and> lru_ok s1 \<and> lru_max_size s1 = lru_max_size s"
proof (cases p)
  case (LruGet i)
  have "lru_ok (snd (lru_get now i s))"
    using assms(1) map_of_SomeD[of "lru_cache s" i]
    by (force simp: lru_get_def Let_def lru_ok_def move_to_end_keys move_to_end_ok length_update split: option.split)
  then show ?thesis using LruGet by (auto simp: lru_get_def Let_def split: option.split)
next
  case (LruPut e tier)
  then show ?thesis using lru_put_ok[OF assms, of now e tier] by auto
next
  case (LruDelete i)
  have "lru_ok (snd (lru_delete i s))"
    using assms(1) AList.length_delete_le[of i "lru_cache s"] by (auto simp: lru_delete_def lru_ok_def)
  then show ?thesis using LruDelete by (auto simp: lru_delete_def)
next
  case LruClear
  then show ?thesis using assms by (simp add: lru_clear_def lru_ok_def)
qed

section \<open>Short-term memory\<close>

type_synonym jsonl_store = "memory_entry list"

definition jsonl_save :: "memory_entry \<Rightarrow> jsonl_store \<Rightarrow> jsonl_store" where
  "jsonl_save e f = f @ [e\<lparr>me_tier := ''short_term''\<rparr>]"

definition jsonl_get :: "name \<Rightarrow> jsonl_store \<Rightarrow> memory_entry option" where
  "jsonl_get i f = List.find (\<lambda>e. me_id e = i) f"

definition jsonl_get_recent :: "name option \<Rightarrow> int \<Rightarrow> jsonl_store \<Rightarrow> memory_entry list" where
  "jsonl_get_recent session limit f =
     py_take limit (sort_key (\<lambda>e. - me_created_at e)
       (filter (\<lambda>e. list_all (\<lambda>k. me_session_id e = Some k) (truthy_id session)) f))"

text \<open>
  \<^verbatim>\<open>_write_all\<close> stands at the level of the module, not in the class: the call
  \<^verbatim>\<open>self._write_all(entries)\<close> raises.
\<close>

definition jsonl_delete :: "name \<Rightarrow> jsonl_store \<Rightarrow> (tier_error + bool) \<times> jsonl_store" where
  "jsonl_delete i f =
     (let kept = filter (\<lambda>e. me_id e \<noteq> i) f
      in if length kept < length f then (Inl (NoAttribute ''_write_all''), f) else (Inr False, f))"

definition jsonl_count :: "jsonl_store \<Rightarrow> nat" where
  "jsonl_count f = length f"

section \<open>Long-term memory\<close>

record index_record =
  ix_memory_type :: name
  ix_namespace :: name
  ix_created_at :: time
  ix_importance :: rat
  ix_tier :: name

record file_store =
  fs_index :: "(name, index_record) dict"
  fs_cache :: "(name, memory_entry) dict"
  fs_index_file :: "(name, index_record) dict"
  fs_file :: "memory_entry list"

definition new_file_store :: "(name, index_record) dict \<Rightarrow> memory_entry list \<Rightarrow> file_store" where
  "new_file_store index_file file =
     \<lparr>fs_index = index_file, fs_cache = [], fs_index_file = index_file, fs_file = file\<rparr>"

definition fs_save :: "memory_entry \<Rightarrow> file_store \<Rightarrow> file_store" where
  "fs_save e s =
     (let e1 = e\<lparr>me_tier := ''long_term''\<rparr>;
          ix = AList.update (me_id e)
                 \<lparr>ix_memory_type = memory_type_value (me_memory_type e),
                  ix_namespace = namespace_value (me_namespace e), ix_created_at = me_created_at e,
                  ix_importance = me_importance e, ix_tier = me_tier e1\<rparr> (fs_index s)
      in s\<lparr>fs_cache := AList.update (me_id e) e1 (fs_cache s), fs_index := ix, fs_index_file := ix\<rparr>)"

definition fs_get :: "name \<Rightarrow> file_store \<Rightarrow> memory_entry option" where
  "fs_get i s = map_of (fs_cache s) i"

definition fs_get_by_tier :: "name \<Rightarrow> file_store \<Rightarrow> memory_entry list" where
  "fs_get_by_tier t s = filter (\<lambda>e. me_tier e = t) (map snd (fs_cache s))"

definition fs_load_all :: "file_store \<Rightarrow> file_store" where
  "fs_load_all s = s\<lparr>fs_cache := fold (\<lambda>e. AList.update (me_id e) e) (fs_file s) (fs_cache s)\<rparr>"

definition fs_get_all :: "file_store \<Rightarrow> memory_entry list \<times> file_store" where
  "fs_get_all s = (let s1 = (if fs_cache s = [] then fs_load_all s else s) in (map snd (fs_cache s1), s1))"

definition fs_delete :: "name \<Rightarrow> file_store \<Rightarrow> bool \<times> file_store" where
  "fs_delete i s =
     (if i \<in> set (keys (fs_cache s))
      then (let ix = AList.delete i (fs_index s)
            in (True, s\<lparr>fs_cache := AList.delete i (fs_cache s), fs_index := ix, fs_index_file := ix\<rparr>))
      else (False, s))"

definition fs_clear :: "file_store \<Rightarrow> file_store" where
  "fs_clear s = s\<lparr>fs_cache := [], fs_index := [], fs_file := []\<rparr>"

definition fs_count :: "file_store \<Rightarrow> nat" where
  "fs_count s = length (fs_cache s)"

datatype fs_op = FsSave memory_entry | FsDelete name | FsGetAll

primrec fs_op_step :: "fs_op \<Rightarrow> file_store \<Rightarrow> file_store" where
  "fs_op_step (FsSave e) s = fs_save e s"
| "fs_op_step (FsDelete i) s = snd (fs_delete i s)"
| "fs_op_step FsGetAll s = snd (fs_get_all s)"

lemma fs_file_kept: "fs_file (fold fs_op_step ps s) = fs_file s"
proof (induction ps arbitrary: s)
  case (Cons p ps)
  then show ?case
    by (cases p) (simp_all add: fs_save_def Let_def fs_delete_def fs_get_all_def fs_load_all_def)
qed simp

lemma fs_index_file_current: "fs_index_file s = fs_index s \<Longrightarrow> fs_index_file (fold fs_op_step ps s) = fs_index (fold fs_op_step ps s)"
proof (induction ps arbitrary: s)
  case (Cons p ps)
  then show ?case
    by (cases p) (simp_all add: fs_save_def Let_def fs_delete_def fs_get_all_def fs_load_all_def)
qed simp

lemma fs_index_keys:
  "fs_file s = [] \<Longrightarrow> fst ` set (fs_index s) = fst ` set (fs_cache s) \<Longrightarrow>
   fst ` set (fs_index (fold fs_op_step ps s)) = fst ` set (fs_cache (fold fs_op_step ps s))"
proof (induction ps arbitrary: s)
  case (Cons p ps)
  then show ?case
    by (cases p) (simp_all add: fs_save_def Let_def fs_delete_def fs_get_all_def fs_load_all_def)
qed simp

section \<open>Properties\<close>

text \<open>The working memory never holds more entries than its capacity, and with a positive
  capacity no operation raises; with capacity zero storing an entry always raises.\<close>

theorem working_memory_bounded:
  "(0 < n \<longrightarrow> (\<exists>s. lru_run ps (new_lru n) = Inr s \<and> lru_count s \<le> n)) \<and>
   lru_put now e tier (new_lru 0) = Inl StopIteration"
proof
  have "lru_ok s \<Longrightarrow> 0 < lru_max_size s \<Longrightarrow>
      \<exists>s1. lru_run ps s = Inr s1 \<and> lru_ok s1 \<and> lru_max_size s1 = lru_max_size s" for s
  proof (induction ps arbitrary: s)
    case (Cons p ps)
    from lru_op_ok[OF Cons.prems, of "fst p" "snd p"] obtain s1 where
      "lru_op_step (fst p) (snd p) s = Inr s1" "lru_ok s1" "lru_max_size s1 = lru_max_size s" by blast
    with Cons.IH[of s1] Cons.prems show ?case by simp
  qed simp
  from this[of "new_lru n"] show "0 < n \<longrightarrow> (\<exists>s. lru_run ps (new_lru n) = Inr s \<and> lru_count s \<le> n)"
    by (auto simp: lru_ok_def new_lru_def lru_count_def)
  show "lru_put now e tier (new_lru 0) = Inl StopIteration"
    by (simp add: lru_put_def lru_evict_def new_lru_def)
qed

theorem working_memory_bounded_witness:
  "\<exists>s. lru_run [(0, LruPut (demo_entry ''a'' [] None) ''working''), (1, LruPut (demo_entry ''b'' [] None) ''working'')]
     (new_lru 1) = Inr s \<and> lru_count s \<le> 1"
  by (rule working_memory_bounded[THEN conjunct1, rule_format]) simp

text \<open>Storing an entry that is already cached evicts another one when the cache is full:
  the least recently used entry is dropped although no room was needed, and one place stays
  empty.\<close>

theorem full_cache_rewrite_evicts:
  assumes "lru_ok s" "length (lru_cache s) = lru_max_size s" "lru_order s = (oldest, t) # rest"
    and "me_id e \<in> fst ` set (lru_cache s)" "me_id e \<noteq> oldest"
  shows "\<exists>s1. lru_put now e tier s = Inr s1 \<and> map_of (lru_cache s) oldest \<noteq> None \<and>
    map_of (lru_cache s1) oldest = None \<and> lru_count s1 = lru_count s - 1"
proof -
  have o: "oldest \<in> fst ` set (lru_cache s)" using assms(1,3) by (simp add: lru_ok_def)
  let ?c = "AList.delete oldest (lru_cache s)"
  have "length ?c = length (lru_cache s) - 1" using assms(1) o by (simp add: lru_ok_def length_delete_old)
  moreover have "me_id e \<in> fst ` set ?c" using assms(4,5) by simp
  ultimately show ?thesis using assms(2,3,5) o
    unfolding in_keys_iff_map_of
    by (simp add: lru_put_def lru_evict_def Let_def lru_count_def length_update map_of_delete_iff in_keys_iff_map_of)
qed

theorem full_cache_rewrite_evicts_witness:
  "\<exists>s s1. lru_run [(0, LruPut (demo_entry ''a'' [] None) ''working''), (1, LruPut (demo_entry ''b'' [] None) ''working'')]
     (new_lru 2) = Inr s \<and> lru_put 2 (demo_entry ''b'' [] None) ''working'' s = Inr s1 \<and> lru_count s1 = 1"
proof -
  let ?a = "(demo_entry ''a'' [] None)" and ?b = "(demo_entry ''b'' [] None)"
  let ?s = "\<lparr>lru_max_size = 2, lru_cache = [(''a'', ?a), (''b'', ?b)], lru_order = [(''a'', 0), (''b'', 1)]\<rparr>"
  have "lru_run [(0, LruPut ?a ''working''), (1, LruPut ?b ''working'')] (new_lru 2) = Inr ?s"
    by (simp add: lru_put_def lru_evict_def new_lru_def Let_def demo_entry_def)
  moreover have "\<exists>s1. lru_put 2 ?b ''working'' ?s = Inr s1 \<and> map_of (lru_cache ?s) ''a'' \<noteq> None \<and>
      map_of (lru_cache s1) ''a'' = None \<and> lru_count s1 = lru_count ?s - 1"
    by (rule full_cache_rewrite_evicts) (simp_all add: lru_ok_def demo_entry_def)
  ultimately show ?thesis by (auto simp: lru_count_def)
qed

text \<open>The session log answers a lookup with the oldest version of an entry that was saved
  more than once, and deleting an entry it holds raises and deletes nothing.\<close>

theorem session_log_oldest_version:
  shows "jsonl_get (me_id e) (jsonl_save e1 (jsonl_save e (filter (\<lambda>d. me_id d \<noteq> me_id e) f))) =
      Some (e\<lparr>me_tier := ''short_term''\<rparr>)"
    and "jsonl_delete i f =
      (if jsonl_get i f = None then (Inr False, f) else (Inl (NoAttribute ''_write_all''), f))"
proof -
  show "jsonl_get (me_id e) (jsonl_save e1 (jsonl_save e (filter (\<lambda>d. me_id d \<noteq> me_id e) f))) =
      Some (e\<lparr>me_tier := ''short_term''\<rparr>)"
    unfolding jsonl_get_def jsonl_save_def find_Some_split by fastforce
  have "length (filter (\<lambda>e. me_id e \<noteq> i) f) < length f \<longleftrightarrow> (\<exists>e \<in> set f. me_id e = i)"
    by (metis (mono_tags, lifting) filter_True length_filter_less less_irrefl)
  moreover have "jsonl_get i f = None \<longleftrightarrow> \<not> (\<exists>e \<in> set f. me_id e = i)"
    by (auto simp: jsonl_get_def find_None_iff)
  ultimately show "jsonl_delete i f =
      (if jsonl_get i f = None then (Inr False, f) else (Inl (NoAttribute ''_write_all''), f))"
    by (simp add: jsonl_delete_def Let_def)
qed

text \<open>the long-term store writes only its index: whatever was saved, deleted or listed, a
  store reopened on the same files finds no entry, while its index still names every entry
  that was held.\<close>

theorem long_term_entries_lost:
  fixes ps
  defines "s \<equiv> fold fs_op_step ps (new_file_store [] [])"
  defines "r \<equiv> new_file_store (fs_index_file s) (fs_file s)"
  shows "fst (fs_get_all r) = [] \<and> fs_get i r = None \<and> fst ` set (fs_index r) = fst ` set (fs_cache s)"
proof -
  have "fs_file s = []" "fs_index_file s = fs_index s" "fst ` set (fs_index s) = fst ` set (fs_cache s)"
    unfolding s_def
    by (simp_all add: fs_file_kept fs_index_file_current fs_index_keys new_file_store_def)
  then show ?thesis
    by (simp add: r_def new_file_store_def fs_get_all_def fs_load_all_def fs_get_def Let_def)
qed

end
