(* ===== verification/MemoryEngine.thy ===== *)
theory MemoryEngine
  imports MemoryStore
begin

text \<open>
  The memory engine (\<^verbatim>\<open>memory/engine.py\<close>), its archiver (\<^verbatim>\<open>memory/archive.py\<close>) and its
  retrieval strategies (\<^verbatim>\<open>memory/retrieval.py\<close>) over the memory store.

  An entry returned by the store is the stored object: a field the engine assigns changes the
  stored entry at once, before \<^verbatim>\<open>store.save\<close> runs.  This is \<^verbatim>\<open>store_mutate\<close> followed by
  \<^verbatim>\<open>store_save\<close>.  The summarizer is an injected dependency: a function that may raise
  (\<^verbatim>\<open>None\<close>).  The tier stores that the engine also writes to, and never reads, are the
  theory \<^verbatim>\<open>MemoryTiers\<close>.
\<close>

section \<open>In-place updates\<close>

definition rewrite_entry :: "(memory_entry \<Rightarrow> memory_entry) \<Rightarrow> memory_entry \<Rightarrow> memory_store \<Rightarrow> memory_store" where
  "rewrite_entry f e s = store_save (f e) (store_mutate (f e) s)"

definition touch :: "time \<Rightarrow> memory_entry \<Rightarrow> memory_entry" where
  "touch now e = e\<lparr>me_accessed_at := Some now\<rparr>"

definition mark_archived :: "time \<Rightarrow> memory_entry \<Rightarrow> memory_entry" where
  "mark_archived now e = e\<lparr>me_archived := True, me_archived_at := Some now, me_updated_at := Some now\<rparr>"

definition mark_live :: "time \<Rightarrow> memory_entry \<Rightarrow> memory_entry" where
  "mark_live now e = e\<lparr>me_archived := False, me_archived_at := None, me_updated_at := Some now\<rparr>"

section \<open>Archiver\<close>

definition archive :: "time \<Rightarrow> name \<Rightarrow> memory_store \<Rightarrow> bool \<times> memory_store" where
  "archive now i s =
     (case store_get i s of None \<Rightarrow> (False, s) | Some e \<Rightarrow> (True, rewrite_entry (mark_archived now) e s))"

definition unarchive :: "time \<Rightarrow> name \<Rightarrow> memory_store \<Rightarrow> bool \<times> memory_store" where
  "unarchive now i s =
     (case store_get i s of None \<Rightarrow> (False, s) | Some e \<Rightarrow> (True, rewrite_entry (mark_live now) e s))"

definition archive_listed :: "time \<Rightarrow> memory_entry list \<Rightarrow> memory_store \<Rightarrow> nat \<times> memory_store" where
  "archive_listed now es s =
     (length es, fold (rewrite_entry (mark_archived now)) es s)"

definition archive_by_type :: "time \<Rightarrow> name \<Rightarrow> memory_store \<Rightarrow> nat \<times> memory_store" where
  "archive_by_type now t s = archive_listed now (filter (\<lambda>e. \<not> me_archived e) (get_by_type t s)) s"

definition archive_by_namespace :: "time \<Rightarrow> name \<Rightarrow> memory_store \<Rightarrow> nat \<times> memory_store" where
  "archive_by_namespace now n s = archive_listed now (filter (\<lambda>e. \<not> me_archived e) (get_by_namespace n s)) s"

definition archive_older_than :: "time \<Rightarrow> int \<Rightarrow> memory_store \<Rightarrow> nat \<times> memory_store" where
  "archive_older_than now days s =
     archive_listed now (filter (\<lambda>e. \<not> me_archived e \<and> age_days now e > days) (store_get_all s)) s"

definition archive_by_importance :: "time \<Rightarrow> rat \<Rightarrow> memory_store \<Rightarrow> nat \<times> memory_store" where
  "archive_by_importance now m s =
     archive_listed now (filter (\<lambda>e. \<not> me_archived e \<and> me_importance e \<le> m) (store_get_all s)) s"

definition list_archived :: "int \<Rightarrow> memory_store \<Rightarrow> memory_entry list" where
  "list_archived limit s =
     py_take limit
       (sort_key (\<lambda>e. - (case me_updated_at e of None \<Rightarrow> me_created_at e | Some t \<Rightarrow> t))
         (filter me_archived (store_get_all s)))"

definition purge_archived :: "memory_store \<Rightarrow> nat \<times> memory_store" where
  "purge_archived s =
     (let to_delete = map me_id (filter me_archived (store_get_all s))
      in (length to_delete, fold (\<lambda>i s. snd (store_delete i s)) to_delete s))"

record retention_counts =
  rc_archived :: nat
  rc_purged :: nat

definition policy_reason :: "time \<Rightarrow> int \<Rightarrow> int \<Rightarrow> rat \<Rightarrow> memory_entry \<Rightarrow> bool" where
  "policy_reason now max_age_days max_versions min_importance e \<longleftrightarrow>
     (max_age_days \<noteq> 0 \<and> age_days now e > max_age_days) \<or> me_importance e < min_importance \<or>
     (max_versions \<noteq> 0 \<and> me_version e > max_versions)"

definition policy_step ::
  "time \<Rightarrow> int \<Rightarrow> int \<Rightarrow> rat \<Rightarrow> bool \<Rightarrow> memory_entry \<Rightarrow> retention_counts \<times> memory_store \<Rightarrow> retention_counts \<times> memory_store"
where
  "policy_step now max_age max_versions min_importance auto_purge e rs =
     (case rs of (r, s) \<Rightarrow>
        if policy_reason now max_age max_versions min_importance e
        then if auto_purge \<and> me_archived e
             then (r\<lparr>rc_purged := rc_purged r + 1\<rparr>, snd (store_delete (me_id e) s))
             else if \<not> me_archived e
             then (r\<lparr>rc_archived := rc_archived r + 1\<rparr>, snd (archive now (me_id e) s))
             else (r, s)
        else (r, s))"

definition apply_retention_policy ::
  "time \<Rightarrow> int \<Rightarrow> int \<Rightarrow> rat \<Rightarrow> bool \<Rightarrow> memory_store \<Rightarrow> retention_counts \<times> memory_store"
where
  "apply_retention_policy now max_age max_versions min_importance auto_purge s =
     fold (policy_step now max_age max_versions min_importance auto_purge) (store_get_all s)
       (\<lparr>rc_archived = 0, rc_purged = 0\<rparr>, s)"

section \<open>Retrieval\<close>

definition retrieve_by_source :: "string \<Rightarrow> memory_store \<Rightarrow> memory_entry list" where
  "retrieve_by_source src s = filter (\<lambda>e. me_source e = src \<and> \<not> me_archived e) (store_get_all s)"

definition retrieve_by_importance :: "rat \<Rightarrow> int \<Rightarrow> bool \<Rightarrow> memory_store \<Rightarrow> memory_entry list" where
  "retrieve_by_importance m limit include_archived s =
     py_take limit (sort_key (\<lambda>e. - me_importance e)
       (filter (\<lambda>e. me_importance e \<ge> m \<and> (include_archived \<or> \<not> me_archived e)) (store_get_all s)))"

definition retrieve_hierarchy :: "name \<Rightarrow> memory_store \<Rightarrow> memory_entry list" where
  "retrieve_hierarchy i s = (case store_get i s of None \<Rightarrow> [] | Some e \<Rightarrow> e # get_children i s)"

definition retrieve_recent :: "int \<Rightarrow> bool \<Rightarrow> memory_store \<Rightarrow> memory_entry list" where
  "retrieve_recent n include_archived s =
     py_take n (sort_key (\<lambda>e. - me_created_at e)
       (filter (\<lambda>e. include_archived \<or> \<not> me_archived e) (store_get_all s)))"

section \<open>Engine\<close>

record memory_changes =
  mc_content :: "(name, json) dict option"
  mc_tags :: "name list option"
  mc_importance :: "rat option"
  mc_summary :: "string option"
  mc_metadata :: "(name, json) dict option"

definition dict_merge :: "('k, 'v) dict \<Rightarrow> ('k, 'v) dict \<Rightarrow> ('k, 'v) dict" where
  "dict_merge d new_items = fold (\<lambda>(k, v). AList.update k v) new_items d"

definition engine_save ::
  "(memory_entry \<Rightarrow> string option) \<Rightarrow> rat \<Rightarrow> time \<Rightarrow> name \<Rightarrow> (name, json) dict \<Rightarrow> MemoryType \<Rightarrow>
   MemoryNamespace \<Rightarrow> name list \<Rightarrow> string \<Rightarrow> rat option \<Rightarrow> name option \<Rightarrow> (name, json) dict \<Rightarrow>
   memory_store \<Rightarrow> memory_entry \<times> memory_store"
where
  "engine_save summarize default_importance now i content mt ns tags source importance parent metadata s =
     (let e0 = \<lparr>me_id = i, me_memory_type = mt, me_namespace = ns, me_content = content, me_summary = [],
                me_tags = tags, me_source = source,
                me_importance = (case importance of None \<Rightarrow> default_importance | Some x \<Rightarrow> x),
                me_version = 1, me_tier = ''working'', me_parent_id = parent, me_session_id = None,
                me_created_at = now, me_updated_at = None, me_accessed_at = None, me_archived = False,
                me_archived_at = None, me_retention_policy = None, me_metadata = metadata\<rparr>;
          e1 = (case summarize e0 of None \<Rightarrow> e0 | Some t \<Rightarrow> e0\<lparr>me_summary := t\<rparr>)
      in (e1, store_save e1 s))"

definition engine_retrieve :: "time \<Rightarrow> name \<Rightarrow> memory_store \<Rightarrow> memory_entry option \<times> memory_store" where
  "engine_retrieve now i s =
     (case store_get i s of
        None \<Rightarrow> (None, s)
      | Some e \<Rightarrow> (Some (touch now e), rewrite_entry (touch now) e s))"

definition apply_changes ::
  "(memory_entry \<Rightarrow> string option) \<Rightarrow> time \<Rightarrow> memory_changes \<Rightarrow> memory_entry \<Rightarrow> memory_entry"
where
  "apply_changes summarize now c e =
     (let e1 = e\<lparr>me_version := me_version e + 1, me_updated_at := Some now,
                 me_content := (case mc_content c of None \<Rightarrow> me_content e | Some x \<Rightarrow> x),
                 me_tags := (case mc_tags c of None \<Rightarrow> me_tags e | Some x \<Rightarrow> x),
                 me_importance := (case mc_importance c of None \<Rightarrow> me_importance e | Some x \<Rightarrow> x),
                 me_summary := (case mc_summary c of None \<Rightarrow> me_summary e | Some x \<Rightarrow> x),
                 me_metadata := (case mc_metadata c of None \<Rightarrow> me_metadata e | Some x \<Rightarrow> dict_merge (me_metadata e) x)\<rparr>
      in if mc_content c = None then e1
         else case summarize e1 of None \<Rightarrow> e1 | Some t \<Rightarrow> e1\<lparr>me_summary := t\<rparr>)"

definition engine_update ::
  "(memory_entry \<Rightarrow> string option) \<Rightarrow> time \<Rightarrow> name \<Rightarrow> memory_changes \<Rightarrow> memory_store \<Rightarrow>
   memory_entry option \<times> memory_store"
where
  "engine_update summarize now i c s =
     (case engine_retrieve now i s of
        (None, s1) \<Rightarrow> (None, s1)
      | (Some e, s1) \<Rightarrow>
          (Some (apply_changes summarize now c e), rewrite_entry (apply_changes summarize now c) e s1))"

text \<open>\<^verbatim>\<open>entry.children_ids\<close> is not a field of an entry: reading it raises.\<close>

datatype link_error = NoField name

definition link_memories :: "time \<Rightarrow> name \<Rightarrow> name \<Rightarrow> memory_store \<Rightarrow> (link_error + bool) \<times> memory_store" where
  "link_memories now p c s =
     (case engine_retrieve now p s of
        (par, s1) \<Rightarrow>
          case engine_retrieve now c s1 of
            (child, s2) \<Rightarrow>
              (case (par, child) of
                 (Some _, Some ce) \<Rightarrow>
                   (Inl (NoField ''children_ids''), store_mutate (ce\<lparr>me_parent_id := Some p\<rparr>) s2)
               | _ \<Rightarrow> (Inr False, s2)))"

definition promote_to_long_term :: "time \<Rightarrow> name \<Rightarrow> rat \<Rightarrow> memory_store \<Rightarrow> bool \<times> memory_store" where
  "promote_to_long_term now i min_importance s =
     (case engine_retrieve now i s of
        (None, s1) \<Rightarrow> (False, s1)
      | (Some e, s1) \<Rightarrow>
          if me_importance e \<ge> min_importance
          then (True, rewrite_entry (\<lambda>e. e\<lparr>me_tier := ''long_term''\<rparr>) e s1)
          else (False, s1))"

definition demote_to_archived :: "time \<Rightarrow> name \<Rightarrow> rat \<Rightarrow> memory_store \<Rightarrow> bool \<times> memory_store" where
  "demote_to_archived now i threshold s =
     (case engine_retrieve now i s of
        (None, s1) \<Rightarrow> (False, s1)
      | (Some e, s1) \<Rightarrow>
          if me_importance e < threshold
          then (True, snd (archive now i
                 (store_mutate (e\<lparr>me_archived := True, me_archived_at := Some now, me_tier := ''archived''\<rparr>) s1)))
          else (False, s1))"

section \<open>Lemmas\<close>

lemma rewrite_entry_ok:
  assumes "store_ok s" "map_of (ms_entries s) (me_id e) = Some e" "same_keys e (f e)"
  shows "store_ok (rewrite_entry f e s)"
  unfolding rewrite_entry_def by (rule store_ok_save_mutated[OF assms])

lemma rewrite_entry_entries:
  "me_id (f e) = me_id e \<Longrightarrow> map_of (ms_entries (rewrite_entry f e s)) = (map_of (ms_entries s))(me_id e := Some (f e))"
  by (auto simp: rewrite_entry_def store_mutate_def fun_eq_iff)

lemma same_keys_marks [simp]: "same_keys e (touch now e)" "same_keys e (mark_archived now e)" "same_keys e (mark_live now e)"
  by (simp_all add: same_keys_def touch_def mark_archived_def mark_live_def)

lemma same_keys_id: "same_keys a b \<Longrightarrow> me_id b = me_id a"
  by (simp add: same_keys_def)

lemma stored_id: "store_ok s \<Longrightarrow> map_of (ms_entries s) i = Some e \<Longrightarrow> me_id e = i"
  using entry_id by (auto simp: store_ok_def)

lemma engine_retrieve_ok:
  assumes "store_ok s"
  shows "store_ok (snd (engine_retrieve now i s))"
    and "map_of (ms_entries (snd (engine_retrieve now i s))) =
      (case map_of (ms_entries s) i of None \<Rightarrow> map_of (ms_entries s)
       | Some e \<Rightarrow> (map_of (ms_entries s))(i := Some (touch now e)))"
    and "fst (engine_retrieve now i s) = map_option (touch now) (map_of (ms_entries s) i)"
proof -
  show "store_ok (snd (engine_retrieve now i s))"
    using rewrite_entry_ok[OF assms, of _ "touch now"] assms stored_id[OF assms, of i]
    by (auto simp: engine_retrieve_def store_get_def split: option.split)
  show "map_of (ms_entries (snd (engine_retrieve now i s))) =
      (case map_of (ms_entries s) i of None \<Rightarrow> map_of (ms_entries s)
       | Some e \<Rightarrow> (map_of (ms_entries s))(i := Some (touch now e)))"
    using stored_id[OF assms, of i]
    by (auto simp: engine_retrieve_def store_get_def rewrite_entry_entries touch_def split: option.split)
  show "fst (engine_retrieve now i s) = map_option (touch now) (map_of (ms_entries s) i)"
    by (simp add: engine_retrieve_def store_get_def split: option.split)
qed

lemma rewrite_entry_tag_index:
  assumes "map_of (ms_entries s) (me_id e) \<noteq> None" "me_id (f e) = me_id e"
  shows "set (dget [] (ms_tag_index (rewrite_entry f e s)) t) =
    (if t \<in> set (me_tags (f e)) then insert (me_id e) (set (dget [] (ms_tag_index s) t))
     else set (dget [] (ms_tag_index s) t))"
  using assms
  by (auto simp: rewrite_entry_def store_mutate_def store_save_def Let_def append_to_disk_def
      add_to_indices_def remove_from_indices_def idx_add_list idx_discard_list)

lemma rewrite_entry_tier_index:
  assumes "map_of (ms_entries s) (me_id e) \<noteq> None" "me_id (f e) = me_id e" "me_tier (f e) \<noteq> []"
  shows "set (dget [] (ms_tier_index (rewrite_entry f e s)) t) =
    (if t = me_tier (f e) then insert (me_id e) (set (dget [] (ms_tier_index s) t))
     else set (dget [] (ms_tier_index s) t))"
  using assms
  by (auto simp: rewrite_entry_def store_mutate_def store_save_def Let_def append_to_disk_def
      add_to_indices_def remove_from_indices_def dget_idx_add dget_idx_discard)

lemma in_entries_of: "map_of (ms_entries s) i = Some e \<Longrightarrow> i \<in> set (dget [] ix k) \<Longrightarrow> e \<in> set (entries_of ix k s)"
  by (auto simp: entries_of_def map_filter_set_iff)

lemma apply_changes_keys:
  "me_id (apply_changes f now c e) = me_id e"
  "me_tags (apply_changes f now c e) = (case mc_tags c of None \<Rightarrow> me_tags e | Some x \<Rightarrow> x)"
  "mc_tags c = None \<Longrightarrow> same_keys e (apply_changes f now c e)"
  by (simp_all add: apply_changes_def Let_def same_keys_def split: option.split)

lemma archive_listed_fold:
  assumes "store_ok s" "distinct (map me_id es)" "\<forall>e \<in> set es. map_of (ms_entries s) (me_id e) = Some e"
  shows "store_ok (fold (rewrite_entry (mark_archived now)) es s) \<and>
    (\<forall>i. map_of (ms_entries (fold (rewrite_entry (mark_archived now)) es s)) i =
       (if i \<in> me_id ` set es then map_option (mark_archived now) (map_of (ms_entries s) i)
        else map_of (ms_entries s) i))"
  using assms
proof (induction es arbitrary: s)
  case (Cons e es)
  let ?s1 = "rewrite_entry (mark_archived now) e s"
  have e: "map_of (ms_entries s) (me_id e) = Some e" using Cons.prems(3) by simp
  have ok: "store_ok ?s1" using rewrite_entry_ok[OF Cons.prems(1) e, of "mark_archived now"] by simp
  have m: "map_of (ms_entries ?s1) = (map_of (ms_entries s))(me_id e := Some (mark_archived now e))"
    by (rule rewrite_entry_entries) (simp add: mark_archived_def)
  have d: "distinct (map me_id es)" "me_id e \<notin> me_id ` set es" using Cons.prems(2) by simp_all
  have "\<forall>x \<in> set es. map_of (ms_entries ?s1) (me_id x) = Some x"
  proof
    fix x assume x: "x \<in> set es"
    then have "me_id x \<noteq> me_id e" using d(2) by (metis imageI)
    then show "map_of (ms_entries ?s1) (me_id x) = Some x" using Cons.prems(3) x by (simp add: m)
  qed
  note IH = Cons.IH[OF ok d(1) this]
  show ?case
  proof (intro conjI allI)
    show "store_ok (fold (rewrite_entry (mark_archived now)) (e # es) s)" using IH by simp
    fix i
    show "map_of (ms_entries (fold (rewrite_entry (mark_archived now)) (e # es) s)) i =
       (if i \<in> me_id ` set (e # es) then map_option (mark_archived now) (map_of (ms_entries s) i)
        else map_of (ms_entries s) i)"
      using IH e d(2) by (cases "i = me_id e") (simp_all add: m)
  qed
qed simp

lemma stored_lists:
  assumes "store_ok s"
  shows "distinct (map me_id (filter P (store_get_all s)))"
    and "\<forall>e \<in> set (store_get_all s). map_of (ms_entries s) (me_id e) = Some e"
    and "map_of (ms_entries s) i = Some e \<Longrightarrow> e \<in> set (store_get_all s)"
proof -
  have ok: "dict_ok (ms_entries s)" "\<forall>(i, e) \<in> set (ms_entries s). me_id e = i"
    using assms by (auto simp: store_ok_def entries_ok_def)
  have "map me_id (store_get_all s) = keys (ms_entries s)"
    using ok(2) by (auto simp: store_get_all_def)
  then have "distinct (map me_id (store_get_all s))" using ok(1) by simp
  then show "distinct (map me_id (filter P (store_get_all s)))" by (rule distinct_map_filter)
  show "\<forall>e \<in> set (store_get_all s). map_of (ms_entries s) (me_id e) = Some e"
    using ok by (auto simp: store_get_all_def)
  show "map_of (ms_entries s) i = Some e \<Longrightarrow> e \<in> set (store_get_all s)"
    by (force simp: store_get_all_def dest: map_of_SomeD)
qed

lemma purge_fold:
  assumes "store_ok s"
  shows "store_ok (fold (\<lambda>i s. snd (store_delete i s)) is s) \<and>
    (\<forall>i. map_of (ms_entries (fold (\<lambda>i s. snd (store_delete i s)) is s)) i =
      (if i \<in> set is then None else map_of (ms_entries s) i))"
  using assms
proof (induction "is" arbitrary: s)
  case (Cons i "is")
  from Cons.IH[OF store_ok_delete[OF Cons.prems, of i]] show ?case
    by (auto simp: map_of_delete_iff)
qed simp

section \<open>Properties\<close>

text \<open>Updating the tags of an entry leaves it under every tag it had before: the entry is
  changed in place before the store removes it from its indexes, so the old tags are no longer
  known.  An update without tags keeps every index exact.\<close>

theorem update_keeps_dropped_tags:
  assumes "store_ok s" "map_of (ms_entries s) i = Some e" "engine_update summarize now i c s = (r, s1)"
  shows "\<exists>e1. r = Some e1 \<and> store_get i s1 = Some e1 \<and> me_version e1 = me_version e + 1 \<and>
      (mc_tags c = None \<longrightarrow> store_ok s1) \<and> (\<forall>t \<in> set (me_tags e). e1 \<in> set (get_by_tag t s1))"
proof -
  have id: "me_id e = i" by (rule stored_id[OF assms(1,2)])
  define s0 where "s0 = snd (engine_retrieve now i s)"
  define e1 where "e1 = apply_changes summarize now c (touch now e)"
  note ok0 = engine_retrieve_ok[OF assms(1), of now i, folded s0_def]
  have "engine_retrieve now i s = (Some (touch now e), s0)"
    using ok0(3) assms(2) by (simp add: s0_def prod_eq_iff)
  then have upd: "r = Some e1" "s1 = rewrite_entry (apply_changes summarize now c) (touch now e) s0"
    using assms(3) by (simp_all add: engine_update_def e1_def)
  have tid: "me_id (touch now e) = i" "me_tags (touch now e) = me_tags e" using id by (simp_all add: touch_def)
  have m0: "map_of (ms_entries s0) i = Some (touch now e)" using ok0(2) assms(2) by simp
  have get: "map_of (ms_entries s1) i = Some e1"
    unfolding upd(2) using rewrite_entry_entries[of "apply_changes summarize now c" "touch now e" s0]
    by (simp add: apply_changes_keys tid e1_def)
  have "store_ok s1" if "mc_tags c = None"
    unfolding upd(2) using rewrite_entry_ok[OF ok0(1), of "touch now e"] m0 apply_changes_keys(3)[OF that] tid by simp
  moreover have "e1 \<in> set (get_by_tag t s1)" if t: "t \<in> set (me_tags e)" for t
  proof -
    have "touch now e \<in> set (get_by_tag t s0)"
      using queries_of_ok(3)[OF ok0(1)] stored_lists(3)[OF ok0(1) m0] t tid by simp
    then have "i \<in> set (dget [] (ms_tag_index s0) t)"
      using ok0(1) m0 t tid by (auto simp: store_ok_def indexes_exact_def index_exact_def)
    then have "i \<in> set (dget [] (ms_tag_index s1) t)"
      unfolding upd(2) using rewrite_entry_tag_index[of s0 "touch now e" "apply_changes summarize now c" t] m0 tid
      by (simp add: apply_changes_keys)
    from in_entries_of[OF get this] show ?thesis by (simp add: get_by_tag_def)
  qed
  moreover have "me_version e1 = me_version e + 1"
    by (simp add: e1_def apply_changes_def touch_def Let_def split: option.split)
  ultimately show ?thesis using upd(1) get by (auto simp: store_get_def)
qed

theorem update_keeps_dropped_tags_witness:
  "\<exists>e1 s1. engine_update (\<lambda>_. None) 0 ''m''
     \<lparr>mc_content = None, mc_tags = Some [''b''], mc_importance = None, mc_summary = None, mc_metadata = None\<rparr>
     (store_save (demo_entry ''m'' [''a''] None) (new_memory_store None)) = (Some e1, s1) \<and>
   me_tags e1 = [''b''] \<and> e1 \<in> set (get_by_tag ''a'' s1)"
proof -
  let ?c = "\<lparr>mc_content = None, mc_tags = Some [''b''], mc_importance = None, mc_summary = None, mc_metadata = None\<rparr>"
  let ?e = "demo_entry ''m'' [''a''] None"
  let ?s = "store_save ?e (new_memory_store None)"
  have ok: "store_ok ?s" by (rule store_ok_save[OF store_ok_new(1)]) (simp add: demo_entry_def)
  have m: "map_of (ms_entries ?s) ''m'' = Some ?e" by (simp add: demo_entry_def)
  obtain r s1 where u: "engine_update (\<lambda>_. None) 0 ''m'' ?c ?s = (r, s1)" by (metis surj_pair)
  from update_keeps_dropped_tags[OF ok m u] obtain e1 where
    "r = Some e1" "e1 \<in> set (get_by_tag ''a'' s1)" by (auto simp: demo_entry_def)
  moreover have "me_tags e1 = [''b'']"
    using u \<open>r = Some e1\<close> by (auto simp: engine_update_def engine_retrieve_def store_get_def apply_changes_def
        demo_entry_def split: option.splits)
  ultimately show ?thesis using u by blast
qed

text \<open>A promoted entry is still found under its old tier.\<close>

lemma promoted_entry_in_both_tiers:
  assumes "store_ok s" "map_of (ms_entries s) i = Some e" "m \<le> me_importance e"
    and "promote_to_long_term now i m s = (r, s1)"
  shows "r \<and> (\<exists>e1. store_get i s1 = Some e1 \<and> me_tier e1 = ''long_term'' \<and>
    e1 \<in> set (get_by_tier ''long_term'' s1) \<and> e1 \<in> set (get_by_tier (me_tier e) s1))"
proof -
  let ?f = "\<lambda>e. e\<lparr>me_tier := ''long_term''\<rparr>"
  have id: "me_id e = i" by (rule stored_id[OF assms(1,2)])
  define s0 where "s0 = snd (engine_retrieve now i s)"
  note ok0 = engine_retrieve_ok[OF assms(1), of now i, folded s0_def]
  have er: "engine_retrieve now i s = (Some (touch now e), s0)"
    using ok0(3) assms(2) by (simp add: s0_def prod_eq_iff)
  then have p: "r" "s1 = rewrite_entry ?f (touch now e) s0"
    using assms(3,4) by (simp_all add: promote_to_long_term_def touch_def)
  have m0: "map_of (ms_entries s0) i = Some (touch now e)" using ok0(2) assms(2) by simp
  have tid: "me_id (touch now e) = i" "me_tier (touch now e) = me_tier e" using id by (simp_all add: touch_def)
  have get: "map_of (ms_entries s1) i = Some (?f (touch now e))"
    unfolding p(2) using rewrite_entry_entries[of ?f "touch now e" s0] tid by simp
  have "i \<in> set (dget [] (ms_tier_index s0) (me_tier e))"
    using ok0(1) m0 tid by (auto simp: store_ok_def indexes_exact_def index_exact_def)
  then have "i \<in> set (dget [] (ms_tier_index s1) t)" if "t \<in> {''long_term'', me_tier e}" for t
    unfolding p(2) using rewrite_entry_tier_index[of s0 "touch now e" ?f t] m0 tid that by auto
  from in_entries_of[OF get this] get p(1) show ?thesis by (auto simp: store_get_def get_by_tier_def)
qed

text \<open>Linking two stored memories never succeeds: it raises after the child has got its new
  parent, which no index knows, so the child is not listed among the children of the parent.\<close>

theorem link_memories_never_succeeds:
  assumes "store_ok s" "link_memories now p c s = (r, s1)"
  shows "r \<noteq> Inr True \<and>
    (map_of (ms_entries s) p \<noteq> None \<and> map_of (ms_entries s) c = Some ce \<longrightarrow>
      r = Inl (NoField ''children_ids'') \<and>
      (\<exists>e1. store_get c s1 = Some e1 \<and> me_parent_id e1 = Some p \<and>
         (e1 \<in> set (get_children p s1) \<longrightarrow> me_parent_id ce = Some p)))"
proof (intro conjI impI)
  define s2 where "s2 = snd (engine_retrieve now p s)"
  define s3 where "s3 = snd (engine_retrieve now c s2)"
  note ok2 = engine_retrieve_ok[OF assms(1), of now p, folded s2_def]
  note ok3 = engine_retrieve_ok[OF ok2(1), of now c, folded s3_def]
  have l: "link_memories now p c s =
      (case (fst (engine_retrieve now p s), fst (engine_retrieve now c s2)) of
         (Some _, Some ce) \<Rightarrow> (Inl (NoField ''children_ids''), store_mutate (ce\<lparr>me_parent_id := Some p\<rparr>) s3)
       | _ \<Rightarrow> (Inr False, s3))"
    unfolding link_memories_def s3_def s2_def case_prod_beta by (simp split: option.split)
  show "r \<noteq> Inr True" using assms(2) unfolding l by (auto split: option.splits)
  assume "map_of (ms_entries s) p \<noteq> None \<and> map_of (ms_entries s) c = Some ce"
  then have p: "map_of (ms_entries s) p \<noteq> None" and c: "map_of (ms_entries s) c = Some ce" by simp_all
  obtain c2 where c2: "map_of (ms_entries s2) c = Some c2" "me_parent_id c2 = me_parent_id ce"
    using ok2(2) c by (cases "p = c") (auto simp: touch_def split: option.splits)
  have id: "me_id c2 = c" by (rule stored_id[OF ok2(1) c2(1)])
  have r: "r = Inl (NoField ''children_ids'')" "s1 = store_mutate ((touch now c2)\<lparr>me_parent_id := Some p\<rparr>) s3"
    using assms(2) p unfolding l by (auto simp: ok2(3) ok3(3) c2(1))
  let ?e = "(touch now c2)\<lparr>me_parent_id := Some p\<rparr>"
  have get: "map_of (ms_entries s1) c = Some ?e" using id by (simp add: r(2) store_mutate_def touch_def)
  have m3: "map_of (ms_entries s3) c = Some (touch now c2)" using ok3(2) c2(1) by simp
  have "me_parent_id ce = Some p" if "?e \<in> set (get_children p s1)"
  proof -
    from that obtain j where j: "j \<in> set (dget [] (ms_parent_index s1) p)" "map_of (ms_entries s1) j = Some ?e"
      by (auto simp: get_children_def entries_of_def map_filter_set_iff)
    have "j = c"
    proof (rule ccontr)
      assume "j \<noteq> c"
      then have "map_of (ms_entries s3) j = Some ?e" using j(2) id by (simp add: r(2) store_mutate_def touch_def)
      then show False using stored_id[OF ok3(1)] id \<open>j \<noteq> c\<close> by (fastforce simp: touch_def)
    qed
    then have "c \<in> set (dget [] (ms_parent_index s3) p)" using j(1) by (simp add: r(2) store_mutate_def)
    then have "p \<in> set (parent_keys (touch now c2))"
      using ok3(1) m3 by (auto simp: store_ok_def indexes_exact_def index_exact_def)
    then show ?thesis using c2(2) by (cases "me_parent_id c2") (auto simp: touch_def truthy_id_def split: if_splits)
  qed
  with get show "\<exists>e1. store_get c s1 = Some e1 \<and> me_parent_id e1 = Some p \<and>
         (e1 \<in> set (get_children p s1) \<longrightarrow> me_parent_id ce = Some p)"
    by (simp add: store_get_def)
  show "r = Inl (NoField ''children_ids'')" by (rule r(1))
qed

theorem link_memories_never_succeeds_witness:
  "\<exists>s1 e1. link_memories 0 ''p'' ''c'' (store_save (demo_entry ''c'' [] None) (store_save (demo_entry ''p'' [] None)
      (new_memory_store None))) = (Inl (NoField ''children_ids''), s1) \<and>
    store_get ''c'' s1 = Some e1 \<and> me_parent_id e1 = Some ''p'' \<and> e1 \<notin> set (get_children ''p'' s1)"
proof -
  let ?s = "store_save (demo_entry ''c'' [] None) (store_save (demo_entry ''p'' [] None) (new_memory_store None))"
  have ok: "store_ok ?s" by (intro store_ok_save store_ok_new) (simp_all add: demo_entry_def)
  have m: "map_of (ms_entries ?s) ''p'' \<noteq> None" "map_of (ms_entries ?s) ''c'' = Some (demo_entry ''c'' [] None)"
    by (simp_all add: demo_entry_def)
  obtain r s1 where l: "link_memories 0 ''p'' ''c'' ?s = (r, s1)" by (metis surj_pair)
  have n: "me_parent_id (demo_entry ''c'' [] None) \<noteq> Some ''p''" by (simp add: demo_entry_def)
  from link_memories_never_succeeds[OF ok l, where ce = "demo_entry ''c'' [] None"] m
  have "r = Inl (NoField ''children_ids'') \<and> (\<exists>e1. store_get ''c'' s1 = Some e1 \<and> me_parent_id e1 = Some ''p'' \<and>
      (e1 \<in> set (get_children ''p'' s1) \<longrightarrow> me_parent_id (demo_entry ''c'' [] None) = Some ''p''))"
    by blast
  with l n show ?thesis by blast
qed

text \<open>Purging deletes exactly the archived entries and counts them; an archiving pass archives
  exactly the listed entries.\<close>

lemma purge_archived_effect:
  assumes "store_ok s"
  shows "store_ok (snd (purge_archived s))"
    and "map_of (ms_entries (snd (purge_archived s))) i =
      (case map_of (ms_entries s) i of None \<Rightarrow> None | Some e \<Rightarrow> if me_archived e then None else Some e)"
proof -
  note f = purge_fold[OF assms, of "map me_id (filter me_archived (store_get_all s))"]
  show "store_ok (snd (purge_archived s))" using f by (simp add: purge_archived_def Let_def)
  have "i \<in> set (map me_id (filter me_archived (store_get_all s))) \<longleftrightarrow>
      (\<exists>e. map_of (ms_entries s) i = Some e \<and> me_archived e)"
  proof
    assume "i \<in> set (map me_id (filter me_archived (store_get_all s)))"
    then obtain e where "e \<in> set (store_get_all s)" "me_archived e" "me_id e = i" by auto
    then show "\<exists>e. map_of (ms_entries s) i = Some e \<and> me_archived e" using stored_lists(2)[OF assms] by blast
  next
    assume "\<exists>e. map_of (ms_entries s) i = Some e \<and> me_archived e"
    then obtain e where e: "map_of (ms_entries s) i = Some e" "me_archived e" by blast
    then have "e \<in> set (filter me_archived (store_get_all s))" using stored_lists(3)[OF assms e(1)] by simp
    then show "i \<in> set (map me_id (filter me_archived (store_get_all s)))"
      using stored_id[OF assms e(1)] by (metis image_eqI set_map)
  qed
  then show "map_of (ms_entries (snd (purge_archived s))) i =
      (case map_of (ms_entries s) i of None \<Rightarrow> None | Some e \<Rightarrow> if me_archived e then None else Some e)"
    using f by (auto simp: purge_archived_def Let_def split: option.split)
qed

end
