(* ===== verification/EventQueue.thy ===== *)
theory EventQueue
  imports PyValue "HOL-Library.Multiset"
begin

text \<open>
  The priority queue of events (\<^verbatim>\<open>events/priorities.py\<close>) on the binary heap of the standard
  library (\<^verbatim>\<open>heapq\<close>).  A heap is a list; the two sift loops of the library move one item along
  a path, here the item is written back at every step.  The heap is stated with a key: the
  code compares its queue records by their priority index alone.
\<close>

section \<open>The library heap\<close>

definition heap_parent :: "nat \<Rightarrow> nat" where
  "heap_parent i = (i - 1) div 2"

lemma heap_parent_less [simp]: "0 < i \<Longrightarrow> heap_parent i < i"
  by (simp add: heap_parent_def)

lemma heap_parent_child: "heap_parent i = p \<Longrightarrow> 0 < i \<Longrightarrow> i = 2 * p + 1 \<or> i = 2 * p + 2"
  by (auto simp: heap_parent_def)

lemma heap_parent_of_child [simp]: "heap_parent (Suc (2 * p)) = p" "heap_parent (Suc (Suc (2 * p))) = p"
  by (simp_all add: heap_parent_def)

function siftdown :: "('a \<Rightarrow> nat) \<Rightarrow> nat \<Rightarrow> 'a list \<Rightarrow> 'a list" where
  "siftdown k pos xs =
     (if 0 < pos \<and> k (xs ! pos) < k (xs ! heap_parent pos)
      then siftdown k (heap_parent pos) (xs[pos := xs ! heap_parent pos, heap_parent pos := xs ! pos])
      else xs)"
  by pat_completeness auto

termination by (relation "measure (\<lambda>(k, pos, xs). pos)") auto

declare siftdown.simps [simp del]

definition heap_child :: "('a \<Rightarrow> nat) \<Rightarrow> nat \<Rightarrow> 'a list \<Rightarrow> nat" where
  "heap_child k pos xs =
     (if 2 * pos + 2 < length xs \<and> \<not> k (xs ! (2 * pos + 1)) < k (xs ! (2 * pos + 2))
      then 2 * pos + 2 else 2 * pos + 1)"

lemma heap_child_bounds: "pos < heap_child k pos xs" "2 * pos + 1 < length xs \<Longrightarrow> heap_child k pos xs < length xs"
  by (auto simp: heap_child_def)

function sift_leaf :: "('a \<Rightarrow> nat) \<Rightarrow> nat \<Rightarrow> 'a list \<Rightarrow> nat \<times> 'a list" where
  "sift_leaf k pos xs =
     (if 2 * pos + 1 < length xs
      then sift_leaf k (heap_child k pos xs) (xs[pos := xs ! heap_child k pos xs, heap_child k pos xs := xs ! pos])
      else (pos, xs))"
  by pat_completeness auto

termination
proof (relation "measure (\<lambda>(k, pos, xs). length xs - pos)", goal_cases)
  case (2 k pos xs)
  then show ?case using heap_child_bounds[where pos = pos and k = k and xs = xs] by simp
qed simp

declare sift_leaf.simps [simp del]

definition siftup :: "('a \<Rightarrow> nat) \<Rightarrow> 'a list \<Rightarrow> 'a list" where
  "siftup k xs = (case sift_leaf k 0 xs of (pos, ys) \<Rightarrow> siftdown k pos ys)"

definition heappush :: "('a \<Rightarrow> nat) \<Rightarrow> 'a \<Rightarrow> 'a list \<Rightarrow> 'a list" where
  "heappush k x xs = siftdown k (length xs) (xs @ [x])"

definition heappop :: "('a \<Rightarrow> nat) \<Rightarrow> 'a list \<Rightarrow> 'a \<times> 'a list" where
  "heappop k xs =
     (let lastelt = last xs; ys = butlast xs
      in if ys = [] then (lastelt, []) else (ys ! 0, siftup k (ys[0 := lastelt])))"

section \<open>Heap order\<close>

definition heap_ok :: "('a \<Rightarrow> nat) \<Rightarrow> 'a list \<Rightarrow> bool" where
  "heap_ok k xs \<longleftrightarrow> (\<forall>i < length xs. 0 < i \<longrightarrow> k (xs ! heap_parent i) \<le> k (xs ! i))"

text \<open>The heap order but for the item at a position.\<close>

definition heap_above :: "('a \<Rightarrow> nat) \<Rightarrow> nat \<Rightarrow> 'a list \<Rightarrow> bool" where
  "heap_above k pos xs \<longleftrightarrow>
     (\<forall>i < length xs. 0 < i \<longrightarrow> i \<noteq> pos \<longrightarrow> k (xs ! heap_parent i) \<le> k (xs ! i)) \<and>
     (\<forall>i < length xs. 0 < i \<longrightarrow> heap_parent i = pos \<longrightarrow> 0 < pos \<longrightarrow> k (xs ! heap_parent pos) \<le> k (xs ! i))"

definition heap_hole :: "('a \<Rightarrow> nat) \<Rightarrow> nat \<Rightarrow> 'a list \<Rightarrow> bool" where
  "heap_hole k pos xs \<longleftrightarrow>
     (\<forall>i < length xs. 0 < i \<longrightarrow> i \<noteq> pos \<longrightarrow> heap_parent i \<noteq> pos \<longrightarrow> k (xs ! heap_parent i) \<le> k (xs ! i)) \<and>
     (\<forall>i < length xs. 0 < i \<longrightarrow> heap_parent i = pos \<longrightarrow> 0 < pos \<longrightarrow> k (xs ! heap_parent pos) \<le> k (xs ! i))"

lemma siftdown_mset [simp]: "pos < length xs \<Longrightarrow> mset (siftdown k pos xs) = mset xs"
proof (induction k pos xs rule: siftdown.induct)
  case (1 k pos xs)
  then show ?case
    by (subst siftdown.simps) (auto simp: mset_swap dest: less_trans[OF heap_parent_less])
qed

lemma siftdown_heap: "pos < length xs \<Longrightarrow> heap_above k pos xs \<Longrightarrow> heap_ok k (siftdown k pos xs)"
proof (induction k pos xs rule: siftdown.induct)
  case (1 k pos xs)
  let ?p = "heap_parent pos" and ?ys = "xs[pos := xs ! heap_parent pos, heap_parent pos := xs ! pos]"
  show ?case
  proof (cases "0 < pos \<and> k (xs ! pos) < k (xs ! ?p)")
    case True
    then have "?p < pos" by simp
    with "1.prems"(1) have lt: "?p < pos" "?p < length xs" by linarith+
    note up = "1.prems"(2)[unfolded heap_above_def]
    have nth: "?ys ! i = (if i = ?p then xs ! pos else if i = pos then xs ! ?p else xs ! i)" if "i < length xs" for i
      using that lt "1.prems"(1) by (auto simp: nth_list_update)
    have "heap_above k ?p ?ys"
      unfolding heap_above_def
    proof (intro conjI allI impI, goal_cases)
      case (1 i)
      then have il: "i < length xs" "heap_parent i < length xs" using heap_parent_less[of i] by (simp_all, linarith)
      show ?case
      proof (cases "i = pos")
        case True
        have "?ys ! pos = xs ! ?p" using nth[OF "1.prems"(1)] lt(1) by simp
        moreover have "?ys ! ?p = xs ! pos" using nth[OF lt(2)] by simp
        ultimately show ?thesis using True \<open>0 < pos \<and> _\<close> by simp
      next
        case False
        then show ?thesis using nth[OF il(1)] nth[OF il(2)] 1 up il lt \<open>0 < pos \<and> _\<close>
          by (cases "heap_parent i = pos"; cases "heap_parent i = ?p")
            (auto intro: order_trans[OF less_imp_le])
      qed
    next
      case (2 i)
      then have il: "i < length xs" "?p < length xs" "heap_parent ?p < length xs"
        using lt heap_parent_less[of ?p] by (simp_all, linarith)
      have "k (xs ! heap_parent ?p) \<le> k (xs ! ?p)" using up 2 lt by auto
      moreover have "i \<noteq> pos \<Longrightarrow> k (xs ! ?p) \<le> k (xs ! i)" using up 2 il by auto
      moreover have "heap_parent ?p \<noteq> ?p" using heap_parent_less[of ?p] 2 by linarith
      ultimately show ?case using nth[OF il(1)] nth[OF il(3)] 2 lt by (cases "i = pos") auto
    qed
    with True show ?thesis using "1.IH" lt by (subst siftdown.simps) simp
  next
    case False
    then show ?thesis using "1.prems" by (subst siftdown.simps) (auto simp: heap_ok_def heap_above_def)
  qed
qed

lemma sift_leaf_props:
  "pos < length xs \<Longrightarrow> heap_hole k pos xs \<Longrightarrow> sift_leaf k pos xs = (q, ys) \<Longrightarrow>
   q < length ys \<and> mset ys = mset xs \<and> heap_above k q ys"
proof (induction k pos xs rule: sift_leaf.induct)
  case (1 k pos xs)
  let ?c = "heap_child k pos xs"
  let ?zs = "xs[pos := xs ! ?c, ?c := xs ! pos]"
  show ?case
  proof (cases "2 * pos + 1 < length xs")
    case True
    have c: "pos < ?c" "?c < length xs" using heap_child_bounds True by auto
    have par: "heap_parent ?c = pos" by (simp add: heap_child_def)
    have least: "k (xs ! ?c) \<le> k (xs ! i)" if "i < length xs" "0 < i" "heap_parent i = pos" for i
      using heap_parent_child[OF that(3,2)] that(1) by (auto simp: heap_child_def)
    have nth: "?zs ! i = (if i = ?c then xs ! pos else if i = pos then xs ! ?c else xs ! i)" if "i < length xs" for i
      using that c by (auto simp: nth_list_update)
    note hole = "1.prems"(2)[unfolded heap_hole_def]
    have "heap_hole k ?c ?zs"
      unfolding heap_hole_def
    proof (intro conjI allI impI, goal_cases)
      case (1 i)
      then have il: "i < length xs" "heap_parent i < length xs" using heap_parent_less[of i] by (simp_all, linarith)
      show ?case
      proof (cases "i = pos")
        case True
        then have "k (xs ! heap_parent pos) \<le> k (xs ! ?c)" using hole c par 1 by auto
        then show ?thesis using True nth[OF il(1)] nth[OF il(2)] 1 c by auto
      next
        case False
        then show ?thesis using nth[OF il(1)] nth[OF il(2)] 1 hole least[OF il(1)] by auto
      qed
    next
      case (2 i)
      then have il: "i < length xs" by simp
      have ne: "i \<noteq> pos" "i \<noteq> ?c" using 2 c heap_parent_less[of i] by auto
      then have "k (xs ! ?c) \<le> k (xs ! i)" using hole 2 c by auto
      with ne show ?case using nth[OF il] nth[of pos] par c "1.prems"(1) by auto
    qed
    moreover have "sift_leaf k ?c ?zs = (q, ys)" using "1.prems"(3) True by (subst (asm) sift_leaf.simps) simp
    ultimately have "q < length ys \<and> mset ys = mset ?zs \<and> heap_above k q ys"
      using "1.IH"[OF True] c by simp
    then show ?thesis using mset_swap[OF c(2) "1.prems"(1)] by simp
  next
    case False
    then have "q = pos" "ys = xs" using "1.prems"(3) by (simp_all add: sift_leaf.simps[of k pos xs])
    moreover have "heap_parent i \<noteq> pos" if "i < length xs" "0 < i" for i
      using heap_parent_child[of i pos] that False by auto
    ultimately show ?thesis using "1.prems" by (auto simp: heap_above_def heap_hole_def)
  qed
qed

lemma heap_root_least:
  assumes "heap_ok k xs" "i < length xs"
  shows "k (xs ! 0) \<le> k (xs ! i)"
  using assms(2)
proof (induction i rule: less_induct)
  case (less i)
  show ?case
  proof (cases "i = 0")
    case False
    then have "heap_parent i < i" by simp
    then have "k (xs ! 0) \<le> k (xs ! heap_parent i)" using less by (meson less_trans)
    also have "\<dots> \<le> k (xs ! i)" using assms(1) less.prems False by (simp add: heap_ok_def)
    finally show ?thesis .
  qed simp
qed

lemma heappush_ok:
  assumes "heap_ok k xs"
  shows "heap_ok k (heappush k x xs)" "mset (heappush k x xs) = mset xs + {#x#}"
proof -
  have "heap_above k (length xs) (xs @ [x])"
    unfolding heap_above_def
  proof (intro conjI allI impI, goal_cases)
    case (1 i)
    then have "i < length xs" "heap_parent i < length xs" using heap_parent_less[of i] by (simp_all, linarith)
    then show ?case using assms 1 by (simp add: heap_ok_def nth_append)
  next
    case (2 i)
    then show ?case using heap_parent_less[of i] by simp
  qed
  then show "heap_ok k (heappush k x xs)" by (simp add: heappush_def siftdown_heap)
  show "mset (heappush k x xs) = mset xs + {#x#}" by (simp add: heappush_def)
qed

lemma heappop_ok:
  assumes "heap_ok k xs" "xs \<noteq> []" "heappop k xs = (x, ys)"
  shows "x = xs ! 0" "heap_ok k ys" "mset xs = add_mset x (mset ys)" "\<forall>y \<in> set xs. k x \<le> k y"
proof -
  have xs: "xs = butlast xs @ [last xs]" using assms(2) by simp
  have x0: "x = xs ! 0 \<and> heap_ok k ys \<and> mset xs = add_mset x (mset ys)"
  proof (cases "butlast xs = []")
    case True
    then have "xs = [last xs]" using xs by simp
    then show ?thesis using assms(3) True by (auto simp: heappop_def Let_def heap_ok_def)
  next
    case False
    let ?b = "butlast xs"
    let ?zs = "?b[0 := last xs]"
    have b: "0 < length ?b" using False by (rule iffD2[OF length_greater_0_conv])
    have nb: "?b ! i = xs ! i" if "i < length ?b" for i using that by (simp add: nth_butlast)
    have "heap_hole k 0 ?zs"
      unfolding heap_hole_def
    proof (intro conjI allI impI, goal_cases)
      case (1 i)
      then have il: "i < length ?b" "heap_parent i < length ?b" using heap_parent_less[of i] by (simp_all, linarith)
      then show ?case using 1 assms(1) nb[OF il(1)] nb[OF il(2)] by (auto simp: heap_ok_def)
    qed simp
    moreover obtain q ws where sl: "sift_leaf k 0 ?zs = (q, ws)" by (metis surj_pair)
    ultimately have p: "q < length ws \<and> mset ws = mset ?zs \<and> heap_above k q ws"
      using sift_leaf_props[of 0 ?zs k] b by simp
    have ys: "x = ?b ! 0" "ys = siftdown k q ws"
      using assms(3) False sl by (simp_all add: heappop_def Let_def siftup_def)
    have "mset ys = mset ?zs" using ys(2) p by simp
    also have "\<dots> = add_mset (last xs) (mset ?b - {#?b ! 0#})" using b by (simp add: mset_update)
    finally have "add_mset x (mset ys) = add_mset (last xs) (mset ?b)"
      using ys(1) b by (simp add: add_mset_commute nth_mem_mset)
    also have "\<dots> = mset xs" by (subst (3) xs) simp
    finally show ?thesis using ys p nb[of 0] b siftdown_heap[of q ws k] by simp
  qed
  then show "x = xs ! 0" "heap_ok k ys" "mset xs = add_mset x (mset ys)" by simp_all
  then show "\<forall>y \<in> set xs. k x \<le> k y" using heap_root_least[OF assms(1)] by (metis in_set_conv_nth)
qed

section \<open>Events\<close>

datatype EventPriority = CRITICAL | HIGH | NORMAL | LOW | BACKGROUND

record event =
  ev_id :: name
  ev_timestamp :: time
  ev_type :: name
  ev_source :: name
  ev_correlation_id :: "name option"
  ev_priority :: EventPriority
  ev_tags :: "name list"
  ev_payload :: "(name, json) dict"

section \<open>Priority processor\<close>

primrec PRIORITY_ORDER :: "EventPriority \<Rightarrow> nat" where
  "PRIORITY_ORDER CRITICAL = 0"
| "PRIORITY_ORDER HIGH = 1"
| "PRIORITY_ORDER NORMAL = 2"
| "PRIORITY_ORDER LOW = 3"
| "PRIORITY_ORDER BACKGROUND = 4"

record PrioritizedEvent =
  pe_priority_index :: nat
  pe_created_at :: time
  pe_sequence :: nat
  pe_event :: event

record priority_processor =
  pp_queue :: "PrioritizedEvent list"
  pp_sequence :: nat

definition new_priority_processor :: priority_processor where
  "new_priority_processor = \<lparr>pp_queue = [], pp_sequence = 0\<rparr>"

definition enqueue :: "event \<Rightarrow> priority_processor \<Rightarrow> priority_processor" where
  "enqueue e p =
     (let sq = pp_sequence p + 1;
          pe = \<lparr>pe_priority_index = PRIORITY_ORDER (ev_priority e), pe_created_at = ev_timestamp e,
                pe_sequence = sq, pe_event = e\<rparr>
      in p\<lparr>pp_sequence := sq, pp_queue := heappush pe_priority_index pe (pp_queue p)\<rparr>)"

definition dequeue :: "priority_processor \<Rightarrow> event option \<times> priority_processor" where
  "dequeue p =
     (if pp_queue p = [] then (None, p)
      else case heappop pe_priority_index (pp_queue p) of
             (pe, q) \<Rightarrow> (Some (pe_event pe), p\<lparr>pp_queue := q\<rparr>))"

definition peek :: "priority_processor \<Rightarrow> event option" where
  "peek p = (case pp_queue p of [] \<Rightarrow> None | pe # _ \<Rightarrow> Some (pe_event pe))"

definition queue_size :: "priority_processor \<Rightarrow> nat" where
  "queue_size p = length (pp_queue p)"

definition clear_queue :: "priority_processor \<Rightarrow> priority_processor" where
  "clear_queue p = p\<lparr>pp_queue := [], pp_sequence := 0\<rparr>"

section \<open>The queue as a multiset\<close>

text \<open>What the queue holds, without the order of the heap.\<close>

definition queued :: "priority_processor \<Rightarrow> event multiset" where
  "queued p = mset (map pe_event (pp_queue p))"

definition queue_ok :: "priority_processor \<Rightarrow> bool" where
  "queue_ok p \<longleftrightarrow> heap_ok pe_priority_index (pp_queue p) \<and>
     (\<forall>pe \<in> set (pp_queue p). pe_priority_index pe = PRIORITY_ORDER (ev_priority (pe_event pe)))"

text \<open>
  The contract of a priority queue: what a client may rely on.  A client that pops until the
  queue is empty gets everything it pushed, most urgent first.
\<close>

locale priority_queue =
  fixes push :: "'a \<Rightarrow> 'q \<Rightarrow> 'q" and pop :: "'q \<Rightarrow> 'a option \<times> 'q"
    and content :: "'q \<Rightarrow> 'a multiset" and good :: "'q \<Rightarrow> bool" and rank :: "'a \<Rightarrow> nat"
  assumes push_good: "good q \<Longrightarrow> good (push x q)"
    and push_content: "good q \<Longrightarrow> content (push x q) = content q + {#x#}"
    and pop_none: "good q \<Longrightarrow> fst (pop q) = None \<longleftrightarrow> content q = {#}"
    and pop_good: "good q \<Longrightarrow> good (snd (pop q))"
    and pop_some: "good q \<Longrightarrow> fst (pop q) = Some x \<Longrightarrow>
      content q = add_mset x (content (snd (pop q))) \<and> (\<forall>y \<in># content q. rank x \<le> rank y)"
begin

primrec drain :: "nat \<Rightarrow> 'q \<Rightarrow> 'a list" where
  "drain 0 q = []"
| "drain (Suc n) q = (case pop q of (None, _) \<Rightarrow> [] | (Some x, q1) \<Rightarrow> x # drain n q1)"

lemma drain_sorted:
  "good q \<Longrightarrow> size (content q) \<le> n \<Longrightarrow> mset (drain n q) = content q \<and> sorted (map rank (drain n q))"
proof (induction n arbitrary: q)
  case (Suc n)
  obtain r q1 where pop: "pop q = (r, q1)" by (metis surj_pair)
  show ?case
  proof (cases r)
    case None
    then have "content q = {#}" using pop_none[OF Suc.prems(1)] pop by simp
    with None pop show ?thesis by simp
  next
    case (Some x)
    then have x: "content q = add_mset x (content q1)" "\<forall>y \<in># content q. rank x \<le> rank y"
      using pop_some[OF Suc.prems(1), of x] pop by simp_all
    have "good q1" using pop_good[OF Suc.prems(1)] pop by simp
    with Suc.IH[of q1] Suc.prems(2) x(1) have IH: "mset (drain n q1) = content q1" "sorted (map rank (drain n q1))"
      by simp_all
    have "\<forall>y \<in> set (drain n q1). rank x \<le> rank y"
      using x IH(1) by (metis insert_iff set_mset_add_mset_insert set_mset_mset)
    with IH x(1) show ?thesis using pop Some by simp
  qed
qed simp

lemma pushed_content: "good q \<Longrightarrow> good (fold push xs q) \<and> content (fold push xs q) = content q + mset xs"
  by (induction xs arbitrary: q) (simp_all add: push_good push_content)

end

interpretation pq: priority_queue enqueue dequeue queued queue_ok "\<lambda>e. PRIORITY_ORDER (ev_priority e)"
proof (unfold_locales, goal_cases)
  case (1 q x)
  let ?pe = "\<lparr>pe_priority_index = PRIORITY_ORDER (ev_priority x), pe_created_at = ev_timestamp x,
      pe_sequence = pp_sequence q + 1, pe_event = x\<rparr>"
  note h = heappush_ok[of pe_priority_index "pp_queue q" ?pe]
  have "set (heappush pe_priority_index ?pe (pp_queue q)) = insert ?pe (set (pp_queue q))"
    using h(2) 1 by (metis queue_ok_def Un_insert_right set_mset_add_mset_insert set_mset_empty set_mset_mset set_mset_union sup_bot.right_neutral)
  with h(1) 1 show ?case by (auto simp: queue_ok_def enqueue_def Let_def)
next
  case (2 q x)
  then show ?case by (simp add: queue_ok_def queued_def enqueue_def Let_def heappush_ok(2))
next
  case (3 q)
  then show ?case by (simp add: queued_def dequeue_def case_prod_beta)
next
  case (4 q)
  show ?case
  proof (cases "pp_queue q = []")
    case False
    obtain pe ys where pop: "heappop pe_priority_index (pp_queue q) = (pe, ys)" by (metis surj_pair)
    note h = heappop_ok[OF _ False pop]
    have "set ys \<subseteq> set (pp_queue q)" using h(3) 4 by (metis queue_ok_def set_mset_add_mset_insert set_mset_mset subset_insertI)
    with h(2) 4 False pop show ?thesis by (auto simp: queue_ok_def dequeue_def)
  qed (use 4 in \<open>simp add: dequeue_def\<close>)
next
  case (5 q x)
  then have ne: "pp_queue q \<noteq> []" by (auto simp: dequeue_def)
  obtain pe ys where pop: "heappop pe_priority_index (pp_queue q) = (pe, ys)" by (metis surj_pair)
  note h = heappop_ok[OF _ ne pop]
  have ok: "heap_ok pe_priority_index (pp_queue q)"
    "\<forall>pe \<in> set (pp_queue q). pe_priority_index pe = PRIORITY_ORDER (ev_priority (pe_event pe))"
    using 5(1) by (simp_all add: queue_ok_def)
  have x: "x = pe_event pe" "queued (snd (dequeue q)) = mset (map pe_event ys)"
    using 5(2) ne pop by (simp_all add: dequeue_def queued_def)
  have "queued q = add_mset x (queued (snd (dequeue q)))"
    using h(3)[OF ok(1)] unfolding x by (simp add: queued_def)
  moreover have "pe \<in> set (pp_queue q)" using h(3)[OF ok(1)] by (metis set_mset_add_mset_insert set_mset_mset insertI1)
  then have "\<forall>y \<in># queued q. PRIORITY_ORDER (ev_priority x) \<le> PRIORITY_ORDER (ev_priority y)"
    using h(4)[OF ok(1)] ok(2) unfolding x(1) queued_def by auto
  ultimately show ?case by blast
qed

section \<open>Properties\<close>

primrec drain_queue :: "nat \<Rightarrow> priority_processor \<Rightarrow> event list" where
  "drain_queue 0 p = []"
| "drain_queue (Suc n) p = (case dequeue p of (None, _) \<Rightarrow> [] | (Some x, p1) \<Rightarrow> x # drain_queue n p1)"

lemma drain_queue_drain: "drain_queue n p = pq.drain n p"
  by (induction n arbitrary: p) (simp_all split: prod.split option.split)

text \<open>C16: the queue hands out every event that was enqueued, in order of priority: draining it
  gives a permutation of the enqueued events in which no event comes after a less urgent one.\<close>

theorem queue_drains_by_priority:
  "mset (drain_queue (length es) (fold enqueue es new_priority_processor)) = mset es \<and>
   sorted (map (\<lambda>e. PRIORITY_ORDER (ev_priority e)) (drain_queue (length es) (fold enqueue es new_priority_processor)))"
proof -
  have "queue_ok new_priority_processor" "queued new_priority_processor = {#}"
    by (simp_all add: queue_ok_def queued_def heap_ok_def new_priority_processor_def)
  with pq.pushed_content[of new_priority_processor es]
  have "queue_ok (fold enqueue es new_priority_processor)" "queued (fold enqueue es new_priority_processor) = mset es"
    by simp_all
  with pq.drain_sorted show ?thesis unfolding drain_queue_drain by simp
qed

text \<open>Within one priority the queue is not first-in first-out: of four events of the same
  priority the third one overtakes the second.\<close>

theorem queue_not_fifo:
  "drain_queue 4 (fold enqueue (map (\<lambda>i. \<lparr>ev_id = i, ev_timestamp = 0, ev_type = t, ev_source = s,
        ev_correlation_id = None, ev_priority = p, ev_tags = [], ev_payload = []\<rparr>) [''1'', ''2'', ''3'', ''4''])
      new_priority_processor) =
   map (\<lambda>i. \<lparr>ev_id = i, ev_timestamp = 0, ev_type = t, ev_source = s, ev_correlation_id = None,
        ev_priority = p, ev_tags = [], ev_payload = []\<rparr>) [''1'', ''3'', ''2'', ''4'']"
  by (simp add: enqueue_def dequeue_def new_priority_processor_def Let_def heappush_def heappop_def siftup_def
      siftdown.simps sift_leaf.simps heap_child_def heap_parent_def eval_nat_numeral)

end
