(* ===== verification/EventBus.thy ===== *)
theory EventBus
  imports EventQueue
begin

text \<open>
  The event bus (\<^verbatim>\<open>events/bus.py\<close>) with its filters, router, dispatcher, dead letter queue,
  history, metrics, middleware, persistence and replay engine.

  A subscriber is an object: \<^verbatim>\<open>sb_ref\<close> is its identity.  The environment gives the outcome of
  a handler (the error it raised, if any); a handler does not call the bus back.  The event
  type is its string value.  The JSONL files are the lists of the records written to them;
  rotation of the store, delivery times and the thread-pool variants are left out.
\<close>

section \<open>Data\<close>

definition event_type_values :: "name list" where
  "event_type_values =
    [''company.created'', ''company.updated'', ''department.created'', ''department.updated'',
     ''executive.hired'', ''executive.updated'', ''workflow.started'', ''workflow.completed'',
     ''workflow.failed'', ''workflow.cancelled'', ''decision.requested'', ''decision.approved'',
     ''decision.rejected'', ''decision.escalated'', ''decision.deferred'', ''memory.saved'',
     ''memory.updated'', ''memory.archived'', ''memory.restored'', ''project.started'',
     ''project.completed'', ''project.milestone'', ''meeting.scheduled'', ''meeting.completed'',
     ''agent.started'', ''agent.completed'', ''agent.failed'', ''bootstrap.started'',
     ''bootstrap.finished'', ''generation.started'', ''generation.finished'', ''generation.failed'',
     ''registry.loaded'', ''registry.reloaded'', ''system.startup'', ''system.shutdown'',
     ''system.error'', ''system.health_check'', ''audit.recorded'', ''audit.write'',
     ''audit.write_rejected'', ''event.published'', ''event.replayed'', ''event.dead_letter'',
     ''integration.triggered'', ''integration.completed'', ''integration.failed'', ''pipeline.started'',
     ''pipeline.completed'', ''pipeline.failed'', ''pipeline.cancelled'', ''pipeline.recovered'',
     ''task.started'', ''task.completed'', ''task.failed'', ''task.skipped'']"

primrec priority_value :: "EventPriority \<Rightarrow> name" where
  "priority_value CRITICAL = ''critical''"
| "priority_value HIGH = ''high''"
| "priority_value NORMAL = ''normal''"
| "priority_value LOW = ''low''"
| "priority_value BACKGROUND = ''background''"

datatype EventStatus =
  EPENDING | EDELIVERING | EDELIVERED | EFAILED | ESKIPPED | ERETRYING | EDEAD_LETTER | EEXPIRED | EREPLAYED

record delivery_result =
  dr_event_id :: name
  dr_subscriber_name :: name
  dr_status :: EventStatus
  dr_error :: string

record subscriber =
  sb_ref :: nat
  sb_name :: name
  sb_event_types :: "name list"
  sb_is_active :: bool

datatype bus_error =
  UnknownDeliveryMode name | MissingSource | NotAnEventType name | NoReplayHandler | PublisherExists name

section \<open>Filters\<close>

datatype event_filter =
  TypeFilter "name list"
| PriorityFilter EventPriority
| SourceFilter "name list"
| TagFilter "name list"
| PayloadFilter "(name, json) dict"
| AndFilter "event_filter list"
| OrFilter "event_filter list"
| NotFilter event_filter

fun filter_matches :: "event_filter \<Rightarrow> event \<Rightarrow> bool" where
  "filter_matches (TypeFilter ts) e = (ev_type e \<in> set ts)"
| "filter_matches (PriorityFilter m) e = str_le (priority_value (ev_priority e)) (priority_value m)"
| "filter_matches (SourceFilter ss) e = (ev_source e \<in> set ss)"
| "filter_matches (TagFilter ts) e = list_all (\<lambda>t. t \<in> set (ev_tags e)) ts"
| "filter_matches (PayloadFilter cs) e =
     list_all (\<lambda>(k, v). case map_of (ev_payload e) k of None \<Rightarrow> False | Some w \<Rightarrow> py_eq w v) cs"
| "filter_matches (AndFilter fs) e = list_all (\<lambda>f. filter_matches f e) fs"
| "filter_matches (OrFilter fs) e = list_ex (\<lambda>f. filter_matches f e) fs"
| "filter_matches (NotFilter f) e = (\<not> filter_matches f e)"

definition chain_passes :: "event_filter list \<Rightarrow> event \<Rightarrow> bool" where
  "chain_passes fs e = (if fs = [] then True else list_all (\<lambda>f. filter_matches f e) fs)"

section \<open>Router\<close>

record route =
  rt_name :: name
  rt_subscriber :: subscriber
  rt_filters :: "event_filter list"
  rt_priority :: int

type_synonym router = "route list"

definition add_route :: "route \<Rightarrow> router \<Rightarrow> router" where
  "add_route r rs = sort_key rt_priority (rs @ [r])"

definition add_subscriber_route :: "name \<Rightarrow> subscriber \<Rightarrow> name list \<Rightarrow> int \<Rightarrow> router \<Rightarrow> router" where
  "add_subscriber_route n s types p rs =
     add_route \<lparr>rt_name = n, rt_subscriber = s,
                rt_filters = (if types \<noteq> [] then [TypeFilter types] else []), rt_priority = p\<rparr> rs"

fun remove_route :: "name \<Rightarrow> router \<Rightarrow> bool \<times> router" where
  "remove_route n [] = (False, [])"
| "remove_route n (r # rs) =
     (if rt_name r = n then (True, rs) else case remove_route n rs of (b, rs1) \<Rightarrow> (b, r # rs1))"

fun route_loop :: "event \<Rightarrow> router \<Rightarrow> subscriber list \<Rightarrow> subscriber list" where
  "route_loop e [] acc = acc"
| "route_loop e (r # rs) acc =
     (if sb_ref (rt_subscriber r) \<in> sb_ref ` set acc then route_loop e rs acc
      else if chain_passes (rt_filters r) e then route_loop e rs (acc @ [rt_subscriber r])
      else route_loop e rs acc)"

definition route_event :: "event \<Rightarrow> router \<Rightarrow> subscriber list" where
  "route_event e rs = route_loop e rs []"

definition has_route :: "name \<Rightarrow> router \<Rightarrow> bool" where
  "has_route n rs = list_ex (\<lambda>r. rt_name r = n) rs"

definition get_route :: "name \<Rightarrow> router \<Rightarrow> route option" where
  "get_route n rs = List.find (\<lambda>r. rt_name r = n) rs"

section \<open>Metrics\<close>

record event_metrics =
  em_published :: nat
  em_delivered :: nat
  em_failed :: nat
  em_by_type :: "(name, nat) dict"
  em_by_priority :: "(name, nat) dict"
  em_by_source :: "(name, nat) dict"
  em_by_subscriber :: "(name, nat) dict"
  em_errors :: "(string, nat) dict"
  em_subscriber_errors :: "(name, nat) dict"

definition reset_metrics :: event_metrics where
  "reset_metrics =
     \<lparr>em_published = 0, em_delivered = 0, em_failed = 0, em_by_type = [], em_by_priority = [],
      em_by_source = [], em_by_subscriber = [], em_errors = [], em_subscriber_errors = []\<rparr>"

definition metrics_record_publish :: "name \<Rightarrow> name \<Rightarrow> name \<Rightarrow> event_metrics \<Rightarrow> event_metrics" where
  "metrics_record_publish t p s m =
     m\<lparr>em_published := em_published m + 1, em_by_type := count_up t (em_by_type m),
       em_by_priority := count_up p (em_by_priority m), em_by_source := count_up s (em_by_source m)\<rparr>"

definition metrics_record_delivery :: "event_metrics \<Rightarrow> event_metrics" where
  "metrics_record_delivery m = m\<lparr>em_delivered := em_delivered m + 1\<rparr>"

definition metrics_record_failure :: "string \<Rightarrow> event_metrics \<Rightarrow> event_metrics" where
  "metrics_record_failure err m = m\<lparr>em_failed := em_failed m + 1, em_errors := count_up err (em_errors m)\<rparr>"

definition metrics_record_subscriber_delivery :: "name \<Rightarrow> event_metrics \<Rightarrow> event_metrics" where
  "metrics_record_subscriber_delivery s m = m\<lparr>em_by_subscriber := count_up s (em_by_subscriber m)\<rparr>"

definition metrics_record_subscriber_error :: "name \<Rightarrow> event_metrics \<Rightarrow> event_metrics" where
  "metrics_record_subscriber_error s m = m\<lparr>em_subscriber_errors := count_up s (em_subscriber_errors m)\<rparr>"

section \<open>Dispatcher\<close>

record dispatcher =
  di_metrics :: event_metrics
  di_processed_ids :: "name list"

definition new_dispatcher :: dispatcher where
  "new_dispatcher = \<lparr>di_metrics = reset_metrics, di_processed_ids = []\<rparr>"

definition DELIVERY_MODES :: "name list" where
  "DELIVERY_MODES = [''AT_MOST_ONCE'', ''AT_LEAST_ONCE'', ''EXACTLY_ONCE'']"

definition subscriber_matches :: "name \<Rightarrow> subscriber \<Rightarrow> bool" where
  "subscriber_matches t s \<longleftrightarrow> t \<in> set (sb_event_types s) \<or> sb_event_types s = []"

type_synonym handlers = "nat \<Rightarrow> event \<Rightarrow> string option"

definition subscriber_handle :: "handlers \<Rightarrow> subscriber \<Rightarrow> event \<Rightarrow> string option" where
  "subscriber_handle h s e = (if \<not> sb_is_active s then None else h (sb_ref s) e)"

definition deliver_to_subscriber ::
  "handlers \<Rightarrow> event \<Rightarrow> subscriber \<Rightarrow> name \<Rightarrow> dispatcher \<Rightarrow> delivery_result \<times> dispatcher"
where
  "deliver_to_subscriber h e s mode d =
     (let res = (\<lambda>st err. \<lparr>dr_event_id = ev_id e, dr_subscriber_name = sb_name s, dr_status = st, dr_error = err\<rparr>)
      in if mode = ''EXACTLY_ONCE'' \<and> ev_id e \<in> set (di_processed_ids d) then (res ESKIPPED [], d)
         else if \<not> subscriber_matches (ev_type e) s then (res ESKIPPED [], d)
         else case subscriber_handle h s e of
                None \<Rightarrow>
                  (res EDELIVERED [],
                   if mode = ''EXACTLY_ONCE'' then d\<lparr>di_processed_ids := List.insert (ev_id e) (di_processed_ids d)\<rparr> else d)
              | Some err \<Rightarrow> (res EFAILED err, d))"

definition or_unknown :: "string \<Rightarrow> string" where
  "or_unknown err = (if err \<noteq> [] then err else ''unknown'')"

definition record_metrics :: "delivery_result \<Rightarrow> event_metrics \<Rightarrow> event_metrics" where
  "record_metrics r m =
     (let m1 = metrics_record_subscriber_delivery (dr_subscriber_name r) m
      in if dr_status r = EDELIVERED then metrics_record_delivery m1
         else if dr_status r = EFAILED
         then metrics_record_subscriber_error (dr_subscriber_name r) (metrics_record_failure (or_unknown (dr_error r)) m1)
         else m1)"

primrec dispatch_loop ::
  "handlers \<Rightarrow> event \<Rightarrow> name \<Rightarrow> subscriber list \<Rightarrow> dispatcher \<Rightarrow> delivery_result list \<times> dispatcher"
where
  "dispatch_loop h e mode [] d = ([], d)"
| "dispatch_loop h e mode (s # ss) d =
     (case deliver_to_subscriber h e s mode d of
        (r, d1) \<Rightarrow>
          case dispatch_loop h e mode ss (d1\<lparr>di_metrics := record_metrics r (di_metrics d1)\<rparr>) of
            (rs, d2) \<Rightarrow> (r # rs, d2))"

definition dispatch ::
  "handlers \<Rightarrow> event \<Rightarrow> subscriber list \<Rightarrow> name \<Rightarrow> dispatcher \<Rightarrow> (bus_error + delivery_result list) \<times> dispatcher"
where
  "dispatch h e ss mode d =
     (if mode \<notin> set DELIVERY_MODES then (Inl (UnknownDeliveryMode mode), d)
      else case dispatch_loop h e mode ss d of (rs, d1) \<Rightarrow> (Inr rs, d1))"

section \<open>Dead letters\<close>

record dead_letter_record =
  dl_event :: event
  dl_subscriber_name :: name
  dl_error :: string
  dl_failed_at :: time
  dl_retry_count :: nat

record dead_letter_queue =
  dq_max_records :: nat
  dq_ttl_days :: int
  dq_records :: "dead_letter_record list"
  dq_file :: "dead_letter_record list"

definition new_dead_letter :: "nat \<Rightarrow> int \<Rightarrow> dead_letter_record list \<Rightarrow> dead_letter_queue" where
  "new_dead_letter n ttl file = \<lparr>dq_max_records = n, dq_ttl_days = ttl, dq_records = file, dq_file = file\<rparr>"

definition enforce_max :: "dead_letter_queue \<Rightarrow> dead_letter_queue" where
  "enforce_max q = q\<lparr>dq_records := last_n (dq_max_records q) (dq_records q)\<rparr>"

definition dead_letter_add :: "dead_letter_record \<Rightarrow> dead_letter_queue \<Rightarrow> dead_letter_queue" where
  "dead_letter_add r q = enforce_max (q\<lparr>dq_records := dq_records q @ [r], dq_file := dq_file q @ [r]\<rparr>)"

definition save_all :: "dead_letter_queue \<Rightarrow> dead_letter_queue" where
  "save_all q = q\<lparr>dq_file := dq_records q\<rparr>"

definition dead_letter_peek :: "int \<Rightarrow> dead_letter_queue \<Rightarrow> dead_letter_record list" where
  "dead_letter_peek n q = py_take n (dq_records q)"

definition dead_letter_pop :: "nat \<Rightarrow> dead_letter_queue \<Rightarrow> dead_letter_record list \<times> dead_letter_queue" where
  "dead_letter_pop n q = (take n (dq_records q), save_all (q\<lparr>dq_records := drop n (dq_records q)\<rparr>))"

fun remove_first :: "('a \<Rightarrow> bool) \<Rightarrow> 'a list \<Rightarrow> 'a list option" where
  "remove_first P [] = None"
| "remove_first P (x # xs) = (if P x then Some xs else map_option ((#) x) (remove_first P xs))"

definition dead_letter_remove :: "name \<Rightarrow> dead_letter_queue \<Rightarrow> bool \<times> dead_letter_queue" where
  "dead_letter_remove i q =
     (case remove_first (\<lambda>r. ev_id (dl_event r) = i) (dq_records q) of
        None \<Rightarrow> (False, q)
      | Some rs \<Rightarrow> (True, save_all (q\<lparr>dq_records := rs\<rparr>)))"

definition requeue_events :: "nat \<Rightarrow> dead_letter_queue \<Rightarrow> event list \<times> dead_letter_queue" where
  "requeue_events n q = (case dead_letter_pop n q of (rs, q1) \<Rightarrow> (map dl_event rs, q1))"

definition dead_letter_cleanup :: "time \<Rightarrow> dead_letter_queue \<Rightarrow> nat \<times> dead_letter_queue" where
  "dead_letter_cleanup now q =
     (let cutoff = now - dq_ttl_days q * 86400000000;
          kept = filter (\<lambda>r. dl_failed_at r > cutoff) (dq_records q);
          removed = length (dq_records q) - length kept;
          q1 = q\<lparr>dq_records := kept\<rparr>
      in (removed, if removed \<noteq> 0 then save_all q1 else q1))"

definition dead_letter_clear :: "dead_letter_queue \<Rightarrow> dead_letter_queue" where
  "dead_letter_clear q = q\<lparr>dq_records := [], dq_file := []\<rparr>"

section \<open>History\<close>

record history_entry =
  hy_event_id :: name
  hy_event_type :: name
  hy_source :: name
  hy_action :: name
  hy_subscriber :: "name option"
  hy_error :: string

record event_history =
  hi_max_entries :: nat
  hi_entries :: "history_entry list"

definition history_append :: "history_entry \<Rightarrow> event_history \<Rightarrow> event_history" where
  "history_append x h = h\<lparr>hi_entries := last_n (hi_max_entries h) (hi_entries h @ [x])\<rparr>"

definition event_entry :: "event \<Rightarrow> name \<Rightarrow> name option \<Rightarrow> string \<Rightarrow> history_entry" where
  "event_entry e action sub err =
     \<lparr>hy_event_id = ev_id e, hy_event_type = ev_type e, hy_source = ev_source e, hy_action = action,
      hy_subscriber = sub, hy_error = err\<rparr>"

definition history_record_publish :: "event \<Rightarrow> event_history \<Rightarrow> event_history" where
  "history_record_publish e = history_append (event_entry e ''published'' None [])"

definition history_record_delivery :: "event \<Rightarrow> delivery_result \<Rightarrow> event_history \<Rightarrow> event_history" where
  "history_record_delivery e r =
     history_append (event_entry e (if dr_status r = EDELIVERED then ''delivered'' else ''failed'')
       (Some (dr_subscriber_name r)) (dr_error r))"

definition history_record_dead_letter :: "event \<Rightarrow> name \<Rightarrow> string \<Rightarrow> event_history \<Rightarrow> event_history" where
  "history_record_dead_letter e s err = history_append (event_entry e ''dead_lettered'' (Some s) err)"

definition get_history :: "nat \<Rightarrow> name option \<Rightarrow> name option \<Rightarrow> name option \<Rightarrow> event_history \<Rightarrow> history_entry list" where
  "get_history limit t action source h =
     (let keep = (\<lambda>want got. case want of None \<Rightarrow> True | Some w \<Rightarrow> w = [] \<or> got = w);
          es = filter (\<lambda>x. keep source (hy_source x)) (filter (\<lambda>x. keep action (hy_action x))
                 (filter (\<lambda>x. keep t (hy_event_type x)) (hi_entries h)))
      in if limit = 0 then es else last_n limit es)"

section \<open>Persistence\<close>

record event_query =
  eq_since :: "time option"
  eq_until :: "time option"
  eq_event_types :: "name list"
  eq_source :: "name option"

definition event_selected :: "event_query \<Rightarrow> event \<Rightarrow> bool" where
  "event_selected q e \<longleftrightarrow>
     (case eq_since q of None \<Rightarrow> True | Some t \<Rightarrow> \<not> ev_timestamp e < t) \<and>
     (case eq_until q of None \<Rightarrow> True | Some t \<Rightarrow> \<not> ev_timestamp e > t) \<and>
     (eq_event_types q = [] \<or> ev_type e \<in> set (eq_event_types q)) \<and>
     (case eq_source q of None \<Rightarrow> True | Some s \<Rightarrow> s = [] \<or> ev_source e = s)"

fun load_loop :: "event_query \<Rightarrow> nat \<Rightarrow> event list \<Rightarrow> event list \<Rightarrow> event list" where
  "load_loop q limit [] acc = acc"
| "load_loop q limit (e # es) acc =
     (if \<not> event_selected q e then load_loop q limit es acc
      else if length (acc @ [e]) \<ge> limit then acc @ [e]
      else load_loop q limit es (acc @ [e]))"

definition load_events :: "event_query \<Rightarrow> nat \<Rightarrow> event list \<Rightarrow> event list" where
  "load_events q limit file = load_loop q limit file []"

section \<open>Bus\<close>

record event_bus =
  bus_running :: bool
  bus_middleware :: bool
  bus_router :: router
  bus_dispatcher :: dispatcher
  bus_metrics :: event_metrics
  bus_history :: event_history
  bus_persistence :: "event list option"
  bus_dead_letter :: dead_letter_queue
  bus_queue :: priority_processor
  bus_publishers :: "(name, EventPriority) dict"
  bus_cancel_flags :: "name list"

definition new_event_bus :: "nat \<Rightarrow> bool \<Rightarrow> bool \<Rightarrow> event_bus" where
  "new_event_bus max_history persistence middleware =
     \<lparr>bus_running = False, bus_middleware = middleware, bus_router = [], bus_dispatcher = new_dispatcher,
      bus_metrics = reset_metrics, bus_history = \<lparr>hi_max_entries = max_history, hi_entries = []\<rparr>,
      bus_persistence = (if persistence then Some [] else None),
      bus_dead_letter = new_dead_letter 10000 30 [], bus_queue = new_priority_processor,
      bus_publishers = [], bus_cancel_flags = []\<rparr>"

definition bus_start :: "event_bus \<Rightarrow> event_bus" where
  "bus_start b = b\<lparr>bus_running := True\<rparr>"

definition create_publisher :: "name \<Rightarrow> EventPriority \<Rightarrow> event_bus \<Rightarrow> (bus_error + event_bus)" where
  "create_publisher src p b =
     (if src \<in> set (keys (bus_publishers b)) then Inl (PublisherExists src)
      else Inr (b\<lparr>bus_publishers := AList.update src p (bus_publishers b)\<rparr>))"

definition subscribe :: "subscriber \<Rightarrow> bool \<Rightarrow> event_bus \<Rightarrow> event_bus" where
  "subscribe s auto_route b =
     (if auto_route
      then b\<lparr>bus_router := add_subscriber_route (''route:'' @ sb_name s) s (sb_event_types s) 100 (bus_router b)\<rparr>
      else b)"

definition unsubscribe :: "name \<Rightarrow> event_bus \<Rightarrow> bool \<times> event_bus" where
  "unsubscribe n b = (case remove_route (''route:'' @ n) (bus_router b) of (r, rs) \<Rightarrow> (r, b\<lparr>bus_router := rs\<rparr>))"

definition record_result :: "time \<Rightarrow> event \<Rightarrow> delivery_result \<Rightarrow> event_bus \<Rightarrow> event_bus" where
  "record_result now e r b =
     (if dr_status r = EFAILED
      then b\<lparr>bus_dead_letter := dead_letter_add
               \<lparr>dl_event = e, dl_subscriber_name = dr_subscriber_name r,
                dl_error = (if dr_error r \<noteq> [] then dr_error r else ''unknown error''),
                dl_failed_at = now, dl_retry_count = 3\<rparr> (bus_dead_letter b),
             bus_history := history_record_dead_letter e (dr_subscriber_name r) (or_unknown (dr_error r)) (bus_history b)\<rparr>
      else b\<lparr>bus_history := history_record_delivery e r (bus_history b)\<rparr>)"

definition deliver_event ::
  "handlers \<Rightarrow> time \<Rightarrow> event \<Rightarrow> name \<Rightarrow> event_bus \<Rightarrow> (bus_error + delivery_result list) \<times> event_bus"
where
  "deliver_event h now e mode b =
     (case route_event e (bus_router b) of
        [] \<Rightarrow> (Inr [], b)
      | subs \<Rightarrow>
          case dispatch h e subs mode (bus_dispatcher b) of
            (Inl err, d) \<Rightarrow> (Inl err, b\<lparr>bus_dispatcher := d\<rparr>)
          | (Inr rs, d) \<Rightarrow> (Inr rs, fold (record_result now e) rs (b\<lparr>bus_dispatcher := d\<rparr>)))"

definition execute_middleware ::
  "handlers \<Rightarrow> time \<Rightarrow> event \<Rightarrow> name \<Rightarrow> event_bus \<Rightarrow> (bus_error + delivery_result list) \<times> event_bus"
where
  "execute_middleware h now e mode b =
     (if bus_middleware b \<and> ev_source e = [] then (Inl MissingSource, b) else deliver_event h now e mode b)"

definition publish ::
  "handlers \<Rightarrow> time \<Rightarrow> event \<Rightarrow> name \<Rightarrow> event_bus \<Rightarrow> (bus_error + delivery_result list) \<times> event_bus"
where
  "publish h now e mode b =
     (case execute_middleware h now e mode b of
        (Inl err, b1) \<Rightarrow> (Inl err, b1)
      | (Inr rs, b1) \<Rightarrow>
          (Inr rs, b1\<lparr>bus_persistence := map_option (\<lambda>f. f @ [e]) (bus_persistence b1),
                      bus_metrics := metrics_record_publish (ev_type e) (priority_value (ev_priority e)) (ev_source e) (bus_metrics b1),
                      bus_history := history_record_publish e (bus_history b1)\<rparr>))"

definition publish_event ::
  "handlers \<Rightarrow> time \<Rightarrow> name \<Rightarrow> name \<Rightarrow> (name, json) dict \<Rightarrow> name \<Rightarrow> EventPriority option \<Rightarrow> name option \<Rightarrow> name \<Rightarrow>
   event_bus \<Rightarrow> (bus_error + delivery_result list) \<times> event_bus"
where
  "publish_event h now new_id t payload src priority corr mode b =
     (let b1 = (case create_publisher src NORMAL b of Inl _ \<Rightarrow> b | Inr b1 \<Rightarrow> b1);
          p = (case priority of None \<Rightarrow> dget NORMAL (bus_publishers b1) src | Some q \<Rightarrow> q)
      in publish h now
           \<lparr>ev_id = new_id, ev_timestamp = now, ev_type = t, ev_source = src, ev_correlation_id = corr,
            ev_priority = p, ev_tags = [], ev_payload = payload\<rparr> mode b1)"

text \<open>The call \<^verbatim>\<open>EventType(value)\<close>.\<close>

definition event_type_of :: "name \<Rightarrow> bus_error + name" where
  "event_type_of v = (if v \<in> set event_type_values then Inr v else Inl (NotAnEventType v))"

definition bus_request :: "handlers \<Rightarrow> time \<Rightarrow> event \<Rightarrow> nat \<Rightarrow> event_bus \<Rightarrow> (bus_error + event option) \<times> event_bus" where
  "bus_request h now e new_ref b =
     (case event_type_of (ev_type e @ ''_REPLY'') of
        Inl err \<Rightarrow> (Inl err, b)
      | Inr reply_type \<Rightarrow>
          (let sub_name = ''reqrep:'' @ ev_id e;
               b1 = subscribe \<lparr>sb_ref = new_ref, sb_name = sub_name, sb_event_types = [reply_type], sb_is_active = True\<rparr> True b
           in case publish h now e ''AT_LEAST_ONCE'' b1 of
                (Inl err, b2) \<Rightarrow> (Inl err, snd (unsubscribe sub_name b2))
              | (Inr _, b2) \<Rightarrow> (Inr None, snd (unsubscribe sub_name b2))))"

primrec publish_all ::
  "handlers \<Rightarrow> time \<Rightarrow> event list \<Rightarrow> event_bus \<Rightarrow> (bus_error + delivery_result list) \<times> event_bus"
where
  "publish_all h now [] b = (Inr [], b)"
| "publish_all h now (e # es) b =
     (case publish h now e ''AT_LEAST_ONCE'' b of
        (Inl err, b1) \<Rightarrow> (Inl err, b1)
      | (Inr rs, b1) \<Rightarrow>
          (case publish_all h now es b1 of
             (Inl err, b2) \<Rightarrow> (Inl err, b2)
           | (Inr rs2, b2) \<Rightarrow> (Inr (rs @ rs2), b2)))"

definition requeue_dead_letter ::
  "handlers \<Rightarrow> time \<Rightarrow> nat \<Rightarrow> event_bus \<Rightarrow> (bus_error + delivery_result list) \<times> event_bus"
where
  "requeue_dead_letter h now n b =
     (case requeue_events n (bus_dead_letter b) of
        (es, q) \<Rightarrow> publish_all h now es (b\<lparr>bus_dead_letter := q\<rparr>))"

primrec flush_queue :: "nat \<Rightarrow> handlers \<Rightarrow> time \<Rightarrow> event_bus \<Rightarrow> event_bus" where
  "flush_queue 0 h now b = b"
| "flush_queue (Suc n) h now b =
     (if pp_queue (bus_queue b) = [] then b
      else case dequeue (bus_queue b) of
             (None, q) \<Rightarrow> flush_queue n h now (b\<lparr>bus_queue := q\<rparr>)
           | (Some e, q) \<Rightarrow> flush_queue n h now (snd (publish h now e ''AT_LEAST_ONCE'' (b\<lparr>bus_queue := q\<rparr>))))"

definition bus_stop :: "handlers \<Rightarrow> time \<Rightarrow> event_bus \<Rightarrow> event_bus" where
  "bus_stop h now b =
     (let b1 = b\<lparr>bus_running := False\<rparr> in flush_queue (queue_size (bus_queue b1)) h now b1)"

section \<open>Replay\<close>

datatype replay_state = RPending | RRunning | RCompleted | RFailed | RCancelled

record replay_session =
  rs_state :: replay_state
  rs_total_events :: nat
  rs_processed :: nat
  rs_succeeded :: nat
  rs_failed :: nat

text \<open>
  A replay handler takes the bus and says whether it raised.  \<^verbatim>\<open>cancelled i\<close> says that the
  session was cancelled before its event number \<^verbatim>\<open>i\<close> was processed.
\<close>

type_synonym replay_handler = "event \<Rightarrow> event_bus \<Rightarrow> bool \<times> event_bus"

primrec replay_loop ::
  "replay_handler \<Rightarrow> (nat \<Rightarrow> bool) \<Rightarrow> event list \<Rightarrow> nat \<Rightarrow> replay_session \<Rightarrow> event_bus \<Rightarrow> replay_session \<times> event_bus"
where
  "replay_loop rh cancelled [] i se b = (se, b)"
| "replay_loop rh cancelled (e # es) i se b =
     (if cancelled i then (se\<lparr>rs_state := RCancelled\<rparr>, b)
      else case rh e b of
             (raised, b1) \<Rightarrow>
               replay_loop rh cancelled es (i + 1)
                 ((if raised then se\<lparr>rs_failed := rs_failed se + 1\<rparr> else se\<lparr>rs_succeeded := rs_succeeded se + 1\<rparr>)
                    \<lparr>rs_processed := rs_processed se + 1\<rparr>) b1)"

definition publish_as_replay_handler :: "handlers \<Rightarrow> time \<Rightarrow> replay_handler" where
  "publish_as_replay_handler h now e b =
     (case publish h now e ''AT_LEAST_ONCE'' b of (r, b1) \<Rightarrow> (\<not> is_ok r, b1))"

definition replay ::
  "replay_handler \<Rightarrow> (nat \<Rightarrow> bool) \<Rightarrow> event_query \<Rightarrow> nat option \<Rightarrow> event_bus \<Rightarrow> replay_session \<times> event_bus"
where
  "replay rh cancelled q limit b =
     (let se = \<lparr>rs_state = RRunning, rs_total_events = 0, rs_processed = 0, rs_succeeded = 0, rs_failed = 0\<rparr>
      in case bus_persistence b of
           None \<Rightarrow> (se\<lparr>rs_state := RFailed\<rparr>, b)
         | Some file \<Rightarrow>
             (let n = (case limit of None \<Rightarrow> 10000 | Some m \<Rightarrow> if m = 0 then 10000 else m);
                  es = load_events q n file
              in case replay_loop rh cancelled es 0 (se\<lparr>rs_total_events := length es\<rparr>) b of
                   (se1, b1) \<Rightarrow> (se1\<lparr>rs_state := RCompleted\<rparr>, b1)))"

section \<open>Routing\<close>

lemma route_loop_distinct: "distinct (map sb_ref acc) \<Longrightarrow> distinct (map sb_ref (route_loop e rs acc))"
  by (induction e rs acc rule: route_loop.induct) auto

lemma route_loop_set:
  "sb_ref ` set (route_loop e rs acc) =
     sb_ref ` set acc \<union> {sb_ref (rt_subscriber r) | r. r \<in> set rs \<and> chain_passes (rt_filters r) e}"
proof (induction e rs acc rule: route_loop.induct)
  case (2 e r rs acc)
  let ?new = "\<lambda>rs. {sb_ref (rt_subscriber r) | r. r \<in> set rs \<and> chain_passes (rt_filters r) e}"
  have "?new (r # rs) = (if chain_passes (rt_filters r) e then insert (sb_ref (rt_subscriber r)) (?new rs) else ?new rs)"
    by auto
  then show ?case using 2 by (cases "sb_ref (rt_subscriber r) \<in> sb_ref ` set acc") auto
qed simp

lemma route_event_props:
  "distinct (map sb_ref (route_event e rs))"
  "sb_ref ` set (route_event e rs) = {sb_ref (rt_subscriber r) | r. r \<in> set rs \<and> chain_passes (rt_filters r) e}"
  using route_loop_distinct[of "[]" e rs] by (simp_all add: route_event_def route_loop_set)

text \<open>The first of the elements with each key, in their order.\<close>

function first_by :: "('a \<Rightarrow> 'k) \<Rightarrow> 'a list \<Rightarrow> 'a list" where
  "first_by f [] = []"
| "first_by f (x # xs) = x # first_by f (filter (\<lambda>y. f y \<noteq> f x) xs)"
  by pat_completeness auto

termination
  by (relation "measure (length \<circ> snd)") (simp_all add: less_Suc_eq_le)

lemma route_loop_first:
  "route_loop e rs acc = acc @ first_by sb_ref (filter (\<lambda>s. sb_ref s \<notin> sb_ref ` set acc)
     (map rt_subscriber (filter (\<lambda>r. chain_passes (rt_filters r) e) rs)))"
proof (induction e rs acc rule: route_loop.induct)
  case (2 e r rs acc)
  have eq: "filter (\<lambda>y. sb_ref y \<notin> sb_ref ` set acc \<and> sb_ref y \<noteq> sb_ref (rt_subscriber r)) xs =
      filter (\<lambda>y. sb_ref y \<noteq> sb_ref (rt_subscriber r) \<and> sb_ref y \<notin> sb_ref ` set acc) xs" for xs
    by (rule filter_cong) auto
  show ?case using 2 by (simp add: eq)
qed simp

lemma route_event_first:
  "route_event e rs = first_by sb_ref (map rt_subscriber (filter (\<lambda>r. chain_passes (rt_filters r) e) rs))"
  using route_loop_first[of e rs "[]"] by (simp add: route_event_def)

section \<open>Dispatch\<close>

text \<open>What a delivery comes to: \<^verbatim>\<open>taken\<close> says that an exactly-once delivery of the event was made before.\<close>

definition delivery_of :: "handlers \<Rightarrow> event \<Rightarrow> bool \<Rightarrow> subscriber \<Rightarrow> delivery_result" where
  "delivery_of h e taken s =
     \<lparr>dr_event_id = ev_id e, dr_subscriber_name = sb_name s,
      dr_status = (if taken \<or> \<not> subscriber_matches (ev_type e) s then ESKIPPED
                   else if sb_is_active s \<and> h (sb_ref s) e \<noteq> None then EFAILED else EDELIVERED),
      dr_error = (if taken \<or> \<not> subscriber_matches (ev_type e) s \<or> \<not> sb_is_active s then []
                  else case h (sb_ref s) e of None \<Rightarrow> [] | Some err \<Rightarrow> err)\<rparr>"

lemma deliver_to_subscriber_result:
  "deliver_to_subscriber h e s mode d = (r, d1) \<Longrightarrow>
     r = delivery_of h e (mode = ''EXACTLY_ONCE'' \<and> ev_id e \<in> set (di_processed_ids d)) s \<and>
     (mode = ''EXACTLY_ONCE'' \<longrightarrow>
       (ev_id e \<in> set (di_processed_ids d1) \<longleftrightarrow> ev_id e \<in> set (di_processed_ids d) \<or> dr_status r = EDELIVERED))"
  by (auto simp: deliver_to_subscriber_def delivery_of_def subscriber_handle_def Let_def split: if_splits option.splits)

lemma dispatch_loop_results:
  "dispatch_loop h e mode ss d = (rs, d1) \<Longrightarrow> length rs = length ss \<and>
     (\<forall>i < length ss. rs ! i = delivery_of h e (mode = ''EXACTLY_ONCE'' \<and>
        (ev_id e \<in> set (di_processed_ids d) \<or> (\<exists>j < i. dr_status (rs ! j) = EDELIVERED))) (ss ! i))"
proof (induction ss arbitrary: d rs d1)
  case (Cons s ss)
  obtain r d2 where r: "deliver_to_subscriber h e s mode d = (r, d2)" by (metis surj_pair)
  obtain rs1 d3 where l: "dispatch_loop h e mode ss (d2\<lparr>di_metrics := record_metrics r (di_metrics d2)\<rparr>) = (rs1, d3)"
    by (metis surj_pair)
  have rs: "rs = r # rs1" using Cons.prems r l by simp
  note IH = Cons.IH[OF l]
  have "rs ! i = delivery_of h e (mode = ''EXACTLY_ONCE'' \<and>
        (ev_id e \<in> set (di_processed_ids d) \<or> (\<exists>j < i. dr_status (rs ! j) = EDELIVERED))) ((s # ss) ! i)"
    if "i < length (s # ss)" for i
  proof (cases i)
    case 0
    then show ?thesis using deliver_to_subscriber_result[OF r] by (simp add: rs)
  next
    case (Suc k)
    have "(\<exists>j < Suc k. dr_status (rs ! j) = EDELIVERED) \<longleftrightarrow> dr_status r = EDELIVERED \<or> (\<exists>j < k. dr_status (rs1 ! j) = EDELIVERED)"
      by (auto simp: rs less_Suc_eq_0_disj)
    moreover have "k < length ss" using that Suc by simp
    ultimately show ?thesis
      using IH deliver_to_subscriber_result[OF r] Suc by (cases "mode = ''EXACTLY_ONCE''") (auto simp: rs)
  qed
  then show ?case using IH by (simp add: rs)
qed simp

lemma deliver_processed:
  assumes "deliver_to_subscriber h e s ''EXACTLY_ONCE'' d = (r, d1)"
  shows "dr_event_id r = ev_id e" "set (di_processed_ids d) \<subseteq> set (di_processed_ids d1)"
    "dr_status r = EDELIVERED \<Longrightarrow> ev_id e \<notin> set (di_processed_ids d) \<and> ev_id e \<in> set (di_processed_ids d1)"
  using assms by (auto simp: deliver_to_subscriber_def Let_def split: if_splits option.splits)

abbreviation delivered :: "name \<Rightarrow> delivery_result list \<Rightarrow> delivery_result list" where
  "delivered i rs \<equiv> filter (\<lambda>r. dr_event_id r = i \<and> dr_status r = EDELIVERED) rs"

text \<open>Over exactly-once deliveries an event id is delivered at most once, and then it is processed.\<close>

definition once_step :: "name \<Rightarrow> dispatcher \<Rightarrow> delivery_result list \<Rightarrow> dispatcher \<Rightarrow> bool" where
  "once_step i d rs d1 \<longleftrightarrow>
     set (di_processed_ids d) \<subseteq> set (di_processed_ids d1) \<and>
     length (delivered i rs) + (if i \<in> set (di_processed_ids d) then 1 else 0) \<le>
       (if i \<in> set (di_processed_ids d1) then 1 else 0)"

lemma once_step_append: "once_step i d rs d1 \<Longrightarrow> once_step i d1 rs1 d2 \<Longrightarrow> once_step i d (rs @ rs1) d2"
  unfolding once_step_def by (auto split: if_splits)

lemma once_step_deliver:
  assumes "deliver_to_subscriber h e s ''EXACTLY_ONCE'' d = (r, d1)"
  shows "once_step i d [r] (d1\<lparr>di_metrics := m\<rparr>)"
  using deliver_processed[OF assms] by (auto simp: once_step_def)

lemma once_step_loop:
  "dispatch_loop h e ''EXACTLY_ONCE'' ss d = (rs, d1) \<Longrightarrow> once_step i d rs d1"
proof (induction ss arbitrary: d rs d1)
  case Nil
  then show ?case by (simp add: once_step_def)
next
  case (Cons s ss)
  obtain r d2 where r: "deliver_to_subscriber h e s ''EXACTLY_ONCE'' d = (r, d2)" by (metis surj_pair)
  obtain rs1 d3 where l: "dispatch_loop h e ''EXACTLY_ONCE'' ss (d2\<lparr>di_metrics := record_metrics r (di_metrics d2)\<rparr>) = (rs1, d3)"
    by (metis surj_pair)
  have "rs = [r] @ rs1" "d1 = d3" using Cons.prems r l by simp_all
  then show ?case using once_step_append[OF once_step_deliver[OF r] Cons.IH[OF l]] by simp
qed

primrec exactly_once_run ::
  "handlers \<Rightarrow> (event \<times> subscriber list) list \<Rightarrow> dispatcher \<Rightarrow> delivery_result list \<times> dispatcher"
where
  "exactly_once_run h [] d = ([], d)"
| "exactly_once_run h (p # ps) d =
     (case dispatch h (fst p) (snd p) ''EXACTLY_ONCE'' d of
        (r, d1) \<Rightarrow> case exactly_once_run h ps d1 of
          (rs, d2) \<Rightarrow> ((case r of Inl _ \<Rightarrow> [] | Inr r1 \<Rightarrow> r1) @ rs, d2))"

lemma once_step_run: "exactly_once_run h ps d = (rs, d1) \<Longrightarrow> once_step i d rs d1"
proof (induction ps arbitrary: d rs d1)
  case Nil
  then show ?case by (simp add: once_step_def)
next
  case (Cons p ps)
  obtain r1 d2 where r: "dispatch_loop h (fst p) ''EXACTLY_ONCE'' (snd p) d = (r1, d2)" by (metis surj_pair)
  then have d: "dispatch h (fst p) (snd p) ''EXACTLY_ONCE'' d = (Inr r1, d2)"
    by (simp add: dispatch_def DELIVERY_MODES_def)
  obtain rs1 d3 where l: "exactly_once_run h ps d2 = (rs1, d3)" by (metis surj_pair)
  have "rs = r1 @ rs1" "d1 = d3" using Cons.prems d l by simp_all
  then show ?case using once_step_append[OF once_step_loop[OF r] Cons.IH[OF l]] by simp
qed

section \<open>Publishing\<close>

lemma record_result_frame [frame_simps]:
  "bus_metrics (record_result now e r b) = bus_metrics b"
  "bus_persistence (record_result now e r b) = bus_persistence b"
  "bus_router (record_result now e r b) = bus_router b"
  "bus_middleware (record_result now e r b) = bus_middleware b"
  "dq_file (bus_dead_letter (record_result now e r b)) = dq_file (bus_dead_letter b) @
     (if dr_status r = EFAILED
      then [\<lparr>dl_event = e, dl_subscriber_name = dr_subscriber_name r,
             dl_error = (if dr_error r \<noteq> [] then dr_error r else ''unknown error''),
             dl_failed_at = now, dl_retry_count = 3\<rparr>] else [])"
  by (simp_all add: record_result_def dead_letter_add_def enforce_max_def)

definition dead_letters_of :: "time \<Rightarrow> event \<Rightarrow> delivery_result list \<Rightarrow> dead_letter_record list" where
  "dead_letters_of now e rs =
     map (\<lambda>r. \<lparr>dl_event = e, dl_subscriber_name = dr_subscriber_name r,
                dl_error = (if dr_error r \<noteq> [] then dr_error r else ''unknown error''),
                dl_failed_at = now, dl_retry_count = 3\<rparr>) (filter (\<lambda>r. dr_status r = EFAILED) rs)"

lemma record_results_frame:
  "bus_metrics (fold (record_result now e) rs b) = bus_metrics b \<and>
   bus_persistence (fold (record_result now e) rs b) = bus_persistence b \<and>
   bus_router (fold (record_result now e) rs b) = bus_router b \<and>
   bus_middleware (fold (record_result now e) rs b) = bus_middleware b \<and>
   dq_file (bus_dead_letter (fold (record_result now e) rs b)) =
     dq_file (bus_dead_letter b) @ dead_letters_of now e rs"
  by (induction rs arbitrary: b) (simp_all add: frame_simps dead_letters_of_def)

lemma deliver_event_effect:
  assumes "deliver_event h now e mode b = (Inr rs, b1)"
  shows "length rs = length (route_event e (bus_router b))"
    "i < length rs \<Longrightarrow> rs ! i = delivery_of h e (mode = ''EXACTLY_ONCE'' \<and>
      (ev_id e \<in> set (di_processed_ids (bus_dispatcher b)) \<or> (\<exists>j < i. dr_status (rs ! j) = EDELIVERED)))
      (route_event e (bus_router b) ! i)"
    "bus_metrics b1 = bus_metrics b" "bus_persistence b1 = bus_persistence b" "bus_middleware b1 = bus_middleware b"
    "dq_file (bus_dead_letter b1) = dq_file (bus_dead_letter b) @ dead_letters_of now e rs"
proof -
  have "length rs = length (route_event e (bus_router b)) \<and>
    (\<forall>i < length rs. rs ! i = delivery_of h e (mode = ''EXACTLY_ONCE'' \<and>
      (ev_id e \<in> set (di_processed_ids (bus_dispatcher b)) \<or> (\<exists>j < i. dr_status (rs ! j) = EDELIVERED)))
      (route_event e (bus_router b) ! i)) \<and>
    bus_metrics b1 = bus_metrics b \<and> bus_persistence b1 = bus_persistence b \<and> bus_middleware b1 = bus_middleware b \<and>
    dq_file (bus_dead_letter b1) = dq_file (bus_dead_letter b) @ dead_letters_of now e rs"
  proof (cases "route_event e (bus_router b)")
    case Nil
    then show ?thesis using assms by (simp add: deliver_event_def dead_letters_of_def)
  next
    case (Cons s ss)
    obtain q d where d: "dispatch h e (s # ss) mode (bus_dispatcher b) = (q, d)" by (metis surj_pair)
    with assms Cons have q: "q = Inr rs" "b1 = fold (record_result now e) rs (b\<lparr>bus_dispatcher := d\<rparr>)"
      by (auto simp: deliver_event_def split: sum.splits)
    then have "dispatch_loop h e mode (s # ss) (bus_dispatcher b) = (rs, d)"
      using d by (auto simp: dispatch_def split: if_splits prod.splits)
    from dispatch_loop_results[OF this] show ?thesis
      using record_results_frame[of now e rs "b\<lparr>bus_dispatcher := d\<rparr>"] Cons by (simp add: q(2))
  qed
  then show "length rs = length (route_event e (bus_router b))"
    "i < length rs \<Longrightarrow> rs ! i = delivery_of h e (mode = ''EXACTLY_ONCE'' \<and>
      (ev_id e \<in> set (di_processed_ids (bus_dispatcher b)) \<or> (\<exists>j < i. dr_status (rs ! j) = EDELIVERED)))
      (route_event e (bus_router b) ! i)"
    "bus_metrics b1 = bus_metrics b" "bus_persistence b1 = bus_persistence b" "bus_middleware b1 = bus_middleware b"
    "dq_file (bus_dead_letter b1) = dq_file (bus_dead_letter b) @ dead_letters_of now e rs" by blast+
qed

lemma publish_result:
  assumes "publish h now e mode b = (Inr rs, b1)"
  obtains b0 where "deliver_event h now e mode b = (Inr rs, b0)" "\<not> (bus_middleware b \<and> ev_source e = [])"
    "b1 = b0\<lparr>bus_persistence := map_option (\<lambda>f. f @ [e]) (bus_persistence b0),
             bus_metrics := metrics_record_publish (ev_type e) (priority_value (ev_priority e)) (ev_source e) (bus_metrics b0),
             bus_history := history_record_publish e (bus_history b0)\<rparr>"
  using assms by (auto simp: publish_def execute_middleware_def split: if_splits sum.splits prod.splits)

lemma publish_succeeds:
  assumes "mode \<in> set DELIVERY_MODES" "ev_source e \<noteq> []"
  shows "\<exists>rs b1. publish h now e mode b = (Inr rs, b1)"
proof -
  have "\<exists>rs b1. deliver_event h now e mode b = (Inr rs, b1)"
    using assms(1)
    by (auto simp: deliver_event_def dispatch_def split: list.split prod.split sum.split)
  then show ?thesis using assms(2) by (auto simp: publish_def execute_middleware_def)
qed

lemma publish_store:
  assumes "publish h now e mode b = (Inr rs, b1)"
  shows "bus_persistence b1 = map_option (\<lambda>f. f @ [e]) (bus_persistence b)" "bus_middleware b1 = bus_middleware b"
proof -
  obtain b0 where b0: "deliver_event h now e mode b = (Inr rs, b0)"
    "b1 = b0\<lparr>bus_persistence := map_option (\<lambda>f. f @ [e]) (bus_persistence b0),
             bus_metrics := metrics_record_publish (ev_type e) (priority_value (ev_priority e)) (ev_source e) (bus_metrics b0),
             bus_history := history_record_publish e (bus_history b0)\<rparr>"
    by (rule publish_result[OF assms])
  show "bus_persistence b1 = map_option (\<lambda>f. f @ [e]) (bus_persistence b)" "bus_middleware b1 = bus_middleware b"
    using deliver_event_effect(4,5)[OF b0(1)] by (simp_all add: b0(2))
qed

lemma replay_loop_publishes:
  assumes "\<forall>e \<in> set es. ev_source e \<noteq> []"
  shows "bus_persistence (snd (replay_loop (publish_as_replay_handler h now) (\<lambda>_. False) es i se b)) =
      map_option (\<lambda>f. f @ es) (bus_persistence b) \<and>
    rs_succeeded (fst (replay_loop (publish_as_replay_handler h now) (\<lambda>_. False) es i se b)) =
      rs_succeeded se + length es"
  using assms
proof (induction es arbitrary: i se b)
  case (Cons e es)
  obtain rs b1 where p: "publish h now e ''AT_LEAST_ONCE'' b = (Inr rs, b1)"
    using publish_succeeds[of "''AT_LEAST_ONCE''" e h now b] Cons.prems by (auto simp: DELIVERY_MODES_def)
  have "map_option (\<lambda>f. f @ es) (bus_persistence b1) = map_option (\<lambda>f. f @ e # es) (bus_persistence b)"
    by (simp add: publish_store(1)[OF p] option.map_comp comp_def)
  then show ?case using Cons.IH[of "i + 1" _ b1] Cons.prems
    by (simp add: publish_as_replay_handler_def p)
qed (simp add: option.map_ident)

lemma load_loop_subset: "set (load_loop q n es acc) \<subseteq> set acc \<union> set es"
  by (induction q n es acc rule: load_loop.induct) auto

section \<open>Properties\<close>

definition demo_event :: "name \<Rightarrow> event" where
  "demo_event i =
     \<lparr>ev_id = i, ev_timestamp = 0, ev_type = ''task.started'', ev_source = ''engine'', ev_correlation_id = None,
      ev_priority = NORMAL, ev_tags = [], ev_payload = []\<rparr>"

definition demo_subscriber :: "nat \<Rightarrow> name \<Rightarrow> subscriber" where
  "demo_subscriber r n = \<lparr>sb_ref = r, sb_name = n, sb_event_types = [], sb_is_active = True\<rparr>"

text \<open>C18: exactly-once delivery is once per event, not once per subscriber: over any sequence of
  exactly-once dispatches at most one delivery of an event succeeds, and when the first
  subscriber of a dispatch takes the event every other subscriber is skipped.\<close>

theorem exactly_once_single_delivery:
  "length (delivered i (fst (exactly_once_run h ps new_dispatcher))) \<le> 1 \<and>
   (subscriber_matches (ev_type e) s \<and> subscriber_handle h s e = None \<and> ev_id e \<notin> set (di_processed_ids d) \<longrightarrow>
      (\<exists>r rs d1. dispatch h e (s # ss) ''EXACTLY_ONCE'' d = (Inr (r # rs), d1) \<and> dr_status r = EDELIVERED \<and>
        length rs = length ss \<and> (\<forall>r \<in> set rs. dr_status r = ESKIPPED)))"
proof (rule conjI, goal_cases)
  case 1
  obtain rs d where "exactly_once_run h ps new_dispatcher = (rs, d)" by (metis surj_pair)
  with once_step_run[OF this, of i] show ?case by (simp add: once_step_def new_dispatcher_def split: if_splits)
next
  case 2
  show ?case
  proof
  assume s: "subscriber_matches (ev_type e) s \<and> subscriber_handle h s e = None \<and> ev_id e \<notin> set (di_processed_ids d)"
  have skip: "ev_id e \<in> set (di_processed_ids d) \<Longrightarrow>
      \<exists>rs d1. dispatch_loop h e ''EXACTLY_ONCE'' ss d = (rs, d1) \<and> length rs = length ss \<and> (\<forall>r \<in> set rs. dr_status r = ESKIPPED)"
    for d ss
  proof (induction ss arbitrary: d)
    case (Cons s ss)
    let ?d1 = "d\<lparr>di_metrics := record_metrics (fst (deliver_to_subscriber h e s ''EXACTLY_ONCE'' d)) (di_metrics d)\<rparr>"
    have del: "deliver_to_subscriber h e s ''EXACTLY_ONCE'' d = (fst (deliver_to_subscriber h e s ''EXACTLY_ONCE'' d), d)"
      "dr_status (fst (deliver_to_subscriber h e s ''EXACTLY_ONCE'' d)) = ESKIPPED"
      using Cons.prems by (simp_all add: deliver_to_subscriber_def Let_def)
    obtain rs d1 where "dispatch_loop h e ''EXACTLY_ONCE'' ss ?d1 = (rs, d1)" "length rs = length ss"
        "\<forall>r \<in> set rs. dr_status r = ESKIPPED"
      using Cons.IH[of ?d1] Cons.prems by auto
    then show ?case by (subst dispatch_loop.simps, subst del(1)) (simp add: del(2))
  qed simp
  let ?r = "\<lparr>dr_event_id = ev_id e, dr_subscriber_name = sb_name s, dr_status = EDELIVERED, dr_error = []\<rparr>"
  let ?d1 = "d\<lparr>di_processed_ids := List.insert (ev_id e) (di_processed_ids d)\<rparr>"
  have "deliver_to_subscriber h e s ''EXACTLY_ONCE'' d = (?r, ?d1)"
    using s by (simp add: deliver_to_subscriber_def Let_def)
  moreover obtain rs d2 where "dispatch_loop h e ''EXACTLY_ONCE'' ss (?d1\<lparr>di_metrics := record_metrics ?r (di_metrics ?d1)\<rparr>) = (rs, d2)"
      "length rs = length ss" "\<forall>r \<in> set rs. dr_status r = ESKIPPED"
    using skip[of "?d1\<lparr>di_metrics := record_metrics ?r (di_metrics ?d1)\<rparr>" ss] by auto
  ultimately show "\<exists>r rs d1. dispatch h e (s # ss) ''EXACTLY_ONCE'' d = (Inr (r # rs), d1) \<and> dr_status r = EDELIVERED \<and>
        length rs = length ss \<and> (\<forall>r \<in> set rs. dr_status r = ESKIPPED)"
    by (simp add: dispatch_def DELIVERY_MODES_def)
  qed
qed

theorem exactly_once_single_delivery_witness:
  "\<exists>r rs d1. dispatch (\<lambda>_ _. None) (demo_event ''e1'') [demo_subscriber 1 ''a'', demo_subscriber 2 ''b''] ''EXACTLY_ONCE'' new_dispatcher =
      (Inr (r # rs), d1) \<and> dr_status r = EDELIVERED \<and> length rs = 1 \<and> (\<forall>r \<in> set rs. dr_status r = ESKIPPED)"
  using exactly_once_single_delivery[where e = "demo_event ''e1''" and s = "demo_subscriber 1 ''a''" and h = "\<lambda>_ _. None"
      and d = new_dispatcher and ss = "[demo_subscriber 2 ''b'']"]
  by (simp add: subscriber_matches_def subscriber_handle_def demo_subscriber_def new_dispatcher_def)



text \<open>A replay through the bus itself publishes the replayed events again, so it appends every
  one of them to the store it read them from; and a replay always ends as completed, a
  cancelled one included.\<close>

theorem replay_appends_to_store:
  assumes "bus_persistence b = Some f" "\<forall>e \<in> set f. ev_source e \<noteq> []"
  shows "bus_persistence (snd (replay (publish_as_replay_handler h now) (\<lambda>_. False) q limit b)) =
      Some (f @ load_events q (case limit of None \<Rightarrow> 10000 | Some m \<Rightarrow> if m = 0 then 10000 else m) f) \<and>
    rs_state (fst (replay rh cancelled q limit b)) = RCompleted"
proof
  have "set (load_events q n f) \<subseteq> set f" for n using load_loop_subset[of q n f "[]"] by (simp add: load_events_def)
  then have "\<forall>e \<in> set (load_events q n f). ev_source e \<noteq> []" for n using assms(2) by blast
  from replay_loop_publishes[OF this] assms(1)
  show "bus_persistence (snd (replay (publish_as_replay_handler h now) (\<lambda>_. False) q limit b)) =
      Some (f @ load_events q (case limit of None \<Rightarrow> 10000 | Some m \<Rightarrow> if m = 0 then 10000 else m) f)"
    by (simp add: replay_def Let_def case_prod_beta)
  show "rs_state (fst (replay rh cancelled q limit b)) = RCompleted"
    using assms(1) by (simp add: replay_def Let_def case_prod_beta)
qed

theorem replay_appends_to_store_witness:
  "bus_persistence (snd (replay (publish_as_replay_handler (\<lambda>_ _. None) 0) (\<lambda>_. False)
      \<lparr>eq_since = None, eq_until = None, eq_event_types = [], eq_source = None\<rparr> None
      ((new_event_bus 10 True True)\<lparr>bus_persistence := Some [demo_event ''e1'']\<rparr>))) =
    Some [demo_event ''e1'', demo_event ''e1'']"
  by (subst conjunct1[OF replay_appends_to_store[where f = "[demo_event ''e1'']"]])
    (simp_all add: demo_event_def load_events_def event_selected_def)

text \<open>A request can never be made: no event type ends with the suffix of a reply.\<close>

lemma request_always_raises:
  "bus_request h now e r b = (Inl (NotAnEventType (ev_type e @ ''_REPLY'')), b)"
proof -
  have "list_all (\<lambda>v. last v \<noteq> CHR ''Y'') event_type_values" by (simp add: event_type_values_def)
  moreover have "last (ev_type e @ ''_REPLY'') = CHR ''Y''" by simp
  ultimately have "ev_type e @ ''_REPLY'' \<notin> set event_type_values" unfolding list_all_iff by metis
  then show ?thesis by (simp add: bus_request_def event_type_of_def)
qed

text \<open>The priority filter compares the names of the levels: background events pass every filter,
  critical ones do not pass the filter that asks for the least.\<close>

lemma priority_filter_alphabetical:
  "ev_priority e = BACKGROUND \<Longrightarrow> filter_matches (PriorityFilter m) e"
  "ev_priority e = CRITICAL \<Longrightarrow> \<not> filter_matches (PriorityFilter BACKGROUND) e"
  "ev_priority e = LOW \<Longrightarrow> filter_matches (PriorityFilter NORMAL) e"
  by (cases m) simp_all

text \<open>The dead letter file keeps the records that the bounded list in memory drops.\<close>

lemma dead_letter_file_exceeds_bound:
  assumes "length (dq_records q) = dq_max_records q" "dq_file q = dq_records q"
  shows "length (dq_records (new_dead_letter (dq_max_records q) ttl (dq_file (dead_letter_add r q)))) = dq_max_records q + 1"
  using assms by (simp add: new_dead_letter_def dead_letter_add_def enforce_max_def)

end
