(* ===== verification/OrchModel.thy ===== *)
theory OrchModel
  imports Lifecycle PyValue
begin

text \<open>
  The data of the orchestration engine (\<^verbatim>\<open>orchestration/models.py\<close>, \<^verbatim>\<open>exceptions.py\<close> and the
  result record of \<^verbatim>\<open>executor.py\<close>): pipelines, plans, the state of a run and what is kept of
  it.  The \<^verbatim>\<open>metadata\<close> of an execution state is a dictionary in which the engine uses two keys;
  they are the fields \<^verbatim>\<open>es_events\<close> and \<^verbatim>\<open>es_recovery_attempts\<close> here.  Elapsed times
  (\<^verbatim>\<open>duration\<close>) are measurements of the host and left out.
\<close>

datatype ScheduleMode = IMMEDIATE | SCHEDULED | RECURRING_PLAN | DEPENDENCY_PLAN

datatype StageMode = SEQUENTIAL | PARALLEL | CONDITIONAL

datatype RecoveryAction = CHECKPOINT_RESTORE | ROLLBACK | RETRY | FAIL

text \<open>\<^verbatim>\<open>RecoveryAction(s)\<close>; no member with this value is a \<^verbatim>\<open>ValueError\<close>.\<close>

definition recovery_action_of :: "string \<Rightarrow> RecoveryAction option" where
  "recovery_action_of s =
     (if s = ''checkpoint_restore'' then Some CHECKPOINT_RESTORE
      else if s = ''rollback'' then Some ROLLBACK
      else if s = ''retry'' then Some RETRY
      else if s = ''fail'' then Some FAIL
      else None)"

record retry_policy =
  rt_max_retries :: int
  rt_backoff_base :: rat
  rt_backoff_multiplier :: rat
  rt_max_backoff :: rat
  rt_timeout :: rat
  rt_retryable_errors :: "name list"

record task_dependency =
  td_task_id :: name
  td_type :: string
  td_condition :: "string option"

record pipeline_task =
  pt_id :: name
  pt_name :: string
  pt_task_type :: string
  pt_engine :: name
  pt_params :: "(string, json) dict"
  pt_dependencies :: "name list"
  pt_retry :: "retry_policy option"
  pt_timeout :: "rat option"
  pt_rollback_action :: "string option"
  pt_rollback_params :: "(string, json) dict"
  pt_on_failure :: string

record pipeline_stage =
  ps_id :: name
  ps_name :: string
  ps_mode :: StageMode
  ps_tasks :: "pipeline_task list"
  ps_condition :: "string option"

record pipeline =
  pl_id :: name
  pl_name :: string
  pl_stages :: "pipeline_stage list"

definition all_tasks :: "pipeline \<Rightarrow> pipeline_task list" where
  "all_tasks p = concat (map ps_tasks (pl_stages p))"

definition task_map :: "pipeline \<Rightarrow> (name, pipeline_task) dict" where
  "task_map p = fold (\<lambda>t. AList.update (pt_id t) t) (all_tasks p) []"

record orchestration_plan =
  op_id :: name
  op_name :: string
  op_pipeline :: pipeline
  op_schedule_mode :: ScheduleMode
  op_scheduled_at :: "time option"
  op_interval_seconds :: "rat option"
  op_max_runs :: int
  op_depends_on :: "name list"
  op_run_count :: int

record execution_state =
  es_pipeline_id :: name
  es_plan_id :: name
  es_status :: PipelineStatus
  es_current_stage_id :: "name option"
  es_current_task_id :: "name option"
  es_task_statuses :: "(name, TaskStatus) dict"
  es_task_results :: "(name, json) dict"
  es_task_errors :: "(name, string) dict"
  es_attempts :: "(name, nat) dict"
  es_started_at :: "time option"
  es_completed_at :: "time option"
  es_error :: "string option"
  es_recovered_from :: "name option"
  es_updated_at :: time
  es_events :: "string list"
  es_recovery_attempts :: "nat option"

record checkpoint =
  ck_id :: name
  ck_pipeline_id :: name
  ck_plan_id :: name
  ck_state :: execution_state
  ck_stage_index :: nat
  ck_task_index :: nat
  ck_created_at :: time

datatype step_status = SPending | SExecuted | SFailed

record rollback_step =
  rs_task_id :: name
  rs_action :: string
  rs_status :: step_status
  rs_error :: "string option"

record rollback_plan =
  rb_pipeline_id :: name
  rb_plan_id :: name
  rb_reason :: string
  rb_steps :: "rollback_step list"
  rb_completed :: "bool option"

record recovery_outcome =
  ro_plan_id :: name
  ro_success :: bool
  ro_actions_taken :: "RecoveryAction list"
  ro_checkpoint_id :: "name option"
  ro_rolled_back :: "name list"

record execution_metrics =
  em_tasks_total :: int
  em_tasks_completed :: int
  em_tasks_failed :: int
  em_tasks_skipped :: int
  em_retries_total :: int
  em_checkpoints_created :: int
  em_rollbacks_executed :: int
  em_recoveries_performed :: int
  em_started_at :: "time option"
  em_completed_at :: "time option"

definition new_metrics :: execution_metrics where
  "new_metrics = \<lparr>em_tasks_total = 0, em_tasks_completed = 0, em_tasks_failed = 0, em_tasks_skipped = 0,
     em_retries_total = 0, em_checkpoints_created = 0, em_rollbacks_executed = 0,
     em_recoveries_performed = 0, em_started_at = None, em_completed_at = None\<rparr>"

record execution_record =
  xr_plan_id :: name
  xr_plan_name :: string
  xr_pipeline_id :: name
  xr_state :: execution_state
  xr_metrics :: execution_metrics
  xr_rollback_plan :: "rollback_plan option"
  xr_recovery :: "recovery_outcome option"
  xr_events :: "string list"
  xr_recorded_at :: time

text \<open>The exceptions the engine raises; \<^verbatim>\<open>OtherError\<close> is one of the language or of an engine.\<close>

datatype orch_error =
    InvalidPlanError string
  | DependencyError string "name list"
  | PipelineExecutionError name "name option" string
  | CheckpointError string
  | RollbackError string
  | RecoveryError string
  | EngineNotReadyError name string
  | PlanNotFoundError name
  | OtherError string string

text \<open>\<^verbatim>\<open>type(exc).__name__\<close> and \<^verbatim>\<open>isinstance(exc, OrchestrationError)\<close>.\<close>

fun error_type :: "orch_error \<Rightarrow> string" where
  "error_type (InvalidPlanError _) = ''InvalidPlanError''"
| "error_type (DependencyError _ _) = ''DependencyError''"
| "error_type (PipelineExecutionError _ _ _) = ''PipelineExecutionError''"
| "error_type (CheckpointError _) = ''CheckpointError''"
| "error_type (RollbackError _) = ''RollbackError''"
| "error_type (RecoveryError _) = ''RecoveryError''"
| "error_type (EngineNotReadyError _ _) = ''EngineNotReadyError''"
| "error_type (PlanNotFoundError _) = ''PlanNotFoundError''"
| "error_type (OtherError t _) = t"

fun is_orchestration_error :: "orch_error \<Rightarrow> bool" where
  "is_orchestration_error (OtherError _ _) = False"
| "is_orchestration_error _ = True"

text \<open>\<^verbatim>\<open>repr(s)\<close> of a text without quotes and escapes, and \<^verbatim>\<open>str(exc)\<close>.\<close>

definition py_repr :: "string \<Rightarrow> string" where
  "py_repr s = [CHR 0x27] @ s @ [CHR 0x27]"

fun error_text :: "orch_error \<Rightarrow> string" where
  "error_text (InvalidPlanError m) = m"
| "error_text (DependencyError m c) = m"
| "error_text (PipelineExecutionError p t c) =
     ''Pipeline '' @ py_repr p @ '' failed at '' @ (case t of None \<Rightarrow> ''None'' | Some i \<Rightarrow> i) @ '': '' @ c"
| "error_text (CheckpointError m) = m"
| "error_text (RollbackError m) = m"
| "error_text (RecoveryError m) = m"
| "error_text (EngineNotReadyError e d) = ''Engine '' @ py_repr e @ '' '' @ d"
| "error_text (PlanNotFoundError p) = ''Plan not found: '' @ p"
| "error_text (OtherError _ m) = m"

definition full_error_text :: "orch_error \<Rightarrow> string" where
  "full_error_text e = error_type e @ '': '' @ error_text e"

datatype result_status = RCompleted | RFailed | RSkipped

record task_result =
  tr_task_id :: name
  tr_status :: result_status
  tr_output :: "json option"
  tr_error :: "string option"
  tr_attempts :: nat
  tr_retried :: bool

lemma map_of_task_map:
  "map_of (task_map p) i = map_of (rev (map (\<lambda>t. (pt_id t, t)) (all_tasks p))) i"
proof -
  have "map_of (fold (\<lambda>t. AList.update (pt_id t) t) ts d) i =
      (case map_of (rev (map (\<lambda>t. (pt_id t, t)) ts)) i of None \<Rightarrow> map_of d i | Some t \<Rightarrow> Some t)"
    for ts :: "pipeline_task list" and d
    by (induction ts arbitrary: d) (auto simp: map_add_def split: option.splits)
  from this[of "all_tasks p" "[]"] show ?thesis
    by (simp add: task_map_def split: option.split)
qed

lemma task_map_keys: "fst ` set (task_map p) = pt_id ` set (all_tasks p)"
proof -
  have "fst ` set (fold (\<lambda>t. AList.update (pt_id t) t) ts d) = fst ` set d \<union> pt_id ` set ts" for ts :: "pipeline_task list" and d
    by (induction ts arbitrary: d) auto
  from this[of "all_tasks p" "[]"] show ?thesis by (simp add: task_map_def)
qed

end
