(* ===== verification/TaskGraph.thy ===== *)
theory TaskGraph
  imports OrchModel GraphOrder "HOL-Library.List_Lexorder" "HOL-Library.Char_ord"
begin

text \<open>
  The dependency graph of a pipeline (\<^verbatim>\<open>orchestration/dependencies.py\<close>): its validation, the
  first cycle of a depth-first search, the topological order, the tasks that are ready and the
  layers that may run in parallel.  The searches take fuel, one more than the number of tasks;
  \<^verbatim>\<open>None\<close> says it ran out, and the lemmas show it never does.
\<close>

section \<open>Configuration and validation\<close>

record deps_config =
  dc_detect_cycles :: bool
  dc_missing_policy :: string
  dc_self_policy :: string
  dc_max_parallel_tasks :: int

definition default_deps_config :: deps_config where
  "default_deps_config =
     \<lparr>dc_detect_cycles = True, dc_missing_policy = ''raise'', dc_self_policy = ''raise'',
      dc_max_parallel_tasks = 4\<rparr>"

record task_graph =
  tg_tasks :: "pipeline_task list"
  tg_deps :: "(name, task_dependency list) dict"

definition required :: "name \<Rightarrow> task_dependency" where
  "required d = \<lparr>td_task_id = d, td_type = ''required'', td_condition = None\<rparr>"

text \<open>The two loops of \<^verbatim>\<open>_validate\<close>: over the dependencies of a task and over the tasks.\<close>

fun validate_deps ::
  "deps_config \<Rightarrow> name list \<Rightarrow> name \<Rightarrow> name list \<Rightarrow> (name, task_dependency list) dict \<Rightarrow>
   orch_error + (name, task_dependency list) dict"
where
  "validate_deps cfg known i [] acc = Inr acc"
| "validate_deps cfg known i (d # ds) acc =
     (if d = i
      then if dc_self_policy cfg = ''ignore'' then validate_deps cfg known i ds acc
           else Inl (DependencyError (''Task '' @ py_repr i @ '' depends on itself'') [i])
      else if d \<notin> set known
      then if dc_missing_policy cfg = ''skip'' then validate_deps cfg known i ds acc
           else Inl (InvalidPlanError (''Task '' @ py_repr i @ '' references unknown dependency '' @ py_repr d))
      else validate_deps cfg known i ds (AList.update i (dget [] acc i @ [required d]) acc))"

fun validate_tasks ::
  "deps_config \<Rightarrow> name list \<Rightarrow> pipeline_task list \<Rightarrow> (name, task_dependency list) dict \<Rightarrow>
   orch_error + (name, task_dependency list) dict"
where
  "validate_tasks cfg known [] acc = Inr acc"
| "validate_tasks cfg known (t # ts) acc =
     ebind (validate_deps cfg known (pt_id t) (pt_dependencies t) acc) (validate_tasks cfg known ts)"

section \<open>Queries\<close>

definition task_dependencies_of :: "task_graph \<Rightarrow> name \<Rightarrow> task_dependency list" where
  "task_dependencies_of g i = dget [] (tg_deps g) i"

definition task_dependents_of :: "task_graph \<Rightarrow> name \<Rightarrow> name list" where
  "task_dependents_of g i =
     map fst (filter (\<lambda>(j, ds). list_ex (\<lambda>d. td_task_id d = i) ds) (tg_deps g))"

definition task_deps :: "task_graph \<Rightarrow> name \<Rightarrow> name list" where
  "task_deps g i = map td_task_id (task_dependencies_of g i)"

definition task_ids :: "task_graph \<Rightarrow> name list" where
  "task_ids g = map pt_id (tg_tasks g)"

text \<open>The search of \<^verbatim>\<open>find_cycle\<close>: the visited tasks and the path; a cycle ends it.\<close>

primrec find_visit ::
  "nat \<Rightarrow> task_graph \<Rightarrow> name \<Rightarrow> name list \<times> name list \<Rightarrow> (name list + name list \<times> name list) option"
where
  "find_visit 0 g i s = None"
| "find_visit (Suc fuel) g i s =
     (case s of (visited, path) \<Rightarrow>
        case index_of i path of
          Some start \<Rightarrow> Some (Inl (drop start path @ [i]))
        | None \<Rightarrow>
            if i \<in> set visited then Some (Inr s)
            else obind (visit_seq (find_visit fuel g) (task_deps g i) (i # visited, path @ [i]))
                   (\<lambda>(visited1, path1). Some (Inr (visited1, butlast path1))))"

definition search_fuel :: "task_graph \<Rightarrow> nat" where
  "search_fuel g = Suc (length (tg_tasks g))"

definition find_cycle :: "task_graph \<Rightarrow> name list option" where
  "find_cycle g =
     (case visit_seq (find_visit (search_fuel g) g) (task_ids g) ([], []) of
        None \<Rightarrow> None
      | Some (Inl c) \<Rightarrow> Some c
      | Some (Inr _) \<Rightarrow> Some [])"

primrec topo_visit ::
  "nat \<Rightarrow> task_graph \<Rightarrow> name \<Rightarrow> name list \<times> name list \<Rightarrow> (orch_error + name list \<times> name list) option"
where
  "topo_visit 0 g i s = None"
| "topo_visit (Suc fuel) g i s =
     (case s of (visited, result) \<Rightarrow>
        if i \<in> set visited then Some (Inr s)
        else obind (visit_seq (topo_visit fuel g) (sort (task_deps g i)) (i # visited, result))
               (\<lambda>(visited1, result1). Some (Inr (visited1, result1 @ [i]))))"

definition task_order :: "task_graph \<Rightarrow> (orch_error + name list) option" where
  "task_order g =
     obind (visit_seq (topo_visit (search_fuel g) g) (task_ids g) ([], []))
       (\<lambda>(visited, result). Some (Inr result))"

text \<open>\<^verbatim>\<open>DependencyGraph(pipeline, config)\<close>.\<close>

definition new_dependency_graph :: "deps_config \<Rightarrow> pipeline \<Rightarrow> (orch_error + task_graph) option" where
  "new_dependency_graph cfg p =
     (case validate_tasks cfg (keys (task_map p)) (all_tasks p) [] of
        Inl e \<Rightarrow> Some (Inl e)
      | Inr ds \<Rightarrow>
          (let g = \<lparr>tg_tasks = all_tasks p, tg_deps = ds\<rparr>
           in if \<not> dc_detect_cycles cfg then Some (Inr g)
              else case find_cycle g of
                     None \<Rightarrow> None
                   | Some c \<Rightarrow>
                       if c \<noteq> [] then Some (Inl (DependencyError ''Cyclic task dependency detected'' c))
                       else Some (Inr g)))"

definition dep_satisfied :: "name list \<Rightarrow> task_dependency \<Rightarrow> bool" where
  "dep_satisfied completed d \<longleftrightarrow> td_task_id d \<in> set completed \<or> td_type d = ''optional''"

definition ready_tasks :: "task_graph \<Rightarrow> name list \<Rightarrow> name list \<Rightarrow> name list" where
  "ready_tasks g completed failed =
     filter (\<lambda>i. i \<notin> set completed \<and> i \<notin> set failed \<and>
                 list_all (dep_satisfied completed) (task_dependencies_of g i)) (task_ids g)"

text \<open>
  The loop of \<^verbatim>\<open>parallel_groups\<close>.  The remaining tasks are a Python set, whose order of iteration
  the language leaves open; \<^verbatim>\<open>rank\<close> stands for it.  The set \<^verbatim>\<open>completed\<close> of the caller is extended.
\<close>

function layer_loop ::
  "(name \<Rightarrow> nat) \<Rightarrow> task_graph \<Rightarrow> name list \<Rightarrow> name list \<Rightarrow> name list list \<Rightarrow>
   (orch_error + name list list \<times> name list) option"
where
  "layer_loop rank g remaining completed layers =
     (if remaining = [] then Some (Inr (layers, completed))
      else let ready = filter (\<lambda>i. list_all (dep_satisfied completed) (task_dependencies_of g i)) (sort_key rank remaining)
           in if ready = []
              then map_option (\<lambda>c. Inl (DependencyError ''Dependency graph cannot be layered'' c)) (find_cycle g)
              else layer_loop rank g (filter (\<lambda>i. i \<notin> set ready) remaining) (completed @ ready) (layers @ [ready]))"
  by pat_completeness auto

termination
proof (relation "measure (\<lambda>(rank, g, remaining, completed, layers). length remaining)", goal_cases)
  case (2 rank g remaining completed layers ready)
  then have "ready \<noteq> []" by simp
  then obtain i where "i \<in> set ready" by (meson list.set_sel(1))
  then have "i \<in> set remaining" using 2 by simp
  then show ?case using \<open>i \<in> set ready\<close> by (auto intro!: length_filter_less[of i])
qed simp

declare layer_loop.simps [simp del]

definition parallel_groups ::
  "(name \<Rightarrow> nat) \<Rightarrow> task_graph \<Rightarrow> name list \<Rightarrow> (orch_error + name list list \<times> name list) option" where
  "parallel_groups rank g completed =
     layer_loop rank g (remdups (filter (\<lambda>i. i \<notin> set completed) (task_ids g))) completed []"

section \<open>Validation\<close>

definition kept_deps :: "name list \<Rightarrow> name \<Rightarrow> name list \<Rightarrow> name list" where
  "kept_deps known i ds = filter (\<lambda>d. d \<noteq> i \<and> d \<in> set known) ds"

definition deps_accepted :: "deps_config \<Rightarrow> name list \<Rightarrow> name \<Rightarrow> name list \<Rightarrow> bool" where
  "deps_accepted cfg known i ds \<longleftrightarrow>
     (\<forall>d \<in> set ds. if d = i then dc_self_policy cfg = ''ignore''
                   else d \<in> set known \<or> dc_missing_policy cfg = ''skip'')"

lemma validate_deps_result:
  "if deps_accepted cfg known i ds
   then \<exists>acc1. validate_deps cfg known i ds acc = Inr acc1 \<and>
          (\<forall>j. dget [] acc1 j = dget [] acc j @ (if j = i then map required (kept_deps known i ds) else []))
   else \<exists>e. validate_deps cfg known i ds acc = Inl e"
proof (induction ds arbitrary: acc)
  case Nil
  then show ?case by (simp add: deps_accepted_def kept_deps_def)
next
  case (Cons d ds)
  from Cons.IH[of acc] Cons.IH[of "AList.update i (dget [] acc i @ [required d]) acc"]
  show ?case by (auto simp: deps_accepted_def kept_deps_def split: if_splits)
qed

definition tasks_accepted :: "deps_config \<Rightarrow> name list \<Rightarrow> pipeline_task list \<Rightarrow> bool" where
  "tasks_accepted cfg known ts \<longleftrightarrow> (\<forall>t \<in> set ts. deps_accepted cfg known (pt_id t) (pt_dependencies t))"

definition declared_deps :: "name list \<Rightarrow> pipeline_task list \<Rightarrow> name \<Rightarrow> name list" where
  "declared_deps known ts i =
     concat (map (\<lambda>t. kept_deps known i (pt_dependencies t)) (filter (\<lambda>t. pt_id t = i) ts))"

lemma validate_tasks_result:
  "if tasks_accepted cfg known ts
   then \<exists>acc1. validate_tasks cfg known ts acc = Inr acc1 \<and>
          (\<forall>i. dget [] acc1 i = dget [] acc i @ map required (declared_deps known ts i))
   else \<exists>e. validate_tasks cfg known ts acc = Inl e"
proof (induction ts arbitrary: acc)
  case Nil
  then show ?case by (simp add: tasks_accepted_def declared_deps_def)
next
  case (Cons t ts)
  note d = validate_deps_result[of cfg known "pt_id t" "pt_dependencies t" acc]
  show ?case
  proof (cases "deps_accepted cfg known (pt_id t) (pt_dependencies t)")
    case False
    with d show ?thesis by (auto simp: tasks_accepted_def)
  next
    case True
    with d obtain acc1 where a: "validate_deps cfg known (pt_id t) (pt_dependencies t) acc = Inr acc1"
      "\<And>j. dget [] acc1 j = dget [] acc j @
         (if j = pt_id t then map required (kept_deps known (pt_id t) (pt_dependencies t)) else [])"
      by auto
    from Cons.IH[of acc1] True a show ?thesis by (auto simp: tasks_accepted_def declared_deps_def)
  qed
qed

text \<open>What every accepted graph satisfies: dependencies are tasks of the graph, all required.\<close>

definition tg_inv :: "task_graph \<Rightarrow> bool" where
  "tg_inv g \<longleftrightarrow> (\<forall>i. set (task_deps g i) \<subseteq> set (task_ids g)) \<and>
     (\<forall>i. \<forall>d \<in> set (task_dependencies_of g i). td_type d = ''required'')"

lemma validated_graph:
  assumes "tasks_accepted cfg (keys (task_map p)) (all_tasks p)"
  obtains ds where "validate_tasks cfg (keys (task_map p)) (all_tasks p) [] = Inr ds"
    "tg_inv \<lparr>tg_tasks = all_tasks p, tg_deps = ds\<rparr>"
    "\<And>i. task_deps \<lparr>tg_tasks = all_tasks p, tg_deps = ds\<rparr> i = declared_deps (keys (task_map p)) (all_tasks p) i"
proof -
  from assms validate_tasks_result[of cfg "keys (task_map p)" "all_tasks p" "[]"] obtain ds where
    ds: "validate_tasks cfg (keys (task_map p)) (all_tasks p) [] = Inr ds"
    "\<And>i. dget [] ds i = map required (declared_deps (keys (task_map p)) (all_tasks p) i)" by auto
  have t: "task_deps \<lparr>tg_tasks = all_tasks p, tg_deps = ds\<rparr> i = declared_deps (keys (task_map p)) (all_tasks p) i" for i
    by (simp add: task_deps_def task_dependencies_of_def ds(2) required_def comp_def)
  have "set (declared_deps (keys (task_map p)) (all_tasks p) i) \<subseteq> pt_id ` set (all_tasks p)" for i
    using task_map_keys[of p] by (auto simp: declared_deps_def kept_deps_def)
  then have "tg_inv \<lparr>tg_tasks = all_tasks p, tg_deps = ds\<rparr>"
    by (auto simp: tg_inv_def t task_ids_def task_dependencies_of_def ds(2) required_def)
  from that[OF ds(1) this t] show thesis .
qed

lemma accepted_graph:
  assumes "new_dependency_graph cfg p = Some (Inr g)"
  shows "tg_inv g" and "tg_tasks g = all_tasks p"
    and "task_deps g i = declared_deps (keys (task_map p)) (all_tasks p) i"
proof -
  obtain ds where ds: "validate_tasks cfg (keys (task_map p)) (all_tasks p) [] = Inr ds"
    "g = \<lparr>tg_tasks = all_tasks p, tg_deps = ds\<rparr>"
    using assms by (auto simp: new_dependency_graph_def Let_def split: sum.splits option.splits if_splits)
  have "tasks_accepted cfg (keys (task_map p)) (all_tasks p)"
    using ds(1) validate_tasks_result[of cfg "keys (task_map p)" "all_tasks p" "[]"] by (auto split: if_splits)
  from validated_graph[OF this] ds show "tg_inv g" "task_deps g i = declared_deps (keys (task_map p)) (all_tasks p) i"
    by auto
  show "tg_tasks g = all_tasks p" using ds(2) by simp
qed

section \<open>The search for a cycle\<close>

abbreviation search_ok :: "task_graph \<Rightarrow> name list \<Rightarrow> name list \<times> name list \<Rightarrow> (name list + name list \<times> name list) option \<Rightarrow> bool" where
  "search_ok g \<equiv> search_post (set (task_ids g)) (task_deps g) (is_cycle (task_deps g))"

lemma find_visit_search:
  "find_visit fuel g = search_visit (\<lambda>path start i. drop start path @ [i]) fuel (task_deps g)"
proof (induction fuel)
  case (Suc fuel)
  then show ?case by (intro ext) (simp split: prod.split option.split)
qed (intro ext, simp)

lemma find_visit_ok:
  assumes "tg_inv g" "search_pre (set (task_ids g)) (task_deps g) ns s" "unseen (set (task_ids g)) s < fuel"
  shows "search_ok g ns s (visit_seq (find_visit fuel g) ns s)"
  unfolding find_visit_search
  by (rule search_seq_visit_ok) (use assms in \<open>auto simp: tg_inv_def back_edge_cycle\<close>)

definition acyclic_graph :: "task_graph \<Rightarrow> bool" where
  "acyclic_graph g \<longleftrightarrow> (\<forall>i. (i, i) \<notin> (dep_rel (task_deps g))\<^sup>+)"

lemma unseen_start: "unseen (set (task_ids g)) ([], []) < search_fuel g"
  using card_length[of "task_ids g"] by (simp add: unseen_def search_fuel_def task_ids_def)

lemma reach_known:
  assumes "tg_inv g" "(i, j) \<in> (dep_rel (task_deps g))\<^sup>+"
  shows "j \<in> set (task_ids g)"
  using assms(2,1) by (cases rule: tranclE) (auto simp: tg_inv_def)

lemma find_cycle_correct:
  assumes inv: "tg_inv g"
  obtains c where "find_cycle g = Some c" "c = [] \<longleftrightarrow> acyclic_graph g" "c \<noteq> [] \<longrightarrow> is_cycle (task_deps g) c"
proof -
  have "search_pre (set (task_ids g)) (task_deps g) (task_ids g) ([], [])" by (simp add: search_pre_def)
  note post = find_visit_ok[OF inv this unseen_start]
  then consider
      (cycle) c where "find_cycle g = Some c" "is_cycle (task_deps g) c"
    | (none) V fin where "find_cycle g = Some []" "dfs_inv (task_deps g) V [] fin" "set (task_ids g) \<subseteq> set fin"
    using dfs_inv_start[of "task_deps g"]
    by (auto simp: search_post_def find_cycle_def split: option.splits sum.splits)
  then show thesis
  proof cases
    case cycle
    then have "c \<noteq> []" by (auto simp: is_cycle_def)
    moreover have "(hd c, hd c) \<in> (dep_rel (task_deps g))\<^sup>+" by (rule cycle_reach[OF cycle(2)])
    ultimately show thesis using cycle that[of c] by (auto simp: acyclic_graph_def)
  next
    case none
    have "(i, i) \<notin> (dep_rel (task_deps g))\<^sup>+" for i
    proof
      assume c: "(i, i) \<in> (dep_rel (task_deps g))\<^sup>+"
      with reach_known[OF inv c] none(3) have "i \<in> set fin" by blast
      with ordered_no_cycle[of "task_deps g" fin i] none(2) c show False by (simp add: dfs_inv_def)
    qed
    with none that[of "[]"] show thesis by (simp add: acyclic_graph_def)
  qed
qed

section \<open>Orders and layers\<close>

definition topo_pre :: "task_graph \<Rightarrow> name list \<Rightarrow> name list \<Rightarrow> name list \<times> name list \<Rightarrow> bool" where
  "topo_pre g ns path s \<longleftrightarrow> search_pre (set (task_ids g)) (task_deps g) ns (fst s, path) \<and> dfs_inv (task_deps g) (set (fst s)) path (snd s)"

definition topo_post ::
  "task_graph \<Rightarrow> name list \<Rightarrow> name list \<Rightarrow> name list \<times> name list \<Rightarrow>
   (orch_error + name list \<times> name list) option \<Rightarrow> bool"
where
  "topo_post g ns path s r \<longleftrightarrow>
     (\<exists>s1. r = Some (Inr s1) \<and> set (fst s) \<subseteq> set (fst s1) \<and> set (fst s1) \<subseteq> set (task_ids g) \<and>
        dfs_inv (task_deps g) (set (fst s1)) path (snd s1) \<and> set ns \<subseteq> set (snd s1))"

lemma topo_seq_ok:
  assumes one: "\<And>n s. topo_pre g [n] path s \<Longrightarrow> unseen (set (task_ids g)) (fst s, path) < fuel \<Longrightarrow> topo_post g [n] path s (f n s)"
  shows "topo_pre g ns path s \<Longrightarrow> unseen (set (task_ids g)) (fst s, path) < fuel \<Longrightarrow> topo_post g ns path s (visit_seq f ns s)"
proof (induction ns arbitrary: s)
  case Nil
  then show ?case by (simp add: topo_post_def topo_pre_def search_pre_def)
next
  case (Cons n ns)
  have "topo_pre g [n] path s" using Cons.prems(1) by (simp add: topo_pre_def search_pre_def)
  from one[OF this Cons.prems(2)] obtain s1 where s1: "f n s = Some (Inr s1)" "set (fst s) \<subseteq> set (fst s1)"
      "set (fst s1) \<subseteq> set (task_ids g)" "dfs_inv (task_deps g) (set (fst s1)) path (snd s1)" "n \<in> set (snd s1)"
    by (auto simp: topo_post_def)
  have "topo_pre g ns path s1" using Cons.prems(1) s1 by (simp add: topo_pre_def search_pre_def)
  moreover have "unseen (set (task_ids g)) (fst s1, path) \<le> unseen (set (task_ids g)) (fst s, path)"
    unfolding unseen_def fst_conv using s1(2) by (intro card_mono) auto
  ultimately have "topo_post g ns path s1 (visit_seq f ns s1)" using Cons.IH[of s1] Cons.prems(2) by simp
  then obtain s2 where s2: "visit_seq f ns s1 = Some (Inr s2)" "set (fst s1) \<subseteq> set (fst s2)"
      "set (fst s2) \<subseteq> set (task_ids g)" "dfs_inv (task_deps g) (set (fst s2)) path (snd s2)" "set ns \<subseteq> set (snd s2)"
    by (auto simp: topo_post_def)
  have "n \<in> set (snd s2)" using dfs_inv_fin_mono[OF s1(4) s2(4) s2(2)] s1(5) by blast
  with s1 s2 show ?case by (auto simp: topo_post_def)
qed

lemma topo_visit_ok:
  "tg_inv g \<Longrightarrow> acyclic_graph g \<Longrightarrow> topo_pre g [n] path s \<Longrightarrow> unseen (set (task_ids g)) (fst s, path) < fuel \<Longrightarrow>
   topo_post g [n] path s (topo_visit fuel g n s)"
proof (induction fuel arbitrary: n path s)
  case (Suc fuel)
  obtain visited result where s: "s = (visited, result)" by (cases s)
  have d: "dfs_inv (task_deps g) (set visited) path result" and known: "n \<in> set (task_ids g)"
    and w: "walk (task_deps g) path" and e: "path \<noteq> [] \<longrightarrow> n \<in> set (task_deps g (last path))"
    and v: "set visited \<subseteq> set (task_ids g)"
    using Suc.prems(3) by (simp_all add: topo_pre_def search_pre_def s)
  have off: "n \<notin> set path"
  proof
    assume p: "n \<in> set path"
    then have "path \<noteq> []" by auto
    with on_path_cycle[OF w p] e Suc.prems(2) show False by (simp add: acyclic_graph_def)
  qed
  show ?case
  proof (cases "n \<in> set visited")
    case True
    with d off v show ?thesis by (simp add: topo_post_def s dfs_inv_def)
  next
    case False
    let ?s = "(n # visited, result)" and ?path = "path @ [n]" and ?deps = "sort (task_deps g n)"
    have "topo_pre g ?deps ?path ?s"
      using Suc.prems(1) known v w e dfs_inv_enter[OF d False]
      by (auto simp: topo_pre_def search_pre_def tg_inv_def intro!: walk_snoc)
    moreover have "unseen (set (task_ids g)) (fst ?s, ?path) < unseen (set (task_ids g)) (visited, path)"
      unfolding unseen_def using known False by (intro psubset_card_mono) auto
    then have "unseen (set (task_ids g)) (fst ?s, ?path) < fuel" using Suc.prems(4) by (simp add: s)
    ultimately have "topo_post g ?deps ?path ?s (visit_seq (topo_visit fuel g) ?deps ?s)"
      using topo_seq_ok[where fuel = fuel and f = "topo_visit fuel g", OF Suc.IH[OF Suc.prems(1,2)]] by blast
    then obtain v1 r1 where r: "visit_seq (topo_visit fuel g) ?deps ?s = Some (Inr (v1, r1))"
      "set (n # visited) \<subseteq> set v1" "set v1 \<subseteq> set (task_ids g)"
      "dfs_inv (task_deps g) (set v1) ?path r1" "set (task_deps g n) \<subseteq> set r1"
      by (auto simp: topo_post_def)
    have "dfs_inv (task_deps g) (set v1) path (r1 @ [n])" by (rule dfs_inv_leave[OF r(4,5)])
    with r False show ?thesis by (simp add: topo_post_def s)
  qed
qed simp

lemma task_order_correct:
  assumes "tg_inv g" "acyclic_graph g"
  obtains xs where "task_order g = Some (Inr xs)" "distinct xs" "set xs = set (task_ids g)"
    "ordered_from (task_deps g) {} xs"
proof -
  have "topo_pre g (task_ids g) [] ([], [])" by (simp add: topo_pre_def search_pre_def dfs_inv_start)
  from topo_seq_ok[where fuel = "search_fuel g", OF topo_visit_ok[OF assms, where fuel = "search_fuel g"] this]
  obtain v xs where r: "visit_seq (topo_visit (search_fuel g) g) (task_ids g) ([], []) = Some (Inr (v, xs))"
    "set v \<subseteq> set (task_ids g)" "dfs_inv (task_deps g) (set v) [] xs" "set (task_ids g) \<subseteq> set xs"
    using unseen_start[of g] by (auto simp: topo_post_def)
  then have "distinct xs" "set xs = set (task_ids g)" "ordered_from (task_deps g) {} xs"
    by (auto simp: dfs_inv_def)
  with that[of xs] r(1) show thesis by (simp add: task_order_def)
qed

text \<open>
  The layers: every task that is not completed is in exactly one layer, and what it depends on
  is completed or in an earlier layer; the layers exist exactly when no such task depends on
  itself through others.
\<close>

fun layered :: "(name \<Rightarrow> name list) \<Rightarrow> name set \<Rightarrow> name list list \<Rightarrow> bool" where
  "layered deps D [] = True"
| "layered deps D (l # ls) \<longleftrightarrow> l \<noteq> [] \<and> (\<forall>i \<in> set l. set (deps i) \<subseteq> D) \<and> layered deps (D \<union> set l) ls"

lemma layered_snoc:
  "layered deps D (ls @ [l]) \<longleftrightarrow> layered deps D ls \<and> l \<noteq> [] \<and> (\<forall>i \<in> set l. set (deps i) \<subseteq> D \<union> set (concat ls))"
  by (induction ls arbitrary: D) (auto simp: Un_assoc)

lemma dep_satisfied_required:
  "tg_inv g \<Longrightarrow> list_all (dep_satisfied completed) (task_dependencies_of g i) \<longleftrightarrow> set (task_deps g i) \<subseteq> set completed"
  by (auto simp: tg_inv_def list_all_iff dep_satisfied_def task_deps_def)

lemma layer_loop_ok:
  "tg_inv g \<Longrightarrow> acyclic_graph g \<Longrightarrow> distinct remaining \<Longrightarrow> set remaining = set (task_ids g) - set completed \<Longrightarrow>
    completed = done @ concat layers \<Longrightarrow> layered (task_deps g) (set done) layers \<Longrightarrow>
    distinct (concat layers) \<Longrightarrow> set (concat layers) \<inter> set remaining = {} \<Longrightarrow>
    \<exists>ls. layer_loop rank g remaining completed layers = Some (Inr (ls, done @ concat ls)) \<and>
      layered (task_deps g) (set done) ls \<and> distinct (concat ls) \<and>
      set (concat ls) = set (concat layers) \<union> set remaining"
proof (induction rank g remaining completed layers rule: layer_loop.induct)
  case (1 rank g remaining completed layers)
  note inv = "1.prems"(1) and ac = "1.prems"(2)
  show ?case
  proof (cases "remaining = []")
    case True
    with "1.prems" show ?thesis by (simp add: layer_loop.simps)
  next
    case False
    define ready where "ready = filter (\<lambda>i. list_all (dep_satisfied completed) (task_dependencies_of g i)) (sort_key rank remaining)"
    have ready: "set ready = {i \<in> set remaining. set (task_deps g i) \<subseteq> set completed}" "distinct ready"
      using "1.prems"(3) by (auto simp: ready_def dep_satisfied_required[OF inv])
    have "ready \<noteq> []"
    proof
      assume "ready = []"
      have "\<exists>j \<in> set remaining. j \<in> set (task_deps g i)" if i: "i \<in> set remaining" for i
      proof -
        have "i \<notin> set ready" using \<open>ready = []\<close> by simp
        with i ready(1) obtain j where "j \<in> set (task_deps g i)" "j \<notin> set completed" by blast
        moreover from this inv have "j \<in> set (task_ids g)" by (auto simp: tg_inv_def)
        ultimately show ?thesis using "1.prems"(4) by blast
      qed
      with stuck_has_cycle[of "set remaining" "task_deps g"] False ac show False
        by (auto simp: acyclic_graph_def)
    qed
    have "\<exists>ls. layer_loop rank g (filter (\<lambda>i. i \<notin> set ready) remaining) (completed @ ready) (layers @ [ready]) =
        Some (Inr (ls, done @ concat ls)) \<and> layered (task_deps g) (set done) ls \<and> distinct (concat ls) \<and>
        set (concat ls) = set (concat (layers @ [ready])) \<union> set (filter (\<lambda>i. i \<notin> set ready) remaining)"
    proof (rule "1.IH"[OF False ready_def])
      show "set (filter (\<lambda>i. i \<notin> set ready) remaining) = set (task_ids g) - set (completed @ ready)"
        using "1.prems"(4) by auto
      show "layered (task_deps g) (set done) (layers @ [ready])"
        using "1.prems"(5,6) ready \<open>ready \<noteq> []\<close> by (simp add: layered_snoc)
      show "distinct (concat (layers @ [ready]))"
        using "1.prems"(7,8) ready by auto
      show "set (concat (layers @ [ready])) \<inter> set (filter (\<lambda>i. i \<notin> set ready) remaining) = {}"
        using "1.prems"(8) by auto
    qed (use \<open>ready \<noteq> []\<close> "1.prems" in simp_all)
    moreover have "layer_loop rank g remaining completed layers =
        layer_loop rank g (filter (\<lambda>i. i \<notin> set ready) remaining) (completed @ ready) (layers @ [ready])"
      using False \<open>ready \<noteq> []\<close> by (subst layer_loop.simps) (simp add: ready_def Let_def)
    moreover have "set ready \<subseteq> set remaining" using ready by blast
    ultimately show ?thesis by fastforce
  qed
qed

section \<open>Properties\<close>

definition demo_task :: "name \<Rightarrow> name list \<Rightarrow> pipeline_task" where
  "demo_task i ds =
     \<lparr>pt_id = i, pt_name = i, pt_task_type = ''noop'', pt_engine = ''unknown'', pt_params = [],
      pt_dependencies = ds, pt_retry = None, pt_timeout = None, pt_rollback_action = Some ''noop'',
      pt_rollback_params = [], pt_on_failure = ''fail''\<rparr>"

definition demo_pipeline :: "StageMode \<Rightarrow> pipeline_task list \<Rightarrow> pipeline" where
  "demo_pipeline m ts =
     \<lparr>pl_id = ''p'', pl_name = ''p'',
      pl_stages = [\<lparr>ps_id = ''s'', ps_name = ''s'', ps_mode = m, ps_tasks = ts, ps_condition = None\<rparr>]\<rparr>"

text \<open>C21: building the graph of a pipeline always ends; it succeeds exactly when no policy rejects
  a dependency and, with detection on, no task depends on itself through others; the graph then
  holds exactly the declared dependencies on other tasks of the pipeline.\<close>

theorem dependency_graph_accepts_iff:
  "\<exists>r. new_dependency_graph cfg p = Some r \<and>
     (is_ok r \<longleftrightarrow>
        (\<forall>t \<in> set (all_tasks p). \<forall>d \<in> set (pt_dependencies t).
           if d = pt_id t then dc_self_policy cfg = ''ignore''
           else d \<in> pt_id ` set (all_tasks p) \<or> dc_missing_policy cfg = ''skip'') \<and>
        (dc_detect_cycles cfg \<longrightarrow>
           acyclic {(i, d). d \<noteq> i \<and> d \<in> pt_id ` set (all_tasks p) \<and>
             (\<exists>t \<in> set (all_tasks p). pt_id t = i \<and> d \<in> set (pt_dependencies t))})) \<and>
     (\<forall>g i d. r = Inr g \<longrightarrow>
        (d \<in> set (task_deps g i) \<longleftrightarrow> d \<noteq> i \<and> d \<in> pt_id ` set (all_tasks p) \<and>
           (\<exists>t \<in> set (all_tasks p). pt_id t = i \<and> d \<in> set (pt_dependencies t))))"
proof -
  let ?known = "keys (task_map p)" and ?ts = "all_tasks p"
  have known: "set ?known = pt_id ` set ?ts" using task_map_keys[of p] by simp
  have acc: "tasks_accepted cfg ?known ?ts \<longleftrightarrow>
      (\<forall>t \<in> set ?ts. \<forall>d \<in> set (pt_dependencies t).
           if d = pt_id t then dc_self_policy cfg = ''ignore''
           else d \<in> pt_id ` set ?ts \<or> dc_missing_policy cfg = ''skip'')"
    unfolding tasks_accepted_def deps_accepted_def known ..
  show ?thesis
  proof (cases "tasks_accepted cfg ?known ?ts")
    case False
    with validate_tasks_result[of cfg ?known ?ts "[]"] obtain e where
      "validate_tasks cfg ?known ?ts [] = Inl e" by auto
    then have "new_dependency_graph cfg p = Some (Inl e)" by (simp add: new_dependency_graph_def)
    with False show ?thesis unfolding acc by auto
  next
    case True
    from validated_graph[OF this] obtain ds where v: "validate_tasks cfg ?known ?ts [] = Inr ds"
      and inv: "tg_inv \<lparr>tg_tasks = ?ts, tg_deps = ds\<rparr>"
      and dep: "\<And>i. task_deps \<lparr>tg_tasks = ?ts, tg_deps = ds\<rparr> i = declared_deps ?known ?ts i" by blast
    let ?g = "\<lparr>tg_tasks = ?ts, tg_deps = ds\<rparr>"
    have mem: "d \<in> set (task_deps ?g i) \<longleftrightarrow> d \<noteq> i \<and> d \<in> pt_id ` set ?ts \<and>
        (\<exists>t \<in> set ?ts. pt_id t = i \<and> d \<in> set (pt_dependencies t))" for i d
      unfolding dep declared_deps_def kept_deps_def known by auto
    have ac: "acyclic_graph ?g \<longleftrightarrow> acyclic {(i, d). d \<noteq> i \<and> d \<in> pt_id ` set ?ts \<and>
             (\<exists>t \<in> set ?ts. pt_id t = i \<and> d \<in> set (pt_dependencies t))}"
      unfolding acyclic_graph_def acyclic_def dep_rel_def mem ..
    obtain c where c: "find_cycle ?g = Some c" "c = [] \<longleftrightarrow> acyclic_graph ?g" using find_cycle_correct[OF inv] by blast
    have r: "new_dependency_graph cfg p = Some (if dc_detect_cycles cfg \<and> c \<noteq> []
        then Inl (DependencyError ''Cyclic task dependency detected'' c) else Inr ?g)"
      by (simp add: new_dependency_graph_def v c(1) Let_def)
    show ?thesis
      unfolding r acc[symmetric] ac[symmetric] c(2)[symmetric] using True mem by auto
  qed
qed

theorem dependency_graph_accepts_iff_witness:
  "\<exists>e. new_dependency_graph default_deps_config
     (demo_pipeline SEQUENTIAL [demo_task ''a'' [''b''], demo_task ''b'' [''a'']]) = Some (Inl e)"
proof -
  let ?p = "demo_pipeline SEQUENTIAL [demo_task ''a'' [''b''], demo_task ''b'' [''a'']]"
  let ?R = "{(i, d). d \<noteq> i \<and> d \<in> pt_id ` set (all_tasks ?p) \<and>
             (\<exists>t \<in> set (all_tasks ?p). pt_id t = i \<and> d \<in> set (pt_dependencies t))}"
  have "(''a'', ''b'') \<in> ?R" "(''b'', ''a'') \<in> ?R"
    by (simp_all add: demo_pipeline_def demo_task_def all_tasks_def)
  then have "(''a'', ''a'') \<in> ?R\<^sup>+" by (meson trancl.intros)
  then have "\<not> acyclic ?R" by (auto simp: acyclic_def)
  moreover have "dc_detect_cycles default_deps_config" by (simp add: default_deps_config_def)
  ultimately obtain r where "new_dependency_graph default_deps_config ?p = Some r" "\<not> is_ok r"
    using dependency_graph_accepts_iff[of default_deps_config ?p] by blast
  then show ?thesis by (cases r) auto
qed

text \<open>C22: in an accepted graph without cycles the topological order lists every task once and
  after its dependencies, and the parallel groups are layers: they cover every task that is not
  completed exactly once, and what a task of a layer depends on is completed or in an earlier
  layer, whatever the order in which the language iterates over the remaining tasks.\<close>

theorem task_orders_correct:
  assumes "new_dependency_graph cfg p = Some (Inr g)" "dc_detect_cycles cfg"
  shows "(\<exists>xs. task_order g = Some (Inr xs) \<and> distinct xs \<and> set xs = pt_id ` set (all_tasks p) \<and>
        (\<forall>i \<in> set xs. \<forall>d \<in> set (task_deps g i). before xs d i)) \<and>
    (\<exists>ls. parallel_groups rank g completed = Some (Inr (ls, completed @ concat ls)) \<and>
        distinct (concat ls) \<and> set (concat ls) = pt_id ` set (all_tasks p) - set completed \<and>
        layered (task_deps g) (set completed) ls)"
proof -
  note inv = accepted_graph(1)[OF assms(1)]
  have c: "find_cycle g = Some []"
    using assms by (auto simp: new_dependency_graph_def Let_def split: sum.splits option.splits if_splits)
  have ac: "acyclic_graph g" using find_cycle_correct[OF inv] c by (metis option.inject)
  have ids: "set (task_ids g) = pt_id ` set (all_tasks p)" by (simp add: task_ids_def accepted_graph(2)[OF assms(1)])
  obtain xs where xs: "task_order g = Some (Inr xs)" "distinct xs" "set xs = set (task_ids g)"
    "ordered_from (task_deps g) {} xs" using task_order_correct[OF inv ac] .
  let ?rem = "remdups (filter (\<lambda>i. i \<notin> set completed) (task_ids g))"
  have "\<exists>ls. layer_loop rank g ?rem completed [] = Some (Inr (ls, completed @ concat ls)) \<and>
      layered (task_deps g) (set completed) ls \<and> distinct (concat ls) \<and> set (concat ls) = set (concat []) \<union> set ?rem"
    by (rule layer_loop_ok[OF inv ac]) auto
  then have "\<exists>ls. parallel_groups rank g completed = Some (Inr (ls, completed @ concat ls)) \<and>
        distinct (concat ls) \<and> set (concat ls) = pt_id ` set (all_tasks p) - set completed \<and>
        layered (task_deps g) (set completed) ls"
    using ids by (auto simp: parallel_groups_def)
  with xs ids ordered_before[OF xs(4,2)] show ?thesis by auto
qed

theorem task_orders_correct_witness:
  "\<exists>g ls. new_dependency_graph default_deps_config
       (demo_pipeline PARALLEL [demo_task ''b'' [''a''], demo_task ''a'' []]) = Some (Inr g) \<and>
     parallel_groups (\<lambda>_. 0) g [] = Some (Inr (ls, concat ls)) \<and> set (concat ls) = {''a'', ''b''}"
proof -
  let ?p = "demo_pipeline PARALLEL [demo_task ''b'' [''a''], demo_task ''a'' []]"
  obtain g where g: "new_dependency_graph default_deps_config ?p = Some (Inr g)"
    by (simp add: new_dependency_graph_def demo_pipeline_def demo_task_def all_tasks_def task_map_def
        default_deps_config_def find_cycle_def search_fuel_def task_ids_def task_deps_def task_dependencies_of_def required_def Let_def)
  have d: "dc_detect_cycles default_deps_config" by (simp add: default_deps_config_def)
  obtain ls where "parallel_groups (\<lambda>_. 0) g [] = Some (Inr (ls, [] @ concat ls))"
      "set (concat ls) = pt_id ` set (all_tasks ?p) - set []"
    using conjunct2[OF task_orders_correct[OF g d, where rank = "\<lambda>_. 0" and completed = "[]"]] by blast
  moreover have "pt_id ` set (all_tasks ?p) - set [] = {''a'', ''b''}"
    by (auto simp: demo_pipeline_def demo_task_def all_tasks_def)
  ultimately show ?thesis using g by auto
qed

end
