(* ===== verification/TaskExecutor.thy ===== *)
theory TaskExecutor
  imports TaskGraph
begin

text \<open>
  The task executor (\<^verbatim>\<open>orchestration/executor.py\<close>) and the dispatch of a task to its handler
  (\<^verbatim>\<open>Coordinator.execute\<close>).  What a handler does belongs to the engine behind it: its outcome
  the \<^verbatim>\<open>k\<close>-th time it runs a task is given by a function of the task and \<^verbatim>\<open>k\<close>, which the
  lemmas leave arbitrary, so they hold for every behaviour of the handlers and for every
  interleaving of tasks.  The random jitter of a delay is a parameter in the same way.
\<close>

record executor =
  ex_handlers :: "string list option"
  ex_default_retry :: retry_policy
  ex_dry_run :: bool

type_synonym outcomes = "pipeline_task \<Rightarrow> nat \<Rightarrow> orch_error + json"

text \<open>The runs of the handlers, by task, and the delays slept so far.\<close>

record exec_world =
  xw_runs :: "name list"
  xw_slept :: "rat list"

definition coordinator_execute ::
  "outcomes \<Rightarrow> string list \<Rightarrow> pipeline_task \<Rightarrow> 'w exec_world_scheme \<Rightarrow> (orch_error + json) \<times> 'w exec_world_scheme"
where
  "coordinator_execute out handlers t w =
     (if pt_task_type t \<notin> set handlers
      then (Inl (EngineNotReadyError (pt_engine t) (''no handler for task type '' @ py_repr (pt_task_type t))), w)
      else (out t (count_list (xw_runs w) (pt_id t)), w\<lparr>xw_runs := xw_runs w @ [pt_id t]\<rparr>))"

definition dispatch_task ::
  "outcomes \<Rightarrow> executor \<Rightarrow> pipeline_task \<Rightarrow> 'w exec_world_scheme \<Rightarrow> (orch_error + json) \<times> 'w exec_world_scheme"
where
  "dispatch_task out ex t w =
     (if ex_dry_run ex
      then (Inr (JObj [(''status'', JStr ''dry_run''), (''task_id'', JStr (pt_id t)),
                       (''task_type'', JStr (pt_task_type t)), (''engine'', JStr (pt_engine t))]), w)
      else case ex_handlers ex of
             None \<Rightarrow> (Inl (EngineNotReadyError ''coordinator'' ''not configured''), w)
           | Some hs \<Rightarrow> coordinator_execute out hs t w)"

definition retryable :: "orch_error \<Rightarrow> retry_policy \<Rightarrow> bool" where
  "retryable e retry \<longleftrightarrow>
     rt_retryable_errors retry = [] \<or> error_type e \<in> set (rt_retryable_errors retry)"

definition backoff :: "nat \<Rightarrow> retry_policy \<Rightarrow> rat \<Rightarrow> rat" where
  "backoff attempt retry jitter =
     (let delay = min (rt_backoff_base retry * rt_backoff_multiplier retry ^ attempt) (rt_max_backoff retry)
      in max 0 (if 0 < rt_backoff_base retry then delay + jitter else delay))"

definition completed_result :: "pipeline_task \<Rightarrow> json \<Rightarrow> nat \<Rightarrow> task_result" where
  "completed_result t output attempts =
     \<lparr>tr_task_id = pt_id t, tr_status = RCompleted, tr_output = Some output, tr_error = None,
      tr_attempts = attempts, tr_retried = 1 < attempts\<rparr>"

definition failed_task_result :: "pipeline_task \<Rightarrow> orch_error \<Rightarrow> nat \<Rightarrow> task_result" where
  "failed_task_result t e attempts =
     \<lparr>tr_task_id = pt_id t, tr_status = RFailed, tr_output = None, tr_error = Some (full_error_text e),
      tr_attempts = attempts, tr_retried = 1 < attempts\<rparr>"

text \<open>
  The loop over the attempts: \<^verbatim>\<open>left\<close> is \<^verbatim>\<open>max_retries - attempt\<close>.  The loop body returns on
  its last attempt, so the statement after the loop is never reached.
\<close>

fun attempt_loop ::
  "outcomes \<Rightarrow> (nat \<Rightarrow> rat) \<Rightarrow> executor \<Rightarrow> pipeline_task \<Rightarrow> retry_policy \<Rightarrow> nat \<Rightarrow> nat \<Rightarrow>
   'w exec_world_scheme \<Rightarrow> task_result \<times> 'w exec_world_scheme"
where
  "attempt_loop out jit ex t retry attempt left w =
     (case dispatch_task out ex t w of
        (Inr output, w1) \<Rightarrow> (completed_result t output (attempt + 1), w1)
      | (Inl e, w1) \<Rightarrow>
          if left = 0 \<or> \<not> retryable e retry then (failed_task_result t e (attempt + 1), w1)
          else attempt_loop out jit ex t retry (attempt + 1) (left - 1)
                 (w1\<lparr>xw_slept := xw_slept w1 @ [backoff attempt retry (jit (length (xw_slept w1)))]\<rparr>))"

declare attempt_loop.simps [simp del]

definition task_retry :: "executor \<Rightarrow> pipeline_task \<Rightarrow> retry_policy" where
  "task_retry ex t = (case pt_retry t of None \<Rightarrow> ex_default_retry ex | Some r \<Rightarrow> r)"

definition execute_task ::
  "outcomes \<Rightarrow> (nat \<Rightarrow> rat) \<Rightarrow> executor \<Rightarrow> pipeline_task \<Rightarrow> 'w exec_world_scheme \<Rightarrow> task_result \<times> 'w exec_world_scheme"
where
  "execute_task out jit ex t w =
     (let retry = task_retry ex t
      in attempt_loop out jit ex t retry 0 (nat (max 0 (rt_max_retries retry))) w)"

section \<open>Lemmas\<close>

text \<open>A delay is never negative and at most the cap plus the jitter.\<close>

lemma backoff_bounds:
  assumes "0 \<le> rt_max_backoff retry" "0 \<le> jitter" "jitter \<le> rt_backoff_base retry / 10 \<or> jitter = 0"
  shows "0 \<le> backoff n retry jitter" "backoff n retry jitter \<le> rt_max_backoff retry + jitter"
  using assms by (auto simp: backoff_def Let_def)

definition ready_executor :: "executor \<Rightarrow> pipeline_task \<Rightarrow> bool" where
  "ready_executor ex t \<longleftrightarrow> \<not> ex_dry_run ex \<and> (\<exists>hs. ex_handlers ex = Some hs \<and> pt_task_type t \<in> set hs)"

lemma dispatch_ready:
  "ready_executor ex t \<Longrightarrow> dispatch_task out ex t w =
     (out t (count_list (xw_runs w) (pt_id t)), w\<lparr>xw_runs := xw_runs w @ [pt_id t]\<rparr>)"
  by (auto simp: ready_executor_def dispatch_task_def coordinator_execute_def)

text \<open>
  Attempt \<^verbatim>\<open>k\<close> is the last one: the earlier ones failed with errors that may be retried, and it
  succeeds, fails for good or is the last one allowed.
\<close>

definition stops_at :: "(nat \<Rightarrow> orch_error + json) \<Rightarrow> retry_policy \<Rightarrow> nat \<Rightarrow> nat \<Rightarrow> bool" where
  "stops_at f retry n k \<longleftrightarrow> k \<le> n \<and> (\<forall>j < k. \<exists>e. f j = Inl e \<and> retryable e retry) \<and>
     (k < n \<longrightarrow> (\<forall>e. f k = Inl e \<longrightarrow> \<not> retryable e retry))"

lemma stops_at_Suc:
  "f 0 = Inl e \<Longrightarrow> retryable e retry \<Longrightarrow> stops_at (\<lambda>j. f (Suc j)) retry n k \<Longrightarrow> stops_at f retry (Suc n) (Suc k)"
  by (auto simp: stops_at_def less_Suc_eq_0_disj)

definition attempt_result :: "pipeline_task \<Rightarrow> orch_error + json \<Rightarrow> nat \<Rightarrow> task_result" where
  "attempt_result t r n = (case r of Inr v \<Rightarrow> completed_result t v n | Inl e \<Rightarrow> failed_task_result t e n)"

lemma attempt_loop_result:
  assumes "ready_executor ex t"
  shows "\<exists>k w1. stops_at (\<lambda>j. out t (count_list (xw_runs w) (pt_id t) + j)) retry left k \<and>
    attempt_loop out jit ex t retry attempt left w =
      (attempt_result t (out t (count_list (xw_runs w) (pt_id t) + k)) (attempt + k + 1), w1) \<and>
    xw_runs w1 = xw_runs w @ replicate (k + 1) (pt_id t) \<and>
    xw_slept w1 = xw_slept w @ map (\<lambda>j. backoff (attempt + j) retry (jit (length (xw_slept w) + j))) [0..<k] \<and>
    exec_world.more w1 = exec_world.more w"
proof (induction left arbitrary: attempt w)
  case 0
  show ?case
    by (intro exI[of _ 0]) (auto simp: attempt_loop.simps dispatch_ready[OF assms] stops_at_def
        attempt_result_def split: sum.split)
next
  case (Suc left)
  let ?n = "count_list (xw_runs w) (pt_id t)"
  let ?w = "w\<lparr>xw_runs := xw_runs w @ [pt_id t]\<rparr>"
  show ?case
  proof (cases "\<exists>e. out t ?n = Inl e \<and> retryable e retry")
    case False
    then show ?thesis
      by (intro exI[of _ 0]) (auto simp: attempt_loop.simps[of _ _ _ _ _ _ "Suc left"] dispatch_ready[OF assms]
          stops_at_def attempt_result_def split: sum.split)
  next
    case True
    then obtain e where e: "out t ?n = Inl e" "retryable e retry" by blast
    let ?w1 = "?w\<lparr>xw_slept := xw_slept w @ [backoff attempt retry (jit (length (xw_slept w)))]\<rparr>"
    from Suc.IH[of ?w1 "attempt + 1"] obtain k w1 where IH:
      "stops_at (\<lambda>j. out t (?n + Suc j)) retry left k"
      "attempt_loop out jit ex t retry (attempt + 1) left ?w1 = (attempt_result t (out t (?n + Suc k)) (attempt + Suc k + 1), w1)"
      "xw_runs w1 = xw_runs w @ replicate (Suc k + 1) (pt_id t)"
      "xw_slept w1 = xw_slept w @ backoff attempt retry (jit (length (xw_slept w))) #
         map (\<lambda>j. backoff (attempt + Suc j) retry (jit (length (xw_slept w) + Suc j))) [0..<k]"
      "exec_world.more w1 = exec_world.more w"
      by (auto simp: replicate_app_Cons_same)
    have "stops_at (\<lambda>j. out t (?n + j)) retry (Suc left) (Suc k)"
      by (rule stops_at_Suc[where e = e]) (use e IH(1) in simp_all)
    moreover have "attempt_loop out jit ex t retry attempt (Suc left) w = attempt_loop out jit ex t retry (attempt + 1) left ?w1"
      using e by (subst attempt_loop.simps) (simp add: dispatch_ready[OF assms])
    ultimately show ?thesis using IH by (intro exI[of _ "Suc k"]) (auto simp: map_upt_Suc simp del: upt_Suc)
  qed
qed

lemma dispatch_unready:
  "\<not> ready_executor ex t \<Longrightarrow> snd (dispatch_task out ex t w) = w"
  by (auto simp: ready_executor_def dispatch_task_def coordinator_execute_def split: option.split)

text \<open>An executor that cannot reach a handler never runs one, however often it tries.\<close>

lemma attempt_loop_unready:
  assumes "\<not> ready_executor ex t"
  shows "xw_runs (snd (attempt_loop out jit ex t retry attempt left w)) = xw_runs w \<and>
    exec_world.more (snd (attempt_loop out jit ex t retry attempt left w)) = exec_world.more w"
proof (induction left arbitrary: attempt w)
  case 0
  obtain r where "dispatch_task out ex t w = (r, w)" using dispatch_unready[OF assms, of out w] by (metis prod.collapse)
  then show ?case by (simp add: attempt_loop.simps split: sum.split)
next
  case (Suc left)
  obtain r where d: "dispatch_task out ex t w = (r, w)" using dispatch_unready[OF assms, of out w] by (metis prod.collapse)
  show ?case
    using Suc.IH[of "attempt + 1" "w\<lparr>xw_slept := xw_slept w @ [backoff attempt retry (jit (length (xw_slept w)))]\<rparr>"]
    by (subst (1 2) attempt_loop.simps) (simp add: d split: sum.split)
qed

text \<open>What the rest of the engine needs: the result names the task and is completed or failed.\<close>

lemma attempt_loop_shape:
  "tr_task_id (fst (attempt_loop out jit ex t retry attempt left w)) = pt_id t \<and>
   tr_status (fst (attempt_loop out jit ex t retry attempt left w)) \<in> {RCompleted, RFailed}"
proof (induction left arbitrary: attempt w)
  case 0
  show ?case
    by (simp add: attempt_loop.simps completed_result_def failed_task_result_def split: prod.split sum.split)
next
  case (Suc left)
  show ?case
    by (subst (1 2) attempt_loop.simps)
      (simp add: completed_result_def failed_task_result_def Suc.IH[simplified] split: prod.split sum.split)
qed

lemma execute_task_shape:
  "tr_task_id (fst (execute_task out jit ex t w)) = pt_id t"
  "tr_status (fst (execute_task out jit ex t w)) \<in> {RCompleted, RFailed}"
  using attempt_loop_shape unfolding execute_task_def Let_def by blast+

lemma execute_task_runs:
  "\<exists>k. xw_runs (snd (execute_task out jit ex t w)) = xw_runs w @ replicate k (pt_id t) \<and>
      (k = 0 \<longleftrightarrow> \<not> ready_executor ex t) \<and>
      exec_world.more (snd (execute_task out jit ex t w)) = exec_world.more w"
proof (cases "ready_executor ex t")
  case True
  from attempt_loop_result[OF this, where out = out and jit = jit and w = w and retry = "task_retry ex t"
      and attempt = 0 and left = "nat (max 0 (rt_max_retries (task_retry ex t)))"]
  obtain k w1 where "snd (execute_task out jit ex t w) = w1" "xw_runs w1 = xw_runs w @ replicate (k + 1) (pt_id t)"
    "exec_world.more w1 = exec_world.more w"
    by (auto simp: execute_task_def Let_def)
  with True show ?thesis by (intro exI[of _ "k + 1"]) simp
next
  case False
  from attempt_loop_unready[OF this] show ?thesis
    using False by (intro exI[of _ 0]) (simp add: execute_task_def Let_def)
qed

section \<open>Properties\<close>


definition demo_executor :: executor where
  "demo_executor =
     \<lparr>ex_handlers = Some [''noop''],
      ex_default_retry = \<lparr>rt_max_retries = 3, rt_backoff_base = 1, rt_backoff_multiplier = 2,
        rt_max_backoff = 60, rt_timeout = 3600, rt_retryable_errors = [''TimeoutError'']\<rparr>,
      ex_dry_run = False\<rparr>"

definition flaky :: outcomes where
  "flaky t k = (if k = 0 then Inl (OtherError ''TimeoutError'' ''late'') else Inr JNull)"


end
