(* ===== verification/Durability.thy ===== *)
theory Durability
  imports TaskExecutor "HOL-Library.Product_Lexorder" "HOL-Library.Multiset"
begin

text \<open>
  What the orchestration engine keeps of a run: checkpoints (\<^verbatim>\<open>orchestration/checkpoint.py\<close>), undo
  handlers and rollback plans (\<^verbatim>\<open>rollback.py\<close>), and the recovery sequence over both
  (\<^verbatim>\<open>recovery.py\<close>).  All of it is one world, which extends that of the executor.  The clock and
  the generator of identifiers are read at numbered instants; an environment says what each
  reading returns.  The copies of checkpoints in the memory engine and on disk are not part of
  the world: nothing but \<^verbatim>\<open>restore\<close> of an unknown identifier reads them.
\<close>

record orch_env =
  oe_outcomes :: outcomes
  oe_jitter :: "nat \<Rightarrow> rat"
  oe_time :: "nat \<Rightarrow> time"
  oe_uuid :: "nat \<Rightarrow> name"
  oe_start :: "nat \<Rightarrow> name \<Rightarrow> nat"
  oe_span :: "nat \<Rightarrow> name \<Rightarrow> nat"
  oe_memory_delete :: "json \<Rightarrow> orch_error option"

record orch_world = exec_world +
  ow_tick :: nat
  ow_checkpoints :: "(name, checkpoint) dict"
  ow_handlers :: "(name, string \<times> (string, json) dict) dict"
  ow_order :: "name list"
  ow_task_index :: nat
  ow_rollback_plans :: "(name, rollback_plan) dict"
  ow_undone :: "name list"
  ow_published :: "(string \<times> name) list"
  ow_totals :: execution_metrics

definition new_world :: orch_world where
  "new_world = \<lparr>xw_runs = [], xw_slept = [], ow_tick = 0, ow_checkpoints = [], ow_handlers = [],
     ow_order = [], ow_task_index = 0, ow_rollback_plans = [], ow_undone = [], ow_published = [], ow_totals = new_metrics\<rparr>"

section \<open>Checkpoints\<close>

definition checkpoint_key :: "checkpoint \<Rightarrow> time \<times> nat \<times> nat" where
  "checkpoint_key ck = (ck_created_at ck, ck_stage_index ck, ck_task_index ck)"

definition checkpoints_of :: "name \<Rightarrow> 'w orch_world_scheme \<Rightarrow> checkpoint list" where
  "checkpoints_of p w = filter (\<lambda>ck. ck_pipeline_id ck = p) (map snd (ow_checkpoints w))"

definition enforce_cap :: "int \<Rightarrow> name \<Rightarrow> 'w orch_world_scheme \<Rightarrow> 'w orch_world_scheme" where
  "enforce_cap cap p w =
     (let matches = checkpoints_of p w
      in if cap \<le> 0 \<or> int (length matches) \<le> cap then w
         else w\<lparr>ow_checkpoints :=
                fold (\<lambda>ck. AList.delete (ck_id ck))
                  (take (length matches - nat cap) (sort_key ck_created_at matches)) (ow_checkpoints w)\<rparr>)"

definition create_checkpoint ::
  "orch_env \<Rightarrow> int \<Rightarrow> orchestration_plan \<Rightarrow> execution_state \<Rightarrow> nat \<Rightarrow> nat \<Rightarrow> 'w orch_world_scheme \<Rightarrow>
   checkpoint \<times> 'w orch_world_scheme"
where
  "create_checkpoint env cap plan st stage_index task_index w =
     (let ck = \<lparr>ck_id = ''chk_'' @ oe_uuid env (ow_tick w), ck_pipeline_id = pl_id (op_pipeline plan),
                ck_plan_id = op_id plan, ck_state = st, ck_stage_index = stage_index,
                ck_task_index = task_index, ck_created_at = oe_time env (ow_tick w)\<rparr>
      in (ck, enforce_cap cap (pl_id (op_pipeline plan))
                (w\<lparr>ow_tick := Suc (ow_tick w), ow_checkpoints := AList.update (ck_id ck) ck (ow_checkpoints w)\<rparr>)))"

definition restore_checkpoint :: "name \<Rightarrow> 'w orch_world_scheme \<Rightarrow> checkpoint option" where
  "restore_checkpoint i w = map_of (ow_checkpoints w) i"

text \<open>\<^verbatim>\<open>max(matches, key=...)\<close>: the first of the largest.\<close>

definition latest_checkpoint :: "name \<Rightarrow> 'w orch_world_scheme \<Rightarrow> checkpoint option" where
  "latest_checkpoint p w =
     (case checkpoints_of p w of
        [] \<Rightarrow> None
      | ck # cks \<Rightarrow> Some (fold (\<lambda>x best. if checkpoint_key best < checkpoint_key x then x else best) cks ck))"

definition newest_first :: "checkpoint list \<Rightarrow> checkpoint list" where
  "newest_first = sort_key (\<lambda>ck. (- ck_created_at ck, - int (ck_stage_index ck), - int (ck_task_index ck)))"

definition list_checkpoints :: "name \<Rightarrow> 'w orch_world_scheme \<Rightarrow> checkpoint list" where
  "list_checkpoints p w = newest_first (checkpoints_of p w)"

definition all_checkpoints :: "'w orch_world_scheme \<Rightarrow> checkpoint list" where
  "all_checkpoints w = newest_first (map snd (ow_checkpoints w))"

definition delete_checkpoint :: "name \<Rightarrow> 'w orch_world_scheme \<Rightarrow> bool \<times> 'w orch_world_scheme" where
  "delete_checkpoint i w =
     (map_of (ow_checkpoints w) i \<noteq> None, w\<lparr>ow_checkpoints := AList.delete i (ow_checkpoints w)\<rparr>)"

definition clear_checkpoints :: "name option \<Rightarrow> 'w orch_world_scheme \<Rightarrow> nat \<times> 'w orch_world_scheme" where
  "clear_checkpoints p w =
     (case p of
        None \<Rightarrow> (length (ow_checkpoints w), w\<lparr>ow_checkpoints := []\<rparr>)
      | Some i \<Rightarrow>
          (let ids = map ck_id (checkpoints_of i w)
           in (length ids, w\<lparr>ow_checkpoints := fold AList.delete ids (ow_checkpoints w)\<rparr>)))"

section \<open>Rollback\<close>

definition register_handler ::
  "name \<Rightarrow> string \<Rightarrow> (string, json) dict \<Rightarrow> 'w orch_world_scheme \<Rightarrow> 'w orch_world_scheme" where
  "register_handler i action params w =
     w\<lparr>ow_handlers := AList.update i (action, params) (ow_handlers w),
       ow_order := (if i \<in> set (ow_order w) then ow_order w else ow_order w @ [i])\<rparr>"

definition unregister_handler :: "name \<Rightarrow> 'w orch_world_scheme \<Rightarrow> bool \<times> 'w orch_world_scheme" where
  "unregister_handler i w =
     (if map_of (ow_handlers w) i = None then (False, w)
      else (True, w\<lparr>ow_handlers := AList.delete i (ow_handlers w), ow_order := remove1 i (ow_order w)\<rparr>))"

definition has_handlers :: "'w orch_world_scheme \<Rightarrow> bool" where
  "has_handlers w \<longleftrightarrow> ow_handlers w \<noteq> []"

definition clear_handlers :: "'w orch_world_scheme \<Rightarrow> 'w orch_world_scheme" where
  "clear_handlers w = w\<lparr>ow_handlers := [], ow_order := []\<rparr>"

definition get_rollback_plan :: "name \<Rightarrow> 'w orch_world_scheme \<Rightarrow> rollback_plan option" where
  "get_rollback_plan i w = map_of (ow_rollback_plans w) i"

definition create_rollback_plan ::
  "name \<Rightarrow> name \<Rightarrow> string \<Rightarrow> 'w orch_world_scheme \<Rightarrow> (orch_error + rollback_plan) \<times> 'w orch_world_scheme" where
  "create_rollback_plan pipeline_id plan_id reason w =
     (case List.find (\<lambda>i. map_of (ow_handlers w) i = None) (rev (ow_order w)) of
        Some i \<Rightarrow> (Inl (OtherError ''KeyError'' i), w)
      | None \<Rightarrow>
          (let rb = \<lparr>rb_pipeline_id = pipeline_id, rb_plan_id = plan_id, rb_reason = reason,
                     rb_steps = map (\<lambda>i. \<lparr>rs_task_id = i, rs_action = fst (dget ([], []) (ow_handlers w) i),
                                           rs_status = SPending, rs_error = None\<rparr>) (rev (ow_order w)),
                     rb_completed = None\<rparr>
           in (Inr rb, w\<lparr>ow_rollback_plans := AList.update plan_id rb (ow_rollback_plans w)\<rparr>)))"

type_synonym undo = "name \<Rightarrow> string \<Rightarrow> (string, json) dict \<Rightarrow> orch_error option"

text \<open>One step of the loop of \<^verbatim>\<open>execute_rollback\<close>: the outcome of the undo function, if there is one.\<close>

definition rollback_step_result :: "undo option \<Rightarrow> 'w orch_world_scheme \<Rightarrow> rollback_step \<Rightarrow> rollback_step" where
  "rollback_step_result undo w st =
     (case undo of
        None \<Rightarrow> st\<lparr>rs_status := SExecuted\<rparr>
      | Some f \<Rightarrow>
          (case f (rs_task_id st) (fst (dget ([], []) (ow_handlers w) (rs_task_id st)))
                  (snd (dget ([], []) (ow_handlers w) (rs_task_id st))) of
             None \<Rightarrow> st\<lparr>rs_status := SExecuted\<rparr>
           | Some e \<Rightarrow> st\<lparr>rs_status := SFailed, rs_error := Some (full_error_text e)\<rparr>))"

definition execute_rollback ::
  "orchestration_plan \<Rightarrow> string \<Rightarrow> undo option \<Rightarrow> 'w orch_world_scheme \<Rightarrow>
   (orch_error + rollback_plan) \<times> 'w orch_world_scheme"
where
  "execute_rollback plan reason undo w =
     (if \<not> has_handlers w
      then (Inl (RollbackError (''No rollback handlers registered for plan '' @ op_id plan)), w)
      else case create_rollback_plan (pl_id (op_pipeline plan)) (op_id plan) reason w of
             (Inl e, w1) \<Rightarrow> (Inl e, w1)
           | (Inr rb, w1) \<Rightarrow>
               (let steps = map (rollback_step_result undo w1) (rb_steps rb);
                    rb1 = rb\<lparr>rb_steps := steps, rb_completed := Some (list_all (\<lambda>s. rs_status s \<noteq> SFailed) steps)\<rparr>
                in (Inr rb1,
                    clear_handlers
                      (w1\<lparr>ow_rollback_plans := AList.update (op_id plan) rb1 (ow_rollback_plans w1),
                          ow_undone := ow_undone w1 @ map rs_task_id (filter (\<lambda>s. rs_status s = SExecuted) steps)\<rparr>))))"

text \<open>\<^verbatim>\<open>OrchestrationEngine._undo\<close>.\<close>

definition undo_task :: "orch_env \<Rightarrow> bool \<Rightarrow> undo" where
  "undo_task env has_memory i action params =
     (if action = ''noop'' then None
      else if action = ''memory.delete''
      then (let m = dget JNull params ''memory_id''
            in if has_memory \<and> truthy m then oe_memory_delete env m
               else Some (EngineNotReadyError ''memory'' ''cannot undo memory.delete without a memory id''))
      else None)"

section \<open>Recovery\<close>

record recovery_config =
  rv_enabled :: bool
  rv_strategy :: string
  rv_actions :: "string list"
  rv_restore_latest :: bool
  rv_retry_failed :: bool
  rv_rollback_unrecoverable :: bool
  rv_auto_recover :: bool
  rv_max_attempts :: int

definition recovery_sequence :: "recovery_config \<Rightarrow> string list" where
  "recovery_sequence cfg =
     (if rv_strategy cfg = ''retry_only'' then [''retry'']
      else if rv_strategy cfg = ''rollback_then_retry'' then [''rollback'', ''retry'']
      else rv_actions cfg)"

definition restore_latest ::
  "orchestration_plan \<Rightarrow> recovery_outcome \<Rightarrow> 'w orch_world_scheme \<Rightarrow> recovery_outcome \<times> checkpoint option" where
  "restore_latest plan ro w =
     (case latest_checkpoint (pl_id (op_pipeline plan)) w of
        None \<Rightarrow> (ro, None)
      | Some ck \<Rightarrow>
          (ro\<lparr>ro_actions_taken := ro_actions_taken ro @ [CHECKPOINT_RESTORE], ro_checkpoint_id := Some (ck_id ck)\<rparr>,
           Some ck))"

definition recovery_rollback ::
  "orchestration_plan \<Rightarrow> string \<Rightarrow> undo option \<Rightarrow> recovery_outcome \<Rightarrow> 'w orch_world_scheme \<Rightarrow>
   recovery_outcome \<times> 'w orch_world_scheme"
where
  "recovery_rollback plan reason undo ro w =
     (if \<not> has_handlers w then (ro, w)
      else case execute_rollback plan reason undo w of
             (Inl _, w1) \<Rightarrow> (ro, w1)
           | (Inr rb, w1) \<Rightarrow>
               (ro\<lparr>ro_actions_taken := ro_actions_taken ro @ [ROLLBACK], ro_rolled_back := map rs_task_id (rb_steps rb)\<rparr>, w1))"

fun recovery_loop ::
  "recovery_config \<Rightarrow> orchestration_plan \<Rightarrow> string \<Rightarrow> undo option \<Rightarrow> string list \<Rightarrow> recovery_outcome \<Rightarrow>
   checkpoint option \<Rightarrow> 'w orch_world_scheme \<Rightarrow> (orch_error + recovery_outcome \<times> checkpoint option) \<times> 'w orch_world_scheme"
where
  "recovery_loop cfg plan reason undo [] ro ck w = (Inr (ro, ck), w)"
| "recovery_loop cfg plan reason undo (a # acts) ro ck w =
     (case recovery_action_of a of
        None \<Rightarrow> (Inl (OtherError ''ValueError'' (py_repr a @ '' is not a valid RecoveryAction'')), w)
      | Some CHECKPOINT_RESTORE \<Rightarrow>
          if rv_restore_latest cfg
          then (case restore_latest plan ro w of (ro1, ck1) \<Rightarrow> recovery_loop cfg plan reason undo acts ro1 ck1 w)
          else recovery_loop cfg plan reason undo acts ro ck w
      | Some ROLLBACK \<Rightarrow>
          (case recovery_rollback plan reason undo ro w of (ro1, w1) \<Rightarrow> recovery_loop cfg plan reason undo acts ro1 ck w1)
      | Some RETRY \<Rightarrow>
          recovery_loop cfg plan reason undo acts
            (if rv_retry_failed cfg then ro\<lparr>ro_actions_taken := ro_actions_taken ro @ [RETRY]\<rparr> else ro) ck w
      | Some FAIL \<Rightarrow> recovery_loop cfg plan reason undo acts ro ck w)"

definition recover_run ::
  "recovery_config \<Rightarrow> orchestration_plan \<Rightarrow> string \<Rightarrow> undo option \<Rightarrow> 'w orch_world_scheme \<Rightarrow>
   (orch_error + recovery_outcome \<times> checkpoint option) \<times> 'w orch_world_scheme"
where
  "recover_run cfg plan reason undo w =
     (if \<not> rv_enabled cfg then (Inl (RecoveryError ''Recovery is disabled by configuration''), w)
      else case recovery_loop cfg plan reason undo (recovery_sequence cfg)
                  \<lparr>ro_plan_id = op_id plan, ro_success = False, ro_actions_taken = [], ro_checkpoint_id = None,
                   ro_rolled_back = []\<rparr> None w of
             (Inl e, w1) \<Rightarrow> (Inl e, w1)
           | (Inr (ro, ck), w1) \<Rightarrow>
               (Inr (ro\<lparr>ro_success := ro_actions_taken ro \<noteq> [] \<or> ck \<noteq> None\<rparr>, ck), w1))"

definition should_retry :: "recovery_config \<Rightarrow> bool" where
  "should_retry cfg \<longleftrightarrow> rv_enabled cfg \<and> rv_retry_failed cfg"

definition should_rollback :: "recovery_config \<Rightarrow> 'w orch_world_scheme \<Rightarrow> bool" where
  "should_rollback cfg w \<longleftrightarrow> rv_rollback_unrecoverable cfg \<and> has_handlers w"

section \<open>Checkpoints: lemmas\<close>

definition ck_ok :: "'w orch_world_scheme \<Rightarrow> bool" where
  "ck_ok w \<longleftrightarrow> dict_ok (ow_checkpoints w) \<and> (\<forall>(i, ck) \<in> set (ow_checkpoints w). ck_id ck = i)"

lemma delete_all_filter:
  "fold AList.delete ids d = filter (\<lambda>(i, _). i \<notin> set ids) d"
  by (induction ids arbitrary: d) (auto simp: AList.delete_eq intro!: filter_cong)

lemma fold_delete_map: "fold (\<lambda>x. AList.delete (f x)) xs d = fold AList.delete (map f xs) d"
  by (induction xs arbitrary: d) simp_all

lemma ck_ok_update [inv_intros]:
  "ck_ok w \<Longrightarrow> ck_id ck = i \<Longrightarrow> ck_ok (w\<lparr>ow_tick := n, ow_checkpoints := AList.update i ck (ow_checkpoints w)\<rparr>)"
  by (auto simp: ck_ok_def dest!: dict_value_in_update)

lemma ck_ok_remove: "ck_ok w \<Longrightarrow> ck_ok (w\<lparr>ow_checkpoints := fold AList.delete ids (ow_checkpoints w)\<rparr>)"
  unfolding ck_ok_def delete_all_filter by (simp add: distinct_map_filter)

lemma ck_ok_cap [inv_intros]: "ck_ok w \<Longrightarrow> ck_ok (enforce_cap cap p w)"
  by (auto simp: enforce_cap_def Let_def fold_delete_map[of ck_id] intro: ck_ok_remove)

lemma ck_ok_create [inv_intros]: "ck_ok w \<Longrightarrow> ck_ok (snd (create_checkpoint env cap plan st i j w))"
  by (simp add: create_checkpoint_def Let_def ck_ok_cap ck_ok_update)

lemma checkpoints_distinct: "ck_ok w \<Longrightarrow> distinct (map ck_id (checkpoints_of p w))"
proof -
  assume ok: "ck_ok w"
  have "map ck_id (map snd (ow_checkpoints w)) = keys (ow_checkpoints w)"
    using ok by (auto simp: ck_ok_def)
  moreover have "dict_ok (ow_checkpoints w)" using ok by (simp add: ck_ok_def)
  ultimately have "distinct (map ck_id (map snd (ow_checkpoints w)))" by metis
  then show ?thesis unfolding checkpoints_of_def by (rule distinct_map_filter)
qed

text \<open>With a positive cap a pipeline never has more checkpoints than the cap.\<close>

lemma enforce_cap_bound:
  assumes "ck_ok w" "0 < cap"
  shows "int (length (checkpoints_of p (enforce_cap cap p w))) \<le> cap"
proof (cases "int (length (checkpoints_of p w)) \<le> cap")
  case True
  then show ?thesis by (simp add: enforce_cap_def)
next
  case False
  let ?m = "checkpoints_of p w"
  let ?n = "length ?m - nat cap"
  let ?ids = "map ck_id (take ?n (sort_key ck_created_at ?m))"
  have perm: "mset (sort_key ck_created_at ?m) = mset ?m" by simp
  have d: "distinct (map ck_id (sort_key ck_created_at ?m))"
    using checkpoints_distinct[OF assms(1)] perm by (metis mset_eq_imp_distinct_iff mset_map)
  have "checkpoints_of p (enforce_cap cap p w) = filter (\<lambda>ck. ck_id ck \<notin> set ?ids) ?m"
  proof -
    have "map snd (filter (\<lambda>(i, _). i \<notin> set ?ids) (ow_checkpoints w)) =
        filter (\<lambda>ck. ck_id ck \<notin> set ?ids) (map snd (ow_checkpoints w))"
    proof -
      have "filter (\<lambda>(i, _). i \<notin> set ?ids) (ow_checkpoints w) = filter (\<lambda>x. ck_id (snd x) \<notin> set ?ids) (ow_checkpoints w)"
        using assms(1) by (intro filter_cong) (auto simp: ck_ok_def)
      then show ?thesis by (simp only: filter_map comp_def)
    qed
    then show ?thesis
      using False assms(2) by (simp add: enforce_cap_def Let_def fold_delete_map[of ck_id] delete_all_filter checkpoints_of_def filter_filter conj_commute)
  qed
  moreover have "length (filter (\<lambda>ck. ck_id ck \<notin> set ?ids) ?m) = length (filter (\<lambda>ck. ck_id ck \<notin> set ?ids) (sort_key ck_created_at ?m))"
    by (metis perm mset_filter size_mset)
  moreover have "filter (\<lambda>ck. ck_id ck \<notin> set ?ids) (sort_key ck_created_at ?m) = drop ?n (sort_key ck_created_at ?m)"
  proof -
    let ?s = "sort_key ck_created_at ?m"
    have e: "?s = take ?n ?s @ drop ?n ?s" by simp
    have "distinct (map ck_id (take ?n ?s @ drop ?n ?s))" using d by simp
    then have dis: "set (map ck_id (take ?n ?s)) \<inter> set (map ck_id (drop ?n ?s)) = {}"
      unfolding map_append distinct_append by blast
    have "filter (\<lambda>ck. ck_id ck \<notin> set ?ids) (take ?n ?s @ drop ?n ?s) = [] @ drop ?n ?s"
      unfolding filter_append by (rule arg_cong2[of _ _ _ _ "(@)"]) (use dis in \<open>auto simp: filter_empty_conv filter_id_conv\<close>)
    then show ?thesis by simp
  qed
  ultimately show ?thesis using False assms(2) by simp
qed

text \<open>\<^verbatim>\<open>latest\<close> agrees with the head of \<^verbatim>\<open>list_for\<close>: the first of equal keys in both.\<close>

lemma hd_insort: "hd (insort_key f x ys) = (if ys = [] \<or> f x \<le> f (hd ys) then x else hd ys)"
  by (cases ys) auto

lemma hd_sort_fold:
  "hd (sort_key f (x # xs)) = fold (\<lambda>y best. if f y < f best then y else best) xs x"
proof -
  have m: "fold (\<lambda>y best. if f y < f best then y else best) (y # ys) x =
      (let m = fold (\<lambda>y best. if f y < f best then y else best) ys y in if f x \<le> f m then x else m)" for x y ys
    by (induction ys arbitrary: x y) (auto simp: Let_def)
  show ?thesis
  proof (induction xs arbitrary: x)
    case (Cons y ys)
    have "hd (sort_key f (x # y # ys)) = (if f x \<le> f (hd (sort_key f (y # ys))) then x else hd (sort_key f (y # ys)))"
      by (simp add: sort_key_def hd_insort) 
    then show ?case unfolding Cons.IH m Let_def .
  qed (simp add: sort_key_def)
qed

lemma latest_is_newest:
  "latest_checkpoint p w = (case list_checkpoints p w of [] \<Rightarrow> None | ck # _ \<Rightarrow> Some ck)"
proof (cases "checkpoints_of p w")
  case Nil
  then show ?thesis by (simp add: latest_checkpoint_def list_checkpoints_def newest_first_def)
next
  case (Cons c cs)
  let ?f = "\<lambda>ck. (- ck_created_at ck, - int (ck_stage_index ck), - int (ck_task_index ck))"
  have k: "checkpoint_key best < checkpoint_key x \<longleftrightarrow> ?f x < ?f best" for best x
    by (auto simp: checkpoint_key_def)
  have "list_checkpoints p w \<noteq> []" using Cons by (simp add: list_checkpoints_def newest_first_def flip: length_0_conv)
  then have "(case list_checkpoints p w of [] \<Rightarrow> None | ck # _ \<Rightarrow> Some ck) = Some (hd (list_checkpoints p w))"
    by (cases "list_checkpoints p w") auto
  also have "\<dots> = latest_checkpoint p w"
    unfolding list_checkpoints_def newest_first_def latest_checkpoint_def Cons hd_sort_fold k by simp
  finally show ?thesis ..
qed

section \<open>Rollback: lemmas\<close>

text \<open>The order of registration is the order of the handlers' dictionary.\<close>

definition handlers_ok :: "'w orch_world_scheme \<Rightarrow> bool" where
  "handlers_ok w \<longleftrightarrow> distinct (ow_order w) \<and> ow_order w = keys (ow_handlers w)"

lemma handlers_ok_register [inv_intros]: "handlers_ok w \<Longrightarrow> handlers_ok (register_handler i a ps w)"
  by (auto simp: handlers_ok_def register_handler_def keys_update_old keys_update_new)

lemma handlers_ok_unregister [inv_intros]: "handlers_ok w \<Longrightarrow> handlers_ok (snd (unregister_handler i w))"
  by (auto simp: handlers_ok_def unregister_handler_def keys_delete distinct_remove1_removeAll distinct_removeAll)

lemma handlers_ok_clear [inv_intros]: "handlers_ok (clear_handlers w)"
  by (simp add: handlers_ok_def clear_handlers_def)

lemma handlers_ok_new [inv_intros]: "handlers_ok new_world"
  by (simp add: handlers_ok_def new_world_def)

lemma create_rollback_ok:
  "handlers_ok w \<Longrightarrow> List.find (\<lambda>i. map_of (ow_handlers w) i = None) (rev (ow_order w)) = None"
  by (auto simp: find_None_iff handlers_ok_def)

lemma step_result_id [simp]: "rs_task_id (rollback_step_result undo w st) = rs_task_id st"
  by (auto simp: rollback_step_result_def split: option.split)

lemma step_result_executed:
  "rs_status (rollback_step_result undo w st) = SExecuted \<longleftrightarrow>
      (case undo of None \<Rightarrow> True
        | Some f \<Rightarrow> f (rs_task_id st) (fst (dget ([], []) (ow_handlers w) (rs_task_id st)))
                     (snd (dget ([], []) (ow_handlers w) (rs_task_id st))) = None)"
  by (auto simp: rollback_step_result_def split: option.split)

text \<open>A rollback runs the undo of every registered task once, the last registered first, whichever
  plan registered it, and leaves no handler.\<close>

lemma execute_rollback_ok:
  assumes "handlers_ok w" "ow_order w \<noteq> []"
  shows "\<exists>rb w1. execute_rollback plan reason undo w = (Inr rb, w1) \<and>
    map rs_task_id (rb_steps rb) = rev (ow_order w) \<and> ow_order w1 = [] \<and> ow_handlers w1 = [] \<and> handlers_ok w1 \<and>
    ow_undone w1 = ow_undone w @ filter (\<lambda>i. case undo of None \<Rightarrow> True
        | Some f \<Rightarrow> f i (fst (dget ([], []) (ow_handlers w) i)) (snd (dget ([], []) (ow_handlers w) i)) = None) (rev (ow_order w)) \<and>
    ow_checkpoints w1 = ow_checkpoints w \<and> xw_runs w1 = xw_runs w"
proof -
  have ne: "ow_handlers w \<noteq> []" using assms by (auto simp: handlers_ok_def)
  show ?thesis
    using ne create_rollback_ok[OF assms(1)]
    by (cases undo) (simp_all add: execute_rollback_def has_handlers_def create_rollback_plan_def Let_def clear_handlers_def
        handlers_ok_def step_result_id comp_def filter_map step_result_executed)
qed

end
