(* ===== verification/Condition.thy ===== *)
theory Condition
  imports PyValue
begin

text \<open>
  The conditions of pipeline stages (\<^verbatim>\<open>_resolve_path\<close> and \<^verbatim>\<open>evaluate_condition\<close> of
  \<^verbatim>\<open>orchestration/pipeline.py\<close>) and what they use of the language: stripping, splitting and
  partitioning text, and the reading of a number.  Text is ASCII; a number is read as the
  rational it denotes.
\<close>

section \<open>Text\<close>

definition strip_by :: "(char \<Rightarrow> bool) \<Rightarrow> string \<Rightarrow> string" where
  "strip_by P s = rev (dropWhile P (rev (dropWhile P s)))"

definition is_space :: "char \<Rightarrow> bool" where
  "is_space c = (let n = of_char c :: nat in n = 32 \<or> (9 \<le> n \<and> n \<le> 13) \<or> (28 \<le> n \<and> n \<le> 31))"

definition strip :: "string \<Rightarrow> string" where
  "strip s = strip_by is_space s"

definition strip_quotes :: "string \<Rightarrow> string" where
  "strip_quotes s = strip_by (\<lambda>c. c = CHR 0x27 \<or> c = CHR 0x22) s"

text \<open>\<^verbatim>\<open>s.partition(sep)\<close> where \<^verbatim>\<open>sep\<close> occurs, and \<^verbatim>\<open>None\<close> where it does not.\<close>

fun partition_at :: "string \<Rightarrow> string \<Rightarrow> (string \<times> string) option" where
  "partition_at sep [] = (if sep = [] then Some ([], []) else None)"
| "partition_at sep (c # s) =
     (if prefix sep (c # s) then Some ([], drop (length sep) (c # s))
      else map_option (\<lambda>(h, t). (c # h, t)) (partition_at sep s))"

fun split_on :: "char \<Rightarrow> string \<Rightarrow> string list" where
  "split_on sep [] = [[]]"
| "split_on sep (c # s) =
     (if c = sep then [] # split_on sep s
      else case split_on sep s of [] \<Rightarrow> [[c]] | h # t \<Rightarrow> (c # h) # t)"

definition is_digit :: "char \<Rightarrow> bool" where
  "is_digit c = (let n = of_char c :: nat in 48 \<le> n \<and> n \<le> 57)"

definition isdigit :: "string \<Rightarrow> bool" where
  "isdigit s \<longleftrightarrow> s \<noteq> [] \<and> list_all is_digit s"

definition digits_value :: "string \<Rightarrow> nat" where
  "digits_value s = foldl (\<lambda>n c. 10 * n + (of_char c - 48)) 0 (filter is_digit s)"

section \<open>Numbers\<close>

datatype py_number = Fin rat | PosInf | NegInf | NaN

text \<open>A run of digits in which single underscores may separate digits.\<close>

definition digit_part :: "string \<Rightarrow> bool" where
  "digit_part s \<longleftrightarrow> s \<noteq> [] \<and> is_digit (hd s) \<and> is_digit (last s) \<and>
     list_all (\<lambda>c. is_digit c \<or> c = CHR ''_'') s \<and> partition_at ''__'' s = None"

definition parse_decimal :: "string \<Rightarrow> rat option" where
  "parse_decimal s =
     (case partition_at ''.'' s of
        None \<Rightarrow> if digit_part s then Some (of_nat (digits_value s)) else None
      | Some (h, t) \<Rightarrow>
          if (h = [] \<or> digit_part h) \<and> (t = [] \<or> digit_part t) \<and> (h \<noteq> [] \<or> t \<noteq> [])
          then Some (of_nat (digits_value h) + of_nat (digits_value t) / 10 ^ length (filter is_digit t))
          else None)"

definition signed_part :: "string \<Rightarrow> bool \<times> string" where
  "signed_part s =
     (case s of [] \<Rightarrow> (False, [])
      | c # r \<Rightarrow> if c = CHR ''-'' then (True, r) else if c = CHR ''+'' then (False, r) else (False, s))"

text \<open>\<^verbatim>\<open>int(s)\<close>; \<^verbatim>\<open>None\<close> is its \<^verbatim>\<open>ValueError\<close>.\<close>

definition py_int :: "string \<Rightarrow> int option" where
  "py_int s =
     (case signed_part (strip s) of
        (neg, r) \<Rightarrow> if digit_part r then Some (if neg then - int (digits_value r) else int (digits_value r)) else None)"

text \<open>\<^verbatim>\<open>float(s)\<close>; \<^verbatim>\<open>None\<close> is its \<^verbatim>\<open>ValueError\<close>.\<close>

definition py_float :: "string \<Rightarrow> py_number option" where
  "py_float s =
     (let (neg, r) = signed_part (lower (strip s))
      in if r = ''inf'' \<or> r = ''infinity'' then Some (if neg then NegInf else PosInf)
         else if r = ''nan'' then Some NaN
         else map_option (\<lambda>q. Fin (if neg then - q else q))
                (case partition_at ''e'' r of
                   None \<Rightarrow> parse_decimal r
                 | Some (m, x) \<Rightarrow>
                     (let (xneg, e) = signed_part x
                      in if digit_part e
                         then map_option (\<lambda>q. if xneg then q / 10 ^ digits_value e else q * 10 ^ digits_value e)
                                (parse_decimal m)
                         else None)))"

section \<open>Conditions\<close>

definition resolve_part :: "json \<Rightarrow> string \<Rightarrow> json" where
  "resolve_part v part =
     (case v of
        JObj d \<Rightarrow> dget JNull d part
      | JList xs \<Rightarrow>
          if isdigit part
          then (if digits_value part < length xs then xs ! digits_value part else JNull)
          else JNull
      | _ \<Rightarrow> JNull)"

definition resolve_path :: "string \<Rightarrow> (string, json) dict \<Rightarrow> json" where
  "resolve_path path data = foldl resolve_part (JObj data) (split_on CHR ''.'' path)"

datatype operand = ONone | OBool bool | ONum py_number | OStr string

definition parse_operand :: "string \<Rightarrow> operand" where
  "parse_operand s =
     (let r = lower s
      in if r = ''true'' \<or> r = ''yes'' then OBool True
         else if r = ''false'' \<or> r = ''no'' then OBool False
         else if r = ''null'' \<or> r = ''none'' then ONone
         else case py_float s of None \<Rightarrow> OStr s | Some n \<Rightarrow> ONum n)"

fun operand_eq :: "json \<Rightarrow> operand \<Rightarrow> bool" where
  "operand_eq l ONone = (l = JNull)"
| "operand_eq l (OBool b) = py_eq l (JBool b)"
| "operand_eq l (ONum (Fin q)) = py_eq l (JNum q)"
| "operand_eq l (ONum _) = False"
| "operand_eq l (OStr s) = (l = JStr s)"

text \<open>
  The four order comparisons as \<^verbatim>\<open>(l < r, l = r)\<close> where they are defined; \<^verbatim>\<open>None\<close> is a
  \<^verbatim>\<open>TypeError\<close>, and with a \<^verbatim>\<open>nan\<close> every comparison is false.
\<close>

definition compare_number :: "rat \<Rightarrow> py_number \<Rightarrow> (bool \<times> bool) option" where
  "compare_number l r =
     (case r of Fin q \<Rightarrow> Some (l < q, l = q) | PosInf \<Rightarrow> Some (True, False) | NegInf \<Rightarrow> Some (False, False)
      | NaN \<Rightarrow> None)"

definition compare_operand :: "json \<Rightarrow> operand \<Rightarrow> (bool \<times> bool) option" where
  "compare_operand l r =
     (case r of
        ONone \<Rightarrow> None
      | OBool b \<Rightarrow> Option.bind (number_of l) (\<lambda>q. compare_number q (Fin (of_bool b)))
      | ONum n \<Rightarrow> Option.bind (number_of l) (\<lambda>q. compare_number q n)
      | OStr s \<Rightarrow> (case l of JStr t \<Rightarrow> Some (str_le t s \<and> t \<noteq> s, t = s) | _ \<Rightarrow> None))"

definition eval_comparison :: "string \<Rightarrow> json \<Rightarrow> operand \<Rightarrow> bool" where
  "eval_comparison opr l r =
     (if opr = ''=='' then operand_eq l r
      else if opr = ''!='' then \<not> operand_eq l r
      else case compare_operand l r of
             None \<Rightarrow> False
           | Some (lt, eq) \<Rightarrow>
               if opr = ''>='' then \<not> lt
               else if opr = ''<='' then lt \<or> eq
               else if opr = ''>'' then \<not> lt \<and> \<not> eq
               else lt)"

definition comparison_ops :: "string list" where
  "comparison_ops = [''=='', ''!='', ''>='', ''<='', ''>'', ''<'']"

definition evaluate_condition :: "string option \<Rightarrow> (string, json) dict \<Rightarrow> bool" where
  "evaluate_condition expression results =
     (case expression of
        None \<Rightarrow> True
      | Some text \<Rightarrow>
          (let expr = strip text
           in if expr = [] then True
              else if lower expr \<in> {''true'', ''yes'', ''on''} then True
              else if lower expr \<in> {''false'', ''no'', ''off''} then False
              else if partition_at '' in ['' expr \<noteq> None \<and> last expr = CHR '']''
              then (case the (partition_at '' in ['' expr) of
                      (h, t) \<Rightarrow>
                        resolve_path (strip h) results \<in>
                          set (map (\<lambda>v. JStr (strip (strip_quotes (strip v)))) (split_on CHR '','' (butlast t))))
              else case List.find (\<lambda>opr. partition_at opr expr \<noteq> None) comparison_ops of
                     Some opr \<Rightarrow>
                       (case the (partition_at opr expr) of
                          (h, t) \<Rightarrow>
                            eval_comparison opr (resolve_path (strip h) results)
                              (parse_operand (strip_quotes (strip t))))
                   | None \<Rightarrow> truthy (resolve_path expr results)))"

section \<open>Lemmas\<close>

lemma split_on_no_sep [simp]: "sep \<notin> set s \<Longrightarrow> split_on sep s = [s]"
  by (induction s) auto

lemma partition_at_join: "partition_at sep s = Some (h, t) \<Longrightarrow> s = h @ sep @ t"
proof (induction s arbitrary: h)
  case (Cons c s)
  show ?case
  proof (cases "prefix sep (c # s)")
    case True
    with Cons.prems show ?thesis by (auto simp: prefix_def)
  next
    case False
    with Cons show ?thesis by (auto simp: map_option_case split: option.splits)
  qed
qed (simp split: if_splits)

text \<open>A task that left no result makes its path null: the comparisons that order are then false,
  an inequality with anything but null is true.\<close>

lemma resolve_missing:
  "CHR ''.'' \<notin> set path \<Longrightarrow> map_of results path = None \<Longrightarrow> resolve_path path results = JNull"
  by (simp add: resolve_path_def resolve_part_def dget_def)

lemma compare_null [simp]: "compare_operand JNull r = None"
  by (cases r) (simp_all add: compare_operand_def number_of_def)

lemma null_comparisons:
  "opr \<in> {''>='', ''<='', ''>'', ''<''} \<Longrightarrow> \<not> eval_comparison opr JNull r"
  "r \<noteq> ONone \<Longrightarrow> eval_comparison ''!='' JNull r"
  by (auto simp: eval_comparison_def elim!: operand_eq.elims)

text \<open>A membership test compares with texts only: a number is never a member.\<close>

lemma membership_only_text:
  "strip text = h @ '' in ['' @ t @ '']'' \<Longrightarrow> partition_at '' in ['' (strip text) = Some (h, t @ '']'') \<Longrightarrow>
   lower (strip text) \<notin> {''true'', ''yes'', ''on''} \<Longrightarrow>
   resolve_path (strip h) results = JNum q \<Longrightarrow> \<not> evaluate_condition (Some text) results"
  by (auto simp: evaluate_condition_def Let_def)

lemma condition_examples:
  "evaluate_condition (Some ''a.n >= 2'') [(''a'', JObj [(''n'', JNum 3)])]"
  "\<not> evaluate_condition (Some ''a.n in [1, 3]'') [(''a'', JObj [(''n'', JNum 3)])]"
  "evaluate_condition (Some ''b != done'') []"
  by code_simp+

end
