(* ===== verification/PipelineBatch.thy ===== *)
theory PipelineBatch
  imports Durability Condition
begin

text \<open>
  The tasks and batches of the pipeline runner (\<^verbatim>\<open>orchestration/pipeline.py\<close>) with the
  monitor, the metrics and the notifier it calls; stages and whole runs are in
  \<^verbatim>\<open>PipelineRun\<close>.  A run threads one record through its steps: the execution state, the
  metrics, the world and the two indexes of the runner; an exception returns the record as it
  was changed so far.

  The tasks of a parallel stage run in threads.  A batch is a sequence of starts and finishes in
  an order the environment chooses (\<^verbatim>\<open>oe_start\<close>, \<^verbatim>\<open>oe_span\<close>): every order in which no task
  finishes before it starts can be chosen, so what is proved holds for all interleavings of
  the threads.  The size of the thread pool only excludes some of them.
\<close>

section \<open>The record of a run\<close>

record runner_config =
  rc_executor :: executor
  rc_deps :: deps_config
  rc_max_workers :: int
  rc_ck_enabled :: bool
  rc_ck_on_task :: bool
  rc_ck_on_stage :: bool
  rc_ck_interval :: int
  rc_ck_cap :: int
  rc_monitor :: bool
  rc_event_enabled :: "string \<Rightarrow> bool"

record run_state =
  rn_state :: execution_state
  rn_metrics :: execution_metrics
  rn_world :: orch_world
  rn_stage_index :: nat
  rn_task_index :: nat

abbreviation upd_state :: "(execution_state \<Rightarrow> execution_state) \<Rightarrow> run_state \<Rightarrow> run_state" where
  "upd_state f s \<equiv> s\<lparr>rn_state := f (rn_state s)\<rparr>"

abbreviation upd_metrics :: "(execution_metrics \<Rightarrow> execution_metrics) \<Rightarrow> run_state \<Rightarrow> run_state" where
  "upd_metrics f s \<equiv> s\<lparr>rn_metrics := f (rn_metrics s)\<rparr>"

abbreviation upd_world :: "(orch_world \<Rightarrow> orch_world) \<Rightarrow> run_state \<Rightarrow> run_state" where
  "upd_world f s \<equiv> s\<lparr>rn_world := f (rn_world s)\<rparr>"

definition status_of :: "run_state \<Rightarrow> name \<Rightarrow> TaskStatus" where
  "status_of s i = dget TPending (es_task_statuses (rn_state s)) i"

definition set_status :: "name \<Rightarrow> TaskStatus \<Rightarrow> run_state \<Rightarrow> run_state" where
  "set_status i st = upd_state (\<lambda>e. e\<lparr>es_task_statuses := AList.update i st (es_task_statuses e)\<rparr>)"

definition ids_with :: "TaskStatus \<Rightarrow> run_state \<Rightarrow> name list" where
  "ids_with st s = map fst (filter (\<lambda>p. snd p = st) (es_task_statuses (rn_state s)))"

text \<open>\<^verbatim>\<open>Notifier._publish\<close>, \<^verbatim>\<open>Monitor._append_event\<close> and \<^verbatim>\<open>MetricsCollector.merge\<close>.\<close>

definition notify :: "runner_config \<Rightarrow> string \<Rightarrow> orchestration_plan \<Rightarrow> run_state \<Rightarrow> run_state" where
  "notify cfg ev plan =
     upd_world (\<lambda>w. if rc_event_enabled cfg ev then w\<lparr>ow_published := ow_published w @ [(ev, op_id plan)]\<rparr> else w)"

definition monitor_event :: "runner_config \<Rightarrow> string \<Rightarrow> run_state \<Rightarrow> run_state" where
  "monitor_event cfg ev = upd_state (\<lambda>e. if rc_monitor cfg then e\<lparr>es_events := es_events e @ [ev]\<rparr> else e)"

definition merge_metrics :: "execution_metrics \<Rightarrow> execution_metrics \<Rightarrow> execution_metrics" where
  "merge_metrics m c =
     \<lparr>em_tasks_total = em_tasks_total c + em_tasks_total m,
      em_tasks_completed = em_tasks_completed c + em_tasks_completed m,
      em_tasks_failed = em_tasks_failed c + em_tasks_failed m,
      em_tasks_skipped = em_tasks_skipped c + em_tasks_skipped m,
      em_retries_total = em_retries_total c + em_retries_total m,
      em_checkpoints_created = em_checkpoints_created c + em_checkpoints_created m,
      em_rollbacks_executed = em_rollbacks_executed c + em_rollbacks_executed m,
      em_recoveries_performed = em_recoveries_performed c + em_recoveries_performed m,
      em_started_at =
        (case em_started_at c of
           None \<Rightarrow> em_started_at m
         | Some t \<Rightarrow> (case em_started_at m of None \<Rightarrow> Some t | Some u \<Rightarrow> Some (if u < t then u else t))),
      em_completed_at =
        (case em_completed_at m of
           None \<Rightarrow> em_completed_at c
         | Some u \<Rightarrow> (case em_completed_at c of None \<Rightarrow> Some u | Some t \<Rightarrow> Some (if u > t then u else t)))\<rparr>"

section \<open>Checkpoints of a run\<close>

definition task_checkpoint_enabled :: "runner_config \<Rightarrow> execution_metrics \<Rightarrow> bool" where
  "task_checkpoint_enabled cfg m \<longleftrightarrow>
     rc_ck_on_task cfg \<and> (rc_ck_interval cfg \<le> 0 \<or> em_tasks_completed m mod rc_ck_interval cfg = 0)"

definition write_checkpoint :: "orch_env \<Rightarrow> runner_config \<Rightarrow> orchestration_plan \<Rightarrow> run_state \<Rightarrow> run_state" where
  "write_checkpoint env cfg plan s =
     (if \<not> rc_ck_enabled cfg then s
      else upd_metrics (\<lambda>m. m\<lparr>em_checkpoints_created := em_checkpoints_created m + 1\<rparr>)
             (upd_world (\<lambda>w. snd (create_checkpoint env (rc_ck_cap cfg) plan (rn_state s) (rn_stage_index s) (rn_task_index s) w)) s))"

section \<open>One task\<close>

definition mark_skipped :: "runner_config \<Rightarrow> orchestration_plan \<Rightarrow> name \<Rightarrow> run_state \<Rightarrow> run_state" where
  "mark_skipped cfg plan i s =
     notify cfg ''task.skipped'' plan
       (upd_metrics (\<lambda>m. m\<lparr>em_tasks_skipped := em_tasks_skipped m + 1\<rparr>) (set_status i TSkipped s))"

text \<open>The first half of \<^verbatim>\<open>_run_task\<close>, up to the call of the executor.\<close>

definition start_task :: "runner_config \<Rightarrow> orchestration_plan \<Rightarrow> pipeline_task \<Rightarrow> run_state \<Rightarrow> (orch_error + unit) \<times> run_state" where
  "start_task cfg plan t s =
     (let s1 = upd_state (\<lambda>e. e\<lparr>es_current_task_id := Some (pt_id t)\<rparr>) s
      in case transition_task (status_of s (pt_id t)) TRunning of
           Inl _ \<Rightarrow> (Inl (OtherError ''ValueError'' ''Invalid task transition''), s1)
         | Inr st \<Rightarrow>
             (Inr (),
              monitor_event cfg (''task.started:'' @ pt_id t)
                (notify cfg ''task.started'' plan
                  (upd_state (\<lambda>e. e\<lparr>es_attempts := AList.update (pt_id t) (dget 0 (es_attempts e) (pt_id t) + 1) (es_attempts e)\<rparr>)
                    (set_status (pt_id t) st s1)))))"

text \<open>The second half: the executor runs the task on the world.\<close>

definition finish_task :: "orch_env \<Rightarrow> runner_config \<Rightarrow> pipeline_task \<Rightarrow> run_state \<Rightarrow> task_result \<times> run_state" where
  "finish_task env cfg t s =
     (case execute_task (oe_outcomes env) (oe_jitter env) (rc_executor cfg) t (rn_world s) of
        (r, w) \<Rightarrow> (r, s\<lparr>rn_world := w\<rparr>))"

definition count_retries :: "task_result \<Rightarrow> execution_metrics \<Rightarrow> execution_metrics" where
  "count_retries r m =
     (if tr_retried r then m\<lparr>em_retries_total := em_retries_total m + int (tr_attempts r) - 1\<rparr> else m)"

definition apply_task_result ::
  "orch_env \<Rightarrow> runner_config \<Rightarrow> orchestration_plan \<Rightarrow> pipeline_task \<Rightarrow> task_result \<Rightarrow> run_state \<Rightarrow> run_state"
where
  "apply_task_result env cfg plan t r s =
     (case tr_status r of
        RCompleted \<Rightarrow>
          (let v = (case tr_output r of None \<Rightarrow> JObj [] | Some v \<Rightarrow> if truthy v then v else JObj []);
               s1 = upd_state (\<lambda>e. e\<lparr>es_task_results := AList.update (pt_id t) v (es_task_results e)\<rparr>)
                      (set_status (pt_id t) TCompleted s);
               s2 = (case pt_rollback_action t of
                       Some a \<Rightarrow> if a \<noteq> [] then upd_world (register_handler (pt_id t) a (pt_rollback_params t)) s1 else s1
                     | None \<Rightarrow> s1);
               s3 = upd_metrics (\<lambda>m. count_retries r (m\<lparr>em_tasks_completed := em_tasks_completed m + 1\<rparr>)) s2;
               s4 = monitor_event cfg (''task.completed:'' @ pt_id t) (notify cfg ''task.completed'' plan s3)
           in if task_checkpoint_enabled cfg (rn_metrics s4) then write_checkpoint env cfg plan s4 else s4)
      | RFailed \<Rightarrow>
          (let s1 = upd_state (\<lambda>e. e\<lparr>es_task_errors := AList.update (pt_id t)
                        (case tr_error r of None \<Rightarrow> ''unknown error'' | Some m \<Rightarrow> if m = [] then ''unknown error'' else m)
                        (es_task_errors e)\<rparr>)
                      (set_status (pt_id t) TFailed s);
               s2 = upd_metrics (\<lambda>m. count_retries r (m\<lparr>em_tasks_failed := em_tasks_failed m + 1\<rparr>)) s1
           in monitor_event cfg (''task.failed:'' @ pt_id t) (notify cfg ''task.failed'' plan s2))
      | RSkipped \<Rightarrow> mark_skipped cfg plan (pt_id t) s)"

definition run_failure :: "orchestration_plan \<Rightarrow> pipeline_task \<Rightarrow> task_result \<Rightarrow> orch_error" where
  "run_failure plan t r =
     PipelineExecutionError (pl_id (op_pipeline plan)) (Some (pt_id t))
       (case tr_error r of None \<Rightarrow> ''unknown task failure'' | Some m \<Rightarrow> if m = [] then ''unknown task failure'' else m)"

section \<open>Stages\<close>

text \<open>\<^verbatim>\<open>_execute_sequential\<close>: the tasks in the order of their declaration.\<close>

fun exec_sequential ::
  "orch_env \<Rightarrow> runner_config \<Rightarrow> orchestration_plan \<Rightarrow> task_graph \<Rightarrow> nat \<Rightarrow> pipeline_task list \<Rightarrow> run_state \<Rightarrow>
   (orch_error + unit) \<times> run_state"
where
  "exec_sequential env cfg plan g k [] s = (Inr (), s)"
| "exec_sequential env cfg plan g k (t # ts) s0 =
     (let s = s0\<lparr>rn_task_index := k\<rparr>; st = status_of s (pt_id t)
      in if st \<in> {TCompleted, TSkipped, TCancelled} \<or> (st = TFailed \<and> pt_on_failure t = ''fail'')
         then exec_sequential env cfg plan g (k + 1) ts s
         else if pt_id t \<notin> set (ready_tasks g (ids_with TCompleted s) (ids_with TFailed s))
         then exec_sequential env cfg plan g (k + 1) ts (mark_skipped cfg plan (pt_id t) s)
         else case start_task cfg plan t (upd_state (\<lambda>e. e\<lparr>es_current_task_id := Some (pt_id t)\<rparr>) s) of
                (Inl e, s1) \<Rightarrow> (Inl e, s1)
              | (Inr _, s1) \<Rightarrow>
                  (case finish_task env cfg t s1 of
                     (r, s2) \<Rightarrow>
                       (let s3 = apply_task_result env cfg plan t r s2
                        in if tr_status r = RFailed \<and> pt_on_failure t = ''fail''
                           then (Inl (run_failure plan t r), write_checkpoint env cfg plan s3)
                           else exec_sequential env cfg plan g (k + 1) ts s3)))"

datatype batch_step = Start pipeline_task | Finish pipeline_task

definition batch_schedule :: "orch_env \<Rightarrow> nat \<Rightarrow> pipeline_task list \<Rightarrow> batch_step list" where
  "batch_schedule env tick ts =
     map snd (sort_key fst
       (map (\<lambda>t. (oe_start env tick (pt_id t), Start t)) ts @
        map (\<lambda>t. (oe_start env tick (pt_id t) + oe_span env tick (pt_id t), Finish t)) ts))"

text \<open>After a fatal failure the threads that had started run to their end; nobody reads their results.\<close>

fun drain_batch :: "orch_env \<Rightarrow> runner_config \<Rightarrow> (pipeline_task \<times> (orch_error + unit)) list \<Rightarrow> run_state \<Rightarrow> run_state" where
  "drain_batch env cfg [] s = s"
| "drain_batch env cfg ((t, r) # rest) s = drain_batch env cfg rest (if is_ok r then snd (finish_task env cfg t s) else s)"

fun run_batch ::
  "orch_env \<Rightarrow> runner_config \<Rightarrow> orchestration_plan \<Rightarrow> batch_step list \<Rightarrow>
   (pipeline_task \<times> (orch_error + unit)) list \<Rightarrow> run_state \<Rightarrow> (orch_error + unit) \<times> run_state"
where
  "run_batch env cfg plan [] running s = (Inr (), s)"
| "run_batch env cfg plan (Start t # steps) running s =
     (case start_task cfg plan t s of (r, s1) \<Rightarrow> run_batch env cfg plan steps (running @ [(t, r)]) s1)"
| "run_batch env cfg plan (Finish t # steps) running s =
     (case List.find (\<lambda>p. fst p = t) running of
        None \<Rightarrow> run_batch env cfg plan steps running s
      | Some (_, started) \<Rightarrow>
          (let rest = remove1 (t, started) running;
               (r, s1) = (case started of Inl e \<Rightarrow> (failed_task_result t e 1, s) | Inr _ \<Rightarrow> finish_task env cfg t s);
               s2 = apply_task_result env cfg plan t r s1
           in if tr_status r = RFailed \<and> pt_on_failure t = ''fail''
              then (Inl (run_failure plan t r), drain_batch env cfg rest s2)
              else run_batch env cfg plan steps rest s2))"

definition ready_batch :: "task_graph \<Rightarrow> pipeline_task list \<Rightarrow> run_state \<Rightarrow> pipeline_task list" where
  "ready_batch g ts s =
     (let ready = filter (\<lambda>i. i \<in> pt_id ` set ts \<and> status_of s i = TPending)
                    (ready_tasks g (ids_with TCompleted s) [])
      in filter (\<lambda>t. pt_id t \<in> set ready) ts)"

lemma status_frame [simp]:
  "es_status (rn_state (notify cfg ev plan s)) = es_status (rn_state s)"
  "es_status (rn_state (monitor_event cfg ev s)) = es_status (rn_state s)"
  "es_status (rn_state (write_checkpoint env cfg plan s)) = es_status (rn_state s)"
  "es_status (rn_state (set_status i st s)) = es_status (rn_state s)"
  "es_status (rn_state (mark_skipped cfg plan i s)) = es_status (rn_state s)"
  by (simp_all add: notify_def monitor_event_def write_checkpoint_def set_status_def mark_skipped_def)

lemma status_frame_apply [simp]:
  "es_status (rn_state (apply_task_result env cfg plan t r s)) = es_status (rn_state s)"
  by (cases "tr_status r"; cases "pt_rollback_action t"; simp add: apply_task_result_def Let_def)

text \<open>
  What the steps do to the status of the tasks and to the runs of the handlers; the rest of the
  record does not matter for the properties of a run.
\<close>

abbreviation runs :: "run_state \<Rightarrow> name list" where
  "runs s \<equiv> xw_runs (rn_world s)"

definition statuses_ok :: "run_state \<Rightarrow> bool" where
  "statuses_ok s \<longleftrightarrow> dict_ok (es_task_statuses (rn_state s))"

lemma status_of_set [simp]: "status_of (set_status i st s) j = (if j = i then st else status_of s j)"
  by (simp add: status_of_def set_status_def)

lemma status_of_notify [simp]: "status_of (notify cfg ev plan s) = status_of s"
  by (rule ext) (simp add: status_of_def notify_def)

lemma status_of_monitor [simp]: "status_of (monitor_event cfg ev s) = status_of s"
  by (rule ext) (simp add: status_of_def monitor_event_def)

lemma status_of_checkpoint [simp]: "status_of (write_checkpoint env cfg plan s) = status_of s"
  by (rule ext) (simp add: status_of_def write_checkpoint_def)

lemma status_of_simps [simp]:
  "status_of (s\<lparr>rn_metrics := m\<rparr>) = status_of s" "status_of (s\<lparr>rn_world := w\<rparr>) = status_of s"
  "status_of (s\<lparr>rn_task_index := k\<rparr>) = status_of s" "status_of (s\<lparr>rn_stage_index := k\<rparr>) = status_of s"
  "status_of (s\<lparr>rn_state := (rn_state s)\<lparr>es_current_task_id := c\<rparr>\<rparr>) = status_of s"
  "status_of (s\<lparr>rn_state := (rn_state s)\<lparr>es_current_stage_id := c\<rparr>\<rparr>) = status_of s"
  "status_of (s\<lparr>rn_state := (rn_state s)\<lparr>es_attempts := a\<rparr>\<rparr>) = status_of s"
  "status_of (s\<lparr>rn_state := (rn_state s)\<lparr>es_task_results := rs\<rparr>\<rparr>) = status_of s"
  "status_of (s\<lparr>rn_state := (rn_state s)\<lparr>es_task_errors := er\<rparr>\<rparr>) = status_of s"
  by (rule ext, simp add: status_of_def)+

lemma runs_checkpoint [simp]: "runs (write_checkpoint env cfg plan s) = runs s"
  by (simp add: write_checkpoint_def create_checkpoint_def enforce_cap_def Let_def)

lemma runs_notify [simp]: "runs (notify cfg ev plan s) = runs s"
  by (simp add: notify_def)

lemma runs_monitor [simp]: "runs (monitor_event cfg ev s) = runs s"
  by (simp add: monitor_event_def)

lemma runs_set_status [simp]: "runs (set_status i st s) = runs s"
  by (simp add: set_status_def)

lemma mark_skipped_effect [simp]:
  "status_of (mark_skipped cfg plan i s) j = (if j = i then TSkipped else status_of s j)"
  "runs (mark_skipped cfg plan i s) = runs s"
  by (simp_all add: mark_skipped_def)

lemma start_task_cases:
  assumes "start_task cfg plan t s = (r, s1)"
  shows "runs s1 = runs s" "r = Inr () \<longleftrightarrow> status_of s (pt_id t) \<in> {TPending, TReady}"
    "status_of s1 j = (if j = pt_id t \<and> r = Inr () then TRunning else status_of s j)"
    "es_status (rn_state s1) = es_status (rn_state s)"
proof -
  have "can_transition_task st TRunning \<longleftrightarrow> st \<in> {TPending, TReady}" for st
    by (cases st) (auto simp: can_transition_task_def)
  then have tr: "transition_task st TRunning =
      (if st \<in> {TPending, TReady} then Inr TRunning else Inl (InvalidTaskTransition st TRunning))" for st
    by (simp add: transition_task_def can_transition_task_def)
  show "runs s1 = runs s" "r = Inr () \<longleftrightarrow> status_of s (pt_id t) \<in> {TPending, TReady}"
    using assms by (auto simp: start_task_def tr Let_def split: if_splits)
  show "es_status (rn_state s1) = es_status (rn_state s)"
    using assms by (auto simp: start_task_def tr Let_def split: if_splits)
  show "status_of s1 j = (if j = pt_id t \<and> r = Inr () then TRunning else status_of s j)"
    using assms by (auto simp: start_task_def tr Let_def split: if_splits)
qed

lemma finish_task_cases:
  assumes "finish_task env cfg t s = (r, s1)"
  shows "status_of s1 = status_of s" "tr_status r \<in> {RCompleted, RFailed}" "rn_state s1 = rn_state s"
    "\<exists>k. runs s1 = runs s @ replicate k (pt_id t) \<and> (k = 0 \<longleftrightarrow> \<not> ready_executor (rc_executor cfg) t)"
  using assms execute_task_shape(2)[of "oe_outcomes env" "oe_jitter env" "rc_executor cfg" t "rn_world s"]
    execute_task_runs[of "oe_outcomes env" "oe_jitter env" "rc_executor cfg" t "rn_world s"]
  by (auto simp: finish_task_def split: prod.splits)

definition result_task_status :: "result_status \<Rightarrow> TaskStatus" where
  "result_task_status r = (case r of RCompleted \<Rightarrow> TCompleted | RFailed \<Rightarrow> TFailed | RSkipped \<Rightarrow> TSkipped)"

lemma apply_result_effect:
  "status_of (apply_task_result env cfg plan t r s) j =
     (if j = pt_id t then result_task_status (tr_status r) else status_of s j)"
  "runs (apply_task_result env cfg plan t r s) = runs s"
  by (cases "tr_status r"; cases "pt_rollback_action t";
      simp add: apply_task_result_def result_task_status_def Let_def register_handler_def)+

lemma finish_task_snd:
  "status_of (snd (finish_task env cfg t s)) = status_of s" "rn_state (snd (finish_task env cfg t s)) = rn_state s"
  "\<exists>k. runs (snd (finish_task env cfg t s)) = runs s @ replicate k (pt_id t)"
  using finish_task_cases[of env cfg t s "fst (finish_task env cfg t s)" "snd (finish_task env cfg t s)"] by auto

lemma drain_batch_state [simp]: "rn_state (drain_batch env cfg running s) = rn_state s"
  by (induction env cfg running s rule: drain_batch.induct) (simp_all add: finish_task_snd)

lemma drain_runs:
  "\<exists>rs. runs (drain_batch env cfg running s) = runs s @ rs \<and> set rs \<subseteq> {pt_id t | t r. (t, r) \<in> set running \<and> is_ok r}"
proof (induction env cfg running s rule: drain_batch.induct)
  case (2 env cfg t r rest s)
  let ?s1 = "if is_ok r then snd (finish_task env cfg t s) else s"
  obtain rs where rs: "runs (drain_batch env cfg rest ?s1) = runs ?s1 @ rs"
    "set rs \<subseteq> {pt_id t | t r. (t, r) \<in> set rest \<and> is_ok r}" using 2 by blast
  obtain k where k: "runs (snd (finish_task env cfg t s)) = runs s @ replicate k (pt_id t)"
    using finish_task_snd(3) by blast
  show ?case
  proof (cases "is_ok r")
    case True
    with rs k show ?thesis by (intro exI[of _ "replicate k (pt_id t) @ rs"]) auto
  next
    case False
    with rs(1) have "runs (drain_batch env cfg ((t, r) # rest) s) = runs s @ rs" by simp
    then show ?thesis using rs(2) by (intro exI[of _ rs]) (simp, blast)
  qed
qed simp

section \<open>The effect of a step\<close>

text \<open>
  What a step of a run, of any size, does: the handlers that run belong to tasks that were not
  started before, all dependencies of these are completed, and no dependency runs after them;
  completed, skipped and cancelled tasks stay what they are, a failed task at most becomes
  skipped, a running one too; a step that does not raise leaves no new failed task whose
  policy is to fail.
\<close>

fun dep_sorted :: "(name \<Rightarrow> name list) \<Rightarrow> name list \<Rightarrow> bool" where
  "dep_sorted deps [] = True"
| "dep_sorted deps (i # is) \<longleftrightarrow> set (deps i) \<inter> set is = {} \<and> dep_sorted deps is"

lemma dep_sorted_append:
  "dep_sorted deps (xs @ ys) \<longleftrightarrow> dep_sorted deps xs \<and> dep_sorted deps ys \<and> (\<forall>i \<in> set xs. set (deps i) \<inter> set ys = {})"
  by (induction xs) auto

lemma dep_sorted_independent:
  "(\<And>i. i \<in> set xs \<Longrightarrow> set (deps i) \<inter> set xs = {}) \<Longrightarrow> dep_sorted deps xs"
  by (induction xs) auto

abbreviation deps_done :: "task_graph \<Rightarrow> run_state \<Rightarrow> name \<Rightarrow> bool" where
  "deps_done g s i \<equiv> \<forall>d \<in> set (task_deps g i). status_of s d = TCompleted"

definition moved :: "TaskStatus \<Rightarrow> TaskStatus \<Rightarrow> bool" where
  "moved a b \<longleftrightarrow> a = b \<or> a \<in> {TPending, TReady} \<or> (a \<in> {TFailed, TRunning} \<and> b = TSkipped)"

definition effect :: "task_graph \<Rightarrow> pipeline_task list \<Rightarrow> run_state \<Rightarrow> (orch_error + unit) \<times> run_state \<Rightarrow> bool" where
  "effect g T s res \<longleftrightarrow>
     (case res of (r, s1) \<Rightarrow>
        statuses_ok s1 \<and> es_status (rn_state s1) = es_status (rn_state s) \<and>
        (\<exists>rs. runs s1 = runs s @ rs \<and> dep_sorted (task_deps g) rs \<and>
           (\<forall>i \<in> set rs. status_of s i \<in> {TPending, TReady} \<and> deps_done g s1 i \<and> status_of s1 i \<notin> {TPending, TReady})) \<and>
        (\<forall>i. moved (status_of s i) (status_of s1 i)) \<and>
        (\<forall>i. status_of s i \<in> {TPending, TReady} \<longrightarrow> status_of s1 i \<in> {TRunning, TCompleted, TFailed} \<longrightarrow> deps_done g s1 i) \<and>
        (is_ok r \<longrightarrow> (\<forall>t \<in> set T. status_of s1 (pt_id t) = TFailed \<longrightarrow>
           status_of s (pt_id t) = TFailed \<or> pt_on_failure t \<noteq> ''fail'')))"

lemma effectI:
  assumes "statuses_ok s1" "es_status (rn_state s1) = es_status (rn_state s)" "runs s1 = runs s @ rs" "dep_sorted (task_deps g) rs"
    and "\<And>i. i \<in> set rs \<Longrightarrow> status_of s i \<in> {TPending, TReady} \<and> deps_done g s1 i \<and> status_of s1 i \<notin> {TPending, TReady}"
    and "\<And>i. moved (status_of s i) (status_of s1 i)"
    and "\<And>i. status_of s i \<in> {TPending, TReady} \<Longrightarrow> status_of s1 i \<in> {TRunning, TCompleted, TFailed} \<Longrightarrow> deps_done g s1 i"
    and "\<And>t. is_ok r \<Longrightarrow> t \<in> set T \<Longrightarrow> status_of s1 (pt_id t) = TFailed \<Longrightarrow>
           status_of s (pt_id t) = TFailed \<or> pt_on_failure t \<noteq> ''fail''"
  shows "effect g T s (r, s1)"
  unfolding effect_def prod.case using assms by blast

lemma effectE:
  assumes "effect g T s (r, s1)"
  obtains rs where "statuses_ok s1" "es_status (rn_state s1) = es_status (rn_state s)" "runs s1 = runs s @ rs" "dep_sorted (task_deps g) rs"
    "\<And>i. i \<in> set rs \<Longrightarrow> status_of s i \<in> {TPending, TReady} \<and> deps_done g s1 i \<and> status_of s1 i \<notin> {TPending, TReady}"
    "\<And>i. moved (status_of s i) (status_of s1 i)"
    "\<And>i. status_of s i \<in> {TPending, TReady} \<Longrightarrow> status_of s1 i \<in> {TRunning, TCompleted, TFailed} \<Longrightarrow> deps_done g s1 i"
    "\<And>t. is_ok r \<Longrightarrow> t \<in> set T \<Longrightarrow> status_of s1 (pt_id t) = TFailed \<Longrightarrow>
           status_of s (pt_id t) = TFailed \<or> pt_on_failure t \<noteq> ''fail''"
  using assms unfolding effect_def prod.case by blast

lemma moved_trans: "moved a b \<Longrightarrow> moved b c \<Longrightarrow> moved a c"
  by (auto simp: moved_def)

lemma moved_completed: "moved TCompleted b \<Longrightarrow> b = TCompleted"
  by (simp add: moved_def)

lemma effect_refl: "statuses_ok s \<Longrightarrow> effect g T s (r, s)"
  by (rule effectI[of _ _ "[]"]) (auto simp: moved_def)

text \<open>Steps that change neither statuses nor runs do not matter.\<close>

definition same_view :: "run_state \<Rightarrow> run_state \<Rightarrow> bool" where
  "same_view s s1 \<longleftrightarrow> es_status (rn_state s1) = es_status (rn_state s) \<and> es_task_statuses (rn_state s1) = es_task_statuses (rn_state s) \<and> runs s1 = runs s"

lemma same_viewD:
  "same_view s s1 \<Longrightarrow> status_of s1 = status_of s" "same_view s s1 \<Longrightarrow> runs s1 = runs s"
  "same_view s s1 \<Longrightarrow> statuses_ok s1 = statuses_ok s"
  "same_view s s1 \<Longrightarrow> es_status (rn_state s1) = es_status (rn_state s)"
  by (auto simp: same_view_def status_of_def[abs_def] statuses_ok_def)

lemma effect_before:
  assumes "effect g T s1 (r, s2)" "same_view s s1"
  shows "effect g T s (r, s2)"
  using assms(1) unfolding effect_def prod.case same_viewD(1,2,4)[OF assms(2)] .

lemma effect_after:
  assumes "effect g T s (r, s1)" "same_view s1 s2"
  shows "effect g T s (r, s2)"
  using assms(1) unfolding effect_def prod.case same_viewD[OF assms(2)] .

lemma effect_weaken: "effect g T s (Inr (), s1) \<Longrightarrow> effect g T s (r, s1)"
proof (erule effectE)
  fix rs
  assume a: "statuses_ok s1" "es_status (rn_state s1) = es_status (rn_state s)" "runs s1 = runs s @ rs" "dep_sorted (task_deps g) rs"
    "\<And>i. i \<in> set rs \<Longrightarrow> status_of s i \<in> {TPending, TReady} \<and> deps_done g s1 i \<and> status_of s1 i \<notin> {TPending, TReady}"
    "\<And>i. moved (status_of s i) (status_of s1 i)"
    "\<And>i. status_of s i \<in> {TPending, TReady} \<Longrightarrow> status_of s1 i \<in> {TRunning, TCompleted, TFailed} \<Longrightarrow> deps_done g s1 i"
    "\<And>t. is_ok (Inr () :: orch_error + unit) \<Longrightarrow> t \<in> set T \<Longrightarrow> status_of s1 (pt_id t) = TFailed \<Longrightarrow>
           status_of s (pt_id t) = TFailed \<or> pt_on_failure t \<noteq> ''fail''"
  show ?thesis by (rule effectI[OF a(1-7)]) (use a(8) in simp_all)
qed

lemma effect_trans:
  assumes "effect g T s (Inr (), s1)" "effect g T s1 (r, s2)"
  shows "effect g T s (r, s2)"
proof -
  from assms(1) obtain rs where a: "statuses_ok s1" "es_status (rn_state s1) = es_status (rn_state s)" "runs s1 = runs s @ rs" "dep_sorted (task_deps g) rs"
    "\<And>i. i \<in> set rs \<Longrightarrow> status_of s i \<in> {TPending, TReady} \<and> deps_done g s1 i \<and> status_of s1 i \<notin> {TPending, TReady}"
    "\<And>i. moved (status_of s i) (status_of s1 i)"
    "\<And>i. status_of s i \<in> {TPending, TReady} \<Longrightarrow> status_of s1 i \<in> {TRunning, TCompleted, TFailed} \<Longrightarrow> deps_done g s1 i"
    "\<And>t. t \<in> set T \<Longrightarrow> status_of s1 (pt_id t) = TFailed \<Longrightarrow>
           status_of s (pt_id t) = TFailed \<or> pt_on_failure t \<noteq> ''fail''"
    by (rule effectE) auto
  from assms(2) obtain rs2 where b: "statuses_ok s2" "es_status (rn_state s2) = es_status (rn_state s1)" "runs s2 = runs s1 @ rs2" "dep_sorted (task_deps g) rs2"
    "\<And>i. i \<in> set rs2 \<Longrightarrow> status_of s1 i \<in> {TPending, TReady} \<and> deps_done g s2 i \<and> status_of s2 i \<notin> {TPending, TReady}"
    "\<And>i. moved (status_of s1 i) (status_of s2 i)"
    "\<And>i. status_of s1 i \<in> {TPending, TReady} \<Longrightarrow> status_of s2 i \<in> {TRunning, TCompleted, TFailed} \<Longrightarrow> deps_done g s2 i"
    "\<And>t. is_ok r \<Longrightarrow> t \<in> set T \<Longrightarrow> status_of s2 (pt_id t) = TFailed \<Longrightarrow>
           status_of s1 (pt_id t) = TFailed \<or> pt_on_failure t \<noteq> ''fail''"
    by (rule effectE) auto
  have keep: "status_of s1 i = TCompleted \<Longrightarrow> status_of s2 i = TCompleted" for i
    using b(6)[of i] moved_completed by metis
  have pend: "status_of s1 i \<in> {TPending, TReady} \<Longrightarrow> status_of s i \<in> {TPending, TReady}" for i
    using a(6)[of i] by (auto simp: moved_def)
  have started: "status_of s1 i \<notin> {TPending, TReady} \<Longrightarrow> status_of s2 i \<notin> {TPending, TReady}" for i
    using b(6)[of i] by (auto simp: moved_def)
  have "set (task_deps g i) \<inter> set rs2 = {}" if "i \<in> set rs" for i
    using a(5)[OF that] b(5) by fastforce
  then have 1: "dep_sorted (task_deps g) (rs @ rs2)" using a(4) b(4) by (simp add: dep_sorted_append)
  have 2: "status_of s i \<in> {TPending, TReady} \<and> deps_done g s2 i \<and> status_of s2 i \<notin> {TPending, TReady}"
    if "i \<in> set (rs @ rs2)" for i
    using that a(5)[of i] b(5)[of i] keep pend[of i] started[of i] by auto
  have 3: "deps_done g s2 i"
    if "status_of s i \<in> {TPending, TReady}" "status_of s2 i \<in> {TRunning, TCompleted, TFailed}" for i
  proof (cases "status_of s1 i \<in> {TPending, TReady}")
    case True
    with b(7) that(2) show ?thesis by blast
  next
    case False
    then have "status_of s1 i \<in> {TRunning, TCompleted, TFailed}"
      using b(6)[of i] that(2) by (auto simp: moved_def)
    with a(7) that(1) keep show ?thesis by blast
  qed
  have 4: "status_of s (pt_id t) = TFailed \<or> pt_on_failure t \<noteq> ''fail''"
    if "is_ok r" "t \<in> set T" "status_of s2 (pt_id t) = TFailed" for t
    using b(8)[OF that] a(8)[OF that(2)] by blast
  have 5: "runs s2 = runs s @ (rs @ rs2)" using a(3) b(3) by simp
  have 6: "es_status (rn_state s2) = es_status (rn_state s)" using a(2) b(2) by simp
  show ?thesis by (rule effectI[OF b(1) 6 5 1 2 moved_trans[OF a(6) b(6)] 3 4])
qed

section \<open>The effect of the operations\<close>

lemma statuses_dict [simp]:
  "es_task_statuses (rn_state (notify cfg ev plan s)) = es_task_statuses (rn_state s)"
  "es_task_statuses (rn_state (monitor_event cfg ev s)) = es_task_statuses (rn_state s)"
  "es_task_statuses (rn_state (write_checkpoint env cfg plan s)) = es_task_statuses (rn_state s)"
  "es_task_statuses (rn_state (set_status i st s)) = AList.update i st (es_task_statuses (rn_state s))"
  by (simp_all add: notify_def monitor_event_def write_checkpoint_def set_status_def)

lemma statuses_ok_simps [simp]:
  "statuses_ok s \<Longrightarrow> statuses_ok (mark_skipped cfg plan i s)"
  "statuses_ok s \<Longrightarrow> statuses_ok (snd (start_task cfg plan t s))"
  "statuses_ok s \<Longrightarrow> statuses_ok (snd (finish_task env cfg t s))"
  "statuses_ok s \<Longrightarrow> statuses_ok (apply_task_result env cfg plan t r s)"
     apply (simp add: statuses_ok_def mark_skipped_def)
    apply (simp add: statuses_ok_def start_task_def Let_def split: sum.split)
   apply (simp add: statuses_ok_def finish_task_snd)
  apply (cases "tr_status r"; cases "pt_rollback_action t";
      simp add: statuses_ok_def apply_task_result_def mark_skipped_def Let_def)
  done

lemma same_view_checkpoint [simp]: "same_view s (write_checkpoint env cfg plan s)"
  by (simp add: same_view_def)

lemma same_view_index [simp]:
  "same_view s (s\<lparr>rn_task_index := k\<rparr>)" "same_view s (s\<lparr>rn_stage_index := k\<rparr>)"
  "same_view s (s\<lparr>rn_state := (rn_state s)\<lparr>es_current_task_id := c\<rparr>\<rparr>)"
  by (simp_all add: same_view_def)

lemma ids_with_status: "statuses_ok s \<Longrightarrow> i \<in> set (ids_with st s) \<Longrightarrow> status_of s i = st"
  by (auto simp: ids_with_def statuses_ok_def status_of_def intro!: dget_Some)

lemma ready_deps_done:
  assumes "tg_inv g" "statuses_ok s" "i \<in> set (ready_tasks g (ids_with TCompleted s) fl)"
  shows "deps_done g s i"
proof -
  have "set (task_deps g i) \<subseteq> set (ids_with TCompleted s)"
    using assms(3) dep_satisfied_required[OF assms(1)] by (simp add: ready_tasks_def)
  then show ?thesis using ids_with_status[OF assms(2)] by blast
qed

lemma effect_skip:
  "statuses_ok s \<Longrightarrow> status_of s i \<notin> {TCompleted, TSkipped, TCancelled} \<Longrightarrow> effect g T s (r, mark_skipped cfg plan i s)"
  by (rule effectI[of _ _ "[]"]) (cases "status_of s i"; auto simp: moved_def split: if_splits)+

text \<open>One task from its start to its result.\<close>

lemma effect_task:
  assumes "statuses_ok s" "deps_done g s (pt_id t)" "distinct (map pt_id T)" "t \<in> set T"
    and "start_task cfg plan t s = (Inr u, s1)" "finish_task env cfg t s1 = (r, s2)"
    and "is_ok res \<Longrightarrow> \<not> (tr_status r = RFailed \<and> pt_on_failure t = ''fail'')"
  shows "effect g T s (res, apply_task_result env cfg plan t r s2)"
proof -
  note st = start_task_cases[OF assms(5)] and fi = finish_task_cases[OF assms(6)]
  let ?s3 = "apply_task_result env cfg plan t r s2"
  have pend: "status_of s (pt_id t) \<in> {TPending, TReady}" using st(2) by simp
  have status: "status_of ?s3 j = (if j = pt_id t then result_task_status (tr_status r) else status_of s j)" for j
    using st(3)[of j] fi(1) by (simp add: apply_result_effect)
  have res: "result_task_status (tr_status r) \<in> {TCompleted, TFailed}"
    using fi(2) by (auto simp: result_task_status_def)
  have self: "pt_id t \<notin> set (task_deps g (pt_id t))" using assms(2) pend by auto
  have dd: "deps_done g ?s3 i" if "deps_done g s i" "i = pt_id t \<or> pt_id t \<notin> set (task_deps g i)" for i
    using that self by (auto simp: status)
  obtain k where k: "runs s2 = runs s1 @ replicate k (pt_id t)" using fi(4) by blast
  show ?thesis
  proof (rule effectI[of _ _ "replicate k (pt_id t)"])
    show "statuses_ok ?s3" using assms(1,5,6) by (metis snd_conv statuses_ok_simps(2-4))
    show "es_status (rn_state ?s3) = es_status (rn_state s)" using st(4) fi(3) by simp
    show "runs ?s3 = runs s @ replicate k (pt_id t)" using k st(1) by (simp add: apply_result_effect)
    show "dep_sorted (task_deps g) (replicate k (pt_id t))"
      using self by (intro dep_sorted_independent) auto
    show "moved (status_of s i) (status_of ?s3 i)" for i using pend by (auto simp: status moved_def)
    show "status_of s i \<in> {TPending, TReady} \<and> deps_done g ?s3 i \<and> status_of ?s3 i \<notin> {TPending, TReady}"
      if "i \<in> set (replicate k (pt_id t))" for i
    proof -
      have "i = pt_id t" using that by simp
      with pend assms(2) dd[of i] res show ?thesis by (auto simp: status)
    qed
    show "deps_done g ?s3 i"
      if "status_of s i \<in> {TPending, TReady}" "status_of ?s3 i \<in> {TRunning, TCompleted, TFailed}" for i
    proof (cases "i = pt_id t")
      case True
      with assms(2) dd show ?thesis by blast
    next
      case False
      with that show ?thesis by (auto simp: status)
    qed
    show "status_of s (pt_id v) = TFailed \<or> pt_on_failure v \<noteq> ''fail''"
      if "is_ok res" "v \<in> set T" "status_of ?s3 (pt_id v) = TFailed" for v
    proof (cases "pt_id v = pt_id t")
      case True
      then have "v = t" using assms(3,4) that(2) by (metis distinct_map inj_onD)
      moreover have "tr_status r = RFailed"
        using that(3) True fi(2) by (auto simp: status result_task_status_def)
      ultimately show ?thesis using assms(7) that(1) by blast
    next
      case False
      with that(3) show ?thesis by (simp add: status)
    qed
  qed
qed

lemma exec_sequential_effect:
  "tg_inv g \<Longrightarrow> distinct (map pt_id T) \<Longrightarrow> set ts \<subseteq> set T \<Longrightarrow> statuses_ok s \<Longrightarrow>
   effect g T s (exec_sequential env cfg plan g k ts s)"
proof (induction env cfg plan g k ts s rule: exec_sequential.induct)
  case (1 env cfg plan g k s)
  then show ?case by (simp add: effect_refl)
next
  case (2 env cfg plan g k t ts s0)
  define s where "s = s0\<lparr>rn_task_index := k\<rparr>"
  have v0: "same_view s0 s" by (simp add: s_def)
  have ok: "statuses_ok s" using "2.prems"(4) same_viewD(3)[OF v0] by simp
  let ?run = "exec_sequential env cfg plan g"
  have unf: "?run k (t # ts) s0 =
     (if status_of s (pt_id t) \<in> {TCompleted, TSkipped, TCancelled} \<or> (status_of s (pt_id t) = TFailed \<and> pt_on_failure t = ''fail'')
         then ?run (k + 1) ts s
         else if pt_id t \<notin> set (ready_tasks g (ids_with TCompleted s) (ids_with TFailed s))
         then ?run (k + 1) ts (mark_skipped cfg plan (pt_id t) s)
         else case start_task cfg plan t (upd_state (\<lambda>e. e\<lparr>es_current_task_id := Some (pt_id t)\<rparr>) s) of
                (Inl e, s1) \<Rightarrow> (Inl e, s1)
              | (Inr _, s1) \<Rightarrow>
                  (case finish_task env cfg t s1 of
                     (r, s2) \<Rightarrow>
                       (let s3 = apply_task_result env cfg plan t r s2
                        in if tr_status r = RFailed \<and> pt_on_failure t = ''fail''
                           then (Inl (run_failure plan t r), write_checkpoint env cfg plan s3)
                           else ?run (k + 1) ts s3)))"
    by (simp add: s_def Let_def)
  consider
      (over) "status_of s (pt_id t) \<in> {TCompleted, TSkipped, TCancelled} \<or> (status_of s (pt_id t) = TFailed \<and> pt_on_failure t = ''fail'')"
    | (blocked) "\<not> (status_of s (pt_id t) \<in> {TCompleted, TSkipped, TCancelled} \<or> (status_of s (pt_id t) = TFailed \<and> pt_on_failure t = ''fail''))"
        "pt_id t \<notin> set (ready_tasks g (ids_with TCompleted s) (ids_with TFailed s))"
    | (ready) "\<not> (status_of s (pt_id t) \<in> {TCompleted, TSkipped, TCancelled} \<or> (status_of s (pt_id t) = TFailed \<and> pt_on_failure t = ''fail''))"
        "pt_id t \<in> set (ready_tasks g (ids_with TCompleted s) (ids_with TFailed s))" by blast
  then show ?case
  proof cases
    case over
    have "effect g T s (?run (k + 1) ts s)"
    proof (rule "2.IH"(1)[OF s_def refl over "2.prems"(1,2)])
      show "set ts \<subseteq> set T" using "2.prems"(3) by simp
    qed (rule ok)
    then have "effect g T s0 (?run (k + 1) ts s)" by (metis effect_before[OF _ v0] prod.collapse)
    moreover have "?run k (t # ts) s0 = ?run (k + 1) ts s"
      unfolding unf using over by (simp only: if_True)
    ultimately show ?thesis by simp
  next
    case blocked
    let ?s1 = "mark_skipped cfg plan (pt_id t) s"
    have "effect g T ?s1 (?run (k + 1) ts ?s1)"
      by (rule "2.IH"(2)[OF s_def refl blocked "2.prems"(1,2)]) (use "2.prems"(3) ok in simp_all)
    moreover have "effect g T s (Inr (), ?s1)" by (rule effect_skip[OF ok]) (use blocked(1) in blast)
    ultimately have "effect g T s (?run (k + 1) ts ?s1)" by (metis effect_trans prod.collapse)
    then have "effect g T s0 (?run (k + 1) ts ?s1)" by (metis effect_before[OF _ v0] prod.collapse)
    moreover have "?run k (t # ts) s0 = ?run (k + 1) ts ?s1"
      unfolding unf using blocked by (simp only: if_False not_False_eq_True if_True)
    ultimately show ?thesis by simp
  next
    case ready
    define sc where "sc = s\<lparr>rn_state := (rn_state s)\<lparr>es_current_task_id := Some (pt_id t)\<rparr>\<rparr>"
    have vc: "same_view s0 sc" by (simp add: sc_def s_def same_view_def)
    have okc: "statuses_ok sc" using "2.prems"(4) same_viewD(3)[OF vc] by simp
    have "deps_done g s (pt_id t)" by (rule ready_deps_done[OF "2.prems"(1) ok ready(2)])
    then have dc: "deps_done g sc (pt_id t)" by (simp add: sc_def)
    have eq: "?run k (t # ts) s0 =
        (case start_task cfg plan t sc of
           (Inl e, s1) \<Rightarrow> (Inl e, s1)
         | (Inr _, s1) \<Rightarrow>
             (case finish_task env cfg t s1 of
                (r, s2) \<Rightarrow>
                  (let s3 = apply_task_result env cfg plan t r s2
                   in if tr_status r = RFailed \<and> pt_on_failure t = ''fail''
                      then (Inl (run_failure plan t r), write_checkpoint env cfg plan s3)
                      else ?run (k + 1) ts s3)))"
      unfolding unf sc_def using ready by (simp only: if_False not_False_eq_True not_True_eq_False if_True)
    obtain u s1 where st: "start_task cfg plan t sc = (u, s1)" by (cases "start_task cfg plan t sc")
    show ?thesis
    proof (cases u)
      case (Inl e)
      have "status_of s1 = status_of sc" using start_task_cases(3)[OF st] Inl by (intro ext) simp
      moreover have "runs s1 = runs sc" by (rule start_task_cases(1)[OF st])
      moreover have "statuses_ok s1" using statuses_ok_simps(2)[OF okc, of cfg plan t] st by simp
      ultimately have "effect g T sc (Inl e, s1)"
        using start_task_cases(4)[OF st] by (intro effectI[of _ _ "[]"]) (auto simp: moved_def)
      then have "effect g T s0 (Inl e, s1)" by (rule effect_before[OF _ vc])
      then show ?thesis unfolding eq using st Inl by simp
    next
      case (Inr x)
      obtain r s2 where fi: "finish_task env cfg t s1 = (r, s2)" by (cases "finish_task env cfg t s1")
      let ?s3 = "apply_task_result env cfg plan t r s2" and ?fatal = "tr_status r = RFailed \<and> pt_on_failure t = ''fail''"
      have t: "t \<in> set T" using "2.prems"(3) by simp
      note task = effect_task[OF okc dc "2.prems"(2) t st[unfolded Inr] fi]
      have ok3: "statuses_ok ?s3" using okc st fi by (metis snd_conv statuses_ok_simps(2-4))
      show ?thesis
      proof (cases ?fatal)
        case True
        have "effect g T s0 (Inl (run_failure plan t r), write_checkpoint env cfg plan ?s3)"
          by (rule effect_before[OF effect_after[OF task same_view_checkpoint] vc]) simp
        then show ?thesis unfolding eq using st Inr fi True by simp
      next
        case False
        have "effect g T s0 (Inr (), ?s3)" by (rule effect_before[OF task vc]) (use False in simp)
        moreover have "effect g T ?s3 (?run (k + 1) ts ?s3)"
        proof (rule "2.IH"(3)[OF s_def refl ready(1) _ st[unfolded sc_def Inr, symmetric] refl fi[symmetric] refl False "2.prems"(1,2) _ ok3])
          show "\<not> pt_id t \<notin> set (ready_tasks g (ids_with TCompleted s) (ids_with TFailed s))" using ready(2) by blast
          show "set ts \<subseteq> set T" using "2.prems"(3) by simp
        qed
        ultimately have "effect g T s0 (?run (k + 1) ts ?s3)" by (metis effect_trans prod.collapse)
        then show ?thesis unfolding eq using st Inr fi by (simp add: Let_def if_not_P[OF False])
      qed
    qed
  qed
qed

section \<open>Batches\<close>

lemma schedule_steps:
  "Start t \<in> set (batch_schedule env n ts) \<longleftrightarrow> t \<in> set ts"
  "Finish t \<in> set (batch_schedule env n ts) \<longleftrightarrow> t \<in> set ts"
  by (auto simp: batch_schedule_def image_Un image_image)

lemma schedule_distinct: "distinct ts \<Longrightarrow> distinct (batch_schedule env n ts)"
proof -
  assume "distinct ts"
  let ?xs = "map (\<lambda>t. (oe_start env n (pt_id t), Start t)) ts @
        map (\<lambda>t. (oe_start env n (pt_id t) + oe_span env n (pt_id t), Finish t)) ts"
  have "mset (map snd (sort_key fst ?xs)) = mset (map snd ?xs)" by (simp only: mset_map mset_sort)
  then have "distinct (map snd (sort_key fst ?xs)) = distinct (map snd ?xs)" by (rule mset_eq_imp_distinct_iff)
  moreover have "map snd ?xs = map Start ts @ map Finish ts" by simp
  moreover have "distinct (map Start ts @ map Finish ts)"
    using \<open>distinct ts\<close> by (auto simp: distinct_map inj_on_def)
  ultimately show ?thesis unfolding batch_schedule_def by argo
qed

text \<open>After a batch that did not fail none of its tasks is pending, and no other one became so.\<close>

lemma batch_pending:
  "run_batch env cfg plan steps running s = (Inr u, s1) \<Longrightarrow> status_of s1 i = TPending \<Longrightarrow>
   status_of s i = TPending \<and> (\<forall>t. Start t \<in> set steps \<longrightarrow> pt_id t \<noteq> i)"
proof (induction env cfg plan steps running s rule: run_batch.induct)
  case (2 env cfg plan t steps running s)
  obtain r s2 where st: "start_task cfg plan t s = (r, s2)" by (cases "start_task cfg plan t s")
  have IH: "status_of s2 i = TPending \<and> (\<forall>t. Start t \<in> set steps \<longrightarrow> pt_id t \<noteq> i)"
    by (rule "2.IH"[OF st[symmetric]]) (use "2.prems" st in simp_all)
  have "status_of s i = TPending \<and> pt_id t \<noteq> i"
    using IH start_task_cases(2)[OF st] start_task_cases(3)[OF st, of i] by (auto split: if_splits)
  with IH show ?case by auto
next
  case (3 env cfg plan t steps running s)
  show ?case
  proof (cases "List.find (\<lambda>p. fst p = t) running")
    case None
    with 3 show ?thesis by simp
  next
    case (Some p)
    obtain v started where p: "p = (v, started)" by (cases p)
    obtain r s2 where fi: "(case started of Inl e \<Rightarrow> (failed_task_result t e 1, s) | Inr _ \<Rightarrow> finish_task env cfg t s) = (r, s2)"
      by (cases "case started of Inl e \<Rightarrow> (failed_task_result t e 1, s) | Inr _ \<Rightarrow> finish_task env cfg t s")
    have s2: "status_of s2 = status_of s"
      using fi by (cases started) (auto dest: finish_task_cases(1))
    let ?s3 = "apply_task_result env cfg plan t r s2"
    have nf: "\<not> (tr_status r = RFailed \<and> pt_on_failure t = ''fail'')"
    proof
      assume "tr_status r = RFailed \<and> pt_on_failure t = ''fail''"
      with "3.prems"(1) Some fi show False by (simp add: p Let_def)
    qed
    have e: "run_batch env cfg plan steps (remove1 (t, started) running) ?s3 = (Inr u, s1)"
      using "3.prems"(1) Some fi nf by (simp add: p Let_def split: if_splits)
    have "status_of ?s3 i = TPending \<and> (\<forall>t. Start t \<in> set steps \<longrightarrow> pt_id t \<noteq> i)"
      by (rule "3.IH"(2)[OF Some p[symmetric] refl refl fi[symmetric] refl nf e "3.prems"(2)])
    then show ?thesis using s2
      by (auto simp: apply_result_effect result_task_status_def split: if_splits result_status.splits)
  qed
qed simp

definition pending_count :: "pipeline_task list \<Rightarrow> run_state \<Rightarrow> nat" where
  "pending_count ts s = length (filter (\<lambda>t. status_of s (pt_id t) = TPending) ts)"

lemma ready_batch_pending:
  "t \<in> set (ready_batch g ts s) \<Longrightarrow> t \<in> set ts \<and> status_of s (pt_id t) = TPending \<and>
     pt_id t \<in> set (ready_tasks g (ids_with TCompleted s) [])"
  by (auto simp: ready_batch_def Let_def)

lemma batch_progress:
  assumes "run_batch env cfg plan (batch_schedule env n (ready_batch g ts s)) [] s2 = (Inr u, s1)"
    and "ready_batch g ts s \<noteq> []" "status_of s2 = status_of s"
  shows "pending_count ts s1 < pending_count ts s"
proof -
  obtain t where t: "t \<in> set (ready_batch g ts s)" using assms(2) by (meson list.set_sel(1))
  note pend = batch_pending[OF assms(1)]
  have "filter (\<lambda>t. status_of s1 (pt_id t) = TPending) ts =
      filter (\<lambda>t. status_of s1 (pt_id t) = TPending) (filter (\<lambda>t. status_of s (pt_id t) = TPending) ts)"
    using pend assms(3) by (auto simp: filter_filter intro!: filter_cong)
  moreover have "length (filter (\<lambda>t. status_of s1 (pt_id t) = TPending) (filter (\<lambda>t. status_of s (pt_id t) = TPending) ts)) <
      length (filter (\<lambda>t. status_of s (pt_id t) = TPending) ts)"
  proof (rule length_filter_less)
    show "t \<in> set (filter (\<lambda>t. status_of s (pt_id t) = TPending) ts)" using ready_batch_pending[OF t] by simp
    show "status_of s1 (pt_id t) \<noteq> TPending" using pend schedule_steps(1) t by blast
  qed
  ultimately show ?thesis by (simp add: pending_count_def)
qed

text \<open>\<^verbatim>\<open>_execute_parallel\<close>; a pool without workers cannot be made.\<close>

function parallel_loop ::
  "orch_env \<Rightarrow> runner_config \<Rightarrow> orchestration_plan \<Rightarrow> task_graph \<Rightarrow> pipeline_task list \<Rightarrow> run_state \<Rightarrow>
   (orch_error + unit) \<times> run_state"
where
  "parallel_loop env cfg plan g ts s =
     (if ready_batch g ts s = [] then (Inr (), s)
      else case run_batch env cfg plan (batch_schedule env (ow_tick (rn_world s)) (ready_batch g ts s)) []
                  (upd_world (\<lambda>w. w\<lparr>ow_tick := Suc (ow_tick w)\<rparr>) s) of
             (Inl e, s1) \<Rightarrow> (Inl e, s1)
           | (Inr _, s1) \<Rightarrow> parallel_loop env cfg plan g ts s1)"
  by pat_completeness auto

termination
proof (relation "measure (\<lambda>(env, cfg, plan, g, ts, s). pending_count ts s)", goal_cases)
  case (2 env cfg plan g ts s x s1 u)
  then show ?case using batch_progress[of env cfg plan "ow_tick (rn_world s)" g ts s] by auto
qed simp

declare parallel_loop.simps [simp del]

text \<open>
  The state of a batch over the state it started from: only its tasks changed status, handlers
  ran for started tasks only, the tasks in the threads are running and the ones still to
  start are pending.
\<close>

definition batch_start :: "task_graph \<Rightarrow> pipeline_task list \<Rightarrow> pipeline_task list \<Rightarrow> run_state \<Rightarrow> bool" where
  "batch_start g T B s0 \<longleftrightarrow> distinct (map pt_id T) \<and> set B \<subseteq> set T \<and> distinct B \<and>
     (\<forall>t \<in> set B. status_of s0 (pt_id t) = TPending \<and> deps_done g s0 (pt_id t))"

definition batch_frame :: "pipeline_task list \<Rightarrow> run_state \<Rightarrow> run_state \<Rightarrow> bool" where
  "batch_frame B s0 s \<longleftrightarrow> statuses_ok s \<and> es_status (rn_state s) = es_status (rn_state s0) \<and>
     (\<exists>rs. runs s = runs s0 @ rs \<and> set rs \<subseteq> pt_id ` set B \<and> (\<forall>i \<in> set rs. status_of s i \<notin> {TPending, TReady})) \<and>
     (\<forall>i. i \<notin> pt_id ` set B \<longrightarrow> status_of s i = status_of s0 i)"

definition batch_inv ::
  "pipeline_task list \<Rightarrow> run_state \<Rightarrow> batch_step list \<Rightarrow> (pipeline_task \<times> (orch_error + unit)) list \<Rightarrow> run_state \<Rightarrow> bool"
where
  "batch_inv B s0 steps running s \<longleftrightarrow>
     batch_frame B s0 s \<and>
     (\<forall>t \<in> set B. status_of s (pt_id t) = TFailed \<longrightarrow> pt_on_failure t \<noteq> ''fail'') \<and>
     distinct (map fst running) \<and> distinct steps \<and>
     (\<forall>(t, r) \<in> set running. t \<in> set B \<and> r = Inr () \<and> status_of s (pt_id t) = TRunning) \<and>
     (\<forall>t. Start t \<in> set steps \<longrightarrow> t \<in> set B \<and> status_of s (pt_id t) = TPending)"

lemma batch_ids: "batch_start g T B s0 \<Longrightarrow> t \<in> set B \<Longrightarrow> v \<in> set B \<Longrightarrow> pt_id t = pt_id v \<longleftrightarrow> t = v"
  by (auto simp: batch_start_def distinct_map dest: inj_onD)

lemma batch_frame_effect:
  assumes b: "batch_start g T B s0" and f: "batch_frame B s0 s"
    and nf: "is_ok r \<Longrightarrow> \<forall>t \<in> set B. status_of s (pt_id t) = TFailed \<longrightarrow> pt_on_failure t \<noteq> ''fail''"
  shows "effect g T s0 (r, s)"
proof -
  obtain rs where rs: "runs s = runs s0 @ rs" "set rs \<subseteq> pt_id ` set B"
    "\<And>i. i \<in> set rs \<Longrightarrow> status_of s i \<notin> {TPending, TReady}"
    using f by (auto simp: batch_frame_def)
  have same: "status_of s i = status_of s0 i" if "i \<notin> pt_id ` set B" for i
    using f that by (simp add: batch_frame_def)
  have pend: "status_of s0 i = TPending" "deps_done g s0 i" if "i \<in> pt_id ` set B" for i
    using b that by (auto simp: batch_start_def)
  have out: "d \<notin> pt_id ` set B" if "i \<in> pt_id ` set B" "d \<in> set (task_deps g i)" for i d
    using pend(2)[OF that(1)] pend(1)[of d] that(2) by auto
  have dd: "deps_done g s i" if "i \<in> pt_id ` set B" for i
    using pend(2)[OF that] out[OF that] same by auto
  show ?thesis
  proof (rule effectI[OF _ _ rs(1)])
    show "statuses_ok s" "es_status (rn_state s) = es_status (rn_state s0)" using f by (simp_all add: batch_frame_def)
    show "dep_sorted (task_deps g) rs"
    proof (rule dep_sorted_independent)
      fix i
      assume "i \<in> set rs"
      then have "i \<in> pt_id ` set B" using rs(2) by blast
      with out[OF this] rs(2) show "set (task_deps g i) \<inter> set rs = {}" by blast
    qed
    show "status_of s0 i \<in> {TPending, TReady} \<and> deps_done g s i \<and> status_of s i \<notin> {TPending, TReady}"
      if "i \<in> set rs" for i using that rs pend(1)[of i] dd[of i] by auto
    show "moved (status_of s0 i) (status_of s i)" for i
      by (cases "i \<in> pt_id ` set B") (simp_all add: moved_def same pend(1))
    show "deps_done g s i"
      if "status_of s0 i \<in> {TPending, TReady}" "status_of s i \<in> {TRunning, TCompleted, TFailed}" for i
    proof (cases "i \<in> pt_id ` set B")
      case False
      from that same[OF this] show ?thesis by auto
    qed (rule dd)
    show "status_of s0 (pt_id t) = TFailed \<or> pt_on_failure t \<noteq> ''fail''"
      if a: "is_ok r" "t \<in> set T" "status_of s (pt_id t) = TFailed" for t
    proof (cases "pt_id t \<in> pt_id ` set B")
      case True
      then obtain v where v: "v \<in> set B" "pt_id v = pt_id t" by auto
      then have "v = t" using b a(2) by (auto simp: batch_start_def distinct_map dest: inj_onD)
      with nf[OF a(1)] v a(3) show ?thesis by blast
    next
      case False
      with same a(3) show ?thesis by simp
    qed
  qed
qed

lemma batch_frame_drain:
  assumes "batch_frame B s0 s" "\<forall>(t, r) \<in> set running. t \<in> set B \<and> status_of s (pt_id t) = TRunning"
  shows "batch_frame B s0 (drain_batch env cfg running s)"
proof -
  obtain rs where rs: "runs (drain_batch env cfg running s) = runs s @ rs"
    "set rs \<subseteq> {pt_id t | t r. (t, r) \<in> set running \<and> is_ok r}" using drain_runs by blast
  have st: "status_of (drain_batch env cfg running s) = status_of s" by (rule ext) (simp add: status_of_def)
  have "\<forall>i \<in> set rs. i \<in> pt_id ` set B \<and> status_of s i = TRunning" using rs(2) assms(2) by fastforce
  moreover obtain rs0 where "runs s = runs s0 @ rs0" "set rs0 \<subseteq> pt_id ` set B"
    "\<forall>i \<in> set rs0. status_of s i \<notin> {TPending, TReady}" using assms(1) by (auto simp: batch_frame_def)
  ultimately have "\<exists>rs. runs (drain_batch env cfg running s) = runs s0 @ rs \<and> set rs \<subseteq> pt_id ` set B \<and>
      (\<forall>i \<in> set rs. status_of s i \<notin> {TPending, TReady})"
    using rs(1) by (intro exI[of _ "rs0 @ rs"]) auto
  then show ?thesis using assms(1) by (simp add: batch_frame_def st statuses_ok_def)
qed

text \<open>A change of one task of the batch.\<close>

lemma batch_frame_step:
  assumes "batch_frame B s0 s" "t \<in> set B" "statuses_ok s1" "es_status (rn_state s1) = es_status (rn_state s)"
    and "\<And>j. status_of s1 j = (if j = pt_id t then st else status_of s j)" "st \<notin> {TPending, TReady}"
    and "runs s1 = runs s @ replicate k (pt_id t)"
  shows "batch_frame B s0 s1"
proof -
  obtain rs0 where "runs s = runs s0 @ rs0" "set rs0 \<subseteq> pt_id ` set B"
    "\<forall>i \<in> set rs0. status_of s i \<notin> {TPending, TReady}" using assms(1) by (auto simp: batch_frame_def)
  then have "\<exists>rs. runs s1 = runs s0 @ rs \<and> set rs \<subseteq> pt_id ` set B \<and> (\<forall>i \<in> set rs. status_of s1 i \<notin> {TPending, TReady})"
    using assms(2,5-7) by (intro exI[of _ "rs0 @ replicate k (pt_id t)"]) auto
  then show ?thesis using assms(1-5) by (auto simp: batch_frame_def)
qed

lemma batch_inv_start:
  assumes b: "batch_start g T B s0" and inv: "batch_inv B s0 (Start t # steps) running s"
    and st: "start_task cfg plan t s = (r, s1)"
  shows "batch_inv B s0 steps (running @ [(t, r)]) s1"
proof -
  have t: "t \<in> set B" "status_of s (pt_id t) = TPending" "Start t \<notin> set steps"
    using inv by (auto simp: batch_inv_def)
  have run: "\<forall>(v, r) \<in> set running. v \<in> set B \<and> r = Inr () \<and> status_of s (pt_id v) = TRunning"
    using inv by (simp add: batch_inv_def)
  have notin: "t \<notin> fst ` set running" using run t(2) by auto
  have r: "r = Inr ()" using start_task_cases(2)[OF st] t(2) by simp
  have s1: "status_of s1 j = (if j = pt_id t then TRunning else status_of s j)" for j
    using start_task_cases(3)[OF st] r by simp
  have fr: "batch_frame B s0 s" using inv by (simp add: batch_inv_def)
  have "statuses_ok s1" using fr st by (metis batch_frame_def snd_conv statuses_ok_simps(2))
  then have "batch_frame B s0 s1"
    by (rule batch_frame_step[OF fr t(1) _ start_task_cases(4)[OF st] s1, where k = 0]) (simp_all add: start_task_cases(1)[OF st])
  moreover have "\<forall>v \<in> set B. status_of s1 (pt_id v) = TFailed \<longrightarrow> pt_on_failure v \<noteq> ''fail''"
    using inv by (auto simp: batch_inv_def s1)
  moreover have "\<forall>(v, r) \<in> set (running @ [(t, r)]). v \<in> set B \<and> r = Inr () \<and> status_of s1 (pt_id v) = TRunning"
    using run r t(1) by (auto simp: s1)
  moreover have "\<forall>v. Start v \<in> set steps \<longrightarrow> v \<in> set B \<and> status_of s1 (pt_id v) = TPending"
  proof (intro allI impI)
    fix v
    assume v: "Start v \<in> set steps"
    then have vB: "v \<in> set B" "status_of s (pt_id v) = TPending" using inv by (simp_all add: batch_inv_def)
    moreover have "v \<noteq> t" using v t(3) by blast
    ultimately show "v \<in> set B \<and> status_of s1 (pt_id v) = TPending"
      using batch_ids[OF b vB(1) t(1)] by (simp add: s1)
  qed
  ultimately show ?thesis using inv notin unfolding batch_inv_def by simp
qed

lemma batch_inv_finish:
  assumes b: "batch_start g T B s0" and inv: "batch_inv B s0 (Finish t # steps) running s"
    and t: "(t, Inr ()) \<in> set running" and fi: "finish_task env cfg t s = (r, s1)"
    and s2_def: "s2 = apply_task_result env cfg plan t r s1"
  shows "batch_frame B s0 s2"
    and "\<forall>(v, q) \<in> set (remove1 (t, Inr ()) running). v \<in> set B \<and> q = Inr () \<and> status_of s2 (pt_id v) = TRunning"
    and "\<not> (tr_status r = RFailed \<and> pt_on_failure t = ''fail'') \<Longrightarrow>
      batch_inv B s0 steps (remove1 (t, Inr ()) running) s2"
proof -
  have run: "\<forall>(v, r) \<in> set running. v \<in> set B \<and> r = Inr () \<and> status_of s (pt_id v) = TRunning"
    and dis: "distinct (map fst running)"
    using inv by (simp_all add: batch_inv_def)
  have tB: "t \<in> set B" and tr: "status_of s (pt_id t) = TRunning" using run t by auto
  note f = finish_task_cases[OF fi]
  have s2: "status_of s2 j = (if j = pt_id t then result_task_status (tr_status r) else status_of s j)" for j
    by (simp add: s2_def apply_result_effect f(1))
  have fr: "batch_frame B s0 s" using inv by (simp add: batch_inv_def)
  obtain k where k: "runs s1 = runs s @ replicate k (pt_id t)" using f(4) by blast
  have "statuses_ok s1" using fr fi by (metis batch_frame_def snd_conv statuses_ok_simps(3))
  then have "statuses_ok s2" by (simp add: s2_def)
  then show frame: "batch_frame B s0 s2"
    by (rule batch_frame_step[OF fr tB _ _ s2, where k = k])
      (use f(2,3) k in \<open>auto simp: s2_def apply_result_effect result_task_status_def\<close>)
  have rest: "v \<noteq> t" if "(v, q) \<in> set (remove1 (t, Inr ()) running)" for v q
  proof
    assume "v = t"
    have "distinct running" using dis by (simp add: distinct_map)
    then have "(v, q) \<in> set running" "(v, q) \<noteq> (t, Inr ())" using that by auto
    moreover have "q = Inr ()" using run calculation(1) by auto
    ultimately show False using \<open>v = t\<close> by simp
  qed
  show rn: "\<forall>(v, q) \<in> set (remove1 (t, Inr ()) running). v \<in> set B \<and> q = Inr () \<and> status_of s2 (pt_id v) = TRunning"
  proof (rule ballI)
    fix p
    assume p: "p \<in> set (remove1 (t, Inr ()) running)"
    obtain v q where vq: "p = (v, q)" by (cases p)
    have "(v, q) \<in> set running" using p vq set_remove1_subset by fastforce
    then have v: "v \<in> set B" "q = Inr ()" "status_of s (pt_id v) = TRunning" using run by auto
    have "v \<noteq> t" by (rule rest) (use p vq in simp)
    then have "pt_id v \<noteq> pt_id t" using batch_ids[OF b v(1) tB] by blast
    with v show "case p of (v, q) \<Rightarrow> v \<in> set B \<and> q = Inr () \<and> status_of s2 (pt_id v) = TRunning"
      by (simp add: vq s2)
  qed
  assume nf: "\<not> (tr_status r = RFailed \<and> pt_on_failure t = ''fail'')"
  have "\<forall>v \<in> set B. status_of s2 (pt_id v) = TFailed \<longrightarrow> pt_on_failure v \<noteq> ''fail''"
  proof (intro ballI impI)
    fix v
    assume v: "v \<in> set B" "status_of s2 (pt_id v) = TFailed"
    show "pt_on_failure v \<noteq> ''fail''"
    proof (cases "v = t")
      case True
      with v(2) nf f(2) show ?thesis by (auto simp: s2 result_task_status_def)
    next
      case False
      then have "status_of s (pt_id v) = TFailed" using v batch_ids[OF b v(1) tB] by (simp add: s2)
      with inv v(1) show ?thesis by (simp add: batch_inv_def)
    qed
  qed
  moreover have "\<forall>v. Start v \<in> set steps \<longrightarrow> v \<in> set B \<and> status_of s2 (pt_id v) = TPending"
  proof (intro allI impI)
    fix v
    assume "Start v \<in> set steps"
    then have "v \<in> set B" "status_of s (pt_id v) = TPending" using inv by (simp_all add: batch_inv_def)
    with tr show "v \<in> set B \<and> status_of s2 (pt_id v) = TPending" by (auto simp: s2)
  qed
  moreover have "distinct (map fst (remove1 (t, Inr ()) running))" using dis by (auto simp: distinct_map intro: inj_on_diff)
  ultimately show "batch_inv B s0 steps (remove1 (t, Inr ()) running) s2"
    using inv frame rn unfolding batch_inv_def by simp
qed

lemma run_batch_effect:
  "batch_start g T B s0 \<Longrightarrow> batch_inv B s0 steps running s \<Longrightarrow> effect g T s0 (run_batch env cfg plan steps running s)"
proof (induction env cfg plan steps running s rule: run_batch.induct)
  case (1 env cfg plan running s)
  show ?case
    using batch_frame_effect[OF "1.prems"(1), of s "Inr ()"] "1.prems"(2) by (simp add: batch_inv_def)
next
  case (2 env cfg plan t steps running s)
  obtain r s1 where st: "start_task cfg plan t s = (r, s1)" by (cases "start_task cfg plan t s")
  from "2.IH"[OF st[symmetric] "2.prems"(1) batch_inv_start[OF "2.prems" st]] st show ?case by simp
next
  case (3 env cfg plan t steps running s)
  show ?case
  proof (cases "List.find (\<lambda>p. fst p = t) running")
    case None
    moreover have "batch_inv B s0 steps running s" using "3.prems"(2) by (simp add: batch_inv_def)
    ultimately show ?thesis using "3.IH"(1) "3.prems"(1) by simp
  next
    case (Some p)
    have "p \<in> set running" "fst p = t" using find_in_set[OF Some] by auto
    then have "snd p = Inr ()" using "3.prems"(2) by (auto simp: batch_inv_def)
    with \<open>fst p = t\<close> have p: "p = (t, Inr ())" by (cases p) simp
    then have t: "(t, Inr ()) \<in> set running" using \<open>p \<in> set running\<close> by simp
    obtain r s1 where fi: "finish_task env cfg t s = (r, s1)" by (cases "finish_task env cfg t s")
    let ?s2 = "apply_task_result env cfg plan t r s1" and ?rest = "remove1 (t, Inr ()) running"
    note fin = batch_inv_finish[OF "3.prems" t fi refl, where plan = plan]
    show ?thesis
    proof (cases "tr_status r = RFailed \<and> pt_on_failure t = ''fail''")
      case True
      have "batch_frame B s0 (drain_batch env cfg ?rest ?s2)"
        by (rule batch_frame_drain[OF fin(1)]) (use fin(2) in auto)
      from batch_frame_effect[OF "3.prems"(1) this, of "Inl (run_failure plan t r)"]
      have "effect g T s0 (Inl (run_failure plan t r), drain_batch env cfg ?rest ?s2)" by simp
      then show ?thesis using Some fi by (simp add: p Let_def if_P[OF True])
    next
      case False
      have "effect g T s0 (run_batch env cfg plan steps ?rest ?s2)"
        by (rule "3.IH"(2)[OF Some p[symmetric] refl refl _ refl False "3.prems"(1) fin(3)[OF False]]) (simp add: fi)
      then show ?thesis using Some fi by (simp add: p Let_def if_not_P[OF False])
    qed
  qed
qed

lemma parallel_loop_effect:
  "tg_inv g \<Longrightarrow> distinct (map pt_id T) \<Longrightarrow> set ts \<subseteq> set T \<Longrightarrow> distinct ts \<Longrightarrow> statuses_ok s \<Longrightarrow>
   effect g T s (parallel_loop env cfg plan g ts s)"
proof (induction env cfg plan g ts s rule: parallel_loop.induct)
  case (1 env cfg plan g ts s)
  show ?case
  proof (cases "ready_batch g ts s = []")
    case True
    then show ?thesis using effect_refl[OF "1.prems"(5)] by (simp add: parallel_loop.simps)
  next
    case False
    let ?B = "ready_batch g ts s" and ?s = "s\<lparr>rn_world := (rn_world s)\<lparr>ow_tick := Suc (ow_tick (rn_world s))\<rparr>\<rparr>"
    let ?steps = "batch_schedule env (ow_tick (rn_world s)) ?B"
    have v: "same_view s ?s" by (simp add: same_view_def)
    have "distinct ?B" using "1.prems"(4) by (simp add: ready_batch_def)
    moreover have "status_of s (pt_id t) = TPending \<and> deps_done g s (pt_id t)" if "t \<in> set ?B" for t
      using ready_batch_pending[OF that] ready_deps_done[OF "1.prems"(1,5)] by blast
    ultimately have b: "batch_start g T ?B ?s"
      using "1.prems"(2,3) ready_batch_pending by (fastforce simp: batch_start_def)
    have "batch_frame ?B ?s ?s" using "1.prems"(5) by (auto simp: batch_frame_def statuses_ok_def)
    moreover have "\<forall>t \<in> set ?B. status_of ?s (pt_id t) = TPending" using b by (simp add: batch_start_def)
    ultimately have "batch_inv ?B ?s ?steps [] ?s"
      using schedule_distinct[OF \<open>distinct ?B\<close>] by (auto simp: batch_inv_def schedule_steps)
    from run_batch_effect[OF b this] have e: "effect g T ?s (run_batch env cfg plan ?steps [] ?s)" .
    obtain r s1 where r: "run_batch env cfg plan ?steps [] ?s = (r, s1)" by (cases "run_batch env cfg plan ?steps [] ?s")
    have e1: "effect g T s (r, s1)" by (rule effect_before[OF _ v]) (use e r in simp)
    show ?thesis
    proof (cases r)
      case (Inl x)
      then show ?thesis using False r e1 by (subst parallel_loop.simps) simp
    next
      case (Inr u)
      have "statuses_ok s1" using e1 by (auto elim: effectE)
      then have "effect g T s1 (parallel_loop env cfg plan g ts s1)"
        using "1.IH"[OF False, of r s1 u] r Inr "1.prems" by simp
      moreover have "effect g T s (Inr (), s1)" using e1 Inr by simp
      ultimately have "effect g T s (parallel_loop env cfg plan g ts s1)" by (metis effect_trans prod.collapse)
      then show ?thesis using False r Inr by (subst parallel_loop.simps) simp
    qed
  qed
qed

end
