(* ===== verification/PipelineRun.thy ===== *)
theory PipelineRun
  imports PipelineBatch
begin

text \<open>
  Stages and whole runs of the pipeline runner (\<^verbatim>\<open>PipelineRunner.run\<close> and
  \<^verbatim>\<open>_execute_stage\<close> of \<^verbatim>\<open>orchestration/pipeline.py\<close>), what a run does to the statuses of the
  tasks and to the record of their executions, and what a run resumed from a checkpoint leaves
  undone.
\<close>

section \<open>Runs\<close>

text \<open>
  \<^verbatim>\<open>DependencyGraph(plan.pipeline, config)\<close> of a stage.  The search of the graph always ends, so
  the first case does not occur.
\<close>

definition stage_graph :: "runner_config \<Rightarrow> orchestration_plan \<Rightarrow> orch_error + task_graph" where
  "stage_graph cfg plan =
     (case new_dependency_graph (rc_deps cfg) (op_pipeline plan) of
        None \<Rightarrow> Inl (DependencyError ''search'' [])
      | Some r \<Rightarrow> r)"

fun skip_pending :: "runner_config \<Rightarrow> orchestration_plan \<Rightarrow> pipeline_task list \<Rightarrow> run_state \<Rightarrow> run_state" where
  "skip_pending cfg plan [] s = s"
| "skip_pending cfg plan (t # ts) s =
     skip_pending cfg plan ts (if status_of s (pt_id t) = TPending then mark_skipped cfg plan (pt_id t) s else s)"

definition exec_stage ::
  "orch_env \<Rightarrow> runner_config \<Rightarrow> orchestration_plan \<Rightarrow> pipeline_stage \<Rightarrow> run_state \<Rightarrow> (orch_error + unit) \<times> run_state" where
  "exec_stage env cfg plan stage s =
     (case stage_graph cfg plan of
        Inl e \<Rightarrow> (Inl e, s)
      | Inr g \<Rightarrow>
          if ps_condition stage \<noteq> None \<and> ps_condition stage \<noteq> Some [] \<and>
             \<not> evaluate_condition (ps_condition stage) (es_task_results (rn_state s))
          then (Inr (), skip_pending cfg plan (ps_tasks stage) s)
          else if ps_mode stage = PARALLEL
          then (if min (rc_max_workers cfg) (dc_max_parallel_tasks (rc_deps cfg)) \<le> 0
                then (Inl (OtherError ''ValueError'' ''max_workers must be greater than 0''), s)
                else parallel_loop env cfg plan g (ps_tasks stage) s)
          else exec_sequential env cfg plan g 0 (ps_tasks stage) s)"

text \<open>\<^verbatim>\<open>_utcnow()\<close> into a field of the state.\<close>

definition stamp :: "orch_env \<Rightarrow> (time \<Rightarrow> execution_state \<Rightarrow> execution_state) \<Rightarrow> run_state \<Rightarrow> run_state" where
  "stamp env f s =
     s\<lparr>rn_state := f (oe_time env (ow_tick (rn_world s))) (rn_state s),
       rn_world := (rn_world s)\<lparr>ow_tick := Suc (ow_tick (rn_world s))\<rparr>\<rparr>"

fun run_stages ::
  "orch_env \<Rightarrow> runner_config \<Rightarrow> orchestration_plan \<Rightarrow> nat \<Rightarrow> pipeline_stage list \<Rightarrow> run_state \<Rightarrow>
   (orch_error + unit) \<times> run_state"
where
  "run_stages env cfg plan index [] s = (Inr (), s)"
| "run_stages env cfg plan index (stage # stages) s =
     (case exec_stage env cfg plan stage
             (stamp env (\<lambda>now e. e\<lparr>es_current_stage_id := Some (ps_id stage), es_updated_at := now\<rparr>) s) of
        (Inl e, s1) \<Rightarrow> (Inl e, s1)
      | (Inr _, s1) \<Rightarrow>
          (let s2 = s1\<lparr>rn_stage_index := index + 1\<rparr>
           in run_stages env cfg plan (index + 1) stages
                (if rc_ck_on_stage cfg then write_checkpoint env cfg plan s2 else s2)))"

definition fail_run :: "orch_env \<Rightarrow> orch_error \<Rightarrow> run_state \<Rightarrow> (orch_error + unit) \<times> run_state" where
  "fail_run env e s =
     (case transition_pipeline (es_status (rn_state s)) PFailed of
        Inl _ \<Rightarrow> (Inl (OtherError ''ValueError'' ''Invalid pipeline transition''), s)
      | Inr st \<Rightarrow>
          (Inr (), stamp env (\<lambda>now x. x\<lparr>es_status := st,
                es_error := Some (case e of PipelineExecutionError _ _ _ \<Rightarrow> error_text e | _ \<Rightarrow> full_error_text e),
                es_completed_at := Some now, es_updated_at := now\<rparr>) s))"

definition complete_run :: "orch_env \<Rightarrow> run_state \<Rightarrow> (orch_error + unit) \<times> run_state" where
  "complete_run env s =
     (let s1 = upd_state (\<lambda>e. e\<lparr>es_current_stage_id := None, es_current_task_id := None\<rparr>) s
      in case transition_pipeline (es_status (rn_state s1)) PCompleted of
           Inl _ \<Rightarrow> fail_run env (OtherError ''ValueError'' ''Invalid pipeline transition'') s1
         | Inr st \<Rightarrow>
             (Inr (), stamp env (\<lambda>now e. e\<lparr>es_status := st, es_completed_at := Some now, es_updated_at := now\<rparr>) s1))"

text \<open>The state a run starts from: a copy of the checkpoint's, or a new one.\<close>

definition initial_state :: "orchestration_plan \<Rightarrow> checkpoint option \<Rightarrow> time \<Rightarrow> orch_error + execution_state" where
  "initial_state plan ck now =
     (case ck of
        Some c \<Rightarrow>
          if es_status (ck_state c) = PRunning then Inr (ck_state c)
          else (case transition_pipeline (es_status (ck_state c)) PRunning of
                  Inl _ \<Rightarrow> Inl (OtherError ''ValueError'' ''Invalid pipeline transition'')
                | Inr st \<Rightarrow> Inr ((ck_state c)\<lparr>es_status := st\<rparr>))
      | None \<Rightarrow>
          Inr \<lparr>es_pipeline_id = pl_id (op_pipeline plan), es_plan_id = op_id plan, es_status = PRunning,
               es_current_stage_id = None, es_current_task_id = None,
               es_task_statuses = fold (\<lambda>t. AList.update (pt_id t) TPending) (all_tasks (op_pipeline plan)) [],
               es_task_results = [], es_task_errors = [], es_attempts = [], es_started_at = Some now,
               es_completed_at = None, es_error = None, es_recovered_from = None, es_updated_at = now,
               es_events = [], es_recovery_attempts = None\<rparr>)"

definition run_pipeline ::
  "orch_env \<Rightarrow> runner_config \<Rightarrow> orchestration_plan \<Rightarrow> checkpoint option \<Rightarrow> orch_world \<Rightarrow>
   (orch_error + execution_state \<times> execution_metrics) \<times> orch_world"
where
  "run_pipeline env cfg plan ck w =
     (case initial_state plan ck (oe_time env (ow_tick w)) of
        Inl e \<Rightarrow> (Inl e, w)
      | Inr st \<Rightarrow>
          (let index = (case ck of None \<Rightarrow> 0 | Some c \<Rightarrow> ck_stage_index c);
               s0 = \<lparr>rn_state = st,
                     rn_metrics = new_metrics\<lparr>em_started_at := es_started_at st,
                                              em_tasks_total := int (length (all_tasks (op_pipeline plan)))\<rparr>,
                     rn_world = w\<lparr>ow_tick := Suc (ow_tick w)\<rparr>, rn_stage_index = index, rn_task_index = ow_task_index w\<rparr>;
               s1 = notify cfg ''pipeline.started'' plan (monitor_event cfg ''pipeline.started'' s0);
               (r2, s2) = run_stages env cfg plan index (drop index (pl_stages (op_pipeline plan))) s1;
               (r3, s3) = (case r2 of Inr _ \<Rightarrow> complete_run env s2 | Inl e \<Rightarrow> fail_run env e s2)
           in case r3 of
                Inl e \<Rightarrow> (Inl e, (rn_world s3)\<lparr>ow_task_index := rn_task_index s3\<rparr>)
              | Inr _ \<Rightarrow>
                  (let s4 = upd_metrics (\<lambda>m. m\<lparr>em_completed_at := es_completed_at (rn_state s3)\<rparr>) s3;
                       s5 = monitor_event cfg ''pipeline.completed'' s4;
                       s6 = (if rc_monitor cfg
                             then upd_world (\<lambda>w. w\<lparr>ow_totals := merge_metrics (rn_metrics s5) (ow_totals w)\<rparr>) s5 else s5);
                       s7 = (case es_status (rn_state s6) of
                               PCompleted \<Rightarrow> notify cfg ''pipeline.completed'' plan s6
                             | PFailed \<Rightarrow> notify cfg ''pipeline.failed'' plan s6
                             | _ \<Rightarrow> s6)
                   in (Inr (rn_state s7, rn_metrics s7), (rn_world s7)\<lparr>ow_task_index := rn_task_index s7\<rparr>))))"

section \<open>The effect of a run\<close>

lemma skip_pending_effect: "statuses_ok s \<Longrightarrow> effect g T s (Inr (), skip_pending cfg plan ts s)"
proof (induction cfg plan ts s rule: skip_pending.induct)
  case (1 cfg plan s)
  then show ?case by (simp add: effect_refl)
next
  case (2 cfg plan t ts s)
  let ?s1 = "if status_of s (pt_id t) = TPending then mark_skipped cfg plan (pt_id t) s else s"
  have "effect g T s (Inr (), ?s1)" using 2(2) by (auto intro!: effect_skip effect_refl)
  moreover have "effect g T ?s1 (Inr (), skip_pending cfg plan ts ?s1)" by (rule 2(1)) (use 2(2) in simp)
  ultimately have "effect g T s (Inr (), skip_pending cfg plan ts ?s1)" by (rule effect_trans)
  then show ?case by simp
qed

lemma stage_graph_inv: "stage_graph cfg plan = Inr g \<Longrightarrow> tg_inv g"
  using accepted_graph(1)[of "rc_deps cfg" "op_pipeline plan" g]
  by (auto simp: stage_graph_def split: option.splits)

lemma exec_stage_effect:
  assumes "stage_graph cfg plan = Inr g" "distinct (map pt_id T)" "set (ps_tasks stage) \<subseteq> set T"
    and "distinct (ps_tasks stage)" "statuses_ok s"
  shows "effect g T s (exec_stage env cfg plan stage s)"
proof -
  note inv = stage_graph_inv[OF assms(1)]
  let ?skip = "ps_condition stage \<noteq> None \<and> ps_condition stage \<noteq> Some [] \<and>
             \<not> evaluate_condition (ps_condition stage) (es_task_results (rn_state s))"
  show ?thesis
  proof (cases ?skip)
    case True
    then show ?thesis using skip_pending_effect[OF assms(5)] assms(1) by (simp add: exec_stage_def)
  next
    case False
    have "effect g T s (exec_sequential env cfg plan g 0 (ps_tasks stage) s)"
      by (rule exec_sequential_effect[OF inv assms(2,3,5)])
    moreover have "effect g T s (parallel_loop env cfg plan g (ps_tasks stage) s)"
      by (rule parallel_loop_effect[OF inv assms(2-5)])
    moreover have "effect g T s (Inl e, s)" for e by (rule effect_refl[OF assms(5)])
    ultimately show ?thesis
      unfolding exec_stage_def assms(1) sum.case if_not_P[OF False] by (simp only: split: if_split) blast
  qed
qed

lemma run_stages_effect:
  assumes g: "stage_graph cfg plan = Inr g" and T: "distinct (map pt_id T)"
  shows "\<forall>stage \<in> set stages. set (ps_tasks stage) \<subseteq> set T \<and> distinct (ps_tasks stage) \<Longrightarrow> statuses_ok s \<Longrightarrow>
    effect g T s (run_stages env cfg plan index stages s)"
proof (induction stages arbitrary: index s)
  case Nil
  then show ?case by (simp add: effect_refl)
next
  case (Cons stage stages)
  let ?s = "stamp env (\<lambda>now e. e\<lparr>es_current_stage_id := Some (ps_id stage), es_updated_at := now\<rparr>) s"
  have v: "same_view s ?s" by (simp add: same_view_def stamp_def)
  have ok: "statuses_ok ?s" using same_viewD(3)[OF v] Cons.prems(2) by simp
  obtain r s1 where st: "exec_stage env cfg plan stage ?s = (r, s1)" by (cases "exec_stage env cfg plan stage ?s")
  have "effect g T ?s (r, s1)"
    using exec_stage_effect[OF g T _ _ ok, of stage env] Cons.prems(1) st by simp
  then have e: "effect g T s (r, s1)" by (rule effect_before[OF _ v])
  show ?case
  proof (cases r)
    case (Inl x)
    with e st show ?thesis by simp
  next
    case (Inr u)
    let ?s2 = "if rc_ck_on_stage cfg then write_checkpoint env cfg plan (s1\<lparr>rn_stage_index := index + 1\<rparr>)
               else s1\<lparr>rn_stage_index := index + 1\<rparr>"
    have "same_view s1 ?s2" by (simp add: same_view_def)
    then have e2: "effect g T s (Inr (), ?s2)" using effect_after e Inr by simp
    then have "statuses_ok ?s2" by (auto elim: effectE)
    then have "effect g T ?s2 (run_stages env cfg plan (index + 1) stages ?s2)"
      using Cons.IH[of ?s2 "index + 1"] Cons.prems(1) by simp
    with e2 have "effect g T s (run_stages env cfg plan (index + 1) stages ?s2)"
      by (metis effect_trans prod.collapse)
    then show ?thesis using st Inr by (cases "rc_ck_on_stage cfg") (simp_all add: Let_def)
  qed
qed

text \<open>From the state a run starts with to the state it returns.\<close>

definition task_status :: "execution_state \<Rightarrow> name \<Rightarrow> TaskStatus" where
  "task_status e i = dget TPending (es_task_statuses e) i"

lemma status_of_task_status: "status_of s i = task_status (rn_state s) i"
  by (simp add: status_of_def task_status_def)

text \<open>What a run leaves behind in the world besides its checkpoints.\<close>

definition ledger :: "orch_world \<Rightarrow> name list \<times> name list \<times> (name, string \<times> (string, json) dict) dict \<times> name list" where
  "ledger w = (xw_runs w, ow_undone w, ow_handlers w, ow_order w)"

lemma ledger_frame [simp]:
  "ledger (rn_world (write_checkpoint env cfg plan s)) = ledger (rn_world s)"
  "ledger (rn_world (notify cfg ev plan s)) = ledger (rn_world s)"
  "ledger (rn_world (monitor_event cfg ev s)) = ledger (rn_world s)"
  "ledger (rn_world (mark_skipped cfg plan i s)) = ledger (rn_world s)"
  "ledger (rn_world (stamp env f s)) = ledger (rn_world s)"
  "ledger (w\<lparr>ow_tick := n\<rparr>) = ledger w" "ledger (w\<lparr>ow_totals := m\<rparr>) = ledger w" "ledger (w\<lparr>ow_task_index := k\<rparr>) = ledger w"
  by (simp_all add: ledger_def write_checkpoint_def create_checkpoint_def enforce_cap_def notify_def monitor_event_def
      mark_skipped_def set_status_def stamp_def Let_def)

lemma finish_run_cases:
  assumes "es_status (rn_state s2) = PRunning"
    and "(r3, s3) = (case r2 of Inr u \<Rightarrow> complete_run env s2 | Inl e \<Rightarrow> fail_run env e s2)"
  shows "r3 = Inr ()" "es_status (rn_state s3) = (if is_ok r2 then PCompleted else PFailed)"
    "es_task_statuses (rn_state s3) = es_task_statuses (rn_state s2)" "runs s3 = runs s2"
    "ledger (rn_world s3) = ledger (rn_world s2)"
proof -
  have t: "transition_pipeline PRunning PCompleted = Inr PCompleted" "transition_pipeline PRunning PFailed = Inr PFailed"
    by (simp_all add: transition_pipeline_def)
  show "r3 = Inr ()" "es_status (rn_state s3) = (if is_ok r2 then PCompleted else PFailed)"
    "es_task_statuses (rn_state s3) = es_task_statuses (rn_state s2)" "runs s3 = runs s2"
    "ledger (rn_world s3) = ledger (rn_world s2)"
    using assms by (cases r2; simp add: complete_run_def fail_run_def t stamp_def)+
qed

definition first_stage :: "checkpoint option \<Rightarrow> nat" where
  "first_stage ck = (case ck of None \<Rightarrow> 0 | Some c \<Rightarrow> ck_stage_index c)"

definition started_run :: "runner_config \<Rightarrow> orchestration_plan \<Rightarrow> checkpoint option \<Rightarrow> execution_state \<Rightarrow> orch_world \<Rightarrow> run_state" where
  "started_run cfg plan ck st0 w =
     notify cfg ''pipeline.started'' plan (monitor_event cfg ''pipeline.started''
       \<lparr>rn_state = st0,
        rn_metrics = new_metrics\<lparr>em_started_at := es_started_at st0,
                                 em_tasks_total := int (length (all_tasks (op_pipeline plan)))\<rparr>,
        rn_world = w\<lparr>ow_tick := Suc (ow_tick w)\<rparr>, rn_stage_index = first_stage ck, rn_task_index = ow_task_index w\<rparr>)"

lemma started_run_view:
  "status_of (started_run cfg plan ck st0 w) = task_status st0" "runs (started_run cfg plan ck st0 w) = xw_runs w"
  "es_status (rn_state (started_run cfg plan ck st0 w)) = es_status st0"
  "statuses_ok (started_run cfg plan ck st0 w) = dict_ok (es_task_statuses st0)"
  by (simp_all add: started_run_def statuses_ok_def status_of_def task_status_def fun_eq_iff)

lemma initial_running: "initial_state plan ck now = Inr st0 \<Longrightarrow> es_status st0 = PRunning"
  by (auto simp: initial_state_def transition_pipeline_def split: option.splits if_splits sum.splits)

lemma run_pipeline_stages:
  assumes init: "initial_state plan ck (oe_time env (ow_tick w)) = Inr st0"
    and run: "run_stages env cfg plan (first_stage ck) (drop (first_stage ck) (pl_stages (op_pipeline plan)))
                (started_run cfg plan ck st0 w) = (r2, s2)"
    and st: "es_status (rn_state s2) = PRunning"
  obtains st m w1 where "run_pipeline env cfg plan ck w = (Inr (st, m), w1)" "xw_runs w1 = runs s2"
    "task_status st = status_of s2" "es_status st = (if is_ok r2 then PCompleted else PFailed)"
    "ledger w1 = ledger (rn_world s2)"
proof -
  obtain r3 s3 where fin: "(r3, s3) = (case r2 of Inr u \<Rightarrow> complete_run env s2 | Inl e \<Rightarrow> fail_run env e s2)"
    by (metis surj_pair)
  note f = finish_run_cases[OF st fin]
  define s4 where "s4 = s3\<lparr>rn_metrics := (rn_metrics s3)\<lparr>em_completed_at := es_completed_at (rn_state s3)\<rparr>\<rparr>"
  define s5 where "s5 = monitor_event cfg ''pipeline.completed'' s4"
  define s6 where "s6 = (if rc_monitor cfg
                             then s5\<lparr>rn_world := (rn_world s5)\<lparr>ow_totals := merge_metrics (rn_metrics s5) (ow_totals (rn_world s5))\<rparr>\<rparr> else s5)"
  define s7 where "s7 = (case es_status (rn_state s6) of
                               PCompleted \<Rightarrow> notify cfg ''pipeline.completed'' plan s6
                             | PFailed \<Rightarrow> notify cfg ''pipeline.failed'' plan s6
                             | _ \<Rightarrow> s6)"
  have res: "run_pipeline env cfg plan ck w = (Inr (rn_state s7, rn_metrics s7), (rn_world s7)\<lparr>ow_task_index := rn_task_index s7\<rparr>)"
    unfolding run_pipeline_def init sum.case first_stage_def[symmetric] Let_def
    unfolding started_run_def[symmetric] run prod.case fin[symmetric] f(1) sum.case
    unfolding s4_def[symmetric] s5_def[symmetric] s6_def[symmetric] s7_def[symmetric] ..
  have s7: "es_task_statuses (rn_state s7) = es_task_statuses (rn_state s2)" "runs s7 = runs s2"
    "es_status (rn_state s7) = (if is_ok r2 then PCompleted else PFailed)"
    "ledger (rn_world s7) = ledger (rn_world s2)"
    using f(2-5) by (simp_all add: s7_def s6_def s5_def s4_def split: PipelineStatus.split)
  show thesis
    by (rule that[OF res _ _ s7(3)]) (simp_all add: s7 task_status_def status_of_def fun_eq_iff)
qed

lemma run_pipeline_result:
  assumes init: "initial_state plan ck (oe_time env (ow_tick w)) = Inr st0"
  defines "T \<equiv> all_tasks (op_pipeline plan)"
  assumes g: "stage_graph cfg plan = Inr g" and T: "distinct (map pt_id T)" and ok: "dict_ok (es_task_statuses st0)"
  obtains st m w1 rs and r :: "orch_error + unit" where
    "run_pipeline env cfg plan ck w = (Inr (st, m), w1)" "xw_runs w1 = xw_runs w @ rs"
    "es_status st = (if is_ok r then PCompleted else PFailed)" "dep_sorted (task_deps g) rs"
    "\<And>i. i \<in> set rs \<Longrightarrow> task_status st0 i \<in> {TPending, TReady} \<and>
       (\<forall>d \<in> set (task_deps g i). task_status st d = TCompleted)"
    "\<And>i. moved (task_status st0 i) (task_status st i)"
    "\<And>t. is_ok r \<Longrightarrow> t \<in> set T \<Longrightarrow> task_status st (pt_id t) = TFailed \<Longrightarrow>
       task_status st0 (pt_id t) = TFailed \<or> pt_on_failure t \<noteq> ''fail''"
proof -
  let ?stages = "drop (first_stage ck) (pl_stages (op_pipeline plan))" and ?s1 = "started_run cfg plan ck st0 w"
  obtain r2 s2 where run: "run_stages env cfg plan (first_stage ck) ?stages ?s1 = (r2, s2)"
    by (cases "run_stages env cfg plan (first_stage ck) ?stages ?s1")
  have stages: "\<forall>stage \<in> set ?stages. set (ps_tasks stage) \<subseteq> set T \<and> distinct (ps_tasks stage)"
  proof
    fix stage
    assume "stage \<in> set ?stages"
    then have m: "stage \<in> set (pl_stages (op_pipeline plan))" by (rule in_set_dropD)
    have "distinct (concat (map ps_tasks (pl_stages (op_pipeline plan))))"
      using T by (simp add: T_def all_tasks_def distinct_map)
    then have "distinct (ps_tasks stage)" using m by (metis distinct_concat_iff image_eqI set_map)
    with m show "set (ps_tasks stage) \<subseteq> set T \<and> distinct (ps_tasks stage)" by (auto simp: T_def all_tasks_def)
  qed
  have "statuses_ok ?s1" using ok by (simp add: started_run_view)
  from run_stages_effect[OF g T stages this, of env "first_stage ck"] have eff: "effect g T ?s1 (r2, s2)" by (simp add: run)
  then obtain rs where e: "es_status (rn_state s2) = es_status (rn_state ?s1)" "runs s2 = runs ?s1 @ rs" "dep_sorted (task_deps g) rs"
    "\<And>i. i \<in> set rs \<Longrightarrow> status_of ?s1 i \<in> {TPending, TReady} \<and> deps_done g s2 i \<and> status_of s2 i \<notin> {TPending, TReady}"
    "\<And>i. moved (status_of ?s1 i) (status_of s2 i)"
    "\<And>t. is_ok r2 \<Longrightarrow> t \<in> set T \<Longrightarrow> status_of s2 (pt_id t) = TFailed \<Longrightarrow>
           status_of ?s1 (pt_id t) = TFailed \<or> pt_on_failure t \<noteq> ''fail''"
    by (rule effectE) blast
  have "es_status (rn_state s2) = PRunning"
    using e(1) initial_running[OF init] by (simp add: started_run_view)
  from run_pipeline_stages[OF init run this] obtain st m w1 where res:
    "run_pipeline env cfg plan ck w = (Inr (st, m), w1)" "xw_runs w1 = runs s2" "task_status st = status_of s2"
    "es_status st = (if is_ok r2 then PCompleted else PFailed)" by blast
  show thesis
    by (rule that[OF res(1) _ res(4) e(3)])
      (use e(2,4-6) res(2) in \<open>simp_all add: started_run_view res(3)\<close>)
qed

section \<open>A run with nothing left to start\<close>

definition stage_settled :: "pipeline_stage \<Rightarrow> (name \<Rightarrow> TaskStatus) \<Rightarrow> bool" where
  "stage_settled stage f \<longleftrightarrow>
     (\<forall>t \<in> set (ps_tasks stage). f (pt_id t) \<in> {TCompleted, TSkipped, TCancelled, TFailed} \<or>
        (ps_mode stage = PARALLEL \<and> f (pt_id t) = TRunning))"

definition skips_failed :: "(name \<Rightarrow> TaskStatus) \<Rightarrow> (name \<Rightarrow> TaskStatus) \<Rightarrow> bool" where
  "skips_failed f h \<longleftrightarrow> (\<forall>i. h i = f i \<or> (f i = TFailed \<and> h i = TSkipped))"

lemma skips_failed_settled: "skips_failed f h \<Longrightarrow> stage_settled stage f \<Longrightarrow> stage_settled stage h"
  unfolding skips_failed_def stage_settled_def by (metis insertCI)

lemma skips_failed_trans: "skips_failed f h \<Longrightarrow> skips_failed h k \<Longrightarrow> skips_failed f k"
  unfolding skips_failed_def by metis

lemma sequential_settled:
  "\<forall>t \<in> set ts. status_of s (pt_id t) \<in> {TCompleted, TSkipped, TCancelled, TFailed} \<Longrightarrow> statuses_ok s \<Longrightarrow>
   \<exists>s1. exec_sequential env cfg plan g k ts s = (Inr (), s1) \<and> ledger (rn_world s1) = ledger (rn_world s) \<and> statuses_ok s1 \<and>
     es_status (rn_state s1) = es_status (rn_state s) \<and> skips_failed (status_of s) (status_of s1)"
proof (induction ts arbitrary: k s)
  case Nil
  then show ?case by (simp add: skips_failed_def)
next
  case (Cons t ts)
  let ?s = "s\<lparr>rn_task_index := k\<rparr>"
  have ok: "statuses_ok ?s" using Cons.prems(2) by (simp add: statuses_ok_def)
  have st: "status_of s (pt_id t) \<in> {TCompleted, TSkipped, TCancelled, TFailed}" using Cons.prems(1) by simp
  show ?case
  proof (cases "status_of s (pt_id t) \<in> {TCompleted, TSkipped, TCancelled} \<or> (status_of s (pt_id t) = TFailed \<and> pt_on_failure t = ''fail'')")
    case True
    from Cons.IH[of ?s "k + 1"] Cons.prems(1) ok obtain s1 where
      "exec_sequential env cfg plan g (k + 1) ts ?s = (Inr (), s1)" "ledger (rn_world s1) = ledger (rn_world s)" "statuses_ok s1"
      "es_status (rn_state s1) = es_status (rn_state s)" "skips_failed (status_of s) (status_of s1)" by auto
    moreover have "exec_sequential env cfg plan g k (t # ts) s = exec_sequential env cfg plan g (k + 1) ts ?s"
      using True by (simp add: Let_def)
    ultimately show ?thesis by metis
  next
    case False
    with st have fl: "status_of s (pt_id t) = TFailed" by auto
    with False have fr: "pt_on_failure t \<noteq> ''fail''" by blast
    have "map_of (es_task_statuses (rn_state s)) (pt_id t) = Some TFailed"
      using fl by (auto simp: status_of_def dget_def split: option.splits)
    then have "pt_id t \<in> set (ids_with TFailed ?s)"
      by (auto simp: ids_with_def image_iff dest: map_of_SomeD)
    then have nr: "pt_id t \<notin> set (ready_tasks g (ids_with TCompleted ?s) (ids_with TFailed ?s))"
      by (simp add: ready_tasks_def)
    let ?s2 = "mark_skipped cfg plan (pt_id t) ?s"
    have "\<forall>v \<in> set ts. status_of ?s2 (pt_id v) \<in> {TCompleted, TSkipped, TCancelled, TFailed}"
      using Cons.prems(1) by auto
    from Cons.IH[OF this statuses_ok_simps(1)[OF ok], of "k + 1"] obtain s1 where s1:
      "exec_sequential env cfg plan g (k + 1) ts ?s2 = (Inr (), s1)" "ledger (rn_world s1) = ledger (rn_world ?s2)" "statuses_ok s1"
      "es_status (rn_state s1) = es_status (rn_state ?s2)" "skips_failed (status_of ?s2) (status_of s1)" by blast
    have "skips_failed (status_of s) (status_of ?s2)" using fl by (auto simp: skips_failed_def)
    then have "skips_failed (status_of s) (status_of s1)" using s1(5) by (rule skips_failed_trans)
    moreover have "exec_sequential env cfg plan g k (t # ts) s = exec_sequential env cfg plan g (k + 1) ts ?s2"
      using nr fl fr by (simp add: Let_def)
    moreover have "ledger (rn_world ?s2) = ledger (rn_world s)" "es_status (rn_state ?s2) = es_status (rn_state s)" by simp_all
    ultimately show ?thesis using s1 by metis
  qed
qed

lemma skip_pending_none:
  "\<forall>t \<in> set ts. status_of s (pt_id t) \<noteq> TPending \<Longrightarrow> skip_pending cfg plan ts s = s"
  by (induction ts) auto

lemma stage_settled_runs:
  assumes g: "stage_graph cfg plan = Inr g" and w: "0 < rc_max_workers cfg" "0 < dc_max_parallel_tasks (rc_deps cfg)"
    and st: "stage_settled stage (status_of s)" and ok: "statuses_ok s"
  shows "\<exists>s1. exec_stage env cfg plan stage s = (Inr (), s1) \<and> ledger (rn_world s1) = ledger (rn_world s) \<and> statuses_ok s1 \<and>
    es_status (rn_state s1) = es_status (rn_state s) \<and> skips_failed (status_of s) (status_of s1)"
proof -
  have np: "\<forall>t \<in> set (ps_tasks stage). status_of s (pt_id t) \<noteq> TPending"
    using st by (auto simp: stage_settled_def)
  let ?skip = "ps_condition stage \<noteq> None \<and> ps_condition stage \<noteq> Some [] \<and>
             \<not> evaluate_condition (ps_condition stage) (es_task_results (rn_state s))"
  have refl: "skips_failed (status_of s) (status_of s)" by (simp add: skips_failed_def)
  show ?thesis
  proof (cases "ps_mode stage = PARALLEL")
    case True
    have "ready_batch g (ps_tasks stage) s = []" using np ready_batch_pending by (meson list.set_sel(1))
    then have "parallel_loop env cfg plan g (ps_tasks stage) s = (Inr (), s)" by (simp add: parallel_loop.simps)
    with True w g refl ok show ?thesis
      by (simp add: exec_stage_def skip_pending_none[OF np] min_le_iff_disj)
  next
    case False
    then have "\<forall>t \<in> set (ps_tasks stage). status_of s (pt_id t) \<in> {TCompleted, TSkipped, TCancelled, TFailed}"
      using st by (auto simp: stage_settled_def)
    from sequential_settled[OF this ok, of env cfg plan g 0] False g refl ok show ?thesis
      by (simp add: exec_stage_def skip_pending_none[OF np])
  qed
qed

lemma stages_settled_run:
  assumes g: "stage_graph cfg plan = Inr g" and w: "0 < rc_max_workers cfg" "0 < dc_max_parallel_tasks (rc_deps cfg)"
  shows "\<forall>stage \<in> set stages. stage_settled stage (status_of s) \<Longrightarrow> statuses_ok s \<Longrightarrow>
    \<exists>s1. run_stages env cfg plan index stages s = (Inr (), s1) \<and> ledger (rn_world s1) = ledger (rn_world s) \<and>
      es_status (rn_state s1) = es_status (rn_state s) \<and> skips_failed (status_of s) (status_of s1)"
proof (induction stages arbitrary: index s)
  case Nil
  then show ?case by (simp add: skips_failed_def)
next
  case (Cons stage stages)
  let ?s = "stamp env (\<lambda>now e. e\<lparr>es_current_stage_id := Some (ps_id stage), es_updated_at := now\<rparr>) s"
  have v: "same_view s ?s" by (simp add: same_view_def stamp_def)
  note vd = same_viewD[OF v]
  have "stage_settled stage (status_of ?s)" "statuses_ok ?s" using Cons.prems vd by simp_all
  from stage_settled_runs[OF g w this] obtain s1 where s1: "exec_stage env cfg plan stage ?s = (Inr (), s1)"
    "ledger (rn_world s1) = ledger (rn_world s)" "statuses_ok s1" "es_status (rn_state s1) = es_status (rn_state s)"
    "skips_failed (status_of s) (status_of s1)" unfolding vd ledger_frame(5) by blast
  let ?s2 = "if rc_ck_on_stage cfg then write_checkpoint env cfg plan (s1\<lparr>rn_stage_index := index + 1\<rparr>)
               else s1\<lparr>rn_stage_index := index + 1\<rparr>"
  have v2: "same_view s1 ?s2" by (simp add: same_view_def)
  note vd2 = same_viewD[OF v2]
  have l2: "ledger (rn_world ?s2) = ledger (rn_world s1)" by simp
  have "\<forall>stage \<in> set stages. stage_settled stage (status_of ?s2)"
    using Cons.prems(1) skips_failed_settled[OF s1(5)] unfolding vd2 by simp
  from Cons.IH[OF this, of "index + 1"] s1(3) obtain s3 where
    "run_stages env cfg plan (index + 1) stages ?s2 = (Inr (), s3)" "ledger (rn_world s3) = ledger (rn_world s1)"
    "es_status (rn_state s3) = es_status (rn_state s1)" "skips_failed (status_of s1) (status_of s3)"
    unfolding vd2 l2 by blast
  with s1 skips_failed_trans[OF s1(5)] show ?case
    by (cases "rc_ck_on_stage cfg") (simp_all add: Let_def)
qed

section \<open>Properties\<close>

lemma initial_statuses_ok:
  "initial_state plan ck now = Inr st \<Longrightarrow> (\<And>c. ck = Some c \<Longrightarrow> dict_ok (es_task_statuses (ck_state c))) \<Longrightarrow>
   dict_ok (es_task_statuses st)"
proof -
  have fresh: "dict_ok d \<Longrightarrow> dict_ok (fold (\<lambda>t. AList.update (pt_id t) TPending) ts d)" for d :: "(name, TaskStatus) dict" and ts
    by (induction ts arbitrary: d) simp_all
  from fresh[of "[]"] show "initial_state plan ck now = Inr st \<Longrightarrow> (\<And>c. ck = Some c \<Longrightarrow> dict_ok (es_task_statuses (ck_state c))) \<Longrightarrow> ?thesis"
    by (auto simp: initial_state_def split: option.splits if_splits sum.splits)
qed

text \<open>C19: a run of a plan with unique task ids, fresh or resumed, ends completed or failed.  In
  every interleaving of the parallel stages a handler runs only for a task that had not been
  started, all its dependencies are completed, and none of them runs after it; tasks that were
  completed, skipped or cancelled stay so; and a completed run left no task newly failed whose
  policy is to fail.\<close>

theorem run_respects_dependencies:
  assumes "initial_state plan ck (oe_time env (ow_tick w)) = Inr st0" "stage_graph cfg plan = Inr g"
    and "distinct (map pt_id (all_tasks (op_pipeline plan)))"
    and "\<And>c. ck = Some c \<Longrightarrow> dict_ok (es_task_statuses (ck_state c))"
  shows "\<exists>st m w1 rs. run_pipeline env cfg plan ck w = (Inr (st, m), w1) \<and> xw_runs w1 = xw_runs w @ rs \<and>
    es_status st \<in> {PCompleted, PFailed} \<and>
    (\<forall>i \<in> set rs. task_status st0 i \<in> {TPending, TReady} \<and>
        (\<forall>d \<in> set (task_deps g i). task_status st d = TCompleted)) \<and>
    dep_sorted (task_deps g) rs \<and>
    (\<forall>i. task_status st0 i \<in> {TCompleted, TSkipped, TCancelled} \<longrightarrow> task_status st i = task_status st0 i) \<and>
    (es_status st = PCompleted \<longrightarrow> (\<forall>t \<in> set (all_tasks (op_pipeline plan)). task_status st (pt_id t) = TFailed \<longrightarrow>
        task_status st0 (pt_id t) = TFailed \<or> pt_on_failure t \<noteq> ''fail''))"
proof -
  have ok: "dict_ok (es_task_statuses st0)" by (rule initial_statuses_ok[OF assms(1)]) (rule assms(4))
  show ?thesis
  proof (rule run_pipeline_result[OF assms(1-3) ok])
    fix st m w1 rs and r :: "orch_error + unit"
    assume a: "run_pipeline env cfg plan ck w = (Inr (st, m), w1)" "xw_runs w1 = xw_runs w @ rs"
      "es_status st = (if is_ok r then PCompleted else PFailed)" "dep_sorted (task_deps g) rs"
      "\<And>i. i \<in> set rs \<Longrightarrow> task_status st0 i \<in> {TPending, TReady} \<and>
         (\<forall>d \<in> set (task_deps g i). task_status st d = TCompleted)"
      "\<And>i. moved (task_status st0 i) (task_status st i)"
      "\<And>t. is_ok r \<Longrightarrow> t \<in> set (all_tasks (op_pipeline plan)) \<Longrightarrow> task_status st (pt_id t) = TFailed \<Longrightarrow>
         task_status st0 (pt_id t) = TFailed \<or> pt_on_failure t \<noteq> ''fail''"
    have "task_status st i = task_status st0 i" if "task_status st0 i \<in> {TCompleted, TSkipped, TCancelled}" for i
      using a(6)[of i] that by (auto simp: moved_def)
    moreover have "is_ok r" if "es_status st = PCompleted" using a(3) that by (simp split: if_splits)
    moreover have "es_status st \<in> {PCompleted, PFailed}" using a(3) by simp
    ultimately show ?thesis using a(1,2,4,5,7)
      by (intro exI[of _ st] exI[of _ m] exI[of _ w1] exI[of _ rs] conjI) (assumption | blast)+
  qed
qed

definition demo_plan :: "pipeline_task list \<Rightarrow> orchestration_plan" where
  "demo_plan ts =
     \<lparr>op_id = ''plan'', op_name = ''plan'', op_pipeline = demo_pipeline SEQUENTIAL ts, op_schedule_mode = IMMEDIATE,
      op_scheduled_at = None, op_interval_seconds = None, op_max_runs = 0, op_depends_on = [], op_run_count = 0\<rparr>"

definition demo_runner :: runner_config where
  "demo_runner =
     \<lparr>rc_executor = demo_executor, rc_deps = default_deps_config, rc_max_workers = 4, rc_ck_enabled = True,
      rc_ck_on_task = True, rc_ck_on_stage = True, rc_ck_interval = 1, rc_ck_cap = 10, rc_monitor = True,
      rc_event_enabled = (\<lambda>_. True)\<rparr>"

definition demo_orch_env :: orch_env where
  "demo_orch_env =
     \<lparr>oe_outcomes = flaky, oe_jitter = (\<lambda>_. 0), oe_time = int, oe_uuid = (\<lambda>n. replicate n CHR ''x''),
      oe_start = (\<lambda>_ _. 0), oe_span = (\<lambda>_ _. 0), oe_memory_delete = (\<lambda>_. None)\<rparr>"

lemma demo_graph:
  "\<exists>g. stage_graph demo_runner (demo_plan [demo_task ''a'' [], demo_task ''b'' [''a'']]) = Inr g \<and>
     task_deps g ''b'' = [''a''] \<and> task_deps g ''a'' = []"
  by (simp add: stage_graph_def demo_runner_def demo_plan_def new_dependency_graph_def demo_pipeline_def demo_task_def
      all_tasks_def task_map_def default_deps_config_def find_cycle_def search_fuel_def task_ids_def task_deps_def
      task_dependencies_of_def required_def Let_def)

theorem run_respects_dependencies_witness:
  "\<exists>st m w1 rs. run_pipeline demo_orch_env demo_runner (demo_plan [demo_task ''a'' [], demo_task ''b'' [''a'']]) None new_world =
      (Inr (st, m), w1) \<and> xw_runs w1 = rs \<and> (''b'' \<in> set rs \<longrightarrow> task_status st ''a'' = TCompleted)"
proof -
  let ?p = "demo_plan [demo_task ''a'' [], demo_task ''b'' [''a'']]"
  obtain g where g: "stage_graph demo_runner ?p = Inr g" "task_deps g ''b'' = [''a'']" using demo_graph by blast
  obtain st0 where st0: "initial_state ?p None (oe_time demo_orch_env (ow_tick new_world)) = Inr st0"
    by (simp add: initial_state_def)
  have d: "distinct (map pt_id (all_tasks (op_pipeline ?p)))"
    by (simp add: demo_plan_def demo_pipeline_def all_tasks_def demo_task_def)
  obtain st m w1 rs where "run_pipeline demo_orch_env demo_runner ?p None new_world = (Inr (st, m), w1)"
    "xw_runs w1 = xw_runs new_world @ rs" "\<forall>i \<in> set rs. \<forall>d \<in> set (task_deps g i). task_status st d = TCompleted"
    using run_respects_dependencies[OF st0 g(1) d] by auto
  moreover have "xw_runs new_world = []" by (simp add: new_world_def)
  ultimately show ?thesis using g(2) by auto
qed

text \<open>A run resumed from a checkpoint in which every task of the remaining stages is completed,
  skipped, cancelled or failed (or was running in a parallel stage when the checkpoint was
  written) runs no handler and ends completed: what had failed or was interrupted is not
  retried, and the failure is not reported.\<close>

lemma resumed_run_hides_failure:
  assumes "stage_graph cfg plan = Inr g" "0 < rc_max_workers cfg" "0 < dc_max_parallel_tasks (rc_deps cfg)"
    and "es_status (ck_state c) = PRunning" "dict_ok (es_task_statuses (ck_state c))"
    and "\<forall>stage \<in> set (drop (ck_stage_index c) (pl_stages (op_pipeline plan))). stage_settled stage (task_status (ck_state c))"
  shows "\<exists>st m w1. run_pipeline env cfg plan (Some c) w = (Inr (st, m), w1) \<and> es_status st = PCompleted \<and>
    ledger w1 = ledger w \<and> (\<forall>i. task_status (ck_state c) i = TFailed \<longrightarrow> task_status st i \<in> {TFailed, TSkipped}) \<and>
    (\<forall>i. task_status (ck_state c) i \<noteq> TFailed \<longrightarrow> task_status st i = task_status (ck_state c) i)"
proof -
  let ?stages = "drop (ck_stage_index c) (pl_stages (op_pipeline plan))"
    and ?s1 = "started_run cfg plan (Some c) (ck_state c) w"
  have init: "initial_state plan (Some c) (oe_time env (ow_tick w)) = Inr (ck_state c)"
    using assms(4) by (simp add: initial_state_def)
  have "statuses_ok ?s1" using assms(5) by (simp add: started_run_view)
  then obtain s2 where s2: "run_stages env cfg plan (ck_stage_index c) ?stages ?s1 = (Inr (), s2)" "ledger (rn_world s2) = ledger (rn_world ?s1)"
    "es_status (rn_state s2) = es_status (rn_state ?s1)" "skips_failed (status_of ?s1) (status_of s2)"
    using stages_settled_run[OF assms(1-3), of ?stages ?s1 env "ck_stage_index c"] assms(6)
    unfolding started_run_view(1) by blast
  have "es_status (rn_state s2) = PRunning" using s2(3) assms(4) by (simp add: started_run_view)
  moreover have "run_stages env cfg plan (first_stage (Some c)) (drop (first_stage (Some c)) (pl_stages (op_pipeline plan))) ?s1 = (Inr (), s2)"
    using s2(1) by (simp add: first_stage_def)
  ultimately obtain st m w1 where
    "run_pipeline env cfg plan (Some c) w = (Inr (st, m), w1)" "ledger w1 = ledger (rn_world s2)" "task_status st = status_of s2"
    "es_status st = PCompleted" using run_pipeline_stages[OF init] by (metis is_ok.simps(2))
  moreover have "ledger (rn_world ?s1) = ledger w" by (simp add: started_run_def)
  moreover have "\<forall>i. status_of s2 i = task_status (ck_state c) i \<or>
      (task_status (ck_state c) i = TFailed \<and> status_of s2 i = TSkipped)"
    using s2(4) unfolding skips_failed_def started_run_view(1) by blast
  ultimately show ?thesis using s2(2) by (metis insertCI)
qed

end
