(* ===== verification/OrchScheduler.thy ===== *)
theory OrchScheduler
  imports OrchModel JobScheduler
begin

text \<open>
  The scheduler of orchestration plans (\<^verbatim>\<open>orchestration/scheduler.py\<close>) and the store of execution
  states and records (\<^verbatim>\<open>orchestration/state.py\<close>).  A plan object is shared by the scheduler, the
  engine and the caller; the only field that changes after its creation is the run count, which
  is kept with the registered plan.  The copies of states and records in the memory engine are
  best-effort and read by nothing but the reload after a restart; they are left out.
\<close>

section \<open>The scheduler\<close>

record orch_scheduler =
  os_plans :: "(name, orchestration_plan) dict"
  os_last_run :: "(name, time) dict"
  os_completed :: "name list"
  os_scheduled_at :: "(name, time) dict"
  os_default_interval :: rat

definition new_orch_scheduler :: "rat \<Rightarrow> orch_scheduler" where
  "new_orch_scheduler interval =
     \<lparr>os_plans = [], os_last_run = [], os_completed = [], os_scheduled_at = [], os_default_interval = interval\<rparr>"

definition register_plan :: "orchestration_plan \<Rightarrow> time \<Rightarrow> orch_scheduler \<Rightarrow> orch_scheduler" where
  "register_plan plan now s =
     s\<lparr>os_plans := AList.update (op_id plan) plan (os_plans s),
       os_scheduled_at :=
         (case op_schedule_mode plan of
            SCHEDULED \<Rightarrow>
              AList.update (op_id plan) (case op_scheduled_at plan of Some t \<Rightarrow> t | None \<Rightarrow> now) (os_scheduled_at s)
          | IMMEDIATE \<Rightarrow> AList.update (op_id plan) now (os_scheduled_at s)
          | RECURRING_PLAN \<Rightarrow> AList.update (op_id plan) now (os_scheduled_at s)
          | DEPENDENCY_PLAN \<Rightarrow> AList.delete (op_id plan) (os_scheduled_at s))\<rparr>"

definition unregister_plan :: "name \<Rightarrow> orch_scheduler \<Rightarrow> bool \<times> orch_scheduler" where
  "unregister_plan i s =
     (True, s\<lparr>os_plans := AList.delete i (os_plans s), os_last_run := AList.delete i (os_last_run s),
              os_scheduled_at := AList.delete i (os_scheduled_at s)\<rparr>)"

definition schedule_plan :: "orchestration_plan \<Rightarrow> time \<Rightarrow> orch_scheduler \<Rightarrow> orch_scheduler" where
  "schedule_plan = register_plan"

text \<open>\<^verbatim>\<open>plan.run_count += 1\<close> on the shared object.\<close>

definition count_run :: "name \<Rightarrow> (name, orchestration_plan) dict \<Rightarrow> (name, orchestration_plan) dict" where
  "count_run i = AList.map_entry i (\<lambda>p. p\<lparr>op_run_count := op_run_count p + 1\<rparr>)"

definition mark_plan_run :: "name \<Rightarrow> time \<Rightarrow> orch_scheduler \<Rightarrow> orch_scheduler" where
  "mark_plan_run i now s =
     s\<lparr>os_last_run := AList.update i now (os_last_run s), os_plans := count_run i (os_plans s)\<rparr>"

definition notify_completed :: "name \<Rightarrow> orch_scheduler \<Rightarrow> orch_scheduler" where
  "notify_completed i s = s\<lparr>os_completed := List.insert i (os_completed s)\<rparr>"

definition plan_interval :: "orch_scheduler \<Rightarrow> orchestration_plan \<Rightarrow> time" where
  "plan_interval s p =
     seconds_delta (case op_interval_seconds p of
        Some x \<Rightarrow> if x \<noteq> 0 then x else os_default_interval s
      | None \<Rightarrow> os_default_interval s)"

definition is_due :: "time \<Rightarrow> orch_scheduler \<Rightarrow> orchestration_plan \<Rightarrow> bool" where
  "is_due now s p =
     (let last_run = map_of (os_last_run s) (op_id p)
      in case op_schedule_mode p of
           IMMEDIATE \<Rightarrow> last_run = None
         | SCHEDULED \<Rightarrow>
             if last_run \<noteq> None then False
             else (case map_of (os_scheduled_at s) (op_id p) of None \<Rightarrow> False | Some t \<Rightarrow> t \<le> now)
         | RECURRING_PLAN \<Rightarrow>
             if op_max_runs p \<noteq> 0 \<and> op_max_runs p \<le> op_run_count p then False
             else (case last_run of None \<Rightarrow> True | Some t \<Rightarrow> t + plan_interval s p \<le> now)
         | DEPENDENCY_PLAN \<Rightarrow>
             if op_depends_on p = [] then last_run = None
             else if filter (\<lambda>d. d \<notin> set (os_completed s)) (op_depends_on p) \<noteq> [] then False
             else last_run = None)"

definition due_plans :: "time \<Rightarrow> orch_scheduler \<Rightarrow> orchestration_plan list" where
  "due_plans now s = filter (is_due now s) (map snd (os_plans s))"

definition pending_plans :: "orch_scheduler \<Rightarrow> orchestration_plan list" where
  "pending_plans s = filter (\<lambda>p. map_of (os_last_run s) (op_id p) = None) (map snd (os_plans s))"

definition plan_completed :: "name \<Rightarrow> orch_scheduler \<Rightarrow> bool" where
  "plan_completed i s \<longleftrightarrow> i \<in> set (os_completed s)"

section \<open>The state store\<close>

record state_store =
  st_states :: "(name, execution_state) dict"
  st_records :: "execution_record list"
  st_max_records :: int

definition new_state_store :: "int \<Rightarrow> state_store" where
  "new_state_store m = \<lparr>st_states = [], st_records = [], st_max_records = m\<rparr>"

definition save_state :: "execution_state \<Rightarrow> state_store \<Rightarrow> state_store" where
  "save_state e s = s\<lparr>st_states := AList.update (es_plan_id e) e (st_states s)\<rparr>"

definition get_plan_state :: "name \<Rightarrow> state_store \<Rightarrow> execution_state option" where
  "get_plan_state i s = map_of (st_states s) i"

definition list_states :: "state_store \<Rightarrow> execution_state list" where
  "list_states s = sort_key (\<lambda>e. - es_updated_at e) (map snd (st_states s))"

definition remove_state :: "name \<Rightarrow> state_store \<Rightarrow> bool \<times> state_store" where
  "remove_state i s = (map_of (st_states s) i \<noteq> None, s\<lparr>st_states := AList.delete i (st_states s)\<rparr>)"

definition add_record :: "execution_record \<Rightarrow> state_store \<Rightarrow> state_store" where
  "add_record r s =
     (let rs = st_records s @ [r]
      in s\<lparr>st_records := (if 0 < st_max_records s \<and> st_max_records s < int (length rs)
                          then drop (length rs - nat (st_max_records s)) rs else rs)\<rparr>)"

definition run_history :: "name option \<Rightarrow> state_store \<Rightarrow> execution_record list" where
  "run_history i s =
     sort_key (\<lambda>r. - xr_recorded_at r) (filter (\<lambda>r. i = None \<or> Some (xr_plan_id r) = i) (st_records s))"

definition last_record :: "name \<Rightarrow> state_store \<Rightarrow> execution_record option" where
  "last_record i s = (case run_history (Some i) s of [] \<Rightarrow> None | r # _ \<Rightarrow> Some r)"

definition clear_store :: "state_store \<Rightarrow> state_store" where
  "clear_store s = s\<lparr>st_states := [], st_records := []\<rparr>"

text \<open>With a positive cap the history never holds more records than the cap.\<close>

lemma add_record_bound:
  "0 < st_max_records s \<Longrightarrow> int (length (st_records (add_record r s))) \<le> st_max_records s"
  by (auto simp: add_record_def Let_def)

lemma sort_key_snoc_least:
  "\<forall>x \<in> set xs. f r < f x \<Longrightarrow> sort_key f (xs @ [r]) = r # sort_key f xs"
  by (induction xs) auto

text \<open>The last record of a plan is the one recorded last, when the clock advances between records.\<close>

lemma last_record_added:
  assumes "\<forall>q \<in> set (st_records s). xr_recorded_at q < xr_recorded_at r"
  shows "last_record (xr_plan_id r) (add_record r s) = Some r"
proof -
  have "\<exists>qs. st_records (add_record r s) = qs @ [r] \<and> set qs \<subseteq> set (st_records s)"
  proof (cases "0 < st_max_records s \<and> st_max_records s < int (length (st_records s @ [r]))")
    case True
    let ?n = "length (st_records s @ [r]) - nat (st_max_records s)"
    have "?n \<le> length (st_records s)" using True by auto
    then have "st_records (add_record r s) = drop ?n (st_records s) @ [r]"
      using True by (simp add: add_record_def Let_def)
    then show ?thesis by (meson set_drop_subset)
  qed (auto simp: add_record_def Let_def)
  then obtain qs where qs: "st_records (add_record r s) = qs @ [r]" "set qs \<subseteq> set (st_records s)" by blast
  have "\<forall>q \<in> set (filter (\<lambda>q. xr_plan_id q = xr_plan_id r) qs). - xr_recorded_at r < - xr_recorded_at q"
    using assms qs(2) by auto
  from sort_key_snoc_least[of _ "\<lambda>q. - xr_recorded_at q", OF this] show ?thesis
    by (simp add: last_record_def run_history_def qs(1))
qed

section \<open>Traces of the scheduler\<close>

datatype sched_op =
    Register orchestration_plan time
  | Unregister name
  | MarkRun name time
  | Notify name

fun sched_step :: "sched_op \<Rightarrow> orch_scheduler \<Rightarrow> orch_scheduler" where
  "sched_step (Register p now) s = register_plan p now s"
| "sched_step (Unregister i) s = snd (unregister_plan i s)"
| "sched_step (MarkRun i now) s = mark_plan_run i now s"
| "sched_step (Notify i) s = notify_completed i s"

text \<open>\<^verbatim>\<open>i\<close> ran last at \<^verbatim>\<open>t\<close>, and was not taken out of the scheduler since.\<close>

definition last_ran :: "sched_op list \<Rightarrow> name \<Rightarrow> time \<Rightarrow> bool" where
  "last_ran ops i t \<longleftrightarrow>
     (\<exists>xs ys. ops = xs @ MarkRun i t # ys \<and> Unregister i \<notin> set ys \<and> (\<forall>u. MarkRun i u \<notin> set ys))"

lemma last_ran_snoc:
  "last_ran (ops @ [op]) i t \<longleftrightarrow> op = MarkRun i t \<or> (last_ran ops i t \<and> op \<noteq> Unregister i \<and> (\<forall>u. op \<noteq> MarkRun i u))"
proof
  assume "last_ran (ops @ [op]) i t"
  then obtain xs ys where e: "ops @ [op] = xs @ MarkRun i t # ys" "Unregister i \<notin> set ys" "\<forall>u. MarkRun i u \<notin> set ys"
    by (auto simp: last_ran_def)
  show "op = MarkRun i t \<or> (last_ran ops i t \<and> op \<noteq> Unregister i \<and> (\<forall>u. op \<noteq> MarkRun i u))"
  proof (cases ys rule: rev_cases)
    case (snoc zs z)
    with e(1) have "ops = xs @ MarkRun i t # zs" "op = z" by simp_all
    with e(2,3) snoc have "last_ran ops i t" "op \<noteq> Unregister i" "\<forall>u. op \<noteq> MarkRun i u"
      unfolding last_ran_def by auto
    then show ?thesis by blast
  qed (use e in simp)
next
  assume "op = MarkRun i t \<or> (last_ran ops i t \<and> op \<noteq> Unregister i \<and> (\<forall>u. op \<noteq> MarkRun i u))"
  then show "last_ran (ops @ [op]) i t"
  proof
    assume "op = MarkRun i t"
    then show ?thesis unfolding last_ran_def by (intro exI[of _ ops] exI[of _ "[]"]) simp
  next
    assume a: "last_ran ops i t \<and> op \<noteq> Unregister i \<and> (\<forall>u. op \<noteq> MarkRun i u)"
    then obtain xs ys where "ops = xs @ MarkRun i t # ys" "Unregister i \<notin> set ys" "\<forall>u. MarkRun i u \<notin> set ys"
      by (auto simp: last_ran_def)
    with a show ?thesis unfolding last_ran_def by (intro exI[of _ xs] exI[of _ "ys @ [op]"]) auto
  qed
qed

lemma last_run_trace:
  "map_of (os_last_run (fold sched_step ops (new_orch_scheduler x))) i = Some t \<longleftrightarrow> last_ran ops i t"
proof (induction ops rule: rev_induct)
  case Nil
  then show ?case by (simp add: new_orch_scheduler_def last_ran_def)
next
  case (snoc op ops)
  then show ?case
    by (cases op) (auto simp: last_ran_snoc register_plan_def unregister_plan_def mark_plan_run_def notify_completed_def
        map_of_update map_of_delete_iff delete_conv)
qed

lemma completed_trace:
  "d \<in> set (os_completed (fold sched_step ops (new_orch_scheduler x))) \<longleftrightarrow> Notify d \<in> set ops"
proof (induction ops rule: rev_induct)
  case Nil
  then show ?case by (simp add: new_orch_scheduler_def)
next
  case (snoc op ops)
  then show ?case
    by (cases op) (auto simp: register_plan_def unregister_plan_def mark_plan_run_def notify_completed_def)
qed

definition sched_ok :: "orch_scheduler \<Rightarrow> bool" where
  "sched_ok s \<longleftrightarrow> (\<forall>i p. map_of (os_plans s) i = Some p \<longrightarrow> op_id p = i \<and>
     (op_schedule_mode p = SCHEDULED \<longrightarrow> map_of (os_scheduled_at s) i \<noteq> None \<and>
        (\<forall>t. op_scheduled_at p = Some t \<longrightarrow> map_of (os_scheduled_at s) i = Some t)))"

lemma map_of_count_run:
  "map_of (count_run i d) j = (if j = i then map_option (\<lambda>p. p\<lparr>op_run_count := op_run_count p + 1\<rparr>) (map_of d j) else map_of d j)"
  unfolding count_run_def by (induction d) auto

lemma sched_ok_register: "sched_ok s \<Longrightarrow> sched_ok (register_plan p now s)"
  by (cases "op_schedule_mode p") (simp_all add: sched_ok_def register_plan_def map_of_delete_iff split: option.split)

lemma sched_ok_unregister: "sched_ok s \<Longrightarrow> sched_ok (snd (unregister_plan i s))"
  by (simp add: sched_ok_def unregister_plan_def map_of_delete_iff)

lemma sched_ok_mark: "sched_ok s \<Longrightarrow> sched_ok (mark_plan_run i now s)"
  by (auto simp: sched_ok_def mark_plan_run_def map_of_count_run)

lemma sched_ok_step: "sched_ok s \<Longrightarrow> sched_ok (sched_step op s)"
  by (cases op) (simp_all add: sched_ok_register sched_ok_unregister sched_ok_mark, simp add: sched_ok_def notify_completed_def)

lemma sched_ok_trace: "sched_ok (fold sched_step ops (new_orch_scheduler x))"
proof (induction ops rule: rev_induct)
  case Nil
  then show ?case by (simp add: sched_ok_def new_orch_scheduler_def)
next
  case (snoc op ops)
  then show ?case by (simp add: sched_ok_step)
qed

text \<open>After any registrations, runs, completions and removals a registered plan is due
  exactly when: it is immediate and has not run since it was last taken out; it is scheduled,
  has not run and its trigger time has come; it is recurring, has runs left and its interval has
  passed since its last run; it depends on plans, has not run and all of them have completed at
  some time.  Registering a plan again never makes it due again.\<close>

theorem plan_due_iff:
  assumes "s = fold sched_step ops (new_orch_scheduler x)" "map_of (os_plans s) i = Some p"
  shows "p \<in> set (due_plans now s) \<longleftrightarrow>
    (case op_schedule_mode p of
       IMMEDIATE \<Rightarrow> \<nexists>t. last_ran ops i t
     | SCHEDULED \<Rightarrow> (\<nexists>t. last_ran ops i t) \<and> (\<exists>t \<le> now. map_of (os_scheduled_at s) i = Some t \<and>
          (op_scheduled_at p = None \<or> op_scheduled_at p = Some t))
     | RECURRING_PLAN \<Rightarrow> (op_max_runs p = 0 \<or> op_run_count p < op_max_runs p) \<and>
          (\<forall>t. last_ran ops i t \<longrightarrow> t + plan_interval s p \<le> now)
     | DEPENDENCY_PLAN \<Rightarrow> (\<nexists>t. last_ran ops i t) \<and> (\<forall>d \<in> set (op_depends_on p). Notify d \<in> set ops))"
proof -
  have ok: "sched_ok s" using sched_ok_trace assms(1) by simp
  have im: "(i, p) \<in> set (os_plans s)" using assms(2) by (rule map_of_SomeD)
  from ok assms(2) have id: "op_id p = i" and tr: "op_schedule_mode p = SCHEDULED \<Longrightarrow> map_of (os_scheduled_at s) i \<noteq> None \<and>
      (\<forall>t. op_scheduled_at p = Some t \<longrightarrow> map_of (os_scheduled_at s) i = Some t)"
    by (auto simp: sched_ok_def)
  have "p \<in> snd ` set (os_plans s)" using im by force
  then have due: "p \<in> set (due_plans now s) \<longleftrightarrow> is_due now s p" by (simp add: due_plans_def)
  have lr: "map_of (os_last_run s) i = Some t \<longleftrightarrow> last_ran ops i t" for t unfolding assms(1) by (rule last_run_trace)
  then have ln: "map_of (os_last_run s) i = None \<longleftrightarrow> (\<nexists>t. last_ran ops i t)" by (metis not_None_eq)
  have co: "d \<in> set (os_completed s) \<longleftrightarrow> Notify d \<in> set ops" for d unfolding assms(1) by (rule completed_trace)
  show ?thesis
  proof (cases "op_schedule_mode p")
    case SCHEDULED
    then show ?thesis using tr unfolding due is_due_def Let_def id
      by (cases "op_scheduled_at p") (auto simp: ln split: option.splits)
  next
    case RECURRING_PLAN
    have "last_ran ops i u \<longleftrightarrow> map_of (os_last_run s) i = Some u" for u using lr ..
    then show ?thesis using RECURRING_PLAN unfolding due is_due_def Let_def id
      by (cases "map_of (os_last_run s) i") auto
  next
    case DEPENDENCY_PLAN
    then show ?thesis unfolding due is_due_def Let_def id
      by (auto simp: ln co filter_empty_conv)
  qed (simp add: due is_due_def Let_def id ln)
qed

definition dependent_plan :: orchestration_plan where
  "dependent_plan =
     \<lparr>op_id = ''b'', op_name = ''b'', op_pipeline = \<lparr>pl_id = ''p'', pl_name = ''p'', pl_stages = []\<rparr>,
      op_schedule_mode = DEPENDENCY_PLAN, op_scheduled_at = None, op_interval_seconds = None, op_max_runs = 0,
      op_depends_on = [''a''], op_run_count = 0\<rparr>"

theorem plan_due_iff_witness:
  "dependent_plan \<in> set (due_plans 9 (fold sched_step [Register dependent_plan 1, MarkRun ''a'' 2, Notify ''a''] (new_orch_scheduler 3600)))"
proof -
  let ?ops = "[Register dependent_plan 1, MarkRun ''a'' 2, Notify ''a'']"
  let ?s = "fold sched_step ?ops (new_orch_scheduler 3600)"
  have "map_of (os_plans ?s) ''b'' = Some dependent_plan"
    by (simp add: new_orch_scheduler_def register_plan_def mark_plan_run_def notify_completed_def count_run_def dependent_plan_def)
  moreover have "\<nexists>t. last_ran ?ops ''b'' t" by (auto simp: last_ran_def append_eq_Cons_conv Cons_eq_append_conv)
  ultimately show ?thesis using plan_due_iff[of ?s ?ops 3600 "''b''" dependent_plan 9] by (simp add: dependent_plan_def)
qed

end
