(* ===== verification/OrchEngine.thy ===== *)
theory OrchEngine
  imports PipelineRun OrchScheduler
begin

text \<open>
  The orchestration engine (\<^verbatim>\<open>orchestration/engine.py\<close>) over the runner, the scheduler, the
  state store, checkpoints, rollback and recovery: one execution of a plan, the automatic
  recovery after a failed one, and the control operations.  Plans arrive as the planner built
  them; the run count of a plan is kept with the engine's and the scheduler's entry for it,
  which are the same object in the code.
\<close>

record engine_config =
  ec_runner :: runner_config
  ec_recovery :: recovery_config
  ec_has_memory :: bool

record orch_engine =
  en_plans :: "(name, orchestration_plan) dict"
  en_scheduler :: orch_scheduler
  en_store :: state_store
  en_world :: orch_world
  en_running :: bool
  en_started_at :: "time option"

definition new_orch_engine :: "rat \<Rightarrow> int \<Rightarrow> orch_engine" where
  "new_orch_engine interval max_records =
     \<lparr>en_plans = [], en_scheduler = new_orch_scheduler interval, en_store = new_state_store max_records,
      en_world = new_world, en_running = False, en_started_at = None\<rparr>"

text \<open>\<^verbatim>\<open>_utcnow()\<close>.\<close>

definition read_clock :: "orch_env \<Rightarrow> orch_engine \<Rightarrow> time \<times> orch_engine" where
  "read_clock env en =
     (oe_time env (ow_tick (en_world en)),
      en\<lparr>en_world := (en_world en)\<lparr>ow_tick := Suc (ow_tick (en_world en))\<rparr>\<rparr>)"

text \<open>The end of \<^verbatim>\<open>plan\<close>, once the planner has built it.\<close>

definition add_plan :: "orch_env \<Rightarrow> orchestration_plan \<Rightarrow> orch_engine \<Rightarrow> orch_engine" where
  "add_plan env plan en =
     (case read_clock env en of
        (now, en1) \<Rightarrow> en1\<lparr>en_plans := AList.update (op_id plan) plan (en_plans en1),
                          en_scheduler := register_plan plan now (en_scheduler en1)\<rparr>)"

definition list_plans :: "orch_engine \<Rightarrow> orchestration_plan list" where
  "list_plans en = map snd (en_plans en)"

definition get_plan :: "name \<Rightarrow> orch_engine \<Rightarrow> orch_error + orchestration_plan" where
  "get_plan i en =
     (case map_of (en_plans en) i of
        Some p \<Rightarrow> Inr p
      | None \<Rightarrow>
          (case List.find (\<lambda>p. op_name p = i) (list_plans en) of
             Some p \<Rightarrow> Inr p
           | None \<Rightarrow> Inl (PlanNotFoundError i)))"

section \<open>Execution\<close>

definition execute_once ::
  "orch_env \<Rightarrow> engine_config \<Rightarrow> orchestration_plan \<Rightarrow> checkpoint option \<Rightarrow> orch_world \<Rightarrow>
   (orch_error + execution_state \<times> execution_metrics) \<times> orch_world"
where
  "execute_once env cfg plan ck w =
     (case run_pipeline env (ec_runner cfg) plan ck w of
        (Inr r, w1) \<Rightarrow> (Inr r, w1)
      | (Inl e, w1) \<Rightarrow>
          if is_orchestration_error e
          then (Inr (\<lparr>es_pipeline_id = pl_id (op_pipeline plan), es_plan_id = op_id plan, es_status = PFailed,
                      es_current_stage_id = None, es_current_task_id = None, es_task_statuses = [],
                      es_task_results = [], es_task_errors = [], es_attempts = [], es_started_at = None,
                      es_completed_at = None, es_error = Some (error_text e), es_recovered_from = None,
                      es_updated_at = oe_time env (ow_tick w1), es_events = [], es_recovery_attempts = None\<rparr>,
                     new_metrics),
                w1\<lparr>ow_tick := Suc (ow_tick w1)\<rparr>)
          else (Inl e, w1))"

text \<open>
  The recovery loop of \<^verbatim>\<open>run\<close>: \<^verbatim>\<open>k\<close> attempts were made and \<^verbatim>\<open>left\<close> are left.  What it writes to
  the state before the next execution is lost with that state.
\<close>

fun auto_recovery ::
  "orch_env \<Rightarrow> engine_config \<Rightarrow> orchestration_plan \<Rightarrow> nat \<Rightarrow> nat \<Rightarrow> execution_state \<times> execution_metrics \<Rightarrow>
   recovery_outcome option \<Rightarrow> orch_world \<Rightarrow>
   (orch_error + (execution_state \<times> execution_metrics) \<times> recovery_outcome option) \<times> orch_world"
where
  "auto_recovery env cfg plan k 0 r rec w = (Inr (r, rec), w)"
| "auto_recovery env cfg plan k (Suc left) r rec w =
     (if es_status (fst r) = PFailed \<and> rv_auto_recover (ec_recovery cfg) \<and> rv_enabled (ec_recovery cfg)
      then case recover_run (ec_recovery cfg) plan (''auto-recovery (attempt '' @ nat_text (k + 1) @ '')'')
                  (Some (undo_task env (ec_has_memory cfg))) w of
             (Inl _, w1) \<Rightarrow> (Inr (r, rec), w1)
           | (Inr (ro, ck), w1) \<Rightarrow>
               if \<not> ro_success ro then (Inr (r, Some ro), w1)
               else (let w2 = w1\<lparr>ow_totals := (ow_totals w1)\<lparr>em_recoveries_performed := em_recoveries_performed (ow_totals w1) + 1\<rparr>\<rparr>;
                         w3 = (if rc_event_enabled (ec_runner cfg) ''pipeline.recovered''
                               then w2\<lparr>ow_published := ow_published w2 @ [(''pipeline.recovered'', op_id plan)]\<rparr> else w2)
                     in case execute_once env cfg plan ck w3 of
                          (Inl e, w4) \<Rightarrow> (Inl e, w4)
                        | (Inr r1, w4) \<Rightarrow> auto_recovery env cfg plan (k + 1) left r1 (Some ro) w4)
      else (Inr (r, rec), w))"

definition mark_active :: "orch_env \<Rightarrow> orch_engine \<Rightarrow> orch_engine" where
  "mark_active env en =
     (if en_running en then en
      else case read_clock env en of (now, en1) \<Rightarrow> en1\<lparr>en_running := True, en_started_at := Some now\<rparr>)"

text \<open>The end of \<^verbatim>\<open>run\<close>: the state is saved, the record is added and dependent plans are released.\<close>

definition finish_execution ::
  "orch_env \<Rightarrow> orchestration_plan \<Rightarrow> execution_state \<times> execution_metrics \<Rightarrow> recovery_outcome option \<Rightarrow> orch_engine \<Rightarrow>
   execution_record \<times> orch_engine"
where
  "finish_execution env plan r rec en =
     (case read_clock env (en\<lparr>en_store := save_state (fst r) (en_store en)\<rparr>) of
        (now, en1) \<Rightarrow>
          (let xr = \<lparr>xr_plan_id = op_id plan, xr_plan_name = op_name plan, xr_pipeline_id = pl_id (op_pipeline plan),
                     xr_state = fst r, xr_metrics = snd r,
                     xr_rollback_plan = get_rollback_plan (op_id plan) (en_world en1), xr_recovery = rec,
                     xr_events = es_events (fst r), xr_recorded_at = now\<rparr>;
               en2 = en1\<lparr>en_store := add_record xr (en_store en1)\<rparr>
           in (xr, if es_status (fst r) = PCompleted
                   then en2\<lparr>en_scheduler := notify_completed (op_id plan) (en_scheduler en2)\<rparr> else en2)))"

definition engine_run ::
  "orch_env \<Rightarrow> engine_config \<Rightarrow> orchestration_plan \<Rightarrow> checkpoint option \<Rightarrow> orch_engine \<Rightarrow>
   (orch_error + execution_record) \<times> orch_engine"
where
  "engine_run env cfg plan ck en =
     (case read_clock env (mark_active env en) of
        (now, en1) \<Rightarrow>
          (let en2 = en1\<lparr>en_scheduler := mark_plan_run (op_id plan) now (en_scheduler en1),
                         en_plans := count_run (op_id plan) (en_plans en1)\<rparr>
           in case execute_once env cfg plan ck (en_world en2) of
                (Inl e, w) \<Rightarrow> (Inl e, en2\<lparr>en_world := w\<rparr>)
              | (Inr r, w) \<Rightarrow>
                  (case auto_recovery env cfg plan 0 (nat (rv_max_attempts (ec_recovery cfg))) r None w of
                     (Inl e, w1) \<Rightarrow> (Inl e, en2\<lparr>en_world := w1\<rparr>)
                   | (Inr (r1, rec), w1) \<Rightarrow>
                       (case finish_execution env plan r1 rec (en2\<lparr>en_world := w1\<rparr>) of (xr, en3) \<Rightarrow> (Inr xr, en3)))))"

section \<open>Control operations\<close>

definition engine_start ::
  "orch_env \<Rightarrow> engine_config \<Rightarrow> orchestration_plan \<Rightarrow> orch_engine \<Rightarrow>
   (orch_error + execution_record + orchestration_plan) \<times> orch_engine"
where
  "engine_start env cfg plan en =
     (if op_schedule_mode plan = IMMEDIATE
      then (case engine_run env cfg plan None en of
              (Inl e, en1) \<Rightarrow> (Inl e, en1)
            | (Inr xr, en1) \<Rightarrow> (Inr (Inl xr), en1))
      else (case read_clock env en of
              (now, en1) \<Rightarrow> (Inr (Inr plan), en1\<lparr>en_scheduler := schedule_plan plan now (en_scheduler en1)\<rparr>)))"

definition engine_resume ::
  "orch_env \<Rightarrow> engine_config \<Rightarrow> name \<Rightarrow> name option \<Rightarrow> orch_engine \<Rightarrow> (orch_error + execution_record) \<times> orch_engine"
where
  "engine_resume env cfg i ck en =
     (case get_plan i en of
        Inl e \<Rightarrow> (Inl e, en)
      | Inr plan \<Rightarrow>
          (case (if ck \<noteq> None \<and> ck \<noteq> Some [] then restore_checkpoint (the ck) (en_world en)
                 else latest_checkpoint (pl_id (op_pipeline plan)) (en_world en)) of
             None \<Rightarrow> (Inl (CheckpointError (''No checkpoint available for plan '' @ i)), en)
           | Some c \<Rightarrow> engine_run env cfg plan (Some c) en))"

definition engine_retry ::
  "orch_env \<Rightarrow> engine_config \<Rightarrow> name \<Rightarrow> orch_engine \<Rightarrow> (orch_error + execution_record) \<times> orch_engine" where
  "engine_retry env cfg i en =
     (case get_plan i en of Inl e \<Rightarrow> (Inl e, en) | Inr plan \<Rightarrow> engine_run env cfg plan None en)"

definition engine_rollback ::
  "orch_env \<Rightarrow> engine_config \<Rightarrow> name \<Rightarrow> string \<Rightarrow> orch_engine \<Rightarrow> (orch_error + rollback_plan) \<times> orch_engine" where
  "engine_rollback env cfg i reason en =
     (case get_plan i en of
        Inl e \<Rightarrow> (Inl e, en)
      | Inr plan \<Rightarrow>
          if \<not> has_handlers (en_world en)
          then (Inl (RollbackError (''No rollback handlers registered for plan '' @ i)), en)
          else (case execute_rollback plan reason (Some (undo_task env (ec_has_memory cfg))) (en_world en) of
                  (Inl e, w) \<Rightarrow> (Inl e, en\<lparr>en_world := w\<rparr>)
                | (Inr rb, w) \<Rightarrow>
                    (Inr rb, en\<lparr>en_world := w\<lparr>ow_totals := (ow_totals w)\<lparr>em_rollbacks_executed :=
                                   em_rollbacks_executed (ow_totals w) + 1\<rparr>\<rparr>\<rparr>)))"

text \<open>\<^verbatim>\<open>run_once\<close> of the scheduler, whose callback is \<^verbatim>\<open>_run_due\<close>: errors are logged and dropped.\<close>

fun run_due :: "orch_env \<Rightarrow> engine_config \<Rightarrow> orchestration_plan list \<Rightarrow> orch_engine \<Rightarrow> orch_engine" where
  "run_due env cfg [] en = en"
| "run_due env cfg (p # ps) en = run_due env cfg ps (snd (engine_run env cfg p None en))"

definition run_once :: "orch_env \<Rightarrow> engine_config \<Rightarrow> orch_engine \<Rightarrow> orchestration_plan list \<times> orch_engine" where
  "run_once env cfg en =
     (case read_clock env en of
        (now, en1) \<Rightarrow> (let due = due_plans now (en_scheduler en1) in (due, run_due env cfg due en1)))"

definition engine_history :: "name option \<Rightarrow> orch_engine \<Rightarrow> execution_record list" where
  "engine_history i en = run_history i (en_store en)"

definition engine_checkpoints :: "name option \<Rightarrow> orch_engine \<Rightarrow> checkpoint list" where
  "engine_checkpoints p en =
     (if p \<noteq> None \<and> p \<noteq> Some [] then list_checkpoints (the p) (en_world en) else all_checkpoints (en_world en))"

definition active_plan_count :: "orch_engine \<Rightarrow> nat" where
  "active_plan_count en =
     length (filter (\<lambda>e. es_status e \<in> {PRunning, PRecovering}) (list_states (en_store en)))"

section \<open>Lemmas\<close>

lemma mark_active_world: "ledger (en_world (mark_active env en)) = ledger (en_world en)"
  by (simp add: mark_active_def read_clock_def)

lemma finish_execution_effect:
  assumes "finish_execution env plan r rec en = (xr, en1)"
  shows "xr_state xr = fst r" "xr_recovery xr = rec" "ledger (en_world en1) = ledger (en_world en)"
    "get_plan_state (es_plan_id (fst r)) (en_store en1) = Some (fst r)"
    "plan_completed (op_id plan) (en_scheduler en1) \<longleftrightarrow>
       es_status (fst r) = PCompleted \<or> plan_completed (op_id plan) (en_scheduler en)"
    "os_last_run (en_scheduler en1) = os_last_run (en_scheduler en)"
  using assms
  by (auto simp: finish_execution_def read_clock_def Let_def get_plan_state_def add_record_def save_state_def
      plan_completed_def notify_completed_def split: if_splits)

lemma auto_recovery_completed:
  "es_status (fst r) = PCompleted \<Longrightarrow> auto_recovery env cfg plan k left r rec w = (Inr (r, rec), w)"
  by (cases left) simp_all

text \<open>The tasks whose undo succeeds, the last registered first.\<close>

definition undone_tasks :: "undo \<Rightarrow> 'w orch_world_scheme \<Rightarrow> name list" where
  "undone_tasks f w =
     filter (\<lambda>i. f i (fst (dget ([], []) (ow_handlers w) i)) (snd (dget ([], []) (ow_handlers w) i)) = None)
       (rev (ow_order w))"

text \<open>The configured sequence restores the latest checkpoint and undoes the registered tasks.\<close>

lemma recover_default:
  assumes "rv_enabled cfg" "recovery_sequence cfg = [''checkpoint_restore'', ''rollback'', ''retry'']"
    and "rv_restore_latest cfg" "latest_checkpoint (pl_id (op_pipeline plan)) w = Some c"
    and "handlers_ok w" "ow_order w \<noteq> []"
  shows "\<exists>ro w1. recover_run cfg plan reason (Some f) w = (Inr (ro, Some c), w1) \<and> ro_success ro \<and>
    xw_runs w1 = xw_runs w \<and> ow_undone w1 = ow_undone w @ undone_tasks f w \<and> ow_order w1 = [] \<and> ow_handlers w1 = []"
proof -
  have h: "has_handlers w" using assms(5,6) by (auto simp: has_handlers_def handlers_ok_def)
  obtain rb w1 where rb: "execute_rollback plan reason (Some f) w = (Inr rb, w1)" "ow_order w1 = []" "ow_handlers w1 = []"
    "ow_undone w1 = ow_undone w @ undone_tasks f w" "xw_runs w1 = xw_runs w"
    using execute_rollback_ok[OF assms(5,6), of plan reason "Some f"] unfolding undone_tasks_def by auto
  show ?thesis
    using assms(1-4) h rb
    by (simp add: recover_run_def recovery_action_of_def restore_latest_def recovery_rollback_def)
qed

text \<open>
  A resumed execution, whatever it starts, neither runs nor changes the status of a task that its
  checkpoint has as completed, although the recovery before it has undone the task.
\<close>

lemma resumed_execution_keeps_completed:
  assumes "stage_graph (ec_runner cfg) plan = Inr g" "distinct (map pt_id (all_tasks (op_pipeline plan)))"
    and "es_status (ck_state c) = PRunning" "dict_ok (es_task_statuses (ck_state c))"
  shows "\<exists>r w1 rs. execute_once env cfg plan (Some c) w = (Inr r, w1) \<and> xw_runs w1 = xw_runs w @ rs \<and>
    (\<forall>i. task_status (ck_state c) i = TCompleted \<longrightarrow> i \<notin> set rs \<and> task_status (fst r) i = TCompleted)"
proof -
  have init: "initial_state plan (Some c) (oe_time env (ow_tick w)) = Inr (ck_state c)"
    using assms(3) by (simp add: initial_state_def)
  from run_pipeline_result[OF init assms(1,2,4)] obtain st m w1 rs where
    r: "run_pipeline env (ec_runner cfg) plan (Some c) w = (Inr (st, m), w1)" "xw_runs w1 = xw_runs w @ rs"
      "\<And>i. i \<in> set rs \<Longrightarrow> task_status (ck_state c) i \<in> {TPending, TReady}"
      "\<And>i. moved (task_status (ck_state c) i) (task_status st i)"
    by metis
  have "i \<notin> set rs \<and> task_status st i = TCompleted" if "task_status (ck_state c) i = TCompleted" for i
    using r(3)[of i] r(4)[of i] that by (auto simp: moved_def)
  with r(1,2) show ?thesis by (auto simp: execute_once_def)
qed

section \<open>Properties\<close>

text \<open>The world in which \<^verbatim>\<open>run\<close> executes the plan.\<close>

definition run_world :: "orch_env \<Rightarrow> orch_engine \<Rightarrow> orch_world" where
  "run_world env en = en_world (snd (read_clock env (mark_active env en)))"

text \<open>C20: with automatic recovery and the configured sequence of actions, a run whose execution
  fails is recovered from its latest checkpoint.  When every task of the stages that the
  checkpoint leaves is settled (completed, skipped, cancelled or failed, or interrupted in a
  parallel stage) the run is recorded as completed and releases the plans that depend on it,
  although the recovery runs no handler: failed tasks are not retried, and every registered task
  is undone while the record keeps it completed.\<close>

theorem auto_recovery_masks_failure:
  assumes "execute_once env cfg plan ck (run_world env en) = (Inr r, w)" "es_status (fst r) = PFailed"
    and "rv_enabled (ec_recovery cfg)" "rv_auto_recover (ec_recovery cfg)" "0 < rv_max_attempts (ec_recovery cfg)"
    and "recovery_sequence (ec_recovery cfg) = [''checkpoint_restore'', ''rollback'', ''retry'']"
    and "rv_restore_latest (ec_recovery cfg)"
    and "stage_graph (ec_runner cfg) plan = Inr g" "0 < rc_max_workers (ec_runner cfg)"
    and "0 < dc_max_parallel_tasks (rc_deps (ec_runner cfg))"
    and "latest_checkpoint (pl_id (op_pipeline plan)) w = Some c"
    and "es_status (ck_state c) = PRunning" "dict_ok (es_task_statuses (ck_state c))"
    and "\<forall>stage \<in> set (drop (ck_stage_index c) (pl_stages (op_pipeline plan))). stage_settled stage (task_status (ck_state c))"
    and "handlers_ok w" "ow_order w \<noteq> []"
  shows "\<exists>xr en1. engine_run env cfg plan ck en = (Inr xr, en1) \<and> es_status (xr_state xr) = PCompleted \<and>
    plan_completed (op_id plan) (en_scheduler en1) \<and> xw_runs (en_world en1) = xw_runs w \<and>
    ow_undone (en_world en1) = ow_undone w @ undone_tasks (undo_task env (ec_has_memory cfg)) w \<and>
    (\<forall>i. task_status (ck_state c) i = TFailed \<longrightarrow> task_status (xr_state xr) i \<in> {TFailed, TSkipped}) \<and>
    (\<forall>i. task_status (ck_state c) i \<noteq> TFailed \<longrightarrow> task_status (xr_state xr) i = task_status (ck_state c) i)"
proof -
  obtain left where left: "nat (rv_max_attempts (ec_recovery cfg)) = Suc left"
    using assms(5) by (metis Suc_pred zero_less_nat_eq)
  obtain ro w1 where ro: "recover_run (ec_recovery cfg) plan (''auto-recovery (attempt '' @ nat_text (0 + 1) @ '')'')
        (Some (undo_task env (ec_has_memory cfg))) w = (Inr (ro, Some c), w1)" "ro_success ro" "xw_runs w1 = xw_runs w"
    "ow_undone w1 = ow_undone w @ undone_tasks (undo_task env (ec_has_memory cfg)) w"
    using recover_default[OF assms(3,6,7,11,15,16)] by metis
  define w2 where "w2 = w1\<lparr>ow_totals := (ow_totals w1)\<lparr>em_recoveries_performed := em_recoveries_performed (ow_totals w1) + 1\<rparr>\<rparr>"
  define w3 where "w3 = (if rc_event_enabled (ec_runner cfg) ''pipeline.recovered''
                         then w2\<lparr>ow_published := ow_published w2 @ [(''pipeline.recovered'', op_id plan)]\<rparr> else w2)"
  have w3: "xw_runs w3 = xw_runs w1" "ow_undone w3 = ow_undone w1" by (simp_all add: w3_def w2_def)
  obtain st m w4 where st: "run_pipeline env (ec_runner cfg) plan (Some c) w3 = (Inr (st, m), w4)" "es_status st = PCompleted"
    "ledger w4 = ledger w3" "\<forall>i. task_status (ck_state c) i = TFailed \<longrightarrow> task_status st i \<in> {TFailed, TSkipped}"
    "\<forall>i. task_status (ck_state c) i \<noteq> TFailed \<longrightarrow> task_status st i = task_status (ck_state c) i"
    using resumed_run_hides_failure[OF assms(8-10,12-14), of env w3] by blast
  have ex: "execute_once env cfg plan (Some c) w3 = (Inr (st, m), w4)" using st(1) by (simp add: execute_once_def)
  have loop: "auto_recovery env cfg plan 0 (Suc left) r None w = (Inr ((st, m), Some ro), w4)"
  proof -
    have cond: "es_status (fst r) = PFailed \<and> rv_auto_recover (ec_recovery cfg) \<and> rv_enabled (ec_recovery cfg)"
      using assms(2-4) by simp
    have ok: "\<not> \<not> ro_success ro" using ro(2) by simp
    show ?thesis
      unfolding auto_recovery.simps(2) if_P[OF cond] ro(1) prod.case sum.case if_not_P[OF ok] Let_def
      unfolding w2_def[symmetric] unfolding w3_def[symmetric] ex prod.case sum.case
      by (rule auto_recovery_completed) (simp add: st(2))
  qed
  obtain now en1 where rc: "read_clock env (mark_active env en) = (now, en1)"
    by (cases "read_clock env (mark_active env en)")
  let ?en2 = "en1\<lparr>en_scheduler := mark_plan_run (op_id plan) now (en_scheduler en1), en_plans := count_run (op_id plan) (en_plans en1)\<rparr>"
  have rw: "run_world env en = en_world ?en2" by (simp add: run_world_def rc)
  obtain xr en3 where fin: "finish_execution env plan (st, m) (Some ro) (?en2\<lparr>en_world := w4\<rparr>) = (xr, en3)"
    by (cases "finish_execution env plan (st, m) (Some ro) (?en2\<lparr>en_world := w4\<rparr>)")
  note f = finish_execution_effect[OF fin]
  have "engine_run env cfg plan ck en = (Inr xr, en3)"
    unfolding engine_run_def rc prod.case Let_def
    using assms(1) loop fin unfolding rw left by simp
  moreover have "ledger (en_world en3) = ledger w4" using f(3) by simp
  then have "xw_runs (en_world en3) = xw_runs w" "ow_undone (en_world en3) = ow_undone w @ undone_tasks (undo_task env (ec_has_memory cfg)) w"
    using st(3) w3 ro(3,4) by (simp_all add: ledger_def)
  ultimately show ?thesis using f(1,5) st(2,4,5) by auto
qed

definition failing :: outcomes where
  "failing t k = (if pt_id t = ''b'' then Inl (OtherError ''ValueError'' ''x'') else Inr (JObj []))"

definition recovering_config :: engine_config where
  "recovering_config =
     \<lparr>ec_runner = demo_runner,
      ec_recovery = \<lparr>rv_enabled = True, rv_strategy = ''checkpoint_first'',
        rv_actions = [''checkpoint_restore'', ''rollback'', ''retry''], rv_restore_latest = True, rv_retry_failed = True,
        rv_rollback_unrecoverable = True, rv_auto_recover = True, rv_max_attempts = 3\<rparr>,
      ec_has_memory = False\<rparr>"

definition undoable_plan :: orchestration_plan where
  "undoable_plan = demo_plan [demo_task ''a'' [], demo_task ''b'' [''a'']]"

definition failing_env :: orch_env where
  "failing_env = demo_orch_env\<lparr>oe_outcomes := failing\<rparr>"

text \<open>What a run of a small plan unfolds to.\<close>

lemmas run_eval = run_pipeline_def initial_state_def run_stages.simps exec_stage_def stage_graph_def undoable_plan_def demo_plan_def demo_runner_def
  new_dependency_graph_def demo_pipeline_def demo_task_def all_tasks_def task_map_def default_deps_config_def find_cycle_def search_fuel_def
  task_ids_def task_deps_def task_dependencies_of_def required_def exec_sequential.simps start_task_def finish_task_def apply_task_result_def
  mark_skipped_def notify_def monitor_event_def status_of_def set_status_def ids_with_def ready_tasks_def dep_satisfied_def
  execute_task_def task_retry_def demo_executor_def dispatch_task_def coordinator_execute_def failing_env_def demo_orch_env_def failing_def new_world_def
  write_checkpoint_def create_checkpoint_def enforce_cap_def checkpoints_of_def task_checkpoint_enabled_def count_retries_def completed_result_def
  failed_task_result_def retryable_def run_failure_def fail_run_def complete_run_def stamp_def transition_task_def transition_pipeline_def
  can_transition_task_def can_transition_pipeline_def merge_metrics_def new_metrics_def register_handler_def truthy.simps Let_def started_run_def first_stage_def
  attempt_loop.simps execute_once_def run_world_def read_clock_def mark_active_def new_orch_engine_def recovering_config_def
  error_text.simps latest_checkpoint_def checkpoint_key_def AList.update.simps handlers_ok_def stage_settled_def task_status_def

lemma failing_execution:
  "case execute_once failing_env recovering_config undoable_plan None (run_world failing_env (new_orch_engine 3600 10)) of
     (Inr r, w) \<Rightarrow>
       es_status (fst r) = PFailed \<and> handlers_ok w \<and> ow_order w = [''a''] \<and> ow_undone w = [] \<and>
       map_of (ow_handlers w) ''a'' = Some (''noop'', []) \<and>
       (case latest_checkpoint ''p'' w of
          None \<Rightarrow> False
        | Some c \<Rightarrow> es_status (ck_state c) = PRunning \<and> dict_ok (es_task_statuses (ck_state c)) \<and>
            (\<forall>stage \<in> set (drop (ck_stage_index c) (pl_stages (op_pipeline undoable_plan))).
               stage_settled stage (task_status (ck_state c))) \<and>
            task_status (ck_state c) ''a'' = TCompleted \<and> task_status (ck_state c) ''b'' = TFailed)
   | (Inl _, _) \<Rightarrow> False"
  by (simp add: run_eval cong: let_weak_cong)

theorem auto_recovery_masks_failure_witness:
  "\<exists>xr en1. engine_run failing_env recovering_config undoable_plan None (new_orch_engine 3600 10) = (Inr xr, en1) \<and>
     es_status (xr_state xr) = PCompleted \<and> task_status (xr_state xr) ''a'' = TCompleted \<and>
     task_status (xr_state xr) ''b'' \<in> {TFailed, TSkipped} \<and> ow_undone (en_world en1) = [''a'']"
proof -
  let ?env = failing_env and ?cfg = recovering_config and ?p = undoable_plan and ?en = "new_orch_engine 3600 10"
  obtain g where g: "stage_graph (ec_runner ?cfg) ?p = Inr g"
    using demo_graph unfolding undoable_plan_def recovering_config_def engine_config.simps by blast
  obtain r w where e: "execute_once ?env ?cfg ?p None (run_world ?env ?en) = (Inr r, w)"
    using failing_execution by (auto split: prod.splits sum.splits)
  from failing_execution[unfolded e prod.case sum.case] obtain c where c: "es_status (fst r) = PFailed" "handlers_ok w"
    "ow_order w = [''a'']" "ow_undone w = []" "latest_checkpoint ''p'' w = Some c" "es_status (ck_state c) = PRunning"
    "dict_ok (es_task_statuses (ck_state c))" "task_status (ck_state c) ''a'' = TCompleted" "task_status (ck_state c) ''b'' = TFailed"
    "\<forall>stage \<in> set (drop (ck_stage_index c) (pl_stages (op_pipeline ?p))). stage_settled stage (task_status (ck_state c))"
    "map_of (ow_handlers w) ''a'' = Some (''noop'', [])"
    by (auto split: option.splits)
  have cfg: "rv_enabled (ec_recovery ?cfg)" "rv_auto_recover (ec_recovery ?cfg)" "0 < rv_max_attempts (ec_recovery ?cfg)"
    "recovery_sequence (ec_recovery ?cfg) = [''checkpoint_restore'', ''rollback'', ''retry'']" "rv_restore_latest (ec_recovery ?cfg)"
    "0 < rc_max_workers (ec_runner ?cfg)" "0 < dc_max_parallel_tasks (rc_deps (ec_runner ?cfg))"
    by (simp_all add: recovering_config_def recovery_sequence_def demo_runner_def default_deps_config_def)
  have pid: "pl_id (op_pipeline ?p) = ''p''" by (simp add: undoable_plan_def demo_plan_def demo_pipeline_def)
  have u: "undone_tasks (undo_task ?env (ec_has_memory ?cfg)) w = [''a'']"
    using c(11) by (simp add: undone_tasks_def c(3) undo_task_def dget_def)
  have lc: "latest_checkpoint (pl_id (op_pipeline ?p)) w = Some c" using c(5) pid by simp
  have on: "ow_order w \<noteq> []" using c(3) by simp
  obtain xr en1 where x:
    "engine_run ?env ?cfg ?p None ?en = (Inr xr, en1)" "es_status (xr_state xr) = PCompleted"
    "ow_undone (en_world en1) = ow_undone w @ undone_tasks (undo_task ?env (ec_has_memory ?cfg)) w"
    "\<forall>i. task_status (ck_state c) i = TFailed \<longrightarrow> task_status (xr_state xr) i \<in> {TFailed, TSkipped}"
    "\<forall>i. task_status (ck_state c) i \<noteq> TFailed \<longrightarrow> task_status (xr_state xr) i = task_status (ck_state c) i"
    using auto_recovery_masks_failure[OF e c(1) cfg(1-5) g cfg(6,7) lc c(6,7,10,2) on] by blast
  have "task_status (xr_state xr) ''b'' \<in> {TFailed, TSkipped}" using x(4) c(9) by blast
  moreover have "task_status (xr_state xr) ''a'' = TCompleted" using x(5) c(8) by simp
  moreover have "ow_undone (en_world en1) = [''a'']" using x(3) c(4) u by simp
  ultimately show ?thesis using x(1,2) by blast
qed

end
