(* ===== verification/DecisionModel.thy ===== *)
theory DecisionModel
  imports Condition
begin

text \<open>
  Decisions and the rules that judge them (\<^verbatim>\<open>decision/models.py\<close>, \<^verbatim>\<open>risk.py\<close>, \<^verbatim>\<open>policy.py\<close>,
  \<^verbatim>\<open>approval.py\<close>, \<^verbatim>\<open>routing.py\<close>, \<^verbatim>\<open>matrix.py\<close>).  Scores are rationals instead of floats.  The
  values of contexts, options and conditions are JSON values; an order comparison or a product
  with a value that is no number raises a \<^verbatim>\<open>TypeError\<close>.
\<close>

section \<open>Decisions\<close>

datatype DecisionStatus =
    DPending | DApproved | DRejected | DEscalated | DDeferred | DCancelled | DInReview | DAwaitingInfo

datatype DecisionPriority = PLow | PMedium | PHigh | PCritical | PEmergency

datatype DecisionCategory =
    CStrategic | COperational | CFinancial | CTechnical | CHr | CCompliance | CGovernance | CRisk | COther

fun decision_status_value :: "DecisionStatus \<Rightarrow> string" where
  "decision_status_value DPending = ''pending''"
| "decision_status_value DApproved = ''approved''"
| "decision_status_value DRejected = ''rejected''"
| "decision_status_value DEscalated = ''escalated''"
| "decision_status_value DDeferred = ''deferred''"
| "decision_status_value DCancelled = ''cancelled''"
| "decision_status_value DInReview = ''in_review''"
| "decision_status_value DAwaitingInfo = ''awaiting_info''"

fun decision_priority_value :: "DecisionPriority \<Rightarrow> int" where
  "decision_priority_value PLow = 1"
| "decision_priority_value PMedium = 2"
| "decision_priority_value PHigh = 3"
| "decision_priority_value PCritical = 4"
| "decision_priority_value PEmergency = 5"

fun decision_category_value :: "DecisionCategory \<Rightarrow> string" where
  "decision_category_value CStrategic = ''strategic''"
| "decision_category_value COperational = ''operational''"
| "decision_category_value CFinancial = ''financial''"
| "decision_category_value CTechnical = ''technical''"
| "decision_category_value CHr = ''hr''"
| "decision_category_value CCompliance = ''compliance''"
| "decision_category_value CGovernance = ''governance''"
| "decision_category_value CRisk = ''risk''"
| "decision_category_value COther = ''other''"

definition all_decision_statuses :: "DecisionStatus list" where
  "all_decision_statuses =
     [DPending, DApproved, DRejected, DEscalated, DDeferred, DCancelled, DInReview, DAwaitingInfo]"

definition all_decision_priorities :: "DecisionPriority list" where
  "all_decision_priorities = [PLow, PMedium, PHigh, PCritical, PEmergency]"

definition all_decision_categories :: "DecisionCategory list" where
  "all_decision_categories =
     [CStrategic, COperational, CFinancial, CTechnical, CHr, CCompliance, CGovernance, CRisk, COther]"

text \<open>\<^verbatim>\<open>DecisionStatus(v)\<close> and its like: the member with the value, \<^verbatim>\<open>None\<close> is a \<^verbatim>\<open>ValueError\<close>.\<close>

definition decision_status_of :: "string \<Rightarrow> DecisionStatus option" where
  "decision_status_of v = List.find (\<lambda>x. decision_status_value x = v) all_decision_statuses"

definition decision_priority_of :: "int \<Rightarrow> DecisionPriority option" where
  "decision_priority_of v = List.find (\<lambda>x. decision_priority_value x = v) all_decision_priorities"

definition decision_category_of :: "string \<Rightarrow> DecisionCategory option" where
  "decision_category_of v = List.find (\<lambda>x. decision_category_value x = v) all_decision_categories"

lemma decision_enum_roundtrip [simp]:
  "decision_status_of (decision_status_value s) = Some s"
  "decision_priority_of (decision_priority_value p) = Some p"
  "decision_category_of (decision_category_value c) = Some c"
  subgoal by (cases s) (simp_all add: decision_status_of_def all_decision_statuses_def)
  subgoal by (cases p) (simp_all add: decision_priority_of_def all_decision_priorities_def)
  subgoal by (cases c) (simp_all add: decision_category_of_def all_decision_categories_def)
  done

text \<open>The fields that are no enumerations are a record of their own: \<^verbatim>\<open>to_dict\<close> copies them.\<close>

record decision_fields =
  d_id :: name
  d_title :: string
  d_description :: string
  d_requester :: string
  d_owner :: string
  d_stakeholders :: "string list"
  d_options :: "(string, json) dict list"
  d_selected_option :: "string option"
  d_rationale :: "string option"
  d_risk_score :: "rat option"
  d_risk_factors :: "string list"
  d_approval_required :: bool
  d_approved_by :: "string option"
  d_escalation_path :: "string list"
  d_tags :: "string list"
  d_created_at :: time
  d_updated_at :: "time option"
  d_resolved_at :: "time option"
  d_metadata :: "(string, json) dict"
  d_context :: "(string, json) dict"
  d_constraints :: "string list"
  d_dependents :: "string list"

record decision = decision_fields +
  d_category :: DecisionCategory
  d_priority :: DecisionPriority
  d_status :: DecisionStatus

datatype py_error = TypeError | ValueError string | KeyError string

text \<open>An order comparison of a value with a number.\<close>

definition compare_value :: "(rat \<Rightarrow> bool) \<Rightarrow> json \<Rightarrow> py_error + bool" where
  "compare_value f v = (case number_of v of None \<Rightarrow> Inl TypeError | Some q \<Rightarrow> Inr (f q))"

section \<open>Risk\<close>

record risk_factor =
  rf_name :: string
  rf_weight :: rat
  rf_description :: string
  rf_category :: string

definition default_factors :: "risk_factor list" where
  "default_factors =
     [\<lparr>rf_name = ''financial_impact'', rf_weight = 3, rf_description = ''Financial impact of decision'', rf_category = ''financial''\<rparr>,
      \<lparr>rf_name = ''compliance_risk'', rf_weight = 4, rf_description = ''Regulatory and compliance risk'', rf_category = ''compliance''\<rparr>,
      \<lparr>rf_name = ''reputation_risk'', rf_weight = 5/2, rf_description = ''Reputation impact'', rf_category = ''strategic''\<rparr>,
      \<lparr>rf_name = ''operational_impact'', rf_weight = 2, rf_description = ''Impact on operations'', rf_category = ''operational''\<rparr>,
      \<lparr>rf_name = ''technical_complexity'', rf_weight = 3/2, rf_description = ''Technical implementation risk'', rf_category = ''technical''\<rparr>,
      \<lparr>rf_name = ''stakeholder_impact'', rf_weight = 2, rf_description = ''Impact on stakeholders'', rf_category = ''social''\<rparr>,
      \<lparr>rf_name = ''time_pressure'', rf_weight = 1, rf_description = ''Time constraints'', rf_category = ''operational''\<rparr>,
      \<lparr>rf_name = ''data_security'', rf_weight = 9/2, rf_description = ''Data security implications'', rf_category = ''compliance''\<rparr>]"

definition budget_risk :: "json \<Rightarrow> py_error + rat" where
  "budget_risk budget =
     (case number_of budget of
        None \<Rightarrow> Inl TypeError
      | Some b \<Rightarrow> Inr (if 100000 < b then 3/10 else if 50000 < b then 1/5 else if 10000 < b then 1/10 else 0))"

definition category_risk :: "risk_factor \<Rightarrow> decision \<Rightarrow> py_error + rat" where
  "category_risk f d =
     (if rf_category f = ''financial'' then budget_risk (dget (JNum 0) (d_context d) ''budget'')
      else if rf_category f = ''compliance''
      then Inr ((if d_category d = CCompliance then 2/5 else 0) + (if d_category d = CGovernance then 3/10 else 0))
      else if rf_category f = ''strategic'' then Inr (if d_category d = CStrategic then 3/10 else 0)
      else Inr 0)"

definition evaluate_factor :: "risk_factor \<Rightarrow> decision \<Rightarrow> py_error + rat" where
  "evaluate_factor f d =
     ebind (category_risk f d) (\<lambda>adjust.
       let base = of_int (decision_priority_value (d_priority d)) / 5 + adjust;
           base1 = (case dget (JList []) (d_context d) ''risk_factors'' of
                      JList names \<Rightarrow> if JStr (rf_name f) \<in> set names then base + 1/5 else base
                    | _ \<Rightarrow> base)
       in Inr (min 1 base1))"

text \<open>The loop over the factors: the sum of the weighted scores.\<close>

fun weighted_score :: "risk_factor list \<Rightarrow> decision \<Rightarrow> rat \<Rightarrow> py_error + rat" where
  "weighted_score [] d acc = Inr acc"
| "weighted_score (f # fs) d acc =
     ebind (evaluate_factor f d) (\<lambda>score. weighted_score fs d (acc + score * rf_weight f))"

definition calculate_risk :: "risk_factor list \<Rightarrow> decision \<Rightarrow> py_error + rat" where
  "calculate_risk fs d =
     (let total = sum_list (map rf_weight fs)
      in if fs = [] then Inr 0
         else if total = 0 then Inr 0
         else ebind (weighted_score fs d 0) (\<lambda>s. Inr (min 1 (s / total))))"

fun factor_scores :: "risk_factor list \<Rightarrow> decision \<Rightarrow> py_error + (string \<times> rat) list" where
  "factor_scores [] d = Inr []"
| "factor_scores (f # fs) d =
     ebind (evaluate_factor f d) (\<lambda>score.
       ebind (factor_scores fs d) (\<lambda>rest. Inr (if 1/2 < score then (rf_name f, score) # rest else rest)))"

definition identify_factors :: "risk_factor list \<Rightarrow> decision \<Rightarrow> py_error + string list" where
  "identify_factors fs d =
     ebind (factor_scores fs d) (\<lambda>scores. Inr (map fst (take 5 (sort_key (\<lambda>x. - snd x) scores))))"

definition add_factor :: "risk_factor \<Rightarrow> risk_factor list \<Rightarrow> risk_factor list" where
  "add_factor f fs = fs @ [f]"

record factor_detail =
  fd_score :: rat
  fd_weight :: rat
  fd_description :: string
  fd_category :: string
  fd_contribution :: rat

fun factor_details :: "risk_factor list \<Rightarrow> decision \<Rightarrow> (string, factor_detail) dict \<Rightarrow> py_error + (string, factor_detail) dict" where
  "factor_details [] d acc = Inr acc"
| "factor_details (f # fs) d acc =
     ebind (evaluate_factor f d) (\<lambda>score.
       factor_details fs d
         (AList.update (rf_name f)
            \<lparr>fd_score = score, fd_weight = rf_weight f, fd_description = rf_description f,
             fd_category = rf_category f, fd_contribution = score * rf_weight f\<rparr> acc))"

definition risk_level :: "rat \<Rightarrow> string" where
  "risk_level score =
     (if score < 1/5 then ''very_low'' else if score < 2/5 then ''low'' else if score < 3/5 then ''medium''
      else if score < 4/5 then ''high'' else ''critical'')"

section \<open>Policies\<close>

record policy_actions =
  pa_type :: "string option"
  pa_constraint :: string
  pa_owner :: string

record policy =
  po_id :: name
  po_name :: string
  po_description :: string
  po_scope :: string
  po_enabled :: bool
  po_priority :: int
  po_conditions :: "(string, json) dict"
  po_actions :: policy_actions

text \<open>One turn of the loop over the conditions: whether the decision meets it.\<close>

definition meets_condition :: "decision \<Rightarrow> string \<times> json \<Rightarrow> py_error + bool" where
  "meets_condition d c =
     (case c of (key, v) \<Rightarrow>
        if key = ''min_priority'' then compare_value (\<lambda>q. \<not> of_int (decision_priority_value (d_priority d)) < q) v
        else if key = ''max_priority'' then compare_value (\<lambda>q. \<not> of_int (decision_priority_value (d_priority d)) > q) v
        else if key = ''category'' then Inr (py_eq (JStr (decision_category_value (d_category d))) v)
        else if key = ''risk_max''
        then compare_value (\<lambda>q. \<not> (case d_risk_score d of None \<Rightarrow> 0 | Some r \<Rightarrow> r) > q) v
        else Inr True)"

fun meets_all :: "decision \<Rightarrow> (string \<times> json) list \<Rightarrow> py_error + bool" where
  "meets_all d [] = Inr True"
| "meets_all d (c # cs) = ebind (meets_condition d c) (\<lambda>b. if b then meets_all d cs else Inr False)"

definition policy_applies :: "policy \<Rightarrow> decision \<Rightarrow> py_error + bool" where
  "policy_applies p d =
     (if \<not> po_enabled p then Inr False
      else if po_scope p \<noteq> ''global'' \<and>
              \<not> py_eq (dget (JStr (decision_category_value (d_category d))) (d_context d) ''scope'') (JStr (po_scope p))
      then Inr False
      else meets_all d (po_conditions p))"

definition policy_action :: "policy \<Rightarrow> decision \<Rightarrow> decision \<times> string list" where
  "policy_action p d =
     (case pa_type (po_actions p) of
        None \<Rightarrow> (d, [])
      | Some t \<Rightarrow>
          if t = ''require_approval'' then (d\<lparr>d_approval_required := True\<rparr>, [''Approval required by policy '' @ po_name p])
          else if t = ''auto_approve'' then (d\<lparr>d_approval_required := False\<rparr>, [''Auto-approved by policy '' @ po_name p])
          else if t = ''add_constraint''
          then (let c = pa_constraint (po_actions p)
                in if c \<noteq> [] then (d\<lparr>d_constraints := d_constraints d @ [c]\<rparr>, [''Constraint added: '' @ c]) else (d, []))
          else if t = ''set_owner''
          then (let w = pa_owner (po_actions p)
                in if w \<noteq> [] then (d\<lparr>d_owner := w\<rparr>, [''Owner set to '' @ w]) else (d, []))
          else if t = ''escalate'' then (d, [''Escalation triggered by policy '' @ po_name p])
          else (d, []))"

definition enforce_policy :: "policy \<Rightarrow> decision \<Rightarrow> py_error + decision \<times> string list" where
  "enforce_policy p d = ebind (policy_applies p d) (\<lambda>b. Inr (if b then policy_action p d else (d, [])))"

text \<open>
  \<^verbatim>\<open>PolicyEngine.enforce\<close>: an exception leaves the decision as the policies before have made it.
\<close>

fun enforce_list :: "policy list \<Rightarrow> decision \<Rightarrow> string list \<Rightarrow> (py_error + string list) \<times> decision" where
  "enforce_list [] d acc = (Inr acc, d)"
| "enforce_list (p # ps) d acc =
     (case enforce_policy p d of
        Inl e \<Rightarrow> (Inl e, d)
      | Inr (d1, rs) \<Rightarrow> enforce_list ps d1 (acc @ rs))"

definition enforce_policies :: "(name, policy) dict \<Rightarrow> decision \<Rightarrow> (py_error + string list) \<times> decision" where
  "enforce_policies ps d = enforce_list (sort_key (\<lambda>p. - po_priority p) (map snd ps)) d []"

definition add_policy :: "policy \<Rightarrow> (name, policy) dict \<Rightarrow> (name, policy) dict" where
  "add_policy p ps = AList.update (po_id p) p ps"

definition remove_policy :: "name \<Rightarrow> (name, policy) dict \<Rightarrow> bool \<times> (name, policy) dict" where
  "remove_policy i ps = (if map_of ps i = None then (False, ps) else (True, AList.delete i ps))"

definition list_policies :: "string option \<Rightarrow> (name, policy) dict \<Rightarrow> policy list" where
  "list_policies scope ps =
     (case scope of
        Some s \<Rightarrow> if s \<noteq> [] then filter (\<lambda>p. po_scope p = s) (map snd ps) else map snd ps
      | None \<Rightarrow> map snd ps)"

section \<open>Approval rules and routes\<close>

record approval_rule =
  ar_rule_id :: name
  ar_name :: string
  ar_category :: "string option"
  ar_min_priority :: int
  ar_max_risk_score :: rat
  ar_requires_approval :: bool
  ar_approver_role :: string
  ar_escalation_role :: string
  ar_auto_approve :: bool
  ar_conditions :: "(string, json) dict"

text \<open>\<^verbatim>\<open>decision.context.get(key) != value\<close> for no condition.\<close>

definition context_matches :: "(string, json) dict \<Rightarrow> decision \<Rightarrow> bool" where
  "context_matches conditions d \<longleftrightarrow> list_all (\<lambda>(key, v). py_eq (dget JNull (d_context d) key) v) conditions"

definition category_matches :: "string option \<Rightarrow> decision \<Rightarrow> bool" where
  "category_matches c d \<longleftrightarrow> c = None \<or> c = Some [] \<or> c = Some (decision_category_value (d_category d))"

definition rule_matches :: "approval_rule \<Rightarrow> decision \<Rightarrow> bool" where
  "rule_matches r d \<longleftrightarrow>
     category_matches (ar_category r) d \<and>
     \<not> decision_priority_value (d_priority d) < ar_min_priority r \<and>
     (case d_risk_score d of None \<Rightarrow> True | Some s \<Rightarrow> \<not> ar_max_risk_score r < s) \<and>
     context_matches (ar_conditions r) d"

definition add_rule :: "approval_rule \<Rightarrow> approval_rule list \<Rightarrow> approval_rule list" where
  "add_rule r rules = rules @ [r]"

definition is_approval_required :: "approval_rule list \<Rightarrow> decision \<Rightarrow> bool" where
  "is_approval_required rules d =
     (case List.find (\<lambda>r. rule_matches r d) rules of Some r \<Rightarrow> ar_requires_approval r | None \<Rightarrow> True)"

definition get_approver :: "approval_rule list \<Rightarrow> string \<Rightarrow> decision \<Rightarrow> string" where
  "get_approver rules fallback d =
     (case List.find (\<lambda>r. rule_matches r d) rules of
        Some r \<Rightarrow> if ar_approver_role r \<noteq> [] then ar_approver_role r else fallback
      | None \<Rightarrow> fallback)"

definition can_auto_approve :: "approval_rule list \<Rightarrow> decision \<Rightarrow> bool" where
  "can_auto_approve rules d =
     (case List.find (\<lambda>r. rule_matches r d) rules of Some r \<Rightarrow> ar_auto_approve r | None \<Rightarrow> False)"

definition get_matching_rules :: "approval_rule list \<Rightarrow> decision \<Rightarrow> approval_rule list" where
  "get_matching_rules rules d = filter (\<lambda>r. rule_matches r d) rules"

record route_entry =
  re_route_id :: name
  re_category :: "string option"
  re_min_priority :: int
  re_max_priority :: int
  re_destination :: string
  re_conditions :: "(string, json) dict"

definition route_entry_matches :: "route_entry \<Rightarrow> decision \<Rightarrow> bool" where
  "route_entry_matches r d \<longleftrightarrow>
     category_matches (re_category r) d \<and>
     \<not> (decision_priority_value (d_priority d) < re_min_priority r \<or> re_max_priority r < decision_priority_value (d_priority d)) \<and>
     context_matches (re_conditions r) d"

definition add_route_entry :: "route_entry \<Rightarrow> route_entry list \<Rightarrow> route_entry list" where
  "add_route_entry r routes = routes @ [r]"

definition route_decision :: "route_entry list \<Rightarrow> string \<Rightarrow> decision \<Rightarrow> string" where
  "route_decision routes fallback d =
     (case List.find (\<lambda>r. route_entry_matches r d) routes of Some r \<Rightarrow> re_destination r | None \<Rightarrow> fallback)"

definition find_route :: "name \<Rightarrow> route_entry list \<Rightarrow> route_entry option" where
  "find_route i routes = List.find (\<lambda>r. re_route_id r = i) routes"

fun remove_route_entry :: "name \<Rightarrow> route_entry list \<Rightarrow> bool \<times> route_entry list" where
  "remove_route_entry i [] = (False, [])"
| "remove_route_entry i (r # rs) =
     (if re_route_id r = i then (True, rs)
      else case remove_route_entry i rs of (b, rest) \<Rightarrow> (b, r # rest))"

section \<open>Escalation paths\<close>

text \<open>
  \<^verbatim>\<open>determine_path\<close> follows the hierarchy from the owner; on a cycle it never returns, which is
  \<^verbatim>\<open>None\<close>.
\<close>

partial_function (option) path_loop :: "(string, string) dict \<Rightarrow> string \<Rightarrow> string list \<Rightarrow> string list option" where
  "path_loop h role path =
     (case map_of h role of
        Some up \<Rightarrow> path_loop h up (path @ [role])
      | None \<Rightarrow> Some (if role \<noteq> [] then path @ [role] else path))"

definition determine_path :: "(string, string) dict \<Rightarrow> decision \<Rightarrow> string list option" where
  "determine_path h d = path_loop h (if d_owner d \<noteq> [] then d_owner d else ''requester'') []"

definition next_level :: "decision \<Rightarrow> string" where
  "next_level d =
     (let path = d_escalation_path d
      in case path of
           [] \<Rightarrow> ''board''
         | _ \<Rightarrow>
             (let next = (case index_of (d_owner d) path of Some i \<Rightarrow> i + 1 | None \<Rightarrow> 0)
              in if next < length path then path ! next else last path))"

section \<open>The decision matrix\<close>

record criterion =
  cr_weight :: rat
  cr_description :: string
  cr_is_beneficial :: bool

type_synonym decision_option = "(string, json) dict"

definition add_criterion :: "string \<Rightarrow> criterion \<Rightarrow> (string, criterion) dict \<Rightarrow> (string, criterion) dict" where
  "add_criterion n c cs = AList.update n c cs"

text \<open>
  The key of an option: its \<^verbatim>\<open>id\<close>, or the hash of its text (\<^verbatim>\<open>hash_text\<close>); a list or a dictionary
  cannot be a key.  A Boolean is the same key as its number.
\<close>

definition option_key :: "(decision_option \<Rightarrow> string) \<Rightarrow> decision_option \<Rightarrow> py_error + json" where
  "option_key hash_text opt =
     (case dget (JStr (hash_text opt)) opt ''id'' of
        JList _ \<Rightarrow> Inl TypeError
      | JObj _ \<Rightarrow> Inl TypeError
      | JBool b \<Rightarrow> Inr (JNum (of_bool b))
      | k \<Rightarrow> Inr k)"

definition criterion_score :: "(string, rat) dict \<Rightarrow> decision_option \<Rightarrow> string \<times> criterion \<Rightarrow> py_error + rat" where
  "criterion_score weights opt c =
     (case c of (n, cr) \<Rightarrow>
        (case number_of (dget (JNum 0) opt n) of
           None \<Rightarrow> Inl TypeError
         | Some raw \<Rightarrow> Inr ((if cr_is_beneficial cr then raw else 1 - raw) * dget (cr_weight cr) weights n)))"

fun total_score :: "(string, rat) dict \<Rightarrow> decision_option \<Rightarrow> (string \<times> criterion) list \<Rightarrow> py_error + rat" where
  "total_score weights opt [] = Inr 0"
| "total_score weights opt (c # cs) =
     ebind (criterion_score weights opt c) (\<lambda>x. ebind (total_score weights opt cs) (\<lambda>y. Inr (x + y)))"

fun score_options ::
  "(decision_option \<Rightarrow> string) \<Rightarrow> (string, criterion) dict \<Rightarrow> (string, rat) dict \<Rightarrow> decision_option list \<Rightarrow>
   (json, rat) dict \<Rightarrow> py_error + (json, rat) dict"
where
  "score_options hash_text cs weights [] acc = Inr acc"
| "score_options hash_text cs weights (opt # opts) acc =
     ebind (total_score weights opt cs) (\<lambda>x.
       ebind (option_key hash_text opt) (\<lambda>k. score_options hash_text cs weights opts (AList.update k x acc)))"

text \<open>The scores and the ranking of \<^verbatim>\<open>evaluate\<close>.\<close>

definition evaluate_options ::
  "(decision_option \<Rightarrow> string) \<Rightarrow> (string, criterion) dict \<Rightarrow> decision_option list \<Rightarrow> (string, rat) dict option \<Rightarrow>
   py_error + (json, rat) dict \<times> json list"
where
  "evaluate_options hash_text cs opts weights =
     (if cs = [] then Inr ([], [])
      else let effective = (case weights of Some w \<Rightarrow> if w \<noteq> [] then w else map (\<lambda>(n, c). (n, cr_weight c)) cs
                            | None \<Rightarrow> map (\<lambda>(n, c). (n, cr_weight c)) cs)
           in ebind (score_options hash_text cs effective opts [])
                (\<lambda>scores. Inr (scores, sort_key (\<lambda>k. - dget 0 scores k) (keys scores))))"

definition get_top_option ::
  "(decision_option \<Rightarrow> string) \<Rightarrow> (string, criterion) dict \<Rightarrow> decision_option list \<Rightarrow> (string, rat) dict option \<Rightarrow>
   py_error + decision_option option"
where
  "get_top_option hash_text cs opts weights =
     ebind (evaluate_options hash_text cs opts weights) (\<lambda>(scores, ranking).
       Inr (case ranking of
              [] \<Rightarrow> None
            | best # _ \<Rightarrow> List.find (\<lambda>opt. py_eq (dget JNull opt ''id'') best) opts))"

definition get_option_score ::
  "(decision_option \<Rightarrow> string) \<Rightarrow> (string, criterion) dict \<Rightarrow> decision_option \<Rightarrow> (string, rat) dict option \<Rightarrow> py_error + rat"
where
  "get_option_score hash_text cs opt weights =
     ebind (evaluate_options hash_text cs [opt] weights) (\<lambda>(scores, _).
       ebind (option_key hash_text opt) (\<lambda>k. Inr (dget 0 scores k)))"

section \<open>Lemmas\<close>

text \<open>The risk of a decision is at least that of its priority, and at most one.\<close>

lemma evaluate_factor_bounds:
  assumes "evaluate_factor f d = Inr r"
  shows "of_int (decision_priority_value (d_priority d)) / 5 \<le> r" "r \<le> 1"
proof -
  have p: "of_int (decision_priority_value (d_priority d)) / 5 \<le> (1 :: rat)" by (cases "d_priority d") simp_all
  obtain a where a: "category_risk f d = Inr a" using assms by (cases "category_risk f d") (simp_all add: evaluate_factor_def)
  have "0 \<le> a"
    using a by (auto simp: category_risk_def budget_risk_def split: if_splits option.splits)
  then show "of_int (decision_priority_value (d_priority d)) / 5 \<le> r" "r \<le> 1"
    using assms a p by (auto simp: evaluate_factor_def Let_def split: json.splits if_splits)
qed

lemma weighted_score_bounds:
  "weighted_score fs d acc = Inr s \<Longrightarrow> \<forall>f \<in> set fs. 0 \<le> rf_weight f \<Longrightarrow>
   acc + of_int (decision_priority_value (d_priority d)) / 5 * sum_list (map rf_weight fs) \<le> s \<and>
   s \<le> acc + sum_list (map rf_weight fs)"
proof (induction fs arbitrary: acc)
  case Nil
  then show ?case by simp
next
  case (Cons f fs)
  define b where "b = (of_int (decision_priority_value (d_priority d)) / 5 :: rat)"
  from Cons.prems(1) obtain r where r: "evaluate_factor f d = Inr r" "weighted_score fs d (acc + r * rf_weight f) = Inr s"
    by (auto simp: ebind_Inr)
  have w: "0 \<le> rf_weight f" using Cons.prems(2) by simp
  note bnd = evaluate_factor_bounds[OF r(1), folded b_def]
  have "b * rf_weight f \<le> r * rf_weight f" "r * rf_weight f \<le> 1 * rf_weight f"
    using bnd w by (intro mult_right_mono; simp)+
  moreover have "acc + r * rf_weight f + b * sum_list (map rf_weight fs) \<le> s"
    "s \<le> acc + r * rf_weight f + sum_list (map rf_weight fs)"
    using Cons.IH[OF r(2)] Cons.prems(2) unfolding b_def by simp_all
  moreover have "b * sum_list (map rf_weight (f # fs)) = b * rf_weight f + b * sum_list (map rf_weight fs)"
    by (simp add: distrib_left)
  ultimately show ?case unfolding b_def[symmetric] list.map sum_list.Cons by linarith
qed

lemma calculate_risk_bounds:
  assumes "calculate_risk fs d = Inr r" "\<forall>f \<in> set fs. 0 \<le> rf_weight f" "0 < sum_list (map rf_weight fs)"
  shows "of_int (decision_priority_value (d_priority d)) / 5 \<le> r \<and> r \<le> 1"
proof -
  let ?t = "sum_list (map rf_weight fs)" and ?b = "of_int (decision_priority_value (d_priority d)) / 5 :: rat"
  have ne: "fs \<noteq> []" "?t \<noteq> 0" using assms(3) by auto
  from assms(1) ne obtain s where s: "weighted_score fs d 0 = Inr s" "r = min 1 (s / ?t)"
    by (auto simp: calculate_risk_def Let_def ebind_Inr)
  have "?b * ?t \<le> s" using weighted_score_bounds[OF s(1) assms(2)] by simp
  then have "?b \<le> s / ?t" using assms(3) by (simp add: pos_le_divide_eq)
  moreover have "?b \<le> 1" by (cases "d_priority d") simp_all
  ultimately show ?thesis using s(2) by simp
qed

text \<open>The walk along the hierarchy returns exactly when it does not run into a cycle.\<close>

definition superior_rel :: "(string, string) dict \<Rightarrow> (string \<times> string) set" where
  "superior_rel h = {(a, b). map_of h a = Some b}"

lemma superior_rel_single_valued: "single_valued (superior_rel h)"
  by (auto simp: superior_rel_def single_valued_def)

lemma finite_superior_rel: "finite (superior_rel h)"
proof -
  have "superior_rel h \<subseteq> set h" by (auto simp: superior_rel_def dest: map_of_SomeD)
  then show ?thesis by (rule finite_subset) simp
qed

lemma path_loop_cycle_free: "path_loop h role path = Some q \<Longrightarrow> cycle_free (superior_rel h) role"
proof (induction h role path q rule: path_loop.raw_induct[rotated, consumes 1, case_names walk])
  case (walk pl h role path q)
  show ?case
  proof (cases "map_of h role")
    case None
    then show ?thesis by (intro cycle_free_end) (simp add: superior_rel_def)
  next
    case (Some up)
    then have "cycle_free (superior_rel h) up" using walk by simp
    then show ?thesis using cycle_free_step[OF superior_rel_single_valued] Some by (auto simp: superior_rel_def)
  qed
qed

text \<open>Every role on the path but the last is followed by its superior.\<close>

fun chain_of :: "(string, string) dict \<Rightarrow> string list \<Rightarrow> bool" where
  "chain_of h (x # y # zs) \<longleftrightarrow> map_of h x = Some y \<and> chain_of h (y # zs)"
| "chain_of h _ \<longleftrightarrow> True"

lemma path_loop_returns:
  assumes "cycle_free (superior_rel h) role"
  shows "\<exists>q. (\<forall>path. path_loop h role path = Some (path @ q)) \<and> chain_of h q \<and>
    (q \<noteq> [] \<longrightarrow> hd q = role) \<and> (role \<noteq> [] \<longrightarrow> q \<noteq> [])"
  using finite_superior_rel assms
proof (induction rule: cycle_free_induct)
  case (walk r)
  show ?case
  proof (cases "map_of h r")
    case None
    then show ?thesis
      by (intro exI[of _ "if r \<noteq> [] then [r] else []"]) (auto simp: path_loop.simps[of h r])
  next
    case (Some up)
    then have "(r, up) \<in> superior_rel h" by (simp add: superior_rel_def)
    from walk.IH[OF this] obtain q where q: "\<forall>path. path_loop h up path = Some (path @ q)" "chain_of h q"
      "q \<noteq> [] \<longrightarrow> hd q = up" by blast
    have e: "path_loop h r path = Some (path @ r # q)" for path
      using q(1) Some by (simp add: path_loop.simps[of h r])
    have "chain_of h (r # q)" using q(2,3) Some by (cases q) simp_all
    then show ?thesis using e by (intro exI[of _ "r # q"]) simp
  qed
qed

end
