(* ===== verification/DecisionEngine.thy ===== *)
theory DecisionEngine
  imports DecisionModel
begin

text \<open>
  The decision engine (\<^verbatim>\<open>decision/engine.py\<close>), the history it writes (\<^verbatim>\<open>decision/history.py\<close>) and
  the approval inbox of the runtime facade, which rebuilds its engine from the history file.
  A decision is one object: the engine changes it in place, so the index of the history shows
  the change even when the operation fails before it is recorded.  The file is the list of the
  entries written to it; an instant stands for its ISO text.  The list of raw entries kept in
  memory is not modelled: its entries share their lists with the decision.
\<close>

section \<open>The history\<close>

record log_entry =
  le_fields :: decision_fields
  le_category :: string
  le_priority :: int
  le_status :: string
  le_recorded_at :: time

definition to_entry :: "time \<Rightarrow> decision \<Rightarrow> log_entry" where
  "to_entry now d =
     \<lparr>le_fields = decision_fields.truncate d, le_category = decision_category_value (d_category d),
      le_priority = decision_priority_value (d_priority d), le_status = decision_status_value (d_status d),
      le_recorded_at = now\<rparr>"

definition from_history_entry :: "log_entry \<Rightarrow> decision option" where
  "from_history_entry e =
     (case (decision_category_of (if le_category e = [] then ''other'' else le_category e),
            decision_status_of (if le_status e = [] then ''pending'' else le_status e),
            decision_priority_of (if le_priority e = 0 then 2 else le_priority e)) of
        (Some c, Some st, Some p) \<Rightarrow> Some (decision_fields.extend (le_fields e) (decision.fields c p st))
      | _ \<Rightarrow> None)"

record decision_history =
  dh_decisions :: "(name, decision) dict"
  dh_log :: "log_entry list"

definition record_decision :: "time \<Rightarrow> decision \<Rightarrow> decision_history \<Rightarrow> decision_history" where
  "record_decision now d h =
     h\<lparr>dh_decisions := AList.update (d_id d) d (dh_decisions h), dh_log := dh_log h @ [to_entry now d]\<rparr>"

definition get_decision :: "name \<Rightarrow> decision_history \<Rightarrow> decision option" where
  "get_decision i h = map_of (dh_decisions h) i"

definition get_all_decisions :: "decision_history \<Rightarrow> decision list" where
  "get_all_decisions h = map snd (dh_decisions h)"

definition import_decisions :: "decision list \<Rightarrow> decision_history \<Rightarrow> decision_history" where
  "import_decisions ds h = h\<lparr>dh_decisions := fold (\<lambda>d. AList.update (d_id d) d) ds (dh_decisions h)\<rparr>"

text \<open>\<^verbatim>\<open>DecisionHistory(path)\<close>: the entries are loaded, the index is not.\<close>

definition open_history :: "log_entry list \<Rightarrow> decision_history" where
  "open_history entries = \<lparr>dh_decisions = [], dh_log = entries\<rparr>"

record decision_query =
  q_status :: "string option"
  q_category :: "string option"
  q_owner :: "string option"
  q_requester :: "string option"
  q_priority :: "string option"
  q_tags :: "string list"
  q_start :: "time option"
  q_end :: "time option"
  q_limit :: int

text \<open>A filter that is given and not empty.\<close>

definition given :: "string option \<Rightarrow> (string \<Rightarrow> bool) \<Rightarrow> bool" where
  "given f test \<longleftrightarrow> (case f of None \<Rightarrow> True | Some v \<Rightarrow> v = [] \<or> test v)"

fun decision_priority_name :: "DecisionPriority \<Rightarrow> string" where
  "decision_priority_name PLow = ''LOW''"
| "decision_priority_name PMedium = ''MEDIUM''"
| "decision_priority_name PHigh = ''HIGH''"
| "decision_priority_name PCritical = ''CRITICAL''"
| "decision_priority_name PEmergency = ''EMERGENCY''"

definition query_selects :: "decision_query \<Rightarrow> decision \<Rightarrow> bool" where
  "query_selects q d \<longleftrightarrow>
     given (q_status q) (\<lambda>v. decision_status_value (d_status d) = v) \<and>
     given (q_category q) (\<lambda>v. decision_category_value (d_category d) = v) \<and>
     given (q_owner q) (\<lambda>v. d_owner d = v) \<and> given (q_requester q) (\<lambda>v. d_requester d = v) \<and>
     given (q_priority q) (\<lambda>v. lower (decision_priority_name (d_priority d)) = lower v) \<and>
     (q_tags q = [] \<or> list_ex (\<lambda>t. t \<in> set (d_tags d)) (q_tags q)) \<and>
     (case q_start q of None \<Rightarrow> True | Some t \<Rightarrow> t \<le> d_created_at d) \<and>
     (case q_end q of None \<Rightarrow> True | Some t \<Rightarrow> d_created_at d \<le> t)"

definition query_decisions :: "decision_query \<Rightarrow> decision_history \<Rightarrow> decision list" where
  "query_decisions q h =
     py_take (q_limit q) (sort_key (\<lambda>d. - d_created_at d) (filter (query_selects q) (get_all_decisions h)))"

text \<open>\<^verbatim>\<open>clear\<close> leaves the file as it is.\<close>

definition clear_history :: "decision_history \<Rightarrow> decision_history" where
  "clear_history h = h\<lparr>dh_decisions := []\<rparr>"

definition decision_count :: "decision_history \<Rightarrow> nat" where
  "decision_count h = length (dh_decisions h)"

section \<open>The engine\<close>

record decision_env =
  dv_time :: "nat \<Rightarrow> time"
  dv_stamp :: "time \<Rightarrow> string"

record decision_engine =
  de_criteria :: "(string, criterion) dict"
  de_rules :: "approval_rule list"
  de_hierarchy :: "(string, string) dict"
  de_factors :: "risk_factor list"
  de_policies :: "(name, policy) dict"
  de_history :: decision_history
  de_counter :: nat
  de_tick :: nat

definition decision_now :: "decision_env \<Rightarrow> decision_engine \<Rightarrow> time \<times> decision_engine" where
  "decision_now env en = (dv_time env (de_tick en), en\<lparr>de_tick := Suc (de_tick en)\<rparr>)"

definition record_now :: "decision_env \<Rightarrow> decision \<Rightarrow> decision_engine \<Rightarrow> decision_engine" where
  "record_now env d en =
     (case decision_now env en of (now, en1) \<Rightarrow> en1\<lparr>de_history := record_decision now d (de_history en1)\<rparr>)"

text \<open>The index shows a decision as it was changed in place.\<close>

definition change_decision :: "decision \<Rightarrow> decision_engine \<Rightarrow> decision_engine" where
  "change_decision d en =
     en\<lparr>de_history := (de_history en)\<lparr>dh_decisions :=
          (if map_of (dh_decisions (de_history en)) (d_id d) = None then dh_decisions (de_history en)
           else AList.update (d_id d) d (dh_decisions (de_history en)))\<rparr>\<rparr>"

record decision_request =
  dq_title :: string
  dq_description :: string
  dq_category :: "string + DecisionCategory"
  dq_priority :: "string + DecisionPriority"
  dq_requester :: string
  dq_owner :: string
  dq_stakeholders :: "string list"
  dq_options :: "decision_option list"
  dq_context :: "(string, json) dict"
  dq_tags :: "string list"
  dq_metadata :: "(string, json) dict"

definition request_category :: "string + DecisionCategory \<Rightarrow> py_error + DecisionCategory" where
  "request_category c =
     (case c of
        Inr x \<Rightarrow> Inr x
      | Inl s \<Rightarrow> (case decision_category_of s of Some x \<Rightarrow> Inr x | None \<Rightarrow> Inl (ValueError s)))"

definition request_priority :: "string + DecisionPriority \<Rightarrow> py_error + DecisionPriority" where
  "request_priority p =
     (case p of
        Inr x \<Rightarrow> Inr x
      | Inl s \<Rightarrow>
          (case List.find (\<lambda>x. lower (decision_priority_name x) = lower s) all_decision_priorities of
             Some x \<Rightarrow> Inr x
           | None \<Rightarrow>
               (case Option.bind (py_int s) decision_priority_of of Some x \<Rightarrow> Inr x | None \<Rightarrow> Inl (ValueError s))))"

definition decision_id :: "decision_env \<Rightarrow> time \<Rightarrow> nat \<Rightarrow> name" where
  "decision_id env now counter =
     ''decision_'' @ dv_stamp env now @ ''_'' @ replicate (4 - length (nat_text counter)) CHR ''0'' @ nat_text counter"

text \<open>The decision as \<^verbatim>\<open>Decision(...)\<close> makes it.\<close>

definition fresh_decision :: "name \<Rightarrow> time \<Rightarrow> DecisionCategory \<Rightarrow> DecisionPriority \<Rightarrow> decision_request \<Rightarrow> decision" where
  "fresh_decision i now c p rq =
     \<lparr>d_id = i, d_title = dq_title rq, d_description = dq_description rq, d_requester = dq_requester rq,
      d_owner = dq_owner rq, d_stakeholders = dq_stakeholders rq, d_options = dq_options rq, d_selected_option = None,
      d_rationale = None, d_risk_score = None, d_risk_factors = [], d_approval_required = True, d_approved_by = None,
      d_escalation_path = [], d_tags = dq_tags rq, d_created_at = now, d_updated_at = None, d_resolved_at = None,
      d_metadata = dq_metadata rq, d_context = dq_context rq, d_constraints = [], d_dependents = [],
      d_category = c, d_priority = p, d_status = DPending\<rparr>"

text \<open>The judgements of a new decision: risk, approval, path; \<^verbatim>\<open>None\<close> is a walk that never ends.\<close>

definition judge_decision :: "decision_engine \<Rightarrow> decision \<Rightarrow> (py_error + decision) option" where
  "judge_decision en d =
     (case calculate_risk (de_factors en) d of
        Inl e \<Rightarrow> Some (Inl e)
      | Inr risk \<Rightarrow>
          (let d1 = d\<lparr>d_risk_score := Some risk\<rparr>
           in case identify_factors (de_factors en) d1 of
                Inl e \<Rightarrow> Some (Inl e)
              | Inr names \<Rightarrow>
                  (let d2 = d1\<lparr>d_risk_factors := names\<rparr>;
                       d3 = d2\<lparr>d_approval_required := is_approval_required (de_rules en) d2\<rparr>
                   in map_option (\<lambda>path. Inr (d3\<lparr>d_escalation_path := path\<rparr>)) (determine_path (de_hierarchy en) d3))))"

definition create_decision ::
  "decision_env \<Rightarrow> decision_request \<Rightarrow> decision_engine \<Rightarrow> ((py_error + decision) \<times> decision_engine) option" where
  "create_decision env rq en =
     (let en1 = en\<lparr>de_counter := de_counter en + 1\<rparr>;
          (now, en2) = decision_now env en1;
          i = decision_id env now (de_counter en1)
      in case request_category (dq_category rq) of
           Inl e \<Rightarrow> Some (Inl e, en2)
         | Inr c \<Rightarrow>
             (case request_priority (dq_priority rq) of
                Inl e \<Rightarrow> Some (Inl e, en2)
              | Inr p \<Rightarrow>
                  (let (created, en3) = decision_now env en2
                   in case judge_decision en3 (fresh_decision i created c p rq) of
                        None \<Rightarrow> None
                      | Some (Inl e) \<Rightarrow> Some (Inl e, en3)
                      | Some (Inr d) \<Rightarrow> Some (Inr d, record_now env d en3))))"

definition get_reasoning :: "(name, policy) dict \<Rightarrow> decision \<Rightarrow> py_error + policy list \<times> policy list" where
  "get_reasoning ps d =
     foldr (\<lambda>p r. ebind (policy_applies p d) (\<lambda>b.
              ebind r (\<lambda>(yes, no). Inr (if b then (p # yes, no) else (yes, p # no)))))
       (map snd ps) (Inr ([], []))"

text \<open>The part of \<^verbatim>\<open>make_decision\<close> before the policies.\<close>

definition resolve_decision ::
  "time \<Rightarrow> time \<Rightarrow> string \<Rightarrow> string \<Rightarrow> string option \<Rightarrow> decision \<Rightarrow> decision" where
  "resolve_decision updated resolved selected rationale approved_by d =
     d\<lparr>d_selected_option := Some selected, d_rationale := Some rationale, d_approved_by := approved_by,
       d_updated_at := Some updated, d_resolved_at := Some resolved,
       d_status := (if d_approval_required d \<and> (approved_by = None \<or> approved_by = Some []) then DEscalated
                    else DApproved)\<rparr>"

definition make_decision ::
  "decision_env \<Rightarrow> string \<Rightarrow> string \<Rightarrow> string option \<Rightarrow> decision \<Rightarrow> decision_engine \<Rightarrow>
   (py_error + decision) \<times> decision_engine"
where
  "make_decision env selected rationale approved_by d en =
     (let (t1, en1) = decision_now env en;
          (t2, en2) = decision_now env en1;
          (r, d2) = enforce_policies (de_policies en2) (resolve_decision t1 t2 selected rationale approved_by d)
      in case r of
           Inl e \<Rightarrow> (Inl e, change_decision d2 en2)
         | Inr _ \<Rightarrow>
             (case get_reasoning (de_policies en2) d2 of
                Inl e \<Rightarrow> (Inl e, change_decision d2 en2)
              | Inr _ \<Rightarrow> (Inr d2, record_now env d2 en2)))"

definition escalate_decision :: "decision_env \<Rightarrow> string \<Rightarrow> decision \<Rightarrow> decision_engine \<Rightarrow> decision \<times> decision_engine" where
  "escalate_decision env note d en =
     (let (now, en1) = decision_now env en;
          d1 = d\<lparr>d_status := DEscalated, d_updated_at := Some now,
                 d_metadata := (if note \<noteq> [] then AList.update ''escalation_note'' (JStr note) (d_metadata d) else d_metadata d)\<rparr>;
          d2 = d1\<lparr>d_escalation_path := d_escalation_path d1 @ [next_level d1]\<rparr>
      in (d2, record_now env d2 en1))"

definition defer_decision ::
  "decision_env \<Rightarrow> string \<Rightarrow> string option \<Rightarrow> decision \<Rightarrow> decision_engine \<Rightarrow> decision \<times> decision_engine" where
  "defer_decision env reason until d en =
     (let (now, en1) = decision_now env en;
          m = AList.update ''defer_reason'' (JStr reason) (d_metadata d);
          d1 = d\<lparr>d_status := DDeferred, d_updated_at := Some now,
                 d_metadata := (case until of Some u \<Rightarrow> if u \<noteq> [] then AList.update ''defer_until'' (JStr u) m else m | None \<Rightarrow> m)\<rparr>
      in (d1, record_now env d1 en1))"

definition cancel_decision :: "decision_env \<Rightarrow> string \<Rightarrow> decision \<Rightarrow> decision_engine \<Rightarrow> decision \<times> decision_engine" where
  "cancel_decision env reason d en =
     (let (now, en1) = decision_now env en;
          d1 = d\<lparr>d_status := DCancelled, d_updated_at := Some now,
                 d_metadata := AList.update ''cancel_reason'' (JStr reason) (d_metadata d)\<rparr>
      in (d1, record_now env d1 en1))"

definition reject_decision :: "decision_env \<Rightarrow> string \<Rightarrow> decision \<Rightarrow> decision_engine \<Rightarrow> decision \<times> decision_engine" where
  "reject_decision env reason d en =
     (let (now, en1) = decision_now env en;
          (resolved, en2) = (case d_resolved_at d of Some t \<Rightarrow> (t, en1) | None \<Rightarrow> decision_now env en1);
          d1 = d\<lparr>d_status := DRejected, d_updated_at := Some now, d_resolved_at := Some resolved,
                 d_metadata := AList.update ''reject_reason'' (JStr reason) (d_metadata d)\<rparr>
      in (d1, record_now env d1 en2))"

definition set_hierarchy :: "(string, string) dict \<Rightarrow> decision_engine \<Rightarrow> decision_engine" where
  "set_hierarchy h en = en\<lparr>de_hierarchy := h\<rparr>"

definition list_decisions :: "decision_query \<Rightarrow> decision_engine \<Rightarrow> decision list" where
  "list_decisions q en = query_decisions q (de_history en)"

definition evaluate_decision ::
  "(decision_option \<Rightarrow> string) \<Rightarrow> decision \<Rightarrow> decision_option list \<Rightarrow> (string, rat) dict option \<Rightarrow> decision_engine \<Rightarrow>
   py_error + (json, rat) dict \<times> json list"
where
  "evaluate_decision hash_text d opts weights en =
     (let eval_options = (if opts \<noteq> [] then opts else d_options d)
      in if eval_options = [] then Inl (ValueError ''No options provided for evaluation'')
         else evaluate_options hash_text (de_criteria en) eval_options weights)"

record decision_statistics =
  ds_total :: nat
  ds_by_status :: "(string, nat) dict"
  ds_by_category :: "(string, nat) dict"
  ds_by_priority :: "(string, nat) dict"
  ds_average_risk :: rat

definition get_statistics :: "decision_engine \<Rightarrow> decision_statistics" where
  "get_statistics en =
     (let ds = get_all_decisions (de_history en); total = length ds
      in \<lparr>ds_total = total,
          ds_by_status = fold (\<lambda>d. count_up (decision_status_value (d_status d))) ds [],
          ds_by_category = fold (\<lambda>d. count_up (decision_category_value (d_category d))) ds [],
          ds_by_priority = fold (\<lambda>d. count_up (decision_priority_name (d_priority d))) ds [],
          ds_average_risk =
            (if 0 < total
             then sum_list (map (\<lambda>d. case d_risk_score d of None \<Rightarrow> 0 | Some r \<Rightarrow> r) ds) / of_nat total else 0)\<rparr>)"

section \<open>The approval inbox\<close>

text \<open>\<^verbatim>\<open>_decision_engine_instance\<close>: the engine of a process that starts on a history file.\<close>

definition new_inbox :: "log_entry list \<Rightarrow> nat \<Rightarrow> decision_engine" where
  "new_inbox entries tick =
     \<lparr>de_criteria = [], de_rules = [], de_hierarchy = [], de_factors = default_factors, de_policies = [],
      de_history = import_decisions (List.map_filter from_history_entry (last_n (10 ^ 6) entries)) (open_history entries),
      de_counter = 0, de_tick = tick\<rparr>"

datatype inbox_op =
    InboxCreate decision_request
  | InboxApprove name string string string
  | InboxReject name string
  | InboxEscalate name string
  | InboxCancel name string

definition inbox_open :: "decision \<Rightarrow> bool" where
  "inbox_open d \<longleftrightarrow> decision_status_value (d_status d) = ''pending'' \<or> decision_status_value (d_status d) = ''in_review''"

text \<open>The answer says whether the operation succeeded; exceptions become answers.\<close>

fun inbox_step :: "decision_env \<Rightarrow> inbox_op \<Rightarrow> decision_engine \<Rightarrow> bool \<times> decision_engine" where
  "inbox_step env (InboxCreate rq) en =
     (case create_decision env rq en of
        None \<Rightarrow> (False, en)
      | Some (r, en1) \<Rightarrow> (is_ok r, en1))"
| "inbox_step env (InboxApprove i selected rationale approver) en =
     (case get_decision i (de_history en) of
        None \<Rightarrow> (False, en)
      | Some d \<Rightarrow>
          if \<not> inbox_open d then (False, en)
          else (case make_decision env selected rationale (Some approver) d en of (r, en1) \<Rightarrow> (is_ok r, en1)))"
| "inbox_step env (InboxReject i reason) en =
     (case get_decision i (de_history en) of
        None \<Rightarrow> (False, en)
      | Some d \<Rightarrow> if \<not> inbox_open d then (False, en) else (True, snd (reject_decision env reason d en)))"
| "inbox_step env (InboxEscalate i note) en =
     (case get_decision i (de_history en) of
        None \<Rightarrow> (False, en)
      | Some d \<Rightarrow> (True, snd (escalate_decision env note d en)))"
| "inbox_step env (InboxCancel i reason) en =
     (case get_decision i (de_history en) of
        None \<Rightarrow> (False, en)
      | Some d \<Rightarrow> (True, snd (cancel_decision env reason d en)))"

fun inbox_run :: "decision_env \<Rightarrow> inbox_op list \<Rightarrow> decision_engine \<Rightarrow> decision_engine" where
  "inbox_run env [] en = en"
| "inbox_run env (a # acts) en = inbox_run env acts (snd (inbox_step env a en))"

text \<open>The ids of the decisions that a run creates.\<close>

fun created_ids :: "decision_env \<Rightarrow> inbox_op list \<Rightarrow> decision_engine \<Rightarrow> name list" where
  "created_ids env [] en = []"
| "created_ids env (a # acts) en =
     (case a of
        InboxCreate rq \<Rightarrow> (case create_decision env rq en of Some (Inr d, _) \<Rightarrow> [d_id d] | _ \<Rightarrow> [])
      | _ \<Rightarrow> []) @ created_ids env acts (snd (inbox_step env a en))"

section \<open>Lemmas\<close>

lemma from_history_entry_to_entry [simp]: "from_history_entry (to_entry now d) = Some d"
proof -
  have "decision_category_value (d_category d) \<noteq> []" by (cases "d_category d") simp_all
  moreover have "decision_status_value (d_status d) \<noteq> []" by (cases "d_status d") simp_all
  moreover have "decision_priority_value (d_priority d) \<noteq> 0" by (cases "d_priority d") simp_all
  ultimately show ?thesis
    by (simp add: from_history_entry_def to_entry_def decision_fields.defs decision.defs)
qed

text \<open>The index is what the entries of the log rebuild.\<close>

definition index_of_log :: "log_entry list \<Rightarrow> (name, decision) dict" where
  "index_of_log entries = fold (\<lambda>d. AList.update (d_id d) d) (List.map_filter from_history_entry entries) []"

definition inbox_inv :: "decision_engine \<Rightarrow> bool" where
  "inbox_inv en \<longleftrightarrow>
     dh_decisions (de_history en) = index_of_log (dh_log (de_history en)) \<and>
     de_policies en = [] \<and> de_rules en = [] \<and> de_hierarchy en = [] \<and> de_factors en = default_factors"

lemma fold_update_keyed:
  "\<forall>(k, d) \<in> set m. d_id d = k \<Longrightarrow>
   \<forall>(k, d) \<in> set (fold (\<lambda>d. AList.update (d_id d) (d :: decision)) ds m). d_id d = k"
proof (induction ds arbitrary: m)
  case (Cons a ds)
  have "\<forall>(k, d) \<in> set (AList.update (d_id a) a m). d_id d = k" using Cons.prems by (rule dict_all_update) simp
  from Cons.IH[OF this] show ?case by simp
qed simp

lemma inbox_keyed: "inbox_inv en \<Longrightarrow> get_decision i (de_history en) = Some d \<Longrightarrow> d_id d = i"
  using fold_update_keyed[of "[]" "List.map_filter from_history_entry (dh_log (de_history en))"]
  by (auto simp: inbox_inv_def index_of_log_def get_decision_def dest: map_of_SomeD)

lemma index_of_log_snoc [simp]:
  "index_of_log (entries @ [to_entry now d]) = AList.update (d_id d) d (index_of_log entries)"
  by (simp add: index_of_log_def List.map_filter_def)

lemma dh_record_decision [simp]:
  "dh_decisions (record_decision now d h) = AList.update (d_id d) d (dh_decisions h)"
  "dh_log (record_decision now d h) = dh_log h @ [to_entry now d]"
  by (simp_all add: record_decision_def)

lemma record_now_fields [simp]:
  "dh_decisions (de_history (record_now env d en)) = AList.update (d_id d) d (dh_decisions (de_history en))"
  "dh_log (de_history (record_now env d en)) = dh_log (de_history en) @ [to_entry (dv_time env (de_tick en)) d]"
  "de_policies (record_now env d en) = de_policies en" "de_rules (record_now env d en) = de_rules en"
  "de_hierarchy (record_now env d en) = de_hierarchy en" "de_factors (record_now env d en) = de_factors en"
  by (simp_all add: record_now_def decision_now_def)

lemma decision_now_fields [simp]:
  "de_history (snd (decision_now env en)) = de_history en" "de_policies (snd (decision_now env en)) = de_policies en"
  "de_hierarchy (snd (decision_now env en)) = de_hierarchy en" "de_factors (snd (decision_now env en)) = de_factors en"
  "de_rules (snd (decision_now env en)) = de_rules en"
  by (simp_all add: decision_now_def)

text \<open>An operation only moves the clock and the counter, and then may record a decision.\<close>

definition same_engine :: "decision_engine \<Rightarrow> decision_engine \<Rightarrow> bool" where
  "same_engine en en1 \<longleftrightarrow>
     de_history en1 = de_history en \<and> de_policies en1 = de_policies en \<and> de_rules en1 = de_rules en \<and>
     de_hierarchy en1 = de_hierarchy en \<and> de_factors en1 = de_factors en"

definition records :: "decision_env \<Rightarrow> decision \<Rightarrow> decision_engine \<Rightarrow> decision_engine \<Rightarrow> bool" where
  "records env d en en' \<longleftrightarrow> (\<exists>en1. same_engine en en1 \<and> en' = record_now env d en1)"

lemma recordsI: "same_engine en en1 \<Longrightarrow> records env d en (record_now env d en1)"
  by (auto simp: records_def)

lemma same_engine_now [simp]:
  "same_engine en (snd (decision_now env en))" "same_engine en (snd (decision_now env (snd (decision_now env en))))"
  "same_engine en en"
  by (simp_all add: same_engine_def)

lemma inbox_inv_same: "inbox_inv en \<Longrightarrow> same_engine en en1 \<Longrightarrow> inbox_inv en1"
  by (simp add: inbox_inv_def same_engine_def)

lemma inbox_inv_records: "inbox_inv en \<Longrightarrow> records env d en en' \<Longrightarrow> inbox_inv en'"
  by (auto simp: records_def inbox_inv_def same_engine_def)

lemma records_get:
  "records env d en en' \<Longrightarrow>
   get_decision i (de_history en') = (if i = d_id d then Some d else get_decision i (de_history en))"
  by (auto simp: records_def get_decision_def same_engine_def)

lemma create_decision_cases:
  assumes "create_decision env rq en = Some (r, en')"
  shows "(\<exists>e. r = Inl e) \<and> same_engine en en' \<or> (\<exists>d. r = Inr d \<and> records env d en en')"
  using assms
  by (auto simp: create_decision_def decision_now_def Let_def same_engine_def split: sum.splits option.splits
      intro!: recordsI)

lemma make_decision_no_policies:
  assumes "de_policies en = []"
  obtains t1 t2 where
    "fst (make_decision env selected rationale ab d en) = Inr (resolve_decision t1 t2 selected rationale ab d)"
    "records env (resolve_decision t1 t2 selected rationale ab d) en (snd (make_decision env selected rationale ab d en))"
proof
  show "fst (make_decision env selected rationale ab d en) =
      Inr (resolve_decision (dv_time env (de_tick en)) (dv_time env (Suc (de_tick en))) selected rationale ab d)"
    using assms by (simp add: make_decision_def decision_now_def enforce_policies_def get_reasoning_def Let_def)
  show "records env (resolve_decision (dv_time env (de_tick en)) (dv_time env (Suc (de_tick en))) selected rationale ab d)
      en (snd (make_decision env selected rationale ab d en))"
    using assms
    by (simp add: make_decision_def decision_now_def enforce_policies_def get_reasoning_def Let_def same_engine_def
        recordsI)
qed

lemma resolve_decision_id [simp]: "d_id (resolve_decision t1 t2 selected rationale ab d) = d_id d"
  by (simp add: resolve_decision_def)

lemma change_records:
  "records env (fst (reject_decision env reason d en)) en (snd (reject_decision env reason d en))"
  "records env (fst (escalate_decision env reason d en)) en (snd (escalate_decision env reason d en))"
  "records env (fst (cancel_decision env reason d en)) en (snd (cancel_decision env reason d en))"
  by (auto simp: reject_decision_def escalate_decision_def cancel_decision_def decision_now_def Let_def same_engine_def
      split: option.splits intro!: recordsI)

lemma changed_ids [simp]:
  "d_id (fst (reject_decision env reason d en)) = d_id d"
  "d_id (fst (escalate_decision env reason d en)) = d_id d"
  "d_id (fst (cancel_decision env reason d en)) = d_id d"
  by (simp_all add: reject_decision_def escalate_decision_def cancel_decision_def decision_now_def Let_def
      split: option.splits)

text \<open>One operation of the inbox: nothing is recorded, or a new decision, or a decision changed.\<close>

inductive inbox_effect :: "decision_env \<Rightarrow> inbox_op \<Rightarrow> decision_engine \<Rightarrow> decision_engine \<Rightarrow> bool"
  for env :: decision_env and a :: inbox_op and en :: decision_engine
where
  nothing: "same_engine en en' \<Longrightarrow> inbox_effect env a en en'"
| created: "a = InboxCreate rq \<Longrightarrow> create_decision env rq en = Some (Inr d, en') \<Longrightarrow> records env d en en' \<Longrightarrow>
    inbox_effect env a en en'"
| changed: "get_decision i (de_history en) = Some d \<Longrightarrow> d_id d' = d_id d \<Longrightarrow> records env d' en en' \<Longrightarrow>
    inbox_open d \<or> d_approved_by d' = d_approved_by d \<and> d_selected_option d' = d_selected_option d \<and>
      d_status d' \<in> {DEscalated, DCancelled} \<Longrightarrow>
    inbox_effect env a en en'"

lemma inbox_step_effect:
  assumes inv: "de_policies en = []"
  shows "inbox_effect env a en (snd (inbox_step env a en))"
proof (cases a)
  case (InboxCreate rq)
  show ?thesis
  proof (cases "create_decision env rq en")
    case None
    then have "snd (inbox_step env a en) = en" using InboxCreate by simp
    then show ?thesis using inbox_effect.nothing[OF same_engine_now(3), of env a en] by simp
  next
    case (Some x)
    obtain r en' where x: "x = (r, en')" by (cases x)
    from create_decision_cases[OF Some[unfolded x]] show ?thesis
      using InboxCreate Some x by (auto intro: inbox_effect.nothing inbox_effect.created)
  qed
next
  case (InboxApprove i selected rationale ap)
  show ?thesis
  proof (cases "get_decision i (de_history en)")
    case (Some d)
    from inv obtain t1 t2 where
      "records env (resolve_decision t1 t2 selected rationale (Some ap) d) en
         (snd (make_decision env selected rationale (Some ap) d en))"
      by (rule make_decision_no_policies)
    from inbox_effect.changed[OF Some resolve_decision_id this] InboxApprove Some show ?thesis
      by (auto split: prod.splits intro: inbox_effect.nothing)
  qed (use InboxApprove in \<open>auto intro: inbox_effect.nothing\<close>)
next
  case (InboxReject i reason)
  show ?thesis
  proof (cases "get_decision i (de_history en)")
    case (Some d)
    from inbox_effect.changed[OF Some changed_ids(1) change_records(1)] InboxReject Some show ?thesis by (auto intro: inbox_effect.nothing)
  qed (use InboxReject in \<open>auto intro: inbox_effect.nothing\<close>)
next
  case (InboxEscalate i reason)
  show ?thesis
  proof (cases "get_decision i (de_history en)")
    case (Some d)
    from inbox_effect.changed[OF Some changed_ids(2) change_records(2)[of env reason]] InboxEscalate Some show ?thesis
      by (auto simp: escalate_decision_def decision_now_def Let_def)
  qed (use InboxEscalate in \<open>auto intro: inbox_effect.nothing\<close>)
next
  case (InboxCancel i reason)
  show ?thesis
  proof (cases "get_decision i (de_history en)")
    case (Some d)
    from inbox_effect.changed[OF Some changed_ids(3) change_records(3)[of env reason]] InboxCancel Some show ?thesis
      by (auto simp: cancel_decision_def decision_now_def Let_def)
  qed (use InboxCancel in \<open>auto intro: inbox_effect.nothing\<close>)
qed

lemma inbox_inv_effect: "inbox_effect env a en en' \<Longrightarrow> inbox_inv en \<Longrightarrow> inbox_inv en'"
  by (induction rule: inbox_effect.induct) (auto intro: inbox_inv_same inbox_inv_records)

lemma inbox_inv_step [inv_intros]: "inbox_inv en \<Longrightarrow> inbox_inv (snd (inbox_step env a en))"
  by (rule inbox_inv_effect[OF inbox_step_effect]) (simp_all add: inbox_inv_def)

lemma inbox_inv_run [inv_intros]: "inbox_inv en \<Longrightarrow> inbox_inv (inbox_run env acts en)"
  by (induction acts arbitrary: en) (auto intro: inbox_inv_step)

lemma inbox_inv_new:
  assumes "length entries \<le> 10 ^ 6"
  shows "inbox_inv (new_inbox entries t)"
  using assms
  by (simp add: inbox_inv_def new_inbox_def import_decisions_def open_history_def index_of_log_def last_n_all)

lemma settled_step:
  assumes "inbox_inv en" "get_decision i (de_history en) = Some d" "\<not> inbox_open d" "i \<notin> set (created_ids env [a] en)"
  obtains d' where "get_decision i (de_history (snd (inbox_step env a en))) = Some d'" "\<not> inbox_open d'"
    "d_approved_by d' = d_approved_by d" "d_selected_option d' = d_selected_option d"
    "d_status d' = d_status d \<or> d_status d' \<in> {DEscalated, DCancelled}"
proof -
  have pol: "de_policies en = []" using assms(1) by (simp add: inbox_inv_def)
  from inbox_step_effect[OF pol, of env a] show thesis
  proof (cases rule: inbox_effect.cases)
    case nothing
    then show ?thesis using assms that by (simp add: same_engine_def)
  next
    case (created rq x)
    then have "i \<noteq> d_id x" using assms(4) by (auto split: option.splits)
    then show ?thesis using created(3) assms that by (simp add: records_get)
  next
    case (changed j x y)
    show ?thesis
    proof (cases "j = i")
      case True
      then have x: "x = d" "d_id y = i" using changed assms(1,2) inbox_keyed by auto
      then have "get_decision i (de_history (snd (inbox_step env a en))) = Some y"
        using changed(3) by (simp add: records_get)
      moreover have "\<not> inbox_open y" using changed(4) x assms(3) by (auto simp: inbox_open_def)
      ultimately show ?thesis using changed(4) x assms(3) that by auto
    next
      case False
      then have "d_id y \<noteq> i" using changed(1,2) assms(1) inbox_keyed by auto
      then show ?thesis using changed(3) assms that by (simp add: records_get)
    qed
  qed
qed

lemma settled_run:
  "inbox_inv en \<Longrightarrow> get_decision i (de_history en) = Some d \<Longrightarrow> \<not> inbox_open d \<Longrightarrow> i \<notin> set (created_ids env acts en) \<Longrightarrow>
   \<exists>d'. get_decision i (de_history (inbox_run env acts en)) = Some d' \<and>
     d_approved_by d' = d_approved_by d \<and> d_selected_option d' = d_selected_option d \<and>
     (d_status d' = d_status d \<or> d_status d' \<in> {DEscalated, DCancelled})"
proof (induction acts arbitrary: en d)
  case Nil
  then show ?case by simp
next
  case (Cons a acts)
  have "i \<notin> set (created_ids env [a] en)" using Cons.prems(4) by simp
  from settled_step[OF Cons.prems(1-3) this] obtain d1 where d1:
    "get_decision i (de_history (snd (inbox_step env a en))) = Some d1" "\<not> inbox_open d1"
    "d_approved_by d1 = d_approved_by d" "d_selected_option d1 = d_selected_option d"
    "d_status d1 = d_status d \<or> d_status d1 \<in> {DEscalated, DCancelled}" by blast
  have "i \<notin> set (created_ids env acts (snd (inbox_step env a en)))" using Cons.prems(4) by simp
  from Cons.IH[OF inbox_inv_step[OF Cons.prems(1)] d1(1,2) this] d1(3-5) show ?case by auto
qed

text \<open>The judgement of the policies does not depend on what they do.\<close>

lemma policy_action_frame [simp]:
  "policy_applies q (fst (policy_action p d)) = policy_applies q d"
  "d_status (fst (policy_action p d)) = d_status d" "d_approved_by (fst (policy_action p d)) = d_approved_by d"
proof -
  have m: "meets_condition (fst (policy_action p d)) c = meets_condition d c" for c
    by (cases c) (simp add: policy_action_def meets_condition_def Let_def split: option.splits)
  have "meets_all (fst (policy_action p d)) cs = meets_all d cs" for cs
    by (induction cs) (simp_all add: m cong: if_cong)
  moreover have "d_context (fst (policy_action p d)) = d_context d" "d_category (fst (policy_action p d)) = d_category d"
    by (simp_all add: policy_action_def Let_def split: option.splits)
  ultimately show "policy_applies q (fst (policy_action p d)) = policy_applies q d" by (simp add: policy_applies_def)
  show "d_status (fst (policy_action p d)) = d_status d" "d_approved_by (fst (policy_action p d)) = d_approved_by d"
    by (simp_all add: policy_action_def Let_def split: option.splits)
qed

text \<open>The policies that speak about approval, in the order of enforcement: the last one decides.\<close>

fun approval_after :: "policy list \<Rightarrow> decision \<Rightarrow> bool \<Rightarrow> bool" where
  "approval_after [] d b = b"
| "approval_after (p # ps) d b =
     approval_after ps d
       (if policy_applies p d \<noteq> Inr True then b
        else if pa_type (po_actions p) = Some ''require_approval'' then True
        else if pa_type (po_actions p) = Some ''auto_approve'' then False
        else b)"

lemma approval_after_cong:
  "(\<And>p. policy_applies p d = policy_applies p d') \<Longrightarrow> approval_after ps d b = approval_after ps d' b"
  by (induction ps arbitrary: b) simp_all

lemma policy_action_approval:
  "d_approval_required (fst (policy_action p d)) =
     (if pa_type (po_actions p) = Some ''require_approval'' then True
      else if pa_type (po_actions p) = Some ''auto_approve'' then False else d_approval_required d)"
  by (simp add: policy_action_def Let_def split: option.splits)

lemma enforce_list_result:
  "enforce_list ps d acc = (Inr rs, d') \<Longrightarrow>
   d_status d' = d_status d \<and> d_approved_by d' = d_approved_by d \<and>
   d_approval_required d' = approval_after ps d (d_approval_required d)"
proof (induction ps arbitrary: d acc)
  case Nil
  then show ?case by simp
next
  case (Cons p ps)
  from Cons.prems obtain b where b: "policy_applies p d = Inr b"
    by (cases "policy_applies p d") (auto simp: enforce_policy_def)
  show ?case
  proof (cases b)
    case True
    define d1 where "d1 = fst (policy_action p d)"
    have "enforce_list ps d1 (acc @ snd (policy_action p d)) = (Inr rs, d')"
      using Cons.prems b True by (simp add: enforce_policy_def d1_def split: prod.splits)
    from Cons.IH[OF this] have "d_status d' = d_status d" "d_approved_by d' = d_approved_by d"
      "d_approval_required d' = approval_after ps d1 (d_approval_required d1)"
      by (simp_all add: d1_def)
    moreover have "approval_after ps d1 x = approval_after ps d x" for x
      by (rule approval_after_cong) (simp add: d1_def)
    ultimately show ?thesis using b True by (simp add: d1_def policy_action_approval)
  next
    case False
    then show ?thesis using Cons b by (simp add: enforce_policy_def)
  qed
qed

text \<open>The log of a run grows by at most one entry per operation.\<close>

lemma inbox_step_log:
  assumes "de_policies en = []"
  shows "length (dh_log (de_history en)) \<le> length (dh_log (de_history (snd (inbox_step env a en)))) \<and>
    length (dh_log (de_history (snd (inbox_step env a en)))) \<le> Suc (length (dh_log (de_history en))) \<and>
    de_policies (snd (inbox_step env a en)) = []"
  using inbox_step_effect[OF assms, of env a] assms
  by (cases rule: inbox_effect.cases) (auto simp: records_def same_engine_def)

lemma inbox_run_log:
  "de_policies en = [] \<Longrightarrow>
   length (dh_log (de_history en)) \<le> length (dh_log (de_history (inbox_run env acts en))) \<and>
   length (dh_log (de_history (inbox_run env acts en))) \<le> length (dh_log (de_history en)) + length acts"
proof (induction acts arbitrary: en)
  case Nil
  then show ?case by simp
next
  case (Cons a acts)
  from inbox_step_log[OF Cons.prems] have "de_policies (snd (inbox_step env a en)) = []" by blast
  from Cons.IH[OF this] inbox_step_log[OF Cons.prems, of env a] show ?case by simp
qed

lemma new_inbox_fields [simp]:
  "dh_log (de_history (new_inbox entries t)) = entries" "de_policies (new_inbox entries t) = []"
  by (simp_all add: new_inbox_def import_decisions_def open_history_def)

text \<open>Where the judgement of a new decision can fail to return: in the walk along the hierarchy.\<close>

lemma evaluate_factor_ok:
  assumes "number_of (dget (JNum 0) (d_context d) ''budget'') \<noteq> None"
  shows "\<exists>r. evaluate_factor f d = Inr r"
proof -
  have "\<exists>a. category_risk f d = Inr a" using assms by (auto simp: category_risk_def budget_risk_def)
  then show ?thesis by (auto simp: evaluate_factor_def Let_def)
qed

lemma risk_ok:
  assumes "number_of (dget (JNum 0) (d_context d) ''budget'') \<noteq> None"
  shows "\<exists>r. calculate_risk fs d = Inr r" "\<exists>names. identify_factors fs d = Inr names"
proof -
  have "\<exists>s. weighted_score gs d acc = Inr s" for gs acc
  proof (induction gs arbitrary: acc)
    case (Cons g gs)
    then show ?case using evaluate_factor_ok[OF assms, of g] by auto
  qed simp
  then show "\<exists>r. calculate_risk fs d = Inr r" by (simp add: calculate_risk_def Let_def ebind_Inr)
  have "\<exists>s. factor_scores gs d = Inr s" for gs
  proof (induction gs)
    case (Cons g gs)
    then show ?case using evaluate_factor_ok[OF assms, of g] by auto
  qed simp
  then show "\<exists>names. identify_factors fs d = Inr names" by (simp add: identify_factors_def ebind_Inr)
qed

abbreviation first_superior :: "string \<Rightarrow> string" where
  "first_superior owner \<equiv> if owner \<noteq> [] then owner else ''requester''"

lemma judge_decision_returns:
  assumes "number_of (dget (JNum 0) (d_context d) ''budget'') \<noteq> None"
  shows "judge_decision en d =
    map_option (\<lambda>path. Inr (d\<lparr>d_risk_score := Some (projr (calculate_risk (de_factors en) d)),
       d_risk_factors := projr (identify_factors (de_factors en) d),
       d_approval_required := is_approval_required (de_rules en) (d\<lparr>d_risk_score := Some (projr (calculate_risk (de_factors en) d))\<rparr>),
       d_escalation_path := path\<rparr>)) (path_loop (de_hierarchy en) (first_superior (d_owner d)) [])"
proof -
  obtain r where r: "calculate_risk (de_factors en) d = Inr r" using risk_ok(1)[OF assms] by blast
  obtain names where n: "identify_factors (de_factors en) d = Inr names" using risk_ok(2)[OF assms] by blast
  have ef: "evaluate_factor f (d\<lparr>d_risk_score := x\<rparr>) = evaluate_factor f d" for f x
    by (simp add: evaluate_factor_def category_risk_def Let_def)
  have fs: "factor_scores gs (d\<lparr>d_risk_score := x\<rparr>) = factor_scores gs d" for gs x
    by (induction gs) (simp_all add: ef)
  have "identify_factors (de_factors en) (d\<lparr>d_risk_score := Some r\<rparr>) = Inr names"
    using n by (simp add: identify_factors_def fs)
  moreover have "is_approval_required (de_rules en) (d\<lparr>d_risk_score := x, d_risk_factors := y\<rparr>) =
      is_approval_required (de_rules en) (d\<lparr>d_risk_score := x\<rparr>)" for x y
    by (simp add: is_approval_required_def rule_matches_def category_matches_def context_matches_def)
  ultimately show ?thesis using r n by (simp add: judge_decision_def determine_path_def Let_def)
qed

fun escalate_times :: "decision_env \<Rightarrow> string \<Rightarrow> nat \<Rightarrow> decision \<Rightarrow> decision_engine \<Rightarrow> decision \<times> decision_engine" where
  "escalate_times env note 0 d en = (d, en)"
| "escalate_times env note (Suc n) d en =
     (case escalate_decision env note d en of (d1, en1) \<Rightarrow> escalate_times env note n d1 en1)"

lemma index_of_snoc:
  "index_of x (xs @ [y]) =
     (case index_of x xs of Some i \<Rightarrow> Some i | None \<Rightarrow> if x = y then Some (length xs) else None)"
  by (induction xs) (auto split: option.splits)

text \<open>\<^verbatim>\<open>next_level\<close> on the two fields it reads.\<close>

lemma next_level_if:
  "next_level d =
     (if d_escalation_path d = [] then ''board''
      else let i = (case index_of (d_owner d) (d_escalation_path d) of Some i \<Rightarrow> i + 1 | None \<Rightarrow> 0)
           in if i < length (d_escalation_path d) then d_escalation_path d ! i else last (d_escalation_path d))"
  by (cases "d_escalation_path d") (simp_all add: next_level_def Let_def)

lemma next_level_again:
  assumes "d_owner d' = d_owner d" "d_escalation_path d' = d_escalation_path d @ [next_level d]"
  shows "next_level d' = next_level d"
proof (cases "d_escalation_path d = []")
  case True
  then have "next_level d = ''board''" by (simp add: next_level_if)
  then show ?thesis using assms True by (simp add: next_level_if[of d'])
next
  case ne: False
  have d': "next_level d' =
      (let i = (case index_of (d_owner d) (d_escalation_path d @ [next_level d]) of Some i \<Rightarrow> i + 1 | None \<Rightarrow> 0)
       in if i < Suc (length (d_escalation_path d)) then (d_escalation_path d @ [next_level d]) ! i else next_level d)"
    using assms by (simp add: next_level_if[of d'] Let_def)
  show ?thesis
  proof (cases "index_of (d_owner d) (d_escalation_path d)")
    case None
    then have lvl: "next_level d = d_escalation_path d ! 0" using ne by (simp add: next_level_if)
    have "d_owner d \<noteq> next_level d" using None ne lvl by (metis index_of_None length_greater_0_conv nth_mem)
    then have "index_of (d_owner d) (d_escalation_path d @ [next_level d]) = None" using None by simp
    then show ?thesis using d' lvl ne by (simp add: nth_append Let_def)
  next
    case (Some i)
    have i: "i < length (d_escalation_path d)" using index_of_SomeD[OF Some] by simp
    have "index_of (d_owner d) (d_escalation_path d @ [next_level d]) = Some i" using Some by (simp add: index_of_snoc)
    then have "next_level d' = (d_escalation_path d @ [next_level d]) ! Suc i" using d' i by (simp add: Let_def)
    also have "\<dots> = next_level d"
    proof (cases "Suc i < length (d_escalation_path d)")
      case True
      then show ?thesis using Some ne by (simp add: next_level_if nth_append Let_def)
    next
      case False
      then have "Suc i = length (d_escalation_path d)" using i by simp
      then show ?thesis by (simp add: nth_append)
    qed
    finally show ?thesis .
  qed
qed

section \<open>Properties\<close>

definition demo_request :: decision_request where
  "demo_request =
     \<lparr>dq_title = ''t'', dq_description = [], dq_category = Inr CFinancial, dq_priority = Inr PHigh, dq_requester = ''r'',
      dq_owner = ''o'', dq_stakeholders = [], dq_options = [], dq_context = [], dq_tags = [], dq_metadata = []\<rparr>"

definition demo_decision :: decision where
  "demo_decision = (fresh_decision ''d1'' 0 CFinancial PHigh demo_request)\<lparr>d_status := DApproved\<rparr>"

definition demo_decision_env :: decision_env where
  "demo_decision_env = \<lparr>dv_time = int, dv_stamp = (\<lambda>_. ''s'')\<rparr>"

text \<open>C24: Reopening the approval inbox loses nothing: after any operations on it, an inbox built
  from the history file (of at most a million entries) shows exactly the decisions, in the same
  order and with the same content, that the running one showed.\<close>

theorem reopened_inbox_same:
  assumes "length (dh_log (de_history (inbox_run env acts (new_inbox entries t)))) \<le> 10 ^ 6"
  shows "de_history (new_inbox (dh_log (de_history (inbox_run env acts (new_inbox entries t)))) t') =
    de_history (inbox_run env acts (new_inbox entries t))"
proof -
  let ?en = "inbox_run env acts (new_inbox entries t)"
  have "length entries \<le> 10 ^ 6" using inbox_run_log[of "new_inbox entries t" env acts] assms by simp
  then have "inbox_inv ?en" by (intro inbox_inv_run inbox_inv_new)
  moreover have "inbox_inv (new_inbox (dh_log (de_history ?en)) t')" using assms by (rule inbox_inv_new)
  ultimately show ?thesis by (simp add: inbox_inv_def decision_history.equality)
qed

lemma reopened_inbox_same_witness:
  "let en = inbox_run demo_decision_env
       [InboxCreate demo_request, InboxApprove ''d1'' ''a'' ''why'' ''boss'', InboxEscalate ''d1'' ''late'']
       (new_inbox [to_entry 0 demo_decision] 0)
   in de_history (new_inbox (dh_log (de_history en)) 9) = de_history en"
  unfolding Let_def
  by (rule reopened_inbox_same, rule order_trans, rule inbox_run_log[THEN conjunct2]) simp_all

text \<open>C25: A decision that is settled stays settled: once its status is neither pending nor in
  review, no operation of the inbox approves or rejects it (unless a new decision takes its id) -
  its approver and its option stay, and its status can only become escalated or cancelled.
  So an escalated decision can never be approved or rejected any more, and an approved one can
  still be cancelled.\<close>

theorem settled_decision_stays:
  assumes "length entries \<le> 10 ^ 6"
    and "get_decision i (de_history (inbox_run env acts (new_inbox entries t))) = Some d" "\<not> inbox_open d"
    and "i \<notin> set (created_ids env later (inbox_run env acts (new_inbox entries t)))"
  shows "\<exists>d'. get_decision i (de_history (inbox_run env later (inbox_run env acts (new_inbox entries t)))) = Some d' \<and>
    d_approved_by d' = d_approved_by d \<and> d_selected_option d' = d_selected_option d \<and>
    (d_status d' = d_status d \<or> d_status d' \<in> {DEscalated, DCancelled})"
  by (rule settled_run[OF inbox_inv_run[OF inbox_inv_new[OF assms(1)]] assms(2-4)])

lemma settled_decision_stays_witness:
  "\<exists>d'. get_decision ''d1'' (de_history (inbox_run demo_decision_env
      [InboxEscalate ''d1'' ''x'', InboxReject ''d1'' ''no'', InboxApprove ''d1'' ''a'' ''why'' ''boss'']
      (inbox_run demo_decision_env [] (new_inbox [to_entry 0 demo_decision] 0)))) = Some d' \<and>
    d_approved_by d' = d_approved_by demo_decision \<and> d_selected_option d' = d_selected_option demo_decision \<and>
    (d_status d' = d_status demo_decision \<or> d_status d' \<in> {DEscalated, DCancelled})"
  by (rule settled_decision_stays)
    (simp_all add: new_inbox_def import_decisions_def open_history_def get_decision_def last_n_def
      List.map_filter_def demo_decision_def fresh_decision_def inbox_open_def)

text \<open>The policies never decide: whether a made decision ends approved or escalated depends
  only on the approval requirement it had before and on the approver; the policies are enforced
  afterwards, and what the record says about approval is what the last of them said that applies
  (so a decision can be recorded approved, with no approver, as requiring approval).\<close>

theorem policies_do_not_decide:
  assumes "make_decision env selected rationale approved_by d en = (Inr d', en')"
  shows "d_approved_by d' = approved_by \<and>
    d_status d' = (if d_approval_required d \<and> (approved_by = None \<or> approved_by = Some []) then DEscalated else DApproved) \<and>
    d_approval_required d' =
      approval_after (sort_key (\<lambda>p. - po_priority p) (map snd (de_policies en))) d (d_approval_required d)"
proof -
  let ?ps = "sort_key (\<lambda>p. - po_priority p) (map snd (de_policies en))"
  obtain t1 t2 rs where rs:
    "enforce_list ?ps (resolve_decision t1 t2 selected rationale approved_by d) [] = (Inr rs, d')"
    using assms
    by (auto simp: make_decision_def decision_now_def enforce_policies_def Let_def split: prod.splits sum.splits)
  have m: "meets_condition (resolve_decision t1 t2 selected rationale approved_by d) c = meets_condition d c" for c
    by (cases c) (simp add: meets_condition_def resolve_decision_def)
  have "meets_all (resolve_decision t1 t2 selected rationale approved_by d) cs = meets_all d cs" for cs
    by (induction cs) (simp_all add: m cong: if_cong)
  then have "policy_applies p (resolve_decision t1 t2 selected rationale approved_by d) = policy_applies p d" for p
    by (simp add: policy_applies_def resolve_decision_def)
  from approval_after_cong[OF this] enforce_list_result[OF rs] show ?thesis by (simp add: resolve_decision_def)
qed

definition demo_policy :: policy where
  "demo_policy =
     \<lparr>po_id = ''p'', po_name = ''p'', po_description = [], po_scope = ''global'', po_enabled = True, po_priority = 1,
      po_conditions = [(''min_priority'', JNum 3)],
      po_actions = \<lparr>pa_type = Some ''require_approval'', pa_constraint = [], pa_owner = []\<rparr>\<rparr>"

lemma policies_do_not_decide_witness:
  "let d = demo_decision\<lparr>d_approval_required := False\<rparr>;
       en = (new_inbox [] 0)\<lparr>de_policies := add_policy demo_policy []\<rparr>;
       d' = projr (fst (make_decision demo_decision_env ''a'' ''why'' None d en))
   in d_status d' = DApproved \<and> d_approved_by d' = None \<and> d_approval_required d'"
proof -
  define d where "d = demo_decision\<lparr>d_approval_required := False\<rparr>"
  define en where "en = (new_inbox [] 0)\<lparr>de_policies := add_policy demo_policy []\<rparr>"
  have ap: "policy_applies demo_policy x = Inr True" if "d_priority x = PHigh" for x
    using that by (simp add: policy_applies_def demo_policy_def meets_condition_def compare_value_def number_of_def)
  have pr: "d_priority d = PHigh" "\<not> d_approval_required d" by (simp_all add: d_def demo_decision_def fresh_decision_def)
  obtain d' en' where m: "make_decision demo_decision_env ''a'' ''why'' None d en = (Inr d', en')"
    using pr ap
    by (simp add: make_decision_def decision_now_def en_def add_policy_def enforce_policies_def enforce_policy_def
        get_reasoning_def resolve_decision_def Let_def policy_action_def demo_policy_def)
  from policies_do_not_decide[OF m] show ?thesis
    unfolding d_def[symmetric] en_def[symmetric] using m pr ap[of d]
    by (simp add: en_def add_policy_def demo_policy_def)
qed

text \<open>Creating a decision returns exactly when the hierarchy has no cycle on the way up from the
  owner (from \<^verbatim>\<open>requester\<close> when there is none): otherwise \<^verbatim>\<open>create_decision\<close> loops for ever.\<close>

theorem create_decision_returns:
  assumes "request_category (dq_category rq) = Inr c" "request_priority (dq_priority rq) = Inr p"
    and "number_of (dget (JNum 0) (dq_context rq) ''budget'') \<noteq> None"
  shows "create_decision env rq en \<noteq> None \<longleftrightarrow> cycle_free (superior_rel (de_hierarchy en)) (first_superior (dq_owner rq))"
proof -
  let ?start = "first_superior (dq_owner rq)"
  have "create_decision env rq en \<noteq> None \<longleftrightarrow> path_loop (de_hierarchy en) ?start [] \<noteq> None"
    using assms
    by (auto simp: create_decision_def decision_now_def judge_decision_returns fresh_decision_def Let_def
        split: option.splits)
  then show ?thesis using path_loop_cycle_free path_loop_returns by (metis not_None_eq)
qed

lemma create_decision_returns_witness:
  "create_decision demo_decision_env demo_request ((new_inbox [] 0)\<lparr>de_hierarchy := [(''o'', ''p''), (''p'', ''o'')]\<rparr>) = None"
proof -
  let ?R = "superior_rel [(''o'', ''p''), (''p'', ''o'')]"
  have "(''o'', ''p'') \<in> ?R" "(''p'', ''o'') \<in> ?R" by (simp_all add: superior_rel_def)
  then have "(''o'', ''o'') \<in> ?R\<^sup>+" by (meson r_into_trancl trancl_trans)
  then have "\<not> cycle_free ?R ''o''" by (auto simp: cycle_free_def)
  moreover have "de_hierarchy ((new_inbox [] 0)\<lparr>de_hierarchy := h\<rparr>) = h" for h by simp
  moreover have "first_superior (dq_owner demo_request) = ''o''" by (simp add: demo_request_def)
  ultimately show ?thesis
    using create_decision_returns[of demo_request CFinancial PHigh demo_decision_env
        "(new_inbox [] 0)\<lparr>de_hierarchy := [(''o'', ''p''), (''p'', ''o'')]\<rparr>"]
    by (auto simp: request_category_def request_priority_def number_of_def demo_request_def simp del: not_None_eq)
qed

text \<open>Escalating never climbs: every escalation of a decision names the same level again,
  whatever its path is, so that after n escalations the path ends with n copies of it.\<close>

theorem escalations_repeat_level:
  "d_escalation_path (fst (escalate_times env note n d en)) = d_escalation_path d @ replicate n (next_level d) \<and>
   next_level (fst (escalate_times env note n d en)) = next_level d"
proof (induction n arbitrary: d en)
  case 0
  then show ?case by simp
next
  case (Suc n)
  define d1 where "d1 = fst (escalate_decision env note d en)"
  define en1 where "en1 = snd (escalate_decision env note d en)"
  have p: "d_owner d1 = d_owner d" "d_escalation_path d1 = d_escalation_path d @ [next_level d]"
    by (simp_all add: d1_def escalate_decision_def decision_now_def Let_def next_level_if)
  have "escalate_times env note (Suc n) d en = escalate_times env note n d1 en1"
    by (simp add: d1_def en1_def split: prod.splits)
  with Suc.IH[of d1 en1] p next_level_again[OF p] show ?case by simp
qed

text \<open>A created decision is pending, is in the history, carries a risk score between its
  priority (over five) and one, and its escalation path starts at the owner and climbs the
  hierarchy, every role followed by its superior.\<close>

theorem created_decision_judged:
  assumes "create_decision env rq en = Some (Inr d, en')"
    and "\<forall>f \<in> set (de_factors en). 0 \<le> rf_weight f" "0 < sum_list (map rf_weight (de_factors en))"
  shows "d_status d = DPending \<and> get_decision (d_id d) (de_history en') = Some d \<and>
    (\<exists>r. d_risk_score d = Some r \<and> of_int (decision_priority_value (d_priority d)) / 5 \<le> r \<and> r \<le> 1) \<and>
    hd (d_escalation_path d) = first_superior (d_owner d) \<and> chain_of (de_hierarchy en) (d_escalation_path d)"
proof -
  from assms(1) obtain x en1 where j: "judge_decision en1 x = Some (Inr d)" "en' = record_now env d en1"
    and x: "d_status x = DPending" and e: "de_factors en1 = de_factors en" "de_hierarchy en1 = de_hierarchy en"
    by (auto simp: create_decision_def decision_now_def Let_def fresh_decision_def split: sum.splits option.splits)
  from j(1) obtain r path where r: "calculate_risk (de_factors en) x = Inr r"
    "path_loop (de_hierarchy en) (first_superior (d_owner x)) [] = Some path"
    and d: "d_risk_score d = Some r" "d_escalation_path d = path" "d_owner d = d_owner x" "d_priority d = d_priority x"
      "d_status d = d_status x"
    by (auto simp: judge_decision_def determine_path_def Let_def e cong: if_cong split: sum.splits)
  from path_loop_returns[OF path_loop_cycle_free[OF r(2)]] r(2)
  have "chain_of (de_hierarchy en) path" "hd path = first_superior (d_owner x)"
    by (auto split: if_splits)
  then show ?thesis
    using calculate_risk_bounds[OF r(1) assms(2,3)] d x j(2) by (simp add: get_decision_def)
qed

lemma created_decision_judged_witness:
  "\<exists>d en'. create_decision demo_decision_env demo_request (new_inbox [] 0) = Some (Inr d, en') \<and>
    d_status d = DPending \<and> hd (d_escalation_path d) = ''o''"
proof -
  have "cycle_free (superior_rel []) x" for x :: string by (rule cycle_free_end) (simp add: superior_rel_def)
  moreover have "de_hierarchy (new_inbox [] 0) = []" by (simp add: new_inbox_def)
  ultimately have "path_loop (de_hierarchy (new_inbox [] 0)) ''o'' [] \<noteq> None"
    using path_loop_returns[of "[]" "''o''"] by auto
  then obtain d en' where d: "create_decision demo_decision_env demo_request (new_inbox [] 0) = Some (Inr d, en')" "d_owner d = ''o''"
    by (auto simp: create_decision_def decision_now_def judge_decision_returns fresh_decision_def Let_def demo_request_def
        number_of_def request_category_def request_priority_def)
  have w: "\<forall>f \<in> set (de_factors (new_inbox [] 0)). 0 \<le> rf_weight f"
    "0 < sum_list (map rf_weight (de_factors (new_inbox [] 0)))"
    by (simp_all add: new_inbox_def default_factors_def)
  from created_decision_judged[OF d(1) w] d show ?thesis by auto
qed

end
