(* ===== verification/WorkflowModel.thy ===== *)
theory WorkflowModel
  imports PyValue
begin

text \<open>
  Workflow definitions, their state machine and execution contexts (\<^verbatim>\<open>workflow/models.py\<close>,
  \<^verbatim>\<open>workflow/state_machine.py\<close>, \<^verbatim>\<open>workflow/context.py\<close>, the evaluator of
  \<^verbatim>\<open>workflow/transitions.py\<close>).  The dictionary of states keeps its order.  The value of a
  condition, which is an expression of the language (\<^verbatim>\<open>eval\<close>), is a parameter
  \<^verbatim>\<open>eval_expr\<close> of the expression and the names it sees; \<^verbatim>\<open>None\<close> is an exception.
\<close>

section \<open>Definitions\<close>

datatype WorkflowStateType = WInitial | WAction | WApproval | WWait | WTerminal

datatype WorkflowTerminalStatus = WSuccess | WRejected | WCancelled | WFailed

datatype WorkflowCategory =
    WHr | WFinancial | WProject | WOperational | WGovernance | WStrategy | WSecurity | WCompliance

datatype WorkflowStatus =
    WfPending | WfRunning | WfPaused | WfWaitingApproval | WfWaitingExternal | WfCompleted | WfFailed | WfCancelled
  | WfTimedOut

datatype TransitionConditionType = TAuto | TCondition | TApproval | TTimeout

fun terminal_status_value :: "WorkflowTerminalStatus \<Rightarrow> string" where
  "terminal_status_value WSuccess = ''success''"
| "terminal_status_value WRejected = ''rejected''"
| "terminal_status_value WCancelled = ''cancelled''"
| "terminal_status_value WFailed = ''failed''"

datatype workflow_error =
    WfKeyError string | WfValueError string | WfAttributeError string | WfRuntimeError string | WfTypeError
  | WfFileNotFound string | WfFileError

record wf_transition =
  wt_to :: name
  wt_condition :: string
  wt_condition_type :: TransitionConditionType
  wt_action :: "string option"
  wt_description :: "string option"

record approval_config =
  ac_required :: bool
  ac_approver_role :: "string option"
  ac_escalation_role :: "string option"
  ac_decision_engine_integration :: bool
  ac_approval_matrix :: "string option"
  ac_context_fields :: "string list"
  ac_escalation_level :: int
  ac_timeout_hours :: int
  ac_minimum_approvers :: int
  ac_board_approval_required :: bool

record action_config =
  an_type :: string
  an_handler :: string
  an_parameters :: "(string, json) dict"
  an_timeout_seconds :: int

record wait_config =
  wa_wait_for :: string
  wa_timeout_hours :: int
  wa_polling_interval_seconds :: int

record workflow_state =
  ws_id :: name
  ws_name :: string
  ws_description :: string
  ws_type :: WorkflowStateType
  ws_transitions :: "wf_transition list"
  ws_approval :: "approval_config option"
  ws_action :: "action_config option"
  ws_wait :: "wait_config option"
  ws_terminal_status :: "WorkflowTerminalStatus option"

text \<open>The validator of \<^verbatim>\<open>WorkflowState\<close>: the text of its error.\<close>

definition validate_state :: "workflow_state \<Rightarrow> string option" where
  "validate_state s =
     (if ws_type s = WApproval \<and> ws_approval s = None then Some ''Approval state must have approval configuration''
      else if ws_type s = WAction \<and> ws_action s = None then Some ''Action state must have action configuration''
      else if ws_type s = WWait \<and> ws_wait s = None then Some ''Wait state must have wait configuration''
      else if ws_type s = WTerminal \<and> ws_terminal_status s = None then Some ''Terminal state must have terminal_status''
      else None)"

record workflow_config =
  wc_timeout_hours :: int
  wc_retry_policy :: "(string, json) dict"
  wc_notifications :: "(string, bool) dict"
  wc_priority_based_routing :: bool

definition default_workflow_config :: workflow_config where
  "default_workflow_config =
     \<lparr>wc_timeout_hours = 168, wc_retry_policy = [(''max_retries'', JNum 3), (''backoff_seconds'', JNum 300)],
      wc_notifications = [(''on_start'', True), (''on_complete'', True), (''on_failure'', True),
                          (''on_approval_required'', True)],
      wc_priority_based_routing = False\<rparr>"

datatype schema_field =
  SchemaField (sf_type: string) (sf_required: bool) (sf_description: string) (sf_default: json)
    (sf_minimum: "rat option") (sf_maximum: "rat option") (sf_enum: "string list option")
    (sf_format: "string option") (sf_items: "schema_field option")

record workflow_definition =
  wd_version :: string
  wd_name :: name
  wd_display_name :: string
  wd_description :: string
  wd_category :: WorkflowCategory
  wd_tags :: "string list"
  wd_enabled :: bool
  wd_config :: workflow_config
  wd_states :: "(name, workflow_state) dict"
  wd_data_schema :: "(string, schema_field) dict"
  wd_initial_state :: name

text \<open>The transitions of a definition to states it does not have, in the order of the loops.\<close>

definition unknown_targets :: "workflow_definition \<Rightarrow> (name \<times> name) list" where
  "unknown_targets d =
     concat (map (\<lambda>(i, s). map (\<lambda>t. (i, wt_to t))
       (filter (\<lambda>t. map_of (wd_states d) (wt_to t) = None) (ws_transitions s))) (wd_states d))"

definition quoted :: "string \<Rightarrow> string" where
  "quoted s = CHR 0x27 # s @ [CHR 0x27]"

definition terminal_states :: "workflow_definition \<Rightarrow> workflow_state list" where
  "terminal_states d = filter (\<lambda>s. ws_type s = WTerminal) (map snd (wd_states d))"

text \<open>The validator of \<^verbatim>\<open>WorkflowDefinition\<close>.\<close>

definition validate_workflow :: "workflow_definition \<Rightarrow> string option" where
  "validate_workflow d =
     (if map_of (wd_states d) (wd_initial_state d) = None
      then Some (''Initial state '' @ quoted (wd_initial_state d) @ '' not found in states'')
      else case unknown_targets d of
             (i, t) # _ \<Rightarrow> Some (''State '' @ quoted i @ '' references unknown target state '' @ quoted t)
           | [] \<Rightarrow>
               if terminal_states d = [] then Some ''Workflow must have at least one terminal state'' else None)"

text \<open>What pydantic lets be built: every state passes its validator, and the definition its own.\<close>

definition built_definition :: "workflow_definition \<Rightarrow> bool" where
  "built_definition d \<longleftrightarrow>
     list_all (\<lambda>(_, s). validate_state s = None) (wd_states d) \<and> validate_workflow d = None"

section \<open>Contexts\<close>

record workflow_context =
  wx_workflow_id :: name
  wx_execution_id :: name
  wx_current_state :: name
  wx_status :: WorkflowStatus
  wx_data :: "(string, json) dict"
  wx_created_at :: time
  wx_updated_at :: time
  wx_previous_state :: "name option"
  wx_terminal_status :: "string option"
  wx_started_at :: "time option"
  wx_completed_at :: "time option"
  wx_paused_at :: "time option"
  wx_error :: "string option"
  wx_retry_count :: nat
  wx_metadata :: "(string, json) dict"

record step_context =
  sx_step_id :: name
  sx_execution_id :: name
  sx_workflow_id :: name
  sx_state_id :: name
  sx_data :: "(string, json) dict"

record wf_history_entry =
  wh_id :: name
  wh_to_state :: "name option"
  wh_data_snapshot :: "(string, json) dict"

record context_manager =
  cm_contexts :: "(name, workflow_context) dict"
  cm_step_contexts :: "(name, step_context list) dict"

definition new_context_manager :: context_manager where
  "new_context_manager = \<lparr>cm_contexts = [], cm_step_contexts = []\<rparr>"

text \<open>\<^verbatim>\<open>fresh\<close> is the new \<^verbatim>\<open>uuid4()\<close>.\<close>

definition create_context ::
  "time \<Rightarrow> name \<Rightarrow> name \<Rightarrow> name \<Rightarrow> (string, json) dict \<Rightarrow> name option \<Rightarrow> context_manager \<Rightarrow>
   workflow_context \<times> context_manager"
where
  "create_context now fresh workflow initial data execution m =
     (let i = (case execution of Some e \<Rightarrow> if e \<noteq> [] then e else fresh | None \<Rightarrow> fresh);
          x = \<lparr>wx_workflow_id = workflow, wx_execution_id = i, wx_current_state = initial, wx_status = WfPending,
               wx_data = data, wx_created_at = now, wx_updated_at = now, wx_previous_state = None,
               wx_terminal_status = None, wx_started_at = None, wx_completed_at = None, wx_paused_at = None,
               wx_error = None, wx_retry_count = 0, wx_metadata = []\<rparr>
      in (x, m\<lparr>cm_contexts := AList.update i x (cm_contexts m),
               cm_step_contexts := AList.update i [] (cm_step_contexts m)\<rparr>))"

definition get_context :: "name \<Rightarrow> context_manager \<Rightarrow> workflow_context option" where
  "get_context i m = map_of (cm_contexts m) i"

text \<open>Every change of a context is one of these: look it up, change it in place, stamp it.\<close>

definition change_context ::
  "time \<Rightarrow> name \<Rightarrow> (workflow_context \<Rightarrow> workflow_context) \<Rightarrow> context_manager \<Rightarrow> workflow_context option \<times> context_manager"
where
  "change_context now i f m =
     (case map_of (cm_contexts m) i of
        None \<Rightarrow> (None, m)
      | Some x \<Rightarrow>
          (let x1 = (f x)\<lparr>wx_updated_at := now\<rparr> in (Some x1, m\<lparr>cm_contexts := AList.update i x1 (cm_contexts m)\<rparr>)))"

definition update_data ::
  "time \<Rightarrow> name \<Rightarrow> (string, json) dict \<Rightarrow> bool \<Rightarrow> context_manager \<Rightarrow> workflow_context option \<times> context_manager"
where
  "update_data now i data merge =
     change_context now i (\<lambda>x. x\<lparr>wx_data :=
       (if merge then fold (\<lambda>(k, v). AList.update k v) data (wx_data x) else data)\<rparr>)"

definition transition_state ::
  "time \<Rightarrow> name \<Rightarrow> name \<Rightarrow> name \<Rightarrow> context_manager \<Rightarrow> workflow_context option \<times> context_manager"
where
  "transition_state now i from_state to_state =
     change_context now i (\<lambda>x. x\<lparr>wx_previous_state := Some (wx_current_state x), wx_current_state := to_state\<rparr>)"

definition start_execution :: "time \<Rightarrow> time \<Rightarrow> name \<Rightarrow> context_manager \<Rightarrow> workflow_context option \<times> context_manager" where
  "start_execution started now i = change_context now i (\<lambda>x. x\<lparr>wx_status := WfRunning, wx_started_at := Some started\<rparr>)"

definition pause_execution :: "time \<Rightarrow> time \<Rightarrow> name \<Rightarrow> context_manager \<Rightarrow> workflow_context option \<times> context_manager" where
  "pause_execution paused now i = change_context now i (\<lambda>x. x\<lparr>wx_status := WfPaused, wx_paused_at := Some paused\<rparr>)"

definition resume_execution :: "time \<Rightarrow> name \<Rightarrow> context_manager \<Rightarrow> workflow_context option \<times> context_manager" where
  "resume_execution now i = change_context now i (\<lambda>x. x\<lparr>wx_status := WfRunning, wx_paused_at := None\<rparr>)"

definition complete_execution ::
  "time \<Rightarrow> time \<Rightarrow> name \<Rightarrow> string \<Rightarrow> context_manager \<Rightarrow> workflow_context option \<times> context_manager"
where
  "complete_execution completed now i terminal =
     change_context now i (\<lambda>x. x\<lparr>wx_status := WfCompleted, wx_completed_at := Some completed,
       wx_terminal_status := Some terminal\<rparr>)"

definition fail_execution ::
  "time \<Rightarrow> time \<Rightarrow> name \<Rightarrow> string \<Rightarrow> context_manager \<Rightarrow> workflow_context option \<times> context_manager"
where
  "fail_execution completed now i message =
     change_context now i (\<lambda>x. x\<lparr>wx_status := WfFailed, wx_error := Some message, wx_completed_at := Some completed\<rparr>)"

definition cancel_execution :: "time \<Rightarrow> time \<Rightarrow> name \<Rightarrow> context_manager \<Rightarrow> workflow_context option \<times> context_manager" where
  "cancel_execution completed now i =
     change_context now i (\<lambda>x. x\<lparr>wx_status := WfCancelled, wx_completed_at := Some completed\<rparr>)"

definition add_history_entry :: "name \<Rightarrow> wf_history_entry \<Rightarrow> context_manager \<Rightarrow> context_manager" where
  "add_history_entry i h m =
     (case (map_of (cm_contexts m) i, map_of (cm_step_contexts m) i) of
        (Some x, Some steps) \<Rightarrow>
          m\<lparr>cm_step_contexts := AList.update i
             (steps @ [\<lparr>sx_step_id = wh_id h, sx_execution_id = i, sx_workflow_id = wx_workflow_id x,
                        sx_state_id = (case wh_to_state h of Some s \<Rightarrow> s | None \<Rightarrow> []),
                        sx_data = wh_data_snapshot h\<rparr>]) (cm_step_contexts m)\<rparr>
      | _ \<Rightarrow> m)"

definition get_step_contexts :: "name \<Rightarrow> context_manager \<Rightarrow> step_context list" where
  "get_step_contexts i m = dget [] (cm_step_contexts m) i"

definition remove_context :: "name \<Rightarrow> context_manager \<Rightarrow> bool \<times> context_manager" where
  "remove_context i m =
     (if map_of (cm_contexts m) i = None then (False, m)
      else (True, m\<lparr>cm_contexts := AList.delete i (cm_contexts m),
                    cm_step_contexts := AList.delete i (cm_step_contexts m)\<rparr>))"

definition active_statuses :: "WorkflowStatus list" where
  "active_statuses = [WfPending, WfRunning, WfPaused, WfWaitingApproval, WfWaitingExternal]"

definition list_active_contexts :: "context_manager \<Rightarrow> workflow_context list" where
  "list_active_contexts m = filter (\<lambda>x. wx_status x \<in> set active_statuses) (map snd (cm_contexts m))"

definition get_context_by_workflow :: "name \<Rightarrow> context_manager \<Rightarrow> workflow_context list" where
  "get_context_by_workflow w m = filter (\<lambda>x. wx_workflow_id x = w) (map snd (cm_contexts m))"

section \<open>The state machine\<close>

record transition_result =
  tr_success :: bool
  tr_next_state :: "name option"
  tr_error :: "string option"
  tr_approval :: "approval_config option"
  tr_action :: "action_config option"
  tr_wait :: "wait_config option"

text \<open>A configuration that is given says that it is required: \<^verbatim>\<open>approval_required\<close> and its like.\<close>

definition moved_to :: "name \<Rightarrow> transition_result" where
  "moved_to s = \<lparr>tr_success = True, tr_next_state = Some s, tr_error = None, tr_approval = None, tr_action = None, tr_wait = None\<rparr>"

definition not_moved :: "bool \<Rightarrow> string \<Rightarrow> transition_result" where
  "not_moved ok message =
     \<lparr>tr_success = ok, tr_next_state = None, tr_error = Some message, tr_approval = None, tr_action = None, tr_wait = None\<rparr>"

definition new_state_machine :: "workflow_definition \<Rightarrow> workflow_error + workflow_definition" where
  "new_state_machine d =
     (if map_of (wd_states d) (wd_initial_state d) = None
      then Inl (WfValueError (''Initial state '' @ quoted (wd_initial_state d) @ '' not found in states''))
      else case unknown_targets d of
             (i, t) # _ \<Rightarrow> Inl (WfValueError (''Transition from '' @ quoted i @ '' to unknown state '' @ quoted t))
           | [] \<Rightarrow> Inr d)"

definition get_wf_state :: "workflow_definition \<Rightarrow> name \<Rightarrow> workflow_error + workflow_state" where
  "get_wf_state d i =
     (case map_of (wd_states d) i of None \<Rightarrow> Inl (WfKeyError (''State not found: '' @ i)) | Some s \<Rightarrow> Inr s)"

type_synonym eval_expr = "string \<Rightarrow> (string, json) dict \<Rightarrow> json option"

definition machine_condition :: "eval_expr \<Rightarrow> string \<Rightarrow> workflow_context \<Rightarrow> bool" where
  "machine_condition eval_expr c x =
     (if c = [] \<or> c = ''auto'' then True
      else case eval_expr c (AList.update ''auto'' (JBool True) (wx_data x)) of
             None \<Rightarrow> False
           | Some v \<Rightarrow> truthy v)"

definition enter_state :: "name \<Rightarrow> workflow_state \<Rightarrow> transition_result" where
  "enter_state i s =
     (case ws_type s of
        WApproval \<Rightarrow>
          (case ws_approval s of
             None \<Rightarrow> not_moved False (''Approval state '' @ quoted i @ '' missing approval config'')
           | Some c \<Rightarrow> (moved_to i)\<lparr>tr_approval := Some c\<rparr>)
      | WAction \<Rightarrow>
          (case ws_action s of
             None \<Rightarrow> not_moved False (''Action state '' @ quoted i @ '' missing action config'')
           | Some c \<Rightarrow> (moved_to i)\<lparr>tr_action := Some c\<rparr>)
      | WWait \<Rightarrow>
          (case ws_wait s of
             None \<Rightarrow> not_moved False (''Wait state '' @ quoted i @ '' missing wait config'')
           | Some c \<Rightarrow> (moved_to i)\<lparr>tr_wait := Some c\<rparr>)
      | WTerminal \<Rightarrow> moved_to i
      | WInitial \<Rightarrow> moved_to i)"

fun first_transition ::
  "eval_expr \<Rightarrow> workflow_definition \<Rightarrow> name \<Rightarrow> workflow_context \<Rightarrow> wf_transition list \<Rightarrow> workflow_error + transition_result"
where
  "first_transition ev d i x [] = Inr (not_moved False (''No valid transition from state '' @ quoted i))"
| "first_transition ev d i x (t # ts) =
     (if machine_condition ev (wt_condition t) x
      then ebind (get_wf_state d (wt_to t)) (\<lambda>s. Inr (enter_state (wt_to t) s))
      else first_transition ev d i x ts)"

definition evaluate_transitions ::
  "eval_expr \<Rightarrow> workflow_definition \<Rightarrow> name \<Rightarrow> workflow_context \<Rightarrow> workflow_error + transition_result"
where
  "evaluate_transitions ev d i x =
     ebind (get_wf_state d i) (\<lambda>s.
       if ws_type s = WTerminal then Inr (not_moved True ''Workflow is in terminal state'')
       else first_transition ev d i x (ws_transitions s))"

definition get_valid_transitions :: "workflow_definition \<Rightarrow> name \<Rightarrow> workflow_error + name list" where
  "get_valid_transitions d i = ebind (get_wf_state d i) (\<lambda>s. Inr (map wt_to (ws_transitions s)))"

definition is_terminal_state :: "workflow_definition \<Rightarrow> name \<Rightarrow> workflow_error + bool" where
  "is_terminal_state d i = ebind (get_wf_state d i) (\<lambda>s. Inr (ws_type s = WTerminal))"

definition get_terminal_status :: "workflow_definition \<Rightarrow> name \<Rightarrow> workflow_error + string option" where
  "get_terminal_status d i =
     ebind (get_wf_state d i) (\<lambda>s.
       Inr (if ws_type s = WTerminal then map_option terminal_status_value (ws_terminal_status s) else None))"

definition can_move :: "workflow_definition \<Rightarrow> name \<Rightarrow> name \<Rightarrow> workflow_error + bool" where
  "can_move d i j = ebind (get_wf_state d i) (\<lambda>s. Inr (list_ex (\<lambda>t. wt_to t = j) (ws_transitions s)))"

text \<open>\<^verbatim>\<open>TransitionEvaluator\<close>: it evaluates with more names, and returns every transition that matches.\<close>

definition evaluator_condition ::
  "eval_expr \<Rightarrow> string \<Rightarrow> workflow_context \<Rightarrow> (string, json) dict \<Rightarrow> bool"
where
  "evaluator_condition ev c x extra =
     (if c = [] \<or> c = ''auto'' then True
      else
        let names = AList.update ''execution_id'' (JStr (wx_execution_id x))
               (AList.update ''previous_state'' (JStr (case wx_previous_state x of Some p \<Rightarrow> p | None \<Rightarrow> []))
                  (AList.update ''state'' (JStr (wx_current_state x)) (wx_data x)))
        in case ev c (fold (\<lambda>(k, v). AList.update k v) extra names) of None \<Rightarrow> False | Some v \<Rightarrow> truthy v)"

definition matching_transitions :: "eval_expr \<Rightarrow> workflow_state \<Rightarrow> workflow_context \<Rightarrow> wf_transition list" where
  "matching_transitions ev s x = filter (\<lambda>t. evaluator_condition ev (wt_condition t) x []) (ws_transitions s)"

section \<open>Properties of the state machine\<close>

lemma unknown_targets_Nil:
  "unknown_targets d = [] \<longleftrightarrow>
   (\<forall>(i, s) \<in> set (wd_states d). \<forall>t \<in> set (ws_transitions s). map_of (wd_states d) (wt_to t) \<noteq> None)"
  by (auto simp: unknown_targets_def filter_empty_conv)

lemma built_parts:
  assumes "built_definition d"
  shows "map_of (wd_states d) (wd_initial_state d) \<noteq> None" "unknown_targets d = []"
    "map_of (wd_states d) i = Some s \<Longrightarrow> validate_state s = None"
    "map_of (wd_states d) i = Some s \<Longrightarrow> t \<in> set (ws_transitions s) \<Longrightarrow> map_of (wd_states d) (wt_to t) \<noteq> None"
proof -
  have v: "validate_workflow d = None" using assms by (simp add: built_definition_def)
  show "map_of (wd_states d) (wd_initial_state d) \<noteq> None" "unknown_targets d = []"
    using v by (auto simp: validate_workflow_def split: if_splits list.splits prod.splits)
  then show "map_of (wd_states d) i = Some s \<Longrightarrow> t \<in> set (ws_transitions s) \<Longrightarrow> map_of (wd_states d) (wt_to t) \<noteq> None"
    unfolding unknown_targets_Nil by (fastforce dest: map_of_SomeD)
  show "map_of (wd_states d) i = Some s \<Longrightarrow> validate_state s = None"
    using assms by (auto simp: built_definition_def list_all_iff dest: map_of_SomeD)
qed

lemma first_transition_find:
  "first_transition ev d i x ts =
     (case List.find (\<lambda>t. machine_condition ev (wt_condition t) x) ts of
        None \<Rightarrow> Inr (not_moved False (''No valid transition from state '' @ quoted i))
      | Some t \<Rightarrow> ebind (get_wf_state d (wt_to t)) (\<lambda>s. Inr (enter_state (wt_to t) s)))"
  by (induction ts) simp_all

lemma enter_built_state:
  assumes "validate_state s = None"
  shows "tr_success (enter_state i s) \<and> tr_next_state (enter_state i s) = Some i \<and>
    (tr_approval (enter_state i s) \<noteq> None \<longleftrightarrow> ws_type s = WApproval) \<and>
    (tr_action (enter_state i s) \<noteq> None \<longleftrightarrow> ws_type s = WAction) \<and>
    (tr_wait (enter_state i s) \<noteq> None \<longleftrightarrow> ws_type s = WWait)"
  using assms
  by (cases "ws_type s") (auto simp: validate_state_def enter_state_def moved_to_def split: if_splits)

text \<open>The states an execution can reach, its data changing at will between two transitions.\<close>

inductive wf_reachable :: "eval_expr \<Rightarrow> workflow_definition \<Rightarrow> name \<Rightarrow> bool"
  for ev :: eval_expr and d :: workflow_definition
where
  wf_start: "wf_reachable ev d (wd_initial_state d)"
| wf_move: "wf_reachable ev d i \<Longrightarrow> evaluate_transitions ev d i x = Inr r \<Longrightarrow> tr_next_state r = Some j \<Longrightarrow>
    wf_reachable ev d j"

definition wf_answer :: "eval_expr \<Rightarrow> workflow_definition \<Rightarrow> workflow_state \<Rightarrow> workflow_context \<Rightarrow> transition_result \<Rightarrow> bool" where
  "wf_answer ev d s x r \<longleftrightarrow>
     (if ws_type s = WTerminal then tr_success r \<and> tr_next_state r = None
      else case List.find (\<lambda>t. machine_condition ev (wt_condition t) x) (ws_transitions s) of
             None \<Rightarrow> \<not> tr_success r \<and> tr_next_state r = None
           | Some t \<Rightarrow>
               (case map_of (wd_states d) (wt_to t) of
                  None \<Rightarrow> False
                | Some s' \<Rightarrow>
                    tr_success r \<and> tr_next_state r = Some (wt_to t) \<and>
                    (tr_approval r \<noteq> None \<longleftrightarrow> ws_type s' = WApproval) \<and>
                    (tr_action r \<noteq> None \<longleftrightarrow> ws_type s' = WAction) \<and>
                    (tr_wait r \<noteq> None \<longleftrightarrow> ws_type s' = WWait)))"

lemma evaluate_transitions_answer:
  assumes "built_definition d" "map_of (wd_states d) i = Some s"
  shows "\<exists>r. evaluate_transitions ev d i x = Inr r \<and> wf_answer ev d s x r"
proof (cases "ws_type s = WTerminal")
  case True
  then show ?thesis using assms(2) by (simp add: evaluate_transitions_def get_wf_state_def wf_answer_def not_moved_def)
next
  case False
  show ?thesis
  proof (cases "List.find (\<lambda>t. machine_condition ev (wt_condition t) x) (ws_transitions s)")
    case None
    then show ?thesis using False assms(2)
      by (simp add: evaluate_transitions_def get_wf_state_def first_transition_find wf_answer_def not_moved_def)
  next
    case (Some t)
    then have "t \<in> set (ws_transitions s)" using find_in_set by fastforce
    then obtain s' where s': "map_of (wd_states d) (wt_to t) = Some s'" using built_parts(4)[OF assms] by blast
    then show ?thesis using False Some assms(2) enter_built_state[OF built_parts(3)[OF assms(1) s']]
      by (simp add: evaluate_transitions_def get_wf_state_def first_transition_find wf_answer_def)
  qed
qed

lemma wf_reachable_state:
  assumes "wf_reachable ev d i" "built_definition d"
  shows "\<exists>s. map_of (wd_states d) i = Some s"
  using assms(1)
proof induction
  case wf_start
  then show ?case using built_parts(1)[OF assms(2)] by blast
next
  case (wf_move i x r j)
  then obtain s where "map_of (wd_states d) i = Some s" by blast
  from evaluate_transitions_answer[OF assms(2) this, of ev x] wf_move.hyps show ?case
    by (auto simp: wf_answer_def split: if_splits option.splits)
qed

text \<open>C29: The state machine of a workflow that could be built never gets stuck on its definition:
  in every state an execution can reach, whatever its data are, the evaluation of the transitions
  returns; it stays in a terminal state and otherwise takes the first transition whose condition
  holds, into a state of the workflow, asking for an approval, an action or a wait exactly when
  that state is of this type; it fails exactly when no condition holds.\<close>

theorem workflow_walk_answers:
  assumes "built_definition d" "wf_reachable ev d i"
  shows "new_state_machine d = Inr d \<and>
    (\<exists>s r. map_of (wd_states d) i = Some s \<and> evaluate_transitions ev d i x = Inr r \<and> wf_answer ev d s x r)"
proof
  show "new_state_machine d = Inr d" using built_parts(1,2)[OF assms(1)] by (simp add: new_state_machine_def)
  obtain s where s: "map_of (wd_states d) i = Some s" using wf_reachable_state[OF assms(2,1)] by blast
  from evaluate_transitions_answer[OF assms(1) s, of ev x] s
  show "\<exists>s r. map_of (wd_states d) i = Some s \<and> evaluate_transitions ev d i x = Inr r \<and> wf_answer ev d s x r" by blast
qed

definition demo_workflow :: workflow_definition where
  "demo_workflow =
     \<lparr>wd_version = ''1.0'', wd_name = ''w'', wd_display_name = ''w'', wd_description = [], wd_category = WOperational,
      wd_tags = [], wd_enabled = True, wd_config = default_workflow_config,
      wd_states =
        [(''a'', \<lparr>ws_id = ''a'', ws_name = ''a'', ws_description = [], ws_type = WInitial,
                  ws_transitions = [\<lparr>wt_to = ''b'', wt_condition = ''auto'', wt_condition_type = TAuto, wt_action = None,
                                     wt_description = None\<rparr>],
                  ws_approval = None, ws_action = None, ws_wait = None, ws_terminal_status = None\<rparr>),
         (''b'', \<lparr>ws_id = ''b'', ws_name = ''b'', ws_description = [], ws_type = WTerminal, ws_transitions = [],
                  ws_approval = None, ws_action = None, ws_wait = None, ws_terminal_status = Some WSuccess\<rparr>)],
      wd_data_schema = [], wd_initial_state = ''a''\<rparr>"

lemma workflow_walk_answers_witness:
  "let x = fst (create_context 0 ''x'' ''w'' ''a'' [] None new_context_manager)
   in \<exists>s r. map_of (wd_states demo_workflow) ''a'' = Some s \<and>
     evaluate_transitions (\<lambda>_ _. None) demo_workflow ''a'' x = Inr r \<and> wf_answer (\<lambda>_ _. None) demo_workflow s x r"
proof -
  have b: "built_definition demo_workflow"
    by (simp add: built_definition_def demo_workflow_def validate_state_def validate_workflow_def unknown_targets_def
        terminal_states_def)
  have "wf_reachable (\<lambda>_ _. None) demo_workflow ''a''"
    using wf_start[of "\<lambda>_ _. None" demo_workflow] by (simp add: demo_workflow_def)
  from workflow_walk_answers[OF b this] show ?thesis unfolding Let_def by blast
qed

end
