(* ===== verification/WorkflowValidation.thy ===== *)
theory WorkflowValidation
  imports WorkflowModel
begin

text \<open>
  The validators of workflows (\<^verbatim>\<open>workflow/transitions.py\<close>, \<^verbatim>\<open>workflow/validators.py\<close>), the
  loader and the registry (\<^verbatim>\<open>workflow/loader.py\<close>, \<^verbatim>\<open>workflow/registry.py\<close>).  A report is
  the list of errors and the list of warnings.  Whether an expression compiles is a parameter
  \<^verbatim>\<open>compiles\<close>.  The directory of workflow files is a value: what reading each file gives.
\<close>

section \<open>The transition validator\<close>

type_synonym report = "string list \<times> string list"

abbreviation joined :: "report list \<Rightarrow> report" where
  "joined rs \<equiv> (concat (map fst rs), concat (map snd rs))"

definition check_names :: "workflow_definition \<Rightarrow> report" where
  "check_names d =
     ([], map (\<lambda>(i, _). ''State '' @ quoted i @ '' missing display name'')
            (filter (\<lambda>(_, s). ws_name s = []) (wd_states d)))"

definition check_transition :: "(string \<Rightarrow> bool) \<Rightarrow> workflow_definition \<Rightarrow> name \<Rightarrow> wf_transition \<Rightarrow> report" where
  "check_transition compiles d i t =
     (if map_of (wd_states d) (wt_to t) = None
      then [''Transition from '' @ quoted i @ '' references unknown state '' @ quoted (wt_to t)] else [],
      if wt_condition t \<noteq> [] \<and> wt_condition t \<noteq> ''auto'' \<and> \<not> compiles (wt_condition t)
      then [''Transition '' @ quoted i @ '' -> '' @ quoted (wt_to t) @ '' has complex condition: '' @ quoted (wt_condition t)]
      else [])"

definition check_transitions :: "(string \<Rightarrow> bool) \<Rightarrow> workflow_definition \<Rightarrow> report" where
  "check_transitions compiles d =
     joined (concat (map (\<lambda>(i, s). map (check_transition compiles d i) (ws_transitions s)) (wd_states d)))"

definition check_initial :: "workflow_definition \<Rightarrow> report" where
  "check_initial d =
     (if map_of (wd_states d) (wd_initial_state d) = None
      then [''Initial state '' @ quoted (wd_initial_state d) @ '' not found in states''] else [], [])"

definition check_terminals :: "workflow_definition \<Rightarrow> report" where
  "check_terminals d =
     (if terminal_states d = [] then ([''No terminal states defined''], [])
      else if length (terminal_states d) = 1 then ([], [''Only one terminal state defined''])
      else ([], []))"

definition check_approval :: "name \<times> workflow_state \<Rightarrow> report" where
  "check_approval p =
     (case p of (i, s) \<Rightarrow>
        if ws_type s \<noteq> WApproval then ([], [])
        else case ws_approval s of
               None \<Rightarrow> ([''Approval state '' @ quoted i @ '' missing approval config''], [])
             | Some c \<Rightarrow>
                 ([], (if \<not> ac_required c then [''Approval state '' @ quoted i @ '' has required=false''] else []) @
                      (if ac_approver_role c = None \<or> ac_approver_role c = Some []
                       then [''Approval state '' @ quoted i @ '' missing approver_role''] else [])))"

definition check_action :: "name \<times> workflow_state \<Rightarrow> report" where
  "check_action p =
     (case p of (i, s) \<Rightarrow>
        if ws_type s \<noteq> WAction then ([], [])
        else case ws_action s of
               None \<Rightarrow> ([''Action state '' @ quoted i @ '' missing action config''], [])
             | Some c \<Rightarrow>
                 ([], if an_handler c = [] then [''Action state '' @ quoted i @ '' missing handler''] else []))"

definition check_wait :: "name \<times> workflow_state \<Rightarrow> report" where
  "check_wait p =
     (case p of (i, s) \<Rightarrow>
        if ws_type s \<noteq> WWait then ([], [])
        else case ws_wait s of
               None \<Rightarrow> ([''Wait state '' @ quoted i @ '' missing wait config''], [])
             | Some c \<Rightarrow>
                 ([], if wa_wait_for c = [] then [''Wait state '' @ quoted i @ '' missing wait_for''] else []))"

text \<open>
  The set of reachable states, as the list of its members.  A pass visits the members the set had
  when it began; the iteration raises a \<^verbatim>\<open>RuntimeError\<close> at its next step once the set has grown.
  So a pass that ends has changed nothing, and the loop ends with it.
\<close>

definition add_targets :: "workflow_definition \<Rightarrow> name \<Rightarrow> name list \<Rightarrow> name list" where
  "add_targets d i reachable =
     (case map_of (wd_states d) i of
        None \<Rightarrow> reachable
      | Some s \<Rightarrow> fold (\<lambda>t r. if wt_to t \<in> set r then r else r @ [wt_to t]) (ws_transitions s) reachable)"

fun reach_pass :: "workflow_definition \<Rightarrow> name list \<Rightarrow> name list \<Rightarrow> workflow_error + name list" where
  "reach_pass d [] reachable = Inr reachable"
| "reach_pass d (i # is) reachable =
     (let r = add_targets d i reachable
      in if length r \<noteq> length reachable then Inl (WfRuntimeError ''Set changed size during iteration'')
         else reach_pass d is r)"

definition get_reachable_states :: "workflow_definition \<Rightarrow> workflow_error + name list" where
  "get_reachable_states d = reach_pass d [wd_initial_state d] [wd_initial_state d]"

text \<open>The unreachable states are a set; their warnings are listed in the order of the states.\<close>

definition check_reachability :: "workflow_definition \<Rightarrow> workflow_error + report" where
  "check_reachability d =
     ebind (get_reachable_states d) (\<lambda>reachable.
       Inr ([], map (\<lambda>i. ''State '' @ quoted i @ '' is unreachable from initial state'')
                  (filter (\<lambda>i. i \<notin> set reachable \<and> i \<noteq> wd_initial_state d) (keys (wd_states d)))))"

definition check_deadlocks :: "workflow_definition \<Rightarrow> report" where
  "check_deadlocks d =
     (map (\<lambda>(i, _). ''Non-terminal state '' @ quoted i @ '' has no outgoing transitions'')
        (filter (\<lambda>(_, s). ws_type s \<noteq> WTerminal \<and> ws_transitions s = []) (wd_states d)), [])"

definition transition_validator :: "(string \<Rightarrow> bool) \<Rightarrow> workflow_definition \<Rightarrow> workflow_error + report" where
  "transition_validator compiles d =
     ebind (check_reachability d) (\<lambda>reach.
       Inr (joined ([check_names d, check_transitions compiles d, check_initial d, check_terminals d] @
                    map check_approval (wd_states d) @ map check_action (wd_states d) @ map check_wait (wd_states d) @
                    [reach, check_deadlocks d])))"

definition create_transition :: "name \<Rightarrow> string \<Rightarrow> string option \<Rightarrow> string option \<Rightarrow> wf_transition" where
  "create_transition target condition action description =
     \<lparr>wt_to = target, wt_condition = condition, wt_condition_type = TAuto, wt_action = action,
      wt_description = description\<rparr>"

section \<open>The definition and execution validators\<close>

text \<open>\<^verbatim>\<open>re.match(r"^[a-z_][a-z0-9_]*$", s)\<close>: a final newline is allowed.\<close>

definition lower_id_char :: "bool \<Rightarrow> char \<Rightarrow> bool" where
  "lower_id_char digits c =
     (let n = of_char c :: nat in 97 \<le> n \<and> n \<le> 122 \<or> n = 95 \<or> digits \<and> 48 \<le> n \<and> n \<le> 57)"

definition is_lower_id :: "string \<Rightarrow> bool" where
  "is_lower_id s =
     (case (if s \<noteq> [] \<and> last s = CHR 0x0A then butlast s else s) of
        [] \<Rightarrow> False
      | c # cs \<Rightarrow> lower_id_char False c \<and> list_all (lower_id_char True) cs)"

definition required_fields :: "workflow_definition \<Rightarrow> report" where
  "required_fields d =
     ((if wd_name d = [] then [''Workflow missing name''] else []) @
      (if wd_initial_state d = [] then [''Workflow missing initial_state''] else []),
      (if wd_display_name d = [] then [''Workflow missing display_name''] else []) @
      (if wd_version d = [] then [''Workflow missing version''] else []))"

definition definition_state :: "workflow_definition \<Rightarrow> name \<times> workflow_state \<Rightarrow> report" where
  "definition_state d p =
     (case p of (i, s) \<Rightarrow>
        ((if ws_type s = WTerminal \<and> ws_terminal_status s = None
          then [''Terminal state '' @ quoted i @ '' missing terminal_status''] else []) @
         (if ws_type s = WApproval
          then (case ws_approval s of
                  None \<Rightarrow> [''Approval state '' @ quoted i @ '' missing approval config'']
                | Some c \<Rightarrow>
                    if ac_required c \<and> (ac_approver_role c = None \<or> ac_approver_role c = Some [])
                    then [''Approval state '' @ quoted i @ '' requires approval but no approver_role''] else [])
          else []) @
         (if ws_type s = WAction \<and> ws_action s = None
          then [''Action state '' @ quoted i @ '' missing action config''] else []) @
         (if ws_type s = WWait
          then (case ws_wait s of
                  None \<Rightarrow> [''Wait state '' @ quoted i @ '' missing wait config'']
                | Some c \<Rightarrow> if wa_wait_for c = [] then [''Wait state '' @ quoted i @ '' missing wait_for field''] else [])
          else []) @
         map (\<lambda>t. ''State '' @ quoted i @ '' transition to unknown state '' @ quoted (wt_to t))
           (filter (\<lambda>t. map_of (wd_states d) (wt_to t) = None) (ws_transitions s)),
         (if \<not> is_lower_id i then [''State ID '' @ quoted i @ '' should be lowercase with underscores''] else []) @
         (case (ws_type s, ws_action s) of
            (WAction, Some c) \<Rightarrow> if an_handler c = [] then [''Action state '' @ quoted i @ '' missing handler''] else []
          | _ \<Rightarrow> [])))"

definition definition_states :: "workflow_definition \<Rightarrow> report" where
  "definition_states d =
     (if wd_states d = [] then ([''No states defined''], [])
      else joined
        ([(if map_of (wd_states d) (wd_initial_state d) = None
           then [''Initial state '' @ quoted (wd_initial_state d) @ '' not in states''] else [], []),
          (if terminal_states d = [] then [''No terminal states defined''] else [], [])] @
         map (definition_state d) (wd_states d)))"

text \<open>A field of the schema is never a plain dictionary, so each gets the warning.\<close>

definition definition_schema :: "workflow_definition \<Rightarrow> report" where
  "definition_schema d =
     ([], if wd_data_schema d = [] then [''No data schema defined'']
          else map (\<lambda>n. ''Field '' @ quoted n @ '' schema should be a dict'') (keys (wd_data_schema d)))"

text \<open>\<^verbatim>\<open>policy[key] < 0\<close>.\<close>

definition policy_negative :: "(string, json) dict \<Rightarrow> string \<Rightarrow> workflow_error + bool" where
  "policy_negative policy k =
     (case map_of policy k of
        None \<Rightarrow> Inl (WfKeyError k)
      | Some v \<Rightarrow> (case number_of v of None \<Rightarrow> Inl WfTypeError | Some q \<Rightarrow> Inr (q < 0)))"

definition definition_config :: "workflow_definition \<Rightarrow> workflow_error + report" where
  "definition_config d =
     (let c = wd_config d;
          w = (if wc_timeout_hours c \<le> 0 then [''timeout_hours should be positive''] else [])
      in if wc_retry_policy c = [] then Inr ([], w)
         else ebind (policy_negative (wc_retry_policy c) ''max_retries'') (\<lambda>a.
                ebind (policy_negative (wc_retry_policy c) ''backoff_seconds'') (\<lambda>b.
                  Inr ([], w @ (if a then [''max_retries should be non-negative''] else []) @
                              (if b then [''backoff_seconds should be non-negative''] else [])))))"

definition workflow_validator :: "workflow_definition \<Rightarrow> workflow_error + report" where
  "workflow_validator d =
     ebind (definition_config d) (\<lambda>config.
       Inr (joined [required_fields d, definition_states d, definition_schema d, config]))"

text \<open>
  \<^verbatim>\<open>validate_context\<close>: the fields of a schema are models without a method \<^verbatim>\<open>get\<close>, so the
  first of them raises.
\<close>

definition execution_validator :: "workflow_context \<Rightarrow> workflow_definition \<Rightarrow> workflow_error + string list" where
  "execution_validator x d =
     (let errors = (if map_of (wd_states d) (wx_current_state x) = None
                    then [''Current state '' @ quoted (wx_current_state x) @ '' not in workflow definition''] else [])
      in case wd_data_schema d of
           [] \<Rightarrow> Inr errors
         | _ # _ \<Rightarrow> Inl (WfAttributeError ''get''))"

section \<open>Loader and registry\<close>

record registry_entry =
  rn_workflow_id :: name
  rn_name :: string
  rn_display_name :: string
  rn_description :: string
  rn_category :: WorkflowCategory
  rn_version :: string
  rn_enabled :: bool
  rn_definition_file :: string
  rn_tags :: "string list"

text \<open>
  What a file gives: the \<^verbatim>\<open>name\<close> at the top of its text (when that can be read), and the
  definition it loads as.
\<close>

record workflow_file =
  wl_top_name :: "name option"
  wl_definition :: "workflow_error + workflow_definition"

text \<open>The directory in the order of \<^verbatim>\<open>glob\<close>; the registry file, if any, is kept apart.\<close>

record workflows_dir =
  dr_files :: "(name, workflow_file) dict"
  dr_registry :: "(workflow_error + registry_entry list) option"

type_synonym loader_cache = "(name, workflow_definition) dict"

definition definition_files :: "workflows_dir \<Rightarrow> (name, workflow_file) dict" where
  "definition_files dir = filter (\<lambda>(f, _). f \<noteq> ''workflow_registry.yaml'' \<and> f \<noteq> ''template.yaml'') (dr_files dir)"

definition entry_of :: "workflow_definition \<Rightarrow> name \<Rightarrow> registry_entry" where
  "entry_of d file =
     \<lparr>rn_workflow_id = wd_name d, rn_name = wd_name d, rn_display_name = wd_display_name d,
      rn_description = wd_description d, rn_category = wd_category d, rn_version = wd_version d,
      rn_enabled = wd_enabled d, rn_definition_file = file, rn_tags = wd_tags d\<rparr>"

definition build_registry :: "workflows_dir \<Rightarrow> registry_entry list" where
  "build_registry dir =
     List.map_filter (\<lambda>(f, w). case wl_definition w of Inr d \<Rightarrow> Some (entry_of d f) | Inl _ \<Rightarrow> None) (definition_files dir)"

definition load_registry :: "workflows_dir \<Rightarrow> workflow_error + registry_entry list" where
  "load_registry dir = (case dr_registry dir of None \<Rightarrow> Inr (build_registry dir) | Some r \<Rightarrow> r)"

definition find_workflow_file :: "workflows_dir \<Rightarrow> name \<Rightarrow> workflow_error + name option" where
  "find_workflow_file dir i =
     (if map_of (dr_files dir) (i @ ''.yaml'') \<noteq> None then Inr (Some (i @ ''.yaml''))
      else ebind (load_registry dir) (\<lambda>entries.
        Inr (case List.find (\<lambda>e. rn_workflow_id e = i \<and> map_of (dr_files dir) (rn_definition_file e) \<noteq> None) entries of
               Some e \<Rightarrow> Some (rn_definition_file e)
             | None \<Rightarrow> map_option fst (List.find (\<lambda>(_, w). wl_top_name w = Some i) (definition_files dir)))))"

definition load_from_file :: "workflows_dir \<Rightarrow> name \<Rightarrow> workflow_error + workflow_definition" where
  "load_from_file dir f =
     (case map_of (dr_files dir) f of None \<Rightarrow> Inl (WfFileNotFound f) | Some w \<Rightarrow> wl_definition w)"

definition load_workflow ::
  "workflows_dir \<Rightarrow> name \<Rightarrow> loader_cache \<Rightarrow> (workflow_error + workflow_definition) \<times> loader_cache"
where
  "load_workflow dir i cache =
     (case map_of cache i of
        Some d \<Rightarrow> (Inr d, cache)
      | None \<Rightarrow>
          (case ebind (find_workflow_file dir i) (\<lambda>f.
                  case f of
                    None \<Rightarrow> Inl (WfFileNotFound (''Workflow definition not found: '' @ i))
                  | Some p \<Rightarrow> load_from_file dir p) of
             Inl e \<Rightarrow> (Inl e, cache)
           | Inr d \<Rightarrow> (Inr d, AList.update i d cache)))"

definition load_all_workflows :: "workflows_dir \<Rightarrow> loader_cache \<Rightarrow> workflow_definition list \<times> loader_cache" where
  "load_all_workflows dir cache =
     (let ds = List.map_filter (\<lambda>(_, w). case wl_definition w of Inr d \<Rightarrow> Some d | Inl _ \<Rightarrow> None) (definition_files dir)
      in (ds, fold (\<lambda>d. AList.update (wd_name d) d) ds cache))"

definition loader_reload ::
  "workflows_dir \<Rightarrow> name \<Rightarrow> loader_cache \<Rightarrow> (workflow_error + workflow_definition) \<times> loader_cache"
where
  "loader_reload dir i cache = load_workflow dir i (AList.delete i cache)"

record workflow_registry =
  wr_cache :: loader_cache
  wr_definitions :: "(name, workflow_definition) dict"
  wr_entries :: "(name, registry_entry) dict"
  wr_initialized :: bool

definition new_workflow_registry :: workflow_registry where
  "new_workflow_registry = \<lparr>wr_cache = [], wr_definitions = [], wr_entries = [], wr_initialized = False\<rparr>"

definition registry_initialize :: "workflows_dir \<Rightarrow> workflow_registry \<Rightarrow> (workflow_error + unit) \<times> workflow_registry" where
  "registry_initialize dir r =
     (if wr_initialized r then (Inr (), r)
      else case load_registry dir of
             Inl e \<Rightarrow> (Inl e, r)
           | Inr entries \<Rightarrow>
               (case load_all_workflows dir (wr_cache r) of (ds, cache) \<Rightarrow>
                  (Inr (), r\<lparr>wr_cache := cache,
                     wr_definitions := fold (\<lambda>d. AList.update (wd_name d) d) ds (wr_definitions r),
                     wr_entries := fold (\<lambda>e. AList.update (rn_workflow_id e) e) entries (wr_entries r),
                     wr_initialized := True\<rparr>)))"

definition get_definition ::
  "workflows_dir \<Rightarrow> name \<Rightarrow> workflow_registry \<Rightarrow> (workflow_error + workflow_definition) \<times> workflow_registry"
where
  "get_definition dir i r =
     (case registry_initialize dir r of
        (Inl e, r1) \<Rightarrow> (Inl e, r1)
      | (Inr _, r1) \<Rightarrow>
          (case map_of (wr_definitions r1) i of
             Some d \<Rightarrow> (Inr d, r1)
           | None \<Rightarrow>
               (case load_workflow dir i (wr_cache r1) of
                  (Inr d, cache) \<Rightarrow> (Inr d, r1\<lparr>wr_cache := cache, wr_definitions := AList.update i d (wr_definitions r1)\<rparr>)
                | (Inl (WfFileNotFound _), cache) \<Rightarrow>
                    (Inl (WfKeyError (''Workflow not found: '' @ i)), r1\<lparr>wr_cache := cache\<rparr>)
                | (Inl e, cache) \<Rightarrow> (Inl e, r1\<lparr>wr_cache := cache\<rparr>))))"

definition get_registry_entry ::
  "workflows_dir \<Rightarrow> name \<Rightarrow> workflow_registry \<Rightarrow> (workflow_error + registry_entry) \<times> workflow_registry"
where
  "get_registry_entry dir i r =
     (case registry_initialize dir r of
        (Inl e, r1) \<Rightarrow> (Inl e, r1)
      | (Inr _, r1) \<Rightarrow>
          (case map_of (wr_entries r1) i of
             Some e \<Rightarrow> (Inr e, r1)
           | None \<Rightarrow> (Inl (WfKeyError (''Registry entry not found: '' @ i)), r1)))"

definition list_workflows ::
  "workflows_dir \<Rightarrow> WorkflowCategory option \<Rightarrow> bool \<Rightarrow> workflow_registry \<Rightarrow>
   (workflow_error + registry_entry list) \<times> workflow_registry"
where
  "list_workflows dir category enabled_only r =
     (case registry_initialize dir r of
        (Inl e, r1) \<Rightarrow> (Inl e, r1)
      | (Inr _, r1) \<Rightarrow>
          (Inr (filter (\<lambda>e. (category = None \<or> category = Some (rn_category e)) \<and> (enabled_only \<longrightarrow> rn_enabled e))
                 (map snd (wr_entries r1))), r1))"

text \<open>\<^verbatim>\<open>get_workflows_by_category\<close> on the entries.\<close>

definition workflows_by_category :: "registry_entry list \<Rightarrow> (WorkflowCategory, registry_entry list) dict" where
  "workflows_by_category entries =
     fold (\<lambda>e m. AList.update (rn_category e) (dget [] m (rn_category e) @ [e]) m) entries []"

definition register_workflow :: "workflow_definition \<Rightarrow> workflow_registry \<Rightarrow> workflow_registry" where
  "register_workflow d r =
     r\<lparr>wr_definitions := AList.update (wd_name d) d (wr_definitions r),
       wr_entries := AList.update (wd_name d) (entry_of d (wd_name d @ ''.yaml'')) (wr_entries r)\<rparr>"

definition unregister_workflow :: "name \<Rightarrow> workflow_registry \<Rightarrow> bool \<times> workflow_registry" where
  "unregister_workflow i r =
     (map_of (wr_definitions r) i \<noteq> None \<or> map_of (wr_entries r) i \<noteq> None,
      r\<lparr>wr_definitions := AList.delete i (wr_definitions r), wr_entries := AList.delete i (wr_entries r)\<rparr>)"

definition reload_workflow ::
  "workflows_dir \<Rightarrow> name \<Rightarrow> workflow_registry \<Rightarrow> (workflow_error + workflow_definition) \<times> workflow_registry"
where
  "reload_workflow dir i r =
     (case load_workflow dir i [] of
        (Inl e, cache) \<Rightarrow> (Inl e, r\<lparr>wr_cache := cache\<rparr>)
      | (Inr d, cache) \<Rightarrow> (Inr d, r\<lparr>wr_cache := cache, wr_definitions := AList.update i d (wr_definitions r)\<rparr>))"

text \<open>\<^verbatim>\<open>validate_workflow\<close>; an exception becomes an error, whose text is left out.\<close>

definition registry_validate :: "workflows_dir \<Rightarrow> name \<Rightarrow> workflow_registry \<Rightarrow> string list \<times> workflow_registry" where
  "registry_validate dir i r =
     (case get_definition dir i r of
        (Inl _, r1) \<Rightarrow> ([''Validation error: ''], r1)
      | (Inr d, r1) \<Rightarrow>
          ((if map_of (wd_states d) (wd_initial_state d) = None
            then [''Initial state '' @ quoted (wd_initial_state d) @ '' not in states''] else []) @
           map (\<lambda>(s, t). ''State '' @ quoted s @ '' references unknown target state '' @ quoted t) (unknown_targets d) @
           (if terminal_states d = [] then [''No terminal states defined''] else []) @
           map (\<lambda>(s, _). ''Approval state '' @ quoted s @ '' missing approval config'')
             (filter (\<lambda>(_, s). ws_type s = WApproval \<and> ws_approval s = None) (wd_states d)), r1))"

section \<open>Properties of the validators\<close>

lemma fold_add_targets:
  "length (fold (\<lambda>t r. if wt_to t \<in> set r then r else r @ [wt_to t]) ts r0) = length r0 \<longleftrightarrow>
   (\<forall>t \<in> set ts. wt_to t \<in> set r0)"
proof (induction ts arbitrary: r0)
  case Nil
  then show ?case by simp
next
  case (Cons t ts)
  have grow: "length r \<le> length (fold (\<lambda>t r. if wt_to t \<in> set r then r else r @ [wt_to t]) us r)" for us r
  proof (induction us arbitrary: r)
    case (Cons u us)
    then show ?case using Cons[of "r @ [wt_to u]"] by auto
  qed simp
  show ?case
  proof (cases "wt_to t \<in> set r0")
    case True
    then show ?thesis using Cons by simp
  next
    case False
    then show ?thesis using grow[of "r0 @ [wt_to t]" ts] by auto
  qed
qed

lemma reachable_raises_iff:
  "is_ok (get_reachable_states d) \<longleftrightarrow>
     (case map_of (wd_states d) (wd_initial_state d) of
        None \<Rightarrow> True | Some s \<Rightarrow> \<forall>t \<in> set (ws_transitions s). wt_to t = wd_initial_state d)"
proof (cases "map_of (wd_states d) (wd_initial_state d)")
  case None
  then show ?thesis by (simp add: get_reachable_states_def add_targets_def)
next
  case (Some s)
  then show ?thesis using fold_add_targets[of "ws_transitions s" "[wd_initial_state d]"]
    by (auto simp: get_reachable_states_def add_targets_def Let_def)
qed

text \<open>C30: The transition validator works on no real workflow: it raises a \<^verbatim>\<open>RuntimeError\<close> exactly
  when the initial state has a transition to another state, because the reachability check adds to
  the set it iterates over.\<close>

theorem transition_validator_raises_iff:
  "transition_validator compiles d = Inl (WfRuntimeError ''Set changed size during iteration'') \<longleftrightarrow>
   (\<exists>s t. map_of (wd_states d) (wd_initial_state d) = Some s \<and> t \<in> set (ws_transitions s) \<and>
      wt_to t \<noteq> wd_initial_state d)"
proof -
  have "get_reachable_states d = Inl (WfRuntimeError ''Set changed size during iteration'') \<or> is_ok (get_reachable_states d)"
    by (simp add: get_reachable_states_def Let_def)
  moreover have "transition_validator compiles d = Inl e \<longleftrightarrow> get_reachable_states d = Inl e" for e
    by (cases "get_reachable_states d") (simp_all add: transition_validator_def check_reachability_def)
  ultimately have "transition_validator compiles d = Inl (WfRuntimeError ''Set changed size during iteration'') \<longleftrightarrow>
      \<not> is_ok (get_reachable_states d)" by auto
  then show ?thesis unfolding reachable_raises_iff by (auto split: option.splits)
qed

end
