(* ===== verification/WriteGuard.thy ===== *)
theory WriteGuard
  imports Condition
begin

text \<open>
  Write authorisation of the dashboard (\<^verbatim>\<open>api/auth.py\<close>, \<^verbatim>\<open>api/guards.py\<close>, and the routes of
  \<^verbatim>\<open>api/write_endpoints.py\<close> as far as they use the guard): the token service and its file, the CSRF
  token, the host allowlist, the guard in front of every mutation, and the audit records.  The digest,
  the fresh token and whether publishing raises are arguments.  A header is text of 8-bit characters.
\<close>

section \<open>Hosts\<close>

definition ALLOWED_HOSTS :: "string list" where
  "ALLOWED_HOSTS = [''127.0.0.1'', ''localhost'', ''::1'', ''[::1]'']"

text \<open>\<^verbatim>\<open>s.split(c, 1)[0]\<close>, and stripping with the two space characters beyond ASCII.\<close>

definition until_char :: "char \<Rightarrow> string \<Rightarrow> string" where
  "until_char c s = takeWhile (\<lambda>x. x \<noteq> c) s"

definition strip8 :: "string \<Rightarrow> string" where
  "strip8 s = strip_by (\<lambda>c. is_space c \<or> of_char c \<in> {133, 160 :: nat}) s"

definition host_allowed :: "string \<Rightarrow> bool" where
  "host_allowed h =
     (let host = lower (strip8 h)
      in if host = [] then False
         else if hd host = CHR ''['' then until_char (CHR '']'') host @ '']'' \<in> set ALLOWED_HOSTS
         else until_char (CHR '':'') host \<in> set ALLOWED_HOSTS)"

text \<open>
  A bracketed host is cut at its first bracket, so any name behind it passes; the address \<^verbatim>\<open>::1\<close> of the
  allowlist itself is cut at its first colon and does not.
\<close>

lemma host_allowed_bracket_suffix: "host_allowed ''[::1].example.org''"
  by code_simp

lemma host_allowed_bare_ipv6: "\<not> host_allowed ''::1'' \<and> ''::1'' \<in> set ALLOWED_HOSTS"
  by code_simp

section \<open>Tokens\<close>

datatype auth_error = ManagedByEnvironment | NotAscii | HTTPException nat string

text \<open>The file is its text with the time it was written; \<^verbatim>\<open>None\<close> is a file that cannot be read.\<close>

record token_service =
  wt_file :: "(string \<times> time) option"
  wt_hash_at_rest :: bool
  wt_env_token :: "string option"
  wt_stored :: "string option"
  wt_created_at :: "time option"

definition load_token :: "token_service \<Rightarrow> token_service" where
  "load_token s =
     (if wt_env_token s \<noteq> None then s\<lparr>wt_stored := None, wt_created_at := None\<rparr>
      else let content = (case wt_file s of None \<Rightarrow> [] | Some (text, _) \<Rightarrow> strip8 text)
           in if content \<noteq> [] then s\<lparr>wt_stored := Some content, wt_created_at := map_option snd (wt_file s)\<rparr>
              else s\<lparr>wt_stored := None, wt_created_at := None\<rparr>)"

definition new_token_service :: "(string \<times> time) option \<Rightarrow> bool \<Rightarrow> string option \<Rightarrow> token_service" where
  "new_token_service file hash env =
     load_token \<lparr>wt_file = file, wt_hash_at_rest = hash, wt_env_token = env, wt_stored = None, wt_created_at = None\<rparr>"

definition managed_by_env :: "token_service \<Rightarrow> bool" where
  "managed_by_env s \<longleftrightarrow> wt_env_token s \<noteq> None"

definition has_token :: "token_service \<Rightarrow> bool" where
  "has_token s \<longleftrightarrow> managed_by_env s \<or> wt_stored s \<noteq> None"

definition write_token :: "(string \<Rightarrow> string) \<Rightarrow> string \<Rightarrow> time \<Rightarrow> token_service \<Rightarrow> token_service" where
  "write_token digest token now s =
     s\<lparr>wt_file := Some ((if wt_hash_at_rest s then digest token else token) @ [CHR 0x0A], now)\<rparr>"

definition create_token ::
  "(string \<Rightarrow> string) \<Rightarrow> string \<Rightarrow> time \<Rightarrow> token_service \<Rightarrow> auth_error + string option \<times> token_service"
where
  "create_token digest token now s =
     (if managed_by_env s then Inl ManagedByEnvironment
      else let was_absent = (wt_stored s = None);
               s1 = (write_token digest token now s)\<lparr>wt_stored := Some token, wt_created_at := Some now\<rparr>
           in Inr (if was_absent then Some token else None, s1))"

definition revoke_token :: "token_service \<Rightarrow> auth_error + token_service" where
  "revoke_token s =
     (if managed_by_env s then Inl ManagedByEnvironment
      else Inr (s\<lparr>wt_file := None, wt_stored := None, wt_created_at := None\<rparr>))"

text \<open>\<^verbatim>\<open>hmac.compare_digest\<close> on text: it raises where a character is not ASCII.\<close>

definition ascii_text :: "string \<Rightarrow> bool" where
  "ascii_text s \<longleftrightarrow> (\<forall>c \<in> set s. of_char c < (128 :: nat))"

definition compare_digest :: "string \<Rightarrow> string \<Rightarrow> auth_error + bool" where
  "compare_digest a b = (if ascii_text a \<and> ascii_text b then Inr (a = b) else Inl NotAscii)"

definition verify_token :: "(string \<Rightarrow> string) \<Rightarrow> string option \<Rightarrow> token_service \<Rightarrow> auth_error + bool" where
  "verify_token digest token s =
     (case token of
        None \<Rightarrow> Inr False
      | Some t \<Rightarrow>
          if t = [] then Inr False
          else case (case wt_env_token s of Some e \<Rightarrow> Some e | None \<Rightarrow> wt_stored s) of
                 None \<Rightarrow> Inr False
               | Some expected \<Rightarrow>
                   compare_digest (if wt_hash_at_rest s \<and> wt_env_token s = None then digest t else t) expected)"

definition new_csrf :: "string option \<Rightarrow> string \<Rightarrow> string" where
  "new_csrf token fresh = (case token of None \<Rightarrow> fresh | Some t \<Rightarrow> if t = [] then fresh else t)"

definition verify_csrf :: "string \<Rightarrow> string option \<Rightarrow> auth_error + bool" where
  "verify_csrf csrf v =
     (case v of None \<Rightarrow> Inr False | Some t \<Rightarrow> if t = [] then Inr False else compare_digest t csrf)"

section \<open>The guard\<close>

datatype audit_record =
  WriteAudit string string "string option" "string list"
| WriteRejected string string "string option"

text \<open>A guard holds the bus it was built with; what is published and what falls back to the file is the state.\<close>

record write_guard =
  wg_tokens :: token_service
  wg_csrf :: string
  wg_bus :: bool
  wg_require_loopback_token :: bool
  wg_published :: "audit_record list"
  wg_failed :: "audit_record list"
  wg_actions :: "(string \<times> string) list"

record auth_env =
  ae_digest :: "string \<Rightarrow> string"
  ae_publish_raises :: bool

record write_request =
  wr_host :: string
  wr_authorization :: string
  wr_csrf :: "string option"

definition HIGH_IMPACT_ACTIONS :: "string list" where
  "HIGH_IMPACT_ACTIONS =
     [''runtime.stop'', ''runtime.restart'', ''runtime.recover'', ''runtime.unisolate'', ''orchestrate.rollback'']"

definition new_write_guard :: "token_service \<Rightarrow> string \<Rightarrow> bool \<Rightarrow> bool \<Rightarrow> write_guard" where
  "new_write_guard tokens csrf bus require_loopback =
     \<lparr>wg_tokens = tokens, wg_csrf = csrf, wg_bus = bus, wg_require_loopback_token = require_loopback,
      wg_published = [], wg_failed = [], wg_actions = []\<rparr>"

definition fail_open :: "auth_env \<Rightarrow> audit_record \<Rightarrow> write_guard \<Rightarrow> write_guard" where
  "fail_open env a g =
     (if ae_publish_raises env then g\<lparr>wg_failed := wg_failed g @ [a]\<rparr> else g\<lparr>wg_published := wg_published g @ [a]\<rparr>)"

definition reject_write :: "auth_env \<Rightarrow> string \<Rightarrow> string \<Rightarrow> string option \<Rightarrow> write_guard \<Rightarrow> write_guard" where
  "reject_write env action reason detail g =
     (if wg_bus g then fail_open env (WriteRejected action reason detail) g else g)"

text \<open>The bearer token of a request.\<close>

definition bearer_token :: "write_request \<Rightarrow> string option" where
  "bearer_token q =
     (if lower (take 7 (wr_authorization q)) = ''bearer '' then Some (strip8 (drop 7 (wr_authorization q))) else None)"

definition token_required :: "write_request \<Rightarrow> write_guard \<Rightarrow> bool" where
  "token_required q g \<longleftrightarrow> \<not> host_allowed (wr_host q) \<or> wg_require_loopback_token g"

definition check_csrf :: "auth_env \<Rightarrow> string \<Rightarrow> write_request \<Rightarrow> write_guard \<Rightarrow> (auth_error + unit) \<times> write_guard" where
  "check_csrf env action q g =
     (case verify_csrf (wg_csrf g) (wr_csrf q) of
        Inl e \<Rightarrow> (Inl e, g)
      | Inr ok \<Rightarrow>
          if ok then (Inr (), g)
          else (Inl (HTTPException 403 ''invalid CSRF token''),
                reject_write env action ''csrf_mismatch'' (Some ''missing or invalid CSRF token'') g))"

definition require_write_auth ::
  "auth_env \<Rightarrow> string \<Rightarrow> write_request \<Rightarrow> write_guard \<Rightarrow> (auth_error + unit) \<times> write_guard"
where
  "require_write_auth env action q g =
     (case bearer_token q of
        Some t \<Rightarrow>
          (case verify_token (ae_digest env) (Some t) (wg_tokens g) of
             Inl e \<Rightarrow> (Inl e, g)
           | Inr ok \<Rightarrow>
               if ok then check_csrf env action q g
               else (Inl (HTTPException 401 ''invalid write token''),
                     reject_write env action ''unauthorized'' (Some ''invalid token'') g))
      | None \<Rightarrow>
          if token_required q g
          then (Inl (HTTPException 401 ''write token required''),
                reject_write env action ''unauthorized'' (Some ''missing token'') g)
          else check_csrf env action q g)"

definition require_reason ::
  "auth_env \<Rightarrow> string \<Rightarrow> string option \<Rightarrow> write_guard \<Rightarrow> (auth_error + unit) \<times> write_guard"
where
  "require_reason env action reason g =
     (if action \<in> set HIGH_IMPACT_ACTIONS \<and> (case reason of None \<Rightarrow> True | Some r \<Rightarrow> strip8 r = [])
      then (Inl (HTTPException 422 (''reason is required for high-impact action: '' @ action)),
            reject_write env action ''missing_reason'' (Some ''reason is required for high-impact action'') g)
      else (Inr (), g))"

text \<open>The result of an operation is whether it succeeded and its errors; \<^verbatim>\<open>source\<close> names who acted.\<close>

definition audited ::
  "auth_env \<Rightarrow> bool \<Rightarrow> string list \<Rightarrow> string \<Rightarrow> string option \<Rightarrow> string option \<Rightarrow> write_guard \<Rightarrow> write_guard"
where
  "audited env success errors action reason source g =
     (let g1 = (if wg_bus g then fail_open env (WriteAudit action (if success then ''ok'' else ''failed'') reason errors) g else g)
      in case source of None \<Rightarrow> g1 | Some s \<Rightarrow> g1\<lparr>wg_actions := wg_actions g1 @ [(s, action)]\<rparr>)"

text \<open>
  A guarded route: the guard, the reason where the route asks for one (\<^verbatim>\<open>Some r\<close> with the reason of
  the body, after its default), the operation, the audit.  The operation returns: an exception of it,
  which would leave the route without an audit record, is left out.
\<close>

definition guarded_route ::
  "auth_env \<Rightarrow> string \<Rightarrow> write_request \<Rightarrow> string option option \<Rightarrow> ('s \<Rightarrow> (bool \<times> string list) \<times> 's) \<Rightarrow>
   write_guard \<times> 's \<Rightarrow> (auth_error + bool) \<times> write_guard \<times> 's"
where
  "guarded_route env action q reason run w =
     (case require_write_auth env action q (fst w) of
        (Inl e, g) \<Rightarrow> (Inl e, g, snd w)
      | (Inr _, g) \<Rightarrow>
          (case (case reason of None \<Rightarrow> (Inr (), g) | Some r \<Rightarrow> require_reason env action r g) of
             (Inl e, g1) \<Rightarrow> (Inl e, g1, snd w)
           | (Inr _, g1) \<Rightarrow>
               (case run (snd w) of
                  ((success, errors), s) \<Rightarrow>
                    (Inr success, audited env success errors action (case reason of None \<Rightarrow> None | Some r \<Rightarrow> r)
                       (Some ''gui'') g1, s))))"

text \<open>The default reasons of the request bodies: only a rollback has one.\<close>

definition rollback_reason :: "string option \<Rightarrow> string" where
  "rollback_reason r = (case r of None \<Rightarrow> ''manual rollback'' | Some x \<Rightarrow> x)"

section \<open>Tokens over their life\<close>

text \<open>Text that survives being written to the file and read again: no white space, as fresh tokens and digests.\<close>

definition token_text :: "string \<Rightarrow> bool" where
  "token_text t \<longleftrightarrow> t \<noteq> [] \<and> ascii_text t \<and> (\<forall>c \<in> set t. \<not> is_space c)"

lemma strip_line:
  assumes "token_text t"
  shows "strip8 (t @ [CHR 0x0A]) = t"
proof -
  let ?P = "\<lambda>c. is_space c \<or> of_char c \<in> {133, 160 :: nat}"
  have no: "\<not> ?P c" if "c \<in> set t" for c
    using assms that by (auto simp: token_text_def ascii_text_def)
  have id: "dropWhile ?P xs = xs" if "set xs \<subseteq> set t" "xs \<noteq> []" for xs
    using that no by (cases xs) auto
  have nl: "?P (CHR 0x0A)" by (simp add: is_space_def)
  have t: "t \<noteq> []" using assms by (simp add: token_text_def)
  have "dropWhile ?P (t @ [CHR 0x0A]) = t @ [CHR 0x0A]" using t no by (cases t) auto
  moreover have "dropWhile ?P (rev t) = rev t" using id[of "rev t"] t by simp
  ultimately show ?thesis using nl by (simp add: strip8_def strip_by_def)
qed

lemma load_token_fields [simp]:
  "wt_file (load_token s) = wt_file s" "wt_hash_at_rest (load_token s) = wt_hash_at_rest s"
  "wt_env_token (load_token s) = wt_env_token s"
  by (simp_all add: load_token_def Let_def)

lemma load_token_line:
  assumes "wt_env_token s = None" "wt_file s = Some (t @ [CHR 0x0A], now)" "token_text t"
  shows "wt_stored (load_token s) = Some t"
  using assms strip_line[OF assms(3)] by (simp add: load_token_def token_text_def)

lemma verify_stored:
  assumes "wt_env_token s = None" "wt_stored s = Some e" "t \<noteq> []"
  shows "verify_token digest (Some t) s = compare_digest (if wt_hash_at_rest s then digest t else t) e"
  using assms by (simp add: verify_token_def)

lemma verify_ignores_file [simp]: "verify_token digest t (s\<lparr>wt_file := f\<rparr>) = verify_token digest t s"
  by (simp add: verify_token_def split: option.split)

section \<open>What the guard admits\<close>

definition authorised :: "(string \<Rightarrow> string) \<Rightarrow> write_request \<Rightarrow> write_guard \<Rightarrow> bool" where
  "authorised digest q g \<longleftrightarrow>
     (case bearer_token q of
        Some t \<Rightarrow> verify_token digest (Some t) (wg_tokens g) = Inr True
      | None \<Rightarrow> host_allowed (wr_host q) \<and> \<not> wg_require_loopback_token g) \<and>
     wr_csrf q = Some (wg_csrf g) \<and> wg_csrf g \<noteq> [] \<and> ascii_text (wg_csrf g)"

definition reason_given :: "string \<Rightarrow> string option option \<Rightarrow> bool" where
  "reason_given action reason \<longleftrightarrow>
     (case reason of
        None \<Rightarrow> True
      | Some r \<Rightarrow> action \<in> set HIGH_IMPACT_ACTIONS \<longrightarrow> (\<exists>t. r = Some t \<and> strip8 t \<noteq> []))"

text \<open>Where the records of an environment go.\<close>

definition audit_log :: "auth_env \<Rightarrow> write_guard \<Rightarrow> audit_record list" where
  "audit_log env g = (if ae_publish_raises env then wg_failed g else wg_published g)"

lemma fail_open_log [simp]: "audit_log env (fail_open env a g) = audit_log env g @ [a]"
  by (simp add: audit_log_def fail_open_def)

lemma reject_write_log [simp]:
  "audit_log env (reject_write env a r d g) = audit_log env g @ (if wg_bus g then [WriteRejected a r d] else [])"
  by (simp add: reject_write_def)

lemma audited_log [simp]:
  "audit_log env (audited env ok es a r src g) =
     audit_log env g @ (if wg_bus g then [WriteAudit a (if ok then ''ok'' else ''failed'') r es] else [])"
  by (simp add: audited_def Let_def audit_log_def fail_open_def split: option.split)

lemma verify_csrf_True: "verify_csrf csrf v = Inr True \<longleftrightarrow> v = Some csrf \<and> csrf \<noteq> [] \<and> ascii_text csrf"
  by (auto simp: verify_csrf_def compare_digest_def split: option.split if_splits)

lemma verify_csrf_Inl: "verify_csrf csrf v = Inl e \<Longrightarrow> e = NotAscii"
  by (auto simp: verify_csrf_def compare_digest_def split: option.splits if_splits)

lemma verify_token_Inl: "verify_token digest v s = Inl e \<Longrightarrow> e = NotAscii"
  by (auto simp: verify_token_def compare_digest_def split: option.splits if_splits)

lemma check_csrf_ok: "verify_csrf (wg_csrf g) (wr_csrf q) = Inr True \<Longrightarrow> check_csrf env a q g = (Inr (), g)"
  by (simp add: check_csrf_def)

text \<open>A refusal leaves a record, when there is a bus to publish it and the headers could be compared.\<close>

abbreviation refused :: "auth_env \<Rightarrow> write_guard \<Rightarrow> (auth_error + unit) \<times> write_guard \<Rightarrow> bool" where
  "refused env g w \<equiv> \<exists>e g'. w = (Inl e, g') \<and>
     length (audit_log env g') = length (audit_log env g) + (if wg_bus g \<and> e \<noteq> NotAscii then 1 else 0)"

lemma check_csrf_refused:
  assumes "verify_csrf (wg_csrf g) (wr_csrf q) \<noteq> Inr True"
  shows "refused env g (check_csrf env a q g)"
proof (cases "verify_csrf (wg_csrf g) (wr_csrf q)")
  case (Inl e)
  then show ?thesis using verify_csrf_Inl[OF Inl] by (simp add: check_csrf_def)
next
  case (Inr ok)
  then show ?thesis using assms by (simp add: check_csrf_def)
qed

lemma require_write_auth_ok:
  assumes "authorised (ae_digest env) q g"
  shows "require_write_auth env a q g = (Inr (), g)"
proof -
  have "verify_csrf (wg_csrf g) (wr_csrf q) = Inr True"
    using assms by (simp add: authorised_def verify_csrf_True)
  then show ?thesis
    using assms check_csrf_ok by (cases "bearer_token q") (simp_all add: authorised_def require_write_auth_def token_required_def)
qed

lemma require_write_auth_refused:
  assumes "\<not> authorised (ae_digest env) q g"
  shows "refused env g (require_write_auth env a q g)"
proof (cases "bearer_token q")
  case None
  show ?thesis
  proof (cases "token_required q g")
    case True
    then show ?thesis using None by (simp add: require_write_auth_def)
  next
    case False
    then have "verify_csrf (wg_csrf g) (wr_csrf q) \<noteq> Inr True"
      using None assms by (simp add: authorised_def token_required_def verify_csrf_True)
    from check_csrf_refused[OF this] False None show ?thesis by (simp add: require_write_auth_def)
  qed
next
  case (Some t)
  show ?thesis
  proof (cases "verify_token (ae_digest env) (Some t) (wg_tokens g)")
    case (Inl e)
    then show ?thesis using verify_token_Inl[OF Inl] Some by (simp add: require_write_auth_def)
  next
    case (Inr ok)
    show ?thesis
    proof (cases ok)
      case True
      then have "verify_csrf (wg_csrf g) (wr_csrf q) \<noteq> Inr True"
        using Inr Some assms by (simp add: authorised_def verify_csrf_True)
      from check_csrf_refused[OF this] Inr True Some show ?thesis by (simp add: require_write_auth_def)
    qed (use Inr Some in \<open>simp add: require_write_auth_def\<close>)
  qed
qed

section \<open>Properties\<close>

text \<open>C5: A guarded route runs its operation exactly when the request is authorised - a bearer token that
  verifies, or none where none is required, and the CSRF token - and gives the reason the action needs;
  otherwise it raises and the state behind it is as before.  Whatever it does, it leaves exactly one
  audit record, unless the guard was built without a bus or a header is not ASCII.\<close>

theorem guarded_route_spec:
  "case guarded_route env action q reason run (g, s) of (res, g', s') \<Rightarrow>
     (if authorised (ae_digest env) q g \<and> reason_given action reason
      then res = Inr (fst (fst (run s))) \<and> s' = snd (run s)
      else \<not> is_ok res \<and> s' = s) \<and>
     length (audit_log env g') = length (audit_log env g) + (if wg_bus g \<and> res \<noteq> Inl NotAscii then 1 else 0)"
proof (cases "authorised (ae_digest env) q g")
  case False
  with require_write_auth_refused[OF this, of action] show ?thesis by (auto simp: guarded_route_def)
next
  case True
  note auth = require_write_auth_ok[OF this, of action]
  show ?thesis
  proof (cases "reason_given action reason")
    case given: True
    then have "(case reason of None \<Rightarrow> (Inr (), g) | Some r \<Rightarrow> require_reason env action r g) = (Inr (), g)"
      by (auto simp: reason_given_def require_reason_def split: option.splits)
    then show ?thesis using True given auth by (simp add: guarded_route_def split: prod.split)
  next
    case False
    then obtain r where "reason = Some r" "action \<in> set HIGH_IMPACT_ACTIONS" "\<nexists>t. r = Some t \<and> strip8 t \<noteq> []"
      by (auto simp: reason_given_def split: option.splits)
    then show ?thesis using True auth False
      by (auto simp: guarded_route_def require_reason_def split: option.split)
  qed
qed

text \<open>C35: A token that is created with hashing at rest is refused by the very service that created it,
  and accepted once the service is loaded from its file again; without hashing it is accepted by both.\<close>

theorem created_token_accepted_iff:
  assumes "create_token digest token now s = Inr (r, s')"
    and "token_text token" "token_text (digest token)" "digest token \<noteq> token"
  shows "verify_token digest (Some token) s' = Inr (\<not> wt_hash_at_rest s) \<and>
    verify_token digest (Some token) (load_token s') = Inr True"
proof -
  have s': "wt_env_token s' = None" "wt_stored s' = Some token" "wt_hash_at_rest s' = wt_hash_at_rest s"
    "wt_file s' = Some ((if wt_hash_at_rest s then digest token else token) @ [CHR 0x0A], now)"
    using assms(1) by (auto simp: create_token_def managed_by_env_def write_token_def Let_def split: if_splits)
  have "token_text (if wt_hash_at_rest s then digest token else token)" using assms(2,3) by simp
  from load_token_line[OF s'(1,4) this] have
    "wt_stored (load_token s') = Some (if wt_hash_at_rest s then digest token else token)" .
  then show ?thesis
    using s' assms(2-4) by (simp add: verify_token_def compare_digest_def token_text_def)
qed

definition demo_digest :: "string \<Rightarrow> string" where
  "demo_digest t = (if t = ''s3cret'' then ''ba5eba11'' else ''c0ffee'')"

theorem created_token_accepted_iff_witness:
  "\<exists>s'. create_token demo_digest ''s3cret'' 5 (new_token_service None True None) = Inr (Some ''s3cret'', s') \<and>
     verify_token demo_digest (Some ''s3cret'') s' = Inr False \<and>
     verify_token demo_digest (Some ''s3cret'') (load_token s') = Inr True"
proof -
  let ?s = "new_token_service None True None"
  obtain s' where s': "create_token demo_digest ''s3cret'' 5 ?s = Inr (Some ''s3cret'', s')"
    by (simp add: create_token_def new_token_service_def load_token_def managed_by_env_def)
  have "token_text ''s3cret''" "token_text (demo_digest ''s3cret'')" "demo_digest ''s3cret'' \<noteq> ''s3cret''"
    by (simp_all add: token_text_def demo_digest_def ascii_text_def is_space_def)
  from created_token_accepted_iff[OF s' this] s' show ?thesis by (auto simp: new_token_service_def)
qed

text \<open>Revoking or rotating the token through another service on the same file does not reach a
  running one: it goes on accepting what it accepted, while a service loaded from the file accepts no
  token after a revocation, and after a rotation the new one only.\<close>

theorem revocation_needs_restart:
  assumes "wt_env_token s = None" "revoke_token (new_token_service (wt_file s) hash None) = Inr cli"
    and "create_token digest token now (new_token_service (wt_file s) (wt_hash_at_rest s) None) = Inr (r, cli2)"
    and "token_text token" "token_text (digest token)"
  shows "(\<forall>t. verify_token digest t (s\<lparr>wt_file := wt_file cli\<rparr>) = verify_token digest t s \<and>
         verify_token digest t (s\<lparr>wt_file := wt_file cli2\<rparr>) = verify_token digest t s \<and>
         verify_token digest t (load_token (s\<lparr>wt_file := wt_file cli\<rparr>)) = Inr False) \<and>
    (\<forall>t. verify_token digest t (load_token (s\<lparr>wt_file := wt_file cli2\<rparr>)) = Inr True \<longrightarrow>
         t = Some token \<or> wt_hash_at_rest s \<and> (\<exists>u. t = Some u \<and> digest u = digest token))"
proof -
  have cli: "wt_file cli = None"
    using assms(2) by (auto simp: revoke_token_def split: if_splits)
  have cli2: "wt_file cli2 = Some ((if wt_hash_at_rest s then digest token else token) @ [CHR 0x0A], now)"
    using assms(3) by (auto simp: create_token_def write_token_def new_token_service_def Let_def split: if_splits)
  have "token_text (if wt_hash_at_rest s then digest token else token)" using assms(4,5) by simp
  with cli2 assms(1) have stored: "wt_stored (load_token (s\<lparr>wt_file := wt_file cli2\<rparr>)) =
      Some (if wt_hash_at_rest s then digest token else token)"
    by (intro load_token_line) simp_all
  have "verify_token digest t (load_token (s\<lparr>wt_file := wt_file cli\<rparr>)) = Inr False" for t
    using cli assms(1) by (simp add: verify_token_def load_token_def split: option.split)
  moreover have "t = Some token \<or> wt_hash_at_rest s \<and> (\<exists>u. t = Some u \<and> digest u = digest token)"
    if "verify_token digest t (load_token (s\<lparr>wt_file := wt_file cli2\<rparr>)) = Inr True" for t
    using that stored assms(1) by (auto simp: verify_token_def compare_digest_def split: option.splits if_splits)
  ultimately show ?thesis by simp
qed

theorem revocation_needs_restart_witness:
  "\<exists>s cli. verify_token demo_digest (Some ''s3cret'') s = Inr True \<and>
     revoke_token (new_token_service (wt_file s) False None) = Inr cli \<and>
     verify_token demo_digest (Some ''s3cret'') (s\<lparr>wt_file := wt_file cli\<rparr>) = Inr True \<and>
     verify_token demo_digest (Some ''s3cret'') (load_token (s\<lparr>wt_file := wt_file cli\<rparr>)) = Inr False"
proof -
  define s where "s = new_token_service (Some (''s3cret'' @ [CHR 0x0A], 1)) False None"
  have t: "token_text ''s3cret''" "token_text (demo_digest ''s3cret'')"
    by (simp_all add: token_text_def demo_digest_def ascii_text_def is_space_def)
  have s: "wt_env_token s = None" "wt_stored s = Some ''s3cret''" "\<not> wt_hash_at_rest s"
    using load_token_line[of _ "''s3cret''" 1, OF _ _ t(1)] by (simp_all add: s_def new_token_service_def)
  obtain cli where c: "revoke_token (new_token_service (wt_file s) False None) = Inr cli"
    by (simp add: revoke_token_def managed_by_env_def new_token_service_def)
  obtain r cli2 where c2: "create_token demo_digest ''s3cret'' 7 (new_token_service (wt_file s) (wt_hash_at_rest s) None) = Inr (r, cli2)"
    by (simp add: create_token_def managed_by_env_def new_token_service_def)
  have v: "verify_token demo_digest (Some ''s3cret'') s = Inr True"
    using s t(1) by (simp add: verify_stored compare_digest_def token_text_def)
  with revocation_needs_restart[OF s(1) c c2 t] c show ?thesis by metis
qed

end
