(* ===== verification/JsonLines.thy ===== *)
theory JsonLines
  imports Condition
begin

text \<open>
  What the readers and writers of JSON-lines files share: the lines of a text, the records that parse, and
  the reading of fields of a record.  A file is its text, a position in it a number of characters; the
  parser of a line is an argument (\<^verbatim>\<open>json.loads\<close>), which has no value on a corrupt line.
\<close>

section \<open>Fields\<close>

datatype value_error = NotADict | NotANumber | NotBindable

definition as_dict :: "json \<Rightarrow> value_error + (string, json) dict" where
  "as_dict v = (case v of JObj kvs \<Rightarrow> Inr kvs | _ \<Rightarrow> Inl NotADict)"

text \<open>\<^verbatim>\<open>d.get(k, v)\<close> and \<^verbatim>\<open>a or b\<close>.\<close>

definition get_or :: "json \<Rightarrow> string \<Rightarrow> (string, json) dict \<Rightarrow> json" where
  "get_or v k d = dget v d k"

definition py_or :: "json \<Rightarrow> json \<Rightarrow> json" where
  "py_or a b = (if truthy a then a else b)"

definition truncate_rat :: "rat \<Rightarrow> int" where
  "truncate_rat x = (if 0 \<le> x then \<lfloor>x\<rfloor> else \<lceil>x\<rceil>)"

text \<open>\<^verbatim>\<open>int(v)\<close> and \<^verbatim>\<open>float(v)\<close>; infinities and NaN are left out.\<close>

definition to_int :: "json \<Rightarrow> value_error + int" where
  "to_int v =
     (case v of
        JNum x \<Rightarrow> Inr (truncate_rat x)
      | JBool b \<Rightarrow> Inr (of_bool b)
      | JStr s \<Rightarrow> (case py_int s of None \<Rightarrow> Inl NotANumber | Some n \<Rightarrow> Inr n)
      | _ \<Rightarrow> Inl NotANumber)"

definition to_float :: "json \<Rightarrow> value_error + rat" where
  "to_float v =
     (case v of
        JNum x \<Rightarrow> Inr x
      | JBool b \<Rightarrow> Inr (of_bool b)
      | JStr s \<Rightarrow> (case py_float s of Some (Fin x) \<Rightarrow> Inr x | _ \<Rightarrow> Inl NotANumber)
      | _ \<Rightarrow> Inl NotANumber)"

text \<open>\<^verbatim>\<open>str(v)\<close>: the text of anything but text is an argument.\<close>

definition to_str :: "(json \<Rightarrow> string) \<Rightarrow> json \<Rightarrow> string" where
  "to_str repr v = (case v of JStr s \<Rightarrow> s | _ \<Rightarrow> repr v)"

text \<open>The order of texts by code points, and sorting by an order; equal elements keep their places.\<close>

definition text_less :: "string \<Rightarrow> string \<Rightarrow> bool" where
  "text_less s t \<longleftrightarrow> \<not> str_le t s"

fun insert_by :: "('a \<Rightarrow> 'a \<Rightarrow> bool) \<Rightarrow> 'a \<Rightarrow> 'a list \<Rightarrow> 'a list" where
  "insert_by lt x [] = [x]"
| "insert_by lt x (y # ys) = (if lt y x then y # insert_by lt x ys else x # y # ys)"

definition order_by :: "('a \<Rightarrow> 'a \<Rightarrow> bool) \<Rightarrow> 'a list \<Rightarrow> 'a list" where
  "order_by lt xs = foldr (insert_by lt) xs []"

lemma set_insert_by [simp]: "set (insert_by lt x ys) = insert x (set ys)"
  by (induction ys) auto

lemma set_order_by [simp]: "set (order_by lt xs) = set xs"
  by (induction xs) (simp_all add: order_by_def)

lemma length_insert_by [simp]: "length (insert_by lt x ys) = Suc (length ys)"
  by (induction ys) simp_all

lemma length_order_by [simp]: "length (order_by lt xs) = length xs"
  by (induction xs) (simp_all add: order_by_def)

text \<open>A list of results: the first error, or all values.\<close>

fun collect :: "('a \<Rightarrow> 'e + 'b) \<Rightarrow> 'a list \<Rightarrow> 'e + 'b list" where
  "collect f [] = Inr []"
| "collect f (x # xs) =
     (case f x of
        Inl e \<Rightarrow> Inl e
      | Inr y \<Rightarrow> (case collect f xs of Inl e \<Rightarrow> Inl e | Inr ys \<Rightarrow> Inr (y # ys)))"

lemma collect_append:
  "collect f (xs @ ys) =
     (case collect f xs of Inl e \<Rightarrow> Inl e | Inr us \<Rightarrow> (case collect f ys of Inl e \<Rightarrow> Inl e | Inr vs \<Rightarrow> Inr (us @ vs)))"
  by (induction xs) (auto split: sum.split)

lemma collect_length: "collect f xs = Inr ys \<Longrightarrow> length ys = length xs"
  by (induction xs arbitrary: ys) (auto split: sum.splits)

section \<open>Lines\<close>

text \<open>
  Reading a file line by line ends a line at a newline or a carriage return; \<^verbatim>\<open>splitlines\<close> also at
  form feeds, separators and the next-line character.  Blank lines are skipped by every reader.
\<close>

definition file_break :: "char \<Rightarrow> bool" where
  "file_break c \<longleftrightarrow> of_char c \<in> {10, 13 :: nat}"

definition text_break :: "char \<Rightarrow> bool" where
  "text_break c \<longleftrightarrow> of_char c \<in> {10, 11, 12, 13, 28, 29, 30, 133 :: nat}"

fun lines_at :: "(char \<Rightarrow> bool) \<Rightarrow> string \<Rightarrow> string list" where
  "lines_at P [] = [[]]"
| "lines_at P (c # s) =
     (if P c then [] # lines_at P s
      else case lines_at P s of [] \<Rightarrow> [[c]] | l # ls \<Rightarrow> (c # l) # ls)"

definition records_at :: "(char \<Rightarrow> bool) \<Rightarrow> (string \<Rightarrow> json option) \<Rightarrow> string \<Rightarrow> json list" where
  "records_at P loads text = List.map_filter loads (filter (\<lambda>l. l \<noteq> []) (map strip (lines_at P text)))"

text \<open>\<^verbatim>\<open>_read_jsonl\<close>: no records where there is no file.\<close>

definition read_jsonl :: "(string \<Rightarrow> json option) \<Rightarrow> string option \<Rightarrow> json list" where
  "read_jsonl loads file = (case file of None \<Rightarrow> [] | Some text \<Rightarrow> records_at file_break loads text)"

lemma lines_at_not_Nil [simp]: "lines_at P s \<noteq> []"
  by (induction s) (auto split: list.split)

lemma lines_at_append_break: "P c \<Longrightarrow> lines_at P (a @ c # b) = lines_at P a @ lines_at P b"
proof (induction a)
  case (Cons x a)
  then show ?case using lines_at_not_Nil[of P a] by (cases "lines_at P a") auto
qed simp

lemma lines_at_cong: "(\<And>c. c \<in> set s \<Longrightarrow> P c = Q c) \<Longrightarrow> lines_at P s = lines_at Q s"
  by (induction s) auto

lemma records_at_cong: "(\<And>c. c \<in> set s \<Longrightarrow> P c = Q c) \<Longrightarrow> records_at P loads s = records_at Q loads s"
  using lines_at_cong[of s P Q] by (simp add: records_at_def)

text \<open>A text of whole lines.\<close>

definition whole_lines :: "string \<Rightarrow> bool" where
  "whole_lines s \<longleftrightarrow> s = [] \<or> last s = CHR 0x0A"

lemma map_filter_append: "List.map_filter f (xs @ ys) = List.map_filter f xs @ List.map_filter f ys"
  by (simp add: List.map_filter_def)

lemma records_at_append:
  assumes "whole_lines a" "P (CHR 0x0A)"
  shows "records_at P loads (a @ b) = records_at P loads a @ records_at P loads b"
proof (cases "a = []")
  case True
  then show ?thesis by (simp add: records_at_def strip_def strip_by_def map_filter_simps)
next
  case False
  then obtain a' where a: "a = a' @ [CHR 0x0A]"
    using assms(1) by (metis append_butlast_last_id whole_lines_def)
  have "strip [] = []" by (simp add: strip_def strip_by_def)
  then show ?thesis
    using lines_at_append_break[of P "CHR 0x0A" a' b] lines_at_append_break[of P "CHR 0x0A" a' "[]"] assms(2)
    by (simp add: a records_at_def map_filter_append)
qed

end
