(* ===== verification/ReadModel.thy ===== *)
theory ReadModel
  imports JsonLines
begin

text \<open>
  The derived read model of the dashboard (\<^verbatim>\<open>readmodel/store.py\<close>, \<^verbatim>\<open>readmodel/engine.py\<close>).  A table is the list
  of its rows in the order of insertion, the events keyed by their identifier; the watermarks of the
  \<^verbatim>\<open>meta\<close> table are fields; a table that was dropped is one without rows, as it is created again before it
  is used.  A connection is what its transaction has written and what is committed.  Text is that of HOL's
  characters, so it can always be encoded, and a whole number of a metrics timestamp is taken for an \<^verbatim>\<open>int\<close>.
\<close>

record event_row =
  er_event_id :: string
  er_timestamp :: string
  er_event_type :: string
  er_source :: string
  er_status :: string
  er_payload :: json

record metric_row =
  mr_timestamp :: json
  mr_snapshot :: json

record usage_row =
  ur_timestamp :: string
  ur_provider :: string
  ur_model :: string
  ur_prompt_tokens :: int
  ur_completion_tokens :: int
  ur_total_tokens :: int
  ur_latency_seconds :: "rat option"
  ur_ok :: bool
  ur_error :: string

record read_model =
  rm_event_rows :: "event_row list"
  rm_metric_rows :: "metric_row list"
  rm_usage_rows :: "usage_row list"
  rm_events_offset :: "nat option"
  rm_metrics_offset :: "nat option"
  rm_usage_offset :: "nat option"
  rm_rebuilt_at :: "time option"
  rm_last_sync_at :: "time option"

record jsonl_sources =
  src_events :: "string option"
  src_metrics :: "string option"
  src_usage :: "string option"

record read_env =
  rv_loads :: "string \<Rightarrow> json option"
  rv_repr :: "json \<Rightarrow> string"
  rv_now :: time

datatype read_model_error = BadRecord value_error | IntegrityError string | IntegerOverflow | StoreNotOpen

definition new_read_model :: read_model where
  "new_read_model =
     \<lparr>rm_event_rows = [], rm_metric_rows = [], rm_usage_rows = [], rm_events_offset = None, rm_metrics_offset = None,
      rm_usage_offset = None, rm_rebuilt_at = None, rm_last_sync_at = None\<rparr>"

section \<open>Rows\<close>

text \<open>\<^verbatim>\<open>metadata.get(k) or record.get(k) or v\<close>.\<close>

definition field_of :: "(json \<Rightarrow> string) \<Rightarrow> (string, json) dict \<Rightarrow> (string, json) dict \<Rightarrow> string \<Rightarrow> string \<Rightarrow> string" where
  "field_of repr m r k v = to_str repr (py_or (get_or JNull k m) (py_or (get_or JNull k r) (JStr v)))"

definition parse_event_record :: "(json \<Rightarrow> string) \<Rightarrow> json \<Rightarrow> value_error + event_row option" where
  "parse_event_record repr record =
     ebind (as_dict record) (\<lambda>r.
       if get_or JNull ''_type'' r = JStr ''envelope'' then Inr None
       else ebind (as_dict (py_or (get_or JNull ''metadata'' r) (JObj []))) (\<lambda>m.
         Inr (Some \<lparr>er_event_id = field_of repr m r ''event_id'' [], er_timestamp = field_of repr m r ''timestamp'' [],
                    er_event_type = field_of repr m r ''event_type'' ''unknown'', er_source = field_of repr m r ''source'' [],
                    er_status = field_of repr m r ''status'' [],
                    er_payload = py_or (get_or JNull ''payload'' r) (JObj [])\<rparr>)))"

definition parse_event_records :: "(json \<Rightarrow> string) \<Rightarrow> json list \<Rightarrow> value_error + event_row list" where
  "parse_event_records repr rs =
     ebind (collect (parse_event_record repr) rs) (\<lambda>rows. Inr (List.map_filter (\<lambda>x. x) rows))"

definition parse_metric_record :: "json \<Rightarrow> value_error + metric_row" where
  "parse_metric_record record =
     ebind (as_dict record) (\<lambda>r.
       Inr \<lparr>mr_timestamp = get_or (JStr []) ''timestamp'' r, mr_snapshot = get_or (JObj []) ''snapshot'' r\<rparr>)"

definition parse_provider_usage :: "(json \<Rightarrow> string) \<Rightarrow> json \<Rightarrow> value_error + usage_row" where
  "parse_provider_usage repr record =
     ebind (as_dict record) (\<lambda>r.
     ebind (as_dict (py_or (get_or JNull ''usage'' r) (JObj []))) (\<lambda>u.
     ebind (to_int (py_or (get_or (JNum 0) ''prompt_tokens'' u) (JNum 0))) (\<lambda>prompt.
     ebind (to_int (py_or (get_or (JNum 0) ''completion_tokens'' u) (JNum 0))) (\<lambda>completion.
     ebind (to_int (py_or (get_or (JNum 0) ''total_tokens'' u) (JNum (of_int (prompt + completion))))) (\<lambda>total.
     ebind (case get_or JNull ''latency_seconds'' r of JNull \<Rightarrow> Inr None | l \<Rightarrow> ebind (to_float l) (\<lambda>x. Inr (Some x))) (\<lambda>latency.
       Inr \<lparr>ur_timestamp = to_str repr (get_or (JStr []) ''timestamp'' r),
            ur_provider = to_str repr (get_or (JStr []) ''provider'' r), ur_model = to_str repr (get_or (JStr []) ''model'' r),
            ur_prompt_tokens = prompt, ur_completion_tokens = completion, ur_total_tokens = total,
            ur_latency_seconds = latency, ur_ok = truthy (get_or (JBool True) ''ok'' r),
            ur_error = to_str repr (get_or (JStr []) ''error'' r)\<rparr>))))))"

section \<open>Transactions\<close>

record connection =
  cx_working :: read_model
  cx_committed :: read_model

type_synonym 'a transaction = "connection \<Rightarrow> (read_model_error + 'a) \<times> connection"

definition tx_then :: "unit transaction \<Rightarrow> 'a transaction \<Rightarrow> 'a transaction" where
  "tx_then f g c = (case f c of (Inl e, c1) \<Rightarrow> (Inl e, c1) | (Inr _, c1) \<Rightarrow> g c1)"

definition tx_value :: "value_error + 'v \<Rightarrow> ('v \<Rightarrow> 'a transaction) \<Rightarrow> 'a transaction" where
  "tx_value v k c = (case v of Inl e \<Rightarrow> (Inl (BadRecord e), c) | Inr x \<Rightarrow> k x c)"

text \<open>One statement that cannot fail, one statement for each of many rows, a script, and \<^verbatim>\<open>with self.conn\<close>.\<close>

definition execute :: "(read_model \<Rightarrow> read_model) \<Rightarrow> unit transaction" where
  "execute f c = (Inr (), c\<lparr>cx_working := f (cx_working c)\<rparr>)"

fun execute_many :: "('r \<Rightarrow> read_model \<Rightarrow> read_model_error + read_model) \<Rightarrow> 'r list \<Rightarrow> unit transaction" where
  "execute_many ins [] c = (Inr (), c)"
| "execute_many ins (r # rs) c =
     (case ins r (cx_working c) of Inl e \<Rightarrow> (Inl e, c) | Inr w \<Rightarrow> execute_many ins rs (c\<lparr>cx_working := w\<rparr>))"

text \<open>\<^verbatim>\<open>executescript\<close> commits what is pending, then each of its statements as it runs.\<close>

definition execute_script :: "(read_model \<Rightarrow> read_model) list \<Rightarrow> unit transaction" where
  "execute_script sts c =
     (Inr (), fold (\<lambda>st c. \<lparr>cx_working = st (cx_working c), cx_committed = st (cx_working c)\<rparr>) sts
                (c\<lparr>cx_committed := cx_working c\<rparr>))"

definition with_connection :: "'a transaction \<Rightarrow> 'a transaction" where
  "with_connection f c =
     (case f c of
        (Inl e, c1) \<Rightarrow> (Inl e, c1\<lparr>cx_working := cx_committed c1\<rparr>)
      | (Inr x, c1) \<Rightarrow> (Inr x, c1\<lparr>cx_committed := cx_working c1\<rparr>))"

text \<open>A method of the store, which starts and ends with nothing pending.\<close>

definition on_store :: "'a transaction \<Rightarrow> read_model \<Rightarrow> (read_model_error + 'a) \<times> read_model" where
  "on_store f m = (case f \<lparr>cx_working = m, cx_committed = m\<rparr> of (res, c) \<Rightarrow> (res, cx_working c))"

section \<open>Statements\<close>

definition delete_events :: "read_model \<Rightarrow> read_model" where
  "delete_events m = m\<lparr>rm_event_rows := []\<rparr>"

definition delete_metrics :: "read_model \<Rightarrow> read_model" where
  "delete_metrics m = m\<lparr>rm_metric_rows := []\<rparr>"

definition delete_usage :: "read_model \<Rightarrow> read_model" where
  "delete_usage m = m\<lparr>rm_usage_rows := []\<rparr>"

definition drop_meta :: "read_model \<Rightarrow> read_model" where
  "drop_meta m = m\<lparr>rm_events_offset := None, rm_metrics_offset := None, rm_usage_offset := None,
                   rm_rebuilt_at := None, rm_last_sync_at := None\<rparr>"

text \<open>What SQLite stores as an integer; a metrics timestamp must be a scalar and not null.\<close>

definition fits_int64 :: "int \<Rightarrow> bool" where
  "fits_int64 x \<longleftrightarrow> - (2 ^ 63) \<le> x \<and> x < 2 ^ 63"

definition metric_bindable :: "metric_row \<Rightarrow> bool" where
  "metric_bindable r \<longleftrightarrow>
     (case mr_timestamp r of
        JNull \<Rightarrow> False | JList _ \<Rightarrow> False | JObj _ \<Rightarrow> False
      | JNum x \<Rightarrow> x = of_int \<lfloor>x\<rfloor> \<longrightarrow> fits_int64 \<lfloor>x\<rfloor>
      | _ \<Rightarrow> True)"

definition usage_fits :: "usage_row \<Rightarrow> bool" where
  "usage_fits r \<longleftrightarrow>
     fits_int64 (ur_prompt_tokens r) \<and> fits_int64 (ur_completion_tokens r) \<and> fits_int64 (ur_total_tokens r)"

definition insert_event :: "event_row \<Rightarrow> read_model \<Rightarrow> read_model_error + read_model" where
  "insert_event r m =
     (if er_event_id r \<in> er_event_id ` set (rm_event_rows m) then Inl (IntegrityError (er_event_id r))
      else Inr (m\<lparr>rm_event_rows := rm_event_rows m @ [r]\<rparr>))"

definition insert_or_ignore_event :: "event_row \<Rightarrow> read_model \<Rightarrow> read_model_error + read_model" where
  "insert_or_ignore_event r m =
     Inr (if er_event_id r \<in> er_event_id ` set (rm_event_rows m) then m
          else m\<lparr>rm_event_rows := rm_event_rows m @ [r]\<rparr>)"

definition insert_metric :: "metric_row \<Rightarrow> read_model \<Rightarrow> read_model_error + read_model" where
  "insert_metric r m =
     (if metric_bindable r then Inr (m\<lparr>rm_metric_rows := rm_metric_rows m @ [r]\<rparr>)
      else Inl (case mr_timestamp r of JNull \<Rightarrow> IntegrityError ''timestamp'' | JNum _ \<Rightarrow> IntegerOverflow
                | _ \<Rightarrow> BadRecord NotBindable))"

definition insert_usage :: "usage_row \<Rightarrow> read_model \<Rightarrow> read_model_error + read_model" where
  "insert_usage r m =
     (if usage_fits r then Inr (m\<lparr>rm_usage_rows := rm_usage_rows m @ [r]\<rparr>) else Inl IntegerOverflow)"

section \<open>Rebuild\<close>

definition file_size :: "string option \<Rightarrow> nat" where
  "file_size file = (case file of None \<Rightarrow> 0 | Some text \<Rightarrow> length text)"

definition source_rows :: "read_env \<Rightarrow> jsonl_sources \<Rightarrow> value_error + event_row list \<times> metric_row list \<times> usage_row list" where
  "source_rows env src =
     ebind (parse_event_records (rv_repr env) (read_jsonl (rv_loads env) (src_events src))) (\<lambda>es.
     ebind (collect parse_metric_record (read_jsonl (rv_loads env) (src_metrics src))) (\<lambda>ms.
     ebind (collect (parse_provider_usage (rv_repr env)) (read_jsonl (rv_loads env) (src_usage src))) (\<lambda>us.
       Inr (es, ms, us))))"

definition drop_tables :: "(read_model \<Rightarrow> read_model) list" where
  "drop_tables = [delete_events, delete_metrics, delete_usage, drop_meta]"

text \<open>\<^verbatim>\<open>CREATE TABLE IF NOT EXISTS\<close>, which keeps the rows of a table that exists.\<close>

definition create_schema :: "(read_model \<Rightarrow> read_model) list" where
  "create_schema = [\<lambda>m. m, \<lambda>m. m, \<lambda>m. m, \<lambda>m. m]"

definition write_meta :: "read_env \<Rightarrow> jsonl_sources \<Rightarrow> read_model \<Rightarrow> read_model" where
  "write_meta env src m =
     m\<lparr>rm_events_offset := Some (file_size (src_events src)),
       rm_metrics_offset := Some (file_size (src_metrics src)),
       rm_usage_offset := Some (file_size (src_usage src)),
       rm_rebuilt_at := Some (rv_now env), rm_last_sync_at := Some (rv_now env)\<rparr>"

definition import_rows ::
  "read_env \<Rightarrow> jsonl_sources \<Rightarrow> event_row list \<times> metric_row list \<times> usage_row list \<Rightarrow> unit transaction"
where
  "import_rows env src = (\<lambda>(es, ms, us).
     tx_then (execute_script drop_tables)
    (tx_then (execute_script create_schema)
    (tx_then (execute_many insert_event es)
    (tx_then (execute_many insert_metric ms)
    (tx_then (execute_many insert_usage us)
      (execute (write_meta env src)))))))"

definition rebuild :: "read_env \<Rightarrow> jsonl_sources \<Rightarrow> read_model \<Rightarrow> (read_model_error + nat \<times> nat \<times> nat) \<times> read_model" where
  "rebuild env src m =
     (case source_rows env src of
        Inl e \<Rightarrow> (Inl (BadRecord e), m)
      | Inr (es, ms, us) \<Rightarrow>
          (case on_store (with_connection (import_rows env src (es, ms, us))) m of
             (Inl e, m1) \<Rightarrow> (Inl e, m1)
           | (Inr _, m1) \<Rightarrow> (Inr (length es, length ms, length us), m1)))"

section \<open>Incremental synchronisation\<close>

definition read_jsonl_since :: "(string \<Rightarrow> json option) \<Rightarrow> string \<Rightarrow> nat \<Rightarrow> json list" where
  "read_jsonl_since loads text offset = records_at text_break loads (drop offset text)"

text \<open>The records, the next offset, and whether the rows of the stream are dropped first.\<close>

definition sync_batch :: "(string \<Rightarrow> json option) \<Rightarrow> string option \<Rightarrow> nat option \<Rightarrow> json list \<times> nat \<times> bool" where
  "sync_batch loads file offset =
     (case file of
        None \<Rightarrow> ([], 0, False)
      | Some text \<Rightarrow>
          (case offset of
             None \<Rightarrow> (read_jsonl loads file, length text, True)
           | Some k \<Rightarrow>
               if k > length text then (read_jsonl loads file, length text, True)
               else if k = length text then ([], length text, False)
               else (read_jsonl_since loads text k, length text, False)))"

definition sync_rows ::
  "read_env \<Rightarrow> json list \<times> nat \<times> bool \<Rightarrow> json list \<times> nat \<times> bool \<Rightarrow> json list \<times> nat \<times> bool \<Rightarrow> unit transaction"
where
  "sync_rows env = (\<lambda>(er, esize, ereset) (mr, msize, mreset) (ur, usize, ureset).
     tx_then (execute (if ereset then delete_events else id))
    (tx_value (parse_event_records (rv_repr env) er) (\<lambda>es.
     tx_then (execute_many insert_or_ignore_event es)
    (tx_then (execute (if mreset then delete_metrics else id))
    (tx_value (collect parse_metric_record mr) (\<lambda>ms.
     tx_then (execute_many insert_metric ms)
    (tx_then (execute (if ureset then delete_usage else id))
    (tx_value (collect (parse_provider_usage (rv_repr env)) ur) (\<lambda>us.
     tx_then (execute_many insert_usage us)
      (execute (\<lambda>m. m\<lparr>rm_events_offset := Some esize, rm_metrics_offset := Some msize,
                      rm_usage_offset := Some usize, rm_last_sync_at := Some (rv_now env)\<rparr>)))))))))))"

definition sync_from_jsonl ::
  "read_env \<Rightarrow> jsonl_sources \<Rightarrow> read_model \<Rightarrow> (read_model_error + nat \<times> nat \<times> nat) \<times> read_model"
where
  "sync_from_jsonl env src m =
     (let eb = sync_batch (rv_loads env) (src_events src) (rm_events_offset m);
          mb = sync_batch (rv_loads env) (src_metrics src) (rm_metrics_offset m);
          ub = sync_batch (rv_loads env) (src_usage src) (rm_usage_offset m)
      in case on_store (with_connection (sync_rows env eb mb ub)) m of
           (Inl e, m1) \<Rightarrow> (Inl e, m1)
         | (Inr _, m1) \<Rightarrow> (Inr (length (fst eb), length (fst mb), length (fst ub)), m1))"

section \<open>Queries\<close>

text \<open>A negative limit is none.\<close>

definition sql_limit :: "int \<Rightarrow> 'a list \<Rightarrow> 'a list" where
  "sql_limit n xs = (if n < 0 then xs else take (nat n) xs)"

definition metrics_snapshots :: "int \<Rightarrow> read_model \<Rightarrow> metric_row list" where
  "metrics_snapshots limit m = rev (sql_limit limit (rev (rm_metric_rows m)))"

record usage_totals =
  ut_requests :: int
  ut_successes :: int
  ut_errors :: int
  ut_prompt_tokens :: int
  ut_completion_tokens :: int
  ut_total_tokens :: int
  ut_latency_sum :: rat
  ut_latency_count :: nat

definition no_usage :: usage_totals where
  "no_usage = \<lparr>ut_requests = 0, ut_successes = 0, ut_errors = 0, ut_prompt_tokens = 0, ut_completion_tokens = 0,
               ut_total_tokens = 0, ut_latency_sum = 0, ut_latency_count = 0\<rparr>"

definition add_usage :: "usage_row \<Rightarrow> usage_totals \<Rightarrow> usage_totals" where
  "add_usage r t =
     t\<lparr>ut_requests := ut_requests t + 1, ut_successes := ut_successes t + of_bool (ur_ok r),
       ut_errors := ut_errors t + of_bool (\<not> ur_ok r), ut_prompt_tokens := ut_prompt_tokens t + ur_prompt_tokens r,
       ut_completion_tokens := ut_completion_tokens t + ur_completion_tokens r,
       ut_total_tokens := ut_total_tokens t + ur_total_tokens r,
       ut_latency_sum := ut_latency_sum t + (case ur_latency_seconds r of None \<Rightarrow> 0 | Some l \<Rightarrow> l),
       ut_latency_count := ut_latency_count t + (case ur_latency_seconds r of None \<Rightarrow> 0 | Some _ \<Rightarrow> 1)\<rparr>"

definition usage_model :: "usage_row \<Rightarrow> string" where
  "usage_model r = (if ur_model r = [] then ''(unknown)'' else ur_model r)"

text \<open>The rows by model, most tokens first, and the totals, of the newest rows.\<close>

definition provider_usage_by_model :: "int \<Rightarrow> read_model \<Rightarrow> nat \<times> (string \<times> usage_totals) list \<times> usage_totals" where
  "provider_usage_by_model limit m =
     (let rows = sql_limit limit (rev (rm_usage_rows m));
          by_model = fold (\<lambda>r d. AList.update (usage_model r) (add_usage r (dget no_usage d (usage_model r))) d) rows []
      in (length rows, sort_key (\<lambda>p. - ut_total_tokens (snd p)) by_model, fold add_usage rows no_usage))"

definition average_latency :: "usage_totals \<Rightarrow> rat option" where
  "average_latency t =
     (if ut_latency_count t = 0 then None
      else Some (of_int (round_half_even (ut_latency_sum t / of_nat (ut_latency_count t) * 10000)) / 10000))"

text \<open>The newest events first; those of one timestamp, whose order the query leaves open, as inserted.\<close>

definition recent_events :: "int \<Rightarrow> string option \<Rightarrow> read_model \<Rightarrow> event_row list" where
  "recent_events limit event_type m =
     sql_limit limit (order_by (\<lambda>r s. text_less (er_timestamp s) (er_timestamp r))
       (case event_type of
          None \<Rightarrow> rm_event_rows m
        | Some t \<Rightarrow> if t = [] then rm_event_rows m else filter (\<lambda>r. er_event_type r = t) (rm_event_rows m)))"

definition event_counts_by_type :: "read_model \<Rightarrow> (string \<times> nat) list" where
  "event_counts_by_type m =
     order_by (\<lambda>(t, n) (u, k). n > k \<or> n = k \<and> text_less t u)
       (fold (\<lambda>r d. AList.update (er_event_type r) (dget 0 d (er_event_type r) + 1) d) (rm_event_rows m) [])"

record read_stats =
  rs_rebuilt_at :: "time option"
  rs_last_sync_at :: "time option"
  rs_events :: nat
  rs_metrics :: nat
  rs_usage :: nat

definition read_model_stats :: "read_model \<Rightarrow> read_stats" where
  "read_model_stats m =
     \<lparr>rs_rebuilt_at = rm_rebuilt_at m, rs_last_sync_at = rm_last_sync_at m, rs_events = length (rm_event_rows m),
      rs_metrics = length (rm_metric_rows m), rs_usage = length (rm_usage_rows m)\<rparr>"

section \<open>The engine\<close>

text \<open>The engine with its store open or not; the store is the database on disk.\<close>

record read_engine =
  re_open :: bool
  re_store :: read_model

definition re_rebuild :: "read_env \<Rightarrow> jsonl_sources \<Rightarrow> read_engine \<Rightarrow> (read_model_error + nat \<times> nat \<times> nat) \<times> read_engine" where
  "re_rebuild env src e =
     (case rebuild env src (re_store e) of
        (Inl x, m) \<Rightarrow> (Inl x, e\<lparr>re_store := m\<rparr>)
      | (Inr n, m) \<Rightarrow> (Inr n, e\<lparr>re_store := m, re_open := True\<rparr>))"

definition re_start :: "read_env \<Rightarrow> jsonl_sources \<Rightarrow> read_engine \<Rightarrow> (read_model_error + unit) \<times> read_engine" where
  "re_start env src e =
     (if re_open e then (Inr (), e)
      else case re_rebuild env src e of (Inl x, e1) \<Rightarrow> (Inl x, e1) | (Inr _, e1) \<Rightarrow> (Inr (), e1))"

definition re_stop :: "read_engine \<Rightarrow> read_engine" where
  "re_stop e = e\<lparr>re_open := False\<rparr>"

definition re_sync :: "read_env \<Rightarrow> jsonl_sources \<Rightarrow> read_engine \<Rightarrow> (read_model_error + nat \<times> nat \<times> nat) \<times> read_engine" where
  "re_sync env src e =
     (if \<not> re_open e then (Inl StoreNotOpen, e)
      else case sync_from_jsonl env src (re_store e) of (res, m) \<Rightarrow> (res, e\<lparr>re_store := m\<rparr>))"

definition re_health :: "read_engine \<Rightarrow> read_model_error + time option \<times> nat" where
  "re_health e =
     (if \<not> re_open e then Inl StoreNotOpen
      else let stats = read_model_stats (re_store e)
           in Inr (rs_rebuilt_at stats, rs_events stats + rs_metrics stats + rs_usage stats))"

definition re_query :: "(read_model \<Rightarrow> 'a) \<Rightarrow> read_engine \<Rightarrow> read_model_error + 'a" where
  "re_query query e = (if re_open e then Inr (query (re_store e)) else Inl StoreNotOpen)"

section \<open>Lemmas\<close>

text \<open>The counts by type are those of the rows.\<close>

lemma event_counts_by_type_exact:
  assumes "(t, n) \<in> set (event_counts_by_type m)"
  shows "n = length (filter (\<lambda>r. er_event_type r = t) (rm_event_rows m))"
proof -
  have "dict_ok (fold (\<lambda>r d. AList.update (er_event_type r) (dget 0 d (er_event_type r) + 1) d) rs d) \<and>
      (\<forall>u. dget 0 (fold (\<lambda>r d. AList.update (er_event_type r) (dget 0 d (er_event_type r) + 1) d) rs d) u =
         dget 0 d u + length (filter (\<lambda>r. er_event_type r = u) rs))" if "dict_ok d" for rs and d :: "(string, nat) dict"
    using that by (induction rs arbitrary: d) auto
  from this[of "[]" "rm_event_rows m"] obtain d where d: "dict_ok d" "(t, n) \<in> set d"
      "dget 0 d t = length (filter (\<lambda>r. er_event_type r = t) (rm_event_rows m))"
    using assms by (auto simp: event_counts_by_type_def)
  then have "map_of d t = Some n" by simp
  then show ?thesis using d(3) by (simp add: dget_def)
qed

text \<open>When a transaction succeeds, and with what.\<close>

lemma tx_then_Inr: "tx_then f g c = (Inr x, c2) \<longleftrightarrow> (\<exists>c1. f c = (Inr (), c1) \<and> g c1 = (Inr x, c2))"
  by (auto simp: tx_then_def split: prod.splits sum.splits)

lemma tx_value_Inr: "tx_value v k c = (Inr x, c2) \<longleftrightarrow> (\<exists>y. v = Inr y \<and> k y c = (Inr x, c2))"
  by (auto simp: tx_value_def split: sum.splits)

lemma execute_Inr: "execute f c = (Inr u, c1) \<longleftrightarrow> c1 = c\<lparr>cx_working := f (cx_working c)\<rparr>"
  by (auto simp: execute_def)

lemma on_store_Inr:
  "on_store (with_connection f) m = (Inr x, m1) \<longleftrightarrow>
     (\<exists>c. f \<lparr>cx_working = m, cx_committed = m\<rparr> = (Inr x, c) \<and> m1 = cx_working c)"
  by (auto simp: on_store_def with_connection_def split: prod.splits sum.splits)

lemma execute_many_committed: "execute_many ins rs c = (res, c1) \<Longrightarrow> cx_committed c1 = cx_committed c"
proof (induction ins rs c arbitrary: res c1 rule: execute_many.induct)
  case (2 ins r rs c)
  show ?case
  proof (cases "ins r (cx_working c)")
    case (Inr w)
    with 2 show ?thesis by simp
  qed (use 2 in simp)
qed simp

lemma insert_events_result:
  "distinct (map er_event_id (rm_event_rows (cx_working c))) \<Longrightarrow>
   if distinct (map er_event_id (rm_event_rows (cx_working c) @ rs))
   then execute_many insert_event rs c =
     (Inr (), c\<lparr>cx_working := (cx_working c)\<lparr>rm_event_rows := rm_event_rows (cx_working c) @ rs\<rparr>\<rparr>)
   else \<exists>i c1. execute_many insert_event rs c = (Inl (IntegrityError i), c1)"
proof (induction rs arbitrary: c)
  case (Cons r rs)
  show ?case
  proof (cases "er_event_id r \<in> er_event_id ` set (rm_event_rows (cx_working c))")
    case False
    let ?c = "c\<lparr>cx_working := (cx_working c)\<lparr>rm_event_rows := rm_event_rows (cx_working c) @ [r]\<rparr>\<rparr>"
    have "distinct (map er_event_id (rm_event_rows (cx_working ?c)))" using Cons.prems False by simp
    note IH = Cons.IH[OF this]
    have i: "insert_event r (cx_working c) = Inr (cx_working ?c)" using False by (simp add: insert_event_def)
    have "execute_many insert_event (r # rs) c = execute_many insert_event rs ?c" by (simp add: i)
    then show ?thesis using IH by simp
  next
    case True
    then have "insert_event r (cx_working c) = Inl (IntegrityError (er_event_id r))" by (simp add: insert_event_def)
    then show ?thesis using True by auto
  qed
qed simp

lemma insert_events_Inr:
  assumes "execute_many insert_event rs c = (Inr u, c1)" "rm_event_rows (cx_working c) = []"
  shows "distinct (map er_event_id rs) \<and> c1 = c\<lparr>cx_working := (cx_working c)\<lparr>rm_event_rows := rs\<rparr>\<rparr>"
  using insert_events_result[of c rs] assms by (auto split: if_splits)

lemma insert_or_ignore_new:
  "distinct (map er_event_id (rm_event_rows (cx_working c) @ rs)) \<Longrightarrow>
   execute_many insert_or_ignore_event rs c =
     (Inr (), c\<lparr>cx_working := (cx_working c)\<lparr>rm_event_rows := rm_event_rows (cx_working c) @ rs\<rparr>\<rparr>)"
proof (induction rs arbitrary: c)
  case (Cons r rs)
  let ?c = "c\<lparr>cx_working := (cx_working c)\<lparr>rm_event_rows := rm_event_rows (cx_working c) @ [r]\<rparr>\<rparr>"
  have "insert_or_ignore_event r (cx_working c) = Inr (cx_working ?c)"
    using Cons.prems by (auto simp: insert_or_ignore_event_def)
  then show ?case using Cons.IH[of ?c] Cons.prems by simp
qed simp

lemma insert_metrics_result:
  "if list_all metric_bindable rs
   then execute_many insert_metric rs c =
     (Inr (), c\<lparr>cx_working := (cx_working c)\<lparr>rm_metric_rows := rm_metric_rows (cx_working c) @ rs\<rparr>\<rparr>)
   else \<exists>e c1. execute_many insert_metric rs c = (Inl e, c1)"
proof (induction rs arbitrary: c)
  case (Cons r rs)
  let ?c = "c\<lparr>cx_working := (cx_working c)\<lparr>rm_metric_rows := rm_metric_rows (cx_working c) @ [r]\<rparr>\<rparr>"
  show ?case
  proof (cases "metric_bindable r")
    case True
    then have "insert_metric r (cx_working c) = Inr (cx_working ?c)" by (simp add: insert_metric_def)
    then have "execute_many insert_metric (r # rs) c = execute_many insert_metric rs ?c" by simp
    then show ?thesis using Cons.IH[of ?c] True by simp
  next
    case False
    then obtain e where "insert_metric r (cx_working c) = Inl e" by (simp add: insert_metric_def)
    then show ?thesis using False by simp
  qed
qed simp

lemma insert_metrics_Inr:
  "execute_many insert_metric rs c = (Inr u, c1) \<longleftrightarrow> list_all metric_bindable rs \<and>
     c1 = c\<lparr>cx_working := (cx_working c)\<lparr>rm_metric_rows := rm_metric_rows (cx_working c) @ rs\<rparr>\<rparr>"
  using insert_metrics_result[of rs c] by (auto split: if_splits)

lemma insert_usage_result:
  "if list_all usage_fits rs
   then execute_many insert_usage rs c =
     (Inr (), c\<lparr>cx_working := (cx_working c)\<lparr>rm_usage_rows := rm_usage_rows (cx_working c) @ rs\<rparr>\<rparr>)
   else \<exists>e c1. execute_many insert_usage rs c = (Inl e, c1)"
proof (induction rs arbitrary: c)
  case (Cons r rs)
  let ?c = "c\<lparr>cx_working := (cx_working c)\<lparr>rm_usage_rows := rm_usage_rows (cx_working c) @ [r]\<rparr>\<rparr>"
  show ?case
  proof (cases "usage_fits r")
    case True
    then have "insert_usage r (cx_working c) = Inr (cx_working ?c)" by (simp add: insert_usage_def)
    then have "execute_many insert_usage (r # rs) c = execute_many insert_usage rs ?c" by simp
    then show ?thesis using Cons.IH[of ?c] True by simp
  next
    case False
    then obtain e where "insert_usage r (cx_working c) = Inl e" by (simp add: insert_usage_def)
    then show ?thesis using False by simp
  qed
qed simp

lemma insert_usage_Inr:
  "execute_many insert_usage rs c = (Inr u, c1) \<longleftrightarrow> list_all usage_fits rs \<and>
     c1 = c\<lparr>cx_working := (cx_working c)\<lparr>rm_usage_rows := rm_usage_rows (cx_working c) @ rs\<rparr>\<rparr>"
  using insert_usage_result[of rs c] by (auto split: if_splits)

text \<open>The state in which the rows are imported: everything is dropped, and committed as such.\<close>

lemma drop_all: "drop_meta (delete_usage (delete_metrics (delete_events m))) = new_read_model"
  by (simp add: delete_usage_def delete_metrics_def delete_events_def drop_meta_def new_read_model_def)

lemma import_rows_script:
  "import_rows env src (es, ms, us) c =
     tx_then (execute_many insert_event es)
    (tx_then (execute_many insert_metric ms)
    (tx_then (execute_many insert_usage us)
      (execute (write_meta env src)))) \<lparr>cx_working = new_read_model, cx_committed = new_read_model\<rparr>"
  by (simp add: import_rows_def tx_then_def[of "execute_script sts" for sts] execute_script_def drop_tables_def
      create_schema_def drop_all)

lemma import_rows_Inl:
  assumes "import_rows env src (es, ms, us) c = (Inl e, c1)"
  shows "cx_committed c1 = new_read_model"
proof -
  let ?c0 = "\<lparr>cx_working = new_read_model, cx_committed = new_read_model\<rparr>"
  obtain r1 d1 where d1: "execute_many insert_event es ?c0 = (r1, d1)" by (metis surj_pair)
  obtain r2 d2 where d2: "execute_many insert_metric ms d1 = (r2, d2)" by (metis surj_pair)
  obtain r3 d3 where d3: "execute_many insert_usage us d2 = (r3, d3)" by (metis surj_pair)
  have "c1 \<in> {d1, d2, d3}"
    using assms unfolding import_rows_script tx_then_def d1
    by (auto simp: d2 d3 execute_def split: sum.splits)
  then show ?thesis
    using execute_many_committed[OF d1] execute_many_committed[OF d2] execute_many_committed[OF d3] by auto
qed

lemma parse_event_records_append:
  "parse_event_records repr (xs @ ys) = Inr rows \<longleftrightarrow>
     (\<exists>us vs. parse_event_records repr xs = Inr us \<and> parse_event_records repr ys = Inr vs \<and> rows = us @ vs)"
  by (auto simp: parse_event_records_def collect_append map_filter_append ebind_Inr split: sum.splits)

lemma collect_append_Inr:
  "collect f (xs @ ys) = Inr zs \<longleftrightarrow> (\<exists>us vs. collect f xs = Inr us \<and> collect f ys = Inr vs \<and> zs = us @ vs)"
  by (auto simp: collect_append split: sum.splits)

lemma source_rows_Inr:
  "source_rows env src = Inr (es, ms, us) \<longleftrightarrow>
     parse_event_records (rv_repr env) (read_jsonl (rv_loads env) (src_events src)) = Inr es \<and>
     collect parse_metric_record (read_jsonl (rv_loads env) (src_metrics src)) = Inr ms \<and>
     collect (parse_provider_usage (rv_repr env)) (read_jsonl (rv_loads env) (src_usage src)) = Inr us"
  by (auto simp: source_rows_def ebind_Inr)

text \<open>A successful rebuild holds exactly the rows of its sources.\<close>

lemma rebuild_Inr:
  assumes "rebuild env src m = (Inr n, m1)"
  obtains es ms us where "source_rows env src = Inr (es, ms, us)" "distinct (map er_event_id es)"
    "list_all metric_bindable ms" "list_all usage_fits us"
    "rm_event_rows m1 = es" "rm_metric_rows m1 = ms" "rm_usage_rows m1 = us"
    "rm_events_offset m1 = Some (file_size (src_events src))" "rm_metrics_offset m1 = Some (file_size (src_metrics src))"
    "rm_usage_offset m1 = Some (file_size (src_usage src))"
proof (cases "source_rows env src")
  case (Inl e)
  then show thesis using assms by (simp add: rebuild_def)
next
  case (Inr rows)
  obtain es ms us where r: "rows = (es, ms, us)" by (cases rows)
  have "on_store (with_connection (import_rows env src (es, ms, us))) m = (Inr (), m1)"
    using assms Inr r by (auto simp: rebuild_def split: prod.splits sum.splits)
  then obtain c0 c where c: "execute_many insert_event es \<lparr>cx_working = new_read_model, cx_committed = new_read_model\<rparr> = (Inr (), c0)"
    "list_all metric_bindable ms" "list_all usage_fits us" "m1 = cx_working c"
    "c = c0\<lparr>cx_working := write_meta env src ((cx_working c0)\<lparr>rm_metric_rows := rm_metric_rows (cx_working c0) @ ms,
       rm_usage_rows := rm_usage_rows (cx_working c0) @ us\<rparr>)\<rparr>"
    by (auto simp: on_store_Inr import_rows_script tx_then_Inr execute_Inr insert_metrics_Inr insert_usage_Inr)
  have "rm_event_rows new_read_model = []" by (simp add: new_read_model_def)
  note e = insert_events_Inr[OF c(1), simplified, OF this]
  show thesis
    using that[of es ms us] Inr r c(2-5) e by (simp add: write_meta_def new_read_model_def)
qed

text \<open>What a synchronisation comes to when its rows can be inserted, and what a successful one did.\<close>

lemma sync_from_jsonl_Inr:
  assumes "sync_batch (rv_loads env) (src_events src) (rm_events_offset m) = (er, esize, ereset)"
    "sync_batch (rv_loads env) (src_metrics src) (rm_metrics_offset m) = (mr, msize, mreset)"
    "sync_batch (rv_loads env) (src_usage src) (rm_usage_offset m) = (ur, usize, ureset)"
  shows "(\<exists>k. sync_from_jsonl env src m = (Inr k, m1)) \<longleftrightarrow>
    (\<exists>es ms us c1. parse_event_records (rv_repr env) er = Inr es \<and> collect parse_metric_record mr = Inr ms \<and>
       collect (parse_provider_usage (rv_repr env)) ur = Inr us \<and>
       execute_many insert_or_ignore_event es
         \<lparr>cx_working = (if ereset then delete_events else id) m, cx_committed = m\<rparr> = (Inr (), c1) \<and>
       list_all metric_bindable ms \<and> list_all usage_fits us \<and>
       m1 = (cx_working c1)\<lparr>rm_metric_rows := (if mreset then [] else rm_metric_rows (cx_working c1)) @ ms,
              rm_usage_rows := (if ureset then [] else rm_usage_rows (cx_working c1)) @ us,
              rm_events_offset := Some esize, rm_metrics_offset := Some msize, rm_usage_offset := Some usize,
              rm_last_sync_at := Some (rv_now env)\<rparr>)"
proof -
  have "(\<exists>k. sync_from_jsonl env src m = (Inr k, m1)) \<longleftrightarrow>
      on_store (with_connection (sync_rows env (er, esize, ereset) (mr, msize, mreset) (ur, usize, ureset))) m = (Inr (), m1)"
    by (auto simp: sync_from_jsonl_def assms Let_def split: prod.splits sum.splits)
  then show ?thesis
    by (auto simp: on_store_Inr sync_rows_def tx_then_Inr tx_value_Inr execute_Inr insert_metrics_Inr insert_usage_Inr
        delete_metrics_def delete_usage_def)
qed

lemma insert_or_ignore_frame:
  "execute_many insert_or_ignore_event es c = (res, c1) \<Longrightarrow>
     rm_metric_rows (cx_working c1) = rm_metric_rows (cx_working c) \<and> rm_usage_rows (cx_working c1) = rm_usage_rows (cx_working c)"
proof (induction es arbitrary: c)
  case (Cons r es)
  obtain w where w: "insert_or_ignore_event r (cx_working c) = Inr w" "rm_metric_rows w = rm_metric_rows (cx_working c)"
    "rm_usage_rows w = rm_usage_rows (cx_working c)" by (simp add: insert_or_ignore_event_def)
  then show ?case using Cons.IH[of "c\<lparr>cx_working := w\<rparr>"] Cons.prems by simp
qed simp

lemma sync_metrics:
  assumes "sync_from_jsonl env src m = (Inr n, m1)"
    "sync_batch (rv_loads env) (src_metrics src) (rm_metrics_offset m) = (mr, k, reset)"
  shows "\<exists>ms. collect parse_metric_record mr = Inr ms \<and>
    rm_metric_rows m1 = (if reset then [] else rm_metric_rows m) @ ms \<and> rm_metrics_offset m1 = Some k"
proof -
  obtain er esize ereset where e: "sync_batch (rv_loads env) (src_events src) (rm_events_offset m) = (er, esize, ereset)"
    by (metis surj_pair)
  obtain ur usize ureset where u: "sync_batch (rv_loads env) (src_usage src) (rm_usage_offset m) = (ur, usize, ureset)"
    by (metis surj_pair)
  obtain es ms us c1 where c1: "collect parse_metric_record mr = Inr ms"
    "execute_many insert_or_ignore_event es \<lparr>cx_working = (if ereset then delete_events else id) m, cx_committed = m\<rparr> = (Inr (), c1)"
    "rm_metric_rows m1 = (if reset then [] else rm_metric_rows (cx_working c1)) @ ms" "rm_metrics_offset m1 = Some k"
    using iffD1[OF sync_from_jsonl_Inr[OF e assms(2) u] exI, OF assms(1)] by auto
  have "rm_metric_rows (cx_working c1) = rm_metric_rows m"
    using insert_or_ignore_frame[OF c1(2)] by (simp add: delete_events_def)
  then show ?thesis using c1 by simp
qed

text \<open>A rebuild whose rows cannot all be inserted leaves what the script committed.\<close>

lemma rebuild_rows:
  assumes "source_rows env src = Inr (es, ms, us)"
  shows "if distinct (map er_event_id es) \<and> list_all metric_bindable ms \<and> list_all usage_fits us
    then \<exists>m'. rebuild env src m = (Inr (length es, length ms, length us), m')
    else if distinct (map er_event_id es) then \<exists>e. rebuild env src m = (Inl e, new_read_model)
    else \<exists>i. rebuild env src m = (Inl (IntegrityError i), new_read_model)"
proof -
  let ?c0 = "\<lparr>cx_working = new_read_model, cx_committed = new_read_model\<rparr>"
  have new: "rm_event_rows new_read_model = []" by (simp add: new_read_model_def)
  obtain res c where c: "import_rows env src (es, ms, us) \<lparr>cx_working = m, cx_committed = m\<rparr> = (res, c)" by (metis surj_pair)
  have rb: "rebuild env src m = (case res of Inl e \<Rightarrow> (Inl e, cx_committed c)
      | Inr _ \<Rightarrow> (Inr (length es, length ms, length us), cx_working c))"
    using assms c by (simp add: rebuild_def on_store_def with_connection_def split: sum.split)
  show ?thesis
  proof (cases "distinct (map er_event_id es)")
    case False
    then obtain i c1 where "execute_many insert_event es ?c0 = (Inl (IntegrityError i), c1)"
      using insert_events_result[of ?c0 es] new by auto
    then have "import_rows env src (es, ms, us) \<lparr>cx_working = m, cx_committed = m\<rparr> = (Inl (IntegrityError i), c1)"
      by (simp add: import_rows_script tx_then_def)
    then show ?thesis using False rb c import_rows_Inl by auto
  next
    case True
    have ok: "(\<exists>u. res = Inr u) \<longleftrightarrow> list_all metric_bindable ms \<and> list_all usage_fits us"
    proof -
      have "execute_many insert_event es ?c0 = (Inr (), ?c0\<lparr>cx_working := new_read_model\<lparr>rm_event_rows := es\<rparr>\<rparr>)"
        using insert_events_result[of ?c0 es] True new by simp
      then have "(\<exists>u c'. import_rows env src (es, ms, us) \<lparr>cx_working = m, cx_committed = m\<rparr> = (Inr u, c')) \<longleftrightarrow>
          list_all metric_bindable ms \<and> list_all usage_fits us"
        by (simp add: import_rows_script tx_then_Inr execute_Inr insert_metrics_Inr insert_usage_Inr)
      then show ?thesis using c by auto
    qed
    show ?thesis
    proof (cases res)
      case (Inl e)
      then show ?thesis using ok True rb import_rows_Inl c by auto
    next
      case (Inr u)
      then show ?thesis using ok True rb by auto
    qed
  qed
qed

section \<open>Appending to the sources\<close>

text \<open>A source that is only appended to, in whole lines, and has no line breaks but those of a file.\<close>

definition file_extends :: "string option \<Rightarrow> string option \<Rightarrow> bool" where
  "file_extends f f' \<longleftrightarrow>
     (case f of None \<Rightarrow> True | Some a \<Rightarrow> whole_lines a \<and> (\<exists>b. f' = Some (a @ b))) \<and>
     (case f' of None \<Rightarrow> True | Some t \<Rightarrow> \<forall>c \<in> set t. text_break c \<longleftrightarrow> file_break c)"

definition sources_extend :: "jsonl_sources \<Rightarrow> jsonl_sources \<Rightarrow> bool" where
  "sources_extend s s' \<longleftrightarrow>
     file_extends (src_events s) (src_events s') \<and> file_extends (src_metrics s) (src_metrics s') \<and>
     file_extends (src_usage s) (src_usage s')"

lemma records_Nil [simp]: "records_at P loads [] = []"
  by (simp add: records_at_def strip_def strip_by_def map_filter_simps)

lemma sync_batch_tail:
  assumes "file_extends f f'"
  obtains rs where "sync_batch loads f' (Some (file_size f)) = (rs, file_size f', False)"
    "read_jsonl loads f' = read_jsonl loads f @ rs"
proof (cases f')
  case None
  then have "f = None" using assms by (auto simp: file_extends_def split: option.splits)
  then show thesis using that[of "[]"] None by (simp add: sync_batch_def file_size_def read_jsonl_def)
next
  case (Some t)
  define a where "a = (case f of None \<Rightarrow> [] | Some a \<Rightarrow> a)"
  obtain b where t: "t = a @ b" and a: "whole_lines a"
    using assms Some by (auto simp: file_extends_def a_def whole_lines_def split: option.splits)
  have size: "file_size f = length a" "read_jsonl loads f = records_at file_break loads a"
    by (simp_all add: file_size_def a_def read_jsonl_def split: option.split)
  have "records_at text_break loads b = records_at file_break loads b"
    by (rule records_at_cong) (use assms Some t in \<open>auto simp: file_extends_def\<close>)
  then have "read_jsonl loads f' = read_jsonl loads f @ records_at text_break loads b"
    using records_at_append[OF a, of file_break loads b] Some t size by (simp add: read_jsonl_def file_break_def)
  moreover have "sync_batch loads f' (Some (file_size f)) = (records_at text_break loads b, file_size f', False)"
    using Some t size by (simp add: sync_batch_def file_size_def read_jsonl_since_def)
  ultimately show thesis using that by blast
qed

text \<open>Lines of one letter, each read as a record with that letter.\<close>

definition demo_read_env :: read_env where
  "demo_read_env =
     \<lparr>rv_loads = (\<lambda>l. Some (JObj [(''event_id'', JStr l), (''timestamp'', JStr l)])), rv_repr = (\<lambda>_. []), rv_now = 0\<rparr>"

definition demo_file :: "string \<Rightarrow> string option" where
  "demo_file s = Some (concat (map (\<lambda>c. [c, CHR 0x0A]) s))"

definition demo_sources :: "string \<Rightarrow> string \<Rightarrow> jsonl_sources" where
  "demo_sources es ms = \<lparr>src_events = demo_file es, src_metrics = demo_file ms, src_usage = None\<rparr>"

lemma demo_rebuild:
  "fst (rebuild demo_read_env (demo_sources ''a'' ''m'') new_read_model) = Inr (1, 1, 0)"
  "fst (rebuild demo_read_env (demo_sources ''ab'' ''mn'') new_read_model) = Inr (2, 2, 0)"
  by code_simp+

section \<open>Properties\<close>

text \<open>C8: Synchronising is rebuilding: after a rebuild, when the sources are only appended to in whole lines,
  an incremental synchronisation leaves the tables and watermarks that a rebuild from the longer sources
  gives, whenever that rebuild succeeds.\<close>

theorem sync_equals_rebuild:
  assumes "rebuild env src m = (Inr n, m1)" "sources_extend src src'" "rebuild env src' m' = (Inr n', m2)"
  shows "\<exists>k m3. sync_from_jsonl env src' m1 = (Inr k, m3) \<and>
    rm_event_rows m3 = rm_event_rows m2 \<and> rm_metric_rows m3 = rm_metric_rows m2 \<and> rm_usage_rows m3 = rm_usage_rows m2 \<and>
    rm_events_offset m3 = rm_events_offset m2 \<and> rm_metrics_offset m3 = rm_metrics_offset m2 \<and>
    rm_usage_offset m3 = rm_usage_offset m2"
proof -
  obtain es ms us where r1: "source_rows env src = Inr (es, ms, us)" "rm_event_rows m1 = es" "rm_metric_rows m1 = ms"
    "rm_usage_rows m1 = us" "rm_events_offset m1 = Some (file_size (src_events src))"
    "rm_metrics_offset m1 = Some (file_size (src_metrics src))" "rm_usage_offset m1 = Some (file_size (src_usage src))"
    by (rule rebuild_Inr[OF assms(1)])
  obtain es2 ms2 us2 where r2: "source_rows env src' = Inr (es2, ms2, us2)" "distinct (map er_event_id es2)"
    "list_all metric_bindable ms2" "list_all usage_fits us2" "rm_event_rows m2 = es2" "rm_metric_rows m2 = ms2" "rm_usage_rows m2 = us2"
    "rm_events_offset m2 = Some (file_size (src_events src'))" "rm_metrics_offset m2 = Some (file_size (src_metrics src'))"
    "rm_usage_offset m2 = Some (file_size (src_usage src'))"
    by (rule rebuild_Inr[OF assms(3)])
  obtain re where re: "sync_batch (rv_loads env) (src_events src') (Some (file_size (src_events src))) = (re, file_size (src_events src'), False)"
      "read_jsonl (rv_loads env) (src_events src') = read_jsonl (rv_loads env) (src_events src) @ re"
    by (rule sync_batch_tail[of "src_events src" "src_events src'"]) (use assms(2) in \<open>simp add: sources_extend_def\<close>)
  obtain rme where rm: "sync_batch (rv_loads env) (src_metrics src') (Some (file_size (src_metrics src))) = (rme, file_size (src_metrics src'), False)"
      "read_jsonl (rv_loads env) (src_metrics src') = read_jsonl (rv_loads env) (src_metrics src) @ rme"
    by (rule sync_batch_tail[of "src_metrics src" "src_metrics src'"]) (use assms(2) in \<open>simp add: sources_extend_def\<close>)
  obtain ru where ru: "sync_batch (rv_loads env) (src_usage src') (Some (file_size (src_usage src))) = (ru, file_size (src_usage src'), False)"
      "read_jsonl (rv_loads env) (src_usage src') = read_jsonl (rv_loads env) (src_usage src) @ ru"
    by (rule sync_batch_tail[of "src_usage src" "src_usage src'"]) (use assms(2) in \<open>simp add: sources_extend_def\<close>)
  obtain ve where ve: "parse_event_records (rv_repr env) re = Inr ve" "es2 = es @ ve"
    using r1(1) r2(1) re(2) by (auto simp: source_rows_Inr parse_event_records_append)
  obtain vm where vm: "collect parse_metric_record rme = Inr vm" "ms2 = ms @ vm"
    using r1(1) r2(1) rm(2) by (auto simp: source_rows_Inr collect_append_Inr)
  obtain vu where vu: "collect (parse_provider_usage (rv_repr env)) ru = Inr vu" "us2 = us @ vu"
    using r1(1) r2(1) ru(2) by (auto simp: source_rows_Inr collect_append_Inr)
  have fit: "list_all metric_bindable vm" "list_all usage_fits vu" using r2(3,4) vm(2) vu(2) by simp_all
  let ?c = "\<lparr>cx_working = m1, cx_committed = m1\<rparr>"
  have ins: "execute_many insert_or_ignore_event ve ?c = (Inr (), ?c\<lparr>cx_working := m1\<lparr>rm_event_rows := es2\<rparr>\<rparr>)"
    using insert_or_ignore_new[of ?c ve] r2(2) ve(2) r1(2) by simp
  let ?m3 = "m1\<lparr>rm_event_rows := es2, rm_metric_rows := ms2, rm_usage_rows := us2,
      rm_events_offset := Some (file_size (src_events src')), rm_metrics_offset := Some (file_size (src_metrics src')),
      rm_usage_offset := Some (file_size (src_usage src')), rm_last_sync_at := Some (rv_now env)\<rparr>"
  have "\<exists>k. sync_from_jsonl env src' m1 = (Inr k, ?m3)"
  proof (subst sync_from_jsonl_Inr)
    show "sync_batch (rv_loads env) (src_events src') (rm_events_offset m1) = (re, file_size (src_events src'), False)"
      "sync_batch (rv_loads env) (src_metrics src') (rm_metrics_offset m1) = (rme, file_size (src_metrics src'), False)"
      "sync_batch (rv_loads env) (src_usage src') (rm_usage_offset m1) = (ru, file_size (src_usage src'), False)"
      using re(1) rm(1) ru(1) r1(5-7) by simp_all
  qed (use ve vm vu fit ins r1(3,4) in simp)
  then show ?thesis using r2(5-10) by (elim exE) (rule exI, rule exI, rule conjI, assumption, simp)
qed

theorem sync_equals_rebuild_witness:
  "rm_event_rows (snd (sync_from_jsonl demo_read_env (demo_sources ''ab'' ''mn'')
      (snd (rebuild demo_read_env (demo_sources ''a'' ''m'') new_read_model)))) =
   rm_event_rows (snd (rebuild demo_read_env (demo_sources ''ab'' ''mn'') new_read_model))"
proof -
  have "sources_extend (demo_sources ''a'' ''m'') (demo_sources ''ab'' ''mn'')"
    by (simp add: sources_extend_def file_extends_def demo_sources_def demo_file_def whole_lines_def text_break_def file_break_def)
  moreover obtain m1 m2 where "rebuild demo_read_env (demo_sources ''a'' ''m'') new_read_model = (Inr (1, 1, 0), m1)"
    "rebuild demo_read_env (demo_sources ''ab'' ''mn'') new_read_model = (Inr (2, 2, 0), m2)"
    using demo_rebuild by (metis prod.collapse)
  ultimately show ?thesis using sync_equals_rebuild by (metis snd_conv)
qed

text \<open>C34: What a rebuild comes to: when a record of a source cannot be parsed it raises before it touches the
  store.  When the events have distinct identifiers, the timestamps of the metrics can be bound and the
  token counts fit 64 bits, it succeeds and holds the rows of the sources and nothing else.  Otherwise it
  raises from inside its transaction, after the script that drops the tables has committed; rolling back
  therefore ends in the empty tables: neither the new rows nor the old ones, and no watermarks.\<close>

theorem rebuild_outcome:
  "case source_rows env src of
     Inl e \<Rightarrow> rebuild env src m = (Inl (BadRecord e), m)
   | Inr (es, ms, us) \<Rightarrow>
       if distinct (map er_event_id es) \<and> list_all metric_bindable ms \<and> list_all usage_fits us
       then \<exists>m'. rebuild env src m = (Inr (length es, length ms, length us), m') \<and>
         rm_event_rows m' = es \<and> rm_metric_rows m' = ms \<and> rm_usage_rows m' = us
       else if distinct (map er_event_id es) then \<exists>e. rebuild env src m = (Inl e, new_read_model)
       else \<exists>i. rebuild env src m = (Inl (IntegrityError i), new_read_model)"
proof (cases "source_rows env src")
  case (Inl e)
  then show ?thesis by (simp add: rebuild_def)
next
  case (Inr rows)
  obtain es ms us where rows: "source_rows env src = Inr (es, ms, us)" by (cases rows) (use Inr in blast)
  note out = rebuild_rows[OF rows, of m]
  show ?thesis
  proof (cases "distinct (map er_event_id es) \<and> list_all metric_bindable ms \<and> list_all usage_fits us")
    case True
    then obtain m' where m': "rebuild env src m = (Inr (length es, length ms, length us), m')" using out by auto
    have "rm_event_rows m' = es \<and> rm_metric_rows m' = ms \<and> rm_usage_rows m' = us"
      by (rule rebuild_Inr[OF m']) (use rows in auto)
    then show ?thesis using rows True m' by simp
  next
    case False
    show ?thesis unfolding rows sum.case prod.case if_not_P[OF False] using out[unfolded if_not_P[OF False]] .
  qed
qed

theorem rebuild_outcome_witness:
  "\<exists>i. rebuild demo_read_env (demo_sources ''aa'' ''m'') (snd (rebuild demo_read_env (demo_sources ''a'' ''m'') new_read_model)) =
     (Inl (IntegrityError i), new_read_model)"
proof -
  let ?m = "snd (rebuild demo_read_env (demo_sources ''a'' ''m'') new_read_model)"
  have "map_sum id (\<lambda>(es, ms, us). map er_event_id es) (source_rows demo_read_env (demo_sources ''aa'' ''m'')) = Inr [''a'', ''a'']"
    by code_simp
  then obtain es ms us where r: "source_rows demo_read_env (demo_sources ''aa'' ''m'') = Inr (es, ms, us)"
      "map er_event_id es = [''a'', ''a'']"
    by (cases "source_rows demo_read_env (demo_sources ''aa'' ''m'')") auto
  then have "\<not> distinct (map er_event_id es)" by simp
  then show ?thesis using rebuild_outcome[of demo_read_env "demo_sources ''aa'' ''m''" ?m] r(1) by auto
qed

text \<open>A source that is missing at one synchronisation and back at the next is imported twice: its rows are
  kept while it is missing, and all of it is read again as if it were new.\<close>

theorem missing_source_imported_twice:
  assumes "rebuild env src m = (Inr n, m1)" "file_extends None (src_metrics src)" "src_metrics src \<noteq> None"
    and "sync_from_jsonl env (src\<lparr>src_metrics := None\<rparr>) m1 = (Inr k, m2)" "sync_from_jsonl env src m2 = (Inr k', m3)"
  shows "rm_metric_rows m3 = rm_metric_rows m1 @ rm_metric_rows m1"
proof -
  obtain f where t: "src_metrics src = Some f" using assms(3) by auto
  obtain ms where ms: "collect parse_metric_record (read_jsonl (rv_loads env) (src_metrics src)) = Inr ms"
    "rm_metric_rows m1 = ms" "rm_metrics_offset m1 = Some (length f)"
    by (rule rebuild_Inr[OF assms(1)]) (use t in \<open>auto simp: source_rows_Inr file_size_def\<close>)
  have m2: "rm_metric_rows m2 = ms" "rm_metrics_offset m2 = Some 0"
    using sync_metrics[OF assms(4), of "[]" 0 False] ms(2)
    by (simp_all add: sync_batch_def)
  have "sync_batch (rv_loads env) (src_metrics src) (Some 0) = (read_jsonl (rv_loads env) (src_metrics src), length f, False)"
  proof -
    have "records_at text_break (rv_loads env) f = records_at file_break (rv_loads env) f"
      by (rule records_at_cong) (use assms(2) t in \<open>auto simp: file_extends_def\<close>)
    then show ?thesis using t by (simp add: sync_batch_def read_jsonl_def read_jsonl_since_def)
  qed
  then show ?thesis
    using sync_metrics[OF assms(5), of "read_jsonl (rv_loads env) (src_metrics src)" "length f" False] m2 ms by simp
qed


theorem missing_source_imported_twice_witness:
  "\<exists>n m1 k m2 k' m3. rebuild demo_read_env (demo_sources ''a'' ''m'') new_read_model = (Inr n, m1) \<and>
     sync_from_jsonl demo_read_env ((demo_sources ''a'' ''m'')\<lparr>src_metrics := None\<rparr>) m1 = (Inr k, m2) \<and>
     sync_from_jsonl demo_read_env (demo_sources ''a'' ''m'') m2 = (Inr k', m3) \<and>
     rm_metric_rows m1 \<noteq> [] \<and> rm_metric_rows m3 = rm_metric_rows m1 @ rm_metric_rows m1"
proof -
  let ?src = "demo_sources ''a'' ''m''"
  obtain m1 where m1: "rebuild demo_read_env ?src new_read_model = (Inr (1, 1, 0), m1)"
    using demo_rebuild(1) by (metis prod.collapse)
  have k: "fst (sync_from_jsonl demo_read_env (?src\<lparr>src_metrics := None\<rparr>) (snd (rebuild demo_read_env ?src new_read_model))) = Inr (0, 0, 0)"
    "fst (sync_from_jsonl demo_read_env ?src
       (snd (sync_from_jsonl demo_read_env (?src\<lparr>src_metrics := None\<rparr>) (snd (rebuild demo_read_env ?src new_read_model))))) = Inr (0, 1, 0)"
    "length (rm_metric_rows (snd (rebuild demo_read_env ?src new_read_model))) = 1"
    by code_simp+
  obtain m2 where m2: "sync_from_jsonl demo_read_env (?src\<lparr>src_metrics := None\<rparr>) m1 = (Inr (0, 0, 0), m2)"
    using k(1) m1 by (metis prod.collapse snd_conv)
  obtain m3 where m3: "sync_from_jsonl demo_read_env ?src m2 = (Inr (0, 1, 0), m3)"
    using k(2) m1 m2 by (metis prod.collapse snd_conv)
  have "file_extends None (src_metrics ?src)" "src_metrics ?src \<noteq> None"
    by (simp_all add: file_extends_def demo_sources_def demo_file_def text_break_def file_break_def)
  note missing_source_imported_twice[OF m1 this m2 m3]
  moreover have "rm_metric_rows m1 \<noteq> []" using k(3) m1 by auto
  ultimately show ?thesis using m1 m2 m3 by blast
qed

end
