(* ===== verification/TelemetryRetention.thy ===== *)
theory TelemetryRetention
  imports JsonLines
begin

text \<open>
  Retention and rollup of the telemetry logs (\<^verbatim>\<open>telemetry/retention.py\<close>).  A log is the list of its lines, a
  corrupt line being \<^verbatim>\<open>None\<close>; instants are read from text and buckets are written as text by arguments
  (\<^verbatim>\<open>fromisoformat\<close>, \<^verbatim>\<open>isoformat\<close>).  Which writes fail is the environment.
\<close>

type_synonym line = "json option"

record telemetry_files =
  tf_raw :: "name \<Rightarrow> line list"
  tf_rollup :: "name \<Rightarrow> line list"

record retention_rule =
  rp_days :: int
  rp_rollup :: bool

record telemetry_env =
  te_repr :: "json \<Rightarrow> string"
  te_parse_iso :: "string \<Rightarrow> time option"
  te_hour_text :: "int \<Rightarrow> string"
  te_date_text :: "int \<Rightarrow> string"
  te_append_fails :: "name \<Rightarrow> nat \<Rightarrow> bool"
  te_truncate_fails :: "name \<Rightarrow> bool"

datatype retention_error = BadValue value_error | WriteFailed

definition telemetry_sources :: "name list" where
  "telemetry_sources = [''metrics_history'', ''provider_usage'', ''cli_telemetry'', ''session_telemetry'', ''action_telemetry'']"

definition DEFAULT_POLICIES :: "(name, retention_rule) dict" where
  "DEFAULT_POLICIES =
     [(''metrics_history'', \<lparr>rp_days = 7, rp_rollup = True\<rparr>), (''provider_usage'', \<lparr>rp_days = 90, rp_rollup = True\<rparr>),
      (''cli_telemetry'', \<lparr>rp_days = 180, rp_rollup = True\<rparr>), (''session_telemetry'', \<lparr>rp_days = 180, rp_rollup = False\<rparr>),
      (''action_telemetry'', \<lparr>rp_days = 180, rp_rollup = False\<rparr>)]"

definition GRANULARITIES :: "string list" where
  "GRANULARITIES = [''hourly'', ''daily'']"

section \<open>Policies\<close>

text \<open>The \<^verbatim>\<open>retention\<close> value of the configuration merged over the defaults.\<close>

fun merge_policies :: "(string, json) dict \<Rightarrow> (name, retention_rule) dict \<Rightarrow> value_error + (name, retention_rule) dict" where
  "merge_policies [] ps = Inr ps"
| "merge_policies ((k, spec) # rest) ps =
     (case (map_of ps k, spec) of
        (Some p, JObj sp) \<Rightarrow>
          ebind (to_int (get_or (JNum (of_int (rp_days p))) ''days'' sp)) (\<lambda>d.
            merge_policies rest
              (AList.update k \<lparr>rp_days = max 0 d, rp_rollup = truthy (get_or (JBool (rp_rollup p)) ''rollup'' sp)\<rparr> ps))
      | _ \<Rightarrow> merge_policies rest ps)"

definition load_policies :: "json \<Rightarrow> value_error + (name, retention_rule) dict" where
  "load_policies retention = ebind (as_dict (py_or retention (JObj []))) (\<lambda>d. merge_policies d DEFAULT_POLICIES)"

section \<open>Buckets\<close>

definition parse_ts :: "telemetry_env \<Rightarrow> (string, json) dict \<Rightarrow> time option" where
  "parse_ts env r =
     (let raw = get_or JNull ''timestamp'' r
      in if \<not> truthy raw then None else te_parse_iso env (to_str (te_repr env) raw))"

definition hour_length :: time where
  "hour_length = 3600000000"

definition day_length :: time where
  "day_length = 24 * hour_length"

definition bucket_key :: "telemetry_env \<Rightarrow> time \<Rightarrow> string \<Rightarrow> string" where
  "bucket_key env t granularity =
     (if granularity = ''daily'' then te_date_text env (t div day_length) else te_hour_text env (t div hour_length))"

definition agg_key :: "telemetry_env \<Rightarrow> name \<Rightarrow> (string, json) dict \<Rightarrow> string" where
  "agg_key env source r =
     (if source = ''provider_usage'' then to_str (te_repr env) (py_or (get_or JNull ''model'' r) (JStr ''(unknown)''))
      else if source = ''cli_telemetry'' then to_str (te_repr env) (py_or (get_or JNull ''command'' r) (JStr ''(unknown)''))
      else ''system'')"

section \<open>Rows\<close>

type_synonym metrics = "(string, rat) dict"

definition row_metrics :: "name \<Rightarrow> metrics" where
  "row_metrics source =
     (if source = ''provider_usage''
      then map (\<lambda>k. (k, 0)) [''samples'', ''requests'', ''successes'', ''errors'', ''prompt_tokens'', ''completion_tokens'',
                            ''total_tokens'', ''latency_sum'', ''latency_count'']
      else if source = ''cli_telemetry''
      then map (\<lambda>k. (k, 0)) [''samples'', ''invocations'', ''duration_sum'', ''duration_count'']
      else [(''samples'', 0)])"

definition add_to :: "string \<Rightarrow> rat \<Rightarrow> metrics \<Rightarrow> metrics" where
  "add_to k x row = AList.update k (dget 0 row k + x) row"

text \<open>\<^verbatim>\<open>a + b\<close> on values.\<close>

definition py_add :: "json \<Rightarrow> json \<Rightarrow> value_error + json" where
  "py_add a b =
     (case (number_of a, number_of b) of
        (Some x, Some y) \<Rightarrow> Inr (JNum (x + y))
      | _ \<Rightarrow> (case (a, b) of
                 (JStr s, JStr t) \<Rightarrow> Inr (JStr (s @ t))
               | (JList xs, JList ys) \<Rightarrow> Inr (JList (xs @ ys))
               | _ \<Rightarrow> Inl NotANumber))"

definition fold_sum :: "string \<Rightarrow> string \<Rightarrow> json \<Rightarrow> metrics \<Rightarrow> value_error + metrics" where
  "fold_sum sk ck v row =
     (case v of JNull \<Rightarrow> Inr row | _ \<Rightarrow> ebind (to_float v) (\<lambda>x. Inr (add_to ck 1 (add_to sk x row))))"

definition fold_usage :: "(string, json) dict \<Rightarrow> metrics \<Rightarrow> value_error + metrics" where
  "fold_usage r row0 =
     (let row = add_to (if truthy (get_or (JBool True) ''ok'' r) then ''successes'' else ''errors'') 1 (add_to ''requests'' 1 row0)
      in ebind (as_dict (py_or (get_or JNull ''usage'' r) (JObj []))) (\<lambda>u.
         ebind (to_int (get_or (JNum 0) ''prompt_tokens'' u)) (\<lambda>p.
         ebind (to_int (get_or (JNum 0) ''completion_tokens'' u)) (\<lambda>c.
         ebind (if truthy (get_or (JNum 0) ''total_tokens'' u) then to_int (get_or (JNum 0) ''total_tokens'' u)
                else ebind (py_add (get_or (JNum 0) ''prompt_tokens'' u) (get_or (JNum 0) ''completion_tokens'' u)) to_int) (\<lambda>t.
           fold_sum ''latency_sum'' ''latency_count'' (get_or JNull ''latency_seconds'' r)
             (add_to ''total_tokens'' (of_int t) (add_to ''completion_tokens'' (of_int c) (add_to ''prompt_tokens'' (of_int p) row))))))))"

definition fold_record :: "name \<Rightarrow> metrics \<Rightarrow> (string, json) dict \<Rightarrow> value_error + metrics" where
  "fold_record source row0 r =
     (let row = add_to ''samples'' 1 row0
      in if source = ''metrics_history''
         then ebind (as_dict (py_or (get_or JNull ''snapshot'' r) (JObj []))) (\<lambda>snapshot.
                Inr (fold (\<lambda>(k, v) row. case v of JNum x \<Rightarrow> AList.update k x row | _ \<Rightarrow> row) snapshot row))
         else if source = ''provider_usage'' then fold_usage r row
         else if source = ''cli_telemetry''
         then fold_sum ''duration_sum'' ''duration_count'' (get_or JNull ''duration_seconds'' r) (add_to ''invocations'' 1 row)
         else Inr row)"

definition average :: "string \<Rightarrow> string \<Rightarrow> metrics \<Rightarrow> json" where
  "average sk ck row =
     (if dget 0 row ck = 0 then JNull
      else JNum (of_int (round_half_even (dget 0 row sk / dget 0 row ck * 10000)) / 10000))"

definition finalize_metrics :: "name \<Rightarrow> metrics \<Rightarrow> (string, json) dict" where
  "finalize_metrics source row =
     (let numbers = (\<lambda>ks. map (\<lambda>(k, x). (k, JNum x)) (filter (\<lambda>(k, x). k \<notin> set ks) row))
      in if source = ''provider_usage''
         then numbers [''latency_sum'', ''latency_count''] @ [(''avg_latency_seconds'', average ''latency_sum'' ''latency_count'' row)]
         else if source = ''cli_telemetry''
         then numbers [''duration_sum'', ''duration_count''] @ [(''avg_duration_seconds'', average ''duration_sum'' ''duration_count'' row)]
         else numbers [])"

fun fold_records ::
  "telemetry_env \<Rightarrow> name \<Rightarrow> string \<Rightarrow> (string, json) dict list \<Rightarrow> (string \<times> string, metrics) dict \<Rightarrow>
   value_error + (string \<times> string, metrics) dict"
where
  "fold_records env source g [] rows = Inr rows"
| "fold_records env source g (r # rs) rows =
     (case parse_ts env r of
        None \<Rightarrow> fold_records env source g rs rows
      | Some t \<Rightarrow>
          (let k = (bucket_key env t g, agg_key env source r)
           in ebind (fold_record source (dget (row_metrics source) rows k) r) (\<lambda>row.
                fold_records env source g rs (AList.update k row rows))))"

definition rollup_json :: "name \<Rightarrow> string \<Rightarrow> (string \<times> string) \<times> metrics \<Rightarrow> json" where
  "rollup_json source g = (\<lambda>((bucket, key), row).
     JObj [(''timestamp'', JStr bucket), (''source'', JStr source), (''granularity'', JStr g), (''key'', JStr key),
           (''metrics'', JObj (finalize_metrics source row)), (''records'', JNum (dget 0 row ''samples''))])"

definition aggregate :: "telemetry_env \<Rightarrow> name \<Rightarrow> (string, json) dict list \<Rightarrow> string \<Rightarrow> value_error + json list" where
  "aggregate env source rs g = ebind (fold_records env source g rs []) (\<lambda>rows. Inr (map (rollup_json source g) rows))"

section \<open>Reports\<close>

definition read_lines :: "line list \<Rightarrow> json list" where
  "read_lines ls = List.map_filter (\<lambda>x. x) ls"

definition is_expired :: "telemetry_env \<Rightarrow> time \<Rightarrow> (string, json) dict \<Rightarrow> bool" where
  "is_expired env cutoff r \<longleftrightarrow> (case parse_ts env r of None \<Rightarrow> False | Some t \<Rightarrow> t < cutoff)"

definition cutoff_of :: "time \<Rightarrow> retention_rule \<Rightarrow> time" where
  "cutoff_of now p = now - rp_days p * day_length"

record source_summary =
  su_key :: name
  su_days :: int
  su_rollup :: bool
  su_raw_records :: nat
  su_expired_records :: nat
  su_keep_records :: nat
  su_oldest :: "string option"
  su_newest :: "string option"
  su_rollup_records :: nat
  su_would_rollup :: nat

text \<open>The first and the last of some texts.\<close>

definition extreme :: "(string \<Rightarrow> string \<Rightarrow> bool) \<Rightarrow> string list \<Rightarrow> string option" where
  "extreme lt ts = fold (\<lambda>t x. case x of None \<Rightarrow> Some t | Some u \<Rightarrow> if lt t u then Some t else x) ts None"

text \<open>The report counts only records whose timestamp is text, unlike the pass that truncates.\<close>

definition text_timestamp :: "telemetry_env \<Rightarrow> (string, json) dict \<Rightarrow> string option" where
  "text_timestamp env r =
     (case (parse_ts env r, get_or JNull ''timestamp'' r) of (Some _, JStr ts) \<Rightarrow> Some ts | _ \<Rightarrow> None)"

definition source_report ::
  "telemetry_env \<Rightarrow> time \<Rightarrow> telemetry_files \<Rightarrow> name \<times> retention_rule \<Rightarrow> value_error + source_summary"
where
  "source_report env now f = (\<lambda>(key, p).
     ebind (collect as_dict (read_lines (tf_raw f key))) (\<lambda>rs.
       let stamped = List.map_filter (text_timestamp env) rs;
           expired = length (filter (\<lambda>r. text_timestamp env r \<noteq> None \<and> is_expired env (cutoff_of now p) r) rs)
       in Inr \<lparr>su_key = key, su_days = rp_days p, su_rollup = rp_rollup p, su_raw_records = length rs,
               su_expired_records = expired, su_keep_records = length rs - expired,
               su_oldest = extreme text_less stamped, su_newest = extreme (\<lambda>a b. text_less b a) stamped,
               su_rollup_records = length (read_lines (tf_rollup f key)), su_would_rollup = (if rp_rollup p then expired else 0)\<rparr>))"

text \<open>The policies in the order of the defaults.\<close>

definition ordered_policies :: "(name, retention_rule) dict \<Rightarrow> (name \<times> retention_rule) list" where
  "ordered_policies ps = List.map_filter (\<lambda>k. map_option (Pair k) (map_of ps k)) telemetry_sources"

definition retention_summary ::
  "telemetry_env \<Rightarrow> time \<Rightarrow> (name, retention_rule) dict \<Rightarrow> telemetry_files \<Rightarrow> value_error + source_summary list"
where
  "retention_summary env now ps f = collect (source_report env now f) (ordered_policies ps)"

section \<open>Applying a policy\<close>

definition rollup_key :: "telemetry_env \<Rightarrow> (string, json) dict \<Rightarrow> (string \<times> string \<times> string) option" where
  "rollup_key env r =
     (let ts = get_or JNull ''timestamp'' r; g = get_or JNull ''granularity'' r; k = get_or JNull ''key'' r; s = to_str (te_repr env)
      in if ts \<noteq> JNull \<and> g \<noteq> JNull \<and> k \<noteq> JNull then Some (s ts, s g, s k) else None)"

definition existing_rollup_keys :: "telemetry_env \<Rightarrow> line list \<Rightarrow> value_error + (string \<times> string \<times> string) list" where
  "existing_rollup_keys env ls =
     ebind (collect as_dict (read_lines ls)) (\<lambda>rs. Inr (List.map_filter (rollup_key env) rs))"

text \<open>The rows of one granularity; \<^verbatim>\<open>n\<close> counts what this pass has appended for the source.\<close>

fun append_rollups ::
  "telemetry_env \<Rightarrow> name \<Rightarrow> json list \<Rightarrow> (string \<times> string \<times> string) list \<times> nat \<Rightarrow> telemetry_files \<Rightarrow>
   (retention_error + (string \<times> string \<times> string) list \<times> nat) \<times> telemetry_files"
where
  "append_rollups env key [] (existing, n) f = (Inr (existing, n), f)"
| "append_rollups env key (row # rows) (existing, n) f =
     (case ebind (as_dict row) (\<lambda>r. Inr (rollup_key env r)) of
        Inr (Some k) \<Rightarrow>
          if k \<in> set existing then append_rollups env key rows (existing, n) f
          else if te_append_fails env key n then (Inl WriteFailed, f)
          else append_rollups env key rows (k # existing, n + 1)
                 (f\<lparr>tf_rollup := (tf_rollup f)(key := tf_rollup f key @ [Some row])\<rparr>)
      | _ \<Rightarrow> (Inl (BadValue NotADict), f))"

fun rollup_granularities ::
  "telemetry_env \<Rightarrow> name \<Rightarrow> (string, json) dict list \<Rightarrow> string list \<Rightarrow> (string \<times> string \<times> string) list \<times> nat \<Rightarrow> telemetry_files \<Rightarrow>
   (retention_error + nat) \<times> telemetry_files"
where
  "rollup_granularities env key expired [] (existing, n) f = (Inr n, f)"
| "rollup_granularities env key expired (g # gs) (existing, n) f =
     (case aggregate env key expired g of
        Inl e \<Rightarrow> (Inl (BadValue e), f)
      | Inr rows \<Rightarrow>
          (case append_rollups env key rows (existing, n) f of
             (Inl e, f1) \<Rightarrow> (Inl e, f1)
           | (Inr st, f1) \<Rightarrow> rollup_granularities env key expired gs st f1))"

definition rollup_expired ::
  "telemetry_env \<Rightarrow> name \<Rightarrow> (string, json) dict list \<Rightarrow> telemetry_files \<Rightarrow> (retention_error + nat) \<times> telemetry_files"
where
  "rollup_expired env key expired f =
     (case existing_rollup_keys env (tf_rollup f key) of
        Inl e \<Rightarrow> (Inl (BadValue e), f)
      | Inr existing \<Rightarrow> rollup_granularities env key expired GRANULARITIES (existing, 0) f)"

text \<open>One source: what it rolled up and truncated, or the error that left it where it was.\<close>

definition apply_source ::
  "telemetry_env \<Rightarrow> time \<Rightarrow> name \<Rightarrow> retention_rule \<Rightarrow> telemetry_files \<Rightarrow> (retention_error + nat \<times> nat) \<times> telemetry_files"
where
  "apply_source env now key p f =
     (case collect as_dict (read_lines (tf_raw f key)) of
        Inl e \<Rightarrow> (Inl (BadValue e), f)
      | Inr rs \<Rightarrow>
          (let expired = filter (is_expired env (cutoff_of now p)) rs;
               kept = filter (\<lambda>r. \<not> is_expired env (cutoff_of now p) r) rs
           in if expired = [] then (Inr (0, 0), f)
              else case (if rp_rollup p then rollup_expired env key expired f else (Inr 0, f)) of
                     (Inl e, f1) \<Rightarrow> (Inl e, f1)
                   | (Inr rolled, f1) \<Rightarrow>
                       if te_truncate_fails env key then (Inl WriteFailed, f1)
                       else (Inr (rolled, length expired),
                             f1\<lparr>tf_raw := (tf_raw f1)(key := map (Some \<circ> JObj) kept)\<rparr>)))"

fun apply_sources ::
  "telemetry_env \<Rightarrow> time \<Rightarrow> (name \<times> retention_rule) list \<Rightarrow> telemetry_files \<Rightarrow>
   (name \<times> (retention_error + nat \<times> nat)) list \<times> telemetry_files"
where
  "apply_sources env now [] f = ([], f)"
| "apply_sources env now ((key, p) # ps) f =
     (case apply_source env now key p f of
        (res, f1) \<Rightarrow> (case apply_sources env now ps f1 of (rs, f2) \<Rightarrow> ((key, res) # rs, f2)))"

definition apply_retention ::
  "telemetry_env \<Rightarrow> time \<Rightarrow> (name, retention_rule) dict \<Rightarrow> bool \<Rightarrow> telemetry_files \<Rightarrow>
   (value_error + source_summary list \<times> (name \<times> (retention_error + nat \<times> nat)) list) \<times> telemetry_files"
where
  "apply_retention env now ps dry_run f =
     (case retention_summary env now ps f of
        Inl e \<Rightarrow> (Inl e, f)
      | Inr summary \<Rightarrow>
          if dry_run then (Inr (summary, []), f)
          else case apply_sources env now (ordered_policies ps) f of (rs, f1) \<Rightarrow> (Inr (summary, rs), f1))"

section \<open>Reading rollups\<close>

definition read_rollups :: "name option \<Rightarrow> string option \<Rightarrow> int \<Rightarrow> telemetry_files \<Rightarrow> value_error + json list" where
  "read_rollups source granularity limit f =
     ebind (collect (\<lambda>key.
                case granularity of
                  None \<Rightarrow> Inr (read_lines (tf_rollup f key))
                | Some g \<Rightarrow> ebind (collect as_dict (read_lines (tf_rollup f key))) (\<lambda>rs.
                    Inr (map JObj (filter (\<lambda>r. get_or JNull ''granularity'' r = JStr g) rs))))
              (filter (\<lambda>key. case source of None \<Rightarrow> True | Some s \<Rightarrow> key = s) telemetry_sources)) (\<lambda>rss.
       Inr (if limit \<le> 0 then [] else last_n (nat limit) (concat rss)))"

section \<open>Lemmas\<close>

text \<open>The identity of a rollup row, and those of the buckets of a list of records.\<close>

fun row_id :: "string \<Rightarrow> (string \<times> string) \<times> metrics \<Rightarrow> string \<times> string \<times> string" where
  "row_id g ((b, k), row) = (b, g, k)"

definition bucket_of :: "telemetry_env \<Rightarrow> name \<Rightarrow> string \<Rightarrow> (string, json) dict \<Rightarrow> (string \<times> string) option" where
  "bucket_of env source g r = map_option (\<lambda>t. (bucket_key env t g, agg_key env source r)) (parse_ts env r)"

definition bucket_ids :: "telemetry_env \<Rightarrow> name \<Rightarrow> (string, json) dict list \<Rightarrow> string \<Rightarrow> (string \<times> string \<times> string) set" where
  "bucket_ids env source rs g = {(b, g, k) | b k. \<exists>r \<in> set rs. bucket_of env source g r = Some (b, k)}"

lemma fold_records_Cons:
  "fold_records env source g (r # rs) rows =
     (case bucket_of env source g r of
        None \<Rightarrow> fold_records env source g rs rows
      | Some k \<Rightarrow> ebind (fold_record source (dget (row_metrics source) rows k) r) (\<lambda>row.
                    fold_records env source g rs (AList.update k row rows)))"
  by (simp add: bucket_of_def Let_def split: option.split)

declare fold_records.simps(2) [simp del]

lemma fold_records_keys:
  "fold_records env source g rs rows = Inr rows' \<Longrightarrow>
   set (keys rows') = set (keys rows) \<union> {k. \<exists>r \<in> set rs. bucket_of env source g r = Some k} \<and>
   (dict_ok rows \<longrightarrow> dict_ok rows')"
proof (induction rs arbitrary: rows)
  case (Cons r rs)
  show ?case
  proof (cases "bucket_of env source g r")
    case None
    then show ?thesis using Cons.IH[of rows] Cons.prems by (auto simp: fold_records_Cons)
  next
    case (Some k)
    then obtain row where "fold_records env source g rs (AList.update k row rows) = Inr rows'"
      using Cons.prems by (auto simp: fold_records_Cons ebind_Inr)
    from Cons.IH[OF this] Some show ?thesis by auto
  qed
qed simp

lemma rollup_json_key [simp]:
  "as_dict (rollup_json source g kv) = Inr d \<Longrightarrow> rollup_key env d = Some (row_id g kv)"
  by (cases kv) (auto simp: rollup_json_def as_dict_def rollup_key_def get_or_def to_str_def Let_def)

lemma rollup_json_dict: "\<exists>d. as_dict (rollup_json source g kv) = Inr d"
  by (cases kv) (auto simp: rollup_json_def as_dict_def)

lemma existing_rollup_keys_append:
  assumes "existing_rollup_keys env ls = Inr ks"
  shows "existing_rollup_keys env (ls @ map Some (map (rollup_json source g) kvs)) = Inr (ks @ map (row_id g) kvs)"
proof -
  have "\<exists>ds. collect as_dict (map (rollup_json source g) kvs) = Inr ds \<and>
      List.map_filter (rollup_key env) ds = map (row_id g) kvs"
  proof (induction kvs)
    case (Cons kv kvs)
    then obtain ds where ds: "collect as_dict (map (rollup_json source g) kvs) = Inr ds"
      "List.map_filter (rollup_key env) ds = map (row_id g) kvs" by blast
    obtain d where d: "as_dict (rollup_json source g kv) = Inr d" using rollup_json_dict by blast
    show ?case using ds d rollup_json_key[OF d, of env] by (auto simp: map_filter_simps)
  qed (simp add: map_filter_simps)
  then obtain ds where "collect as_dict (map (rollup_json source g) kvs) = Inr ds"
    "List.map_filter (rollup_key env) ds = map (row_id g) kvs" by blast
  moreover have "read_lines (ls @ map Some xs) = read_lines ls @ xs" for xs
    by (induction ls) (auto simp: read_lines_def map_filter_simps map_filter_append List.map_filter_def comp_def split: option.splits)
  ultimately show ?thesis
    using assms by (auto simp: existing_rollup_keys_def ebind_Inr collect_append map_filter_append simp del: map_map)
qed

text \<open>What appending rows does to the files of a source.\<close>

definition only_rollup :: "name \<Rightarrow> telemetry_files \<Rightarrow> telemetry_files \<Rightarrow> bool" where
  "only_rollup key f f' \<longleftrightarrow> tf_raw f' = tf_raw f \<and> (\<forall>j. j \<noteq> key \<longrightarrow> tf_rollup f' j = tf_rollup f j)"

lemma append_rollups_Cons:
  "append_rollups env key (rollup_json source g kv # rows) (existing, n) f =
     (if row_id g kv \<in> set existing then append_rollups env key rows (existing, n) f
      else if te_append_fails env key n then (Inl WriteFailed, f)
      else append_rollups env key rows (row_id g kv # existing, n + 1)
             (f\<lparr>tf_rollup := (tf_rollup f)(key := tf_rollup f key @ [Some (rollup_json source g kv)])\<rparr>))"
proof -
  obtain d where d: "as_dict (rollup_json source g kv) = Inr d" using rollup_json_dict by blast
  show ?thesis using rollup_json_key[OF d, of env] by (simp add: d)
qed

declare append_rollups.simps(2) [simp del]

lemma append_rollups_spec:
  assumes "distinct (map (row_id g) kvs)" "append_rollups env key (map (rollup_json source g) kvs) (existing, n) f = (res, f')"
  shows "only_rollup key f f' \<and>
    (\<forall>ex n'. res = Inr (ex, n') \<longrightarrow> set ex = set existing \<union> row_id g ` set kvs \<and>
       n' = n + length (filter (\<lambda>kv. row_id g kv \<notin> set existing) kvs) \<and>
       tf_rollup f' key = tf_rollup f key @ map Some (map (rollup_json source g) (filter (\<lambda>kv. row_id g kv \<notin> set existing) kvs))) \<and>
    ((\<forall>m. \<not> te_append_fails env key m) \<longrightarrow> is_ok res)"
  using assms
proof (induction kvs arbitrary: existing n f)
  case Nil
  then show ?case by (auto simp: only_rollup_def)
next
  case (Cons kv kvs)
  let ?f = "f\<lparr>tf_rollup := (tf_rollup f)(key := tf_rollup f key @ [Some (rollup_json source g kv)])\<rparr>"
  show ?case
  proof (cases "row_id g kv \<in> set existing")
    case True
    then show ?thesis using Cons.IH[of existing n f] Cons.prems by (auto simp: append_rollups_Cons)
  next
    case new: False
    show ?thesis
    proof (cases "te_append_fails env key n")
      case True
      then show ?thesis using Cons.prems new by (auto simp: append_rollups_Cons only_rollup_def)
    next
      case False
      have "row_id g x \<noteq> row_id g kv" if "x \<in> set kvs" for x
        using Cons.prems(1) that by (metis distinct.simps(2) image_eqI list.simps(9) set_map)
      then have "filter (\<lambda>x. row_id g x \<notin> set (row_id g kv # existing)) kvs = filter (\<lambda>x. row_id g x \<notin> set existing) kvs"
        by (intro filter_cong) simp_all
      moreover have "append_rollups env key (map (rollup_json source g) kvs) (row_id g kv # existing, n + 1) ?f = (res, f')"
        using Cons.prems(2) new False by (simp add: append_rollups_Cons)
      ultimately show ?thesis
        using Cons.IH[of "row_id g kv # existing" "n + 1" ?f] Cons.prems(1) new by (auto simp: only_rollup_def)
    qed
  qed
qed

text \<open>The rows of one granularity have distinct identities, those of the buckets of the records.\<close>

lemma aggregate_rows:
  assumes "aggregate env source rs g = Inr rows"
  obtains kvs where "rows = map (rollup_json source g) kvs" "fold_records env source g rs [] = Inr kvs"
    "distinct (map (row_id g) kvs)" "row_id g ` set kvs = bucket_ids env source rs g"
proof -
  obtain kvs where k: "fold_records env source g rs [] = Inr kvs" "rows = map (rollup_json source g) kvs"
    using assms by (auto simp: aggregate_def ebind_Inr)
  have id: "row_id g kv = (fst (fst kv), g, snd (fst kv))" for kv :: "(string \<times> string) \<times> metrics"
    by (cases kv) auto
  have ks: "dict_ok kvs" "set (keys kvs) = {k. \<exists>r \<in> set rs. bucket_of env source g r = Some k}"
    using fold_records_keys[OF k(1)] by auto
  have m: "map (row_id g) kvs = map (\<lambda>(b, k). (b, g, k)) (keys kvs)" by (simp add: id case_prod_beta)
  have "inj_on (\<lambda>(b, k). (b, g, k) :: string \<times> string \<times> string) (set (keys kvs))" by (auto intro: inj_onI)
  then have d: "distinct (map (row_id g) kvs)"
    unfolding m distinct_map[of _ "keys kvs"] using ks(1) by blast
  have "row_id g ` set kvs = (\<lambda>(b, k). (b, g, k)) ` set (keys kvs)"
    unfolding set_map image_image by (intro image_cong) (auto simp: case_prod_beta)
  also have "\<dots> = bucket_ids env source rs g"
    unfolding ks(2) by (auto simp: bucket_ids_def image_iff)
  finally show thesis using that k d by blast
qed

lemma bucket_ids_granularity: "(b, h, k) \<in> bucket_ids env source rs g \<Longrightarrow> h = g"
  by (simp add: bucket_ids_def)

definition new_rows :: "telemetry_env \<Rightarrow> name \<Rightarrow> (string, json) dict list \<Rightarrow> (string \<times> string \<times> string) set \<Rightarrow> string \<Rightarrow>
    ((string \<times> string) \<times> metrics) list" where
  "new_rows env source rs old g =
     (case fold_records env source g rs [] of Inl _ \<Rightarrow> [] | Inr kvs \<Rightarrow> filter (\<lambda>kv. row_id g kv \<notin> old) kvs)"

lemma rollup_granularities_spec:
  assumes "distinct gs" "rollup_granularities env key rs gs (existing, n) f = (res, f')"
    and "existing_rollup_keys env (tf_rollup f key) = Inr ks" "set ks = set existing"
    and "\<forall>g \<in> set gs. \<forall>b k. (b, g, k) \<in> set existing \<longleftrightarrow> (b, g, k) \<in> old"
  shows "only_rollup key f f' \<and>
    (\<forall>n'. res = Inr n' \<longrightarrow>
       (\<exists>ks'. existing_rollup_keys env (tf_rollup f' key) = Inr ks' \<and> set ks' = set existing \<union> (\<Union>g \<in> set gs. bucket_ids env key rs g)) \<and>
       n' = n + length (concat (map (new_rows env key rs old) gs)) \<and>
       tf_rollup f' key = tf_rollup f key @ map Some (concat (map (\<lambda>g. map (rollup_json key g) (new_rows env key rs old g)) gs)))"
  using assms
proof (induction gs arbitrary: existing n f ks)
  case Nil
  then show ?case by (auto simp: only_rollup_def)
next
  case (Cons g gs)
  show ?case
  proof (cases "aggregate env key rs g")
    case (Inl e)
    then show ?thesis using Cons.prems(2) by (auto simp: only_rollup_def)
  next
    case (Inr rows)
    obtain kvs where k: "rows = map (rollup_json key g) kvs" "fold_records env key g rs [] = Inr kvs"
      "distinct (map (row_id g) kvs)" "row_id g ` set kvs = bucket_ids env key rs g"
      by (rule aggregate_rows[OF Inr])
    obtain r1 f1 where a: "append_rollups env key rows (existing, n) f = (r1, f1)" by fastforce
    note sp = append_rollups_spec[OF k(3) a[unfolded k(1)]]
    show ?thesis
    proof (cases r1)
      case (Inl e)
      then show ?thesis using Cons.prems(2) Inr a sp by auto
    next
      case r1: (Inr st)
      obtain ex n1 where st: "st = (ex, n1)" by (cases st)
      have id: "\<exists>b j. row_id g kv = (b, g, j)" for kv :: "(string \<times> string) \<times> metrics" by (cases kv) auto
      have new: "filter (\<lambda>kv. row_id g kv \<notin> set existing) kvs = new_rows env key rs old g"
        unfolding new_rows_def k(2) sum.case
      proof (rule filter_cong[OF refl])
        fix kv assume "kv \<in> set kvs"
        obtain b j where "row_id g kv = (b, g, j)" using id by blast
        then show "row_id g kv \<notin> set existing \<longleftrightarrow> row_id g kv \<notin> old" using Cons.prems(5) by simp
      qed
      have f1: "set ex = set existing \<union> bucket_ids env key rs g" "n1 = n + length (new_rows env key rs old g)"
        "tf_rollup f1 key = tf_rollup f key @ map Some (map (rollup_json key g) (new_rows env key rs old g))"
        using sp r1 st k(4) new by auto
      have keys1: "existing_rollup_keys env (tf_rollup f1 key) = Inr (ks @ map (row_id g) (new_rows env key rs old g))"
        unfolding f1(3) by (rule existing_rollup_keys_append[OF Cons.prems(3)])
      moreover have "set (ks @ map (row_id g) (new_rows env key rs old g)) = set ex"
        unfolding f1(1) k(4)[symmetric] new[symmetric] using Cons.prems(4) by auto
      moreover have "\<forall>h \<in> set gs. \<forall>b k. (b, h, k) \<in> set ex \<longleftrightarrow> (b, h, k) \<in> old"
        using Cons.prems(1,5) f1(1) bucket_ids_granularity by fastforce
      moreover have "rollup_granularities env key rs gs (ex, n1) f1 = (res, f')"
        using Cons.prems(2) Inr a r1 st by simp
      ultimately have ih: "only_rollup key f1 f' \<and>
        (\<forall>n'. res = Inr n' \<longrightarrow>
           (\<exists>ks'. existing_rollup_keys env (tf_rollup f' key) = Inr ks' \<and> set ks' = set ex \<union> (\<Union>g \<in> set gs. bucket_ids env key rs g)) \<and>
           n' = n1 + length (concat (map (new_rows env key rs old) gs)) \<and>
           tf_rollup f' key = tf_rollup f1 key @ map Some (concat (map (\<lambda>g. map (rollup_json key g) (new_rows env key rs old g)) gs)))"
        using Cons.prems(1) by (intro Cons.IH[of ex n1 f1 "ks @ map (row_id g) (new_rows env key rs old g)"]) simp_all
      have "only_rollup key f f1" using sp by blast
      then show ?thesis using ih f1 by (auto simp: only_rollup_def)
    qed
  qed
qed

lemma GRANULARITIES_distinct: "distinct GRANULARITIES"
  by (simp add: GRANULARITIES_def)

definition all_new_rows :: "telemetry_env \<Rightarrow> name \<Rightarrow> (string, json) dict list \<Rightarrow> (string \<times> string \<times> string) set \<Rightarrow> json list" where
  "all_new_rows env key rs old = concat (map (\<lambda>g. map (rollup_json key g) (new_rows env key rs old g)) GRANULARITIES)"

lemma rollup_expired_spec:
  assumes "rollup_expired env key rs f = (Inr n, f')"
  obtains ks ks' where "existing_rollup_keys env (tf_rollup f key) = Inr ks" "only_rollup key f f'"
    "existing_rollup_keys env (tf_rollup f' key) = Inr ks'"
    "set ks' = set ks \<union> (\<Union>g \<in> set GRANULARITIES. bucket_ids env key rs g)"
    "n = length (all_new_rows env key rs (set ks))"
    "tf_rollup f' key = tf_rollup f key @ map Some (all_new_rows env key rs (set ks))"
proof (cases "existing_rollup_keys env (tf_rollup f key)")
  case (Inl e)
  then show thesis using assms by (simp add: rollup_expired_def)
next
  case (Inr ks)
  then have "rollup_granularities env key rs GRANULARITIES (ks, 0) f = (Inr n, f')" using assms by (simp add: rollup_expired_def)
  from rollup_granularities_spec[OF GRANULARITIES_distinct this Inr refl, of "set ks"]
  show thesis using that[OF Inr] by (auto simp: all_new_rows_def length_concat comp_def)
qed

lemma rollup_granularities_only:
  "rollup_granularities env key rs gs st f = (res, f') \<Longrightarrow> only_rollup key f f'"
proof (induction gs arbitrary: st f)
  case Nil
  then show ?case by (cases st) (auto simp: only_rollup_def)
next
  case (Cons g gs)
  obtain ex n where st: "st = (ex, n)" by (cases st)
  show ?case
  proof (cases "aggregate env key rs g")
    case (Inl e)
    then show ?thesis using Cons.prems st by (auto simp: only_rollup_def)
  next
    case (Inr rows)
    obtain kvs where k: "rows = map (rollup_json key g) kvs" "distinct (map (row_id g) kvs)"
      by (rule aggregate_rows[OF Inr]) blast
    obtain r1 f1 where a: "append_rollups env key rows (ex, n) f = (r1, f1)" by fastforce
    have "only_rollup key f f1" using append_rollups_spec[OF k(2) a[unfolded k(1)]] by blast
    then show ?thesis using Cons.IH[of _ f1] Cons.prems st Inr a
      by (cases r1) (auto simp: only_rollup_def)
  qed
qed

lemma rollup_expired_only: "rollup_expired env key rs f = (res, f') \<Longrightarrow> only_rollup key f f'"
  by (auto simp: rollup_expired_def only_rollup_def split: sum.splits dest: rollup_granularities_only)

text \<open>The samples of the rows count the records, except where snapshots may write over them.\<close>

lemma fold_sum_samples:
  "fold_sum sk ck v row = Inr row' \<Longrightarrow> ''samples'' \<notin> {sk, ck} \<Longrightarrow> dget 0 row' ''samples'' = dget 0 row ''samples''"
  by (auto simp: fold_sum_def add_to_def ebind_Inr split: json.splits)

lemma fold_record_samples:
  assumes "fold_record source row r = Inr row'" "source \<noteq> ''metrics_history''"
  shows "dget 0 row' ''samples'' = dget 0 row ''samples'' + 1"
proof -
  consider "source = ''provider_usage''" | "source = ''cli_telemetry''" | "source \<notin> {''provider_usage'', ''cli_telemetry''}" by blast
  then show ?thesis
  proof cases
    case 1
    then show ?thesis using assms
      by (auto simp: fold_record_def fold_usage_def Let_def ebind_Inr add_to_def dest!: fold_sum_samples split: if_splits)
  next
    case 2
    then show ?thesis using assms by (auto simp: fold_record_def Let_def add_to_def dest!: fold_sum_samples)
  next
    case 3
    then show ?thesis using assms by (auto simp: fold_record_def Let_def add_to_def split: if_splits)
  qed
qed

lemma row_metrics_samples [simp]: "dget 0 (row_metrics source) ''samples'' = 0"
  by (simp add: row_metrics_def)

lemma sum_update:
  fixes h :: "'v \<Rightarrow> rat"
  shows "dict_ok d \<Longrightarrow> sum_list (map (h \<circ> snd) (AList.update k v d)) =
    sum_list (map (h \<circ> snd) d) + h v - (case map_of d k of None \<Rightarrow> 0 | Some w \<Rightarrow> h w)"
  by (induction d) (auto split: option.splits)

lemma fold_records_total:
  assumes "fold_records env source g rs rows = Inr rows'" "source \<noteq> ''metrics_history''" "dict_ok rows"
  shows "sum_list (map ((\<lambda>m. dget 0 m ''samples'') \<circ> snd) rows') =
    sum_list (map ((\<lambda>m. dget 0 m ''samples'') \<circ> snd) rows) + of_nat (length (filter (\<lambda>r. bucket_of env source g r \<noteq> None) rs))"
  using assms
proof (induction rs arbitrary: rows)
  case (Cons r rs)
  show ?case
  proof (cases "bucket_of env source g r")
    case None
    then show ?thesis using Cons by (simp add: fold_records_Cons)
  next
    case (Some k)
    then obtain row where row: "fold_record source (dget (row_metrics source) rows k) r = Inr row"
      "fold_records env source g rs (AList.update k row rows) = Inr rows'"
      using Cons.prems(1) by (auto simp: fold_records_Cons ebind_Inr)
    have "dget 0 row ''samples'' = (case map_of rows k of None \<Rightarrow> 0 | Some w \<Rightarrow> dget 0 w ''samples'') + 1"
      using fold_record_samples[OF row(1) Cons.prems(2)] by (simp add: dget_def[of "row_metrics source"] split: option.split)
    moreover have "dict_ok (AList.update k row rows)" using Cons.prems(3) by (rule dict_ok_update)
    note Cons.IH[OF row(2) Cons.prems(2) this]
    ultimately show ?thesis
      using sum_update[OF Cons.prems(3), of "\<lambda>m. dget 0 m ''samples''" k row] Some by (simp add: comp_def)
  qed
qed simp

text \<open>The records a rollup file accounts for at one granularity.\<close>

definition rollup_count :: "string \<Rightarrow> json \<Rightarrow> rat" where
  "rollup_count g v =
     (case v of
        JObj d \<Rightarrow> if get_or JNull ''granularity'' d = JStr g
                  then (case get_or JNull ''records'' d of JNum x \<Rightarrow> x | _ \<Rightarrow> 0) else 0
      | _ \<Rightarrow> 0)"

definition rollup_total :: "string \<Rightarrow> line list \<Rightarrow> rat" where
  "rollup_total g ls = sum_list (map (rollup_count g) (read_lines ls))"

lemma rollup_count_json: "rollup_count g (rollup_json source h kv) = (if h = g then dget 0 (snd kv) ''samples'' else 0)"
  by (cases kv) (auto simp: rollup_count_def rollup_json_def get_or_def)

lemma read_lines_Some [simp]: "read_lines (map Some xs) = xs"
  by (induction xs) (simp_all add: read_lines_def map_filter_simps)

text \<open>What a source comes to.\<close>

lemma apply_source_Inr:
  assumes "apply_source env now key p f = (Inr (rolled, truncated), f')"
  obtains rs where "collect as_dict (read_lines (tf_raw f key)) = Inr rs"
    "truncated = length (filter (is_expired env (cutoff_of now p)) rs)"
    "if truncated = 0 then rolled = 0 \<and> f' = f
     else tf_raw f' key = map (Some \<circ> JObj) (filter (\<lambda>r. \<not> is_expired env (cutoff_of now p) r) rs) \<and>
       (\<exists>f1. (if rp_rollup p then rollup_expired env key (filter (is_expired env (cutoff_of now p)) rs) f = (Inr rolled, f1)
              else rolled = 0 \<and> f1 = f) \<and> tf_rollup f' = tf_rollup f1)"
proof (cases "collect as_dict (read_lines (tf_raw f key))")
  case (Inl e)
  then show thesis using assms by (simp add: apply_source_def)
next
  case (Inr rs)
  let ?exp = "filter (is_expired env (cutoff_of now p)) rs"
  show thesis
  proof (cases "?exp = []")
    case True
    then show thesis using assms Inr that[OF Inr] by (simp add: apply_source_def Let_def)
  next
    case False
    obtain r1 f1 where r: "(if rp_rollup p then rollup_expired env key ?exp f else (Inr 0, f)) = (r1, f1)" by fastforce
    then obtain n where n: "r1 = Inr n" "\<not> te_truncate_fails env key" "rolled = n" "truncated = length ?exp"
      "f' = f1\<lparr>tf_raw := (tf_raw f1)(key := map (Some \<circ> JObj) (filter (\<lambda>r. \<not> is_expired env (cutoff_of now p) r) rs))\<rparr>"
      using assms Inr False by (auto simp: apply_source_def Let_def split: sum.splits if_splits)
    show thesis
    proof (rule that[OF Inr n(4)])
      have t: "truncated \<noteq> 0" using False n(4) by simp
      have "if rp_rollup p then rollup_expired env key ?exp f = (Inr rolled, f1) else rolled = 0 \<and> f1 = f"
        using r n(1,3) by (auto split: if_splits)
      moreover have "tf_rollup f' = tf_rollup f1"
        "tf_raw f' key = map (Some \<circ> JObj) (filter (\<lambda>r. \<not> is_expired env (cutoff_of now p) r) rs)" using n(5) by simp_all
      ultimately show "if truncated = 0 then rolled = 0 \<and> f' = f
        else tf_raw f' key = map (Some \<circ> JObj) (filter (\<lambda>r. \<not> is_expired env (cutoff_of now p) r) rs) \<and>
          (\<exists>f1. (if rp_rollup p then rollup_expired env key ?exp f = (Inr rolled, f1)
                 else rolled = 0 \<and> f1 = f) \<and> tf_rollup f' = tf_rollup f1)"
        using t by auto
    qed
  qed
qed

section \<open>Failures and runs after them\<close>

lemma filter_after_prefix:
  "distinct (map h xs) \<Longrightarrow> filter (\<lambda>x. h x \<notin> h ` set (take m xs)) xs = drop m xs"
proof (induction xs arbitrary: m)
  case (Cons x xs)
  show ?case
  proof (cases m)
    case (Suc k)
    have "filter (\<lambda>y. h y \<notin> h ` set (take m (x # xs))) xs = filter (\<lambda>y. h y \<notin> h ` set (take k xs)) xs"
      using Cons.prems Suc by (intro filter_cong) (auto simp: image_iff)
    then show ?thesis using Cons Suc by simp
  qed simp
qed simp

text \<open>However a rollup ends, it has appended the first of the new rows.\<close>

lemma append_rollups_prefix:
  assumes "distinct (map (row_id g) kvs)" "append_rollups env key (map (rollup_json source g) kvs) (existing, n) f = (res, f')"
  shows "\<exists>m. tf_rollup f' key = tf_rollup f key @ map Some (map (rollup_json source g) (take m (filter (\<lambda>kv. row_id g kv \<notin> set existing) kvs)))"
  using assms
proof (induction kvs arbitrary: existing n f)
  case Nil
  then show ?case by auto
next
  case (Cons kv kvs)
  let ?f = "f\<lparr>tf_rollup := (tf_rollup f)(key := tf_rollup f key @ [Some (rollup_json source g kv)])\<rparr>"
  show ?case
  proof (cases "row_id g kv \<in> set existing")
    case True
    then show ?thesis using Cons.IH[of existing n f] Cons.prems by (auto simp: append_rollups_Cons)
  next
    case new: False
    show ?thesis
    proof (cases "te_append_fails env key n")
      case True
      then have "tf_rollup f' key = tf_rollup f key" using Cons.prems(2) new by (auto simp: append_rollups_Cons)
      then show ?thesis by (intro exI[of _ 0]) simp
    next
      case False
      have "row_id g x \<noteq> row_id g kv" if "x \<in> set kvs" for x
        using Cons.prems(1) that by (metis distinct.simps(2) image_eqI list.simps(9) set_map)
      then have eq: "filter (\<lambda>x. row_id g x \<notin> set (row_id g kv # existing)) kvs = filter (\<lambda>x. row_id g x \<notin> set existing) kvs"
        by (intro filter_cong) simp_all
      have "append_rollups env key (map (rollup_json source g) kvs) (row_id g kv # existing, n + 1) ?f = (res, f')"
        using Cons.prems(2) new False by (simp add: append_rollups_Cons)
      then obtain m where "tf_rollup f' key = tf_rollup ?f key @
          map Some (map (rollup_json source g) (take m (filter (\<lambda>x. row_id g x \<notin> set existing) kvs)))"
        using Cons.IH[of "row_id g kv # existing" "n + 1" ?f] Cons.prems(1) unfolding eq by auto
      then show ?thesis using new by (intro exI[of _ "Suc m"]) simp
    qed
  qed
qed

text \<open>The new rows with their granularity.\<close>

definition tagged_rows :: "telemetry_env \<Rightarrow> name \<Rightarrow> (string, json) dict list \<Rightarrow> (string \<times> string \<times> string) set \<Rightarrow> string list \<Rightarrow>
    (string \<times> (string \<times> string) \<times> metrics) list" where
  "tagged_rows env key rs old gs = concat (map (\<lambda>g. map (Pair g) (new_rows env key rs old g)) gs)"

abbreviation tag_id :: "string \<times> (string \<times> string) \<times> metrics \<Rightarrow> string \<times> string \<times> string" where
  "tag_id x \<equiv> row_id (fst x) (snd x)"

abbreviation tag_json :: "name \<Rightarrow> string \<times> (string \<times> string) \<times> metrics \<Rightarrow> json" where
  "tag_json key x \<equiv> rollup_json key (fst x) (snd x)"

lemma tagged_rows_json: "map (tag_json key) (tagged_rows env key rs old GRANULARITIES) = all_new_rows env key rs old"
  by (simp add: tagged_rows_def all_new_rows_def map_concat comp_def)

lemma new_rows_filter:
  "new_rows env key rs (old \<union> extra) g = filter (\<lambda>kv. row_id g kv \<notin> extra) (new_rows env key rs old g)"
  by (auto simp: new_rows_def split: sum.split intro: filter_cong)

lemma tagged_rows_filter:
  "tagged_rows env key rs (old \<union> extra) gs = filter (\<lambda>x. tag_id x \<notin> extra) (tagged_rows env key rs old gs)"
  by (simp add: tagged_rows_def filter_concat new_rows_filter filter_map comp_def)

lemma new_rows_distinct: "distinct (map (row_id g) (new_rows env key rs old g))"
proof (cases "fold_records env key g rs []")
  case (Inl e)
  then show ?thesis by (simp add: new_rows_def)
next
  case (Inr kvs)
  then have "aggregate env key rs g = Inr (map (rollup_json key g) kvs)" by (simp add: aggregate_def)
  from aggregate_rows[OF this] Inr have "distinct (map (row_id g) kvs)" by (metis sum.inject(2))
  then show ?thesis using Inr by (simp add: new_rows_def distinct_map_filter)
qed

lemma tagged_rows_distinct: "distinct gs \<Longrightarrow> distinct (map tag_id (tagged_rows env key rs old gs))"
proof (induction gs)
  case (Cons g gs)
  have id: "fst (snd (row_id h kv)) = h" for h and kv :: "(string \<times> string) \<times> metrics" by (cases kv) auto
  have "fst (snd (tag_id x)) \<in> set gs" if "x \<in> set (tagged_rows env key rs old gs)" for x
    using that id by (auto simp: tagged_rows_def)
  then have "\<forall>x \<in> set (tagged_rows env key rs old gs). \<forall>kv. tag_id x \<noteq> row_id g kv"
    using Cons.prems id by (metis distinct.simps(2))
  then show ?case
    using Cons new_rows_distinct[of g env key rs old] by (fastforce simp: tagged_rows_def comp_def)
qed (simp add: tagged_rows_def)

lemma rollup_granularities_prefix:
  assumes "distinct gs" "rollup_granularities env key rs gs (existing, n) f = (res, f')"
    and "\<forall>g \<in> set gs. \<forall>b k. (b, g, k) \<in> set existing \<longleftrightarrow> (b, g, k) \<in> old"
  shows "\<exists>m. tf_rollup f' key = tf_rollup f key @ map Some (map (tag_json key) (take m (tagged_rows env key rs old gs)))"
  using assms
proof (induction gs arbitrary: existing n f)
  case Nil
  then show ?case by auto
next
  case (Cons g gs)
  show ?case
  proof (cases "aggregate env key rs g")
    case (Inl e)
    then show ?thesis using Cons.prems(2) by (intro exI[of _ 0]) auto
  next
    case (Inr rows)
    obtain kvs where k: "rows = map (rollup_json key g) kvs" "fold_records env key g rs [] = Inr kvs"
      "distinct (map (row_id g) kvs)" "row_id g ` set kvs = bucket_ids env key rs g"
      by (rule aggregate_rows[OF Inr])
    have id: "\<exists>b j. row_id g kv = (b, g, j)" for kv :: "(string \<times> string) \<times> metrics" by (cases kv) auto
    have new: "filter (\<lambda>kv. row_id g kv \<notin> set existing) kvs = new_rows env key rs old g"
      unfolding new_rows_def k(2) sum.case
    proof (rule filter_cong[OF refl])
      fix kv assume "kv \<in> set kvs"
      obtain b j where "row_id g kv = (b, g, j)" using id by blast
      then show "row_id g kv \<notin> set existing \<longleftrightarrow> row_id g kv \<notin> old" using Cons.prems(3) by simp
    qed
    have tagged: "tagged_rows env key rs old (g # gs) = map (Pair g) (new_rows env key rs old g) @ tagged_rows env key rs old gs"
      by (simp add: tagged_rows_def)
    obtain r1 f1 where a: "append_rollups env key rows (existing, n) f = (r1, f1)" by fastforce
    show ?thesis
    proof (cases r1)
      case (Inl e)
      obtain m where "tf_rollup f1 key = tf_rollup f key @ map Some (map (rollup_json key g) (take m (new_rows env key rs old g)))"
        using append_rollups_prefix[OF k(3) a[unfolded k(1)]] new by auto
      moreover have "f' = f1" using Cons.prems(2) Inr a Inl by simp
      ultimately show ?thesis
        unfolding tagged by (intro exI[of _ "min m (length (new_rows env key rs old g))"]) (simp add: take_map comp_def min_def)
    next
      case r1: (Inr st)
      obtain ex n1 where st: "st = (ex, n1)" by (cases st)
      have f1: "set ex = set existing \<union> bucket_ids env key rs g"
        "tf_rollup f1 key = tf_rollup f key @ map Some (map (rollup_json key g) (new_rows env key rs old g))"
        using append_rollups_spec[OF k(3) a[unfolded k(1)]] r1 st k(4) new by auto
      have "\<forall>h \<in> set gs. \<forall>b k. (b, h, k) \<in> set ex \<longleftrightarrow> (b, h, k) \<in> old"
        using Cons.prems(1,3) f1(1) bucket_ids_granularity by fastforce
      then obtain m where "tf_rollup f' key = tf_rollup f1 key @ map Some (map (tag_json key) (take m (tagged_rows env key rs old gs)))"
        using Cons.IH[of ex n1 f1] Cons.prems(1,2) Inr a r1 st by auto
      then show ?thesis
        unfolding tagged f1(2) by (intro exI[of _ "length (new_rows env key rs old g) + m"]) (simp add: comp_def)
    qed
  qed
qed

text \<open>The environment of a run matters for the records only through its clockwork, not its failures.\<close>

definition failing :: "(name \<Rightarrow> nat \<Rightarrow> bool) \<Rightarrow> (name \<Rightarrow> bool) \<Rightarrow> telemetry_env \<Rightarrow> telemetry_env" where
  "failing a t env = env\<lparr>te_append_fails := a, te_truncate_fails := t\<rparr>"

lemma failing_fields [simp]:
  "te_repr (failing a t env) = te_repr env" "te_parse_iso (failing a t env) = te_parse_iso env"
  "te_hour_text (failing a t env) = te_hour_text env" "te_date_text (failing a t env) = te_date_text env"
  by (simp_all add: failing_def)

lemma failing_keys [simp]:
  "parse_ts (failing a t env) r = parse_ts env r" "bucket_key (failing a t env) i g = bucket_key env i g"
  "agg_key (failing a t env) source r = agg_key env source r" "rollup_key (failing a t env) r = rollup_key env r"
  unfolding parse_ts_def bucket_key_def agg_key_def rollup_key_def Let_def by (simp_all cong: if_cong)

lemma failing_records [simp]:
  "bucket_of (failing a t env) = bucket_of env" "is_expired (failing a t env) = is_expired env"
  "existing_rollup_keys (failing a t env) = existing_rollup_keys env"
proof -
  have "rollup_key (failing a t env) = rollup_key env" by (rule ext) simp
  then show "existing_rollup_keys (failing a t env) = existing_rollup_keys env"
    by (intro ext) (simp only: existing_rollup_keys_def)
qed (simp_all add: fun_eq_iff bucket_of_def is_expired_def)

lemma failing_fold_records [simp]: "fold_records (failing a t env) = fold_records env"
proof (intro ext)
  fix source g rs rows
  show "fold_records (failing a t env) source g rs rows = fold_records env source g rs rows"
    by (induction rs arbitrary: rows) (simp_all add: fold_records_Cons split: option.split)
qed

lemma failing_tagged_rows [simp]: "tagged_rows (failing a t env) = tagged_rows env"
  by (intro ext) (simp add: tagged_rows_def new_rows_def)

lemma collect_as_dict_JObj [simp]: "collect as_dict (map JObj rs) = Inr rs"
  by (induction rs) (simp_all add: as_dict_def)

text \<open>What is left of a source however a run on it ended.\<close>

lemma apply_source_outcome:
  assumes "apply_source env now key p f = (res, f')" "collect as_dict (read_lines (tf_raw f key)) = Inr rs"
  defines "expired \<equiv> filter (is_expired env (cutoff_of now p)) rs"
  obtains m where
    "tf_raw f' key = tf_raw f key \<or> tf_raw f' key = map (Some \<circ> JObj) (filter (\<lambda>r. \<not> is_expired env (cutoff_of now p) r) rs)"
    "is_ok res \<longrightarrow> expired = [] \<or> tf_raw f' key = map (Some \<circ> JObj) (filter (\<lambda>r. \<not> is_expired env (cutoff_of now p) r) rs)"
    "tf_rollup f' key = tf_rollup f key @ map Some (map (tag_json key) (take m (case existing_rollup_keys env (tf_rollup f key) of
       Inl _ \<Rightarrow> [] | Inr ks \<Rightarrow> tagged_rows env key expired (set ks) GRANULARITIES)))"
    "tf_raw f' key = tf_raw f key \<or> is_ok res" "\<not> rp_rollup p \<longrightarrow> tf_rollup f' key = tf_rollup f key"
proof (cases "expired = []")
  case True
  then show thesis using assms that[of 0] by (simp add: apply_source_def Let_def)
next
  case False
  obtain r1 f1 where r: "(if rp_rollup p then rollup_expired env key expired f else (Inr 0, f)) = (r1, f1)" by fastforce
  have f1: "only_rollup key f f1"
    using r rollup_expired_only by (auto simp: only_rollup_def split: if_splits)
  obtain m where m: "tf_rollup f1 key = tf_rollup f key @ map Some (map (tag_json key) (take m (case existing_rollup_keys env (tf_rollup f key) of
       Inl _ \<Rightarrow> [] | Inr ks \<Rightarrow> tagged_rows env key expired (set ks) GRANULARITIES)))"
    "\<not> rp_rollup p \<longrightarrow> tf_rollup f1 key = tf_rollup f key"
  proof (cases "rp_rollup p")
    case True
    then have re: "rollup_expired env key expired f = (r1, f1)" using r by simp
    show thesis
    proof (cases "existing_rollup_keys env (tf_rollup f key)")
      case (Inl e)
      then show thesis using re that[of 0] by (simp add: rollup_expired_def)
    next
      case (Inr ks)
      then obtain m where "tf_rollup f1 key = tf_rollup f key @ map Some (map (tag_json key) (take m (tagged_rows env key expired (set ks) GRANULARITIES)))"
        using re rollup_granularities_prefix[OF GRANULARITIES_distinct, of env key expired ks 0 f r1 f1 "set ks"]
        by (auto simp: rollup_expired_def)
      then show thesis using that[of m] Inr True by simp
    qed
  next
    case False
    then have "f1 = f" using r by simp
    then show thesis by (intro that[of 0]) simp_all
  qed
  have step: "(case (if rp_rollup p then rollup_expired env key expired f else (Inr 0, f)) of
      (Inl e, f1) \<Rightarrow> (Inl e, f1)
    | (Inr rolled, f1) \<Rightarrow>
        if te_truncate_fails env key then (Inl WriteFailed, f1)
        else (Inr (rolled, length expired),
              f1\<lparr>tf_raw := (tf_raw f1)(key := map (Some \<circ> JObj) (filter (\<lambda>r. \<not> is_expired env (cutoff_of now p) r) rs))\<rparr>)) = (res, f')"
    using assms(1)[unfolded apply_source_def assms(2) sum.case Let_def, folded expired_def] False
    by (simp only: if_False)
  show thesis
  proof (cases "\<exists>n. r1 = Inr n \<and> \<not> te_truncate_fails env key")
    case True
    then obtain n where "res = Inr (n, length expired)"
      "f' = f1\<lparr>tf_raw := (tf_raw f1)(key := map (Some \<circ> JObj) (filter (\<lambda>r. \<not> is_expired env (cutoff_of now p) r) rs))\<rparr>"
      using step unfolding r by auto
    then show thesis using that[of m] m by simp
  next
    case no: False
    then have "\<not> is_ok res" "f' = f1"
      using step unfolding r by (auto split: sum.splits if_splits)
    then show thesis using that[of m] m f1 by (simp add: only_rollup_def)
  qed
qed

lemma existing_rollup_keys_tagged:
  "existing_rollup_keys env (tf_rollup f key) = Inr ks \<Longrightarrow>
   existing_rollup_keys env (tf_rollup f key @ map Some (map (tag_json key) xs)) = Inr (ks @ map tag_id xs)"
proof (induction xs rule: rev_induct)
  case (snoc x xs)
  from existing_rollup_keys_append[OF snoc.IH[OF snoc.prems], of key "fst x" "[snd x]"] show ?case by simp
qed simp

abbreviation clean :: "telemetry_env \<Rightarrow> telemetry_env" where
  "clean env \<equiv> failing (\<lambda>_ _. False) (\<lambda>_. False) env"

lemma clean_writes [simp]: "te_append_fails (clean env) k n = False" "te_truncate_fails (clean env) k = False"
  by (simp_all add: failing_def)

lemma rollup_granularities_clean:
  "is_ok (fst (rollup_granularities (clean env) key rs gs st f)) \<longleftrightarrow> (\<forall>g \<in> set gs. is_ok (fold_records env key g rs []))"
proof (induction gs arbitrary: st f)
  case Nil
  then show ?case by (cases st) simp
next
  case (Cons g gs)
  obtain ex n where st: "st = (ex, n)" by (cases st)
  show ?case
  proof (cases "fold_records env key g rs []")
    case (Inl e)
    then show ?thesis using st by (simp add: aggregate_def)
  next
    case (Inr kvs)
    then have ag: "aggregate (clean env) key rs g = Inr (map (rollup_json key g) kvs)" by (simp add: aggregate_def)
    have d: "distinct (map (row_id g) kvs)"
      using aggregate_rows[OF ag] Inr by (metis failing_fold_records sum.inject(2))
    obtain r1 f1 where a: "append_rollups (clean env) key (map (rollup_json key g) kvs) (ex, n) f = (r1, f1)" by fastforce
    then have "is_ok r1" using append_rollups_spec[OF d a] by simp
    then show ?thesis using Cons.IH Inr ag a st by (cases r1) auto
  qed
qed

text \<open>A rollup after one that stopped somewhere appends what was left.\<close>

lemma rollup_expired_resumes:
  assumes "rollup_expired (clean env) key rs f = (Inr n, f2)"
    and "existing_rollup_keys env (tf_rollup f key) = Inr ks"
    and "tf_rollup f1 key = tf_rollup f key @ map Some (map (tag_json key) (take m (tagged_rows env key rs (set ks) GRANULARITIES)))"
  obtains n' f3 where "rollup_expired (clean env) key rs f1 = (Inr n', f3)" "tf_rollup f3 key = tf_rollup f2 key"
proof -
  let ?rows = "tagged_rows env key rs (set ks) GRANULARITIES"
  have ks1: "existing_rollup_keys env (tf_rollup f1 key) = Inr (ks @ map tag_id (take m ?rows))"
    unfolding assms(3) by (rule existing_rollup_keys_tagged[OF assms(2)])
  have "is_ok (fst (rollup_expired (clean env) key rs f))" using assms(1) by simp
  then have "\<forall>g \<in> set GRANULARITIES. is_ok (fold_records env key g rs [])"
    using assms(2) by (simp add: rollup_expired_def rollup_granularities_clean)
  then have "is_ok (fst (rollup_expired (clean env) key rs f1))"
    using ks1 by (simp add: rollup_expired_def rollup_granularities_clean)
  then obtain n' f3 where f3: "rollup_expired (clean env) key rs f1 = (Inr n', f3)"
    by (cases "rollup_expired (clean env) key rs f1"; cases "fst (rollup_expired (clean env) key rs f1)") auto
  have all: "all_new_rows (clean env) key rs x = map (tag_json key) (tagged_rows env key rs x GRANULARITIES)" for x
    by (simp add: tagged_rows_json[symmetric])
  have rest: "tagged_rows env key rs (set ks \<union> tag_id ` set (take m ?rows)) GRANULARITIES = drop m ?rows"
    unfolding tagged_rows_filter by (rule filter_after_prefix[OF tagged_rows_distinct[OF GRANULARITIES_distinct]])
  obtain ks' where k': "existing_rollup_keys env (tf_rollup f1 key) = Inr ks'"
    "tf_rollup f3 key = tf_rollup f1 key @ map Some (map (tag_json key) (tagged_rows env key rs (set ks') GRANULARITIES))"
    by (rule rollup_expired_spec[OF f3]) (use all in simp)
  have "set ks' = set ks \<union> tag_id ` set (take m ?rows)"
    using k'(1) unfolding ks1 sum.inject by (metis set_append set_map)
  then have "tf_rollup f3 key = tf_rollup f1 key @ map Some (map (tag_json key) (drop m ?rows))"
    using k'(2) rest by simp
  also have "\<dots> = tf_rollup f key @ map Some (map (tag_json key) ?rows)"
    unfolding assms(3) append_assoc map_append[symmetric] append_take_drop_id ..
  also have "\<dots> = tf_rollup f2 key"
  proof (rule rollup_expired_spec[OF assms(1)])
    fix ks' assume "existing_rollup_keys (clean env) (tf_rollup f key) = Inr ks'"
      "tf_rollup f2 key = tf_rollup f key @ map Some (all_new_rows (clean env) key rs (set ks'))"
    then show ?thesis using assms(2) all by simp
  qed
  finally show thesis using that f3 by blast
qed

lemma rollup_expired_same:
  assumes "rollup_expired env key rs f = (Inr n1, g1)" "rollup_expired (clean env) key rs f = (Inr n2, g2)"
  shows "tf_rollup g1 key = tf_rollup g2 key"
proof (rule rollup_expired_spec[OF assms(1)])
  fix ks assume ks: "existing_rollup_keys env (tf_rollup f key) = Inr ks"
    "tf_rollup g1 key = tf_rollup f key @ map Some (all_new_rows env key rs (set ks))"
  show ?thesis
  proof (rule rollup_expired_spec[OF assms(2)])
    fix ks' assume "existing_rollup_keys (clean env) (tf_rollup f key) = Inr ks'"
      "tf_rollup g2 key = tf_rollup f key @ map Some (all_new_rows (clean env) key rs (set ks'))"
    then show ?thesis using ks by (simp add: tagged_rows_json[symmetric])
  qed
qed

lemma apply_source_expired:
  assumes "apply_source env now key p f = (Inr n, f')" "collect as_dict (read_lines (tf_raw f key)) = Inr rs"
    and "ex = filter (is_expired env (cutoff_of now p)) rs" "ex \<noteq> []"
  obtains k g where "(if rp_rollup p then rollup_expired env key ex f else (Inr 0, f)) = (Inr k, g)"
    "tf_raw f' key = map (Some \<circ> JObj) (filter (\<lambda>r. \<not> is_expired env (cutoff_of now p) r) rs)" "tf_rollup f' = tf_rollup g"
proof -
  obtain rolled truncated where n: "n = (rolled, truncated)" by (cases n)
  show thesis
  proof (rule apply_source_Inr[OF assms(1)[unfolded n]])
    fix rs' assume rs': "collect as_dict (read_lines (tf_raw f key)) = Inr rs'"
      "truncated = length (filter (is_expired env (cutoff_of now p)) rs')"
      "if truncated = 0 then rolled = 0 \<and> f' = f
       else tf_raw f' key = map (Some \<circ> JObj) (filter (\<lambda>r. \<not> is_expired env (cutoff_of now p) r) rs') \<and>
         (\<exists>f1. (if rp_rollup p then rollup_expired env key (filter (is_expired env (cutoff_of now p)) rs') f = (Inr rolled, f1)
                else rolled = 0 \<and> f1 = f) \<and> tf_rollup f' = tf_rollup f1)"
    have eq: "rs' = rs" using rs'(1) assms(2) by simp
    have "truncated \<noteq> 0" using rs'(2) assms(3,4) by (simp add: eq)
    then obtain f1 where "tf_raw f' key = map (Some \<circ> JObj) (filter (\<lambda>r. \<not> is_expired env (cutoff_of now p) r) rs)"
      "if rp_rollup p then rollup_expired env key ex f = (Inr rolled, f1) else rolled = 0 \<and> f1 = f" "tf_rollup f' = tf_rollup f1"
      using rs'(3)[unfolded eq] unfolding assms(3) by (metis (no_types, lifting))
    then show thesis using that[of rolled f1] by (auto split: if_splits)
  qed
qed

text \<open>A run on a source without failures, from what its rollup comes to.\<close>

lemma apply_source_clean:
  assumes "collect as_dict (read_lines (tf_raw f key)) = Inr rs" "ex = filter (is_expired env (cutoff_of now p)) rs" "ex \<noteq> []"
    and "(if rp_rollup p then rollup_expired (clean env) key ex f else (Inr 0, f)) = (Inr k, g)"
  shows "apply_source (clean env) now key p f = (Inr (k, length ex),
    g\<lparr>tf_raw := (tf_raw g)(key := map (Some \<circ> JObj) (filter (\<lambda>r. \<not> is_expired env (cutoff_of now p) r) rs))\<rparr>)"
  unfolding apply_source_def assms(1) sum.case Let_def failing_records(2) assms(2)[symmetric] assms(4)
  using assms(3) by simp

lemma apply_source_idle:
  assumes "tf_raw f key = map (Some \<circ> JObj) (filter (\<lambda>r. \<not> is_expired env (cutoff_of now p) r) rs)"
  shows "apply_source (clean env) now key p f = (Inr (0, 0), f)"
proof -
  have "read_lines (tf_raw f key) = map JObj (filter (\<lambda>r. \<not> is_expired env (cutoff_of now p) r) rs)"
    unfolding assms map_map[symmetric] read_lines_Some ..
  then show ?thesis by (simp add: apply_source_def Let_def)
qed

text \<open>The clock enters a run only through the records it expires.\<close>

lemma collect_as_dict_Inr: "collect as_dict xs = Inr rs \<Longrightarrow> xs = map JObj rs"
proof (induction xs arbitrary: rs)
  case (Cons x xs)
  then show ?case by (cases x) (auto simp: as_dict_def ebind_Inr split: sum.splits)
qed simp

lemma apply_source_clock:
  assumes "collect as_dict (read_lines (tf_raw f key)) = Inr rs"
    and "\<forall>r \<in> set rs. is_expired env (cutoff_of now2 p) r = is_expired env (cutoff_of now p) r"
  shows "apply_source env now2 key p f = apply_source env now key p f"
proof -
  have "filter (is_expired env (cutoff_of now2 p)) rs = filter (is_expired env (cutoff_of now p)) rs"
    "filter (\<lambda>r. \<not> is_expired env (cutoff_of now2 p) r) rs = filter (\<lambda>r. \<not> is_expired env (cutoff_of now p) r) rs"
    using assms(2) by (auto intro!: filter_cong)
  then show ?thesis unfolding apply_source_def assms(1) sum.case by (simp only:)
qed

text \<open>The records that a run leaves are among those it found.\<close>

lemma apply_source_leaves:
  assumes "apply_source env now key p f = (res, f')" "collect as_dict (read_lines (tf_raw f key)) = Inr rs"
  shows "\<exists>rs'. collect as_dict (read_lines (tf_raw f' key)) = Inr rs' \<and> set rs' \<subseteq> set rs"
proof -
  have "tf_raw f' key = tf_raw f key \<or> tf_raw f' key = map (Some \<circ> JObj) (filter (\<lambda>r. \<not> is_expired env (cutoff_of now p) r) rs)"
    by (rule apply_source_outcome[OF assms])
  then show ?thesis
  proof
    assume "tf_raw f' key = map (Some \<circ> JObj) (filter (\<lambda>r. \<not> is_expired env (cutoff_of now p) r) rs)"
    then have "read_lines (tf_raw f' key) = map JObj (filter (\<lambda>r. \<not> is_expired env (cutoff_of now p) r) rs)"
      by (simp only: map_map[symmetric] read_lines_Some)
    then show ?thesis by auto
  qed (use assms(2) in auto)
qed

section \<open>A concrete log\<close>

text \<open>Two calls of one command within an hour, read by a run between their expiries and by a later one.\<close>

definition demo_times :: telemetry_env where
  "demo_times = \<lparr>te_repr = (\<lambda>_. ''?''),
     te_parse_iso = map_of [(''ten past'', 600000000), (''twenty past'', 1200000000)],
     te_hour_text = (\<lambda>h. replicate (nat h + 1) (CHR ''h'')), te_date_text = (\<lambda>d. replicate (nat d + 1) (CHR ''d'')),
     te_append_fails = (\<lambda>_ _. False), te_truncate_fails = (\<lambda>_. False)\<rparr>"

definition demo_call :: "string \<Rightarrow> (string, json) dict" where
  "demo_call t = [(''timestamp'', JStr t), (''command'', JStr ''run'')]"

definition demo_log :: telemetry_files where
  "demo_log = \<lparr>tf_raw = (\<lambda>k. if k = ''cli_telemetry'' then [Some (JObj (demo_call ''ten past'')), None, Some (JObj (demo_call ''twenty past''))] else []),
     tf_rollup = (\<lambda>_. [])\<rparr>"

definition demo_one_day :: retention_rule where
  "demo_one_day = \<lparr>rp_days = 1, rp_rollup = True\<rparr>"

definition demo_failing :: telemetry_env where
  "demo_failing = demo_times\<lparr>te_append_fails := (\<lambda>_ n. n = 1)\<rparr>"

definition demo_runs :: "(retention_error + nat \<times> nat) \<times> telemetry_files" where
  "demo_runs = apply_source demo_times (day_length + 900000000) ''cli_telemetry'' demo_one_day demo_log"

definition demo_failed :: "(retention_error + nat \<times> nat) \<times> telemetry_files" where
  "demo_failed = apply_source demo_failing (day_length + 900000000) ''cli_telemetry'' demo_one_day demo_log"

lemma demo_stopped: "fst demo_failed = Inl WriteFailed"
  by code_simp

lemma demo_read:
  "collect as_dict (read_lines (tf_raw demo_log ''cli_telemetry'')) = Inr [demo_call ''ten past'', demo_call ''twenty past'']"
  by code_simp

lemma demo_first_run: "fst demo_runs = Inr (2, 1)"
  by code_simp

lemma demo_left: "collect as_dict (read_lines (tf_raw (snd demo_runs) ''cli_telemetry'')) = Inr [demo_call ''twenty past'']"
  by code_simp

lemma demo_rolled: "existing_rollup_keys demo_times (tf_rollup (snd demo_runs) ''cli_telemetry'') =
    Inr [(''h'', ''hourly'', ''run''), (''d'', ''daily'', ''run'')]"
  by code_simp

lemma demo_second_run:
  "fst (apply_source demo_times (day_length + 1800000000) ''cli_telemetry'' demo_one_day (snd demo_runs)) = Inr (0, 1)"
  by code_simp

definition demo_policies :: "(name, retention_rule) dict" where
  "demo_policies = AList.update ''metrics_history'' \<lparr>rp_days = 0, rp_rollup = False\<rparr> DEFAULT_POLICIES"

section \<open>Properties\<close>

text \<open>A rollup that succeeds leaves both buckets of every expired record in the file.\<close>

lemma rollup_expired_buckets:
  assumes "rollup_expired env key (filter P rs) f = (Inr rolled, f1)"
  shows "\<exists>ks. existing_rollup_keys env (tf_rollup f1 key) = Inr ks \<and>
    (\<forall>r \<in> set rs. P r \<longrightarrow>
       (\<forall>g \<in> set GRANULARITIES. \<forall>b k. bucket_of env key g r = Some (b, k) \<longrightarrow> (b, g, k) \<in> set ks))"
proof -
  obtain ks ks' where k: "existing_rollup_keys env (tf_rollup f1 key) = Inr ks'"
    "set ks' = set ks \<union> (\<Union>g \<in> set GRANULARITIES. bucket_ids env key (filter P rs) g)"
    by (rule rollup_expired_spec[OF assms]) blast
  have "(b, g, j) \<in> set ks'" if "r \<in> set rs" "P r" "g \<in> set GRANULARITIES" "bucket_of env key g r = Some (b, j)" for r g b j
    unfolding k(2) bucket_ids_def using that by auto
  then show ?thesis using k(1) by auto
qed

text \<open>C6: What a run on a source whose policy rolls up truncates is in the rollup file.  Let every readable line
  of the log be an object (otherwise the run raises at once).  A run that ends with an error, a failing write included, leaves the log untouched; a run that ends with a count truncated
  exactly the expired records, keeps the others (those without a readable timestamp among them), and
  every expired record has its hourly and its daily bucket in the rollup file.  A policy without rollup,
  which two of the default sources have, truncates the same records and writes no rollup: they are gone.\<close>

theorem truncated_only_after_rollup:
  assumes "apply_source env now key p f = (res, f')" "collect as_dict (read_lines (tf_raw f key)) = Inr rs"
  shows "(case res of
      Inl e \<Rightarrow> tf_raw f' key = tf_raw f key
    | Inr (rolled, truncated) \<Rightarrow>
        truncated = length (filter (is_expired env (cutoff_of now p)) rs) \<and>
        tf_raw f' key = (if truncated = 0 then tf_raw f key
                         else map (Some \<circ> JObj) (filter (\<lambda>r. \<not> is_expired env (cutoff_of now p) r) rs)) \<and>
        (0 < truncated \<longrightarrow> rp_rollup p \<longrightarrow> (\<exists>ks. existing_rollup_keys env (tf_rollup f' key) = Inr ks \<and>
           (\<forall>r \<in> set rs. is_expired env (cutoff_of now p) r \<longrightarrow>
              (\<forall>g \<in> set GRANULARITIES. \<forall>b k. bucket_of env key g r = Some (b, k) \<longrightarrow> (b, g, k) \<in> set ks))))) \<and>
    (\<not> rp_rollup p \<longrightarrow> tf_rollup f' key = tf_rollup f key)"
proof (rule conjI)
  show "\<not> rp_rollup p \<longrightarrow> tf_rollup f' key = tf_rollup f key"
    by (rule apply_source_outcome[OF assms])
  show "case res of
      Inl e \<Rightarrow> tf_raw f' key = tf_raw f key
    | Inr (rolled, truncated) \<Rightarrow>
        truncated = length (filter (is_expired env (cutoff_of now p)) rs) \<and>
        tf_raw f' key = (if truncated = 0 then tf_raw f key
                         else map (Some \<circ> JObj) (filter (\<lambda>r. \<not> is_expired env (cutoff_of now p) r) rs)) \<and>
        (0 < truncated \<longrightarrow> rp_rollup p \<longrightarrow> (\<exists>ks. existing_rollup_keys env (tf_rollup f' key) = Inr ks \<and>
           (\<forall>r \<in> set rs. is_expired env (cutoff_of now p) r \<longrightarrow>
              (\<forall>g \<in> set GRANULARITIES. \<forall>b k. bucket_of env key g r = Some (b, k) \<longrightarrow> (b, g, k) \<in> set ks))))"
  proof (cases res)
    case (Inl e)
    have "tf_raw f' key = tf_raw f key \<or> is_ok res" by (rule apply_source_outcome[OF assms])
    with Inl show ?thesis by simp
  next
    case (Inr n)
    obtain rolled truncated where n: "n = (rolled, truncated)" by (cases n)
    obtain rs' where rs': "collect as_dict (read_lines (tf_raw f key)) = Inr rs'"
      "truncated = length (filter (is_expired env (cutoff_of now p)) rs')"
      "if truncated = 0 then rolled = 0 \<and> f' = f
       else tf_raw f' key = map (Some \<circ> JObj) (filter (\<lambda>r. \<not> is_expired env (cutoff_of now p) r) rs') \<and>
         (\<exists>f1. (if rp_rollup p then rollup_expired env key (filter (is_expired env (cutoff_of now p)) rs') f = (Inr rolled, f1)
                else rolled = 0 \<and> f1 = f) \<and> tf_rollup f' = tf_rollup f1)"
      by (rule apply_source_Inr[OF assms(1)[unfolded Inr n]]) blast
    have eq: "rs' = rs" using rs'(1) assms(2) by simp
    note rs' = rs'(2,3)[unfolded eq]
    have raw: "tf_raw f' key = (if truncated = 0 then tf_raw f key
        else map (Some \<circ> JObj) (filter (\<lambda>r. \<not> is_expired env (cutoff_of now p) r) rs))"
      using rs'(2) by (cases "truncated = 0") simp_all
    have "\<exists>ks. existing_rollup_keys env (tf_rollup f' key) = Inr ks \<and>
           (\<forall>r \<in> set rs. is_expired env (cutoff_of now p) r \<longrightarrow>
              (\<forall>g \<in> set GRANULARITIES. \<forall>b k. bucket_of env key g r = Some (b, k) \<longrightarrow> (b, g, k) \<in> set ks))"
      if t: "0 < truncated" and ru: "rp_rollup p"
      using rollup_expired_buckets rs'(2) t ru by fastforce
    then show ?thesis unfolding Inr n sum.case prod.case using rs'(1) raw by blast
  qed
qed

theorem truncated_only_after_rollup_witness:
  "tf_raw (snd demo_runs) ''cli_telemetry'' = [Some (JObj (demo_call ''twenty past''))] \<and>
    (\<exists>ks. existing_rollup_keys demo_times (tf_rollup (snd demo_runs) ''cli_telemetry'') = Inr ks \<and>
       (''h'', ''hourly'', ''run'') \<in> set ks)"
proof -
  have run: "apply_source demo_times (day_length + 900000000) ''cli_telemetry'' demo_one_day demo_log = (Inr (2, 1), snd demo_runs)"
    by (simp only: demo_first_run[symmetric] demo_runs_def prod.collapse)
  have ten: "is_expired demo_times (cutoff_of (day_length + 900000000) demo_one_day) (demo_call ''ten past'')"
    "\<not> is_expired demo_times (cutoff_of (day_length + 900000000) demo_one_day) (demo_call ''twenty past'')"
    "bucket_of demo_times ''cli_telemetry'' ''hourly'' (demo_call ''ten past'') = Some (''h'', ''run'')" by code_simp+
  show ?thesis
    using truncated_only_after_rollup[OF run demo_read] ten by (auto simp: GRANULARITIES_def demo_one_day_def)
qed

text \<open>C31: The records of a bucket that expire after its first rollup are lost: when the policy rolls up and
  the buckets of all the expired records are in the rollup file already, a run that succeeds rolls up
  nothing, leaves the rollup as it is, and truncates the log to the records that are not expired all the
  same.  This is how every bucket ends that the cutoff of an earlier run went through.\<close>

theorem late_records_of_a_bucket_lost:
  assumes "apply_source env now key p f = (Inr (rolled, truncated), f')" "rp_rollup p"
    and "collect as_dict (read_lines (tf_raw f key)) = Inr rs" "existing_rollup_keys env (tf_rollup f key) = Inr ks"
    and "\<forall>g \<in> set GRANULARITIES. bucket_ids env key (filter (is_expired env (cutoff_of now p)) rs) g \<subseteq> set ks"
  shows "rolled = 0 \<and> truncated = length (filter (is_expired env (cutoff_of now p)) rs) \<and>
    tf_rollup f' key = tf_rollup f key \<and>
    tf_raw f' key = (if truncated = 0 then tf_raw f key
                     else map (Some \<circ> JObj) (filter (\<lambda>r. \<not> is_expired env (cutoff_of now p) r) rs))"
proof -
  obtain rs' where rs': "collect as_dict (read_lines (tf_raw f key)) = Inr rs'"
    "truncated = length (filter (is_expired env (cutoff_of now p)) rs')"
    "if truncated = 0 then rolled = 0 \<and> f' = f
     else tf_raw f' key = map (Some \<circ> JObj) (filter (\<lambda>r. \<not> is_expired env (cutoff_of now p) r) rs') \<and>
       (\<exists>f1. (if rp_rollup p then rollup_expired env key (filter (is_expired env (cutoff_of now p)) rs') f = (Inr rolled, f1)
              else rolled = 0 \<and> f1 = f) \<and> tf_rollup f' = tf_rollup f1)"
    by (rule apply_source_Inr[OF assms(1)]) blast
  have [simp]: "rs' = rs" using rs'(1) assms(3) by simp
  show ?thesis
  proof (cases "truncated = 0")
    case True
    then show ?thesis using rs'(2,3) by simp
  next
    case False
    then obtain f1 where f1: "rollup_expired env key (filter (is_expired env (cutoff_of now p)) rs) f = (Inr rolled, f1)"
      "tf_rollup f' = tf_rollup f1"
      and raw: "tf_raw f' key = map (Some \<circ> JObj) (filter (\<lambda>r. \<not> is_expired env (cutoff_of now p) r) rs)"
      using rs'(3) assms(2) by auto
    have none: "new_rows env key (filter (is_expired env (cutoff_of now p)) rs) (set ks) g = []" if g: "g \<in> set GRANULARITIES" for g
    proof (cases "fold_records env key g (filter (is_expired env (cutoff_of now p)) rs) []")
      case (Inr kvs)
      then have "aggregate env key (filter (is_expired env (cutoff_of now p)) rs) g = Inr (map (rollup_json key g) kvs)"
        by (simp add: aggregate_def)
      from aggregate_rows[OF this] Inr have "row_id g ` set kvs \<subseteq> set ks" using assms(5) g by (metis sum.inject(2))
      then show ?thesis using Inr by (auto simp: new_rows_def filter_empty_conv)
    qed (simp add: new_rows_def)
    then have "all_new_rows env key (filter (is_expired env (cutoff_of now p)) rs) (set ks) = []"
      by (simp add: all_new_rows_def)
    then have "rolled = 0 \<and> tf_rollup f' key = tf_rollup f key"
      using rollup_expired_spec[OF f1(1)] f1(2) assms(4)
      by (metis append_Nil2 length_0_conv list.simps(8) sum.inject(2))
    then show ?thesis using raw rs'(2) False by simp
  qed
qed

theorem late_records_of_a_bucket_lost_witness:
  "(0::nat) = 0 \<and> 1 = length (filter (is_expired demo_times (cutoff_of (day_length + 1800000000) demo_one_day)) [demo_call ''twenty past'']) \<and>
    tf_rollup (snd (apply_source demo_times (day_length + 1800000000) ''cli_telemetry'' demo_one_day (snd demo_runs))) ''cli_telemetry'' =
    tf_rollup (snd demo_runs) ''cli_telemetry'' \<and>
    tf_raw (snd (apply_source demo_times (day_length + 1800000000) ''cli_telemetry'' demo_one_day (snd demo_runs))) ''cli_telemetry'' =
    (if 1 = (0::nat) then tf_raw (snd demo_runs) ''cli_telemetry''
     else map (Some \<circ> JObj) (filter (\<lambda>r. \<not> is_expired demo_times (cutoff_of (day_length + 1800000000) demo_one_day) r) [demo_call ''twenty past'']))"
proof (rule late_records_of_a_bucket_lost[OF _ _ demo_left demo_rolled])
  show "apply_source demo_times (day_length + 1800000000) ''cli_telemetry'' demo_one_day (snd demo_runs) =
      (Inr (0, 1), snd (apply_source demo_times (day_length + 1800000000) ''cli_telemetry'' demo_one_day (snd demo_runs)))"
    by (simp only: demo_second_run[symmetric] prod.collapse)
  have "bucket_of demo_times ''cli_telemetry'' ''hourly'' (demo_call ''twenty past'') = Some (''h'', ''run'')"
    "bucket_of demo_times ''cli_telemetry'' ''daily'' (demo_call ''twenty past'') = Some (''d'', ''run'')" by code_simp+
  then show "\<forall>g \<in> set GRANULARITIES. bucket_ids demo_times ''cli_telemetry''
      (filter (is_expired demo_times (cutoff_of (day_length + 1800000000) demo_one_day)) [demo_call ''twenty past'']) g
      \<subseteq> set [(''h'', ''hourly'', ''run''), (''d'', ''daily'', ''run'')]"
    by (auto simp: GRANULARITIES_def bucket_ids_def)
qed (simp add: demo_one_day_def)

text \<open>C32: The first rollup accounts for everything: a run that succeeds, under a policy that rolls up and with
  an empty rollup file, leaves hourly rows, and daily rows, whose counts add up to the number of records
  it truncated.  The source must not be the metrics history, whose snapshots may write over the count.\<close>

theorem rollup_counts_expired:
  assumes "apply_source env now key p f = (Inr (rolled, truncated), f')" "rp_rollup p" "tf_rollup f key = []"
    and "key \<noteq> ''metrics_history''" "g \<in> set GRANULARITIES"
  shows "rollup_total g (tf_rollup f' key) = of_nat truncated"
proof -
  obtain rs where rs: "truncated = length (filter (is_expired env (cutoff_of now p)) rs)"
    "if truncated = 0 then rolled = 0 \<and> f' = f
     else tf_raw f' key = map (Some \<circ> JObj) (filter (\<lambda>r. \<not> is_expired env (cutoff_of now p) r) rs) \<and>
       (\<exists>f1. (if rp_rollup p then rollup_expired env key (filter (is_expired env (cutoff_of now p)) rs) f = (Inr rolled, f1)
              else rolled = 0 \<and> f1 = f) \<and> tf_rollup f' = tf_rollup f1)"
    by (rule apply_source_Inr[OF assms(1)]) blast
  let ?exp = "filter (is_expired env (cutoff_of now p)) rs"
  show ?thesis
  proof (cases "truncated = 0")
    case True
    then show ?thesis using rs(2) assms(3) by (simp add: rollup_total_def read_lines_def map_filter_simps)
  next
    case False
    then obtain f1 where f1: "rollup_expired env key ?exp f = (Inr rolled, f1)" "tf_rollup f' = tf_rollup f1"
      using rs(2) assms(2) by auto
    have "existing_rollup_keys env (tf_rollup f key) = Inr []"
      using assms(3) by (simp add: existing_rollup_keys_def read_lines_def map_filter_simps)
    then have roll: "tf_rollup f' key = map Some (all_new_rows env key ?exp {})"
      using rollup_expired_spec[OF f1(1)] f1(2) assms(3) by (metis append_Nil list.set(1) sum.inject(2))
    have fold: "\<exists>kvs. fold_records env key h ?exp [] = Inr kvs" if "h \<in> set GRANULARITIES" for h
      using f1(1) that assms(3)
      by (auto simp: rollup_expired_def GRANULARITIES_def aggregate_def ebind_Inr split: sum.splits prod.splits)
    have "rollup_total g (tf_rollup f' key) =
        sum_list (map (\<lambda>h. sum_list (map (\<lambda>kv. if h = g then dget 0 (snd kv) ''samples'' else 0) (new_rows env key ?exp {} h))) GRANULARITIES)"
      unfolding roll rollup_total_def read_lines_Some all_new_rows_def
      by (simp add: GRANULARITIES_def rollup_count_json comp_def)
    also have "\<dots> = sum_list (map (\<lambda>kv. dget 0 (snd kv) ''samples'') (new_rows env key ?exp {} g))"
      using assms(5) by (auto simp: GRANULARITIES_def)
    also have "\<dots> = of_nat (length (filter (\<lambda>r. bucket_of env key g r \<noteq> None) ?exp))"
    proof -
      obtain kvs where k: "fold_records env key g ?exp [] = Inr kvs" using fold[OF assms(5)] by blast
      show ?thesis using fold_records_total[OF k assms(4)] k by (simp add: new_rows_def comp_def)
    qed
    also have "filter (\<lambda>r. bucket_of env key g r \<noteq> None) ?exp = ?exp"
      by (rule filter_True) (auto simp: is_expired_def bucket_of_def split: option.splits)
    finally show ?thesis using rs(1) by simp
  qed
qed

theorem rollup_counts_expired_witness:
  "rollup_total ''hourly'' (tf_rollup (snd demo_runs) ''cli_telemetry'') = of_nat 1"
proof (rule rollup_counts_expired)
  show "apply_source demo_times (day_length + 900000000) ''cli_telemetry'' demo_one_day demo_log = (Inr (2, 1), snd demo_runs)"
    by (simp only: demo_first_run[symmetric] demo_runs_def prod.collapse)
qed (simp_all add: demo_one_day_def demo_log_def GRANULARITIES_def)

lemma retention_resumed:
  assumes "apply_source env now key p f = (res, f1)" "apply_source (clean env) now key p f = (Inr n, f2)"
  shows "\<exists>n' f3. apply_source (clean env) now key p f1 = (Inr n', f3) \<and>
    tf_raw f3 key = tf_raw f2 key \<and> tf_rollup f3 key = tf_rollup f2 key"
proof -
  obtain rs where rs: "collect as_dict (read_lines (tf_raw f key)) = Inr rs"
    using assms(2) by (cases "collect as_dict (read_lines (tf_raw f key))") (auto simp: apply_source_def)
  let ?exp = "filter (is_expired env (cutoff_of now p)) rs"
  let ?kept = "filter (\<lambda>r. \<not> is_expired env (cutoff_of now p) r) rs"
  show ?thesis
  proof (cases "?exp = []")
    case True
    then show ?thesis using assms rs by (auto simp: apply_source_def Let_def)
  next
    case expired: False
    obtain n2 g2 where run2: "(if rp_rollup p then rollup_expired (clean env) key ?exp f else (Inr 0, f)) = (Inr n2, g2)"
      "tf_raw f2 key = map (Some \<circ> JObj) ?kept" "tf_rollup f2 = tf_rollup g2"
      by (rule apply_source_expired[OF assms(2) _ _ expired]) (use rs in simp_all)
    show ?thesis
    proof (cases res)
      case (Inr n1)
      obtain n1 g1 where run1: "(if rp_rollup p then rollup_expired env key ?exp f else (Inr 0, f)) = (Inr n1, g1)"
        "tf_raw f1 key = map (Some \<circ> JObj) ?kept" "tf_rollup f1 = tf_rollup g1"
        by (rule apply_source_expired[OF assms(1)[unfolded Inr] rs refl expired])
      have "tf_rollup g1 key = tf_rollup g2 key"
        using run1(1) run2(1) rollup_expired_same[of env key ?exp f n1 g1 n2 g2] by (auto split: if_splits)
      then show ?thesis using run1(2,3) run2(2,3) apply_source_idle[OF run1(2)] by auto
    next
      case (Inl e)
      obtain m where m: "tf_raw f1 key = tf_raw f key" "\<not> rp_rollup p \<longrightarrow> tf_rollup f1 key = tf_rollup f key"
        "tf_rollup f1 key = tf_rollup f key @ map Some (map (tag_json key) (take m (case existing_rollup_keys env (tf_rollup f key) of
           Inl _ \<Rightarrow> [] | Inr ks \<Rightarrow> tagged_rows env key ?exp (set ks) GRANULARITIES)))"
        by (rule apply_source_outcome[OF assms(1) rs]) (use Inl in simp)
      have "\<exists>k g. (if rp_rollup p then rollup_expired (clean env) key ?exp f1 else (Inr 0, f1)) = (Inr k, g) \<and> tf_rollup g key = tf_rollup g2 key"
      proof (cases "rp_rollup p")
        case True
        then have r: "rollup_expired (clean env) key ?exp f = (Inr n2, g2)" using run2(1) by simp
        obtain ks where ks: "existing_rollup_keys env (tf_rollup f key) = Inr ks"
          by (rule rollup_expired_spec[OF r]) simp
        show ?thesis by (rule rollup_expired_resumes[OF r ks m(3)[unfolded ks sum.case]]) (use True in auto)
      next
        case False
        then show ?thesis using run2(1) m(2) by auto
      qed
      then obtain k g where g: "(if rp_rollup p then rollup_expired (clean env) key ?exp f1 else (Inr 0, f1)) = (Inr k, g)"
        "tf_rollup g key = tf_rollup g2 key" by blast
      have "collect as_dict (read_lines (tf_raw f1 key)) = Inr rs" using m(1) rs by simp
      from apply_source_clean[OF this refl expired g(1)] show ?thesis using g(2) run2(2,3) by simp
    qed
  qed
qed

text \<open>C7: A run can be repeated after a failure: when a run on a source stopped at any write - after some of
  the rollup rows, or between the rollup and the truncation - or ended, and a single run without failures
  would have succeeded, then one more run without failures succeeds and leaves the log and the rollup of
  the source as the single run leaves them, so nothing is counted twice.  The second run may be later as
  long as the same records of the log are expired by then; when more of them are, it rolls up and
  truncates those as well.\<close>

theorem retention_repeated_after_failure:
  assumes "apply_source env now key p f = (res, f1)" "apply_source (clean env) now key p f = (Inr n, f2)"
    and "\<forall>r. JObj r \<in> set (read_lines (tf_raw f key)) \<longrightarrow>
           is_expired env (cutoff_of later p) r = is_expired env (cutoff_of now p) r"
  shows "\<exists>n' f3. apply_source (clean env) later key p f1 = (Inr n', f3) \<and>
    tf_raw f3 key = tf_raw f2 key \<and> tf_rollup f3 key = tf_rollup f2 key"
proof -
  obtain rs where rs: "collect as_dict (read_lines (tf_raw f key)) = Inr rs"
    using assms(2) by (cases "collect as_dict (read_lines (tf_raw f key))") (auto simp: apply_source_def)
  obtain rs' where rs': "collect as_dict (read_lines (tf_raw f1 key)) = Inr rs'" "set rs' \<subseteq> set rs"
    using apply_source_leaves[OF assms(1) rs] by blast
  have "\<forall>r \<in> set rs. is_expired env (cutoff_of later p) r = is_expired env (cutoff_of now p) r"
    using assms(3) collect_as_dict_Inr[OF rs] by auto
  then have "apply_source (clean env) later key p f1 = apply_source (clean env) now key p f1"
    using rs'(2) by (intro apply_source_clock[OF rs'(1)]) auto
  then show ?thesis using retention_resumed[OF assms(1,2)] by simp
qed

theorem retention_repeated_after_failure_witness:
  "\<exists>n' f3. apply_source (clean demo_failing) (day_length + 1000000000) ''cli_telemetry'' demo_one_day (snd demo_failed) = (Inr n', f3) \<and>
    tf_raw f3 ''cli_telemetry'' = tf_raw (snd demo_runs) ''cli_telemetry'' \<and>
    tf_rollup f3 ''cli_telemetry'' = tf_rollup (snd demo_runs) ''cli_telemetry''"
proof (rule retention_repeated_after_failure)
  show "apply_source demo_failing (day_length + 900000000) ''cli_telemetry'' demo_one_day demo_log = (Inl WriteFailed, snd demo_failed)"
    by (simp only: demo_stopped[symmetric] demo_failed_def prod.collapse)
  have "clean demo_failing = demo_times" by (simp add: failing_def demo_failing_def demo_times_def)
  then show "apply_source (clean demo_failing) (day_length + 900000000) ''cli_telemetry'' demo_one_day demo_log = (Inr (2, 1), snd demo_runs)"
    by (simp only: demo_first_run[symmetric] demo_runs_def prod.collapse)
  have "is_expired demo_failing (cutoff_of (day_length + 1000000000) demo_one_day) (demo_call ''ten past'')"
    "is_expired demo_failing (cutoff_of (day_length + 900000000) demo_one_day) (demo_call ''ten past'')"
    "\<not> is_expired demo_failing (cutoff_of (day_length + 1000000000) demo_one_day) (demo_call ''twenty past'')"
    "\<not> is_expired demo_failing (cutoff_of (day_length + 900000000) demo_one_day) (demo_call ''twenty past'')" by code_simp+
  then show "\<forall>r. JObj r \<in> set (read_lines (tf_raw demo_log ''cli_telemetry'')) \<longrightarrow>
      is_expired demo_failing (cutoff_of (day_length + 1000000000) demo_one_day) r =
      is_expired demo_failing (cutoff_of (day_length + 900000000) demo_one_day) r"
    using collect_as_dict_Inr[OF demo_read] by auto
qed

text \<open>C33: The policies of a configuration are well formed whatever it says: when it loads, every telemetry source has
  one policy, in the order of the defaults, and the number of days is not negative - so no run truncates
  a record that is dated now or later.\<close>

theorem loaded_policies_ok:
  assumes "load_policies retention = Inr ps"
  shows "keys ps = telemetry_sources \<and>
    (\<forall>k p. map_of ps k = Some p \<longrightarrow> 0 \<le> rp_days p \<and>
       (\<forall>env now r t. parse_ts env r = Some t \<longrightarrow> now \<le> t \<longrightarrow> \<not> is_expired env (cutoff_of now p) r))"
proof -
  have merge: "keys ps' = keys ps0 \<and> (\<forall>k p. map_of ps' k = Some p \<longrightarrow> 0 \<le> rp_days p)"
    if "merge_policies d ps0 = Inr ps'" "\<forall>k p. map_of ps0 k = Some p \<longrightarrow> 0 \<le> rp_days p" for d ps0 ps'
    using that
  proof (induction d arbitrary: ps0)
    case (Cons kv d)
    obtain k spec where kv: "kv = (k, spec)" by (cases kv)
    show ?case
    proof (cases "\<exists>p sp. map_of ps0 k = Some p \<and> spec = JObj sp")
      case True
      then obtain p sp x where p: "map_of ps0 k = Some p" "spec = JObj sp"
        "merge_policies d (AList.update k \<lparr>rp_days = max 0 x, rp_rollup = truthy (get_or (JBool (rp_rollup p)) ''rollup'' sp)\<rparr> ps0) = Inr ps'"
        using Cons.prems(1) kv by (auto simp: ebind_Inr)
      let ?q = "\<lparr>rp_days = max 0 x, rp_rollup = truthy (get_or (JBool (rp_rollup p)) ''rollup'' sp)\<rparr>"
      have q: "\<forall>j r. map_of (AList.update k ?q ps0) j = Some r \<longrightarrow> 0 \<le> rp_days r"
        using Cons.prems(2) by (simp add: update_conv')
      have "k \<in> set (map fst ps0)" using map_of_SomeD[OF p(1)] by force
      then have "keys (AList.update k ?q ps0) = keys ps0" by (simp only: update_keys if_True)
      then show ?thesis using Cons.IH[OF p(3) q] by simp
    next
      case False
      then have "merge_policies d ps0 = Inr ps'"
        using Cons.prems(1) kv by (cases "map_of ps0 k"; cases spec) auto
      then show ?thesis using Cons.IH Cons.prems(2) by blast
    qed
  qed simp
  obtain d where d: "merge_policies d DEFAULT_POLICIES = Inr ps" using assms by (auto simp: load_policies_def ebind_Inr)
  have positive: "\<forall>k p. map_of DEFAULT_POLICIES k = Some p \<longrightarrow> 0 \<le> rp_days p" by (simp add: DEFAULT_POLICIES_def)
  have names: "keys DEFAULT_POLICIES = telemetry_sources" by (simp add: DEFAULT_POLICIES_def telemetry_sources_def)
  have ok: "keys ps = telemetry_sources" "\<forall>k p. map_of ps k = Some p \<longrightarrow> 0 \<le> rp_days p"
    using merge[OF d positive] names by simp_all
  have "\<not> is_expired env (cutoff_of now p) r" if "0 \<le> rp_days p" "parse_ts env r = Some t" "now \<le> t" for env now r t p
    using that mult_nonneg_nonneg[of "rp_days p" day_length]
    by (simp add: is_expired_def cutoff_of_def day_length_def hour_length_def)
  then show ?thesis using ok by blast
qed

theorem loaded_policies_ok_witness:
  "keys demo_policies = telemetry_sources \<and>
    \<not> is_expired demo_times (cutoff_of 600000000 \<lparr>rp_days = 0, rp_rollup = False\<rparr>) (demo_call ''ten past'')"
proof -
  have "load_policies (JObj [(''metrics_history'', JObj [(''days'', JNum (- 3)), (''rollup'', JBool False)]), (''unknown'', JNull)]) =
      Inr demo_policies" by code_simp
  from loaded_policies_ok[OF this] have ok: "keys demo_policies = telemetry_sources"
    "\<forall>k p. map_of demo_policies k = Some p \<longrightarrow> 0 \<le> rp_days p \<and>
       (\<forall>env now r t. parse_ts env r = Some t \<longrightarrow> now \<le> t \<longrightarrow> \<not> is_expired env (cutoff_of now p) r)" by blast+
  have "map_of demo_policies ''metrics_history'' = Some \<lparr>rp_days = 0, rp_rollup = False\<rparr>"
    "parse_ts demo_times (demo_call ''ten past'') = Some 600000000" by code_simp+
  with ok show ?thesis by blast
qed

end
