(* ===== verification/GenPlan.thy ===== *)
theory GenPlan
  imports GraphOrder PyValue "HOL-Library.Multiset"
begin

text \<open>
  Generation plans (\<^verbatim>\<open>generator/planner.py\<close>): tasks with dependencies, the execution order, the order that
  is meant to follow priorities, the validation, and the plan made from a registry.
\<close>

record gen_task =
  gt_task_type :: string
  gt_name :: string
  gt_dependencies :: "name list"
  gt_priority :: json
  gt_metadata :: "(string, json) dict"

definition gen_task_id :: "gen_task \<Rightarrow> name" where
  "gen_task_id t = gt_task_type t @ CHR '':'' # gt_name t"

text \<open>The errors of the generator: the value errors with the tasks they name, and the errors of lookups.\<close>

datatype gen_error =
  GenCycle "name list"
| GenUnresolved "name list"
| GenTaskNotFound name
| GenKeyError name
| GenIndexError
| GenTypeError

record generation_plan =
  gp_tasks :: "(name, gen_task) dict"
  gp_execution_order :: "name list"
  gp_dry_run :: bool
  gp_incremental :: bool

definition new_generation_plan :: generation_plan where
  "new_generation_plan = \<lparr>gp_tasks = [], gp_execution_order = [], gp_dry_run = False, gp_incremental = False\<rparr>"

definition plan_add_task ::
  "string \<Rightarrow> string \<Rightarrow> name list \<Rightarrow> json \<Rightarrow> (string, json) dict \<Rightarrow> generation_plan \<Rightarrow> name \<times> generation_plan"
where
  "plan_add_task task_type nm deps priority metadata p =
     (let t = \<lparr>gt_task_type = task_type, gt_name = nm, gt_dependencies = deps, gt_priority = priority, gt_metadata = metadata\<rparr>;
          i = task_type @ CHR '':'' # nm
      in (i, p\<lparr>gp_tasks := AList.update i t (gp_tasks p)\<rparr>))"

definition plan_get_task :: "name \<Rightarrow> generation_plan \<Rightarrow> gen_task option" where
  "plan_get_task i p = map_of (gp_tasks p) i"

definition plan_add_dependency :: "name \<Rightarrow> name \<Rightarrow> generation_plan \<Rightarrow> generation_plan" where
  "plan_add_dependency i d p =
     (case (map_of (gp_tasks p) i, map_of (gp_tasks p) d) of
        (Some t, Some _) \<Rightarrow>
          if d \<in> set (gt_dependencies t) then p
          else p\<lparr>gp_tasks := AList.update i (t\<lparr>gt_dependencies := gt_dependencies t @ [d]\<rparr>) (gp_tasks p)\<rparr>
      | _ \<Rightarrow> p)"

section \<open>The execution order\<close>

text \<open>The dependencies that are tasks of the plan; \<^verbatim>\<open>adj_list\<close> and \<^verbatim>\<open>in_degree\<close> count these.\<close>

definition present_deps :: "(name, gen_task) dict \<Rightarrow> name \<Rightarrow> name list" where
  "present_deps ts i =
     (case map_of ts i of None \<Rightarrow> [] | Some t \<Rightarrow> filter (\<lambda>d. d \<in> set (keys ts)) (gt_dependencies t))"

definition adj_list :: "(name, gen_task) dict \<Rightarrow> name \<Rightarrow> name list" where
  "adj_list ts d = concat (map (\<lambda>(i, t). map (\<lambda>_. i) (filter (\<lambda>x. x = d) (gt_dependencies t))) ts)"

definition generate_execution_order :: "generation_plan \<Rightarrow> (gen_error + name list) option \<times> generation_plan" where
  "generate_execution_order p =
     (let ts = gp_tasks p;
          in_degree = (\<lambda>i. int (length (present_deps ts i)))
      in if ts = [] then (Some (Inr []), p)
         else case kahn_loop (length ts) (adj_list ts) in_degree (filter (\<lambda>i. in_degree i = 0) (keys ts)) [] of
                None \<Rightarrow> (None, p)
              | Some order \<Rightarrow>
                  if length order \<noteq> length ts
                  then (Some (Inl (GenUnresolved (filter (\<lambda>i. i \<notin> set order) (keys ts)))), p)
                  else (Some (Inr order), p\<lparr>gp_execution_order := order\<rparr>))"

section \<open>The order by levels\<close>

text \<open>
  \<^verbatim>\<open>sort_tasks_by_priority_and_dependencies\<close>.  The sorted list of tasks is not used after it is made, but
  making it negates the priorities.  A task is put on its level after its dependencies; the list of levels
  grows by at most one level for it.
\<close>

definition place_task :: "nat \<Rightarrow> name \<Rightarrow> name list list \<Rightarrow> gen_error + name list list" where
  "place_task level i levels =
     (let ls = (if length levels \<le> level then levels @ [[]] else levels)
      in if level < length ls then Inr (ls[level := ls ! level @ [i]]) else Inl GenIndexError)"

primrec level_visit ::
  "nat \<Rightarrow> (name, gen_task) dict \<Rightarrow> nat \<Rightarrow> name \<Rightarrow> name list \<times> name list list \<Rightarrow> (gen_error + name list \<times> name list list) option"
where
  "level_visit 0 ts level i s = None"
| "level_visit (Suc fuel) ts level i s =
     (case s of (visited, levels) \<Rightarrow>
        if i \<in> set visited then Some (Inr s)
        else obind (visit_seq (level_visit fuel ts (level + 1)) (present_deps ts i) (i # visited, levels))
               (\<lambda>(visited1, levels1). Some (ebind (place_task level i levels1) (\<lambda>ls. Inr (visited1, ls)))))"

definition sort_tasks_by_priority_and_dependencies ::
  "generation_plan \<Rightarrow> (gen_error + name list) option \<times> generation_plan"
where
  "sort_tasks_by_priority_and_dependencies p =
     (let ts = gp_tasks p
      in if \<exists>t \<in> set (map snd ts). number_of (gt_priority t) = None then (Some (Inl GenTypeError), p)
         else case visit_seq (level_visit (Suc (length ts)) ts 0) (keys ts) ([], []) of
                None \<Rightarrow> (None, p)
              | Some (Inl e) \<Rightarrow> (Some (Inl e), p)
              | Some (Inr (visited, levels)) \<Rightarrow>
                  let order = concat (rev levels) in (Some (Inr order), p\<lparr>gp_execution_order := order\<rparr>))"

section \<open>Validation\<close>

text \<open>The plan with a missing dependency of a task, or an order of another length; keys cannot repeat.\<close>

datatype plan_issue = MissingDependency name name | DuplicateIds | OrderMismatch

definition plan_validate :: "generation_plan \<Rightarrow> plan_issue list" where
  "plan_validate p =
     concat (map (\<lambda>(i, t). map (MissingDependency i) (filter (\<lambda>d. d \<notin> set (keys (gp_tasks p))) (gt_dependencies t))) (gp_tasks p)) @
     (if distinct (keys (gp_tasks p)) then [] else [DuplicateIds]) @
     (if gp_execution_order p \<noteq> [] \<and> length (gp_execution_order p) \<noteq> length (gp_tasks p) then [OrderMismatch] else [])"

section \<open>The planner\<close>

text \<open>A registry lists the names of its executives and specialists, a manifest those of its departments.\<close>

definition name_or_unknown :: "string option \<Rightarrow> string" where
  "name_or_unknown n = (case n of None \<Rightarrow> ''unknown'' | Some s \<Rightarrow> if s = [] then ''unknown'' else s)"

definition add_template_tasks :: "string \<Rightarrow> int \<Rightarrow> string list \<Rightarrow> generation_plan \<Rightarrow> generation_plan" where
  "add_template_tasks task_type priority ns p =
     fold (\<lambda>n p. snd (plan_add_task task_type n [] (JNum (of_int priority)) [(''template'', JStr task_type)] p)) ns p"

definition create_plan ::
  "bool \<Rightarrow> bool \<Rightarrow> (string option list \<times> string option list) option \<Rightarrow> string list \<Rightarrow> (gen_error + generation_plan) option"
where
  "create_plan dry_run incremental registry departments =
     (let p = new_generation_plan\<lparr>gp_dry_run := dry_run, gp_incremental := incremental\<rparr>
      in case registry of
           None \<Rightarrow> Some (Inr p)
         | Some (executives, specialists) \<Rightarrow>
             (case generate_execution_order
                     (add_template_tasks ''department'' 5 departments
                       (add_template_tasks ''specialist'' 8 (map name_or_unknown specialists)
                         (add_template_tasks ''executive'' 10 (map name_or_unknown executives) p))) of
                (None, _) \<Rightarrow> None
              | (Some (Inl e), _) \<Rightarrow> Some (Inl e)
              | (Some (Inr _), p1) \<Rightarrow> Some (Inr p1)))"

definition estimate_task_duration :: "gen_task \<Rightarrow> gen_error + rat" where
  "estimate_task_duration t =
     (case number_of (dget (JNum 1) (gt_metadata t) ''complexity'') of
        None \<Rightarrow> Inl GenTypeError
      | Some c \<Rightarrow>
          Inr ((if gt_task_type t = ''executive'' then 2 else if gt_task_type t = ''specialist'' then 3 / 2 else 1) * c))"

section \<open>Lemmas\<close>

lemma present_deps_keys: "set (present_deps ts i) \<subseteq> set (keys ts)"
  by (auto simp: present_deps_def split: option.split)

lemma adj_list_keys: "set (adj_list ts d) \<subseteq> set (keys ts)"
  by (force simp: adj_list_def)

lemma count_map_const: "count_list (map (\<lambda>_. i) xs) n = (if n = i then length xs else 0)"
  by (induction xs) auto

lemma count_adj_list:
  assumes "dict_ok ts" "d \<in> set (keys ts)"
  shows "count_list (adj_list ts d) n = count_list (present_deps ts n) d"
proof -
  have one: "count_list (concat (map (\<lambda>(i, t). map (\<lambda>_. i) (filter (\<lambda>x. x = d) (gt_dependencies t))) us)) n =
      (case map_of us n of None \<Rightarrow> 0 | Some t \<Rightarrow> count_list (gt_dependencies t) d)" if "dict_ok us" for us :: "(name, gen_task) dict"
    using that
  proof (induction us)
    case (Cons u us)
    obtain i t where u: "u = (i, t)" by (cases u)
    have "length (filter (\<lambda>x. x = d) xs) = count_list xs d" for xs :: "name list" by (induction xs) auto
    moreover have "map_of us n = None" if "n = i" using Cons.prems u that by (simp add: map_of_eq_None_iff)
    ultimately show ?case using Cons u by (auto simp: count_map_const)
  qed simp
  have "count_list (filter (\<lambda>x. x \<in> set (keys ts)) xs) d = count_list xs d" for xs :: "name list"
    using assms(2) by (induction xs) auto
  then show ?thesis
    using one[OF assms(1)] by (simp add: adj_list_def present_deps_def split: option.split)
qed

interpretation gp: dep_graph "\<lambda>ts. keys ts" present_deps adj_list dict_ok
  by unfold_locales (use adj_list_keys present_deps_keys count_adj_list in auto)

lemma place_task_Inr:
  assumes "place_task level i ls = Inr ls'"
  shows "mset (concat ls') = mset (concat ls) + {#i#}"
proof -
  define xs where "xs = (if length ls \<le> level then ls @ [[]] else ls)"
  have l: "level < length xs" "ls' = xs[level := xs ! level @ [i]]"
    using assms by (auto simp: place_task_def Let_def xs_def split: if_splits)
  have "mset (concat (xs[level := xs ! level @ [i]])) = mset (concat xs) + {#i#}"
    using l(1) by (simp add: upd_conv_take_nth_drop id_take_nth_drop[of level xs, THEN arg_cong[where f = "mset \<circ> concat"], simplified] add_ac)
  moreover have "concat xs = concat ls" by (simp add: xs_def)
  ultimately show ?thesis using l(2) by simp
qed

text \<open>A visit ends, keeps what is placed and places what it visits.\<close>

definition level_pre :: "(name, gen_task) dict \<Rightarrow> name list \<Rightarrow> name list \<times> name list list \<Rightarrow> bool" where
  "level_pre ts ns s \<longleftrightarrow> set ns \<subseteq> set (keys ts) \<and> set (fst s) \<subseteq> set (keys ts) \<and> distinct (fst s)"

definition level_post ::
  "(name, gen_task) dict \<Rightarrow> name list \<Rightarrow> name list \<times> name list list \<Rightarrow> (gen_error + name list \<times> name list list) option \<Rightarrow> bool"
where
  "level_post ts ns s r \<longleftrightarrow>
     (r = Some (Inl GenIndexError) \<or>
      (\<exists>s1 new. r = Some (Inr s1) \<and> fst s1 = new @ fst s \<and> level_pre ts ns s1 \<and> set ns \<subseteq> set (fst s1) \<and>
         mset (concat (snd s1)) = mset (concat (snd s)) + mset new))"

lemma level_seq_ok:
  assumes "\<And>n s. level_pre ts [n] s \<Longrightarrow> unseen (set (keys ts)) s < fuel \<Longrightarrow> level_post ts [n] s (f n s)"
  shows "level_pre ts ns s \<Longrightarrow> unseen (set (keys ts)) s < fuel \<Longrightarrow> level_post ts ns s (visit_seq f ns s)"
proof (induction ns arbitrary: s)
  case Nil
  then show ?case by (force simp: level_post_def level_pre_def)
next
  case (Cons n ns)
  have "level_pre ts [n] s" using Cons.prems(1) by (simp add: level_pre_def)
  from assms[OF this Cons.prems(2)] consider "f n s = Some (Inl GenIndexError)"
    | s1 new where "f n s = Some (Inr s1)" "fst s1 = new @ fst s" "level_pre ts [n] s1" "n \<in> set (fst s1)"
        "mset (concat (snd s1)) = mset (concat (snd s)) + mset new"
    by (auto simp: level_post_def)
  then show ?case
  proof cases
    case 1
    then show ?thesis by (simp add: level_post_def)
  next
    case 2
    have "level_pre ts ns s1" using Cons.prems(1) 2(3) by (simp add: level_pre_def)
    moreover have "unseen (set (keys ts)) s1 \<le> unseen (set (keys ts)) s"
      unfolding unseen_def using 2(2) by (intro card_mono) auto
    ultimately have "level_post ts ns s1 (visit_seq f ns s1)" using Cons.IH Cons.prems(2) by simp
    then consider "visit_seq f ns s1 = Some (Inl GenIndexError)"
      | s2 new2 where "visit_seq f ns s1 = Some (Inr s2)" "fst s2 = new2 @ fst s1" "level_pre ts ns s2" "set ns \<subseteq> set (fst s2)"
          "mset (concat (snd s2)) = mset (concat (snd s1)) + mset new2"
      by (auto simp: level_post_def)
    then show ?thesis
    proof cases
      case 1
      then show ?thesis using 2(1) by (simp add: level_post_def)
    next
      case s2: 2
      have "level_pre ts (n # ns) s2" "set (n # ns) \<subseteq> set (fst s2)" "fst s2 = (new2 @ new) @ fst s"
        using s2 2 Cons.prems(1) by (auto simp: level_pre_def)
      moreover have "mset (concat (snd s2)) = mset (concat (snd s)) + mset (new2 @ new)" using s2(5) 2(5) by simp
      ultimately show ?thesis using s2(1) 2(1) unfolding level_post_def by (metis obind.simps(3) visit_seq.simps(2))
    qed
  qed
qed

lemma level_visit_ok:
  "level_pre ts [i] s \<Longrightarrow> unseen (set (keys ts)) s < fuel \<Longrightarrow> level_post ts [i] s (level_visit fuel ts level i s)"
proof (induction fuel arbitrary: level i s)
  case (Suc fuel)
  obtain visited levels where s: "s = (visited, levels)" by (cases s)
  show ?case
  proof (cases "i \<in> set visited")
    case True
    then show ?thesis using Suc.prems(1) by (auto simp: s level_post_def level_pre_def)
  next
    case False
    let ?s = "(i # visited, levels)"
    have "level_pre ts (present_deps ts i) ?s"
      using Suc.prems(1) False present_deps_keys by (auto simp: s level_pre_def)
    moreover have "unseen (set (keys ts)) ?s < unseen (set (keys ts)) s"
      unfolding unseen_def s using False Suc.prems(1) by (intro psubset_card_mono) (auto simp: s level_pre_def)
    then have "unseen (set (keys ts)) ?s < fuel" using Suc.prems(2) by simp
    ultimately have "level_post ts (present_deps ts i) ?s (visit_seq (level_visit fuel ts (level + 1)) (present_deps ts i) ?s)"
      using level_seq_ok[where f = "level_visit fuel ts (level + 1)", OF Suc.IH] by blast
    then consider "visit_seq (level_visit fuel ts (level + 1)) (present_deps ts i) ?s = Some (Inl GenIndexError)"
      | v1 l1 new where "visit_seq (level_visit fuel ts (level + 1)) (present_deps ts i) ?s = Some (Inr (v1, l1))"
          "v1 = new @ i # visited" "set v1 \<subseteq> set (keys ts)" "distinct v1" "mset (concat l1) = mset (concat levels) + mset new"
      by (auto simp: level_post_def level_pre_def)
    then show ?thesis
    proof cases
      case 1
      then show ?thesis using False by (simp add: s level_post_def)
    next
      case 2
      show ?thesis
      proof (cases "place_task level i l1")
        case (Inl e)
        then have "e = GenIndexError" by (auto simp: place_task_def Let_def split: if_splits)
        then show ?thesis using 2(1) False Inl by (simp add: s level_post_def)
      next
        case (Inr ls)
        have "mset (concat ls) = mset (concat levels) + mset (new @ [i])"
          using place_task_Inr[OF Inr] 2(5) by simp
        moreover have "level_visit (Suc fuel) ts level i s = Some (Inr (v1, ls))" using 2(1) False Inr by (simp add: s)
        moreover have "v1 = (new @ [i]) @ visited" "level_pre ts [i] (v1, ls)" using 2(2-4) by (auto simp: level_pre_def)
        ultimately show ?thesis unfolding level_post_def s by (intro disjI2 exI[of _ "(v1, ls)"] exI[of _ "new @ [i]"]) auto
      qed
    qed
  qed
qed simp

text \<open>On a level above the first, nothing can be placed before something is on the levels below.\<close>

lemma level_visit_raises:
  "level_pre ts ns (visited, [] :: name list list) \<Longrightarrow> unseen (set (keys ts)) (visited, [] :: name list list) < fuel \<Longrightarrow>
   visit_seq (level_visit fuel ts (Suc level)) ns (visited, []) =
     Some (if set ns \<subseteq> set visited then Inr (visited, []) else Inl GenIndexError)"
proof (induction fuel arbitrary: level ns visited)
  case (Suc fuel)
  have one: "level_visit (Suc fuel) ts (Suc level) n (visited, []) = Some (Inl GenIndexError)"
    if n: "n \<in> set ns" "n \<notin> set visited" for n
  proof -
    have pre: "level_pre ts (present_deps ts n) (n # visited, [] :: name list list)"
      using Suc.prems(1) n present_deps_keys by (auto simp: level_pre_def)
    have "unseen (set (keys ts)) (n # visited, [] :: name list list) < unseen (set (keys ts)) (visited, [] :: name list list)"
      unfolding unseen_def using n Suc.prems(1) by (intro psubset_card_mono) (auto simp: level_pre_def)
    with Suc.IH[OF pre] Suc.prems(2)
    have "visit_seq (level_visit fuel ts (Suc (Suc level))) (present_deps ts n) (n # visited, []) =
        Some (if set (present_deps ts n) \<subseteq> set (n # visited) then Inr (n # visited, []) else Inl GenIndexError)"
      by simp
    then show ?thesis using n(2) by (simp add: place_task_def)
  qed
  then show ?case
  proof (induction ns)
    case (Cons n ns)
    then show ?case by (cases "n \<in> set visited") auto
  qed simp
qed simp

section \<open>A concrete plan\<close>

text \<open>A task with a dependency that is a later task, and with one that is no task.\<close>

definition demo_plan :: generation_plan where
  "demo_plan = snd (plan_add_task ''t'' ''b'' [] (JNum 9) []
     (snd (plan_add_task ''t'' ''a'' [''t:b'', ''gone''] (JNum 1) [] new_generation_plan)))"

section \<open>Properties\<close>

text \<open>The execution order of a plan lists every task once, after those of its dependencies that are tasks of the
  plan, exactly when these dependencies have no cycle; otherwise it raises.  The loop ends.\<close>

theorem execution_order_correct:
  assumes "dict_ok (gp_tasks p)"
  shows "\<exists>res. fst (generate_execution_order p) = Some res \<and>
    (is_ok res \<longleftrightarrow> (\<forall>i \<in> set (keys (gp_tasks p)). (i, i) \<notin> (dep_rel (present_deps (gp_tasks p)))\<^sup>+)) \<and>
    (\<forall>order. res = Inr order \<longrightarrow> distinct order \<and> set order = set (keys (gp_tasks p)) \<and>
       (\<forall>i \<in> set order. \<forall>d \<in> set (present_deps (gp_tasks p) i). before order d i))"
proof (cases "gp_tasks p = []")
  case True
  then show ?thesis by (simp add: generate_execution_order_def)
next
  case False
  let ?ts = "gp_tasks p"
  obtain res where r: "kahn_loop (length ?ts) (adj_list ?ts) (\<lambda>i. int (length (present_deps ?ts i)))
        (filter (\<lambda>i. int (length (present_deps ?ts i)) = 0) (keys ?ts)) [] = Some res"
      "distinct res" "set res \<subseteq> set (keys ?ts)" "ordered_from (present_deps ?ts) {} res"
      "set res = set (keys ?ts) \<longleftrightarrow> (\<forall>i \<in> set (keys ?ts). (i, i) \<notin> (dep_rel (present_deps ?ts))\<^sup>+)"
    using gp.kahn_correct[of ?ts "\<lambda>i. int (length (present_deps ?ts i))" "length ?ts"] assms by auto
  have len: "length res = length ?ts \<longleftrightarrow> set res = set (keys ?ts)"
    using r(2,3) assms by (metis card_subset_eq distinct_card finite_set length_map)
  show ?thesis
  proof (cases "length res = length ?ts")
    case True
    then have "fst (generate_execution_order p) = Some (Inr res)"
      using False r(1) by (simp add: generate_execution_order_def)
    moreover have "before res d i" if "i \<in> set res" "d \<in> set (present_deps ?ts i)" for i d
      using ordered_before[OF r(4,2) that] .
    ultimately show ?thesis using True len r(2,5) by simp
  next
    case no: False
    then have "\<exists>e. fst (generate_execution_order p) = Some (Inl e)"
      using False r(1) by (simp add: generate_execution_order_def)
    then show ?thesis using no len r(5) by auto
  qed
qed

theorem execution_order_correct_witness:
  "fst (generate_execution_order demo_plan) = Some (Inr [''t:b'', ''t:a'']) \<and> before [''t:b'', ''t:a''] ''t:b'' ''t:a''"
proof -
  have run: "fst (generate_execution_order demo_plan) = Some (Inr [''t:b'', ''t:a''])" by code_simp
  have deps: "''t:b'' \<in> set (present_deps (gp_tasks demo_plan) ''t:a'')" by code_simp
  have "dict_ok (gp_tasks demo_plan)" by code_simp
  from execution_order_correct[OF this] run deps show ?thesis by simp
qed

text \<open>C40: The order by levels is not what it is said to be: it never depends on the priorities, and it raises an
  index error whenever the first task of the plan has a dependency in the plan.  Otherwise it returns or
  raises, and when it returns it lists every task once.\<close>

theorem order_by_levels_outcome:
  assumes "dict_ok (gp_tasks p)" "\<forall>t \<in> set (map snd (gp_tasks p)). number_of (gt_priority t) \<noteq> None"
  shows "case fst (sort_tasks_by_priority_and_dependencies p) of
      None \<Rightarrow> False
    | Some (Inl e) \<Rightarrow> e = GenIndexError
    | Some (Inr order) \<Rightarrow> distinct order \<and> set order = set (keys (gp_tasks p)) \<and>
        (gp_tasks p = [] \<or> set (present_deps (gp_tasks p) (hd (keys (gp_tasks p)))) \<subseteq> {hd (keys (gp_tasks p))})"
proof -
  let ?ts = "gp_tasks p"
  let ?r = "visit_seq (level_visit (Suc (length ?ts)) ?ts 0) (keys ?ts) ([], [])"
  have small: "unseen (set (keys ?ts)) ([], [] :: name list list) < Suc (length ?ts)"
    using card_length[of "keys ?ts"] by (simp add: unseen_def)
  have run: "sort_tasks_by_priority_and_dependencies p =
      (case ?r of None \<Rightarrow> (None, p) | Some (Inl e) \<Rightarrow> (Some (Inl e), p)
       | Some (Inr (visited, levels)) \<Rightarrow> (Some (Inr (concat (rev levels))), p\<lparr>gp_execution_order := concat (rev levels)\<rparr>))"
    using assms(2) unfolding sort_tasks_by_priority_and_dependencies_def Let_def by (subst if_not_P) auto
  have "level_pre ?ts (keys ?ts) ([], [])" by (simp add: level_pre_def)
  from level_seq_ok[where f = "level_visit (Suc (length ?ts)) ?ts 0", OF level_visit_ok this small]
  consider "?r = Some (Inl GenIndexError)"
    | v levels where "?r = Some (Inr (v, levels))" "distinct v" "set v = set (keys ?ts)" "mset (concat levels) = mset v"
    by (auto simp: level_post_def level_pre_def)
  then show ?thesis
  proof cases
    case 1
    then show ?thesis by (simp add: run)
  next
    case 2
    have "mset (concat (rev levels)) = mset (concat levels)" by (induction levels) simp_all
    then have order: "distinct (concat (rev levels))" "set (concat (rev levels)) = set (keys ?ts)"
      using 2(2-4) by (metis mset_eq_imp_distinct_iff, metis mset_eq_setD)
    have "set (present_deps ?ts (hd (keys ?ts))) \<subseteq> {hd (keys ?ts)}" if "?ts \<noteq> []"
    proof (rule ccontr)
      assume no: "\<not> ?thesis"
      define i where "i = hd (keys ?ts)"
      have ks: "keys ?ts = i # tl (keys ?ts)" using that by (simp add: i_def)
      have pre: "level_pre ?ts (present_deps ?ts i) ([i], [] :: name list list)"
        using present_deps_keys list.set_intros(1)[of i "tl (keys ?ts)"] ks by (simp add: level_pre_def)
      have "unseen (set (keys ?ts)) ([i], [] :: name list list) < unseen (set (keys ?ts)) ([], [] :: name list list)"
        unfolding unseen_def by (rule psubset_card_mono) (use list.set_intros(1)[of i "tl (keys ?ts)"] ks in auto)
      then have "unseen (set (keys ?ts)) ([i], [] :: name list list) < length ?ts" using small by simp
      from level_visit_raises[OF pre this, of 0] no
      have "level_visit (Suc (length ?ts)) ?ts 0 i ([], []) = Some (Inl GenIndexError)" by (simp add: i_def)
      then have "?r = Some (Inl GenIndexError)" by (subst ks) simp
      with 2(1) show False by simp
    qed
    then show ?thesis using 2(1) order by (auto simp: run)
  qed
qed

theorem order_by_levels_outcome_witness:
  "fst (sort_tasks_by_priority_and_dependencies demo_plan) = Some (Inl GenIndexError)"
proof -
  have ok: "dict_ok (gp_tasks demo_plan)" "\<forall>t \<in> set (map snd (gp_tasks demo_plan)). number_of (gt_priority t) \<noteq> None"
    by (code_simp, simp add: demo_plan_def plan_add_task_def new_generation_plan_def Let_def number_of_def)
  have "gp_tasks demo_plan \<noteq> []" "\<not> set (present_deps (gp_tasks demo_plan) (hd (keys (gp_tasks demo_plan)))) \<subseteq> {hd (keys (gp_tasks demo_plan))}"
    by code_simp+
  with order_by_levels_outcome[OF ok] show ?thesis
    by (auto split: option.splits sum.splits)
qed

text \<open>A plan made from a registry has no dependencies, so its order is that of its tasks.\<close>

lemma kahn_loop_flat: "length q \<le> fuel \<Longrightarrow> (\<And>i. i \<in> set q \<Longrightarrow> adj i = []) \<Longrightarrow> kahn_loop fuel adj deg q done = Some (done @ q)"
proof (induction q arbitrary: fuel "done")
  case (Cons x q)
  then show ?case by (cases fuel) auto
qed simp

lemma order_without_dependencies:
  assumes "\<forall>t \<in> set (map snd (gp_tasks p)). gt_dependencies t = []"
  shows "\<exists>p1. generate_execution_order p = (Some (Inr (keys (gp_tasks p))), p1) \<and> gp_tasks p1 = gp_tasks p"
proof (cases "gp_tasks p = []")
  case False
  have d: "present_deps (gp_tasks p) i = []" for i
    using assms map_of_SomeD[of "gp_tasks p" i] by (fastforce simp: present_deps_def split: option.split)
  have a: "adj_list (gp_tasks p) i = []" for i
    using assms by (force simp: adj_list_def)
  have "kahn_loop (length (gp_tasks p)) (adj_list (gp_tasks p)) (\<lambda>_. 0) (keys (gp_tasks p)) [] = Some ([] @ keys (gp_tasks p))"
    by (rule kahn_loop_flat) (simp_all add: a)
  then show ?thesis using False by (simp add: generate_execution_order_def d Let_def)
qed (simp add: generate_execution_order_def)

lemma add_template_tasks_flat:
  "\<forall>t \<in> set (map snd (gp_tasks p)). gt_dependencies t = [] \<Longrightarrow>
   \<forall>t \<in> set (map snd (gp_tasks (add_template_tasks ty pr ns p))). gt_dependencies t = []"
proof (induction ns arbitrary: p)
  case (Cons n ns)
  have "\<forall>t \<in> set (map snd (gp_tasks (snd (plan_add_task ty n [] (JNum (of_int pr)) [(''template'', JStr ty)] p)))). gt_dependencies t = []"
  proof
    fix t assume "t \<in> set (map snd (gp_tasks (snd (plan_add_task ty n [] (JNum (of_int pr)) [(''template'', JStr ty)] p))))"
    then have "t \<in> set (map snd (gp_tasks p)) \<or> gt_dependencies t = []"
      by (auto simp: plan_add_task_def Let_def dest!: dict_value_in_update)
    then show "gt_dependencies t = []" using Cons.prems by blast
  qed
  from Cons.IH[OF this] show ?case by (simp add: add_template_tasks_def)
qed (simp add: add_template_tasks_def)

lemma add_template_tasks_order [simp]: "gp_execution_order (add_template_tasks ty pr ns p) = gp_execution_order p"
  by (induction ns arbitrary: p) (simp_all add: add_template_tasks_def plan_add_task_def Let_def)

lemma generate_execution_order_records:
  "generate_execution_order p = (Some (Inr order), p1) \<Longrightarrow> gp_tasks p \<noteq> [] \<Longrightarrow> gp_execution_order p1 = order"
  by (auto simp: generate_execution_order_def Let_def split: option.splits if_splits)

theorem create_plan_order:
  "\<exists>p. create_plan dry inc (Some (executives, specialists)) departments = Some (Inr p) \<and> gp_execution_order p = keys (gp_tasks p)"
proof -
  let ?p = "add_template_tasks ''department'' 5 departments (add_template_tasks ''specialist'' 8 (map name_or_unknown specialists)
      (add_template_tasks ''executive'' 10 (map name_or_unknown executives) (new_generation_plan\<lparr>gp_dry_run := dry, gp_incremental := inc\<rparr>)))"
  have "\<forall>t \<in> set (map snd (gp_tasks ?p)). gt_dependencies t = []"
    by (intro add_template_tasks_flat) (simp add: new_generation_plan_def)
  then obtain p1 where p1: "generate_execution_order ?p = (Some (Inr (keys (gp_tasks ?p))), p1)" "gp_tasks p1 = gp_tasks ?p"
    using order_without_dependencies by blast
  moreover have "gp_execution_order p1 = keys (gp_tasks ?p)"
  proof (cases "gp_tasks ?p = []")
    case True
    then have "p1 = ?p" using p1(1) by (simp add: generate_execution_order_def)
    then show ?thesis using True by (simp add: new_generation_plan_def)
  qed (use generate_execution_order_records[OF p1(1)] in simp)
  ultimately show ?thesis by (simp add: create_plan_def)
qed

end
