(* ===== verification/GenDeps.thy ===== *)
theory GenDeps
  imports GenPlan
begin

text \<open>
  The dependency graph of the generator and its resolver (\<^verbatim>\<open>generator/dependency.py\<close>).  The dictionaries of
  the graph create an entry when they are assigned to, not when they are read; deleting a missing one
  raises.  The searches run on fuel.
\<close>

record gen_graph =
  dg_tasks :: "(name, gen_task) dict"
  dg_adj :: "(name, name list) dict"
  dg_rev :: "(name, name list) dict"
  dg_in_degree :: "(name, int) dict"
  dg_order :: "name list option"
  dg_cycle_detected :: bool
  dg_cycle_nodes :: "name list"

definition new_gen_graph :: gen_graph where
  "new_gen_graph =
     \<lparr>dg_tasks = [], dg_adj = [], dg_rev = [], dg_in_degree = [], dg_order = None, dg_cycle_detected = False, dg_cycle_nodes = []\<rparr>"

definition add_edge :: "name \<Rightarrow> name \<Rightarrow> gen_graph \<Rightarrow> gen_graph" where
  "add_edge i d g =
     g\<lparr>dg_adj := AList.update d (dget [] (dg_adj g) d @ [i]) (dg_adj g),
       dg_rev := AList.update i (dget [] (dg_rev g) i @ [d]) (dg_rev g),
       dg_in_degree := AList.update i (dget 0 (dg_in_degree g) i + 1) (dg_in_degree g)\<rparr>"

definition gg_add_task :: "gen_task \<Rightarrow> gen_graph \<Rightarrow> gen_graph" where
  "gg_add_task t g =
     (let i = gen_task_id t
      in fold (add_edge i) (gt_dependencies t)
           (g\<lparr>dg_tasks := AList.update i t (dg_tasks g), dg_in_degree := AList.update i 0 (dg_in_degree g)\<rparr>))"

text \<open>The two loops of \<^verbatim>\<open>remove_task\<close>, then the deletions one by one.\<close>

definition drop_dependent :: "name \<Rightarrow> name \<Rightarrow> gen_graph \<Rightarrow> gen_graph" where
  "drop_dependent i j g =
     (if i \<in> set (dget [] (dg_rev g) j)
      then g\<lparr>dg_rev := AList.update j (remove1 i (dget [] (dg_rev g) j)) (dg_rev g),
             dg_in_degree := AList.update j (dget 0 (dg_in_degree g) j - 1) (dg_in_degree g)\<rparr>
      else g)"

definition drop_dependency :: "name \<Rightarrow> name \<Rightarrow> gen_graph \<Rightarrow> gen_graph" where
  "drop_dependency i d g =
     (if i \<in> set (dget [] (dg_adj g) d)
      then g\<lparr>dg_adj := AList.update d (remove1 i (dget [] (dg_adj g) d)) (dg_adj g)\<rparr>
      else g)"

definition gg_remove_task :: "name \<Rightarrow> gen_graph \<Rightarrow> (gen_error + unit) \<times> gen_graph" where
  "gg_remove_task i g =
     (if i \<notin> set (keys (dg_tasks g)) then (Inr (), g)
      else let g1 = fold (drop_dependent i) (dget [] (dg_adj g) i) g;
               g2 = fold (drop_dependency i) (dget [] (dg_rev g1) i) g1;
               g3 = g2\<lparr>dg_tasks := AList.delete i (dg_tasks g2)\<rparr>
           in if i \<notin> set (keys (dg_adj g3)) then (Inl (GenKeyError i), g3)
              else let g4 = g3\<lparr>dg_adj := AList.delete i (dg_adj g3)\<rparr>
                   in if i \<notin> set (keys (dg_rev g4)) then (Inl (GenKeyError i), g4)
                      else let g5 = g4\<lparr>dg_rev := AList.delete i (dg_rev g4)\<rparr>
                           in if i \<notin> set (keys (dg_in_degree g5)) then (Inl (GenKeyError i), g5)
                              else (Inr (), g5\<lparr>dg_in_degree := AList.delete i (dg_in_degree g5), dg_order := None\<rparr>))"

section \<open>Cycles and orders\<close>

text \<open>As many steps as there are tasks and entries of the lists of dependents.\<close>

definition gg_fuel :: "gen_graph \<Rightarrow> nat" where
  "gg_fuel g = Suc (length (dg_tasks g) + length (dg_in_degree g) + sum_list (map (length \<circ> snd) (dg_adj g)))"

text \<open>
  \<^verbatim>\<open>has_cycle\<close> searches the dependents.  What it keeps of the path is the copy made where the search
  stops, which holds the last edge only.
\<close>

definition gg_has_cycle :: "gen_graph \<Rightarrow> bool option \<times> gen_graph" where
  "gg_has_cycle g =
     (if dg_order g \<noteq> None then (Some (dg_cycle_detected g), g)
      else case visit_seq (search_visit (\<lambda>path start i. [i, last path]) (gg_fuel g) (dget [] (dg_adj g))) (keys (dg_tasks g)) ([], []) of
             None \<Rightarrow> (None, g)
           | Some (Inl nodes) \<Rightarrow> (Some True, g\<lparr>dg_cycle_detected := True, dg_cycle_nodes := nodes\<rparr>)
           | Some (Inr _) \<Rightarrow> (Some False, g\<lparr>dg_cycle_detected := False, dg_cycle_nodes := []\<rparr>))"

definition gg_start :: "gen_graph \<Rightarrow> name list" where
  "gg_start g = filter (\<lambda>i. dget 0 (dg_in_degree g) i = 0) (keys (dg_in_degree g))"

definition gg_topological_sort :: "gen_graph \<Rightarrow> (gen_error + name list) option \<times> gen_graph" where
  "gg_topological_sort g =
     (case dg_order g of
        Some order \<Rightarrow> (Some (Inr order), g)
      | None \<Rightarrow>
          (case gg_has_cycle g of
             (None, g1) \<Rightarrow> (None, g1)
           | (Some True, g1) \<Rightarrow> (Some (Inl (GenCycle (dg_cycle_nodes g1))), g1)
           | (Some False, g1) \<Rightarrow>
               (case kahn_loop (gg_fuel g) (dget [] (dg_adj g)) (dget 0 (dg_in_degree g)) (gg_start g) [] of
                  None \<Rightarrow> (None, g1)
                | Some order \<Rightarrow>
                    if length order \<noteq> length (dg_tasks g)
                    then (Some (Inl (GenUnresolved (filter (\<lambda>i. i \<notin> set order) (keys (dg_tasks g))))), g1)
                    else (Some (Inr order), g1\<lparr>dg_order := Some order\<rparr>))))"

definition get_dependent_tasks :: "name \<Rightarrow> gen_graph \<Rightarrow> name list" where
  "get_dependent_tasks i g = dget [] (dg_adj g) i"

definition get_dependency_tasks :: "name \<Rightarrow> gen_graph \<Rightarrow> name list" where
  "get_dependency_tasks i g = dget [] (dg_rev g) i"

text \<open>Level by level: what a level sets free is the next one.\<close>

fun relax_level :: "('a \<Rightarrow> 'a list) \<Rightarrow> 'a list \<Rightarrow> ('a \<Rightarrow> int) \<times> 'a list \<Rightarrow> ('a \<Rightarrow> int) \<times> 'a list" where
  "relax_level adj [] s = s"
| "relax_level adj (x # xs) s = relax_level adj xs (kahn_relax (adj x) s)"

fun levels_loop :: "nat \<Rightarrow> ('a \<Rightarrow> 'a list) \<Rightarrow> ('a \<Rightarrow> int) \<Rightarrow> 'a list \<Rightarrow> 'a list list \<Rightarrow> 'a list list option" where
  "levels_loop fuel adj deg [] levels = Some levels"
| "levels_loop 0 adj deg (x # queue) levels = None"
| "levels_loop (Suc fuel) adj deg (x # queue) levels =
     (let (deg1, queue1) = relax_level adj (x # queue) (deg, [])
      in levels_loop fuel adj deg1 queue1 (levels @ [x # queue]))"

definition get_levelized_tasks :: "gen_graph \<Rightarrow> name list list option" where
  "get_levelized_tasks g =
     (if dg_tasks g = [] then Some []
      else levels_loop (gg_fuel g) (dget [] (dg_adj g)) (dget 0 (dg_in_degree g)) (gg_start g) [])"

text \<open>The longest chain of dependents, by trying every one that does not meet itself.\<close>

primrec critical_visit ::
  "nat \<Rightarrow> ('a \<Rightarrow> 'a list) \<Rightarrow> 'a list \<Rightarrow> 'a \<Rightarrow> 'a list \<Rightarrow> (gen_error + 'a list) option"
where
  "critical_visit 0 adj path x best = None"
| "critical_visit (Suc fuel) adj path x best =
     visit_seq (\<lambda>y b. if y \<in> set (path @ [x]) then Some (Inr b) else critical_visit fuel adj (path @ [x]) y b) (adj x)
       (if length (path @ [x]) > length best then path @ [x] else best)"

definition calculate_critical_path :: "gen_graph \<Rightarrow> (gen_error + name list) option" where
  "calculate_critical_path g =
     (if dg_tasks g = [] then Some (Inr [])
      else case get_levelized_tasks g of
             None \<Rightarrow> None
           | Some levels \<Rightarrow>
               visit_seq (\<lambda>i b. if i \<in> set (concat levels) then critical_visit (gg_fuel g) (dget [] (dg_adj g)) [] i b else Some (Inr b))
                 (keys (dg_tasks g)) [])"

record gen_statistics =
  gs_total_tasks :: nat
  gs_total_dependencies :: nat
  gs_average_dependencies :: rat
  gs_max_dependencies :: nat
  gs_min_dependencies :: nat
  gs_no_dependencies :: nat
  gs_many_dependencies :: nat
  gs_has_cycles :: bool
  gs_order_available :: bool
  gs_critical_path_length :: "nat option"

definition gg_get_statistics :: "gen_graph \<Rightarrow> gen_statistics option \<times> gen_graph" where
  "gg_get_statistics g =
     (let counts = map (length \<circ> gt_dependencies \<circ> snd) (dg_tasks g)
      in if dg_tasks g = []
         then (Some \<lparr>gs_total_tasks = 0, gs_total_dependencies = 0, gs_average_dependencies = 0, gs_max_dependencies = 0,
                 gs_min_dependencies = 0, gs_no_dependencies = 0, gs_many_dependencies = 0, gs_has_cycles = False,
                 gs_order_available = False, gs_critical_path_length = None\<rparr>, g)
         else case gg_has_cycle g of
                (None, g1) \<Rightarrow> (None, g1)
              | (Some c, g1) \<Rightarrow>
                  (case calculate_critical_path g1 of
                     Some (Inr path) \<Rightarrow>
                       (Some \<lparr>gs_total_tasks = length counts, gs_total_dependencies = sum_list counts,
                          gs_average_dependencies = of_nat (sum_list counts) / of_nat (length counts),
                          gs_max_dependencies = Max (set counts), gs_min_dependencies = Min (set counts),
                          gs_no_dependencies = length (filter (\<lambda>n. n = 0) counts),
                          gs_many_dependencies = length (filter (\<lambda>n. n > 3) counts), gs_has_cycles = c,
                          gs_order_available = (dg_order g1 \<noteq> None), gs_critical_path_length = Some (length path)\<rparr>, g1)
                   | _ \<Rightarrow> (None, g1)))"

section \<open>The resolver\<close>

text \<open>Graphs by the identifier given to \<^verbatim>\<open>add_task\<close>; the tasks in them go by the identifier made of type and name.\<close>

record dep_resolver =
  dr_cycle_detection :: bool
  dr_strict :: bool
  dr_graphs :: "(name, gen_graph) dict"

definition new_dep_resolver :: "bool \<Rightarrow> bool \<Rightarrow> dep_resolver" where
  "new_dep_resolver cycle_detection strict = \<lparr>dr_cycle_detection = cycle_detection, dr_strict = strict, dr_graphs = []\<rparr>"

definition calculate_task_priority :: "string \<Rightarrow> name list \<Rightarrow> (string, json) dict \<Rightarrow> json" where
  "calculate_task_priority task_type deps metadata =
     (let base = (if task_type = ''executive'' then 10 else if task_type = ''specialist'' then 8
                  else if task_type = ''department'' then 5 else 0);
          b = (if deps \<noteq> [] then base + max 0 (3 - int (length deps)) else base)
      in case map_of metadata ''priority'' of Some v \<Rightarrow> v | None \<Rightarrow> JNum (of_int b))"

definition dr_add_task ::
  "string \<Rightarrow> name \<Rightarrow> string \<Rightarrow> name list \<Rightarrow> (string, json) dict \<Rightarrow> dep_resolver \<Rightarrow> gen_task \<times> dep_resolver"
where
  "dr_add_task task_type task_id nm deps metadata r =
     (let t = \<lparr>gt_task_type = task_type, gt_name = nm, gt_dependencies = deps,
               gt_priority = calculate_task_priority task_type deps metadata, gt_metadata = metadata\<rparr>
      in (t, r\<lparr>dr_graphs := AList.update task_id (gg_add_task t (dget new_gen_graph (dr_graphs r) task_id)) (dr_graphs r)\<rparr>))"

definition all_task_ids :: "dep_resolver \<Rightarrow> name list" where
  "all_task_ids r = concat (map (keys \<circ> dg_tasks \<circ> snd) (dr_graphs r))"

definition find_task :: "name \<Rightarrow> dep_resolver \<Rightarrow> gen_task option" where
  "find_task i r =
     (case List.find (\<lambda>(_, g). i \<in> set (keys (dg_tasks g))) (dr_graphs r) of
        None \<Rightarrow> None
      | Some (_, g) \<Rightarrow> map_of (dg_tasks g) i)"

definition get_task_priority :: "name \<Rightarrow> dep_resolver \<Rightarrow> json" where
  "get_task_priority i r = (case find_task i r of None \<Rightarrow> JNum 0 | Some t \<Rightarrow> gt_priority t)"

text \<open>No list of identifiers is an empty one, no filter an empty one.\<close>

definition tasks_to_include :: "name list \<Rightarrow> string \<Rightarrow> dep_resolver \<Rightarrow> name list" where
  "tasks_to_include ids task_type r =
     (if ids \<noteq> [] then filter (\<lambda>i. i \<in> set (all_task_ids r)) ids
      else if task_type \<noteq> []
      then filter (\<lambda>i. map_option gt_task_type (find_task i r) = Some task_type) (all_task_ids r)
      else all_task_ids r)"

definition build_combined_graph :: "name list \<Rightarrow> dep_resolver \<Rightarrow> gen_graph" where
  "build_combined_graph ids r =
     fold (\<lambda>i g. case find_task i r of None \<Rightarrow> g | Some t \<Rightarrow> gg_add_task t g) ids new_gen_graph"

definition resolve_order :: "name list \<Rightarrow> string \<Rightarrow> dep_resolver \<Rightarrow> (gen_error + name list) option" where
  "resolve_order ids task_type r =
     (let included = tasks_to_include ids task_type r;
          g = build_combined_graph included r
      in case (if dr_cycle_detection r then gg_has_cycle g else (Some False, g)) of
           (None, _) \<Rightarrow> None
         | (Some c, g1) \<Rightarrow>
             if c \<and> dr_strict r then Some (Inl (GenCycle (dg_cycle_nodes g1)))
             else case fst (gg_topological_sort g1) of
                    None \<Rightarrow> None
                  | Some (Inr order) \<Rightarrow> Some (Inr order)
                  | Some (Inl e) \<Rightarrow> Some (if dr_strict r then Inl e else Inr included))"

fun update_in_graphs :: "name \<Rightarrow> name list \<Rightarrow> (name, gen_graph) dict \<Rightarrow> (gen_error + unit) \<times> (name, gen_graph) dict" where
  "update_in_graphs i deps [] = (Inl (GenTaskNotFound i), [])"
| "update_in_graphs i deps ((k, g) # gs) =
     (case map_of (dg_tasks g) i of
        Some t \<Rightarrow>
          (case gg_remove_task i g of
             (Inl e, g1) \<Rightarrow> (Inl e, (k, g1) # gs)
           | (Inr _, g1) \<Rightarrow> (Inr (), (k, gg_add_task (t\<lparr>gt_dependencies := deps\<rparr>) g1) # gs))
      | None \<Rightarrow> (case update_in_graphs i deps gs of (res, gs1) \<Rightarrow> (res, (k, g) # gs1)))"

definition update_task_dependencies :: "name \<Rightarrow> name list \<Rightarrow> dep_resolver \<Rightarrow> (gen_error + unit) \<times> dep_resolver" where
  "update_task_dependencies i deps r =
     (case update_in_graphs i deps (dr_graphs r) of (res, gs) \<Rightarrow> (res, r\<lparr>dr_graphs := gs\<rparr>))"

fun remove_from_graphs :: "name \<Rightarrow> (name, gen_graph) dict \<Rightarrow> (gen_error + unit) \<times> (name, gen_graph) dict" where
  "remove_from_graphs i [] = (Inr (), [])"
| "remove_from_graphs i ((k, g) # gs) =
     (case gg_remove_task i g of
        (Inl e, g1) \<Rightarrow> (Inl e, (k, g1) # gs)
      | (Inr _, g1) \<Rightarrow> (case remove_from_graphs i gs of (res, gs1) \<Rightarrow> (res, (k, g1) # gs1)))"

definition dr_remove_task :: "name \<Rightarrow> dep_resolver \<Rightarrow> (gen_error + unit) \<times> dep_resolver" where
  "dr_remove_task i r = (case remove_from_graphs i (dr_graphs r) of (res, gs) \<Rightarrow> (res, r\<lparr>dr_graphs := gs\<rparr>))"

definition dr_clear :: "dep_resolver \<Rightarrow> dep_resolver" where
  "dr_clear r = r\<lparr>dr_graphs := []\<rparr>"

section \<open>Graphs built from tasks\<close>

definition built :: "gen_task list \<Rightarrow> gen_graph" where
  "built ts = fold gg_add_task ts new_gen_graph"

definition task_table :: "gen_task list \<Rightarrow> (name, gen_task) dict" where
  "task_table ts = map (\<lambda>t. (gen_task_id t, t)) ts"

definition declared :: "gen_task list \<Rightarrow> name \<Rightarrow> name list" where
  "declared ts i = (case map_of (task_table ts) i of None \<Rightarrow> [] | Some t \<Rightarrow> gt_dependencies t)"

lemma add_edges:
  "dg_tasks (fold (add_edge i) ds g) = dg_tasks g \<and> dg_order (fold (add_edge i) ds g) = dg_order g \<and>
   dget [] (dg_adj (fold (add_edge i) ds g)) d = dget [] (dg_adj g) d @ map (\<lambda>_. i) (filter (\<lambda>x. x = d) ds) \<and>
   dget [] (dg_rev (fold (add_edge i) ds g)) j = dget [] (dg_rev g) j @ (if j = i then ds else []) \<and>
   dget 0 (dg_in_degree (fold (add_edge i) ds g)) j = dget 0 (dg_in_degree g) j + (if j = i then int (length ds) else 0) \<and>
   (i \<in> fst ` set (dg_in_degree g) \<longrightarrow> keys (dg_in_degree (fold (add_edge i) ds g)) = keys (dg_in_degree g))"
  by (induction ds arbitrary: g) (auto simp: add_edge_def keys_update_old)

lemma built_snoc: "built (ts @ [t]) = gg_add_task t (built ts)"
  by (simp add: built_def)

lemma built_fields:
  assumes "distinct (map gen_task_id ts)"
  shows "dg_tasks (built ts) = task_table ts \<and> keys (dg_in_degree (built ts)) = map gen_task_id ts \<and> dg_order (built ts) = None \<and>
    (\<forall>d. dget [] (dg_adj (built ts)) d = adj_list (task_table ts) d) \<and> (\<forall>i. dget [] (dg_rev (built ts)) i = declared ts i) \<and>
    (\<forall>i. dget 0 (dg_in_degree (built ts)) i = int (length (declared ts i)))"
  using assms
proof (induction ts rule: rev_induct)
  case Nil
  then show ?case by (simp add: built_def new_gen_graph_def task_table_def adj_list_def declared_def)
next
  case (snoc t ts)
  have new: "gen_task_id t \<notin> gen_task_id ` set ts" and d: "distinct (map gen_task_id ts)" using snoc.prems by auto
  note IH = snoc.IH[OF d]
  define g where "g = built ts\<lparr>dg_tasks := AList.update (gen_task_id t) t (dg_tasks (built ts)),
      dg_in_degree := AList.update (gen_task_id t) 0 (dg_in_degree (built ts))\<rparr>"
  have b: "built (ts @ [t]) = fold (add_edge (gen_task_id t)) (gt_dependencies t) g"
    by (simp add: built_snoc gg_add_task_def g_def Let_def)
  have fresh: "gen_task_id t \<notin> fst ` set (dg_in_degree (built ts))" "gen_task_id t \<notin> fst ` set (task_table ts)"
  proof -
    have "fst ` set (dg_in_degree (built ts)) = set (keys (dg_in_degree (built ts)))" by simp
    also have "\<dots> = set (map gen_task_id ts)" using IH by (simp only:)
    finally show "gen_task_id t \<notin> fst ` set (dg_in_degree (built ts))" using new by simp
    show "gen_task_id t \<notin> fst ` set (task_table ts)" using new by (auto simp: task_table_def)
  qed
  have g: "dg_tasks g = task_table ts @ [(gen_task_id t, t)]" "keys (dg_in_degree g) = map gen_task_id ts @ [gen_task_id t]"
    "gen_task_id t \<in> fst ` set (dg_in_degree g)" "dg_adj g = dg_adj (built ts)" "dg_rev g = dg_rev (built ts)" "dg_order g = None"
    using IH fresh by (simp_all add: g_def keys_update_new)
  have mn: "map_of (task_table ts) (gen_task_id t) = None" using fresh(2) by (simp add: map_of_eq_None_iff)
  have tab: "task_table (ts @ [t]) = task_table ts @ [(gen_task_id t, t)]" by (simp add: task_table_def)
  have dec: "declared (ts @ [t]) i = (if i = gen_task_id t then gt_dependencies t else declared ts i)" for i
    using mn by (simp add: declared_def tab map_add_def split: option.split)
  have none: "declared ts (gen_task_id t) = []"
    using mn by (simp add: declared_def)
  note e = add_edges[of "gen_task_id t" "gt_dependencies t" g]
  show ?case
  proof (intro conjI allI)
    show "dg_tasks (built (ts @ [t])) = task_table (ts @ [t])" using e g(1) by (simp only: b tab)
    show "keys (dg_in_degree (built (ts @ [t]))) = map gen_task_id (ts @ [t])" using e g(2,3) by (simp add: b)
    show "dg_order (built (ts @ [t])) = None" using e g(6) by (simp add: b)
    show "dget [] (dg_adj (built (ts @ [t]))) d = adj_list (task_table (ts @ [t])) d" for d
      using add_edges[of "gen_task_id t" "gt_dependencies t" g d] g(4) IH by (simp add: b tab adj_list_def)
    show "dget [] (dg_rev (built (ts @ [t]))) i = declared (ts @ [t]) i" for i
      using add_edges[of "gen_task_id t" "gt_dependencies t" g _ i] g(5) IH none unfolding b dec by simp
    show "dget 0 (dg_in_degree (built (ts @ [t]))) i = int (length (declared (ts @ [t]) i))" for i
      using add_edges[of "gen_task_id t" "gt_dependencies t" g _ i] IH unfolding b dec by (simp add: g_def)
  qed
qed

lemma task_table_keys [simp]: "keys (task_table ts) = map gen_task_id ts"
  by (simp add: task_table_def)

lemma declared_task:
  assumes "distinct (map gen_task_id ts)" "t \<in> set ts"
  shows "declared ts (gen_task_id t) = gt_dependencies t"
proof -
  have "(gen_task_id t, t) \<in> set (task_table ts)" using assms(2) by (simp add: task_table_def)
  then have "map_of (task_table ts) (gen_task_id t) = Some t" using assms(1) by (simp only: map_of_eq_Some_iff task_table_keys)
  then show ?thesis by (simp add: declared_def)
qed

lemma built_functions:
  assumes "distinct (map gen_task_id ts)"
  shows "dget [] (dg_adj (built ts)) = adj_list (task_table ts)"
    and "dget 0 (dg_in_degree (built ts)) = (\<lambda>i. int (length (declared ts i)))"
    and "gg_start (built ts) = filter (\<lambda>i. int (length (declared ts i)) = 0) (map gen_task_id ts)"
    and "length ts < gg_fuel (built ts)"
proof -
  note b = built_fields[OF assms]
  show f: "dget [] (dg_adj (built ts)) = adj_list (task_table ts)"
    "dget 0 (dg_in_degree (built ts)) = (\<lambda>i. int (length (declared ts i)))" using b by (auto intro!: ext)
  have "keys (dg_in_degree (built ts)) = map gen_task_id ts" using b by blast
  with f(2) show "gg_start (built ts) = filter (\<lambda>i. int (length (declared ts i)) = 0) (map gen_task_id ts)"
    by (simp only: gg_start_def)
  have "dg_tasks (built ts) = task_table ts" using b by blast
  then show "length ts < gg_fuel (built ts)" by (simp add: gg_fuel_def task_table_def)
qed

lemma in_adj_list: "distinct (map gen_task_id ts) \<Longrightarrow> i \<in> set (adj_list (task_table ts) d) \<longleftrightarrow> d \<in> set (declared ts i)"
proof -
  assume d: "distinct (map gen_task_id ts)"
  have "i \<in> set (adj_list (task_table ts) d) \<longleftrightarrow> (\<exists>t. (i, t) \<in> set (task_table ts) \<and> d \<in> set (gt_dependencies t))"
    by (force simp: adj_list_def)
  also have "\<dots> \<longleftrightarrow> d \<in> set (declared ts i)"
    using d map_of_eq_Some_iff[of "task_table ts" i] by (auto simp: declared_def split: option.split)
  finally show ?thesis .
qed

lemma dep_rel_adj: "distinct (map gen_task_id ts) \<Longrightarrow> dep_rel (adj_list (task_table ts)) = (dep_rel (declared ts))\<inverse>"
  using in_adj_list by (auto simp: dep_rel_def)

interpretation bg: dep_counts "map gen_task_id" declared "\<lambda>ts. adj_list (task_table ts)" "\<lambda>ts. distinct (map gen_task_id ts)"
proof
  fix ts :: "gen_task list" and n d
  assume dist: "distinct (map gen_task_id ts)"
  then show "distinct (map gen_task_id ts)" .
  show "set (adj_list (task_table ts) d) \<subseteq> set (map gen_task_id ts)"
    using adj_list_keys[of "task_table ts" d] by (simp add: task_table_def image_image)
  assume d: "d \<in> set (map gen_task_id ts)"
  have "count_list (filter (\<lambda>x. x \<in> set (map gen_task_id ts)) xs) d = count_list xs d" for xs
    using d by (induction xs) auto
  then have "count_list (present_deps (task_table ts) n) d = count_list (declared ts n) d"
    unfolding present_deps_def declared_def task_table_keys by (simp split: option.split)
  then show "count_list (adj_list (task_table ts) d) n = count_list (declared ts n) d"
    using count_adj_list[of "task_table ts" d n] dist d by (simp only: task_table_keys)
qed

text \<open>The search finds a cycle exactly when there is one.\<close>

lemma has_cycle_built:
  assumes "distinct (map gen_task_id ts)"
  obtains b g1 where "gg_has_cycle (built ts) = (Some b, g1)" "b \<longleftrightarrow> (\<exists>i. (i, i) \<in> (dep_rel (declared ts))\<^sup>+)"
    "dg_tasks g1 = task_table ts"
proof -
  let ?A = "adj_list (task_table ts)" and ?U = "set (map gen_task_id ts)"
  let ?r = "visit_seq (search_visit (\<lambda>path start i. [i, last path]) (gg_fuel (built ts)) ?A) (map gen_task_id ts) ([], [])"
  have closed: "set (?A x) \<subseteq> ?U" for x using adj_list_keys[of "task_table ts" x] by (simp add: task_table_def image_image)
  have "card ?U < gg_fuel (built ts)"
    using card_length[of "map gen_task_id ts"] built_functions(4)[OF assms] by simp
  then have "search_post ?U ?A (\<lambda>_. \<exists>i. (i, i) \<in> (dep_rel ?A)\<^sup>+) (map gen_task_id ts) ([], []) ?r"
  proof (intro search_seq_visit_ok)
    show "\<exists>i. (i, i) \<in> (dep_rel ?A)\<^sup>+" if "walk ?A path" "path \<noteq> []" "x \<in> set (?A (last path))" "index_of x path = Some i" for path x i
      using cycle_reach[OF back_edge_cycle[OF that]] by blast
  qed (use closed in \<open>auto simp: search_pre_def unseen_def\<close>)
  then consider (cycle) e where "?r = Some (Inl e)" "\<exists>i. (i, i) \<in> (dep_rel ?A)\<^sup>+"
    | (none) V fin where "?r = Some (Inr (V, []))" "dfs_inv ?A (set V) [] fin" "?U \<subseteq> set fin"
    using dfs_inv_start[of ?A] by (auto simp: search_post_def split: option.splits sum.splits)
  then have res: "?r \<noteq> None \<and> (\<exists>i. (i, i) \<in> (dep_rel ?A)\<^sup>+) = (\<exists>e. ?r = Some (Inl e))"
  proof cases
    case none
    have "(i, i) \<notin> (dep_rel ?A)\<^sup>+" for i
    proof
      assume c: "(i, i) \<in> (dep_rel ?A)\<^sup>+"
      then have "i \<in> ?U" using closed by (cases rule: tranclE) auto
      with none(3) ordered_no_cycle[of ?A fin i] none(2) c show False by (auto simp: dfs_inv_def)
    qed
    then show ?thesis using none(1) by auto
  qed auto
  have "(\<exists>i. (i, i) \<in> (dep_rel ?A)\<^sup>+) = (\<exists>i. (i, i) \<in> (dep_rel (declared ts))\<^sup>+)"
    by (simp add: dep_rel_adj[OF assms] trancl_converse)
  with res have cyc: "(\<exists>i. (i, i) \<in> (dep_rel (declared ts))\<^sup>+) = (\<exists>e. ?r = Some (Inl e))" by (simp only:)
  have b: "dg_tasks (built ts) = task_table ts" "dg_order (built ts) = None" using built_fields[OF assms] by blast+
  have run: "gg_has_cycle (built ts) = (case ?r of None \<Rightarrow> (None, built ts)
      | Some (Inl nodes) \<Rightarrow> (Some True, built ts\<lparr>dg_cycle_detected := True, dg_cycle_nodes := nodes\<rparr>)
      | Some (Inr _) \<Rightarrow> (Some False, built ts\<lparr>dg_cycle_detected := False, dg_cycle_nodes := []\<rparr>))"
    unfolding gg_has_cycle_def built_functions(1)[OF assms] b task_table_keys by simp
  obtain x where x: "?r = Some x" using res by blast
  show thesis
  proof (cases x)
    case (Inl e)
    show thesis by (rule that[of True "built ts\<lparr>dg_cycle_detected := True, dg_cycle_nodes := e\<rparr>"]) (use run cyc b(1) x Inl in simp_all)
  next
    case (Inr s)
    show thesis by (rule that[of False "built ts\<lparr>dg_cycle_detected := False, dg_cycle_nodes := []\<rparr>"]) (use run cyc b(1) x Inr in simp_all)
  qed
qed

section \<open>Levels\<close>

lemma kahn_relax_shift: "kahn_relax ns (deg, p @ q) = (fst (kahn_relax ns (deg, q)), p @ snd (kahn_relax ns (deg, q)))"
  by (induction ns arbitrary: deg q) (simp_all add: Let_def)

lemma relax_level_shift: "relax_level adj xs (deg, p @ q) = (fst (relax_level adj xs (deg, q)), p @ snd (relax_level adj xs (deg, q)))"
proof (induction xs arbitrary: deg q)
  case (Cons x xs)
  then show ?case by (simp add: kahn_relax_shift)
qed simp

lemma kahn_loop_level:
  "kahn_loop (length xs + fuel) adj deg (xs @ q) ordered =
     (case relax_level adj xs (deg, q) of (deg1, q1) \<Rightarrow> kahn_loop fuel adj deg1 q1 (ordered @ xs))"
proof (induction xs arbitrary: deg q ordered)
  case (Cons x xs)
  obtain d1 q1 where r: "kahn_relax (adj x) (deg, q) = (d1, q1)" by fastforce
  then show ?case using Cons.IH[of d1 q1 "ordered @ [x]"] by (simp add: kahn_relax_shift)
qed simp

definition level_order :: "('a \<Rightarrow> 'a list) \<Rightarrow> 'a list list \<Rightarrow> bool" where
  "level_order deps levels \<longleftrightarrow> (\<forall>k < length levels. \<forall>i \<in> set (levels ! k). set (deps i) \<subseteq> set (concat (take k levels)))"

lemma level_order_snoc:
  "level_order deps (levels @ [l]) \<longleftrightarrow> level_order deps levels \<and> (\<forall>i \<in> set l. set (deps i) \<subseteq> set (concat levels))"
  by (auto simp: level_order_def nth_append less_Suc_eq all_conj_distrib)

context dep_counts
begin

lemma kahn_inv_level:
  assumes "valid g"
  shows "kahn_inv g deg (xs @ q) ordered \<Longrightarrow> relax_level (adj g) xs (deg, q) = (deg1, q1) \<Longrightarrow> kahn_inv g deg1 q1 (ordered @ xs)"
proof (induction xs arbitrary: deg q ordered)
  case (Cons x xs)
  obtain d2 q2 where r: "kahn_relax (adj g x) (deg, q) = (d2, q2)" by fastforce
  then have "kahn_relax (adj g x) (deg, xs @ q) = (d2, xs @ q2)" by (simp add: kahn_relax_shift)
  then have "kahn_inv g d2 (xs @ q2) (ordered @ [x])" using kahn_inv_step[OF assms] Cons.prems(1) by simp
  from Cons.IH[OF this] Cons.prems(2) r show ?case by simp
qed simp

lemma levels_loop_ok:
  assumes "valid g"
  shows "kahn_inv g deg queue (concat levels) \<Longrightarrow> length (nodes g) \<le> fuel + length (concat levels) \<Longrightarrow>
    length (nodes g) \<le> steps + length (concat levels) \<Longrightarrow> level_order (deps g) levels \<Longrightarrow>
    \<exists>levels1. levels_loop fuel (adj g) deg queue levels = Some levels1 \<and> level_order (deps g) levels1 \<and>
      kahn_loop steps (adj g) deg queue (concat levels) = Some (concat levels1)"
proof (induction fuel "adj g" deg queue levels arbitrary: steps rule: levels_loop.induct)
  case (1 fuel deg levels)
  then show ?case by auto
next
  case (2 deg x queue levels)
  have "length (concat levels @ x # queue) \<le> length (nodes g)"
    using "2.prems"(1) nodes_distinct[OF assms] by (metis card_mono distinct_card finite_set kahn_inv_def)
  with "2.prems"(2) show ?case by simp
next
  case (3 fuel deg x queue levels)
  let ?q = "x # queue"
  have "length (concat levels @ ?q) \<le> length (nodes g)"
    using "3.prems"(1) nodes_distinct[OF assms] by (metis card_mono distinct_card finite_set kahn_inv_def)
  then obtain rest where steps: "steps = length ?q + rest"
    using "3.prems"(3) by (metis add_le_cancel_left le_Suc_ex length_append nat_add_left_cancel_le add.commute order_trans)
  obtain d1 q1 where r: "relax_level (adj g) ?q (deg, []) = (d1, q1)" by fastforce
  have inv: "kahn_inv g d1 q1 (concat (levels @ [?q]))"
    using kahn_inv_level[OF assms, of deg ?q "[]" "concat levels"] "3.prems"(1) r by simp
  have "set (deps g i) \<subseteq> set (concat levels)" if "i \<in> set ?q" for i
    using "3.prems"(1) that by (auto simp: kahn_inv_def filter_empty_conv)
  then have lay: "level_order (deps g) (levels @ [?q])" using "3.prems"(4) by (simp add: level_order_snoc)
  have "\<exists>levels1. levels_loop fuel (adj g) d1 q1 (levels @ [?q]) = Some levels1 \<and> level_order (deps g) levels1 \<and>
      kahn_loop rest (adj g) d1 q1 (concat (levels @ [?q])) = Some (concat levels1)"
    by (rule "3.hyps"[OF r[symmetric] refl inv _ _ lay]) (use "3.prems"(2,3) steps in auto)
  then show ?case
    using r kahn_loop_level[of ?q rest "adj g" deg "[]" "concat levels"] steps by simp
qed

end

text \<open>Kahn's loop on a built graph.\<close>

lemma kahn_built:
  assumes "distinct (map gen_task_id ts)"
  obtains order where
    "kahn_loop (gg_fuel (built ts)) (dget [] (dg_adj (built ts))) (dget 0 (dg_in_degree (built ts))) (gg_start (built ts)) [] = Some order"
    "distinct order" "set order \<subseteq> set (map gen_task_id ts)" "ordered_from (declared ts) {} order"
    "length order = length ts \<longleftrightarrow> set order = set (map gen_task_id ts)"
    "set order = set (map gen_task_id ts) \<longleftrightarrow>
      (\<forall>t \<in> set ts. set (gt_dependencies t) \<subseteq> set (map gen_task_id ts)) \<and> (\<forall>i. (i, i) \<notin> (dep_rel (declared ts))\<^sup>+)"
proof -
  note f = built_functions[OF assms]
  have "length (map gen_task_id ts) \<le> gg_fuel (built ts)" using f(4) by simp
  from bg.kahn_result[OF assms refl this] obtain order where o:
    "kahn_loop (gg_fuel (built ts)) (adj_list (task_table ts)) (\<lambda>i. int (length (declared ts i)))
       (filter (\<lambda>i. int (length (declared ts i)) = 0) (map gen_task_id ts)) [] = Some order"
    "distinct order" "set order \<subseteq> set (map gen_task_id ts)" "ordered_from (declared ts) {} order"
    "set order = set (map gen_task_id ts) \<longleftrightarrow> (\<forall>i \<in> set (map gen_task_id ts). set (declared ts i) \<subseteq> set (map gen_task_id ts) \<and>
       (i, i) \<notin> (dep_rel (declared ts))\<^sup>+)" by metis
  note dec = declared_task[OF assms]
  have out: "(i, i) \<notin> (dep_rel (declared ts))\<^sup>+" if "i \<notin> set (map gen_task_id ts)" for i
  proof
    have "map_of (task_table ts) i = None" using that by (simp add: map_of_eq_None_iff task_table_def image_image)
    then have "declared ts i = []" by (simp add: declared_def)
    moreover assume "(i, i) \<in> (dep_rel (declared ts))\<^sup>+"
    ultimately show False by (cases rule: converse_tranclE) auto
  qed
  have "length order = length ts \<longleftrightarrow> set order = set (map gen_task_id ts)"
    using o(2,3) assms by (metis card_subset_eq distinct_card finite_set length_map)
  moreover have "(\<forall>i \<in> set (map gen_task_id ts). set (declared ts i) \<subseteq> set (map gen_task_id ts) \<and> (i, i) \<notin> (dep_rel (declared ts))\<^sup>+) \<longleftrightarrow>
      (\<forall>t \<in> set ts. set (gt_dependencies t) \<subseteq> set (map gen_task_id ts)) \<and> (\<forall>i. (i, i) \<notin> (dep_rel (declared ts))\<^sup>+)"
  proof -
    have "(\<forall>i. (i, i) \<notin> (dep_rel (declared ts))\<^sup>+) \<longleftrightarrow> (\<forall>i \<in> set (map gen_task_id ts). (i, i) \<notin> (dep_rel (declared ts))\<^sup>+)"
      using out by blast
    then show ?thesis using dec by (simp add: ball_conj_distrib)
  qed
  ultimately show thesis using that[of order] o f(1-3) by simp
qed

lemma sort_built:
  assumes "distinct (map gen_task_id ts)"
  shows "fst (gg_topological_sort (built ts)) =
    (case fst (gg_has_cycle (built ts)) of
       None \<Rightarrow> None
     | Some True \<Rightarrow> Some (Inl (GenCycle (dg_cycle_nodes (snd (gg_has_cycle (built ts))))))
     | Some False \<Rightarrow>
         (case kahn_loop (gg_fuel (built ts)) (dget [] (dg_adj (built ts))) (dget 0 (dg_in_degree (built ts))) (gg_start (built ts)) [] of
            None \<Rightarrow> None
          | Some order \<Rightarrow> Some (if length order \<noteq> length ts
              then Inl (GenUnresolved (filter (\<lambda>i. i \<notin> set order) (map gen_task_id ts))) else Inr order)))"
proof -
  have b: "dg_tasks (built ts) = task_table ts" "dg_order (built ts) = None" using built_fields[OF assms] by blast+
  then show ?thesis
    by (simp add: gg_topological_sort_def task_table_def comp_def split: prod.split option.split bool.split)
qed

lemma sort_nil: "fst (gg_topological_sort (built [])) = Some (Inr order) \<Longrightarrow> order = []"
  by (simp add: gg_topological_sort_def gg_has_cycle_def built_def new_gen_graph_def gg_start_def gg_fuel_def)

lemma sorted_levels_order:
  assumes "distinct (map gen_task_id ts)" "fst (gg_topological_sort (built ts)) = Some (Inr order)"
  shows "\<exists>levels. get_levelized_tasks (built ts) = Some levels \<and> concat levels = order \<and> level_order (declared ts) levels"
proof (cases "ts = []")
  case True
  then have "order = []" using sort_nil assms(2) by simp
  then show ?thesis using True by (simp add: get_levelized_tasks_def built_def new_gen_graph_def level_order_def)
next
  case False
  note f = built_functions[OF assms(1)]
  have "kahn_loop (gg_fuel (built ts)) (dget [] (dg_adj (built ts))) (dget 0 (dg_in_degree (built ts))) (gg_start (built ts)) [] = Some order"
    using assms(2) unfolding sort_built[OF assms(1)] by (auto split: option.splits bool.splits if_splits)
  moreover have inv: "bg.kahn_inv ts (dget 0 (dg_in_degree (built ts))) (gg_start (built ts)) (concat [])"
    using bg.kahn_inv_start[OF assms(1), of "\<lambda>i. int (length (declared ts i))"] f(2,3) by simp
  moreover have "\<exists>levels. levels_loop (gg_fuel (built ts)) (adj_list (task_table ts)) (dget 0 (dg_in_degree (built ts))) (gg_start (built ts)) [] = Some levels \<and>
      level_order (declared ts) levels \<and>
      kahn_loop (gg_fuel (built ts)) (adj_list (task_table ts)) (dget 0 (dg_in_degree (built ts))) (gg_start (built ts)) (concat []) = Some (concat levels)"
    by (rule bg.levels_loop_ok[OF assms(1) inv]) (use f(4) in \<open>simp_all add: level_order_def\<close>)
  moreover have "dg_tasks (built ts) \<noteq> []" using built_fields[OF assms(1)] False by (simp add: task_table_def)
  ultimately show ?thesis using f(1) by (auto simp: get_levelized_tasks_def)
qed

lemma sorted_levels:
  assumes "distinct (map gen_task_id ts)" "fst (gg_topological_sort (built ts)) = Some (Inr order)"
  shows "\<exists>levels. get_levelized_tasks (built ts) = Some levels \<and> set (concat levels) = set (map gen_task_id ts)"
proof -
  obtain levels where l: "get_levelized_tasks (built ts) = Some levels" "concat levels = order"
    using sorted_levels_order[OF assms] by blast
  obtain xs where x: "kahn_loop (gg_fuel (built ts)) (dget [] (dg_adj (built ts))) (dget 0 (dg_in_degree (built ts))) (gg_start (built ts)) [] = Some xs"
    "length xs = length ts \<longleftrightarrow> set xs = set (map gen_task_id ts)" by (rule kahn_built[OF assms(1)])
  have "order = xs" "length xs = length ts"
    using assms(2) x(1) unfolding sort_built[OF assms(1)] by (auto split: option.splits bool.splits if_splits)
  then show ?thesis using l x(2) by blast
qed

section \<open>The critical path\<close>

lemma best_seq:
  assumes "\<And>y b. y \<in> set ys \<Longrightarrow> \<exists>b1. f y b = Some (Inr b1) \<and> length b \<le> length b1 \<and> (b1 = b \<or> good b1) \<and> (\<forall>n. len y n \<longrightarrow> n \<le> length b1)"
  shows "\<exists>b1. visit_seq f ys b = Some (Inr b1) \<and> length b \<le> length b1 \<and> (b1 = b \<or> good b1) \<and> (\<forall>y \<in> set ys. \<forall>n. len y n \<longrightarrow> n \<le> length b1)"
  using assms
proof (induction ys arbitrary: b)
  case (Cons y ys)
  obtain b1 where b1: "f y b = Some (Inr b1)" "length b \<le> length b1" "b1 = b \<or> good b1" "\<forall>n. len y n \<longrightarrow> n \<le> length b1"
    using Cons.prems[of y b] by auto
  obtain b2 where b2: "visit_seq f ys b1 = Some (Inr b2)" "length b1 \<le> length b2" "b2 = b1 \<or> good b2"
      "\<forall>y \<in> set ys. \<forall>n. len y n \<longrightarrow> n \<le> length b2"
    using Cons.IH[of b1] Cons.prems by auto
  show ?case
  proof (intro exI[of _ b2] conjI)
    show "\<forall>z \<in> set (y # ys). \<forall>n. len z n \<longrightarrow> n \<le> length b2" using b1(4) b2(2,4) by (auto intro: order_trans)
  qed (use b1 b2 in auto)
qed simp

definition simple_walk :: "'a set \<Rightarrow> ('a \<Rightarrow> 'a list) \<Rightarrow> 'a list \<Rightarrow> bool" where
  "simple_walk U adj p \<longleftrightarrow> walk adj p \<and> distinct p \<and> set p \<subseteq> U"

lemma critical_visit_ok:
  assumes "finite U" "\<And>x. set (adj x) \<subseteq> U"
  shows "simple_walk U adj (path @ [x]) \<Longrightarrow> card (U - set path) \<le> fuel \<Longrightarrow>
    \<exists>b. critical_visit fuel adj path x best = Some (Inr b) \<and> length best \<le> length b \<and> (b = best \<or> simple_walk U adj b) \<and>
      (\<forall>n. (\<exists>q. simple_walk U adj (path @ x # q) \<and> n = length (path @ x # q)) \<longrightarrow> n \<le> length b)"
proof (induction fuel arbitrary: path x best)
  case 0
  then have "x \<in> U - set path" by (auto simp: simple_walk_def)
  then show ?case using "0.prems"(2) assms(1) by auto
next
  case (Suc fuel)
  let ?path = "path @ [x]"
  let ?best = "if length ?path > length best then ?path else best"
  let ?f = "\<lambda>y b. if y \<in> set ?path then Some (Inr b) else critical_visit fuel adj ?path y b"
  have x: "x \<in> U" "x \<notin> set path" using Suc.prems(1) by (auto simp: simple_walk_def)
  then have "card (U - set ?path) < card (U - set path)" using assms(1) by (intro psubset_card_mono) auto
  then have card: "card (U - set ?path) \<le> fuel" using Suc.prems(2) by simp
  have "\<exists>b1. ?f y b = Some (Inr b1) \<and> length b \<le> length b1 \<and> (b1 = b \<or> simple_walk U adj b1) \<and>
      (\<forall>n. (\<exists>q. simple_walk U adj (?path @ y # q) \<and> n = length (?path @ y # q)) \<longrightarrow> n \<le> length b1)" if y: "y \<in> set (adj x)" for y b
  proof (cases "y \<in> set ?path")
    case True
    then have "\<not> simple_walk U adj (?path @ y # q)" for q by (auto simp: simple_walk_def)
    then show ?thesis using True by (intro exI[of _ b]) simp
  next
    case False
    have "walk adj (?path @ [y])" by (rule walk_snoc) (use Suc.prems(1) y in \<open>simp_all add: simple_walk_def\<close>)
    then have "simple_walk U adj (?path @ [y])"
      using Suc.prems(1) False y assms(2)[of x] by (auto simp: simple_walk_def)
    from Suc.IH[OF this card, of b] show ?thesis using False by simp
  qed
  from best_seq[where f = ?f and good = "simple_walk U adj" and len = "\<lambda>y n. \<exists>q. simple_walk U adj (?path @ y # q) \<and> n = length (?path @ y # q)"
    and b = ?best, OF this]
  obtain b where b: "visit_seq ?f (adj x) ?best = Some (Inr b)" "length ?best \<le> length b" "b = ?best \<or> simple_walk U adj b"
    "\<forall>y \<in> set (adj x). \<forall>n. (\<exists>q. simple_walk U adj (?path @ y # q) \<and> n = length (?path @ y # q)) \<longrightarrow> n \<le> length b" by blast
  have "length (path @ x # q) \<le> length b" if q: "simple_walk U adj (path @ x # q)" for q
  proof (cases q)
    case Nil
    then show ?thesis using b(2) by (simp split: if_splits)
  next
    case (Cons y r)
    have "walk adj (path @ x # q)" using q by (simp add: simple_walk_def)
    from this[unfolded walk_def, rule_format, of "length path"] have "y \<in> set (adj x)" by (simp add: Cons nth_append)
    then show ?thesis using b(4) q Cons by fastforce
  qed
  moreover have "b = best \<or> simple_walk U adj b" using b(3) Suc.prems(1) by (auto split: if_splits)
  moreover have "length best \<le> length b" using b(2) by (simp split: if_splits)
  moreover have "critical_visit (Suc fuel) adj path x best = Some (Inr b)" using b(1) by simp
  ultimately show ?case by blast
qed

text \<open>A chain of tasks: each depends on the one before.\<close>

definition dep_chain :: "gen_task list \<Rightarrow> name list \<Rightarrow> bool" where
  "dep_chain ts p \<longleftrightarrow> distinct p \<and> set p \<subseteq> set (map gen_task_id ts) \<and> (\<forall>k. Suc k < length p \<longrightarrow> p ! k \<in> set (declared ts (p ! Suc k)))"

lemma dep_chain_walk:
  "distinct (map gen_task_id ts) \<Longrightarrow> dep_chain ts p \<longleftrightarrow> simple_walk (set (map gen_task_id ts)) (adj_list (task_table ts)) p"
  by (auto simp: dep_chain_def simple_walk_def walk_def in_adj_list)

section \<open>Removing a task\<close>

lemma add_edges_keys:
  "set (keys (dg_adj (fold (add_edge i) ds g))) = set (keys (dg_adj g)) \<union> set ds \<and>
   set (keys (dg_rev (fold (add_edge i) ds g))) = set (keys (dg_rev g)) \<union> (if ds = [] then {} else {i})"
  by (induction ds arbitrary: g) (auto simp: add_edge_def)

lemma built_keys:
  "set (keys (dg_adj (built ts))) = (\<Union>t \<in> set ts. set (gt_dependencies t)) \<and>
   set (keys (dg_rev (built ts))) = gen_task_id ` {t \<in> set ts. gt_dependencies t \<noteq> []}"
proof (induction ts rule: rev_induct)
  case (snoc t ts)
  let ?g = "built ts\<lparr>dg_tasks := AList.update (gen_task_id t) t (dg_tasks (built ts)),
      dg_in_degree := AList.update (gen_task_id t) 0 (dg_in_degree (built ts))\<rparr>"
  have "{u \<in> set (ts @ [t]). gt_dependencies u \<noteq> []} =
      {u \<in> set ts. gt_dependencies u \<noteq> []} \<union> (if gt_dependencies t = [] then {} else {t})" by auto
  then show ?case
    using snoc add_edges_keys[of "gen_task_id t" "gt_dependencies t" ?g]
    by (simp add: built_snoc gg_add_task_def Let_def image_Un Un_ac)
qed (simp add: built_def new_gen_graph_def)

lemma dget_in: "x \<in> set (dget [] d k) \<Longrightarrow> k \<in> fst ` set d"
proof (cases "map_of d k")
  case (Some v)
  then show ?thesis using map_of_SomeD[OF Some] by force
qed (simp add: dget_def)

lemma drop_dependents_frame:
  "dg_tasks (fold (drop_dependent i) js g) = dg_tasks g \<and> dg_adj (fold (drop_dependent i) js g) = dg_adj g \<and>
   fst ` set (dg_rev (fold (drop_dependent i) js g)) = fst ` set (dg_rev g) \<and>
   fst ` set (dg_in_degree g) \<subseteq> fst ` set (dg_in_degree (fold (drop_dependent i) js g))"
proof (induction js arbitrary: g)
  case (Cons j js)
  have "dg_tasks (drop_dependent i j g) = dg_tasks g \<and> dg_adj (drop_dependent i j g) = dg_adj g \<and>
    fst ` set (dg_rev (drop_dependent i j g)) = fst ` set (dg_rev g) \<and>
    fst ` set (dg_in_degree g) \<subseteq> fst ` set (dg_in_degree (drop_dependent i j g))"
    by (auto simp: drop_dependent_def insert_absorb dget_in)
  then show ?case using Cons.IH[of "drop_dependent i j g"] by (simp add: subset_trans[of _ "fst ` set (dg_in_degree (drop_dependent i j g))"])
qed simp

lemma drop_dependencies_frame:
  "dg_tasks (fold (drop_dependency i) ds g) = dg_tasks g \<and> dg_rev (fold (drop_dependency i) ds g) = dg_rev g \<and>
   fst ` set (dg_adj (fold (drop_dependency i) ds g)) = fst ` set (dg_adj g) \<and>
   dg_in_degree (fold (drop_dependency i) ds g) = dg_in_degree g"
proof (induction ds arbitrary: g)
  case (Cons d ds)
  have "dg_tasks (drop_dependency i d g) = dg_tasks g \<and> dg_rev (drop_dependency i d g) = dg_rev g \<and>
    fst ` set (dg_adj (drop_dependency i d g)) = fst ` set (dg_adj g) \<and> dg_in_degree (drop_dependency i d g) = dg_in_degree g"
    by (auto simp: drop_dependency_def insert_absorb dget_in)
  then show ?case using Cons.IH[of "drop_dependency i d g"] by auto
qed simp

text \<open>What removing a task comes to.\<close>

lemma remove_task_cases:
  assumes "i \<in> fst ` set (dg_tasks g)" "i \<in> fst ` set (dg_in_degree g)"
  obtains res g1 where "gg_remove_task i g = (res, g1)" "dg_tasks g1 = AList.delete i (dg_tasks g)"
    "res = (if i \<in> fst ` set (dg_adj g) \<and> i \<in> fst ` set (dg_rev g) then Inr () else Inl (GenKeyError i))"
proof -
  define g1 where "g1 = fold (drop_dependent i) (dget [] (dg_adj g) i) g"
  define g2 where "g2 = fold (drop_dependency i) (dget [] (dg_rev g1) i) g1"
  have f: "dg_tasks g2 = dg_tasks g" "fst ` set (dg_adj g2) = fst ` set (dg_adj g)" "fst ` set (dg_rev g2) = fst ` set (dg_rev g)"
    "i \<in> fst ` set (dg_in_degree g2)"
    using drop_dependents_frame[of i "dget [] (dg_adj g) i" g] drop_dependencies_frame[of i "dget [] (dg_rev g1) i" g1] assms(2)
    by (auto simp: g1_def g2_def)
  have run: "gg_remove_task i g =
      (let g3 = g2\<lparr>dg_tasks := AList.delete i (dg_tasks g2)\<rparr>
       in if i \<notin> set (keys (dg_adj g3)) then (Inl (GenKeyError i), g3)
          else let g4 = g3\<lparr>dg_adj := AList.delete i (dg_adj g3)\<rparr>
               in if i \<notin> set (keys (dg_rev g4)) then (Inl (GenKeyError i), g4)
                  else let g5 = g4\<lparr>dg_rev := AList.delete i (dg_rev g4)\<rparr>
                       in if i \<notin> set (keys (dg_in_degree g5)) then (Inl (GenKeyError i), g5)
                          else (Inr (), g5\<lparr>dg_in_degree := AList.delete i (dg_in_degree g5), dg_order := None\<rparr>))"
    using assms(1) by (simp add: gg_remove_task_def g1_def g2_def Let_def)
  show thesis
    using that[of "fst (gg_remove_task i g)" "snd (gg_remove_task i g)"] f by (simp add: run Let_def)
qed

section \<open>A concrete graph\<close>

definition demo_gen_task :: "string \<Rightarrow> name list \<Rightarrow> gen_task" where
  "demo_gen_task n ds = \<lparr>gt_task_type = ''t'', gt_name = n, gt_dependencies = ds, gt_priority = JNum 0, gt_metadata = []\<rparr>"

definition demo_tasks :: "gen_task list" where
  "demo_tasks = [demo_gen_task ''a'' [''t:b'', ''t:c''], demo_gen_task ''b'' [], demo_gen_task ''c'' [''t:b'']]"

section \<open>Properties\<close>

text \<open>C36: The topological sort of a graph of tasks with distinct identifiers returns every task once, after all its
  dependencies, exactly when every dependency is a task of the graph and there is no cycle; otherwise it
  raises.  The search and the loop end.\<close>

theorem topological_sort_correct:
  assumes "distinct (map gen_task_id ts)"
  shows "\<exists>res. fst (gg_topological_sort (built ts)) = Some res \<and>
    (is_ok res \<longleftrightarrow> (\<forall>t \<in> set ts. set (gt_dependencies t) \<subseteq> set (map gen_task_id ts)) \<and> (\<forall>i. (i, i) \<notin> (dep_rel (declared ts))\<^sup>+)) \<and>
    (\<forall>order. res = Inr order \<longrightarrow> distinct order \<and> set order = set (map gen_task_id ts) \<and>
       (\<forall>i \<in> set order. \<forall>d \<in> set (declared ts i). before order d i))"
proof -
  obtain b g1 where h: "gg_has_cycle (built ts) = (Some b, g1)" "b \<longleftrightarrow> (\<exists>i. (i, i) \<in> (dep_rel (declared ts))\<^sup>+)"
    by (rule has_cycle_built[OF assms])
  obtain order where o:
    "kahn_loop (gg_fuel (built ts)) (dget [] (dg_adj (built ts))) (dget 0 (dg_in_degree (built ts))) (gg_start (built ts)) [] = Some order"
    "distinct order" "ordered_from (declared ts) {} order"
    "length order = length ts \<longleftrightarrow> set order = set (map gen_task_id ts)"
    "set order = set (map gen_task_id ts) \<longleftrightarrow>
      (\<forall>t \<in> set ts. set (gt_dependencies t) \<subseteq> set (map gen_task_id ts)) \<and> (\<forall>i. (i, i) \<notin> (dep_rel (declared ts))\<^sup>+)"
    by (rule kahn_built[OF assms])
  show ?thesis
  proof (cases b)
    case True
    then show ?thesis using h sort_built[OF assms] by auto
  next
    case False
    show ?thesis
    proof (cases "length order = length ts")
      case True
      then have "fst (gg_topological_sort (built ts)) = Some (Inr order)" using sort_built[OF assms] h(1) False o(1) by simp
      moreover have "before order d i" if "i \<in> set order" "d \<in> set (declared ts i)" for i d
        using ordered_before[OF o(3,2) that] .
      ultimately show ?thesis using True o by simp
    next
      case no: False
      then have "\<exists>e. fst (gg_topological_sort (built ts)) = Some (Inl e)" using sort_built[OF assms] h(1) False o(1) by simp
      moreover have "\<not> ((\<forall>t \<in> set ts. set (gt_dependencies t) \<subseteq> set (map gen_task_id ts)) \<and> (\<forall>i. (i, i) \<notin> (dep_rel (declared ts))\<^sup>+))"
        using no unfolding o(4,5) .
      ultimately show ?thesis by (metis is_ok.simps(1) sum.distinct(1))
    qed
  qed
qed

theorem topological_sort_correct_witness:
  "\<exists>order. fst (gg_topological_sort (built demo_tasks)) = Some (Inr order) \<and> set order = {''t:a'', ''t:b'', ''t:c''} \<and> before order ''t:b'' ''t:a''"
proof -
  have run: "fst (gg_topological_sort (built demo_tasks)) = Some (Inr [''t:b'', ''t:c'', ''t:a''])" by code_simp
  have ids: "map gen_task_id demo_tasks = [''t:a'', ''t:b'', ''t:c'']" "''t:b'' \<in> set (declared demo_tasks ''t:a'')" by code_simp+
  then have "distinct (map gen_task_id demo_tasks)" by simp
  from topological_sort_correct[OF this] run ids show ?thesis by auto
qed

text \<open>C37: The levels of a graph that can be sorted are its topological order cut into pieces, and the dependencies of a
  task are on earlier levels.\<close>

theorem levels_are_topological_order:
  assumes "distinct (map gen_task_id ts)" "fst (gg_topological_sort (built ts)) = Some (Inr order)"
  shows "\<exists>levels. get_levelized_tasks (built ts) = Some levels \<and> concat levels = order \<and> level_order (declared ts) levels"
  by (rule sorted_levels_order[OF assms])

theorem levels_are_topological_order_witness:
  "\<exists>levels. get_levelized_tasks (built demo_tasks) = Some levels \<and> concat levels = [''t:b'', ''t:c'', ''t:a''] \<and> level_order (declared demo_tasks) levels"
proof -
  have run: "fst (gg_topological_sort (built demo_tasks)) = Some (Inr [''t:b'', ''t:c'', ''t:a''])" by code_simp
  have "distinct (map gen_task_id demo_tasks)" by code_simp
  from levels_are_topological_order[OF this run] show ?thesis .
qed

text \<open>C38: When the topological sort of a freshly built graph of tasks with distinct identifiers returns an order, its
  critical path is a longest chain of tasks in which each depends on the one before.\<close>

theorem critical_path_longest:
  assumes "distinct (map gen_task_id ts)" "fst (gg_topological_sort (built ts)) = Some (Inr order)"
  shows "\<exists>path. calculate_critical_path (built ts) = Some (Inr path) \<and> dep_chain ts path \<and> (\<forall>q. dep_chain ts q \<longrightarrow> length q \<le> length path)"
proof (cases "ts = []")
  case True
  then show ?thesis by (simp add: calculate_critical_path_def built_def new_gen_graph_def dep_chain_def)
next
  case False
  let ?U = "set (map gen_task_id ts)" and ?A = "adj_list (task_table ts)"
  have b: "dg_tasks (built ts) = task_table ts" using built_fields[OF assms(1)] by blast
  obtain levels where l: "get_levelized_tasks (built ts) = Some levels" "set (concat levels) = ?U"
    using sorted_levels[OF assms] by blast
  let ?f = "\<lambda>i b. if i \<in> set (concat levels) then critical_visit (gg_fuel (built ts)) ?A [] i b else Some (Inr b)"
  have closed: "set (?A x) \<subseteq> ?U" for x using adj_list_keys[of "task_table ts" x] by (simp add: task_table_def image_image)
  have fuel: "card (?U - set []) \<le> gg_fuel (built ts)"
    using card_length[of "map gen_task_id ts"] built_functions(4)[OF assms(1)] by simp
  have "\<exists>b1. ?f i b = Some (Inr b1) \<and> length b \<le> length b1 \<and> (b1 = b \<or> simple_walk ?U ?A b1) \<and>
      (\<forall>n. (\<exists>q. simple_walk ?U ?A ([] @ i # q) \<and> n = length ([] @ i # q)) \<longrightarrow> n \<le> length b1)" if "i \<in> set (map gen_task_id ts)" for i b
    using critical_visit_ok[OF finite_set closed, where path = "[]" and x = i and fuel = "gg_fuel (built ts)" and best = b] that l(2) fuel
    by (simp add: simple_walk_def)
  from best_seq[where f = ?f and good = "simple_walk ?U ?A" and len = "\<lambda>i n. \<exists>q. simple_walk ?U ?A ([] @ i # q) \<and> n = length ([] @ i # q)"
    and b = "[]", OF this]
  obtain path where p: "visit_seq ?f (map gen_task_id ts) [] = Some (Inr path)" "path = [] \<or> simple_walk ?U ?A path"
    "\<forall>i \<in> ?U. \<forall>n. (\<exists>q. simple_walk ?U ?A ([] @ i # q) \<and> n = length ([] @ i # q)) \<longrightarrow> n \<le> length path" by blast
  have "calculate_critical_path (built ts) = Some (Inr path)"
    unfolding calculate_critical_path_def built_functions(1)[OF assms(1)] b l(1) option.case task_table_keys p(1)
    using False by (simp add: task_table_def)
  moreover have "dep_chain ts path" unfolding dep_chain_walk[OF assms(1)] using p(2) by (auto simp: simple_walk_def)
  moreover have "length q \<le> length path" if q: "dep_chain ts q" for q
  proof (cases q)
    case (Cons i r)
    have "simple_walk ?U ?A ([] @ i # r)" using q dep_chain_walk[OF assms(1)] Cons by simp
    moreover have "i \<in> ?U" using q Cons by (simp add: dep_chain_def)
    ultimately show ?thesis using p(3) Cons by fastforce
  qed simp
  ultimately show ?thesis by blast
qed

theorem critical_path_longest_witness:
  "\<exists>path. calculate_critical_path (built demo_tasks) = Some (Inr path) \<and> dep_chain demo_tasks path \<and> 3 \<le> length path"
proof -
  have run: "fst (gg_topological_sort (built demo_tasks)) = Some (Inr [''t:b'', ''t:c'', ''t:a''])" by code_simp
  have d: "distinct (map gen_task_id demo_tasks)" by code_simp
  have "map gen_task_id demo_tasks = [''t:a'', ''t:b'', ''t:c'']" "declared demo_tasks ''t:c'' = [''t:b'']" "declared demo_tasks ''t:a'' = [''t:b'', ''t:c'']"
    by code_simp+
  then have "dep_chain demo_tasks [''t:b'', ''t:c'', ''t:a'']"
    by (auto simp: dep_chain_def less_Suc_eq)
  with critical_path_longest[OF d run] show ?thesis by force
qed

text \<open>A task on a dependency that is no task of the graph has no level, nor has anything that depends on it: there
  the critical path is empty although there are chains.\<close>

lemma critical_path_without_order:
  "calculate_critical_path (built [demo_gen_task ''x'' [''t:gone''], demo_gen_task ''y'' [''t:x'']]) = Some (Inr []) \<and>
   dep_chain [demo_gen_task ''x'' [''t:gone''], demo_gen_task ''y'' [''t:x'']] [''t:x'', ''t:y'']"
proof -
  have "calculate_critical_path (built [demo_gen_task ''x'' [''t:gone''], demo_gen_task ''y'' [''t:x'']]) = Some (Inr [])"
    "map gen_task_id [demo_gen_task ''x'' [''t:gone''], demo_gen_task ''y'' [''t:x'']] = [''t:x'', ''t:y'']"
    "declared [demo_gen_task ''x'' [''t:gone''], demo_gen_task ''y'' [''t:x'']] ''t:y'' = [''t:x'']"
    by code_simp+
  then show ?thesis by (simp add: dep_chain_def)
qed

text \<open>C39: Removing a task that a graph holds, with its degree, whatever was added to it or removed from it before,
  raises a key error exactly when the task has no entry in the table of dependents or none in the table of
  dependencies; the task is gone from the table of tasks either way.  In a graph that tasks with distinct
  identifiers were added to and nothing was removed from, it succeeds exactly when some task depends on it and
  it depends on something.\<close>

theorem remove_task_raises_iff:
  assumes "i \<in> set (keys (dg_tasks g))" "i \<in> set (keys (dg_in_degree g))"
  shows "case gg_remove_task i g of (res, g') \<Rightarrow>
    (is_ok res \<longleftrightarrow> i \<in> set (keys (dg_adj g)) \<and> i \<in> set (keys (dg_rev g))) \<and>
    (\<forall>e. res = Inl e \<longrightarrow> e = GenKeyError i) \<and> dg_tasks g' = AList.delete i (dg_tasks g) \<and>
    (\<forall>ts. distinct (map gen_task_id ts) \<and> g = built ts \<longrightarrow>
       (is_ok res \<longleftrightarrow> (\<exists>t \<in> set ts. i \<in> set (gt_dependencies t)) \<and> declared ts i \<noteq> []))"
proof -
  have "i \<in> fst ` set (dg_tasks g)" "i \<in> fst ` set (dg_in_degree g)" using assms by simp_all
  then obtain res g1 where r: "gg_remove_task i g = (res, g1)" "dg_tasks g1 = AList.delete i (dg_tasks g)"
    "res = (if i \<in> fst ` set (dg_adj g) \<and> i \<in> fst ` set (dg_rev g) then Inr () else Inl (GenKeyError i))"
    by (rule remove_task_cases)
  have "is_ok res \<longleftrightarrow> (\<exists>t \<in> set ts. i \<in> set (gt_dependencies t)) \<and> declared ts i \<noteq> []"
    if d: "distinct (map gen_task_id ts)" and g: "g = built ts" for ts
  proof -
    have "keys (dg_tasks g) = map gen_task_id ts" using built_fields[OF d] by (simp only: g task_table_keys)
    then have i: "i \<in> set (map gen_task_id ts)" using assms(1) by simp
    have "i \<in> fst ` set (dg_adj g) \<longleftrightarrow> (\<exists>t \<in> set ts. i \<in> set (gt_dependencies t))"
      "i \<in> fst ` set (dg_rev g) \<longleftrightarrow> i \<in> gen_task_id ` {t \<in> set ts. gt_dependencies t \<noteq> []}"
      using built_keys[of ts] by (auto simp: g)
    moreover have "i \<in> gen_task_id ` {t \<in> set ts. gt_dependencies t \<noteq> []} \<longleftrightarrow> declared ts i \<noteq> []"
      using declared_task[OF d] i by force
    ultimately show ?thesis using r(3) by simp
  qed
  then show ?thesis using r by simp
qed

theorem remove_task_raises_iff_witness:
  "fst (gg_remove_task ''t:a'' (built demo_tasks)) = Inl (GenKeyError ''t:a'') \<and> is_ok (fst (gg_remove_task ''t:c'' (built demo_tasks)))"
proof -
  have d: "distinct (map gen_task_id demo_tasks)"
    "''t:a'' \<in> set (keys (dg_tasks (built demo_tasks)))" "''t:a'' \<in> set (keys (dg_in_degree (built demo_tasks)))"
    "''t:c'' \<in> set (keys (dg_tasks (built demo_tasks)))" "''t:c'' \<in> set (keys (dg_in_degree (built demo_tasks)))"
    by code_simp+
  have "\<not> (\<exists>t \<in> set demo_tasks. ''t:a'' \<in> set (gt_dependencies t))" "\<exists>t \<in> set demo_tasks. ''t:c'' \<in> set (gt_dependencies t)"
    "declared demo_tasks ''t:c'' \<noteq> []" by code_simp+
  then show ?thesis
    using remove_task_raises_iff[OF d(2,3)] remove_task_raises_iff[OF d(4,5)] d(1)
    by (cases "fst (gg_remove_task ''t:a'' (built demo_tasks))") (auto split: prod.splits)
qed

text \<open>So a removal that succeeded can let the next one through although nothing depends on its task any more.\<close>

lemma removal_leaves_entries:
  "let g = built [demo_gen_task ''c'' [], demo_gen_task ''d'' [''t:c''], demo_gen_task ''e'' [''t:d''], demo_gen_task ''f'' [''t:e'']];
       g1 = snd (gg_remove_task ''t:e'' g)
   in dget [] (dg_adj g1) ''t:d'' = [] \<and> is_ok (fst (gg_remove_task ''t:d'' g1))"
  by code_simp

text \<open>An identifier that is listed twice is added twice, which doubles its edges but not the count of its
  dependencies: it can come before one of them.\<close>

definition demo_resolver :: dep_resolver where
  "demo_resolver = fold (\<lambda>(n, ds) r. snd (dr_add_task ''t'' n n ds [] r))
     [(''x'', [''t:d'', ''t:e'']), (''d'', []), (''e'', [''t:f'']), (''f'', [])] (new_dep_resolver True True)"

lemma repeated_identifier_breaks_order:
  "resolve_order [''t:x'', ''t:x'', ''t:d'', ''t:e'', ''t:f''] [] demo_resolver = Some (Inr [''t:d'', ''t:f'', ''t:x'', ''t:e''])"
  by code_simp

text \<open>A task that was added alone to its graph cannot be updated: it has no entry for its dependents.\<close>

lemma update_dependencies_raises:
  "fst (update_task_dependencies ''t:x'' [''t:d''] demo_resolver) = Inl (GenKeyError ''t:x'')"
  by code_simp

end
