(* ===== verification/Spec2Isabelle.thy ===== *)
theory Spec2Isabelle
  imports Lifecycle CircuitBreaker RuntimeGraph ProcessManager Heartbeat Supervisor JobScheduler RuntimeBoot
    MemoryTiers MemoryEngine EventBus OrchEngine DecisionEngine WorkflowValidation
    WriteGuard ReadModel TelemetryRetention GenDeps
begin

text \<open>
  \<^bold>\<open>A verification of the runtime of AI Enterprise OS\<close>

  The program (\<^verbatim>\<open>src/src/ai_company\<close>) is a platform on which engines - memory, events, decisions,
  workflows, orchestration - run under a supervised runtime.  The development models the engines that
  keep state and decide something, as executable functions on explicit states, and proves what makes
  each of them correct; where the code does something else than its documentation says, the theorem
  states what the code does and the manifest records the difference.

  \<^bold>\<open>Conventions.\<close>  A class is a record of its attributes and a method a function that takes the record
  and returns it updated, with the result in front.  A raised exception is \<^verbatim>\<open>Inl\<close>, a returned value
  \<^verbatim>\<open>Inr\<close>; \<^verbatim>\<open>None\<close> around it is a call that never returns (or, where a fuel is named below, that ran
  out of it).  A dictionary is an association list in insertion order, an instant a number of
  microseconds, a float a rational number (no property depends on rounding), text is ASCII.  What the
  code calls but does not contain - handlers, factories, probes, \<^verbatim>\<open>eval\<close>, cron expressions, clocks,
  fresh identifiers, the order in which threads end - is an argument: an environment record or a
  function.  Files are the values written to them: writing never fails and reading gives back what
  was written, save where the failure is the point (the retention of telemetry, the transactions of the
  read model).  Locks are left out, a method is one step, except in the parallel stages of pipelines.  An
  object that the code changes in place while a store keeps it is written back to the store by the model
  (\<^verbatim>\<open>store_mutate\<close>).

  \<^bold>\<open>The runtime\<close> (\<^verbatim>\<open>runtime/\<close>).
  \<^item> \<^verbatim>\<open>Lifecycle\<close>: \<^verbatim>\<open>runtime/lifecycle.py\<close> and \<^verbatim>\<open>orchestration/lifecycle.py\<close>, three transition tables
    (\<^verbatim>\<open>RUNTIME_TRANSITIONS\<close>, \<^verbatim>\<open>TASK_TRANSITIONS\<close>, \<^verbatim>\<open>PIPELINE_TRANSITIONS\<close>) behind one interface, the
    locale \<^verbatim>\<open>guarded_machine\<close>: what clients can reach, which statuses are final.
  \<^item> \<^verbatim>\<open>CircuitBreaker\<close>: \<^verbatim>\<open>runtime/circuit_breaker.py\<close>; any trace of calls refines a streak of failures.
  \<^item> \<^verbatim>\<open>GraphOrder\<close>, \<^verbatim>\<open>RuntimeGraph\<close>: \<^verbatim>\<open>runtime/dependency_graph.py\<close>.  \<^verbatim>\<open>GraphOrder\<close> holds dependency
    orders, the depth-first search for a cycle that \<^verbatim>\<open>TaskGraph\<close> and \<^verbatim>\<open>GenDeps\<close> share, Kahn's loop, and the
    locales \<^verbatim>\<open>dep_counts\<close> and \<^verbatim>\<open>dep_graph\<close> (in the former a dependency may be missing) that the graph
    components interpret; the lemmas give soundness and completeness of the cycle searches and of the orders.
  \<^item> \<^verbatim>\<open>ProcessManager\<close>, \<^verbatim>\<open>Heartbeat\<close>: \<^verbatim>\<open>process_manager.py\<close>, \<^verbatim>\<open>heartbeat.py\<close>, \<^verbatim>\<open>watchdog.py\<close>; which
    threads live is an argument, a check pass takes its failure callback as a function on the state.
  \<^item> \<^verbatim>\<open>Recovery\<close>, \<^verbatim>\<open>Supervisor\<close>: \<^verbatim>\<open>recovery.py\<close>, \<^verbatim>\<open>supervisor.py\<close>, \<^verbatim>\<open>health.py\<close>, \<^verbatim>\<open>telemetry/alerts.py\<close>
    and the callbacks of \<^verbatim>\<open>runtime/engine.py\<close>.  The recovery manager is written against the locale
    \<^verbatim>\<open>recovery_host\<close> (what a restart, a reload, an isolation and an escalation may do to the host); the
    supervisor interprets it with the engine's callbacks (\<^verbatim>\<open>wired_env\<close>).  The lemmas follow a failure
    through the whole loop: heartbeat, callback, recovery attempt, isolation, alert, re-admission.
  \<^item> \<^verbatim>\<open>JobScheduler\<close>: \<^verbatim>\<open>scheduler.py\<close>; how a tick ends - it returns, raises an overflow or never ends -, what
    it runs and how it moves the next runs.  Here instants count from the first of year 1, an addition past
    the bounds of \<^verbatim>\<open>datetime\<close> raises (\<^verbatim>\<open>add_delta\<close>), and one reading of the clock serves a whole tick.
  \<^item> \<^verbatim>\<open>RuntimeState\<close>, \<^verbatim>\<open>RuntimeBoot\<close>: \<^verbatim>\<open>state.py\<close>, \<^verbatim>\<open>startup.py\<close>, \<^verbatim>\<open>shutdown.py\<close> and the life of the engine in
    \<^verbatim>\<open>runtime/engine.py\<close>: the persisted state, registration, the sequences that start and stop the runtime over
    the supervised system, the dependency graph and the scheduler.  \<^verbatim>\<open>runtime_ok\<close> ties the registered engines to
    the graph; \<^verbatim>\<open>boot_step\<close> sums up what a step of the startup may do to the phase and to the persisted state;
    what constructors, \<^verbatim>\<open>start\<close> and \<^verbatim>\<open>stop\<close> do, and which worker threads end within the timeout of their
    join, is the record \<^verbatim>\<open>boot_env\<close>; the threads that do not are listed in \<^verbatim>\<open>rt_lingering\<close>.

  \<^bold>\<open>Memory\<close> (\<^verbatim>\<open>memory/\<close>).  \<^verbatim>\<open>MemoryStore\<close>: the indexed store of \<^verbatim>\<open>store.py\<close> and its file; the
  invariant \<^verbatim>\<open>store_ok\<close> says that every index lists exactly the entries it should.  \<^verbatim>\<open>MemoryTiers\<close>: the
  LRU cache, the session log and the long-term store.  \<^verbatim>\<open>MemoryEngine\<close>: \<^verbatim>\<open>engine.py\<close>, \<^verbatim>\<open>archive.py\<close> and
  \<^verbatim>\<open>retrieval.py\<close>, where entries are changed in place before they are stored again.

  \<^bold>\<open>Events\<close> (\<^verbatim>\<open>events/\<close>).  \<^verbatim>\<open>EventQueue\<close>: \<^verbatim>\<open>priorities.py\<close> on the binary heap of the standard library,
  a refinement of a bag drained by priority (locale \<^verbatim>\<open>priority_queue\<close>).  \<^verbatim>\<open>EventBus\<close>: \<^verbatim>\<open>bus.py\<close>,
  \<^verbatim>\<open>dispatcher.py\<close>, \<^verbatim>\<open>router.py\<close>, \<^verbatim>\<open>filters.py\<close>, \<^verbatim>\<open>dead_letter.py\<close>, \<^verbatim>\<open>history.py\<close>, \<^verbatim>\<open>metrics.py\<close>,
  \<^verbatim>\<open>persistence.py\<close>, \<^verbatim>\<open>replay.py\<close>; a handler is given by its outcome per event; \<^verbatim>\<open>first_by\<close> gives the
  subscribers of an event without the router's loop and \<^verbatim>\<open>delivery_of\<close> the result of one delivery.

  \<^bold>\<open>Orchestration\<close> (\<^verbatim>\<open>orchestration/\<close>).  \<^verbatim>\<open>OrchModel\<close> (\<^verbatim>\<open>models.py\<close>, \<^verbatim>\<open>exceptions.py\<close>), \<^verbatim>\<open>TaskGraph\<close>
  (\<^verbatim>\<open>dependencies.py\<close>, again on \<^verbatim>\<open>GraphOrder\<close>), \<^verbatim>\<open>TaskExecutor\<close> (\<^verbatim>\<open>executor.py\<close>), \<^verbatim>\<open>Condition\<close> (the
  condition language of stages), \<^verbatim>\<open>Durability\<close> (\<^verbatim>\<open>checkpoint.py\<close>, \<^verbatim>\<open>rollback.py\<close>, \<^verbatim>\<open>recovery.py\<close>),
  \<^verbatim>\<open>PipelineBatch\<close> and \<^verbatim>\<open>PipelineRun\<close> (\<^verbatim>\<open>pipeline.py\<close> with its observers), \<^verbatim>\<open>OrchScheduler\<close>
  (\<^verbatim>\<open>scheduler.py\<close>, \<^verbatim>\<open>state.py\<close>) and \<^verbatim>\<open>OrchEngine\<close> (\<^verbatim>\<open>engine.py\<close>), which composes them.  A run is a ledger of started
  and finished tasks: the relation \<^verbatim>\<open>effect\<close> of \<^verbatim>\<open>PipelineBatch\<close> says what a piece of a run may do to
  it, and every stage composes such effects.  In a parallel stage the ends of the tasks come in an
  arbitrary order, drawn from the environment.

  \<^bold>\<open>Decisions\<close> (\<^verbatim>\<open>decision/\<close>).  \<^verbatim>\<open>DecisionModel\<close>: \<^verbatim>\<open>models.py\<close>, \<^verbatim>\<open>risk.py\<close>, \<^verbatim>\<open>policy.py\<close>, \<^verbatim>\<open>approval.py\<close>,
  \<^verbatim>\<open>routing.py\<close>, \<^verbatim>\<open>matrix.py\<close>.  \<^verbatim>\<open>DecisionEngine\<close>: \<^verbatim>\<open>engine.py\<close>, \<^verbatim>\<open>history.py\<close> and the approval inbox of
  \<^verbatim>\<open>services/runtime_facade.py\<close>, whose engine is rebuilt from the history file.  \<^verbatim>\<open>inbox_effect\<close> sums up one
  operation of the inbox, \<^verbatim>\<open>inbox_inv\<close> says that the index is what the file rebuilds.

  \<^bold>\<open>Workflows\<close> (\<^verbatim>\<open>workflow/\<close>).  \<^verbatim>\<open>WorkflowModel\<close>: definitions, state machine, contexts;
  \<^verbatim>\<open>WorkflowValidation\<close>: validators, loader and registry.

  \<^bold>\<open>Dashboard and telemetry.\<close>  \<^verbatim>\<open>WriteGuard\<close>: \<^verbatim>\<open>api/auth.py\<close>, \<^verbatim>\<open>api/guards.py\<close> and what the routes of
  \<^verbatim>\<open>api/write_endpoints.py\<close> share; \<^verbatim>\<open>authorised\<close> says which requests pass, \<^verbatim>\<open>guarded_route\<close> composes guard, reason,
  operation and audit; an exception of the operation itself, which passes through the guard, is left out.
  \<^verbatim>\<open>ReadModel\<close>: \<^verbatim>\<open>readmodel/store.py\<close> and \<^verbatim>\<open>readmodel/engine.py\<close>, tables rebuilt from JSON-lines files or
  synchronised from a watermark, both as transactions on a connection (what is written and what is committed);
  the lemmas say when a transaction succeeds and what is left of one that fails, and relate the two imports.  \<^verbatim>\<open>TelemetryRetention\<close>:
  \<^verbatim>\<open>telemetry/retention.py\<close>, which rolls expired records up before it truncates them, with writes that may fail
  at any point; \<^verbatim>\<open>tagged_rows\<close> lists the rows a run appends, and however a run ends it has appended a prefix of
  them.  \<^verbatim>\<open>JsonLines\<close> holds what the two share: lines, records and the reading of fields.

  \<^bold>\<open>Generation\<close> (\<^verbatim>\<open>generator/\<close>).  \<^verbatim>\<open>GenPlan\<close>: \<^verbatim>\<open>planner.py\<close>, the plan of tasks, its execution order and the order by
  levels.  \<^verbatim>\<open>GenDeps\<close>: \<^verbatim>\<open>dependency.py\<close>, the dependency graph with its cached order and the resolver over several
  graphs; \<^verbatim>\<open>built\<close> is the graph of a list of tasks, \<^verbatim>\<open>declared\<close> the dependencies it stands for.

  \<^bold>\<open>Shared theories.\<close>  \<^verbatim>\<open>Prelude\<close>: dictionaries, results, stable sorting, walks along a functional
  relation (\<^verbatim>\<open>cycle_free\<close>), rounding; \<^verbatim>\<open>PyValue\<close>: JSON values with the equality of the language.

  \<^bold>\<open>Loops and fuel.\<close>  Loops over data are recursion on the data.  The graph searches run on fuel: the number
  of nodes plus one, which \<^verbatim>\<open>find_visit_ok\<close> and \<^verbatim>\<open>visit_ok_fuel\<close> show to be enough; draining the event queue
  takes its size as fuel; the retries of a task and the recovery of a run are bounded by the attempts left.
  The layers of a task graph and the batches of a parallel stage end because the tasks left decrease (a
  measure).  The loops that may run for ever - the ancestor walk of memories, the hierarchy of approvals,
  the advance of a recurring job - are \<^verbatim>\<open>partial_function (option)\<close>, and theorems say exactly when they return.

  \<^bold>\<open>Not modelled.\<close>  Reloading of the configuration, built-in job handlers, metrics and
  diagnostics of the runtime; tier maintenance, knowledge graphs,
  snapshots, summaries and embeddings of the memory; the thread-pool variants of event delivery and timing
  statistics; the built-in handlers of the orchestration coordinator and planning from files; explanation
  texts and export files; configuration, the appenders of the telemetry files, audit trail.  The document generators, the
  command line, the routes of the HTTP interface and the model providers are glue over templates, the
  file system, FastAPI and external services.  The interpreter's recursion limit is not modelled.
\<close>

end
